(* ===== verification/Prelude.thy ===== *)
theory Prelude
  imports Main "HOL-Library.AList" "HOL-Library.Word" "HOL-Library.Char_ord"
    "HOL-Library.List_Lexorder" "HOL-Library.Signed_Division"
begin

text \<open>
  Shared vocabulary of the development.

  \<^item> Go maps are association lists (\<open>gomap\<close>): reading is \<open>map_of\<close>, writing \<open>mput\<close>, deleting
    \<open>mdel\<close>, \<open>len\<close> is \<open>length\<close>.  A nested map (\<^verbatim>\<open>map[string]map[string]...\<close>) is a nested
    association list; reading through a missing level reads the nil map, which has no
    entries, so \<open>mget2\<close>, \<open>mget3\<close>, \<open>mget4\<close> never fail.
  \<^item> \<open>gotime\<close> is the number of nanoseconds since Go's zero \<open>time.Time\<close>, so \<open>IsZero\<close> is
    equality with 0; \<open>duration\<close> is a number of nanoseconds.
  \<^item> Strings are byte lists; \<open>TrimSpace\<close> and \<open>ToLower\<close> act on ASCII.
  \<^item> \<open>transition_system\<close> is the interface of a component whose operations keep an
    invariant: the client's lemma about whole runs is proved once in it.
\<close>

named_theorems gomap_simps "lookup laws of (nested) Go maps"

section \<open>Go maps\<close>

type_synonym ('k, 'v) gomap = "('k \<times> 'v) list"

abbreviation mget :: "('k, 'v) gomap \<Rightarrow> 'k \<Rightarrow> 'v option" where
  "mget m k \<equiv> map_of m k"

definition mput :: "'k \<Rightarrow> 'v \<Rightarrow> ('k, 'v) gomap \<Rightarrow> ('k, 'v) gomap" where
  "mput k v m = AList.update k v m"

definition mdel :: "'k \<Rightarrow> ('k, 'v) gomap \<Rightarrow> ('k, 'v) gomap" where
  "mdel k m = AList.delete k m"

definition mkeys :: "('k, 'v) gomap \<Rightarrow> 'k list" where
  "mkeys m = map fst m"

definition mwf :: "('k, 'v) gomap \<Rightarrow> bool" where
  "mwf m \<longleftrightarrow> distinct (map fst m)"

definition mfilter :: "('k \<Rightarrow> 'v \<Rightarrow> bool) \<Rightarrow> ('k, 'v) gomap \<Rightarrow> ('k, 'v) gomap" where
  "mfilter P m = filter (\<lambda>(k, v). P k v) m"

text \<open>Reading with Go's zero value for a missing key.\<close>

definition mdef :: "'v \<Rightarrow> ('k, 'v) gomap \<Rightarrow> 'k \<Rightarrow> 'v" where
  "mdef d m k = (case mget m k of None \<Rightarrow> d | Some v \<Rightarrow> v)"

definition mget2 :: "('a, ('b, 'v) gomap) gomap \<Rightarrow> 'a \<Rightarrow> 'b \<Rightarrow> 'v option" where
  "mget2 m a b = mget (mdef [] m a) b"

definition mget3 :: "('a, ('b, ('c, 'v) gomap) gomap) gomap \<Rightarrow> 'a \<Rightarrow> 'b \<Rightarrow> 'c \<Rightarrow> 'v option" where
  "mget3 m a b c = mget2 (mdef [] m a) b c"

definition mget4 ::
  "('a, ('b, ('c, ('d, 'v) gomap) gomap) gomap) gomap \<Rightarrow> 'a \<Rightarrow> 'b \<Rightarrow> 'c \<Rightarrow> 'd \<Rightarrow> 'v option" where
  "mget4 m a b c d = mget3 (mdef [] m a) b c d"

text \<open>Writing through the levels, creating a missing level first.\<close>

definition mput2 :: "'a \<Rightarrow> 'b \<Rightarrow> 'v \<Rightarrow> ('a, ('b, 'v) gomap) gomap \<Rightarrow> ('a, ('b, 'v) gomap) gomap" where
  "mput2 a b v m = mput a (mput b v (mdef [] m a)) m"

definition mput3 ::
  "'a \<Rightarrow> 'b \<Rightarrow> 'c \<Rightarrow> 'v \<Rightarrow> ('a, ('b, ('c, 'v) gomap) gomap) gomap \<Rightarrow> ('a, ('b, ('c, 'v) gomap) gomap) gomap" where
  "mput3 a b c v m = mput a (mput2 b c v (mdef [] m a)) m"

lemma mget_mput [simp, gomap_simps]: "mget (mput k v m) = (mget m)(k \<mapsto> v)"
  by (rule ext) (simp add: mput_def update_conv')

lemma mget_mdel [simp, gomap_simps]: "mget (mdel k m) = (mget m)(k := None)"
  by (rule ext) (simp add: mdel_def delete_conv')

lemma mdef_Nil [simp]: "mdef d [] k = d"
  by (simp add: mdef_def)

lemma mget2_Nil [simp]: "mget2 [] a b = None"
  by (simp add: mget2_def)

lemma mget3_Nil [simp]: "mget3 [] a b c = None"
  by (simp add: mget3_def)

lemma mget4_Nil [simp]: "mget4 [] a b c d = None"
  by (simp add: mget4_def)

lemma mdef_mput [simp, gomap_simps]: "mdef d (mput k v m) k' = (if k' = k then v else mdef d m k')"
  by (simp add: mdef_def)

lemma mdef_mdel [simp, gomap_simps]: "mdef d (mdel k m) k' = (if k' = k then d else mdef d m k')"
  by (simp add: mdef_def)

lemma mget2_mput2 [simp, gomap_simps]:
  "mget2 (mput2 a b v m) a' b' = (if a' = a \<and> b' = b then Some v else mget2 m a' b')"
  by (simp add: mget2_def mput2_def)

lemma mget3_mput3 [simp, gomap_simps]:
  "mget3 (mput3 a b c v m) a' b' c' =
     (if a' = a \<and> b' = b \<and> c' = c then Some v else mget3 m a' b' c')"
  by (simp add: mget3_def mput3_def)

lemma mget4_conv: "mget4 m a b c d = (case mget3 m a b c of None \<Rightarrow> None | Some x \<Rightarrow> mget x d)"
  by (simp add: mget4_def mget3_def mget2_def mdef_def split: option.splits)

lemma mwf_Nil [simp]: "mwf []"
  by (simp add: mwf_def)

lemma mwf_mput [simp]: "mwf m \<Longrightarrow> mwf (mput k v m)"
  by (simp add: mwf_def mput_def distinct_update)

lemma mwf_mdel [simp]: "mwf m \<Longrightarrow> mwf (mdel k m)"
  by (simp add: mwf_def mdel_def distinct_delete)

lemma mwf_mfilter [simp]: "mwf m \<Longrightarrow> mwf (mfilter P m)"
  by (induction m) (auto simp: mwf_def mfilter_def)

lemma mget_mfilter:
  "mwf m \<Longrightarrow> mget (mfilter P m) k =
     (case mget m k of None \<Rightarrow> None | Some v \<Rightarrow> if P k v then Some v else None)"
  by (induction m) (auto simp: mwf_def mfilter_def map_of_eq_None_iff split: option.splits)

lemma set_mkeys: "set (mkeys m) = dom (mget m)"
  by (simp add: mkeys_def dom_map_of_conv_image_fst)

lemma length_mput: "length (mput k v m) = (if mget m k = None then Suc (length m) else length m)"
  by (induction m) (auto simp: mput_def)

lemma length_mdel_le: "length (mdel k m) \<le> length m"
  by (simp add: mdel_def length_delete_le)

lemma length_mput_upd [simp]: "mget m k \<noteq> None \<Longrightarrow> length (mput k v m) = length m"
  by (simp add: length_mput)

lemma mdel_mput_new: "mget m k = None \<Longrightarrow> mdel k (mput k v m) = m"
  by (induction m) (auto simp: mput_def mdel_def)

lemma mwf_card: "mwf m \<Longrightarrow> length m = card (dom (mget m))"
  unfolding mwf_def by (metis distinct_card dom_map_of_conv_image_fst length_map list.set_map)

text \<open>The map interface the components rely on, discharged for association lists.\<close>

locale map_spec =
  fixes emp :: "'m"
    and lookup :: "'m \<Rightarrow> 'k \<Rightarrow> 'v option"
    and put :: "'k \<Rightarrow> 'v \<Rightarrow> 'm \<Rightarrow> 'm"
    and del :: "'k \<Rightarrow> 'm \<Rightarrow> 'm"
    and size_of :: "'m \<Rightarrow> nat"
    and wf :: "'m \<Rightarrow> bool"
  assumes emp: "lookup emp k = None" "wf emp"
    and put: "lookup (put k v m) k' = (if k' = k then Some v else lookup m k')"
    and del: "lookup (del k m) k' = (if k' = k then None else lookup m k')"
    and wf_put: "wf m \<Longrightarrow> wf (put k v m)"
    and wf_del: "wf m \<Longrightarrow> wf (del k m)"
    and size_of: "wf m \<Longrightarrow> size_of m = card (dom (lookup m)) \<and> finite (dom (lookup m))"
begin

lemma put_dom: "dom (lookup (put k v m)) = insert k (dom (lookup m))"
  by (auto simp: put split: if_splits)

lemma del_dom: "dom (lookup (del k m)) = dom (lookup m) - {k}"
  by (auto simp: del split: if_splits)

lemma size_put_new: "wf m \<Longrightarrow> lookup m k = None \<Longrightarrow> size_of (put k v m) = Suc (size_of m)"
  using size_of [of m] size_of [OF wf_put, of m k v] by (simp add: put_dom domIff)

lemma size_put_old: "wf m \<Longrightarrow> lookup m k \<noteq> None \<Longrightarrow> size_of (put k v m) = size_of m"
  using size_of [of m] size_of [OF wf_put, of m k v] by (auto simp: put_dom insert_absorb domIff)

lemma size_del_old: "wf m \<Longrightarrow> lookup m k \<noteq> None \<Longrightarrow> Suc (size_of (del k m)) = size_of m"
  using size_of [of m] size_of [OF wf_del, of m k]
  by (metis card.remove del_dom domIff)

end

interpretation gomap: map_spec "[]" mget mput mdel length mwf
  by unfold_locales (auto simp: mwf_card finite_dom_map_of)

section \<open>Time, durations and integers\<close>

type_synonym gotime = int
type_synonym duration = int

abbreviation millisecond :: duration where "millisecond \<equiv> 1000000"
abbreviation second :: duration where "second \<equiv> 1000000000"
abbreviation minute :: duration where "minute \<equiv> 60000000000"

abbreviation minInt64 :: int where "minInt64 \<equiv> -9223372036854775808"
abbreviation maxInt64 :: int where "maxInt64 \<equiv> 9223372036854775807"

definition IsZero :: "gotime \<Rightarrow> bool" where
  "IsZero t \<longleftrightarrow> t = 0"

text \<open>\<open>Time.Sub\<close> saturates at the bounds of \<open>Duration\<close>.\<close>

definition time_Sub :: "gotime \<Rightarrow> gotime \<Rightarrow> duration" where
  "time_Sub t u = max minInt64 (min maxInt64 (t - u))"

definition UnixMilli :: "gotime \<Rightarrow> int" where
  "UnixMilli t = (t - 62135596800 * second) div millisecond"

definition Milliseconds :: "duration \<Rightarrow> int" where
  "Milliseconds d = d sdiv millisecond"

section \<open>Strings\<close>

definition is_space :: "char \<Rightarrow> bool" where
  "is_space c \<longleftrightarrow> of_char c \<in> {9, 10, 11, 12, 13, 32 :: nat}"

definition TrimSpace :: "string \<Rightarrow> string" where
  "TrimSpace s = rev (dropWhile is_space (rev (dropWhile is_space s)))"

definition char_lower :: "char \<Rightarrow> char" where
  "char_lower c = (if 65 \<le> (of_char c :: nat) \<and> (of_char c :: nat) \<le> 90 then char_of (of_char c + 32 :: nat) else c)"

definition ToLower :: "string \<Rightarrow> string" where
  "ToLower s = map char_lower s"

definition HasPrefix :: "string \<Rightarrow> string \<Rightarrow> bool" where
  "HasPrefix s p \<longleftrightarrow> take (length p) s = p"

lemma TrimSpace_Nil [simp]: "TrimSpace [] = []"
  by (simp add: TrimSpace_def)

lemma dropWhile_idem' [simp]: "dropWhile P (dropWhile P xs) = dropWhile P xs"
  by (induction xs) auto

lemma dropWhile_rev_dropWhile:
  "dropWhile P (rev (dropWhile P (rev (dropWhile P xs)))) = rev (dropWhile P (rev (dropWhile P xs)))"
proof -
  let ?ys = "dropWhile P xs" and ?zs = "dropWhile P (rev (dropWhile P xs))"
  show ?thesis
  proof (cases "?zs = []")
    case True
    then show ?thesis by (simp only: rev.simps dropWhile.simps)
  next
    case False
    obtain pre where "rev ?ys = pre @ ?zs"
      by (metis takeWhile_dropWhile_id)
    then have ys: "?ys = rev ?zs @ rev pre"
      by (metis rev_append rev_rev_ident)
    from False have ne: "rev ?zs \<noteq> []"
      by (simp only: rev_is_Nil_conv not_False_eq_True)
    from ne ys have "?ys \<noteq> []"
      by (metis append_is_Nil_conv)
    moreover from ne ys have "hd (rev ?zs) = hd ?ys"
      by (metis hd_append2)
    ultimately have "\<not> P (hd (rev ?zs))"
      using hd_dropWhile by metis
    with ne show ?thesis
      by (metis dropWhile_eq_self_iff)
  qed
qed

lemma TrimSpace_idem [simp]: "TrimSpace (TrimSpace s) = TrimSpace s"
  by (simp add: TrimSpace_def dropWhile_rev_dropWhile)

lemma HasPrefix_append [simp]: "HasPrefix (p @ s) p"
  by (simp add: HasPrefix_def)

section \<open>Runs of a component's operations\<close>

fun run_ops :: "('s \<Rightarrow> 'o \<Rightarrow> 's) \<Rightarrow> 's \<Rightarrow> 'o list \<Rightarrow> 's" where
  "run_ops step s [] = s"
| "run_ops step s (x # xs) = run_ops step (step s x) xs"

lemma run_ops_append: "run_ops step s (xs @ ys) = run_ops step (run_ops step s xs) ys"
  by (induction xs arbitrary: s) auto

text \<open>
  A relation \<open>rel\<close> that every operation of a component respects, and that composes,
  holds between the two ends of every run; with \<open>rel s t = (inv s \<longrightarrow> inv t)\<close> this is
  invariant preservation, with an order it is monotonicity.
\<close>

locale transition_system =
  fixes step :: "'s \<Rightarrow> 'o \<Rightarrow> 's"
    and allowed :: "'o \<Rightarrow> bool"
    and rel :: "'s \<Rightarrow> 's \<Rightarrow> bool"
  assumes rel_refl: "rel s s"
    and rel_trans: "rel s t \<Longrightarrow> rel t u \<Longrightarrow> rel s u"
    and rel_step: "allowed x \<Longrightarrow> rel s (step s x)"
begin

lemma rel_run: "list_all allowed xs \<Longrightarrow> rel s (run_ops step s xs)"
proof (induction xs arbitrary: s)
  case Nil
  show ?case by (simp add: rel_refl)
next
  case (Cons x xs)
  then have "rel s (step s x)" and "rel (step s x) (run_ops step (step s x) xs)"
    by (auto intro: rel_step)
  then show ?case by (auto intro: rel_trans)
qed

end

end
