(* ===== verification/BrokerTypes.thy ===== *)
theory BrokerTypes
  imports Prelude
begin

text \<open>
  Data of the broker: \<^verbatim>\<open>internal/broker/types.go\<close>, \<^verbatim>\<open>errors.go\<close> and the sentinel errors of
  \<^verbatim>\<open>idempotency.go\<close>.  A Go \<open>error\<close> is a value of the datatype \<open>error\<close>, \<open>nil\<close> is \<open>None\<close>; a
  pointer to a struct that may be \<open>nil\<close> is an \<open>option\<close>.  A \<open>*inflightEntry\<close> held in a map is
  the entry itself: the code never stores a nil entry and never shares one.
\<close>

section \<open>Errors\<close>

datatype error =
    ErrBackpressure
  | ErrProducerOverloaded
  | ErrNotOwner
  | ErrTopicExists string
  | ProducerOverloadError (pe_Reason: string) (pe_RetryAfter: duration) (pe_Cause: error)
  | ErrIdempotencyInFlight
  | ErrIdempotencyLeaseHeld
  | ErrIdempotencyLeaseLost
  | ErrIdempotencyNotFound
  | ErrIdempotencyBadLease
  | ErrText string

fun error_Error :: "error \<Rightarrow> string" where
  "error_Error ErrBackpressure = ''backpressure: partition is full''"
| "error_Error ErrProducerOverloaded = ''producer overload''"
| "error_Error ErrNotOwner = ''not owner''"
| "error_Error (ErrTopicExists name) = ''topic already exists: '' @ name"
| "error_Error (ProducerOverloadError reason ra cause) =
     (if reason \<noteq> '''' then ''producer overload: '' @ reason else ''producer overload'')"
| "error_Error ErrIdempotencyInFlight = ''idempotency: key already in-flight''"
| "error_Error ErrIdempotencyLeaseHeld = ''idempotency: lease held by another worker''"
| "error_Error ErrIdempotencyLeaseLost = ''idempotency: lease lost or expired''"
| "error_Error ErrIdempotencyNotFound = ''idempotency: key not found''"
| "error_Error ErrIdempotencyBadLease = ''idempotency: invalid lease duration''"
| "error_Error (ErrText s) = s"

text \<open>\<open>errors.Is\<close> through \<open>ProducerOverloadError.Is\<close> and \<open>Unwrap\<close>; a wrapped
  \<open>ErrTopicExists\<close> matches whatever name it was wrapped with.\<close>

fun errors_Is :: "error \<Rightarrow> error \<Rightarrow> bool" where
  "errors_Is (ProducerOverloadError reason ra cause) target =
     (ProducerOverloadError reason ra cause = target \<or> target = ErrProducerOverloaded
        \<or> errors_Is cause target)"
| "errors_Is (ErrTopicExists name) target = (case target of ErrTopicExists _ \<Rightarrow> True | _ \<Rightarrow> False)"
| "errors_Is e target = (e = target)"

section \<open>Messages and topics\<close>

type_synonym bytes = "8 word list"

record retryPolicy =
  rp_MaxAttempts :: int
  rp_BackoffMs :: int
  rp_MaxBackoffMs :: int

record dlqMetadata =
  dlq_OriginalTopic :: string
  dlq_OriginalPartition :: int
  dlq_OriginalOffset :: int
  dlq_Attempts :: int
  dlq_LastError :: string
  dlq_RoutedAtMs :: int

record envelope =
  env_RunID :: string
  env_StepID :: string
  env_ParentStepID :: string
  env_Labels :: "(string, string) gomap"
  env_TargetTopic :: string
  env_PartitionOverride :: "int option"
  env_IdempotencyKey :: string
  env_Deadline :: "gotime option"
  env_RetryPolicy :: "retryPolicy option"
  env_TenantID :: string
  env_DLQ :: "dlqMetadata option"

definition zeroEnvelope :: envelope where
  "zeroEnvelope =
     \<lparr>env_RunID = '''', env_StepID = '''', env_ParentStepID = '''', env_Labels = [],
      env_TargetTopic = '''', env_PartitionOverride = None, env_IdempotencyKey = '''',
      env_Deadline = None, env_RetryPolicy = None, env_TenantID = '''', env_DLQ = None\<rparr>"

record routingMetadata =
  rm_Label :: string
  rm_Meta :: "(string, string) gomap"

record message =
  msg_Offset :: int
  msg_Partition :: int
  msg_Key :: bytes
  msg_Value :: bytes
  msg_Envelope :: "envelope option"
  msg_Routing :: "routingMetadata option"
  msg_Attempts :: int
  msg_LastError :: string

record routingDecision =
  rd_Label :: string
  rd_TargetTopic :: string
  rd_PartitionOverride :: "int option"
  rd_Meta :: "(string, string) gomap"

type_synonym router = "string \<Rightarrow> message \<Rightarrow> error + routingDecision"

abbreviation TopicModeStandard :: string where "TopicModeStandard \<equiv> ''standard''"
abbreviation TopicModeRealtime :: string where "TopicModeRealtime \<equiv> ''realtime''"

record topicConfig =
  tc_Mode :: string

record topicState =
  ts_partitions :: "message list list"
  ts_byteSums :: "int list list"
  ts_Config :: topicConfig

record topicDescription =
  td_Name :: string
  td_Partitions :: int
  td_Config :: topicConfig

record inflightEntry =
  ie_Msg :: message
  ie_SentAt :: gotime
  ie_Attempts :: int
  ie_NextDeliverAt :: gotime
  ie_LastError :: string
  ie_Owner :: string

record deliverySnapshot =
  ds_Owner :: string
  ds_At :: gotime

record retryStateEntry =
  rs_LastError :: string
  rs_LastErrorAt :: gotime

text \<open>\<open>router.go\<close>: the router that decides nothing.\<close>

definition NoopRouter_Route :: router where
  "NoopRouter_Route topic msg =
     Inr \<lparr>rd_Label = '''', rd_TargetTopic = '''', rd_PartitionOverride = None, rd_Meta = []\<rparr>"

text \<open>The idempotency key and tenant a message carries (empty when it has no envelope).\<close>

definition msg_idemKey :: "message \<Rightarrow> string" where
  "msg_idemKey m = (case msg_Envelope m of None \<Rightarrow> '''' | Some e \<Rightarrow> env_IdempotencyKey e)"

definition msg_tenant :: "message \<Rightarrow> string" where
  "msg_tenant m = (case msg_Envelope m of None \<Rightarrow> '''' | Some e \<Rightarrow> env_TenantID e)"

definition msg_size :: "message \<Rightarrow> int" where
  "msg_size m = int (length (msg_Key m) + length (msg_Value m))"

end
