(* ===== verification/Storage.thy ===== *)
theory Storage
  imports BrokerTypes "HOL-Library.Sublist"
begin

text \<open>
  The write-ahead log, \<^verbatim>\<open>internal/storage/wal.go\<close>.  \<open>entry\<close> is \<open>storage.Entry\<close>.  \<open>filewal\<close> is
  \<open>FileWAL\<close>: \<open>wal_file\<close> holds the lines written to the file, \<open>wal_synced\<close> how many of them an
  fsync has made durable, \<open>wal_buf\<close> the lines still in the \<open>bufio.Writer\<close>.  A line is an
  encoded entry or a torn fragment of one.  What the operating system answers is a script
  (\<open>wal_io\<close>), consumed one outcome per \<open>Append\<close>; an exhausted script answers success.
  JSON itself is not modelled: a line decodes to the entry that was encoded, and only the
  encoded length (\<open>jsonLen\<close>, a parameter) matters, for the scanner's line limit.
\<close>

abbreviation RecordTypeMessage :: nat where "RecordTypeMessage \<equiv> 1"
abbreviation RecordTypeOffset :: nat where "RecordTypeOffset \<equiv> 2"
abbreviation RecordTypeTopic :: nat where "RecordTypeTopic \<equiv> 3"
abbreviation RecordTypeRetryState :: nat where "RecordTypeRetryState \<equiv> 4"
abbreviation RecordTypeConsumeIdempotency :: nat where "RecordTypeConsumeIdempotency \<equiv> 5"

record entry =
  e_Type :: nat
  e_Topic :: string
  e_Partition :: int
  e_Offset :: int
  e_TopicMode :: string
  e_Group :: string
  e_Key :: bytes
  e_Value :: bytes
  e_RoutingLabel :: string
  e_RoutingMeta :: "(string, string) gomap"
  e_RunID :: string
  e_StepID :: string
  e_ParentStepID :: string
  e_Labels :: "(string, string) gomap"
  e_TargetTopic :: string
  e_PartitionOverride :: "int option"
  e_IdempotencyKey :: string
  e_Deadline :: "gotime option"
  e_RetryMaxAttempts :: int
  e_RetryBackoffMs :: int
  e_RetryMaxBackoffMs :: int
  e_TenantID :: string
  e_DLQOriginalTopic :: string
  e_DLQOriginalPartition :: int
  e_DLQOriginalOffset :: int
  e_DLQAttempts :: int
  e_DLQLastError :: string
  e_DLQRoutedAtMs :: int
  e_LastError :: string
  e_LastErrorAt :: "gotime option"
  e_IdempotencyScope :: string
  e_IdempotencyStatus :: string
  e_LeaseOwner :: string
  e_LeaseUntil :: "gotime option"
  e_Result :: bytes
  e_UpdatedAt :: "gotime option"

text \<open>The composite literal \<^verbatim>\<open>storage.Entry{Type: ty}\<close>: every other field is its zero value.\<close>

definition zeroEntry :: "nat \<Rightarrow> entry" where
  "zeroEntry ty =
     \<lparr>e_Type = ty, e_Topic = '''', e_Partition = 0, e_Offset = 0, e_TopicMode = '''',
      e_Group = '''', e_Key = [], e_Value = [], e_RoutingLabel = '''', e_RoutingMeta = [],
      e_RunID = '''', e_StepID = '''', e_ParentStepID = '''', e_Labels = [],
      e_TargetTopic = '''', e_PartitionOverride = None, e_IdempotencyKey = '''',
      e_Deadline = None, e_RetryMaxAttempts = 0, e_RetryBackoffMs = 0,
      e_RetryMaxBackoffMs = 0, e_TenantID = '''', e_DLQOriginalTopic = '''',
      e_DLQOriginalPartition = 0, e_DLQOriginalOffset = 0, e_DLQAttempts = 0,
      e_DLQLastError = '''', e_DLQRoutedAtMs = 0, e_LastError = '''', e_LastErrorAt = None,
      e_IdempotencyScope = '''', e_IdempotencyStatus = '''', e_LeaseOwner = '''',
      e_LeaseUntil = None, e_Result = [], e_UpdatedAt = None\<rparr>"

datatype line = Line entry | Torn

datatype io = IoOk | IoEncodeFail | IoFlushFail | IoSyncFail

record filewal =
  wal_file :: "line list"
  wal_synced :: nat
  wal_buf :: "line list"
  wal_bad :: bool
  wal_syncInterval :: duration
  wal_lastSync :: gotime
  wal_io :: "io list"

definition OpenFileWALWithOptions :: "line list \<Rightarrow> duration \<Rightarrow> gotime \<Rightarrow> io list \<Rightarrow> filewal" where
  "OpenFileWALWithOptions content syncInterval now script =
     \<lparr>wal_file = content, wal_synced = length content, wal_buf = [], wal_bad = False,
      wal_syncInterval = (if syncInterval < 0 then 0 else syncInterval),
      wal_lastSync = now, wal_io = script\<rparr>"

text \<open>\<open>bufio.Writer.Flush\<close>: a writer that failed once stays failed.\<close>

definition bw_Flush :: "io \<Rightarrow> filewal \<Rightarrow> error option \<times> filewal" where
  "bw_Flush oc w =
     (if wal_bad w then (Some (ErrText ''write''), w)
      else if oc = IoFlushFail then (Some (ErrText ''write''), w\<lparr>wal_bad := True\<rparr>)
      else (None, w\<lparr>wal_file := wal_file w @ wal_buf w, wal_buf := []\<rparr>))"

definition flushAndSyncLocked :: "gotime \<Rightarrow> io \<Rightarrow> filewal \<Rightarrow> error option \<times> filewal" where
  "flushAndSyncLocked now oc w =
     (case bw_Flush oc w of
        (Some err, w1) \<Rightarrow> (Some (ErrText (''flush WAL buffer: '' @ error_Error err)), w1)
      | (None, w1) \<Rightarrow>
          if oc = IoSyncFail then (Some (ErrText ''fsync WAL''), w1)
          else (None, w1\<lparr>wal_synced := length (wal_file w1), wal_lastSync := now\<rparr>))"

definition next_io :: "filewal \<Rightarrow> io" where
  "next_io w = (case wal_io w of [] \<Rightarrow> IoOk | oc # _ \<Rightarrow> oc)"

definition FileWAL_Append :: "gotime \<Rightarrow> entry \<Rightarrow> filewal \<Rightarrow> error option \<times> filewal" where
  "FileWAL_Append now e w0 =
     (let oc = next_io w0; w = w0\<lparr>wal_io := tl (wal_io w0)\<rparr> in
      if oc = IoEncodeFail \<or> wal_bad w then (Some (ErrText ''encode WAL entry''), w)
      else
        let w1 = w\<lparr>wal_buf := wal_buf w @ [Line e]\<rparr> in
        if 0 < wal_syncInterval w1 \<and> time_Sub now (wal_lastSync w1) < wal_syncInterval w1
        then (None, w1)
        else flushAndSyncLocked now oc w1)"

text \<open>\<open>Replay\<close>: flush, then scan every line.  An undecodable line or one over the scanner's
  10 MiB limit is an error; the entries before it are not returned.\<close>

fun scan_lines :: "(entry \<Rightarrow> nat) \<Rightarrow> line list \<Rightarrow> error + entry list" where
  "scan_lines jsonLen [] = Inr []"
| "scan_lines jsonLen (Torn # ls) = Inl (ErrText ''decode WAL entry'')"
| "scan_lines jsonLen (Line e # ls) =
     (if jsonLen e \<ge> 10 * 1024 * 1024 then Inl (ErrText ''scan WAL: token too long'')
      else case scan_lines jsonLen ls of Inl err \<Rightarrow> Inl err | Inr es \<Rightarrow> Inr (e # es))"

definition FileWAL_Replay :: "(entry \<Rightarrow> nat) \<Rightarrow> filewal \<Rightarrow> (error + entry list) \<times> filewal" where
  "FileWAL_Replay jsonLen w =
     (case bw_Flush IoOk w of
        (Some err, w1) \<Rightarrow> (Inl (ErrText ''flush WAL buffer before replay''), w1)
      | (None, w1) \<Rightarrow> (scan_lines jsonLen (wal_file w1), w1))"

definition FileWAL_Close :: "gotime \<Rightarrow> filewal \<Rightarrow> error option \<times> filewal" where
  "FileWAL_Close now w = flushAndSyncLocked now (next_io w) (w\<lparr>wal_io := tl (wal_io w)\<rparr>)"

text \<open>What a restart finds: after a process crash the lines that reached the file, after a
  power failure those an fsync covered.\<close>

definition survives_crash :: "filewal \<Rightarrow> line list" where
  "survives_crash w = wal_file w"

definition survives_power_loss :: "filewal \<Rightarrow> line list" where
  "survives_power_loss w = take (wal_synced w) (wal_file w)"

section \<open>Healthy logs: the WAL interface\<close>

text \<open>A log in strict mode (\<open>SyncInterval = 0\<close>) on a disk that does not fail.\<close>

definition wal_healthy :: "filewal \<Rightarrow> bool" where
  "wal_healthy w \<longleftrightarrow> \<not> wal_bad w \<and> wal_io w = [] \<and> wal_buf w = [] \<and> wal_syncInterval w = 0
     \<and> wal_synced w = length (wal_file w)"

lemma Append_healthy:
  "wal_healthy w \<Longrightarrow> FileWAL_Append now e w =
     (None, w\<lparr>wal_file := wal_file w @ [Line e], wal_synced := Suc (length (wal_file w)),
              wal_lastSync := now\<rparr>)"
  by (simp add: wal_healthy_def FileWAL_Append_def Let_def next_io_def flushAndSyncLocked_def
      bw_Flush_def)

lemma Append_healthy_snd:
  "wal_healthy w \<Longrightarrow> wal_healthy (snd (FileWAL_Append now e w))
     \<and> wal_file (snd (FileWAL_Append now e w)) = wal_file w @ [Line e]"
  by (simp add: Append_healthy) (simp add: wal_healthy_def)

lemma scan_lines_append:
  "scan_lines jl (ls @ ms) =
     (case scan_lines jl ls of
        Inl err \<Rightarrow> Inl err
      | Inr es \<Rightarrow> (case scan_lines jl ms of Inl err \<Rightarrow> Inl err | Inr fs \<Rightarrow> Inr (es @ fs)))"
  by (induction jl ls rule: scan_lines.induct) (auto split: sum.splits)

lemma scan_lines_ok:
  "list_all (\<lambda>e. jl e < 10 * 1024 * 1024) es \<Longrightarrow> scan_lines jl (map Line es) = Inr es"
  by (induction es) auto

lemma Replay_healthy:
  "wal_healthy w \<Longrightarrow> FileWAL_Replay jl w = (scan_lines jl (wal_file w), w)"
  by (simp add: wal_healthy_def FileWAL_Replay_def bw_Flush_def)

text \<open>What a client of \<open>storage.WAL\<close> relies on: an append to a healthy log succeeds and adds
  exactly its entry at the end of what \<open>Replay\<close> returns.\<close>

locale wal_interface =
  fixes append :: "entry \<Rightarrow> 'w \<Rightarrow> error option \<times> 'w"
    and replay :: "'w \<Rightarrow> error + entry list"
    and healthy :: "'w \<Rightarrow> bool"
    and small :: "entry \<Rightarrow> bool"
  assumes append_ok: "healthy w \<Longrightarrow> fst (append e w) = None"
    and append_healthy: "healthy w \<Longrightarrow> healthy (snd (append e w))"
    and append_replay: "healthy w \<Longrightarrow> small e \<Longrightarrow> replay w = Inr es \<Longrightarrow>
          replay (snd (append e w)) = Inr (es @ [e])"
begin

lemma append_all_replay:
  "healthy w \<Longrightarrow> list_all small xs \<Longrightarrow> replay w = Inr es \<Longrightarrow>
     healthy (fold (\<lambda>e w. snd (append e w)) xs w)
     \<and> replay (fold (\<lambda>e w. snd (append e w)) xs w) = Inr (es @ xs)"
proof (induction xs arbitrary: w es)
  case Nil
  then show ?case by simp
next
  case (Cons x xs)
  then show ?case
    using Cons.IH [of "snd (append x w)" "es @ [x]"] append_healthy append_replay by auto
qed

end

interpretation fw: wal_interface "FileWAL_Append now" "\<lambda>w. fst (FileWAL_Replay jl w)" wal_healthy
    "\<lambda>e. jl e < 10 * 1024 * 1024"
proof unfold_locales
  fix w e assume h: "wal_healthy w"
  show "fst (FileWAL_Append now e w) = None" by (simp add: Append_healthy [OF h])
  show "wal_healthy (snd (FileWAL_Append now e w))" using Append_healthy_snd [OF h] by simp
next
  fix w e es
  assume h: "wal_healthy w" and small: "jl e < 10 * 1024 * 1024"
    and "fst (FileWAL_Replay jl w) = Inr es"
  then have "scan_lines jl (wal_file w) = Inr es" by (simp add: Replay_healthy)
  moreover have "wal_healthy (snd (FileWAL_Append now e w))"
    and "wal_file (snd (FileWAL_Append now e w)) = wal_file w @ [Line e]"
    using Append_healthy_snd [OF h] by auto
  ultimately show "fst (FileWAL_Replay jl (snd (FileWAL_Append now e w))) = Inr (es @ [e])"
    using small by (simp add: Replay_healthy scan_lines_append)
qed

section \<open>Any disk: acknowledged appends survive\<close>

fun lines_entries :: "line list \<Rightarrow> entry list" where
  "lines_entries [] = []"
| "lines_entries (Line e # ls) = e # lines_entries ls"
| "lines_entries (Torn # ls) = lines_entries ls"

lemma lines_entries_append [simp]: "lines_entries (a @ b) = lines_entries a @ lines_entries b"
  by (induction a rule: lines_entries.induct) auto

lemma lines_entries_Line [simp]: "lines_entries (map Line es) = es"
  by (induction es) auto

text \<open>A run of appends on any disk: the entries whose \<open>Append\<close> returned nil, and the log.\<close>

fun append_run :: "(gotime \<times> entry) list \<Rightarrow> filewal \<Rightarrow> entry list \<times> filewal" where
  "append_run [] w = ([], w)"
| "append_run ((now, e) # xs) w =
     (case FileWAL_Append now e w of
        (Some err, w') \<Rightarrow> append_run xs w'
      | (None, w') \<Rightarrow> (let (acked, w'') = append_run xs w' in (e # acked, w'')))"

definition wal_strict :: "filewal \<Rightarrow> bool" where
  "wal_strict w \<longleftrightarrow> wal_syncInterval w = 0 \<and> wal_synced w \<le> length (wal_file w)"

lemma Append_strict_err:
  assumes "FileWAL_Append now e w = (Some err, w')" "wal_strict w"
  shows "wal_strict w' \<and> (\<exists>ls. wal_file w' = wal_file w @ ls) \<and> wal_synced w' = wal_synced w"
  using assms
  by (auto simp: FileWAL_Append_def Let_def flushAndSyncLocked_def bw_Flush_def wal_strict_def
      split: if_splits option.splits prod.splits)

lemma Append_strict_ok:
  assumes "FileWAL_Append now e w = (None, w')" "wal_strict w"
  shows "wal_strict w' \<and> wal_file w' = wal_file w @ wal_buf w @ [Line e]
    \<and> wal_synced w' = length (wal_file w')"
  using assms
  by (auto simp: FileWAL_Append_def Let_def flushAndSyncLocked_def bw_Flush_def wal_strict_def
      split: if_splits option.splits prod.splits)

lemma append_run_subseq:
  assumes "append_run xs w = (acked, w')" "wal_strict w"
  shows "wal_strict w' \<and> (\<exists>ls. wal_file w' = wal_file w @ ls
      \<and> wal_synced w \<le> wal_synced w'
      \<and> subseq (lines_entries (take (wal_synced w) (wal_file w)) @ acked)
            (lines_entries (take (wal_synced w') (wal_file w'))))"
  using assms
proof (induction xs w arbitrary: acked w' rule: append_run.induct)
  case (1 w)
  then show ?case by simp
next
  case (2 now e xs w)
  obtain r w1 where ap: "FileWAL_Append now e w = (r, w1)" by force
  show ?case
  proof (cases r)
    case (Some err)
    with ap "2.prems" have run: "append_run xs w1 = (acked, w')" by simp
    from Append_strict_err [OF ap [unfolded Some] "2.prems"(2)] obtain ls where
      s1: "wal_strict w1" and f1: "wal_file w1 = wal_file w @ ls" and y1: "wal_synced w1 = wal_synced w"
      by auto
    from "2.IH"(2) [OF ap [symmetric] Some run s1] f1 y1 "2.prems"(2) show ?thesis
      by (auto simp: wal_strict_def)
  next
    case None
    with ap "2.prems" obtain acked' where run: "append_run xs w1 = (acked', w')"
      and acked: "acked = e # acked'" by (auto split: prod.splits)
    from Append_strict_ok [OF ap [unfolded None] "2.prems"(2)] have
      s1: "wal_strict w1" and f1: "wal_file w1 = wal_file w @ wal_buf w @ [Line e]"
      and y1: "wal_synced w1 = length (wal_file w1)" by auto
    have "subseq (lines_entries (take (wal_synced w) (wal_file w)) @ [e])
            (lines_entries (wal_file w1))"
    proof -
      have "lines_entries (wal_file w) = lines_entries (take (wal_synced w) (wal_file w))
              @ lines_entries (drop (wal_synced w) (wal_file w))"
        by (metis append_take_drop_id lines_entries_append)
      then show ?thesis
        by (auto simp: f1 intro: list_emb_append_mono list_emb_prefix)
    qed
    then have "subseq (lines_entries (take (wal_synced w) (wal_file w)) @ acked)
            (lines_entries (take (wal_synced w1) (wal_file w1)) @ acked')"
      by (auto simp: acked y1 intro: list_emb_append_mono
          [of _ "lines_entries (take (wal_synced w) (wal_file w)) @ [e]" _ acked' acked', simplified])
    moreover from "2.IH"(1) [OF ap [symmetric] None run s1] obtain ls where
      "wal_strict w'" "wal_file w' = wal_file w1 @ ls" "wal_synced w1 \<le> wal_synced w'"
      "subseq (lines_entries (take (wal_synced w1) (wal_file w1)) @ acked')
            (lines_entries (take (wal_synced w') (wal_file w')))"
      by auto
    ultimately show ?thesis
      using f1 y1 "2.prems"(2) subseq_order.order_trans by (fastforce simp: wal_strict_def)
  qed
qed

section \<open>Strict logs whose fsync does not fail\<close>

text \<open>In strict mode, on a disk that may fail to take a write but never fails an fsync, the
  file holds exactly the entries whose \<open>Append\<close> returned nil, all of them synced.\<close>

definition wal_sound :: "filewal \<Rightarrow> bool" where
  "wal_sound w \<longleftrightarrow> wal_syncInterval w = 0 \<and> IoSyncFail \<notin> set (wal_io w)
     \<and> (wal_bad w \<or> wal_buf w = []) \<and> wal_synced w = length (wal_file w)"

lemma next_io_in: "next_io w \<noteq> IoOk \<Longrightarrow> next_io w \<in> set (wal_io w)"
  by (auto simp: next_io_def split: list.splits)

lemma Append_sound:
  assumes "FileWAL_Append now e w = (r, w')" "wal_sound w"
  shows "wal_sound w' \<and> wal_file w' = (if r = None then wal_file w @ [Line e] else wal_file w)"
proof -
  have "set (tl (wal_io w)) \<subseteq> set (wal_io w)" by (cases "wal_io w") auto
  moreover have "next_io w \<noteq> IoSyncFail" using assms(2) next_io_in [of w] by (auto simp: wal_sound_def)
  ultimately show ?thesis
    using assms
    by (auto simp: FileWAL_Append_def Let_def flushAndSyncLocked_def bw_Flush_def wal_sound_def
        split: if_splits)
qed

lemma Replay_sound:
  assumes "wal_sound w" "\<not> wal_bad w"
  shows "FileWAL_Replay jl w = (scan_lines jl (wal_file w), w)"
  using assms by (cases w) (simp add: wal_sound_def FileWAL_Replay_def bw_Flush_def)

end
