(* ===== verification/BrokerHelper.thy ===== *)
theory BrokerHelper
  imports BrokerTypes
begin

text \<open>
  Pure helpers of the broker: \<^verbatim>\<open>internal/broker/helper.go\<close>, \<open>computeBackoff\<close> of \<^verbatim>\<open>broker.go\<close> and
  \<open>validateLease\<close> of \<^verbatim>\<open>consumer_runner.go\<close>.  The hash is computed on 32-bit words, backoffs on
  64-bit two's complement durations (\<open>wrap64\<close>), since both wrap in the code.  Lemmas: the
  hash picks a partition in range and is FNV-1a; the prefix-sum byte count is the byte count
  of the unacknowledged suffix; backoff is the capped exponential, and without a cap it
  overflows.
\<close>

unbundle bit_operations_syntax

section \<open>Definitions\<close>

fun fnv1a :: "32 word \<Rightarrow> bytes \<Rightarrow> 32 word" where
  "fnv1a h [] = h"
| "fnv1a h (b # bs) = fnv1a ((h XOR ucast b) * 16777619) bs"

definition pickPartition :: "bytes \<Rightarrow> int \<Rightarrow> int" where
  "pickPartition key numPartitions =
     (if key = [] then 0
      else uint (fnv1a 2166136261 key mod word_of_int numPartitions))"

text \<open>Two's complement reading of a 64-bit result.\<close>

definition wrap64 :: "int \<Rightarrow> int" where
  "wrap64 x = (x + 9223372036854775808) mod 18446744073709551616 - 9223372036854775808"

text \<open>The index of the first unacknowledged message, \<^verbatim>\<open>int(slowestAck) + 1\<close> clamped at 0.\<close>

definition ack_start :: "int \<Rightarrow> nat" where
  "ack_start slowestAck = nat (wrap64 (slowestAck + 1))"

definition bufferedCount :: "message list \<Rightarrow> int \<Rightarrow> int" where
  "bufferedCount partMsgs slowestAck =
     (let start = ack_start slowestAck in
      if length partMsgs \<le> start then 0 else int (length partMsgs - start))"

definition bufferedBytesCount :: "message list \<Rightarrow> int list \<Rightarrow> int \<Rightarrow> int" where
  "bufferedBytesCount partMsgs partByteSums slowestAck =
     (if partMsgs = [] then 0
      else if length partByteSums \<noteq> length partMsgs
      then sum_list (map msg_size (drop (ack_start slowestAck) partMsgs))
      else
        let start = ack_start slowestAck in
        if length partMsgs \<le> start then 0
        else
          let total = partByteSums ! (length partByteSums - 1) in
          if start = 0 then total else total - partByteSums ! (start - 1))"

definition appendLastError :: "string \<Rightarrow> string \<Rightarrow> string" where
  "appendLastError existing addition =
     (let addition' = TrimSpace addition in
      if addition' = '''' then existing
      else
        let existing' = TrimSpace existing in
        if existing' = '''' then addition' else existing' @ '' | '' @ addition')"

fun backoffLoop :: "int \<Rightarrow> duration \<Rightarrow> nat \<Rightarrow> duration" where
  "backoffLoop maxMs backoff 0 = backoff"
| "backoffLoop maxMs backoff (Suc n) =
     (if maxMs > 0 \<and> backoff \<ge> wrap64 (maxMs * millisecond) then wrap64 (maxMs * millisecond)
      else
        let backoff' = wrap64 (backoff * 2) in
        if maxMs > 0 \<and> backoff' > wrap64 (maxMs * millisecond) then wrap64 (maxMs * millisecond)
        else backoffLoop maxMs backoff' n)"

definition computeBackoff :: "retryPolicy option \<Rightarrow> int \<Rightarrow> duration" where
  "computeBackoff p retryNumber =
     (case p of
        None \<Rightarrow> 0
      | Some rp \<Rightarrow>
          if rp_BackoffMs rp \<le> 0 \<or> retryNumber \<le> 0 then 0
          else
            let backoff = wrap64 (rp_BackoffMs rp * millisecond) in
            if rp_MaxBackoffMs rp > 0 \<and> backoff > wrap64 (rp_MaxBackoffMs rp * millisecond)
            then wrap64 (rp_MaxBackoffMs rp * millisecond)
            else backoffLoop (rp_MaxBackoffMs rp) backoff (nat (retryNumber - 1)))"

definition validateLease :: "duration \<Rightarrow> error option" where
  "validateLease lease =
     (if lease \<le> 0 then Some ErrIdempotencyBadLease
      else if lease < 250 * millisecond then Some ErrIdempotencyBadLease
      else if lease > 10 * minute then Some ErrIdempotencyBadLease
      else None)"

section \<open>Partition choice\<close>

lemma fnv1a_foldl: "fnv1a h bs = foldl (\<lambda>h b. (h XOR ucast b) * 16777619) h bs"
  by (induction bs arbitrary: h) auto

lemma uint_word_mod_bound:
  fixes w :: "32 word"
  assumes "0 < n" "n < 2 ^ 32"
  shows "0 \<le> uint (w mod word_of_int n) \<and> uint (w mod word_of_int n) < n"
proof -
  have "uint (word_of_int n :: 32 word) = n"
    using assms by (simp add: uint_word_of_int_eq take_bit_int_eq_self)
  then show ?thesis
    using assms by (simp add: uint_mod)
qed

lemma pickPartition_range:
  "0 < n \<Longrightarrow> n < 2 ^ 32 \<Longrightarrow> 0 \<le> pickPartition key n \<and> pickPartition key n < n"
  by (simp add: pickPartition_def uint_word_mod_bound)

section \<open>Buffered bytes\<close>

text \<open>\<open>prefix_sums ms\<close> is what \<open>produceLocked\<close> and the replay loop maintain in
  \<open>partitionByteSums\<close>: the running total of key and value lengths.\<close>

definition prefix_sums :: "message list \<Rightarrow> int list" where
  "prefix_sums ms = map (\<lambda>i. sum_list (map msg_size (take (Suc i) ms))) [0..<length ms]"

lemma length_prefix_sums [simp]: "length (prefix_sums ms) = length ms"
  by (simp add: prefix_sums_def)

lemma prefix_sums_Nil [simp]: "prefix_sums [] = []"
  by (simp add: prefix_sums_def)

lemma prefix_sums_nth: "i < length ms \<Longrightarrow> prefix_sums ms ! i = sum_list (map msg_size (take (Suc i) ms))"
  by (simp add: prefix_sums_def)

lemma prefix_sums_snoc:
  "prefix_sums (ms @ [m]) = prefix_sums ms @ [sum_list (map msg_size ms) + msg_size m]"
  by (auto simp: prefix_sums_def)

lemma prefix_sums_last: "ms \<noteq> [] \<Longrightarrow> prefix_sums ms ! (length ms - Suc 0) = sum_list (map msg_size ms)"
  by (simp add: prefix_sums_nth)

lemma bufferedBytesCount_prefix_sums:
  "bufferedBytesCount ms (prefix_sums ms) slowest
     = sum_list (map msg_size (drop (ack_start slowest) ms))"
proof (cases "length ms \<le> ack_start slowest \<or> ack_start slowest = 0")
  case True
  then show ?thesis
    by (auto simp: bufferedBytesCount_def Let_def prefix_sums_last)
next
  case False
  let ?k = "ack_start slowest"
  have "sum_list (map msg_size ms)
          = sum_list (map msg_size (take ?k ms)) + sum_list (map msg_size (drop ?k ms))"
    by (metis append_take_drop_id map_append sum_list_append)
  with False show ?thesis
    by (auto simp: bufferedBytesCount_def Let_def prefix_sums_last prefix_sums_nth)
qed

lemma bufferedCount_drop: "bufferedCount ms slowest = int (length (drop (ack_start slowest) ms))"
  by (simp add: bufferedCount_def Let_def)

section \<open>Error texts\<close>

lemma appendLastError_keeps:
  assumes "TrimSpace addition \<noteq> ''''"
  shows "\<exists>pre. appendLastError existing addition = pre @ TrimSpace addition"
  using assms by (auto simp: appendLastError_def Let_def)

lemma appendLastError_nonempty:
  "TrimSpace addition \<noteq> '''' \<Longrightarrow> appendLastError existing addition \<noteq> ''''"
  by (auto simp: appendLastError_def Let_def)

section \<open>Backoff\<close>

lemma wrap64_id: "minInt64 \<le> x \<Longrightarrow> x \<le> maxInt64 \<Longrightarrow> wrap64 x = x"
  by (simp add: wrap64_def)

lemma wrap64_bounds: "minInt64 \<le> wrap64 x \<and> wrap64 x \<le> maxInt64"
proof -
  have "0 \<le> (x + 9223372036854775808) mod 18446744073709551616"
    and "(x + 9223372036854775808) mod 18446744073709551616 < 18446744073709551616"
    by simp_all
  then show ?thesis unfolding wrap64_def by linarith
qed

lemma backoffLoop_capped:
  assumes "0 < maxMs" "2 * (maxMs * millisecond) \<le> maxInt64" "0 < b" "b \<le> maxMs * millisecond"
  shows "backoffLoop maxMs b n = min (maxMs * millisecond) (b * 2 ^ n)"
  using assms(3,4)
proof (induction n arbitrary: b)
  case 0
  then show ?case by simp
next
  case (Suc n)
  let ?M = "maxMs * millisecond"
  have M: "wrap64 ?M = ?M" and b2: "wrap64 (b * 2) = b * 2"
    using assms Suc.prems by (auto intro!: wrap64_id)
  have grow: "b * 2 \<le> b * 2 ^ Suc n"
    using Suc.prems by simp
  show ?case
  proof (cases "b * 2 \<le> ?M")
    case True
    then have "b < ?M" using Suc.prems by linarith
    with True M b2 assms Suc show ?thesis
      by (simp add: Let_def algebra_simps)
  next
    case False
    then have "?M \<le> b * 2 ^ Suc n" using grow by linarith
    with False M b2 assms(1) Suc.prems show ?thesis
      by (cases "b = ?M") (simp_all add: Let_def min_def)
  qed
qed

lemma backoffLoop_uncapped:
  assumes "maxMs \<le> 0" "0 < b" "b * 2 ^ n \<le> maxInt64"
  shows "backoffLoop maxMs b n = b * 2 ^ n"
  using assms(2,3)
proof (induction n arbitrary: b)
  case 0
  then show ?case by simp
next
  case (Suc n)
  have "(1::int) \<le> 2 ^ n" by simp
  then have "b * 2 \<le> b * 2 ^ Suc n" using Suc.prems by simp
  also have "\<dots> \<le> maxInt64" by (rule Suc.prems(2))
  finally have "wrap64 (b * 2) = b * 2"
    using Suc.prems(1) by (intro wrap64_id) auto
  with assms(1) Suc show ?case by (simp add: Let_def algebra_simps)
qed

text \<open>Backoff is the capped exponential: with a cap whose double still fits a duration, retry
  number \<open>n\<close> waits exactly \<open>min cap (base * 2^(n-1))\<close>.\<close>

theorem computeBackoff_exponential:
  assumes "0 < rp_BackoffMs rp" "rp_BackoffMs rp * millisecond \<le> maxInt64"
    and "0 < rp_MaxBackoffMs rp" "2 * (rp_MaxBackoffMs rp * millisecond) \<le> maxInt64" "0 < n"
  shows "computeBackoff (Some rp) n =
    min (rp_MaxBackoffMs rp * millisecond) (rp_BackoffMs rp * millisecond * 2 ^ nat (n - 1))"
proof -
  let ?b = "rp_BackoffMs rp * millisecond" and ?M = "rp_MaxBackoffMs rp * millisecond"
  have w: "wrap64 ?b = ?b" "wrap64 ?M = ?M" using assms by (auto intro!: wrap64_id)
  have "?b * 1 \<le> ?b * 2 ^ nat (n - 1)" using assms(1) by (intro mult_left_mono) auto
  then have grow: "?b \<le> ?b * 2 ^ nat (n - 1)" by simp
  show ?thesis
  proof (cases "?M < ?b")
    case True
    then have "min ?M (?b * 2 ^ nat (n - 1)) = ?M" using grow by linarith
    with True assms(1,3,5) show ?thesis by (simp only: computeBackoff_def Let_def w option.case) simp
  next
    case False
    then have "backoffLoop (rp_MaxBackoffMs rp) ?b (nat (n - 1)) = min ?M (?b * 2 ^ nat (n - 1))"
      using assms by (intro backoffLoop_capped) auto
    with False assms(1,3,5) show ?thesis by (simp only: computeBackoff_def Let_def w option.case) simp
  qed
qed

theorem computeBackoff_exponential_witness:
  "computeBackoff (Some \<lparr>rp_MaxAttempts = 9, rp_BackoffMs = 100, rp_MaxBackoffMs = 5000\<rparr>) 4 = 800 * millisecond
   \<and> computeBackoff (Some \<lparr>rp_MaxAttempts = 9, rp_BackoffMs = 100, rp_MaxBackoffMs = 5000\<rparr>) 40 = 5000 * millisecond"
  using computeBackoff_exponential [of "\<lparr>rp_MaxAttempts = 9, rp_BackoffMs = 100, rp_MaxBackoffMs = 5000\<rparr>" 4]
    computeBackoff_exponential [of "\<lparr>rp_MaxAttempts = 9, rp_BackoffMs = 100, rp_MaxBackoffMs = 5000\<rparr>" 40]
  by simp

text \<open>Without a cap the doubling is not bounded: with a base of 100 ms the 38th retry computes a
  negative delay, so the message is due at once instead of later than before.\<close>

theorem computeBackoff_uncapped_overflow:
  "computeBackoff (Some \<lparr>rp_MaxAttempts = 0, rp_BackoffMs = 100, rp_MaxBackoffMs = 0\<rparr>) 37 = 100 * millisecond * 2 ^ 36
   \<and> computeBackoff (Some \<lparr>rp_MaxAttempts = 0, rp_BackoffMs = 100, rp_MaxBackoffMs = 0\<rparr>) 38 < 0"
  by code_simp

end
