(* ===== verification/Idempotency.thy ===== *)
theory Idempotency
  imports Storage BrokerHelper
begin

text \<open>
  The idempotency store, \<^verbatim>\<open>internal/broker/idempotency.go\<close>: producer-scope keys
  (\<open>Begin\<close>, \<open>Commit\<close>, \<open>Fail\<close>, \<open>Check\<close>) and consumer-scope keys with leases
  (\<open>ConsumeBeginLease\<close>, \<open>ConsumeRenewLease\<close>, \<open>ConsumeCommitIfOwner\<close>, \<open>ConsumeFailIfOwner\<close>,
  \<open>ConsumeCheck\<close>).  The store writes consumer-scope transitions to the same \<open>storage.WAL\<close> object
  the broker holds, so those operations take the log and return it.  \<open>now\<close> is the value the
  clock has during the call.  The lemmas show: the state machine of a key, that a committed
  consumer key stays committed with its result, that an active lease excludes every other
  owner, and that consumer transitions reach the log before memory.
\<close>

section \<open>Definitions\<close>

abbreviation IdemScopeProduce :: string where "IdemScopeProduce \<equiv> ''produce''"
abbreviation IdemScopeConsume :: string where "IdemScopeConsume \<equiv> ''consume''"

abbreviation IdemStatusPending :: string where "IdemStatusPending \<equiv> ''PENDING''"
abbreviation IdemStatusCommitted :: string where "IdemStatusCommitted \<equiv> ''COMMITTED''"
abbreviation IdemStatusFailed :: string where "IdemStatusFailed \<equiv> ''FAILED''"

record idempotencyStatus =
  st_Status :: string
  st_Result :: bytes
  st_LastError :: string
  st_UpdatedAt :: gotime
  st_Owner :: string
  st_LeaseUntil :: gotime

record idempotencyKey =
  k_Scope :: string
  k_TenantID :: string
  k_Topic :: string
  k_Group :: string
  k_Key :: string

record idemStore =
  idem_ttl :: duration
  idem_items :: "(idempotencyKey, idempotencyStatus) gomap"

definition NewIdempotencyStore :: "duration \<Rightarrow> idemStore" where
  "NewIdempotencyStore ttl = \<lparr>idem_ttl = (if ttl \<le> 0 then 10 * minute else ttl), idem_items = []\<rparr>"

definition produceKey :: "string \<Rightarrow> string \<Rightarrow> string \<Rightarrow> idempotencyKey" where
  "produceKey tenantID topic key =
     \<lparr>k_Scope = IdemScopeProduce, k_TenantID = tenantID, k_Topic = topic, k_Group = '''', k_Key = key\<rparr>"

definition consumeKey :: "string \<Rightarrow> string \<Rightarrow> string \<Rightarrow> string \<Rightarrow> idempotencyKey" where
  "consumeKey tenantID topic grp key =
     \<lparr>k_Scope = IdemScopeConsume, k_TenantID = tenantID, k_Topic = topic, k_Group = grp, k_Key = key\<rparr>"

definition leaseActive :: "gotime \<Rightarrow> idempotencyStatus \<Rightarrow> bool" where
  "leaseActive now st \<longleftrightarrow> \<not> IsZero (st_LeaseUntil st) \<and> now < st_LeaseUntil st"

definition evictable :: "gotime \<Rightarrow> duration \<Rightarrow> idempotencyKey \<Rightarrow> idempotencyStatus \<Rightarrow> bool" where
  "evictable now ttl k st \<longleftrightarrow>
     (if k_Scope k = IdemScopeConsume \<and> st_Status st = IdemStatusCommitted then False
      else if k_Scope k = IdemScopeConsume \<and> st_Status st = IdemStatusPending \<and> leaseActive now st
      then False
      else st_UpdatedAt st < now - ttl)"

definition cleanupLocked :: "gotime \<Rightarrow> idemStore \<Rightarrow> idemStore" where
  "cleanupLocked now s =
     (if idem_ttl s \<le> 0 then s
      else s\<lparr>idem_items := mfilter (\<lambda>k st. \<not> evictable now (idem_ttl s) k st) (idem_items s)\<rparr>)"

subsection \<open>Producer scope\<close>

definition Begin ::
  "gotime \<Rightarrow> string \<Rightarrow> string \<Rightarrow> string \<Rightarrow> idemStore \<Rightarrow> (error + bool) \<times> idemStore" where
  "Begin now tenantID topic key s0 =
     (if key = '''' then (Inr False, s0)
      else
        let s = cleanupLocked now s0; k = produceKey tenantID topic key;
            pending = s\<lparr>idem_items := mput k
              \<lparr>st_Status = IdemStatusPending, st_Result = [], st_LastError = '''',
               st_UpdatedAt = now, st_Owner = '''', st_LeaseUntil = 0\<rparr> (idem_items s)\<rparr> in
        case mget (idem_items s) k of
          None \<Rightarrow> (Inr False, pending)
        | Some st \<Rightarrow>
            if st_Status st = IdemStatusCommitted then (Inr True, s)
            else if st_Status st = IdemStatusPending then (Inl ErrIdempotencyInFlight, s)
            else (Inr False, pending))"

definition Commit :: "gotime \<Rightarrow> string \<Rightarrow> string \<Rightarrow> string \<Rightarrow> bytes \<Rightarrow> idemStore \<Rightarrow> idemStore" where
  "Commit now tenantID topic key result s =
     (if key = '''' then s
      else s\<lparr>idem_items := mput (produceKey tenantID topic key)
              \<lparr>st_Status = IdemStatusCommitted, st_Result = result, st_LastError = '''',
               st_UpdatedAt = now, st_Owner = '''', st_LeaseUntil = 0\<rparr> (idem_items s)\<rparr>)"

definition Fail :: "gotime \<Rightarrow> string \<Rightarrow> string \<Rightarrow> string \<Rightarrow> error option \<Rightarrow> idemStore \<Rightarrow> idemStore" where
  "Fail now tenantID topic key cause s =
     (if key = '''' then s
      else s\<lparr>idem_items := mput (produceKey tenantID topic key)
              \<lparr>st_Status = IdemStatusFailed, st_Result = [],
               st_LastError = (case cause of None \<Rightarrow> '''' | Some e \<Rightarrow> error_Error e),
               st_UpdatedAt = now, st_Owner = '''', st_LeaseUntil = 0\<rparr> (idem_items s)\<rparr>)"

definition Check ::
  "gotime \<Rightarrow> string \<Rightarrow> string \<Rightarrow> string \<Rightarrow> idemStore \<Rightarrow> idempotencyStatus option \<times> idemStore" where
  "Check now tenantID topic key s0 =
     (if key = '''' then (None, s0)
      else
        let s = cleanupLocked now s0 in
        (mget (idem_items s) (produceKey tenantID topic key), s))"

text \<open>\<open>IdempotencyConsumerHelper\<close>: the producer-scope status of a delivered message.\<close>

definition helper_Begin ::
  "gotime \<Rightarrow> string \<Rightarrow> message \<Rightarrow> idemStore \<Rightarrow> (bool \<times> bytes) \<times> idemStore" where
  "helper_Begin now topic msg s =
     (if msg_idemKey msg = '''' then ((False, []), s)
      else
        case Check now (msg_tenant msg) topic (msg_idemKey msg) s of
          (None, s') \<Rightarrow> ((False, []), s')
        | (Some st, s') \<Rightarrow>
            if st_Status st = IdemStatusCommitted then ((True, st_Result st), s') else ((False, []), s'))"

definition helper_MarkSuccess :: "gotime \<Rightarrow> string \<Rightarrow> message \<Rightarrow> bytes \<Rightarrow> idemStore \<Rightarrow> idemStore" where
  "helper_MarkSuccess now topic msg result s =
     (if msg_idemKey msg = '''' then s
      else Commit now (msg_tenant msg) topic (msg_idemKey msg) result s)"

definition helper_MarkFailure :: "gotime \<Rightarrow> string \<Rightarrow> message \<Rightarrow> error option \<Rightarrow> idemStore \<Rightarrow> idemStore" where
  "helper_MarkFailure now topic msg cause s =
     (if msg_idemKey msg = '''' then s
      else Fail now (msg_tenant msg) topic (msg_idemKey msg) cause s)"

subsection \<open>Consumer scope\<close>

type_synonym idem_wal = "idemStore \<times> filewal option"

definition owner_or_unknown :: "string \<Rightarrow> string" where
  "owner_or_unknown owner = (if owner = '''' then ''unknown'' else owner)"

definition idem_append :: "gotime \<Rightarrow> entry \<Rightarrow> filewal option \<Rightarrow> error option \<times> filewal option" where
  "idem_append now e w =
     (case w of
        None \<Rightarrow> (None, None)
      | Some w0 \<Rightarrow> (case FileWAL_Append now e w0 of (err, w1) \<Rightarrow> (err, Some w1)))"

definition consumeIdemEntry ::
  "gotime \<Rightarrow> string \<Rightarrow> string \<Rightarrow> string \<Rightarrow> string \<Rightarrow> string \<Rightarrow> string \<Rightarrow> gotime option \<Rightarrow> bytes \<Rightarrow> string \<Rightarrow> entry" where
  "consumeIdemEntry now tenantID topic grp key status owner leaseUntil result lastError =
     (zeroEntry RecordTypeConsumeIdempotency)
       \<lparr>e_TenantID := tenantID, e_Topic := topic, e_Group := grp, e_IdempotencyKey := key,
        e_IdempotencyScope := IdemScopeConsume, e_IdempotencyStatus := status,
        e_LeaseOwner := owner, e_LeaseUntil := leaseUntil, e_Result := result,
        e_LastError := lastError, e_UpdatedAt := Some now\<rparr>"

definition ConsumeBeginLease ::
  "gotime \<Rightarrow> string \<Rightarrow> string \<Rightarrow> string \<Rightarrow> string \<Rightarrow> string \<Rightarrow> duration \<Rightarrow> idem_wal
     \<Rightarrow> (error + bool \<times> bytes) \<times> idem_wal" where
  "ConsumeBeginLease now tenantID topic grp key owner0 lease sw =
     (let (s0, w) = sw in
      if key = '''' then (Inr (False, []), sw)
      else case validateLease lease of
        Some err \<Rightarrow> (Inl err, sw)
      | None \<Rightarrow>
          let owner = owner_or_unknown owner0; s = cleanupLocked now s0;
              k = consumeKey tenantID topic grp key;
              newUntil = now + lease;
              rec_entry = consumeIdemEntry now tenantID topic grp key IdemStatusPending owner
                            (Some newUntil) [] '''';
              take_lease = (\<lambda>st.
                case idem_append now rec_entry w of
                  (Some err, w') \<Rightarrow> (Inl err, (s, w'))
                | (None, w') \<Rightarrow>
                    (Inr (False, []), (s\<lparr>idem_items := mput k st (idem_items s)\<rparr>, w'))) in
          case mget (idem_items s) k of
            None \<Rightarrow>
              take_lease \<lparr>st_Status = IdemStatusPending, st_Result = [], st_LastError = '''',
                st_UpdatedAt = now, st_Owner = owner, st_LeaseUntil = newUntil\<rparr>
          | Some st \<Rightarrow>
              if st_Status st = IdemStatusCommitted then (Inr (True, st_Result st), (s, w))
              else if st_Status st = IdemStatusPending then
                if leaseActive now st \<and> st_Owner st \<noteq> owner
                then (Inl ErrIdempotencyLeaseHeld, (s, w))
                else take_lease (st\<lparr>st_Status := IdemStatusPending, st_Owner := owner,
                       st_LeaseUntil := newUntil, st_UpdatedAt := now\<rparr>)
              else take_lease (st\<lparr>st_Status := IdemStatusPending, st_LastError := '''',
                     st_Owner := owner, st_LeaseUntil := newUntil, st_UpdatedAt := now\<rparr>))"

definition ConsumeRenewLease ::
  "gotime \<Rightarrow> string \<Rightarrow> string \<Rightarrow> string \<Rightarrow> string \<Rightarrow> string \<Rightarrow> duration \<Rightarrow> idem_wal
     \<Rightarrow> error option \<times> idem_wal" where
  "ConsumeRenewLease now tenantID topic grp key owner0 lease sw =
     (let (s0, w) = sw in
      if key = '''' then (None, sw)
      else case validateLease lease of
        Some err \<Rightarrow> (Some err, sw)
      | None \<Rightarrow>
          let owner = owner_or_unknown owner0; s = cleanupLocked now s0;
              k = consumeKey tenantID topic grp key in
          case mget (idem_items s) k of
            None \<Rightarrow> (Some ErrIdempotencyNotFound, (s, w))
          | Some st \<Rightarrow>
              if st_Status st \<noteq> IdemStatusPending then (Some ErrIdempotencyLeaseLost, (s, w))
              else if st_Owner st \<noteq> owner then (Some ErrIdempotencyLeaseHeld, (s, w))
              else if \<not> leaseActive now st then (Some ErrIdempotencyLeaseLost, (s, w))
              else
                let newUntil = now + lease in
                case idem_append now (consumeIdemEntry now tenantID topic grp key
                       IdemStatusPending owner (Some newUntil) [] '''') w of
                  (Some err, w') \<Rightarrow> (Some err, (s, w'))
                | (None, w') \<Rightarrow>
                    (None, (s\<lparr>idem_items := mput k
                       (st\<lparr>st_LeaseUntil := newUntil, st_UpdatedAt := now\<rparr>) (idem_items s)\<rparr>, w')))"

definition ConsumeCommitIfOwner ::
  "gotime \<Rightarrow> string \<Rightarrow> string \<Rightarrow> string \<Rightarrow> string \<Rightarrow> string \<Rightarrow> bytes \<Rightarrow> idem_wal
     \<Rightarrow> error option \<times> idem_wal" where
  "ConsumeCommitIfOwner now tenantID topic grp key owner0 result sw =
     (let (s0, w) = sw in
      if key = '''' then (None, sw)
      else
        let owner = owner_or_unknown owner0; s = cleanupLocked now s0;
            k = consumeKey tenantID topic grp key in
        case mget (idem_items s) k of
          None \<Rightarrow> (Some ErrIdempotencyNotFound, (s, w))
        | Some st \<Rightarrow>
            if st_Status st = IdemStatusCommitted then (None, (s, w))
            else if st_Status st \<noteq> IdemStatusPending then (Some ErrIdempotencyLeaseLost, (s, w))
            else if st_Owner st \<noteq> owner then (Some ErrIdempotencyLeaseHeld, (s, w))
            else if \<not> leaseActive now st then (Some ErrIdempotencyLeaseLost, (s, w))
            else
              case idem_append now (consumeIdemEntry now tenantID topic grp key
                     IdemStatusCommitted owner (Some (st_LeaseUntil st)) result '''') w of
                (Some err, w') \<Rightarrow> (Some err, (s, w'))
              | (None, w') \<Rightarrow>
                  (None, (s\<lparr>idem_items := mput k
                     \<lparr>st_Status = IdemStatusCommitted, st_Result = result, st_LastError = '''',
                      st_UpdatedAt = now, st_Owner = '''', st_LeaseUntil = 0\<rparr>
                     (idem_items s)\<rparr>, w')))"

definition ConsumeFailIfOwner ::
  "gotime \<Rightarrow> string \<Rightarrow> string \<Rightarrow> string \<Rightarrow> string \<Rightarrow> string \<Rightarrow> error option \<Rightarrow> idem_wal
     \<Rightarrow> error option \<times> idem_wal" where
  "ConsumeFailIfOwner now tenantID topic grp key owner0 cause sw =
     (let (s0, w) = sw in
      if key = '''' then (None, sw)
      else
        let owner = owner_or_unknown owner0; s = cleanupLocked now s0;
            msg = (case cause of None \<Rightarrow> '''' | Some e \<Rightarrow> error_Error e);
            k = consumeKey tenantID topic grp key in
        case mget (idem_items s) k of
          None \<Rightarrow> (Some ErrIdempotencyNotFound, (s, w))
        | Some st \<Rightarrow>
            if st_Status st \<noteq> IdemStatusPending then (Some ErrIdempotencyLeaseLost, (s, w))
            else if st_Owner st \<noteq> owner then (Some ErrIdempotencyLeaseHeld, (s, w))
            else if \<not> leaseActive now st then (Some ErrIdempotencyLeaseLost, (s, w))
            else
              case idem_append now (consumeIdemEntry now tenantID topic grp key
                     IdemStatusFailed owner None [] msg) w of
                (Some err, w') \<Rightarrow> (Some err, (s, w'))
              | (None, w') \<Rightarrow>
                  (None, (s\<lparr>idem_items := mput k
                     \<lparr>st_Status = IdemStatusFailed, st_Result = [], st_LastError = msg,
                      st_UpdatedAt = now, st_Owner = '''', st_LeaseUntil = 0\<rparr>
                     (idem_items s)\<rparr>, w')))"

definition ConsumeCheck ::
  "gotime \<Rightarrow> string \<Rightarrow> string \<Rightarrow> string \<Rightarrow> string \<Rightarrow> idemStore \<Rightarrow> idempotencyStatus option \<times> idemStore" where
  "ConsumeCheck now tenantID topic grp key s0 =
     (if key = '''' then (None, s0)
      else
        let s = cleanupLocked now s0 in
        (mget (idem_items s) (consumeKey tenantID topic grp key), s))"

section \<open>Operations as steps\<close>

datatype idem_op =
    OpBegin gotime string string string
  | OpCommit gotime string string string bytes
  | OpFail gotime string string string "error option"
  | OpCheck gotime string string string
  | OpBeginLease gotime string string string string string duration
  | OpRenewLease gotime string string string string string duration
  | OpConsumeCommit gotime string string string string string bytes
  | OpConsumeFail gotime string string string string string "error option"
  | OpConsumeCheck gotime string string string string

fun idem_step :: "idem_wal \<Rightarrow> idem_op \<Rightarrow> idem_wal" where
  "idem_step (s, w) (OpBegin now t tp k) = (snd (Begin now t tp k s), w)"
| "idem_step (s, w) (OpCommit now t tp k r) = (Commit now t tp k r s, w)"
| "idem_step (s, w) (OpFail now t tp k c) = (Fail now t tp k c s, w)"
| "idem_step (s, w) (OpCheck now t tp k) = (snd (Check now t tp k s), w)"
| "idem_step sw (OpBeginLease now t tp g k ow l) = snd (ConsumeBeginLease now t tp g k ow l sw)"
| "idem_step sw (OpRenewLease now t tp g k ow l) = snd (ConsumeRenewLease now t tp g k ow l sw)"
| "idem_step sw (OpConsumeCommit now t tp g k ow r) = snd (ConsumeCommitIfOwner now t tp g k ow r sw)"
| "idem_step sw (OpConsumeFail now t tp g k ow c) = snd (ConsumeFailIfOwner now t tp g k ow c sw)"
| "idem_step (s, w) (OpConsumeCheck now t tp g k) = (snd (ConsumeCheck now t tp g k s), w)"

fun op_time :: "idem_op \<Rightarrow> gotime" where
  "op_time (OpBegin now t tp k) = now"
| "op_time (OpCommit now t tp k r) = now"
| "op_time (OpFail now t tp k c) = now"
| "op_time (OpCheck now t tp k) = now"
| "op_time (OpBeginLease now t tp g k ow l) = now"
| "op_time (OpRenewLease now t tp g k ow l) = now"
| "op_time (OpConsumeCommit now t tp g k ow r) = now"
| "op_time (OpConsumeFail now t tp g k ow c) = now"
| "op_time (OpConsumeCheck now t tp g k) = now"

text \<open>The consumer key and worker an operation acts for, if it is a leased one.\<close>

fun op_lease :: "idem_op \<Rightarrow> (idempotencyKey \<times> string) option" where
  "op_lease (OpBeginLease now t tp g k ow l) = Some (consumeKey t tp g k, owner_or_unknown ow)"
| "op_lease (OpRenewLease now t tp g k ow l) = Some (consumeKey t tp g k, owner_or_unknown ow)"
| "op_lease (OpConsumeCommit now t tp g k ow r) = Some (consumeKey t tp g k, owner_or_unknown ow)"
| "op_lease (OpConsumeFail now t tp g k ow c) = Some (consumeKey t tp g k, owner_or_unknown ow)"
| "op_lease x = None"

definition idem_wf :: "idemStore \<Rightarrow> bool" where
  "idem_wf s \<longleftrightarrow> mwf (idem_items s)"

lemmas idem_op_defs =
  Begin_def Commit_def Fail_def Check_def ConsumeBeginLease_def ConsumeRenewLease_def
  ConsumeCommitIfOwner_def ConsumeFailIfOwner_def ConsumeCheck_def Let_def

lemma idem_key_neq [simp]:
  "produceKey a b c \<noteq> consumeKey d e f g" "consumeKey d e f g \<noteq> produceKey a b c"
  by (simp_all add: produceKey_def consumeKey_def)

lemma k_Scope_simps [simp]:
  "k_Scope (produceKey a b c) = IdemScopeProduce" "k_Scope (consumeKey a b c d) = IdemScopeConsume"
  by (simp_all add: produceKey_def consumeKey_def)

lemma cleanup_wf [simp]: "idem_wf s \<Longrightarrow> idem_wf (cleanupLocked now s)"
  by (simp add: idem_wf_def cleanupLocked_def)

lemma cleanup_lookup:
  "idem_wf s \<Longrightarrow> mget (idem_items (cleanupLocked now s)) k =
     (case mget (idem_items s) k of
        None \<Rightarrow> None
      | Some st \<Rightarrow> if idem_ttl s > 0 \<and> evictable now (idem_ttl s) k st then None else Some st)"
  by (auto simp: idem_wf_def cleanupLocked_def mget_mfilter split: option.splits)

lemma cleanup_keeps:
  "idem_wf s \<Longrightarrow> mget (idem_items s) k = Some st \<Longrightarrow> \<not> evictable now (idem_ttl s) k st \<Longrightarrow>
     mget (idem_items (cleanupLocked now s)) k = Some st"
  by (simp add: cleanup_lookup)

lemma committed_not_evictable:
  "k_Scope k = IdemScopeConsume \<Longrightarrow> st_Status st = IdemStatusCommitted \<Longrightarrow> \<not> evictable now ttl k st"
  by (simp add: evictable_def)

lemma active_not_evictable:
  "k_Scope k = IdemScopeConsume \<Longrightarrow> st_Status st = IdemStatusPending \<Longrightarrow> leaseActive now st \<Longrightarrow>
     \<not> evictable now ttl k st"
  by (simp add: evictable_def)

lemma idem_step_wf: "idem_wf (fst sw) \<Longrightarrow> idem_wf (fst (idem_step sw x))"
  by (cases "(sw, x)" rule: idem_step.cases)
    (auto simp: idem_op_defs idem_wf_def cleanupLocked_def split: option.splits if_splits prod.splits)

text \<open>An operation leaves an entry of a consumer key alone when cleaning up does not evict it
  and it is either committed or held under an active lease by somebody else.\<close>

definition shielded :: "idem_op \<Rightarrow> idempotencyKey \<Rightarrow> idempotencyStatus \<Rightarrow> bool" where
  "shielded x k st \<longleftrightarrow> k_Scope k = IdemScopeConsume \<and>
     (st_Status st = IdemStatusCommitted
      \<or> st_Status st = IdemStatusPending \<and> leaseActive (op_time x) st \<and> op_lease x \<noteq> Some (k, st_Owner st))"

lemma shielded_cleanup:
  assumes "idem_wf s" "mget (idem_items s) k = Some st" "shielded x k st"
  shows "mget (idem_items (cleanupLocked (op_time x) s)) k = Some st"
  using assms cleanup_keeps committed_not_evictable active_not_evictable
  unfolding shielded_def by metis

lemma idem_step_shielded:
  assumes wf: "idem_wf (fst sw)" and k: "mget (idem_items (fst sw)) k = Some st"
    and sh: "shielded x k st"
  shows "mget (idem_items (fst (idem_step sw x))) k = Some st"
proof -
  obtain s w where sw: "sw = (s, w)" by force
  with wf k have wf: "idem_wf s" and k: "mget (idem_items s) k = Some st" by auto
  note c = shielded_cleanup [OF wf k sh]
  show ?thesis
  proof (cases x)
    case (OpBegin now t tp key)
    with c k sh show ?thesis
      by (auto simp: sw idem_op_defs shielded_def produceKey_def split: option.splits)
  next
    case (OpCommit now t tp key r)
    with c k sh show ?thesis
      by (auto simp: sw idem_op_defs shielded_def produceKey_def)
  next
    case (OpFail now t tp key cs)
    with c k sh show ?thesis
      by (auto simp: sw idem_op_defs shielded_def produceKey_def)
  next
    case (OpCheck now t tp key)
    with c k show ?thesis by (auto simp: sw idem_op_defs)
  next
    case (OpBeginLease now t tp g key ow l)
    with c k sh show ?thesis
      by (auto simp: sw idem_op_defs shielded_def split: option.splits prod.splits)
  next
    case (OpRenewLease now t tp g key ow l)
    with c k sh show ?thesis
      by (auto simp: sw idem_op_defs shielded_def split: option.splits prod.splits)
  next
    case (OpConsumeCommit now t tp g key ow r)
    with c k sh show ?thesis
      by (auto simp: sw idem_op_defs shielded_def split: option.splits prod.splits)
  next
    case (OpConsumeFail now t tp g key ow cs)
    with c k sh show ?thesis
      by (auto simp: sw idem_op_defs shielded_def split: option.splits prod.splits)
  next
    case (OpConsumeCheck now t tp g key)
    with c k show ?thesis by (auto simp: sw idem_op_defs)
  qed
qed

section \<open>Committed work stays committed\<close>

interpretation idem_committed: transition_system idem_step "\<lambda>_. True"
  "\<lambda>sw sw'. idem_wf (fst sw) \<longrightarrow> idem_wf (fst sw') \<and>
     (\<forall>k st. k_Scope k = IdemScopeConsume \<and> mget (idem_items (fst sw)) k = Some st
        \<and> st_Status st = IdemStatusCommitted \<longrightarrow> mget (idem_items (fst sw')) k = Some st)"
proof unfold_locales
  fix sw x
  show "idem_wf (fst sw) \<longrightarrow> idem_wf (fst (idem_step sw x)) \<and>
     (\<forall>k st. k_Scope k = IdemScopeConsume \<and> mget (idem_items (fst sw)) k = Some st
        \<and> st_Status st = IdemStatusCommitted \<longrightarrow> mget (idem_items (fst (idem_step sw x))) k = Some st)"
    by (auto intro: idem_step_wf idem_step_shielded simp: shielded_def)
qed auto

lemma consume_commit_stays:
  assumes "idem_wf (fst sw)" "k_Scope k = IdemScopeConsume"
    and "mget (idem_items (fst sw)) k = Some st" "st_Status st = IdemStatusCommitted"
  shows "idem_wf (fst (run_ops idem_step sw xs))
    \<and> mget (idem_items (fst (run_ops idem_step sw xs))) k = Some st"
  using idem_committed.rel_run [of xs sw] assms by (simp add: list_all_iff)

lemma BeginLease_committed:
  assumes "idem_wf (fst sw)" "key \<noteq> ''''" "validateLease lease = None"
    and "mget (idem_items (fst sw)) (consumeKey t tp g key) = Some st" "st_Status st = IdemStatusCommitted"
  shows "fst (ConsumeBeginLease now t tp g key ow lease sw) = Inr (True, st_Result st)"
proof -
  have "mget (idem_items (cleanupLocked now (fst sw))) (consumeKey t tp g key) = Some st"
    using assms by (intro cleanup_keeps committed_not_evictable) auto
  with assms show ?thesis
    by (cases sw) (auto simp: ConsumeBeginLease_def Let_def)
qed

text \<open>C12. Once a consumer-scope idempotency key is committed, no sequence of store operations,
  by any worker and at any time, un-commits it or changes its result, and every later attempt
  to lease it is told that the work is already done and handed that result.\<close>

theorem consume_commit_permanent:
  assumes "idem_wf s" "key \<noteq> ''''"
    and "mget (idem_items s) (consumeKey t tp g key) = Some st" "st_Status st = IdemStatusCommitted"
    and "validateLease lease = None"
  shows "mget (idem_items (fst (run_ops idem_step (s, w) xs))) (consumeKey t tp g key) = Some st
    \<and> fst (ConsumeBeginLease now t tp g key ow lease (run_ops idem_step (s, w) xs))
           = Inr (True, st_Result st)"
proof -
  have "idem_wf (fst (run_ops idem_step (s, w) xs))
    \<and> mget (idem_items (fst (run_ops idem_step (s, w) xs))) (consumeKey t tp g key) = Some st"
    using assms by (intro consume_commit_stays) auto
  then show ?thesis
    using assms BeginLease_committed by blast
qed

definition example_status :: idempotencyStatus where
  "example_status = \<lparr>st_Status = IdemStatusCommitted, st_Result = [7], st_LastError = '''',
     st_UpdatedAt = 5, st_Owner = '''', st_LeaseUntil = 0\<rparr>"

definition example_committed :: idemStore where
  "example_committed = \<lparr>idem_ttl = 10 * minute,
     idem_items = [(consumeKey ''t'' ''orders'' ''g'' ''k'', example_status)]\<rparr>"

theorem consume_commit_permanent_witness:
  "fst (ConsumeBeginLease (90 * minute) ''t'' ''orders'' ''g'' ''k'' ''b'' second
      (run_ops idem_step (example_committed, None)
        [OpConsumeFail (80 * minute) ''t'' ''orders'' ''g'' ''k'' ''a'' None])) = Inr (True, st_Result example_status)"
  by (rule conjunct2 [OF consume_commit_permanent])
    (simp_all add: example_committed_def example_status_def idem_wf_def mwf_def validateLease_def)

section \<open>Leases exclude\<close>

interpretation idem_leased: transition_system idem_step
  "\<lambda>x. op_time x < st_LeaseUntil st \<and> op_lease x \<noteq> Some (k, st_Owner st)"
  "\<lambda>sw sw'. k_Scope k = IdemScopeConsume \<and> st_Status st = IdemStatusPending \<and> st_LeaseUntil st \<noteq> 0
     \<and> idem_wf (fst sw) \<and> mget (idem_items (fst sw)) k = Some st \<longrightarrow>
     idem_wf (fst sw') \<and> mget (idem_items (fst sw')) k = Some st" for k st
proof unfold_locales
  fix x sw
  assume "op_time x < st_LeaseUntil st \<and> op_lease x \<noteq> Some (k, st_Owner st)"
  then show "k_Scope k = IdemScopeConsume \<and> st_Status st = IdemStatusPending \<and> st_LeaseUntil st \<noteq> 0
     \<and> idem_wf (fst sw) \<and> mget (idem_items (fst sw)) k = Some st \<longrightarrow>
     idem_wf (fst (idem_step sw x)) \<and> mget (idem_items (fst (idem_step sw x))) k = Some st"
    by (auto intro: idem_step_wf idem_step_shielded simp: shielded_def leaseActive_def IsZero_def)
qed auto

lemma lease_held_elsewhere:
  assumes "idem_wf (fst sw)" "key \<noteq> ''''" "validateLease lease = None"
    and "mget (idem_items (fst sw)) (consumeKey t tp g key) = Some st" "st_Status st = IdemStatusPending"
    and "leaseActive now st" "st_Owner st \<noteq> owner_or_unknown ow"
  shows "fst (ConsumeBeginLease now t tp g key ow lease sw) = Inl ErrIdempotencyLeaseHeld
    \<and> fst (ConsumeCommitIfOwner now t tp g key ow res sw) = Some ErrIdempotencyLeaseHeld"
proof -
  have "mget (idem_items (cleanupLocked now (fst sw))) (consumeKey t tp g key) = Some st"
    using assms by (intro cleanup_keeps active_not_evictable) auto
  with assms show ?thesis
    by (cases sw) (auto simp: ConsumeBeginLease_def ConsumeCommitIfOwner_def Let_def)
qed

text \<open>C13. Leases are mutually exclusive: while the lease of one worker on a consumer key runs,
  no sequence of operations of other workers (or on other keys) changes the entry, and any
  other worker that tries to take the lease or to commit is refused with
  \<open>ErrIdempotencyLeaseHeld\<close>.\<close>

theorem consume_lease_exclusive:
  assumes "idem_wf s" "key \<noteq> ''''"
    and "mget (idem_items s) (consumeKey t tp g key) = Some st" "st_Status st = IdemStatusPending"
    and "st_LeaseUntil st \<noteq> 0"
    and "list_all (\<lambda>x. op_time x < st_LeaseUntil st
           \<and> op_lease x \<noteq> Some (consumeKey t tp g key, st_Owner st)) xs"
    and "now < st_LeaseUntil st" "owner_or_unknown ow \<noteq> st_Owner st" "validateLease lease = None"
  shows "mget (idem_items (fst (run_ops idem_step (s, w) xs))) (consumeKey t tp g key) = Some st
    \<and> fst (ConsumeBeginLease now t tp g key ow lease (run_ops idem_step (s, w) xs))
           = Inl ErrIdempotencyLeaseHeld
    \<and> fst (ConsumeCommitIfOwner now t tp g key ow res (run_ops idem_step (s, w) xs))
           = Some ErrIdempotencyLeaseHeld"
proof -
  have "idem_wf (fst (run_ops idem_step (s, w) xs))
    \<and> mget (idem_items (fst (run_ops idem_step (s, w) xs))) (consumeKey t tp g key) = Some st"
    using idem_leased.rel_run [OF assms(6), of "(s, w)"] assms by simp
  moreover have "leaseActive now st"
    using assms by (simp add: leaseActive_def IsZero_def)
  ultimately show ?thesis
    using assms lease_held_elsewhere [of "run_ops idem_step (s, w) xs" key lease t tp g st now ow res]
    by simp
qed

definition example_lease :: idempotencyStatus where
  "example_lease = \<lparr>st_Status = IdemStatusPending, st_Result = [], st_LastError = '''',
     st_UpdatedAt = 5, st_Owner = ''a'', st_LeaseUntil = 20 * minute\<rparr>"

definition example_leased :: idemStore where
  "example_leased = \<lparr>idem_ttl = 10 * minute,
     idem_items = [(consumeKey ''t'' ''orders'' ''g'' ''k'', example_lease)]\<rparr>"

theorem consume_lease_exclusive_witness:
  "fst (ConsumeBeginLease (19 * minute) ''t'' ''orders'' ''g'' ''k'' ''b'' second
      (run_ops idem_step (example_leased, None)
        [OpBeginLease (18 * minute) ''t'' ''orders'' ''g'' ''k'' ''c'' second]))
     = Inl ErrIdempotencyLeaseHeld"
  by (rule conjunct1 [OF conjunct2 [OF consume_lease_exclusive [where st = example_lease]]])
    (simp_all add: example_leased_def example_lease_def idem_wf_def mwf_def validateLease_def
      owner_or_unknown_def)

section \<open>The log comes first\<close>

text \<open>Write-ahead: when \<open>ConsumeCommitIfOwner\<close> reports success for a key that was held
  pending, on a log in strict mode and whatever the disk does, memory says COMMITTED and the
  last line of the file, covered by an fsync, is the COMMITTED record of that key with the
  result; when it reports an error the entry in memory is not committed.\<close>

theorem consume_commit_write_ahead:
  assumes "idem_wf s" "key \<noteq> ''''" "wal_strict w"
    and "ConsumeCommitIfOwner now t tp g key ow res (s, Some w) = (r, (s', Some w'))"
    and "mget (idem_items s) (consumeKey t tp g key) = Some st" "st_Status st = IdemStatusPending"
  shows "case r of
      None \<Rightarrow> map_option st_Status (mget (idem_items s') (consumeKey t tp g key)) = Some IdemStatusCommitted
        \<and> (\<exists>ls. survives_power_loss w' = ls @ [Line (consumeIdemEntry now t tp g key
              IdemStatusCommitted (owner_or_unknown ow) (Some (st_LeaseUntil st)) res '''')])
    | Some err \<Rightarrow> map_option st_Status (mget (idem_items s') (consumeKey t tp g key)) \<noteq> Some IdemStatusCommitted"
proof (cases r)
  case None
  with assms have ap: "FileWAL_Append now (consumeIdemEntry now t tp g key
        IdemStatusCommitted (owner_or_unknown ow) (Some (st_LeaseUntil st)) res '''') w = (None, w')"
    and st: "map_option st_Status (mget (idem_items s') (consumeKey t tp g key)) = Some IdemStatusCommitted"
    by (auto simp: ConsumeCommitIfOwner_def Let_def idem_append_def cleanup_lookup
        split: option.splits if_splits prod.splits)
  from Append_strict_ok [OF ap assms(3)] st None show ?thesis
    by (auto simp: survives_power_loss_def)
next
  case (Some err)
  with assms show ?thesis
    by (auto simp: ConsumeCommitIfOwner_def Let_def idem_append_def cleanup_lookup
        split: option.splits if_splits prod.splits)
qed

definition example_wal :: filewal where
  "example_wal = OpenFileWALWithOptions [] 0 1 [IoOk]"

theorem consume_commit_write_ahead_witness:
  "\<exists>s' w'. ConsumeCommitIfOwner (19 * minute) ''t'' ''orders'' ''g'' ''k'' ''a'' [9]
        (example_leased, Some example_wal) = (None, (s', Some w'))
    \<and> map_option st_Status (mget (idem_items s') (consumeKey ''t'' ''orders'' ''g'' ''k'')) = Some IdemStatusCommitted
    \<and> (\<exists>ls. survives_power_loss w' = ls @ [Line (consumeIdemEntry (19 * minute) ''t'' ''orders'' ''g'' ''k''
          IdemStatusCommitted ''a'' (Some (20 * minute)) [9] '''')])"
proof -
  obtain s' w' where run: "ConsumeCommitIfOwner (19 * minute) ''t'' ''orders'' ''g'' ''k'' ''a'' [9]
      (example_leased, Some example_wal) = (None, (s', Some w'))"
    by (simp add: ConsumeCommitIfOwner_def Let_def example_leased_def example_lease_def cleanupLocked_def
        mfilter_def evictable_def leaseActive_def IsZero_def owner_or_unknown_def idem_append_def
        example_wal_def OpenFileWALWithOptions_def FileWAL_Append_def next_io_def
        flushAndSyncLocked_def bw_Flush_def)
  have "case None :: error option of
      None \<Rightarrow> map_option st_Status (mget (idem_items s') (consumeKey ''t'' ''orders'' ''g'' ''k'')) = Some IdemStatusCommitted
        \<and> (\<exists>ls. survives_power_loss w' = ls @ [Line (consumeIdemEntry (19 * minute) ''t'' ''orders'' ''g'' ''k''
              IdemStatusCommitted (owner_or_unknown ''a'') (Some (st_LeaseUntil example_lease)) [9] '''')])
    | Some err \<Rightarrow> map_option st_Status (mget (idem_items s') (consumeKey ''t'' ''orders'' ''g'' ''k'')) \<noteq> Some IdemStatusCommitted"
    by (rule consume_commit_write_ahead [OF _ _ _ run])
      (simp_all add: example_leased_def example_lease_def idem_wf_def mwf_def example_wal_def
        OpenFileWALWithOptions_def wal_strict_def)
  with run show ?thesis
    by (simp add: owner_or_unknown_def example_lease_def)
qed

end
