(* ===== verification/BrokerState.thy ===== *)
theory BrokerState
  imports Idempotency "HOL-Library.Product_Lexorder"
begin

text \<open>
  The state of \<open>InMemoryBroker\<close> (\<^verbatim>\<open>internal/broker/broker.go\<close>) and the primitives every
  operation is composed of: the nested bookkeeping maps (\<^verbatim>\<open>state_maps.go\<close>, \<^verbatim>\<open>retry_state.go\<close>),
  the write-ahead log hook, the queue of offsets to persist and its flush, topic creation,
  and the read-only topic queries.

  Every function models the code that runs while \<open>b.mu\<close> is held, as a function from state to
  state.  \<open>renv\<close> carries what such a critical section reads from outside: the clock and the
  order in which \<open>range\<close> visits the keys of a map.  Channels live in \<open>chans\<close>, a heap of
  buffers of capacity 1024 addressed by number, since several structures point to one channel.
  \<open>b.idem\<close> is never nil (the constructor sets it), the metrics sink only observes, and the
  router is an argument of \<open>Produce\<close>.
\<close>

section \<open>State\<close>

record consumerStream =
  cs_Owner :: string
  cs_Lease :: duration
  cs_Ch :: nat

record gochan =
  ch_buf :: "message list"
  ch_closed :: bool

type_synonym offsetFlushKey = "string \<times> string \<times> int"

record broker =
  topics :: "(string, topicState) gomap"
  consumerOffsets :: "(string, (string, (int, int) gomap) gomap) gomap"
  consumerChans :: "(string, (string, consumerStream list) gomap) gomap"
  rrCursor :: "(string, (string, nat) gomap) gomap"
  maxInFlight :: int
  inFlight :: "(string, (string, (int, (int, inflightEntry) gomap) gomap) gomap) gomap"
  nextIndex :: "(string, (string, (int, nat) gomap) gomap) gomap"
  lastDelivery :: "(string, (string, (int, deliverySnapshot) gomap) gomap) gomap"
  wal :: "filewal option"
  ackTimeout :: duration
  redeliverTick :: duration
  maxPartitionMsgs :: int
  maxPartitionBytes :: int
  idem :: idemStore
  retryState :: "(string, (string, (int, (int, retryStateEntry) gomap) gomap) gomap) gomap"
  pendingOffsets :: "(offsetFlushKey, int) gomap"
  chans :: "(nat, gochan) gomap"
  nextChan :: nat

record renv =
  env_now :: gotime
  env_ord :: "string list \<Rightarrow> string list"

definition NewInMemoryBroker :: "filewal option \<Rightarrow> broker" where
  "NewInMemoryBroker w =
     \<lparr>topics = [], consumerOffsets = [], consumerChans = [], rrCursor = [], maxInFlight = 32,
      inFlight = [], nextIndex = [], lastDelivery = [], wal = w, ackTimeout = 2 * second,
      redeliverTick = 1 * second, maxPartitionMsgs = 1024, maxPartitionBytes = 4 * 1024 * 1024,
      idem = NewIdempotencyStore (10 * minute), retryState = [], pendingOffsets = [],
      chans = [], nextChan = 0\<rparr>"

text \<open>The functional options, as a datatype; \<open>applyBrokerOptions\<close> runs them in order.\<close>

datatype brokerOption =
    WithMaxPartitionBytes int
  | WithMaxPartitionMsgs int
  | WithMaxInFlight int
  | WithAckTimeout duration
  | WithRedeliverTick duration

fun applyBrokerOption :: "broker \<Rightarrow> brokerOption \<Rightarrow> broker" where
  "applyBrokerOption b (WithMaxPartitionBytes n) = b\<lparr>maxPartitionBytes := (if n < 0 then 0 else n)\<rparr>"
| "applyBrokerOption b (WithMaxPartitionMsgs n) = b\<lparr>maxPartitionMsgs := (if n < 0 then 0 else n)\<rparr>"
| "applyBrokerOption b (WithMaxInFlight n) = b\<lparr>maxInFlight := (if n < 0 then 0 else n)\<rparr>"
| "applyBrokerOption b (WithAckTimeout d) = (if d \<le> 0 then b else b\<lparr>ackTimeout := d\<rparr>)"
| "applyBrokerOption b (WithRedeliverTick d) = (if d \<le> 0 then b else b\<lparr>redeliverTick := d\<rparr>)"

definition NewInMemoryBrokerWithOptions :: "filewal option \<Rightarrow> brokerOption list \<Rightarrow> broker" where
  "NewInMemoryBrokerWithOptions w opts = foldl applyBrokerOption (NewInMemoryBroker w) opts"

section \<open>Bookkeeping maps\<close>

definition inflight_of :: "broker \<Rightarrow> string \<Rightarrow> string \<Rightarrow> int \<Rightarrow> (int, inflightEntry) gomap" where
  "inflight_of b t g p = (case mget3 (inFlight b) t g p of None \<Rightarrow> [] | Some m \<Rightarrow> m)"

definition ensureInFlight :: "string \<Rightarrow> string \<Rightarrow> int \<Rightarrow> broker \<Rightarrow> broker" where
  "ensureInFlight t g p b = b\<lparr>inFlight := mput3 t g p (inflight_of b t g p) (inFlight b)\<rparr>"

definition putInflight :: "string \<Rightarrow> string \<Rightarrow> int \<Rightarrow> int \<Rightarrow> inflightEntry \<Rightarrow> broker \<Rightarrow> broker" where
  "putInflight t g p off e b =
     b\<lparr>inFlight := mput3 t g p (mput off e (inflight_of b t g p)) (inFlight b)\<rparr>"

definition delInflight :: "string \<Rightarrow> string \<Rightarrow> int \<Rightarrow> int \<Rightarrow> broker \<Rightarrow> broker" where
  "delInflight t g p off b =
     b\<lparr>inFlight := mput3 t g p (mdel off (inflight_of b t g p)) (inFlight b)\<rparr>"

definition setNextIndex :: "string \<Rightarrow> string \<Rightarrow> int \<Rightarrow> nat \<Rightarrow> broker \<Rightarrow> broker" where
  "setNextIndex t g p i b = b\<lparr>nextIndex := mput3 t g p i (nextIndex b)\<rparr>"

definition recordDeliveryLocked :: "string \<Rightarrow> string \<Rightarrow> int \<Rightarrow> string \<Rightarrow> gotime \<Rightarrow> broker \<Rightarrow> broker" where
  "recordDeliveryLocked t g p owner at b =
     b\<lparr>lastDelivery := mput3 t g p \<lparr>ds_Owner = owner, ds_At = at\<rparr> (lastDelivery b)\<rparr>"

definition getCursor :: "string \<Rightarrow> string \<Rightarrow> broker \<Rightarrow> nat" where
  "getCursor t g b = (case mget2 (rrCursor b) t g of None \<Rightarrow> 0 | Some i \<Rightarrow> i)"

definition setCursor :: "string \<Rightarrow> string \<Rightarrow> nat \<Rightarrow> broker \<Rightarrow> broker" where
  "setCursor t g i b = b\<lparr>rrCursor := mput2 t g i (rrCursor b)\<rparr>"

definition getRetryState :: "string \<Rightarrow> string \<Rightarrow> int \<Rightarrow> broker \<Rightarrow> (int, retryStateEntry) gomap option" where
  "getRetryState t g p b = mget3 (retryState b) t g p"

definition putRetryState :: "string \<Rightarrow> string \<Rightarrow> int \<Rightarrow> int \<Rightarrow> retryStateEntry \<Rightarrow> broker \<Rightarrow> broker" where
  "putRetryState t g p off r b =
     b\<lparr>retryState := mput3 t g p
        (mput off r (case getRetryState t g p b of None \<Rightarrow> [] | Some m \<Rightarrow> m)) (retryState b)\<rparr>"

text \<open>Delete \<open>p\<close> from the group's map, and each enclosing map that becomes empty.\<close>

definition prune3 ::
  "'a \<Rightarrow> 'b \<Rightarrow> 'c \<Rightarrow> ('a, ('b, ('c, 'v) gomap) gomap) gomap \<Rightarrow> ('a, ('b, ('c, 'v) gomap) gomap) gomap" where
  "prune3 t g p m =
     (let byGroup = mdel p (mdef [] (mdef [] m t) g) in
      if byGroup \<noteq> [] then mput2 t g byGroup m
      else
        let byTopic = mdel g (mdef [] m t) in
        if byTopic \<noteq> [] then mput t byTopic m else mdel t m)"

definition purgeRetryStateLocked :: "string \<Rightarrow> string \<Rightarrow> int \<Rightarrow> int \<Rightarrow> broker \<Rightarrow> broker" where
  "purgeRetryStateLocked t g p ackedOffset b =
     (case getRetryState t g p b of
        None \<Rightarrow> b
      | Some byPart \<Rightarrow>
          let byPart' = mfilter (\<lambda>off _. \<not> off \<le> ackedOffset) byPart in
          if byPart' \<noteq> [] then b\<lparr>retryState := mput3 t g p byPart' (retryState b)\<rparr>
          else b\<lparr>retryState := prune3 t g p (retryState b)\<rparr>)"

text \<open>The lease of each owner of a group's streams (a later stream of the same owner wins).\<close>

definition ownerLeaseByTopicGroupLocked :: "string \<Rightarrow> string \<Rightarrow> broker \<Rightarrow> (string, duration) gomap" where
  "ownerLeaseByTopicGroupLocked t g b =
     foldl (\<lambda>out st. mput (cs_Owner st)
              (if cs_Lease st \<le> 0 then ackTimeout b else cs_Lease st) out)
       [] (case mget2 (consumerChans b) t g of None \<Rightarrow> [] | Some sts \<Rightarrow> sts)"

section \<open>The log and the offset queue\<close>

definition appendWALEntry :: "gotime \<Rightarrow> entry \<Rightarrow> broker \<Rightarrow> error option \<times> broker" where
  "appendWALEntry now e b =
     (case wal b of
        None \<Rightarrow> (None, b)
      | Some w \<Rightarrow> (case FileWAL_Append now e w of (err, w') \<Rightarrow> (err, b\<lparr>wal := Some w'\<rparr>)))"

definition queueOffsetPersistLocked :: "string \<Rightarrow> string \<Rightarrow> int \<Rightarrow> int \<Rightarrow> broker \<Rightarrow> broker" where
  "queueOffsetPersistLocked t g p off b =
     (if wal b = None then b
      else case mget (pendingOffsets b) (t, g, p) of
        None \<Rightarrow> b\<lparr>pendingOffsets := mput (t, g, p) off (pendingOffsets b)\<rparr>
      | Some cur \<Rightarrow>
          if off > cur then b\<lparr>pendingOffsets := mput (t, g, p) off (pendingOffsets b)\<rparr> else b)"

text \<open>The last acknowledged offset of a group, -1 when there is none.\<close>

definition committed :: "broker \<Rightarrow> string \<Rightarrow> string \<Rightarrow> int \<Rightarrow> int" where
  "committed b t g p = (case mget3 (consumerOffsets b) t g p of None \<Rightarrow> -1 | Some off \<Rightarrow> off)"

definition setOffset :: "string \<Rightarrow> string \<Rightarrow> int \<Rightarrow> int \<Rightarrow> broker \<Rightarrow> broker" where
  "setOffset t g p off b =
     queueOffsetPersistLocked t g p off (b\<lparr>consumerOffsets := mput3 t g p off (consumerOffsets b)\<rparr>)"

text \<open>The code that creates the two levels of the offsets map for a group, before reading it.\<close>

definition ensureOffsets :: "string \<Rightarrow> string \<Rightarrow> broker \<Rightarrow> broker" where
  "ensureOffsets t g b =
     b\<lparr>consumerOffsets := mput2 t g (mdef [] (mdef [] (consumerOffsets b) t) g) (consumerOffsets b)\<rparr>"

definition commitOffset :: "string \<Rightarrow> string \<Rightarrow> int \<Rightarrow> int \<Rightarrow> broker \<Rightarrow> broker" where
  "commitOffset t g p off b0 =
     (let b = ensureOffsets t g b0 in
      if off > committed b t g p then setOffset t g p off b else b)"

definition offsetEntry :: "offsetFlushKey \<Rightarrow> int \<Rightarrow> entry" where
  "offsetEntry k off =
     (zeroEntry RecordTypeOffset)
       \<lparr>e_Topic := fst k, e_Group := fst (snd k), e_Partition := snd (snd k), e_Offset := off\<rparr>"

fun requeueOffsets :: "(offsetFlushKey, int) gomap \<Rightarrow> offsetFlushKey list \<Rightarrow> broker \<Rightarrow> broker" where
  "requeueOffsets pending [] b = b"
| "requeueOffsets pending (k # ks) b =
     (let off = mdef 0 pending k;
          b' = (case mget (pendingOffsets b) k of
                  None \<Rightarrow> b\<lparr>pendingOffsets := mput k off (pendingOffsets b)\<rparr>
                | Some cur \<Rightarrow>
                    if off > cur then b\<lparr>pendingOffsets := mput k off (pendingOffsets b)\<rparr> else b)
      in requeueOffsets pending ks b')"

fun flushLoop ::
  "gotime \<Rightarrow> (offsetFlushKey, int) gomap \<Rightarrow> offsetFlushKey list \<Rightarrow> broker \<Rightarrow> error option \<times> broker" where
  "flushLoop now pending [] b = (None, b)"
| "flushLoop now pending (k # ks) b =
     (case appendWALEntry now (offsetEntry k (mdef 0 pending k)) b of
        (None, b') \<Rightarrow> flushLoop now pending ks b'
      | (Some err, b') \<Rightarrow> (Some err, requeueOffsets pending (k # ks) b'))"

definition flushPendingOffsets :: "gotime \<Rightarrow> broker \<Rightarrow> error option \<times> broker" where
  "flushPendingOffsets now b =
     (if wal b = None then (None, b)
      else if pendingOffsets b = [] then (None, b)
      else
        let pending = pendingOffsets b in
        flushLoop now pending (sort (mkeys pending)) (b\<lparr>pendingOffsets := []\<rparr>))"

text \<open>The first \<open>Close\<close>: when the background flusher was started, it flushes once more
  before it stops; then \<open>Close\<close> flushes itself and reports that error.\<close>

definition Close :: "gotime \<Rightarrow> bool \<Rightarrow> broker \<Rightarrow> error option \<times> broker" where
  "Close now flusherRunning b =
     flushPendingOffsets now (if flusherRunning then snd (flushPendingOffsets now b) else b)"

section \<open>Topics\<close>

definition normalizeTopicConfig :: "topicConfig \<Rightarrow> error + topicConfig" where
  "normalizeTopicConfig cfg =
     (let mode0 = ToLower (TrimSpace (tc_Mode cfg));
          mode = (if mode0 = '''' then TopicModeStandard else mode0) in
      if mode = TopicModeStandard \<or> mode = TopicModeRealtime then Inr (cfg\<lparr>tc_Mode := mode\<rparr>)
      else Inl (ErrText (''invalid topic mode: '' @ tc_Mode cfg)))"

definition newTopicState :: "int \<Rightarrow> topicConfig \<Rightarrow> topicState" where
  "newTopicState partitions cfg =
     \<lparr>ts_partitions = replicate (nat partitions) [], ts_byteSums = replicate (nat partitions) [],
      ts_Config = cfg\<rparr>"

definition createTopicLockedWithConfig ::
  "string \<Rightarrow> int \<Rightarrow> topicConfig \<Rightarrow> broker \<Rightarrow> error option \<times> broker" where
  "createTopicLockedWithConfig name partitions cfg b =
     (if name = '''' then (Some (ErrText ''topic name cannot be empty''), b)
      else if partitions \<le> 0 then (Some (ErrText ''partitions must be > 0''), b)
      else if mget (topics b) name \<noteq> None then (None, b)
      else case normalizeTopicConfig cfg of
        Inl err \<Rightarrow> (Some err, b)
      | Inr cfg' \<Rightarrow> (None, b\<lparr>topics := mput name (newTopicState partitions cfg') (topics b)\<rparr>))"

definition createTopicLocked :: "string \<Rightarrow> int \<Rightarrow> broker \<Rightarrow> error option \<times> broker" where
  "createTopicLocked name partitions b =
     createTopicLockedWithConfig name partitions \<lparr>tc_Mode = ''''\<rparr> b"

definition topicEntry :: "string \<Rightarrow> int \<Rightarrow> topicConfig \<Rightarrow> entry" where
  "topicEntry name partitions cfg =
     (zeroEntry RecordTypeTopic)\<lparr>e_Topic := name, e_Partition := partitions, e_TopicMode := tc_Mode cfg\<rparr>"

definition CreateTopicWithConfig ::
  "gotime \<Rightarrow> string \<Rightarrow> int \<Rightarrow> topicConfig \<Rightarrow> broker \<Rightarrow> error option \<times> broker" where
  "CreateTopicWithConfig now name partitions cfg0 b =
     (if name = '''' then (Some (ErrText ''topic name cannot be empty''), b)
      else if partitions \<le> 0 then (Some (ErrText ''partitions must be > 0''), b)
      else case normalizeTopicConfig cfg0 of
        Inl err \<Rightarrow> (Some err, b)
      | Inr cfg \<Rightarrow>
          if mget (topics b) name \<noteq> None then (Some (ErrTopicExists name), b)
          else case createTopicLockedWithConfig name partitions cfg b of
            (Some err, b1) \<Rightarrow> (Some err, b1)
          | (None, b1) \<Rightarrow>
              (case appendWALEntry now (topicEntry name partitions cfg) b1 of
                 (Some err, b2) \<Rightarrow> (Some err, b2\<lparr>topics := mdel name (topics b2)\<rparr>)
               | (None, b2) \<Rightarrow> (None, b2)))"

definition CreateTopic :: "gotime \<Rightarrow> string \<Rightarrow> int \<Rightarrow> broker \<Rightarrow> error option \<times> broker" where
  "CreateTopic now name partitions b = CreateTopicWithConfig now name partitions \<lparr>tc_Mode = ''''\<rparr> b"

definition DescribeTopic :: "string \<Rightarrow> broker \<Rightarrow> error + topicDescription" where
  "DescribeTopic name b =
     (case mget (topics b) name of
        None \<Rightarrow> Inl (ErrText (''topic not found: '' @ name))
      | Some ts \<Rightarrow> Inr \<lparr>td_Name = name, td_Partitions = int (length (ts_partitions ts)),
                        td_Config = ts_Config ts\<rparr>)"

definition ListTopics :: "broker \<Rightarrow> string list" where
  "ListTopics b = sort (mkeys (topics b))"

definition TopicCount :: "string \<Rightarrow> broker \<Rightarrow> error + int" where
  "TopicCount name b =
     (case mget (topics b) name of
        None \<Rightarrow> Inl (ErrText (''topic not found: '' @ name))
      | Some ts \<Rightarrow> Inr (foldl (\<lambda>total part. total + int (length part)) 0 (ts_partitions ts)))"

text \<open>The slowest group's acknowledged offset: a group that has not acknowledged in this
  partition counts as -1, no group at all gives -1.\<close>

definition slowestAckLocked :: "string \<Rightarrow> int \<Rightarrow> broker \<Rightarrow> int" where
  "slowestAckLocked t p b =
     (case mget (consumerOffsets b) t of
        None \<Rightarrow> -1
      | Some byGroup \<Rightarrow>
          (case foldl (\<lambda>slowest byPart.
                  let off = (case mget byPart p of None \<Rightarrow> -1 | Some off \<Rightarrow> off) in
                  case slowest of None \<Rightarrow> Some off | Some sl \<Rightarrow> Some (if off < sl then off else sl))
                None (map snd byGroup) of
             None \<Rightarrow> -1
           | Some sl \<Rightarrow> sl))"

end
