(* ===== verification/Dispatch.thy ===== *)
theory Dispatch
  imports BrokerState
begin

text \<open>
  Dispatch of buffered messages to the streams of each consumer group,
  \<^verbatim>\<open>internal/broker/dispatch.go\<close>.  The nested loops (groups, partitions, messages) are the
  functions \<open>dispatchGroups\<close>, \<open>dispatchPartitions\<close> and \<open>dispatchLoop\<close>; the body of the innermost
  loop is \<open>dispatchStep\<close>, whose \<open>ctl\<close> result says whether the code goes on with the next
  message, leaves the loop (\<open>break\<close>) or returns from the whole function.
\<close>

section \<open>Definitions\<close>

datatype ctl = Continue | Break | Return

text \<open>\<^verbatim>\<open>select { case q <- m: ... default: ... }\<close> on a buffered channel.\<close>

definition chanCap :: nat where "chanCap = 1024"

definition trySend :: "nat \<Rightarrow> message \<Rightarrow> broker \<Rightarrow> broker option" where
  "trySend ch m b =
     (case mget (chans b) ch of
        None \<Rightarrow> None
      | Some c \<Rightarrow>
          if ch_closed c \<or> chanCap \<le> length (ch_buf c) then None
          else Some (b\<lparr>chans := mput ch (c\<lparr>ch_buf := ch_buf c @ [m]\<rparr>) (chans b)\<rparr>))"

definition idemCommitted :: "gotime \<Rightarrow> string \<Rightarrow> string \<Rightarrow> message \<Rightarrow> broker \<Rightarrow> bool \<times> broker" where
  "idemCommitted now t g m b =
     (if msg_idemKey m = '''' then (False, b)
      else case ConsumeCheck now (msg_tenant m) t g (msg_idemKey m) (idem b) of
        (st, s') \<Rightarrow>
          ((case st of None \<Rightarrow> False | Some x \<Rightarrow> st_Status x = IdemStatusCommitted), b\<lparr>idem := s'\<rparr>))"

text \<open>A message that is already done: advance the group without delivering.\<close>

definition skipDone :: "string \<Rightarrow> string \<Rightarrow> int \<Rightarrow> int \<Rightarrow> broker \<Rightarrow> broker" where
  "skipDone t g p off b = purgeRetryStateLocked t g p off (commitOffset t g p off b)"

definition retryEntry :: "gotime \<Rightarrow> string \<Rightarrow> string \<Rightarrow> int \<Rightarrow> int \<Rightarrow> string \<Rightarrow> entry" where
  "retryEntry now t g p off err =
     (zeroEntry RecordTypeRetryState)
       \<lparr>e_Topic := t, e_Group := g, e_Partition := p, e_Offset := off, e_LastError := err,
        e_LastErrorAt := Some now\<rparr>"

definition noteRetryError :: "gotime \<Rightarrow> string \<Rightarrow> string \<Rightarrow> int \<Rightarrow> int \<Rightarrow> string \<Rightarrow> broker \<Rightarrow> broker" where
  "noteRetryError now t g p off err b =
     snd (appendWALEntry now (retryEntry now t g p off err)
            (putRetryState t g p off \<lparr>rs_LastError = err, rs_LastErrorAt = now\<rparr> b))"

definition leaseDefault :: "broker \<Rightarrow> duration" where
  "leaseDefault b = (if ackTimeout b \<le> 0 then 2 * second else ackTimeout b)"

definition streamLease :: "broker \<Rightarrow> consumerStream \<Rightarrow> duration" where
  "streamLease b cs = (if cs_Lease cs < 0 then leaseDefault b else cs_Lease cs)"

datatype leasePick = Picked nat duration bool | BeginErr error | NoneFree "nat option"

fun tryLease ::
  "gotime \<Rightarrow> string \<Rightarrow> string \<Rightarrow> message \<Rightarrow> consumerStream list \<Rightarrow> nat \<Rightarrow> nat list \<Rightarrow> nat option
     \<Rightarrow> broker \<Rightarrow> leasePick \<times> broker" where
  "tryLease now t g m chs start [] fallback b = (NoneFree fallback, b)"
| "tryLease now t g m chs start (k # ks) fallback b =
     (let i = (start + k) mod length chs; cand = chs ! i; candLease = streamLease b cand in
      if candLease = 0
      then tryLease now t g m chs start ks (if fallback = None then Some i else fallback) b
      else case ConsumeBeginLease now (msg_tenant m) t g (msg_idemKey m) (cs_Owner cand) candLease
                  (idem b, wal b) of
        (r, (s', w')) \<Rightarrow>
          let b' = b\<lparr>idem := s', wal := w'\<rparr> in
          case r of
            Inr (alreadyDone, prior) \<Rightarrow>
              (Picked i candLease alreadyDone, setCursor t g ((i + 1) mod length chs) b')
          | Inl err \<Rightarrow>
              if errors_Is err ErrIdempotencyLeaseHeld
              then tryLease now t g m chs start ks fallback b'
              else (BeginErr err, b'))"

definition seedError :: "string \<Rightarrow> string \<Rightarrow> int \<Rightarrow> int \<Rightarrow> broker \<Rightarrow> string" where
  "seedError t g p off b =
     (case getRetryState t g p b of
        None \<Rightarrow> ''''
      | Some rs \<Rightarrow> (case mget rs off of None \<Rightarrow> '''' | Some st \<Rightarrow> rs_LastError st))"

text \<open>Simple mode: no lease, the offset is committed as soon as the message is queued.\<close>

definition deliverSimple ::
  "string \<Rightarrow> string \<Rightarrow> int \<Rightarrow> nat \<Rightarrow> message \<Rightarrow> consumerStream \<Rightarrow> broker \<Rightarrow> ctl \<times> broker" where
  "deliverSimple t g p i m cs b =
     (case trySend (cs_Ch cs)
             (m\<lparr>msg_Attempts := 1, msg_LastError := seedError t g p (msg_Offset m) b\<rparr>) b of
        Some b' \<Rightarrow> (Continue, setNextIndex t g p (i + 1) (skipDone t g p (msg_Offset m) b'))
      | None \<Rightarrow> (Return, b))"

text \<open>Lease mode: bounded number in flight, an entry that waits for its ack, undone when the
  consumer's queue is full.\<close>

definition deliverLeased ::
  "gotime \<Rightarrow> string \<Rightarrow> string \<Rightarrow> int \<Rightarrow> nat \<Rightarrow> message \<Rightarrow> consumerStream \<Rightarrow> broker \<Rightarrow> ctl \<times> broker" where
  "deliverLeased now t g p i m cs b =
     (if maxInFlight b > 0 \<and> int (length (inflight_of b t g p)) \<ge> maxInFlight b then (Break, b)
      else
        let e = \<lparr>ie_Msg = m, ie_SentAt = now, ie_Attempts = 1, ie_NextDeliverAt = 0,
                 ie_LastError = seedError t g p (msg_Offset m) b, ie_Owner = cs_Owner cs\<rparr>;
            b1 = recordDeliveryLocked t g p (cs_Owner cs) now (putInflight t g p (msg_Offset m) e b);
            b2 = setNextIndex t g p (i + 1) b1 in
        case trySend (cs_Ch cs) (m\<lparr>msg_Attempts := ie_Attempts e, msg_LastError := ie_LastError e\<rparr>) b2 of
          Some b3 \<Rightarrow> (Continue, b3)
        | None \<Rightarrow> (Return, setNextIndex t g p i (delInflight t g p (msg_Offset m) b2)))"

definition deliver ::
  "gotime \<Rightarrow> string \<Rightarrow> string \<Rightarrow> int \<Rightarrow> nat \<Rightarrow> message \<Rightarrow> consumerStream \<Rightarrow> duration \<Rightarrow> broker
     \<Rightarrow> ctl \<times> broker" where
  "deliver now t g p i m cs lease b =
     (if lease = 0 then deliverSimple t g p i m cs b else deliverLeased now t g p i m cs b)"

definition dispatchIdem ::
  "gotime \<Rightarrow> string \<Rightarrow> string \<Rightarrow> int \<Rightarrow> consumerStream list \<Rightarrow> nat \<Rightarrow> message \<Rightarrow> broker \<Rightarrow> ctl \<times> broker" where
  "dispatchIdem now t g p chs i m b =
     (let start = getCursor t g b mod length chs in
      case tryLease now t g m chs start [0..<length chs] None b of
        (BeginErr err, b1) \<Rightarrow>
          (Break, noteRetryError now t g p (msg_Offset m) (''idem_begin_failed: '' @ error_Error err) b1)
      | (NoneFree None, b1) \<Rightarrow> (Break, b1)
      | (NoneFree (Some fb), b1) \<Rightarrow>
          deliver now t g p i m (chs ! fb) 0 (setCursor t g ((fb + 1) mod length chs) b1)
      | (Picked k lease alreadyOK, b1) \<Rightarrow>
          if alreadyOK then (Continue, setNextIndex t g p (i + 1) (skipDone t g p (msg_Offset m) b1))
          else deliver now t g p i m (chs ! k) lease b1)"

definition dispatchStep ::
  "gotime \<Rightarrow> string \<Rightarrow> string \<Rightarrow> int \<Rightarrow> consumerStream list \<Rightarrow> nat \<Rightarrow> message \<Rightarrow> broker \<Rightarrow> ctl \<times> broker" where
  "dispatchStep now t g p chs i m b0 =
     (case idemCommitted now t g m b0 of
        (True, b) \<Rightarrow> (Continue, setNextIndex t g p (i + 1) (skipDone t g p (msg_Offset m) b))
      | (False, b) \<Rightarrow>
          if mget (inflight_of b t g p) (msg_Offset m) \<noteq> None
          then (Continue, setNextIndex t g p (i + 1) b)
          else if msg_idemKey m = '''' then
            let start = getCursor t g b mod length chs; cs = chs ! start in
            deliver now t g p i m cs (streamLease b cs) (setCursor t g ((start + 1) mod length chs) b)
          else dispatchIdem now t g p chs i m b)"

function dispatchLoop ::
  "gotime \<Rightarrow> string \<Rightarrow> string \<Rightarrow> int \<Rightarrow> consumerStream list \<Rightarrow> message list \<Rightarrow> nat \<Rightarrow> broker \<Rightarrow> bool \<times> broker" where
  "dispatchLoop now t g p chs ms i b =
     (if i < length ms then
        case dispatchStep now t g p chs i (ms ! i) b of
          (Continue, b') \<Rightarrow> dispatchLoop now t g p chs ms (i + 1) b'
        | (Break, b') \<Rightarrow> (False, b')
        | (Return, b') \<Rightarrow> (True, b')
      else (False, b))"
  by pat_completeness auto
termination
  by (relation "measure (\<lambda>(now, t, g, p, chs, ms, i, b). length ms - i)") auto

declare dispatchLoop.simps [simp del]

definition initNextIndex :: "string \<Rightarrow> string \<Rightarrow> int \<Rightarrow> message list \<Rightarrow> broker \<Rightarrow> broker" where
  "initNextIndex t g p ms b =
     (case mget3 (nextIndex b) t g p of
        Some _ \<Rightarrow> b
      | None \<Rightarrow>
          setNextIndex t g p (length (takeWhile (\<lambda>m. msg_Offset m \<le> committed b t g p) ms)) b)"

fun dispatchPartitions ::
  "gotime \<Rightarrow> string \<Rightarrow> string \<Rightarrow> consumerStream list \<Rightarrow> message list list \<Rightarrow> int \<Rightarrow> nat list \<Rightarrow> broker
     \<Rightarrow> bool \<times> broker" where
  "dispatchPartitions now t g chs parts only [] b = (False, b)"
| "dispatchPartitions now t g chs parts only (p # ps) b =
     (if only \<ge> 0 \<and> int p \<noteq> only then dispatchPartitions now t g chs parts only ps b
      else
        let b1 = initNextIndex t g (int p) (parts ! p) (ensureInFlight t g (int p) b);
            i = (case mget3 (nextIndex b1) t g (int p) of None \<Rightarrow> 0 | Some i \<Rightarrow> i) in
        case dispatchLoop now t g (int p) chs (parts ! p) i b1 of
          (True, b2) \<Rightarrow> (True, b2)
        | (False, b2) \<Rightarrow> dispatchPartitions now t g chs parts only ps b2)"

definition ensureNextIndex :: "string \<Rightarrow> string \<Rightarrow> broker \<Rightarrow> broker" where
  "ensureNextIndex t g b =
     b\<lparr>nextIndex := mput2 t g (mdef [] (mdef [] (nextIndex b) t) g) (nextIndex b)\<rparr>"

definition ensureCursor :: "string \<Rightarrow> broker \<Rightarrow> broker" where
  "ensureCursor t b = b\<lparr>rrCursor := mput t (mdef [] (rrCursor b) t) (rrCursor b)\<rparr>"

fun dispatchGroups ::
  "gotime \<Rightarrow> string \<Rightarrow> (string, consumerStream list) gomap \<Rightarrow> message list list \<Rightarrow> int \<Rightarrow> string list
     \<Rightarrow> broker \<Rightarrow> broker" where
  "dispatchGroups now t groupChans parts only [] b = b"
| "dispatchGroups now t groupChans parts only (g # gs) b =
     (let chs = mdef [] groupChans g in
      if chs = [] then dispatchGroups now t groupChans parts only gs b
      else
        case dispatchPartitions now t g chs parts only [0..<length parts]
               (ensureNextIndex t g (ensureCursor t b)) of
          (True, b1) \<Rightarrow> b1
        | (False, b1) \<Rightarrow> dispatchGroups now t groupChans parts only gs b1)"

definition dispatchFilteredLocked :: "renv \<Rightarrow> string \<Rightarrow> int \<Rightarrow> broker \<Rightarrow> broker" where
  "dispatchFilteredLocked env t only b =
     (case mget (topics b) t of
        None \<Rightarrow> b
      | Some ts \<Rightarrow>
          (case mget (consumerChans b) t of
             None \<Rightarrow> b
           | Some groupChans \<Rightarrow>
               dispatchGroups (env_now env) t groupChans (ts_partitions ts) only
                 (env_ord env (mkeys groupChans)) b))"

definition dispatchLocked :: "renv \<Rightarrow> string \<Rightarrow> broker \<Rightarrow> broker" where
  "dispatchLocked env t b = dispatchFilteredLocked env t (-1) b"

definition dispatchPartitionLocked :: "renv \<Rightarrow> string \<Rightarrow> int \<Rightarrow> broker \<Rightarrow> broker" where
  "dispatchPartitionLocked env t p b = dispatchFilteredLocked env t p b"

end
