(* ===== verification/BrokerOps.thy ===== *)
theory BrokerOps
  imports Dispatch
begin

text \<open>
  Producing, dead-lettering and acknowledging (\<^verbatim>\<open>broker.go\<close>, \<^verbatim>\<open>dlq.go\<close>).  Public operations
  whose code takes the lock several times (\<open>Produce\<close>, \<open>AckIfOwner\<close>, \<open>AckCumulativeIfOwner\<close>)
  are the sequential composition of their critical sections.
\<close>

section \<open>Produce\<close>

definition messageEntry :: "string \<Rightarrow> message \<Rightarrow> entry" where
  "messageEntry topic msg =
     (let e0 = (zeroEntry RecordTypeMessage)
            \<lparr>e_Topic := topic, e_Partition := msg_Partition msg, e_Offset := msg_Offset msg,
             e_Key := msg_Key msg, e_Value := msg_Value msg\<rparr>;
          e1 = (case msg_Routing msg of
                  None \<Rightarrow> e0
                | Some r \<Rightarrow> e0\<lparr>e_RoutingLabel := rm_Label r, e_RoutingMeta := rm_Meta r\<rparr>) in
      case msg_Envelope msg of
        None \<Rightarrow> e1
      | Some env \<Rightarrow>
          let e2 = e1\<lparr>e_RunID := env_RunID env, e_StepID := env_StepID env,
                e_ParentStepID := env_ParentStepID env, e_Labels := env_Labels env,
                e_TargetTopic := env_TargetTopic env, e_PartitionOverride := env_PartitionOverride env,
                e_IdempotencyKey := env_IdempotencyKey env, e_Deadline := env_Deadline env,
                e_TenantID := env_TenantID env\<rparr>;
              e3 = (case env_RetryPolicy env of
                      None \<Rightarrow> e2
                    | Some rp \<Rightarrow> e2\<lparr>e_RetryMaxAttempts := rp_MaxAttempts rp,
                        e_RetryBackoffMs := rp_BackoffMs rp, e_RetryMaxBackoffMs := rp_MaxBackoffMs rp\<rparr>) in
          case env_DLQ env of
            None \<Rightarrow> e3
          | Some d \<Rightarrow> e3\<lparr>e_DLQOriginalTopic := dlq_OriginalTopic d,
              e_DLQOriginalPartition := dlq_OriginalPartition d,
              e_DLQOriginalOffset := dlq_OriginalOffset d, e_DLQAttempts := dlq_Attempts d,
              e_DLQLastError := dlq_LastError d, e_DLQRoutedAtMs := dlq_RoutedAtMs d\<rparr>)"

definition addByteSum :: "int \<Rightarrow> int list \<Rightarrow> int list" where
  "addByteSum n sums = (if sums = [] then [n] else sums @ [last sums + n])"

definition ts_append :: "nat \<Rightarrow> message \<Rightarrow> topicState \<Rightarrow> topicState" where
  "ts_append p msg ts =
     ts\<lparr>ts_partitions := (ts_partitions ts)[p := ts_partitions ts ! p @ [msg]],
        ts_byteSums := (ts_byteSums ts)[p := addByteSum (msg_size msg) (ts_byteSums ts ! p)]\<rparr>"

definition choosePartition :: "message \<Rightarrow> int \<Rightarrow> error + int" where
  "choosePartition msg numPartitions =
     (case (case msg_Envelope msg of None \<Rightarrow> None | Some env \<Rightarrow> env_PartitionOverride env) of
        None \<Rightarrow> Inr (pickPartition (msg_Key msg) numPartitions)
      | Some po \<Rightarrow>
          if po < 0 \<or> po \<ge> numPartitions then Inl (ErrText ''partition_override out of range'')
          else Inr po)"

definition backpressure :: "string \<Rightarrow> int \<Rightarrow> topicState \<Rightarrow> message \<Rightarrow> broker \<Rightarrow> error option" where
  "backpressure topic part ts msg b =
     (let slowest = (if maxPartitionMsgs b > 0 \<or> maxPartitionBytes b > 0
                     then slowestAckLocked topic part b else -1);
          msgs = ts_partitions ts ! nat part in
      if maxPartitionMsgs b > 0 \<and> bufferedCount msgs slowest \<ge> maxPartitionMsgs b
      then Some (ProducerOverloadError ''partition_buffer_full'' (1 * second) ErrBackpressure)
      else if maxPartitionBytes b > 0
        \<and> bufferedBytesCount msgs (ts_byteSums ts ! nat part) slowest + msg_size msg \<ge> maxPartitionBytes b
      then Some (ProducerOverloadError ''partition_buffer_bytes_full'' (1 * second) ErrBackpressure)
      else None)"

definition produceLocked :: "renv \<Rightarrow> string \<Rightarrow> message \<Rightarrow> broker \<Rightarrow> error option \<times> broker" where
  "produceLocked env topic msg b =
     (if topic = '''' then (Some (ErrText ''topic cannot be empty''), b)
      else case mget (topics b) topic of
        None \<Rightarrow> (Some (ErrText ''topic does not exist (create it first)''), b)
      | Some ts \<Rightarrow>
          if ts_partitions ts = [] then (Some (ErrText ''topic has no partitions''), b)
          else case choosePartition msg (int (length (ts_partitions ts))) of
            Inl err \<Rightarrow> (Some err, b)
          | Inr part \<Rightarrow>
              (case backpressure topic part ts msg b of
                 Some err \<Rightarrow> (Some err, b)
               | None \<Rightarrow>
                   let msg' = msg\<lparr>msg_Partition := part,
                         msg_Offset := int (length (ts_partitions ts ! nat part))\<rparr> in
                   case appendWALEntry (env_now env) (messageEntry topic msg') b of
                     (Some err, b1) \<Rightarrow> (Some err, b1)
                   | (None, b1) \<Rightarrow>
                       (None, dispatchPartitionLocked env topic part
                          (b1\<lparr>topics := mput topic (ts_append (nat part) msg' ts) (topics b1)\<rparr>))))"

text \<open>The router's decision written into the message (it wins over the producer's envelope).\<close>

definition applyRouting :: "routingDecision \<Rightarrow> message \<Rightarrow> message" where
  "applyRouting d msg =
     (if rd_Label d \<noteq> '''' \<or> rd_TargetTopic d \<noteq> '''' \<or> rd_PartitionOverride d \<noteq> None \<or> rd_Meta d \<noteq> []
      then
        let m1 = msg\<lparr>msg_Routing := Some \<lparr>rm_Label = rd_Label d, rm_Meta = rd_Meta d\<rparr>\<rparr> in
        if rd_TargetTopic d \<noteq> '''' \<or> rd_PartitionOverride d \<noteq> None then
          let e0 = (case msg_Envelope m1 of None \<Rightarrow> zeroEnvelope | Some e \<Rightarrow> e);
              e1 = (if rd_TargetTopic d \<noteq> '''' then e0\<lparr>env_TargetTopic := rd_TargetTopic d\<rparr> else e0);
              e2 = (if rd_PartitionOverride d \<noteq> None
                    then e1\<lparr>env_PartitionOverride := rd_PartitionOverride d\<rparr> else e1) in
          m1\<lparr>msg_Envelope := Some e2\<rparr>
        else m1
      else msg)"

definition routeMessage :: "router option \<Rightarrow> string \<Rightarrow> message \<Rightarrow> error + message" where
  "routeMessage router topic msg =
     (case router of
        None \<Rightarrow> Inr msg
      | Some route \<Rightarrow>
          if (case msg_Envelope msg of None \<Rightarrow> True | Some e \<Rightarrow> env_DLQ e = None)
          then (case route topic msg of Inl err \<Rightarrow> Inl err | Inr d \<Rightarrow> Inr (applyRouting d msg))
          else Inr msg)"

definition finalTopicOf :: "string \<Rightarrow> message \<Rightarrow> string" where
  "finalTopicOf topic msg =
     (case msg_Envelope msg of
        None \<Rightarrow> topic
      | Some e \<Rightarrow> if env_TargetTopic e \<noteq> '''' then env_TargetTopic e else topic)"

definition Produce :: "router option \<Rightarrow> renv \<Rightarrow> string \<Rightarrow> message \<Rightarrow> broker \<Rightarrow> error option \<times> broker" where
  "Produce router env topic msg0 b =
     (if topic = '''' then (Some (ErrText ''topic cannot be empty''), b)
      else case routeMessage router topic msg0 of
        Inl err \<Rightarrow> (Some err, b)
      | Inr msg \<Rightarrow>
          if (case msg_Envelope msg of None \<Rightarrow> False | Some e \<Rightarrow>
                (case env_Deadline e of None \<Rightarrow> False | Some dl \<Rightarrow> env_now env > dl))
          then (Some (ErrText ''message deadline exceeded''), b)
          else
            let finalTopic = finalTopicOf topic msg; tenantID = msg_tenant msg;
                idemKey = msg_idemKey msg in
            if idemKey = '''' then produceLocked env finalTopic msg b
            else case Begin (env_now env) tenantID finalTopic idemKey (idem b) of
              (Inl err, s1) \<Rightarrow> (Some err, b\<lparr>idem := s1\<rparr>)
            | (Inr True, s1) \<Rightarrow> (None, b\<lparr>idem := s1\<rparr>)
            | (Inr False, s1) \<Rightarrow>
                (case produceLocked env finalTopic msg (b\<lparr>idem := s1\<rparr>) of
                   (Some err, b2) \<Rightarrow>
                     (Some err, b2\<lparr>idem := Fail (env_now env) tenantID finalTopic idemKey (Some err) (idem b2)\<rparr>)
                 | (None, b2) \<Rightarrow>
                     (None, b2\<lparr>idem := Commit (env_now env) tenantID finalTopic idemKey [] (idem b2)\<rparr>)))"

section \<open>Dead letters\<close>

definition dlqTopicName :: "string \<Rightarrow> string" where
  "dlqTopicName topic = ''dlq.'' @ topic"

definition dlqMessage :: "gotime \<Rightarrow> string \<Rightarrow> message \<Rightarrow> message" where
  "dlqMessage now topic msg =
     (let env = (case msg_Envelope msg of None \<Rightarrow> zeroEnvelope | Some e \<Rightarrow> e) in
      msg\<lparr>msg_Envelope := Some (env\<lparr>env_TargetTopic := '''', env_PartitionOverride := None,
            env_RetryPolicy := None,
            env_DLQ := Some \<lparr>dlq_OriginalTopic = topic, dlq_OriginalPartition = msg_Partition msg,
              dlq_OriginalOffset = msg_Offset msg, dlq_Attempts = msg_Attempts msg,
              dlq_LastError = msg_LastError msg, dlq_RoutedAtMs = UnixMilli now\<rparr>\<rparr>)\<rparr>)"

definition publishToDLQLocked :: "renv \<Rightarrow> string \<Rightarrow> message \<Rightarrow> broker \<Rightarrow> error option \<times> broker" where
  "publishToDLQLocked env topic msg b =
     (if topic = '''' then (Some (ErrText ''source topic cannot be empty''), b)
      else if HasPrefix topic ''dlq.'' then (None, b)
      else
        let dlqTopic = dlqTopicName topic;
            partitions = (case mget (topics b) topic of
                None \<Rightarrow> 1
              | Some ts \<Rightarrow> if ts_partitions ts \<noteq> [] then int (length (ts_partitions ts)) else 1);
            created = (if mget (topics b) dlqTopic = None then createTopicLocked dlqTopic partitions b
                       else (None, b)) in
        case created of
          (Some err, b1) \<Rightarrow> (Some err, b1)
        | (None, b1) \<Rightarrow> produceLocked env dlqTopic (dlqMessage (env_now env) topic msg) b1)"

section \<open>Acknowledgement\<close>

text \<open>The code also clears \<open>LastError\<close> of the entry it is about to delete; nothing reads it.\<close>

definition ackLocked :: "renv \<Rightarrow> string \<Rightarrow> string \<Rightarrow> int \<Rightarrow> int \<Rightarrow> broker \<Rightarrow> error option \<times> broker" where
  "ackLocked env t g p off b =
     (case mget (topics b) t of
        None \<Rightarrow> (Some (ErrText ''topic does not exist''), b)
      | Some ts \<Rightarrow>
          if p \<ge> int (length (ts_partitions ts)) then (Some (ErrText ''partition out of range''), b)
          else
            let b1 = delInflight t g p off (ensureOffsets t g b) in
            case mget3 (consumerOffsets b1) t g p of
              Some cur \<Rightarrow>
                if off \<le> cur then (None, dispatchPartitionLocked env t p b1)
                else (None, dispatchPartitionLocked env t p (setOffset t g p off b1))
            | None \<Rightarrow> (None, dispatchPartitionLocked env t p (setOffset t g p off b1)))"

definition checkAckArgs :: "string \<Rightarrow> string \<Rightarrow> int \<Rightarrow> int \<Rightarrow> error option" where
  "checkAckArgs t g p off =
     (if t = '''' then Some (ErrText ''topic cannot be empty'')
      else if g = '''' then Some (ErrText ''group cannot be empty'')
      else if p < 0 then Some (ErrText ''partition cannot be negative'')
      else if off < 0 then Some (ErrText ''offset cannot be negative'')
      else None)"

definition Ack :: "renv \<Rightarrow> string \<Rightarrow> string \<Rightarrow> int \<Rightarrow> int \<Rightarrow> broker \<Rightarrow> error option \<times> broker" where
  "Ack env t g p off b =
     (case checkAckArgs t g p off of
        Some err \<Rightarrow> (Some err, b)
      | None \<Rightarrow> ackLocked env t g p off b)"

text \<open>The checks \<open>AckIfOwner\<close> and \<open>Nack\<close> make under the lock: the in-flight entry, or the error.\<close>

definition ownedEntry ::
  "string \<Rightarrow> string \<Rightarrow> int \<Rightarrow> int \<Rightarrow> string \<Rightarrow> broker \<Rightarrow> (error + inflightEntry) \<times> broker" where
  "ownedEntry t g p off owner b =
     (case mget (topics b) t of
        None \<Rightarrow> (Inl (ErrText ''topic does not exist''), b)
      | Some ts \<Rightarrow>
          if p \<ge> int (length (ts_partitions ts)) then (Inl (ErrText ''partition out of range''), b)
          else
            let b1 = ensureInFlight t g p b in
            case mget (inflight_of b1 t g p) off of
              None \<Rightarrow> (Inl (ErrText ''message is not in-flight''), b1)
            | Some e \<Rightarrow> if ie_Owner e \<noteq> owner then (Inl ErrNotOwner, b1) else (Inr e, b1))"

definition AckIfOwner ::
  "renv \<Rightarrow> string \<Rightarrow> string \<Rightarrow> int \<Rightarrow> int \<Rightarrow> string \<Rightarrow> broker \<Rightarrow> error option \<times> broker" where
  "AckIfOwner env t g p off owner0 b =
     (case checkAckArgs t g p off of
        Some err \<Rightarrow> (Some err, b)
      | None \<Rightarrow>
          let owner = TrimSpace owner0 in
          if owner = '''' then (Some (ErrText ''owner cannot be empty''), b)
          else case ownedEntry t g p off owner b of
            (Inl err, b1) \<Rightarrow> (Some err, b1)
          | (Inr e, b1) \<Rightarrow>
              let m = ie_Msg e in
              if msg_idemKey m = '''' then ackLocked env t g p off b1
              else case ConsumeCommitIfOwner (env_now env) (msg_tenant m) t g (msg_idemKey m) owner []
                          (idem b1, wal b1) of
                (r, (s', w')) \<Rightarrow>
                  let b2 = b1\<lparr>idem := s', wal := w'\<rparr> in
                  case r of
                    None \<Rightarrow> ackLocked env t g p off b2
                  | Some err \<Rightarrow>
                      if err = ErrIdempotencyLeaseHeld then (Some ErrNotOwner, b2)
                      else if err \<noteq> ErrIdempotencyNotFound then (Some err, b2)
                      else ackLocked env t g p off b2)"

fun cumulativeCheck :: "(int, inflightEntry) gomap \<Rightarrow> string \<Rightarrow> int list \<Rightarrow> error option" where
  "cumulativeCheck fl owner [] = None"
| "cumulativeCheck fl owner (off # offs) =
     (case mget fl off of
        None \<Rightarrow> Some (ErrText ''message range is not fully in-flight'')
      | Some e \<Rightarrow> if ie_Owner e \<noteq> owner then Some ErrNotOwner else cumulativeCheck fl owner offs)"

fun ackAllIfOwner ::
  "renv \<Rightarrow> string \<Rightarrow> string \<Rightarrow> int \<Rightarrow> string \<Rightarrow> int list \<Rightarrow> broker \<Rightarrow> error option \<times> broker" where
  "ackAllIfOwner env t g p owner [] b = (None, b)"
| "ackAllIfOwner env t g p owner (off # offs) b =
     (case AckIfOwner env t g p off owner b of
        (Some err, b1) \<Rightarrow> (Some err, b1)
      | (None, b1) \<Rightarrow> ackAllIfOwner env t g p owner offs b1)"

definition AckCumulativeIfOwner ::
  "renv \<Rightarrow> string \<Rightarrow> string \<Rightarrow> int \<Rightarrow> int \<Rightarrow> string \<Rightarrow> broker \<Rightarrow> error option \<times> broker" where
  "AckCumulativeIfOwner env t g p off owner0 b =
     (case checkAckArgs t g p off of
        Some err \<Rightarrow> (Some err, b)
      | None \<Rightarrow>
          let owner = TrimSpace owner0 in
          if owner = '''' then (Some (ErrText ''owner cannot be empty''), b)
          else case mget (topics b) t of
            None \<Rightarrow> (Some (ErrText ''topic does not exist''), b)
          | Some ts \<Rightarrow>
              if p \<ge> int (length (ts_partitions ts)) then (Some (ErrText ''partition out of range''), b)
              else
                let b1 = ensureOffsets t g b; cur = committed b1 t g p in
                if off \<le> cur then (None, b1)
                else
                  let b2 = ensureInFlight t g p b1 in
                  case cumulativeCheck (inflight_of b2 t g p) owner [cur + 1..off] of
                    Some err \<Rightarrow> (Some err, b2)
                  | None \<Rightarrow> ackAllIfOwner env t g p owner [cur + 1..off] b2)"

definition advanceOffsetLocked ::
  "renv \<Rightarrow> string \<Rightarrow> string \<Rightarrow> int \<Rightarrow> int \<Rightarrow> broker \<Rightarrow> error option \<times> broker" where
  "advanceOffsetLocked env t g p off b =
     (case checkAckArgs t g p off of
        Some err \<Rightarrow> (Some err, b)
      | None \<Rightarrow>
          (case mget (topics b) t of
             None \<Rightarrow> (Some (ErrText ''topic does not exist''), b)
           | Some ts \<Rightarrow>
               if p \<ge> int (length (ts_partitions ts)) then (Some (ErrText ''partition out of range''), b)
               else
                 let b1 = ensureOffsets t g b in
                 case mget3 (consumerOffsets b1) t g p of
                   Some cur \<Rightarrow>
                     if off \<le> cur then (None, b1)
                     else (None, dispatchPartitionLocked env t p (setOffset t g p off b1))
                 | None \<Rightarrow> (None, dispatchPartitionLocked env t p (setOffset t g p off b1))))"

end
