(* ===== verification/Redelivery.thy ===== *)
theory Redelivery
  imports BrokerOps
begin

text \<open>
  Redelivery of expired in-flight messages (\<^verbatim>\<open>internal/broker/redelivery.go\<close>), negative
  acknowledgement, and the registration and removal of consumers (\<^verbatim>\<open>broker.go\<close>).
  \<open>redeliverExpiredLocked\<close> takes the sequence in which its four nested \<open>range\<close> loops visit
  the in-flight entries: Go fixes no order, and an entry added during the iteration may or may
  not be visited.  The theorems hold for every such sequence.
\<close>

section \<open>Definitions\<close>

type_synonym inflightKey = "string \<times> string \<times> int \<times> int"

definition setEntryError :: "string \<Rightarrow> inflightEntry \<Rightarrow> inflightEntry" where
  "setEntryError err e = e\<lparr>ie_LastError := err, ie_Msg := (ie_Msg e)\<lparr>msg_LastError := err\<rparr>\<rparr>"

text \<open>Record an error in the entry, in the retry state and (best effort) in the log.\<close>

definition noteEntryError ::
  "gotime \<Rightarrow> inflightKey \<Rightarrow> string \<Rightarrow> inflightEntry \<Rightarrow> broker \<Rightarrow> broker" where
  "noteEntryError now k err e b =
     (case k of (t, g, p, off) \<Rightarrow>
        noteRetryError now t g p off err (putInflight t g p off (setEntryError err e) b))"

text \<open>Stop redelivering a message and move the group past it.\<close>

definition finishEntry :: "renv \<Rightarrow> inflightKey \<Rightarrow> broker \<Rightarrow> broker" where
  "finishEntry env k b =
     (case k of (t, g, p, off) \<Rightarrow>
        purgeRetryStateLocked t g p off
          (snd (advanceOffsetLocked env t g p off (delInflight t g p off b))))"

definition entryPolicy :: "inflightEntry \<Rightarrow> retryPolicy option" where
  "entryPolicy e = (case msg_Envelope (ie_Msg e) of None \<Rightarrow> None | Some env \<Rightarrow> env_RetryPolicy env)"

definition exhausted :: "inflightEntry \<Rightarrow> bool" where
  "exhausted e =
     (case entryPolicy e of
        None \<Rightarrow> False
      | Some rp \<Rightarrow> rp_MaxAttempts rp > 0 \<and> ie_Attempts e \<ge> rp_MaxAttempts rp)"

definition dlqMsgOf :: "gotime \<Rightarrow> inflightKey \<Rightarrow> inflightEntry \<Rightarrow> message" where
  "dlqMsgOf now k e =
     (case k of (t, g, p, off) \<Rightarrow>
        let env = (case msg_Envelope (ie_Msg e) of None \<Rightarrow> zeroEnvelope | Some env \<Rightarrow> env) in
        (ie_Msg e)\<lparr>msg_Attempts := ie_Attempts e, msg_LastError := ie_LastError e,
          msg_Envelope := Some (env\<lparr>env_DLQ := Some
            \<lparr>dlq_OriginalTopic = t, dlq_OriginalPartition = p, dlq_OriginalOffset = off,
             dlq_Attempts = ie_Attempts e, dlq_LastError = ie_LastError e,
             dlq_RoutedAtMs = UnixMilli now\<rparr>\<rparr>)\<rparr>)"

text \<open>The message goes to the dead-letter topic; only when that succeeds is it dropped here.\<close>

definition deadLetter :: "renv \<Rightarrow> inflightKey \<Rightarrow> inflightEntry \<Rightarrow> broker \<Rightarrow> broker" where
  "deadLetter env k e b =
     (case publishToDLQLocked env (fst k) (dlqMsgOf (env_now env) k e) b of
        (Some err, b1) \<Rightarrow>
          noteEntryError (env_now env) k
            (appendLastError (ie_LastError e) (''dlq_publish_failed: '' @ error_Error err)) e b1
      | (None, b1) \<Rightarrow> finishEntry env k b1)"

fun tryRedeliver ::
  "gotime \<Rightarrow> string \<Rightarrow> string \<Rightarrow> message \<Rightarrow> consumerStream list \<Rightarrow> (string, duration) gomap \<Rightarrow> nat
     \<Rightarrow> nat list \<Rightarrow> broker \<Rightarrow> leasePick \<times> broker" where
  "tryRedeliver now t g m chs ownerLease start [] b = (NoneFree None, b)"
| "tryRedeliver now t g m chs ownerLease start (k # ks) b =
     (let i = (start + k) mod length chs; cand = chs ! i;
          lease = mdef (ackTimeout b) ownerLease (cs_Owner cand) in
      case ConsumeBeginLease now (msg_tenant m) t g (msg_idemKey m) (cs_Owner cand) lease
             (idem b, wal b) of
        (r, (s', w')) \<Rightarrow>
          let b' = b\<lparr>idem := s', wal := w'\<rparr> in
          case r of
            Inl err \<Rightarrow>
              if err = ErrIdempotencyLeaseHeld
              then tryRedeliver now t g m chs ownerLease start ks b'
              else (BeginErr err, b')
          | Inr (alreadyDone, prior) \<Rightarrow> (Picked i lease alreadyDone, b'))"

definition nextDelivery :: "gotime \<Rightarrow> inflightEntry \<Rightarrow> int \<Rightarrow> gotime" where
  "nextDelivery now e attempts =
     (case entryPolicy e of
        None \<Rightarrow> 0
      | Some rp \<Rightarrow>
          if rp_BackoffMs rp > 0 \<or> rp_MaxBackoffMs rp > 0
          then now + computeBackoff (Some rp) (attempts - 1) else 0)"

definition resentEntry :: "gotime \<Rightarrow> consumerStream \<Rightarrow> inflightEntry \<Rightarrow> inflightEntry" where
  "resentEntry now cs e =
     (let n = ie_Attempts e + 1 in
      e\<lparr>ie_Owner := cs_Owner cs, ie_SentAt := now, ie_Attempts := n,
        ie_NextDeliverAt := nextDelivery now e n,
        ie_Msg := (ie_Msg e)\<lparr>msg_Attempts := n, msg_LastError := ie_LastError e\<rparr>\<rparr>)"

text \<open>Hand the message to a consumer again; a full queue is left to the next tick.\<close>

definition resend :: "gotime \<Rightarrow> inflightKey \<Rightarrow> consumerStream \<Rightarrow> inflightEntry \<Rightarrow> broker \<Rightarrow> broker" where
  "resend now k cs e b =
     (case k of (t, g, p, off) \<Rightarrow>
        let e' = resentEntry now cs e;
            b1 = recordDeliveryLocked t g p (cs_Owner cs) now (putInflight t g p off e' b) in
        case trySend (cs_Ch cs) (ie_Msg e') b1 of None \<Rightarrow> b1 | Some b2 \<Rightarrow> b2)"

definition redeliverTo ::
  "renv \<Rightarrow> inflightKey \<Rightarrow> consumerStream list \<Rightarrow> inflightEntry \<Rightarrow> broker \<Rightarrow> broker" where
  "redeliverTo env k chs e b =
     (case k of (t, g, p, off) \<Rightarrow>
        let now = env_now env; m = ie_Msg e in
        if msg_idemKey m = '''' then
          let idx = getCursor t g b mod length chs in
          resend now k (chs ! idx) e (setCursor t g ((getCursor t g b + 1) mod length chs) b)
        else
          case tryRedeliver now t g m chs (ownerLeaseByTopicGroupLocked t g b)
                 (getCursor t g b mod length chs) [0..<length chs] b of
            (BeginErr err, b1) \<Rightarrow>
              noteEntryError now k
                (appendLastError (ie_LastError e) (''idem_begin_failed: '' @ error_Error err)) e b1
          | (NoneFree _, b1) \<Rightarrow> b1
          | (Picked i lease alreadyDone, b1) \<Rightarrow>
              if alreadyDone then finishEntry env k b1
              else resend now k (chs ! i) e (setCursor t g ((i + 1) mod length chs) b1))"

text \<open>An entry that timed out with no recorded error gets \<open>ack_timeout\<close>.\<close>

definition markTimeout ::
  "gotime \<Rightarrow> inflightKey \<Rightarrow> inflightEntry \<Rightarrow> broker \<Rightarrow> inflightEntry \<times> broker" where
  "markTimeout now k e b =
     (if ie_LastError e = ''''
      then (setEntryError ''ack_timeout'' e, noteEntryError now k ''ack_timeout'' e b)
      else (e, b))"

text \<open>What happens to an entry whose lease has run out.\<close>

definition redeliverDue ::
  "renv \<Rightarrow> inflightKey \<Rightarrow> consumerStream list \<Rightarrow> inflightEntry \<Rightarrow> broker \<Rightarrow> broker" where
  "redeliverDue env k chs e0 b0 =
     (let now = env_now env; (e, b) = markTimeout now k e0 b0 in
      if \<not> IsZero (ie_NextDeliverAt e) \<and> now < ie_NextDeliverAt e then b
      else case idemCommitted now (fst k) (fst (snd k)) (ie_Msg e) b of
        (True, b1) \<Rightarrow> finishEntry env k b1
      | (False, b1) \<Rightarrow>
          if exhausted e then deadLetter env k e b1 else redeliverTo env k chs e b1)"

definition expired :: "gotime \<Rightarrow> string \<Rightarrow> string \<Rightarrow> inflightEntry \<Rightarrow> broker \<Rightarrow> bool" where
  "expired now t g e b \<longleftrightarrow>
     \<not> time_Sub now (ie_SentAt e)
         < mdef (ackTimeout b) (ownerLeaseByTopicGroupLocked t g b) (ie_Owner e)"

definition redeliverEntry :: "renv \<Rightarrow> broker \<Rightarrow> inflightKey \<Rightarrow> broker" where
  "redeliverEntry env b0 k =
     (case k of (t, g, p, off) \<Rightarrow>
        case mget (consumerChans b0) t of
          None \<Rightarrow> b0
        | Some groupChans \<Rightarrow>
            let b = ensureCursor t b0; chs = mdef [] groupChans g in
            if chs = [] then b
            else case mget (inflight_of b t g p) off of
              None \<Rightarrow> b
            | Some e \<Rightarrow>
                if expired (env_now env) t g e b then redeliverDue env k chs e b else b)"

definition ensureCursors :: "broker \<Rightarrow> broker" where
  "ensureCursors b =
     foldl (\<lambda>b t. if mget (consumerChans b) t = None then b else ensureCursor t b) b (mkeys (inFlight b))"

definition redeliverExpiredLocked :: "renv \<Rightarrow> inflightKey list \<Rightarrow> broker \<Rightarrow> broker" where
  "redeliverExpiredLocked env visit b = foldl (redeliverEntry env) (ensureCursors b) visit"

section \<open>Negative acknowledgement\<close>

text \<open>The lease \<open>Nack\<close> counts back by: the first stream of the owner that has one.\<close>

definition nackLease :: "string \<Rightarrow> string \<Rightarrow> string \<Rightarrow> broker \<Rightarrow> duration" where
  "nackLease t g owner b =
     (case find (\<lambda>st. cs_Owner st = owner \<and> cs_Lease st > 0)
             (case mget2 (consumerChans b) t g of None \<Rightarrow> [] | Some sts \<Rightarrow> sts) of
        None \<Rightarrow> ackTimeout b
      | Some st \<Rightarrow> cs_Lease st)"

definition nackIdem ::
  "gotime \<Rightarrow> inflightKey \<Rightarrow> string \<Rightarrow> string \<Rightarrow> string \<Rightarrow> inflightEntry \<Rightarrow> broker \<Rightarrow> inflightEntry \<times> broker" where
  "nackIdem now k owner reason merged e b =
     (case k of (t, g, p, off) \<Rightarrow>
        let m = ie_Msg e in
        if msg_idemKey m = '''' then (e, b)
        else case ConsumeFailIfOwner now (msg_tenant m) t g (msg_idemKey m) owner (Some (ErrText reason))
                    (idem b, wal b) of
          (r, (s', w')) \<Rightarrow>
            let b1 = b\<lparr>idem := s', wal := w'\<rparr> in
            case r of
              None \<Rightarrow> (e, b1)
            | Some err \<Rightarrow>
                if err = ErrIdempotencyNotFound then (e, b1)
                else
                  let merged2 = appendLastError merged (''idem_fail_failed: '' @ error_Error err) in
                  (setEntryError merged2 e, noteRetryError now t g p off merged2 b1))"

definition Nack ::
  "renv \<Rightarrow> inflightKey list \<Rightarrow> string \<Rightarrow> string \<Rightarrow> int \<Rightarrow> int \<Rightarrow> string \<Rightarrow> string \<Rightarrow> broker
     \<Rightarrow> error option \<times> broker" where
  "Nack env visit t g p off owner0 reason0 b =
     (case checkAckArgs t g p off of
        Some err \<Rightarrow> (Some err, b)
      | None \<Rightarrow>
          let owner = TrimSpace owner0; now = env_now env;
              reason = (if TrimSpace reason0 = '''' then ''nack'' else TrimSpace reason0) in
          if owner = '''' then (Some (ErrText ''owner cannot be empty''), b)
          else case ownedEntry t g p off owner b of
            (Inl err, b1) \<Rightarrow> (Some err, b1)
          | (Inr e, b1) \<Rightarrow>
              let merged = appendLastError (ie_LastError e) reason;
                  b2 = putRetryState t g p off \<lparr>rs_LastError = merged, rs_LastErrorAt = now\<rparr> b1 in
              case appendWALEntry now (retryEntry now t g p off merged) b2 of
                (Some err, b3) \<Rightarrow> (Some err, b3)
              | (None, b3) \<Rightarrow>
                  (case nackIdem now (t, g, p, off) owner reason merged (setEntryError merged e) b3 of
                     (e1, b4) \<Rightarrow>
                       let e2 = e1\<lparr>ie_NextDeliverAt := 0,
                             ie_SentAt := now - nackLease t g (ie_Owner e1) b4 - millisecond\<rparr> in
                       (None, redeliverExpiredLocked env visit (putInflight t g p off e2 b4))))"

section \<open>Consumers\<close>

definition addStream :: "string \<Rightarrow> string \<Rightarrow> string \<Rightarrow> duration \<Rightarrow> broker \<Rightarrow> nat \<times> broker" where
  "addStream t g owner lease b =
     (let ch = nextChan b;
          sts = (case mget2 (consumerChans b) t g of None \<Rightarrow> [] | Some sts \<Rightarrow> sts) in
      (ch, b\<lparr>nextChan := ch + 1, chans := mput ch \<lparr>ch_buf = [], ch_closed = False\<rparr> (chans b),
             consumerChans := mput2 t g (sts @ [\<lparr>cs_Owner = owner, cs_Lease = lease, cs_Ch = ch\<rparr>])
                                (consumerChans b)\<rparr>))"

definition consumeWith ::
  "renv \<Rightarrow> string \<Rightarrow> string \<Rightarrow> string \<Rightarrow> duration \<Rightarrow> broker \<Rightarrow> (error + nat) \<times> broker" where
  "consumeWith env t g owner lease b =
     (case mget (topics b) t of
        None \<Rightarrow> (Inl (ErrText (''topic not found: '' @ t)), b)
      | Some _ \<Rightarrow> (case addStream t g owner lease b of (ch, b1) \<Rightarrow> (Inr ch, dispatchLocked env t b1)))"

definition Consume :: "renv \<Rightarrow> string \<Rightarrow> string \<Rightarrow> string \<Rightarrow> broker \<Rightarrow> (error + nat) \<times> broker" where
  "Consume env t g owner0 b =
     (if t = '''' \<or> g = '''' then (Inl (ErrText ''topic and group are required''), b)
      else
        let owner = TrimSpace owner0 in
        if owner = '''' then (Inl (ErrText ''owner is required''), b)
        else consumeWith env t g owner 0 b)"

definition ConsumeWithLease ::
  "renv \<Rightarrow> string \<Rightarrow> string \<Rightarrow> string \<Rightarrow> duration \<Rightarrow> broker \<Rightarrow> (error + nat) \<times> broker" where
  "ConsumeWithLease env t g owner0 lease0 b =
     (if t = '''' \<or> g = '''' then (Inl (ErrText ''topic and group are required''), b)
      else
        let owner = TrimSpace owner0 in
        if owner = '''' then (Inl (ErrText ''owner is required''), b)
        else consumeWith env t g owner (if lease0 \<le> 0 then leaseDefault b else lease0) b)"

text \<open>Swap-remove: the last stream takes the place of the first one on the channel.\<close>

fun removeStream :: "nat \<Rightarrow> consumerStream list \<Rightarrow> consumerStream list" where
  "removeStream ch [] = []"
| "removeStream ch (st # sts) =
     (if cs_Ch st = ch then (if sts = [] then [] else last sts # butlast sts)
      else st # removeStream ch sts)"

definition closeChan :: "nat \<Rightarrow> broker \<Rightarrow> broker" where
  "closeChan ch b =
     (case mget (chans b) ch of
        None \<Rightarrow> b
      | Some c \<Rightarrow> b\<lparr>chans := mput ch (c\<lparr>ch_closed := True\<rparr>) (chans b)\<rparr>)"

definition dropCursor :: "string \<Rightarrow> string \<Rightarrow> broker \<Rightarrow> broker" where
  "dropCursor t g b =
     (case mget (rrCursor b) t of
        None \<Rightarrow> b
      | Some byGroup \<Rightarrow>
          let byGroup' = mdel g byGroup in
          b\<lparr>rrCursor := (if byGroup' = [] then mdel t (rrCursor b) else mput t byGroup' (rrCursor b))\<rparr>)"

definition disconnect :: "string \<Rightarrow> string \<Rightarrow> nat \<Rightarrow> broker \<Rightarrow> broker" where
  "disconnect t g ch b =
     (case mget (consumerChans b) t of
        None \<Rightarrow> b
      | Some groupChans \<Rightarrow>
          let sts = mdef [] groupChans g;
              b1 = (if (\<exists>st \<in> set sts. cs_Ch st = ch) then closeChan ch b else b);
              sts' = removeStream ch sts;
              groupChans' = (if sts' = [] then mdel g groupChans else mput g sts' groupChans);
              b2 = (if sts' = [] then dropCursor t g b1 else b1) in
          b2\<lparr>consumerChans := (if groupChans' = [] then mdel t (consumerChans b2)
                               else mput t groupChans' (consumerChans b2))\<rparr>)"

text \<open>A consumer takes the next message of its channel.\<close>

definition recv :: "nat \<Rightarrow> broker \<Rightarrow> message option \<times> broker" where
  "recv ch b =
     (case mget (chans b) ch of
        None \<Rightarrow> (None, b)
      | Some c \<Rightarrow>
          (case ch_buf c of
             [] \<Rightarrow> (None, b)
           | m # ms \<Rightarrow> (Some m, b\<lparr>chans := mput ch (c\<lparr>ch_buf := ms\<rparr>) (chans b)\<rparr>)))"

end
