(* ===== verification/WalReplay.thy ===== *)
theory WalReplay
  imports Redelivery
begin

text \<open>
  Startup from the write-ahead log, \<^verbatim>\<open>internal/broker/wal_replay.go\<close>: one function per record
  type, composed by \<open>replayEntry\<close>, folded over the log by \<open>replayEntries\<close>.  A message record
  whose offset is not the next one of its partition aborts the start; a negative partition
  number, on which the Go code panics, is an error of its own.
\<close>

section \<open>Definitions\<close>

definition hasDLQ :: "entry \<Rightarrow> bool" where
  "hasDLQ e \<longleftrightarrow> e_DLQOriginalTopic e \<noteq> '''' \<or> e_DLQRoutedAtMs e \<noteq> 0 \<or> e_DLQLastError e \<noteq> ''''"

definition hasRetry :: "entry \<Rightarrow> bool" where
  "hasRetry e \<longleftrightarrow> e_RetryMaxAttempts e \<noteq> 0 \<or> e_RetryBackoffMs e \<noteq> 0 \<or> e_RetryMaxBackoffMs e \<noteq> 0"

definition hasEnvelope :: "entry \<Rightarrow> bool" where
  "hasEnvelope e \<longleftrightarrow>
     e_RunID e \<noteq> '''' \<or> e_StepID e \<noteq> '''' \<or> e_ParentStepID e \<noteq> '''' \<or> e_Labels e \<noteq> []
     \<or> e_TargetTopic e \<noteq> '''' \<or> e_PartitionOverride e \<noteq> None \<or> e_IdempotencyKey e \<noteq> ''''
     \<or> e_Deadline e \<noteq> None \<or> hasRetry e \<or> e_TenantID e \<noteq> '''' \<or> hasDLQ e"

definition envelopeFromEntry :: "entry \<Rightarrow> envelope option" where
  "envelopeFromEntry e =
     (if \<not> hasEnvelope e then None
      else Some
        \<lparr>env_RunID = e_RunID e, env_StepID = e_StepID e, env_ParentStepID = e_ParentStepID e,
         env_Labels = e_Labels e, env_TargetTopic = e_TargetTopic e,
         env_PartitionOverride = e_PartitionOverride e, env_IdempotencyKey = e_IdempotencyKey e,
         env_Deadline = e_Deadline e,
         env_RetryPolicy =
           (if hasRetry e
            then Some \<lparr>rp_MaxAttempts = e_RetryMaxAttempts e, rp_BackoffMs = e_RetryBackoffMs e,
                       rp_MaxBackoffMs = e_RetryMaxBackoffMs e\<rparr>
            else None),
         env_TenantID = e_TenantID e,
         env_DLQ =
           (if hasDLQ e
            then Some \<lparr>dlq_OriginalTopic = e_DLQOriginalTopic e,
                       dlq_OriginalPartition = e_DLQOriginalPartition e,
                       dlq_OriginalOffset = e_DLQOriginalOffset e, dlq_Attempts = e_DLQAttempts e,
                       dlq_LastError = e_DLQLastError e, dlq_RoutedAtMs = e_DLQRoutedAtMs e\<rparr>
            else None)\<rparr>)"

definition messageFromEntry :: "entry \<Rightarrow> message" where
  "messageFromEntry e =
     \<lparr>msg_Offset = e_Offset e, msg_Partition = e_Partition e, msg_Key = e_Key e,
      msg_Value = e_Value e, msg_Envelope = envelopeFromEntry e,
      msg_Routing =
        (if e_RoutingLabel e \<noteq> '''' \<or> e_RoutingMeta e \<noteq> []
         then Some \<lparr>rm_Label = e_RoutingLabel e, rm_Meta = e_RoutingMeta e\<rparr> else None),
      msg_Attempts = 0, msg_LastError = ''''\<rparr>"

text \<open>Grow a topic to at least \<open>n\<close> partitions.\<close>

definition growTopic :: "int \<Rightarrow> topicState \<Rightarrow> topicState" where
  "growTopic n ts =
     ts\<lparr>ts_partitions := ts_partitions ts @ replicate (nat n - length (ts_partitions ts)) [],
        ts_byteSums := ts_byteSums ts @ replicate (nat n - length (ts_partitions ts)) []\<rparr>"

definition replayTopic :: "entry \<Rightarrow> broker \<Rightarrow> broker" where
  "replayTopic e b =
     (if e_Topic e = '''' \<or> e_Partition e \<le> 0 then b
      else
        let cfg = \<lparr>tc_Mode = e_TopicMode e\<rparr> in
        case mget (topics b) (e_Topic e) of
          None \<Rightarrow> snd (createTopicLockedWithConfig (e_Topic e) (e_Partition e) cfg b)
        | Some ts \<Rightarrow>
            let ts1 = growTopic (e_Partition e) ts;
                ts2 = (case normalizeTopicConfig cfg of Inl _ \<Rightarrow> ts1 | Inr c \<Rightarrow> ts1\<lparr>ts_Config := c\<rparr>) in
            b\<lparr>topics := mput (e_Topic e) ts2 (topics b)\<rparr>)"

definition emptyTopic :: topicState where
  "emptyTopic = \<lparr>ts_partitions = [], ts_byteSums = [], ts_Config = \<lparr>tc_Mode = TopicModeStandard\<rparr>\<rparr>"

definition commitReplayed :: "gotime \<Rightarrow> entry \<Rightarrow> message \<Rightarrow> idemStore \<Rightarrow> idemStore" where
  "commitReplayed now e m s =
     (if msg_idemKey m = '''' then s else Commit now (msg_tenant m) (e_Topic e) (msg_idemKey m) [] s)"

definition replayMessage :: "gotime \<Rightarrow> entry \<Rightarrow> broker \<Rightarrow> error + broker" where
  "replayMessage now e b =
     (let ts0 = (case mget (topics b) (e_Topic e) of None \<Rightarrow> emptyTopic | Some ts \<Rightarrow> ts);
          ts = growTopic (e_Partition e + 1) ts0 in
      if e_Partition e < 0 then Inl (ErrText ''panic: index out of range'')
      else if e_Offset e \<noteq> int (length (ts_partitions ts ! nat (e_Partition e)))
      then Inl (ErrText ''wal replay: unexpected offset'')
      else
        let m = messageFromEntry e in
        Inr (b\<lparr>idem := commitReplayed now e m (idem b),
               topics := mput (e_Topic e) (ts_append (nat (e_Partition e)) m ts) (topics b)\<rparr>))"

definition replayOffset :: "entry \<Rightarrow> broker \<Rightarrow> broker" where
  "replayOffset e b0 =
     (let t = e_Topic e; g = e_Group e; b = ensureOffsets t g b0;
          put = b\<lparr>consumerOffsets := mput3 t g (e_Partition e) (e_Offset e) (consumerOffsets b)\<rparr> in
      case mget3 (consumerOffsets b) t g (e_Partition e) of
        None \<Rightarrow> put
      | Some cur \<Rightarrow> if e_Offset e > cur then put else b)"

definition replayRetryState :: "entry \<Rightarrow> broker \<Rightarrow> broker" where
  "replayRetryState e b =
     (if e_Topic e = '''' \<or> e_Group e = '''' then b
      else putRetryState (e_Topic e) (e_Group e) (e_Partition e) (e_Offset e)
             \<lparr>rs_LastError = e_LastError e,
              rs_LastErrorAt = (case e_LastErrorAt e of None \<Rightarrow> 0 | Some at \<Rightarrow> at)\<rparr> b)"

definition replayConsumeIdem :: "gotime \<Rightarrow> entry \<Rightarrow> broker \<Rightarrow> broker" where
  "replayConsumeIdem now e b =
     (if e_IdempotencyScope e \<noteq> IdemScopeConsume then b
      else if e_Topic e = '''' \<or> e_Group e = '''' \<or> e_IdempotencyKey e = '''' then b
      else
        let updatedAt = (case e_UpdatedAt e of None \<Rightarrow> now | Some at \<Rightarrow> at);
            k = consumeKey (e_TenantID e) (e_Topic e) (e_Group e) (e_IdempotencyKey e);
            put = (\<lambda>st. b\<lparr>idem := (idem b)\<lparr>idem_items := mput k st (idem_items (idem b))\<rparr>\<rparr>) in
        if e_IdempotencyStatus e = IdemStatusCommitted then
          put \<lparr>st_Status = IdemStatusCommitted, st_Result = e_Result e, st_LastError = '''',
               st_UpdatedAt = updatedAt, st_Owner = '''', st_LeaseUntil = 0\<rparr>
        else if e_IdempotencyStatus e = IdemStatusFailed then
          put \<lparr>st_Status = IdemStatusFailed, st_Result = [], st_LastError = e_LastError e,
               st_UpdatedAt = updatedAt, st_Owner = '''', st_LeaseUntil = 0\<rparr>
        else b)"

definition replayEntry :: "gotime \<Rightarrow> entry \<Rightarrow> broker \<Rightarrow> error + broker" where
  "replayEntry now e b =
     (if e_Type e = RecordTypeTopic then Inr (replayTopic e b)
      else if e_Type e = RecordTypeMessage then replayMessage now e b
      else if e_Type e = RecordTypeOffset then Inr (replayOffset e b)
      else if e_Type e = RecordTypeRetryState then Inr (replayRetryState e b)
      else if e_Type e = RecordTypeConsumeIdempotency then Inr (replayConsumeIdem now e b)
      else Inr b)"

fun replayEntries :: "gotime \<Rightarrow> entry list \<Rightarrow> broker \<Rightarrow> error + broker" where
  "replayEntries now [] b = Inr b"
| "replayEntries now (e # es) b =
     (case replayEntry now e b of Inl err \<Rightarrow> Inl err | Inr b' \<Rightarrow> replayEntries now es b')"

definition ackedPositions :: "broker \<Rightarrow> (string \<times> string \<times> int \<times> int) list" where
  "ackedPositions b =
     concat (map (\<lambda>(t, byGroup). concat (map (\<lambda>(g, byPart). map (\<lambda>(p, off). (t, g, p, off)) byPart) byGroup))
       (consumerOffsets b))"

definition purgeAcked :: "broker \<Rightarrow> broker" where
  "purgeAcked b = foldl (\<lambda>b (t, g, p, off). purgeRetryStateLocked t g p off b) b (ackedPositions b)"

definition NewInMemoryBrokerFromWAL ::
  "(entry \<Rightarrow> nat) \<Rightarrow> gotime \<Rightarrow> filewal option \<Rightarrow> brokerOption list \<Rightarrow> error + broker" where
  "NewInMemoryBrokerFromWAL jsonLen now w opts =
     (case w of
        None \<Rightarrow> Inr (NewInMemoryBrokerWithOptions None opts)
      | Some w0 \<Rightarrow>
          (case FileWAL_Replay jsonLen w0 of
             (Inl err, w1) \<Rightarrow> Inl err
           | (Inr es, w1) \<Rightarrow>
               (case replayEntries now es (NewInMemoryBrokerWithOptions (Some w1) opts) of
                  Inl err \<Rightarrow> Inl err
                | Inr b \<Rightarrow> Inr (purgeAcked b))))"

end
