(* ===== verification/BrokerSteps.thy ===== *)
theory BrokerSteps
  imports WalReplay
begin

text \<open>
  The broker as a state machine.  \<open>bstep\<close> is the relation of its atomic state changes, each
  with the facts that make it safe; \<open>binv\<close> is the invariant of the broker state.  This theory
  shows that every atomic step keeps the invariant, only ever extends the partition logs and
  only ever advances the committed offsets; theory \<open>BrokerRefine\<close> shows that every operation
  of the broker is a sequence of atomic steps.
\<close>

section \<open>Observations\<close>

definition part_log :: "broker \<Rightarrow> string \<Rightarrow> int \<Rightarrow> message list" where
  "part_log b t p =
     (case mget (topics b) t of
        None \<Rightarrow> []
      | Some ts \<Rightarrow>
          if 0 \<le> p \<and> p < int (length (ts_partitions ts)) then ts_partitions ts ! nat p else [])"

text \<open>What a delivery may change of a logged message: the attempt count and the last error.\<close>

definition stripMsg :: "message \<Rightarrow> message" where
  "stripMsg m = m\<lparr>msg_Attempts := 0, msg_LastError := ''''\<rparr>"

definition streams_of :: "broker \<Rightarrow> string \<Rightarrow> string \<Rightarrow> consumerStream list" where
  "streams_of b t g = (case mget2 (consumerChans b) t g of None \<Rightarrow> [] | Some sts \<Rightarrow> sts)"

section \<open>The invariant\<close>

definition ts_wf :: "topicState \<Rightarrow> bool" where
  "ts_wf ts \<longleftrightarrow>
     ts_partitions ts \<noteq> [] \<and> length (ts_partitions ts) < 2 ^ 32
     \<and> length (ts_byteSums ts) = length (ts_partitions ts)
     \<and> (\<forall>p < length (ts_partitions ts).
          ts_byteSums ts ! p = prefix_sums (ts_partitions ts ! p)
          \<and> (\<forall>i < length (ts_partitions ts ! p).
               msg_Offset (ts_partitions ts ! p ! i) = int i
               \<and> msg_Partition (ts_partitions ts ! p ! i) = int p))"

definition inv_topics :: "broker \<Rightarrow> bool" where
  "inv_topics b \<longleftrightarrow> (\<forall>t ts. mget (topics b) t = Some ts \<longrightarrow> t \<noteq> '''' \<and> ts_wf ts)"

definition entry_ok :: "broker \<Rightarrow> string \<Rightarrow> string \<Rightarrow> int \<Rightarrow> int \<Rightarrow> inflightEntry \<Rightarrow> bool" where
  "entry_ok b t g p off e \<longleftrightarrow>
     t \<noteq> '''' \<and> g \<noteq> '''' \<and> 0 \<le> p \<and> 0 \<le> off \<and> off < int (length (part_log b t p))
     \<and> stripMsg (ie_Msg e) = stripMsg (part_log b t p ! nat off) \<and> 1 \<le> ie_Attempts e"

definition inv_inflight :: "broker \<Rightarrow> bool" where
  "inv_inflight b \<longleftrightarrow>
     (\<forall>t g p. mwf (inflight_of b t g p)
        \<and> (0 < maxInFlight b \<longrightarrow> int (length (inflight_of b t g p)) \<le> maxInFlight b)
        \<and> (\<forall>off e. mget (inflight_of b t g p) off = Some e \<longrightarrow> entry_ok b t g p off e))"

text \<open>Every message below the dispatch position is acknowledged or still in flight.\<close>

definition inv_next :: "broker \<Rightarrow> bool" where
  "inv_next b \<longleftrightarrow>
     (\<forall>t g p n. mget3 (nextIndex b) t g p = Some n \<longrightarrow>
        n \<le> length (part_log b t p)
        \<and> (\<forall>i < n. int i \<le> committed b t g p \<or> mget (inflight_of b t g p) (int i) \<noteq> None))"

definition inv_streams :: "broker \<Rightarrow> bool" where
  "inv_streams b \<longleftrightarrow>
     (\<forall>t g st. st \<in> set (streams_of b t g) \<longrightarrow>
        t \<noteq> '''' \<and> g \<noteq> '''' \<and> mget (topics b) t \<noteq> None \<and> 0 \<le> cs_Lease st \<and> cs_Owner st \<noteq> ''''
        \<and> (\<exists>c. mget (chans b) (cs_Ch st) = Some c \<and> \<not> ch_closed c))
     \<and> (\<forall>t g. distinct (map cs_Ch (streams_of b t g)))
     \<and> (\<forall>t g t' g' st st'. st \<in> set (streams_of b t g) \<and> st' \<in> set (streams_of b t' g')
          \<and> cs_Ch st = cs_Ch st' \<longrightarrow> t = t' \<and> g = g')
     \<and> (\<forall>ch c. mget (chans b) ch = Some c \<longrightarrow> ch < nextChan b \<and> length (ch_buf c) \<le> chanCap)"

definition inv_offsets :: "broker \<Rightarrow> bool" where
  "inv_offsets b \<longleftrightarrow>
     (\<forall>t g p. -1 \<le> committed b t g p)
     \<and> (\<forall>t g p off. mget (pendingOffsets b) (t, g, p) = Some off \<longrightarrow> off \<le> committed b t g p)"

definition binv :: "broker \<Rightarrow> bool" where
  "binv b \<longleftrightarrow> inv_topics b \<and> inv_inflight b \<and> inv_next b \<and> inv_streams b \<and> inv_offsets b
     \<and> idem_wf (idem b)"

section \<open>Atomic steps\<close>

text \<open>The bookkeeping that no invariant observes: cursors, last deliveries, retry state and
  the empty map levels the code creates before it reads.\<close>

definition same_core :: "broker \<Rightarrow> broker \<Rightarrow> bool" where
  "same_core b b' \<longleftrightarrow>
     topics b' = topics b \<and> consumerChans b' = consumerChans b \<and> maxInFlight b' = maxInFlight b
     \<and> wal b' = wal b \<and> ackTimeout b' = ackTimeout b \<and> maxPartitionMsgs b' = maxPartitionMsgs b
     \<and> maxPartitionBytes b' = maxPartitionBytes b \<and> idem b' = idem b
     \<and> pendingOffsets b' = pendingOffsets b \<and> chans b' = chans b \<and> nextChan b' = nextChan b
     \<and> (\<forall>t g p. mget3 (consumerOffsets b') t g p = mget3 (consumerOffsets b) t g p)
     \<and> (\<forall>t g p. inflight_of b' t g p = inflight_of b t g p)
     \<and> (\<forall>t g p. mget3 (nextIndex b') t g p = mget3 (nextIndex b) t g p)"

definition logged :: "broker \<Rightarrow> string \<Rightarrow> message \<Rightarrow> bool" where
  "logged b t m \<longleftrightarrow> (\<exists>p off. off < length (part_log b t p) \<and> stripMsg m = stripMsg (part_log b t p ! off))"

inductive bstep :: "broker \<Rightarrow> broker \<Rightarrow> bool" where
  bs_book: "same_core b b' \<Longrightarrow> bstep b b'"
| bs_idem: "idem_step (idem b, wal b) x = (s', w') \<Longrightarrow> bstep b (b\<lparr>idem := s', wal := w'\<rparr>)"
| bs_note: "e_Type e = RecordTypeRetryState \<Longrightarrow> appendWALEntry now e b = (r, b') \<Longrightarrow> bstep b b'"
| bs_wal_fail: "appendWALEntry now e b = (Some err, b') \<Longrightarrow> bstep b b'"
| bs_send: "st \<in> set (streams_of b t g) \<Longrightarrow> logged b t m \<Longrightarrow> trySend (cs_Ch st) m b = Some b' \<Longrightarrow> bstep b b'"
| bs_next: "mget3 (nextIndex b) t g p = Some i \<Longrightarrow> i < length (part_log b t p) \<Longrightarrow>
    int i \<le> committed b t g p \<or> mget (inflight_of b t g p) (int i) \<noteq> None \<Longrightarrow>
    bstep b (setNextIndex t g p (i + 1) b)"
| bs_next_init: "mget3 (nextIndex b) t g p = None \<Longrightarrow> n \<le> length (part_log b t p) \<Longrightarrow>
    \<forall>i < n. int i \<le> committed b t g p \<Longrightarrow> bstep b (setNextIndex t g p n b)"
| bs_lease: "entry_ok b t g p off e \<Longrightarrow> mget (inflight_of b t g p) off = None \<Longrightarrow>
    0 < maxInFlight b \<longrightarrow> int (length (inflight_of b t g p)) < maxInFlight b \<Longrightarrow>
    bstep b (putInflight t g p off e b)"
| bs_update: "mget (inflight_of b t g p) off = Some e0 \<Longrightarrow>
    stripMsg (ie_Msg e) = stripMsg (ie_Msg e0) \<Longrightarrow> ie_Attempts e0 \<le> ie_Attempts e \<Longrightarrow>
    bstep b (putInflight t g p off e b)"
| bs_commit: "0 \<le> off \<Longrightarrow> off < int (length (part_log b t p)) \<Longrightarrow> bstep b (commitOffset t g p off b)"
| bs_ack: "0 \<le> off \<Longrightarrow> bstep b (commitOffset t g p off (delInflight t g p off b))"
| bs_produce: "mget (topics b) t = Some ts \<Longrightarrow> 0 \<le> p \<Longrightarrow> p < int (length (ts_partitions ts)) \<Longrightarrow>
    msg_Partition m = p \<Longrightarrow> msg_Offset m = int (length (ts_partitions ts ! nat p)) \<Longrightarrow>
    backpressure t p ts m b = None \<Longrightarrow> appendWALEntry now (messageEntry t m) b = (None, b1) \<Longrightarrow>
    bstep b (b1\<lparr>topics := mput t (ts_append (nat p) m ts) (topics b1)\<rparr>)"
| bs_create: "createTopicLockedWithConfig t n \<lparr>tc_Mode = ''''\<rparr> b = (None, b') \<Longrightarrow> n < 2 ^ 32 \<Longrightarrow>
    HasPrefix t ''dlq.'' \<Longrightarrow> bstep b b'"
| bs_create_logged: "t \<noteq> '''' \<Longrightarrow> 0 < n \<Longrightarrow> n < 2 ^ 32 \<Longrightarrow> mget (topics b) t = None \<Longrightarrow>
    normalizeTopicConfig cfg = Inr cfg \<Longrightarrow> appendWALEntry now (topicEntry t n cfg) b = (None, b1) \<Longrightarrow>
    bstep b (b1\<lparr>topics := mput t (newTopicState n cfg) (topics b1)\<rparr>)"
| bs_flush: "flushPendingOffsets now b = (r, b') \<Longrightarrow> bstep b b'"
| bs_add: "t \<noteq> '''' \<Longrightarrow> g \<noteq> '''' \<Longrightarrow> owner \<noteq> '''' \<Longrightarrow> 0 \<le> lease \<Longrightarrow> mget (topics b) t \<noteq> None \<Longrightarrow>
    bstep b (snd (addStream t g owner lease b))"
| bs_disconnect: "bstep b (disconnect t g ch b)"
| bs_recv: "bstep b (snd (recv ch b))"

abbreviation bsteps :: "broker \<Rightarrow> broker \<Rightarrow> bool" where
  "bsteps \<equiv> bstep\<^sup>*\<^sup>*"

section \<open>Effects of the primitives\<close>

text \<open>Each observation depends on one field.\<close>

lemma part_log_frame [simp]:
  "part_log (b\<lparr>consumerOffsets := x_consumerOffsets\<rparr>) t p = part_log b t p"
  "part_log (b\<lparr>consumerChans := x_consumerChans\<rparr>) t p = part_log b t p"
  "part_log (b\<lparr>rrCursor := x_rrCursor\<rparr>) t p = part_log b t p"
  "part_log (b\<lparr>inFlight := x_inFlight\<rparr>) t p = part_log b t p"
  "part_log (b\<lparr>nextIndex := x_nextIndex\<rparr>) t p = part_log b t p"
  "part_log (b\<lparr>lastDelivery := x_lastDelivery\<rparr>) t p = part_log b t p"
  "part_log (b\<lparr>wal := x_wal\<rparr>) t p = part_log b t p"
  "part_log (b\<lparr>idem := x_idem\<rparr>) t p = part_log b t p"
  "part_log (b\<lparr>retryState := x_retryState\<rparr>) t p = part_log b t p"
  "part_log (b\<lparr>pendingOffsets := x_pendingOffsets\<rparr>) t p = part_log b t p"
  "part_log (b\<lparr>chans := x_chans\<rparr>) t p = part_log b t p"
  "part_log (b\<lparr>nextChan := x_nextChan\<rparr>) t p = part_log b t p"
  by (simp_all add: part_log_def)

lemma inflight_of_frame [simp]:
  "inflight_of (b\<lparr>topics := x_topics\<rparr>) t g p = inflight_of b t g p"
  "inflight_of (b\<lparr>consumerOffsets := x_consumerOffsets\<rparr>) t g p = inflight_of b t g p"
  "inflight_of (b\<lparr>consumerChans := x_consumerChans\<rparr>) t g p = inflight_of b t g p"
  "inflight_of (b\<lparr>rrCursor := x_rrCursor\<rparr>) t g p = inflight_of b t g p"
  "inflight_of (b\<lparr>nextIndex := x_nextIndex\<rparr>) t g p = inflight_of b t g p"
  "inflight_of (b\<lparr>lastDelivery := x_lastDelivery\<rparr>) t g p = inflight_of b t g p"
  "inflight_of (b\<lparr>wal := x_wal\<rparr>) t g p = inflight_of b t g p"
  "inflight_of (b\<lparr>idem := x_idem\<rparr>) t g p = inflight_of b t g p"
  "inflight_of (b\<lparr>retryState := x_retryState\<rparr>) t g p = inflight_of b t g p"
  "inflight_of (b\<lparr>pendingOffsets := x_pendingOffsets\<rparr>) t g p = inflight_of b t g p"
  "inflight_of (b\<lparr>chans := x_chans\<rparr>) t g p = inflight_of b t g p"
  "inflight_of (b\<lparr>nextChan := x_nextChan\<rparr>) t g p = inflight_of b t g p"
  by (simp_all add: inflight_of_def)

lemma committed_frame [simp]:
  "committed (b\<lparr>topics := x_topics\<rparr>) t g p = committed b t g p"
  "committed (b\<lparr>consumerChans := x_consumerChans\<rparr>) t g p = committed b t g p"
  "committed (b\<lparr>rrCursor := x_rrCursor\<rparr>) t g p = committed b t g p"
  "committed (b\<lparr>inFlight := x_inFlight\<rparr>) t g p = committed b t g p"
  "committed (b\<lparr>nextIndex := x_nextIndex\<rparr>) t g p = committed b t g p"
  "committed (b\<lparr>lastDelivery := x_lastDelivery\<rparr>) t g p = committed b t g p"
  "committed (b\<lparr>wal := x_wal\<rparr>) t g p = committed b t g p"
  "committed (b\<lparr>idem := x_idem\<rparr>) t g p = committed b t g p"
  "committed (b\<lparr>retryState := x_retryState\<rparr>) t g p = committed b t g p"
  "committed (b\<lparr>pendingOffsets := x_pendingOffsets\<rparr>) t g p = committed b t g p"
  "committed (b\<lparr>chans := x_chans\<rparr>) t g p = committed b t g p"
  "committed (b\<lparr>nextChan := x_nextChan\<rparr>) t g p = committed b t g p"
  by (simp_all add: committed_def)

lemma streams_of_frame [simp]:
  "streams_of (b\<lparr>topics := x_topics\<rparr>) t g = streams_of b t g"
  "streams_of (b\<lparr>consumerOffsets := x_consumerOffsets\<rparr>) t g = streams_of b t g"
  "streams_of (b\<lparr>rrCursor := x_rrCursor\<rparr>) t g = streams_of b t g"
  "streams_of (b\<lparr>inFlight := x_inFlight\<rparr>) t g = streams_of b t g"
  "streams_of (b\<lparr>nextIndex := x_nextIndex\<rparr>) t g = streams_of b t g"
  "streams_of (b\<lparr>lastDelivery := x_lastDelivery\<rparr>) t g = streams_of b t g"
  "streams_of (b\<lparr>wal := x_wal\<rparr>) t g = streams_of b t g"
  "streams_of (b\<lparr>idem := x_idem\<rparr>) t g = streams_of b t g"
  "streams_of (b\<lparr>retryState := x_retryState\<rparr>) t g = streams_of b t g"
  "streams_of (b\<lparr>pendingOffsets := x_pendingOffsets\<rparr>) t g = streams_of b t g"
  "streams_of (b\<lparr>chans := x_chans\<rparr>) t g = streams_of b t g"
  "streams_of (b\<lparr>nextChan := x_nextChan\<rparr>) t g = streams_of b t g"
  by (simp_all add: streams_of_def)

lemma appendWALEntry_wal:
  "appendWALEntry now e b = (r, b') \<Longrightarrow> \<exists>w. b' = b\<lparr>wal := w\<rparr>"
  by (cases b) (auto simp: appendWALEntry_def split: option.splits prod.splits)

lemma inflight_of_put [simp]:
  "inflight_of (putInflight t g p off e b) t' g' p' =
     (if t' = t \<and> g' = g \<and> p' = p then mput off e (inflight_of b t g p) else inflight_of b t' g' p')"
  by (simp add: putInflight_def inflight_of_def)

lemma inflight_of_del [simp]:
  "inflight_of (delInflight t g p off b) t' g' p' =
     (if t' = t \<and> g' = g \<and> p' = p then mdel off (inflight_of b t g p) else inflight_of b t' g' p')"
  by (simp add: delInflight_def inflight_of_def)

lemma inflight_of_ensure [simp]: "inflight_of (ensureInFlight t g p b) t' g' p' = inflight_of b t' g' p'"
  by (simp add: ensureInFlight_def inflight_of_def)

lemma mget3_ensureOffsets [simp]:
  "mget3 (consumerOffsets (ensureOffsets t g b)) t' g' p' = mget3 (consumerOffsets b) t' g' p'"
  by (simp add: ensureOffsets_def mget3_def mget2_def mput2_def)

lemma committed_ensureOffsets [simp]: "committed (ensureOffsets t g b) t' g' p' = committed b t' g' p'"
  by (simp add: committed_def)

lemma mget3_ensureNextIndex [simp]:
  "mget3 (nextIndex (ensureNextIndex t g b)) t' g' p' = mget3 (nextIndex b) t' g' p'"
  by (simp add: ensureNextIndex_def mget3_def mget2_def mput2_def)

text \<open>\<open>commitOffset\<close> raises the committed offset to \<open>off\<close> and queues it for the log.\<close>

lemma committed_commitOffset [simp]:
  "committed (commitOffset t g p off b) t' g' p' =
     (if t' = t \<and> g' = g \<and> p' = p then max off (committed b t g p) else committed b t' g' p')"
  by (simp add: commitOffset_def Let_def setOffset_def queueOffsetPersistLocked_def)
    (simp add: committed_def ensureOffsets_def mget3_def mget2_def mput2_def mput3_def split: option.splits)

section \<open>Every atomic step keeps the invariant\<close>

lemmas inv_defs = inv_topics_def inv_inflight_def inv_next_def inv_streams_def inv_offsets_def entry_ok_def

lemma binv_cong:
  assumes "topics b' = topics b" "maxInFlight b' = maxInFlight b" "chans b' = chans b"
    and "nextChan b' = nextChan b" "pendingOffsets b' = pendingOffsets b" "idem b' = idem b"
    and "\<And>t g. streams_of b' t g = streams_of b t g"
    and "\<And>t g p. committed b' t g p = committed b t g p"
    and "\<And>t g p. inflight_of b' t g p = inflight_of b t g p"
    and "\<And>t g p. mget3 (nextIndex b') t g p = mget3 (nextIndex b) t g p"
  shows "binv b' = binv b"
proof -
  have "part_log b' = part_log b" by (intro ext) (simp add: part_log_def assms)
  then show ?thesis by (simp add: binv_def inv_defs assms)
qed

lemma binv_book: "same_core b b' \<Longrightarrow> binv b' = binv b"
  by (rule binv_cong) (auto simp: same_core_def streams_of_def committed_def)

lemma binv_wal [simp]: "binv (b\<lparr>wal := w\<rparr>) = binv b"
  by (rule binv_cong) auto

lemma binv_idem: "binv b \<Longrightarrow> idem_wf s \<Longrightarrow> binv (b\<lparr>idem := s\<rparr>)"
  by (simp add: binv_def inv_defs)

lemma binv_send:
  assumes "trySend ch m b = Some b'" "binv b"
  shows "binv b'"
proof -
  obtain c where c: "mget (chans b) ch = Some c" "\<not> ch_closed c" "length (ch_buf c) < chanCap"
    and b': "b' = b\<lparr>chans := mput ch (c\<lparr>ch_buf := ch_buf c @ [m]\<rparr>) (chans b)\<rparr>"
    using assms(1) by (auto simp: trySend_def split: option.splits if_splits)
  have "\<exists>c'. mget (chans b') ch' = Some c' \<and> \<not> ch_closed c'"
    if "\<exists>c'. mget (chans b) ch' = Some c' \<and> \<not> ch_closed c'" for ch'
    using that c by (auto simp: b')
  moreover have "ch' < nextChan b' \<and> length (ch_buf c') \<le> chanCap"
    if "mget (chans b') ch' = Some c'" for ch' c'
    using that c assms(2) by (auto simp: b' binv_def inv_streams_def split: if_splits)
  ultimately have "inv_streams b'"
    using assms(2) unfolding binv_def inv_streams_def by (simp add: b')
  with assms(2) show ?thesis by (simp add: b' binv_def inv_defs)
qed

lemma binv_next:
  assumes "binv b" "n \<le> length (part_log b t p)"
    and "\<forall>i < n. int i \<le> committed b t g p \<or> mget (inflight_of b t g p) (int i) \<noteq> None"
  shows "binv (setNextIndex t g p n b)"
  using assms by (auto simp: setNextIndex_def binv_def inv_defs)

lemma binv_put:
  assumes "binv b" "entry_ok b t g p off e"
    and "mget (inflight_of b t g p) off = None \<Longrightarrow> 0 < maxInFlight b \<Longrightarrow>
           int (length (inflight_of b t g p)) < maxInFlight b"
  shows "binv (putInflight t g p off e b)"
proof -
  let ?b = "putInflight t g p off e b"
  have f: "part_log ?b = part_log b" "maxInFlight ?b = maxInFlight b" "committed ?b = committed b"
    "nextIndex ?b = nextIndex b" by (auto intro!: ext simp: putInflight_def)
  have "inv_inflight ?b"
    using assms by (auto simp: binv_def inv_inflight_def entry_ok_def f length_mput)
  moreover have "inv_next ?b"
    using assms(1) by (auto simp: binv_def inv_next_def f)
  ultimately show ?thesis
    using assms(1) by (simp add: binv_def) (simp add: inv_defs putInflight_def)
qed

lemma commitOffset_frame [simp]:
  "topics (commitOffset t g p off b) = topics b" "maxInFlight (commitOffset t g p off b) = maxInFlight b"
  "chans (commitOffset t g p off b) = chans b" "nextChan (commitOffset t g p off b) = nextChan b"
  "idem (commitOffset t g p off b) = idem b" "consumerChans (commitOffset t g p off b) = consumerChans b"
  "inFlight (commitOffset t g p off b) = inFlight b" "nextIndex (commitOffset t g p off b) = nextIndex b"
  "wal (commitOffset t g p off b) = wal b" "ackTimeout (commitOffset t g p off b) = ackTimeout b"
  by (simp_all add: commitOffset_def Let_def setOffset_def queueOffsetPersistLocked_def ensureOffsets_def
      split: option.splits)

lemma ensureOffsets_frame [simp]:
  "pendingOffsets (ensureOffsets t g b) = pendingOffsets b" "wal (ensureOffsets t g b) = wal b"
  "topics (ensureOffsets t g b) = topics b" "inFlight (ensureOffsets t g b) = inFlight b"
  by (simp_all add: ensureOffsets_def)

lemma commitOffset_pending:
  "mget (pendingOffsets (commitOffset t g p off b)) k = Some x \<Longrightarrow>
     mget (pendingOffsets b) k = Some x \<or> k = (t, g, p) \<and> x = off \<and> committed b t g p < off"
  by (auto simp: commitOffset_def Let_def setOffset_def queueOffsetPersistLocked_def
      split: option.splits if_splits)

lemma commitOffset_obs [simp]:
  "part_log (commitOffset t g p off b) t' p' = part_log b t' p'"
  "inflight_of (commitOffset t g p off b) t' g' p' = inflight_of b t' g' p'"
  "streams_of (commitOffset t g p off b) t' g' = streams_of b t' g'"
  by (simp_all add: part_log_def inflight_of_def streams_of_def)

lemma inv_offsets_commit:
  assumes "inv_offsets b" "0 \<le> off"
  shows "inv_offsets (commitOffset t g p off b)"
  using assms commitOffset_pending [of t g p off b] unfolding inv_offsets_def
  by (fastforce simp: max_def)

lemma binv_commit:
  assumes "binv b" "0 \<le> off"
  shows "binv (commitOffset t g p off b)"
proof -
  have "inv_next (commitOffset t g p off b)"
    using assms(1) by (auto simp: binv_def inv_next_def le_max_iff_disj)
  with assms show ?thesis
    by (auto simp: binv_def inv_offsets_commit) (auto simp: inv_defs)
qed

lemma binv_ack:
  assumes "binv b" "0 \<le> off"
  shows "binv (commitOffset t g p off (delInflight t g p off b))"
proof -
  let ?d = "delInflight t g p off b" and ?b = "commitOffset t g p off (delInflight t g p off b)"
  have f: "part_log ?d = part_log b" "maxInFlight ?d = maxInFlight b" "committed ?d = committed b"
    "nextIndex ?d = nextIndex b" by (auto intro!: ext simp: delInflight_def)
  have "int (length (mdel off (inflight_of b t g p))) \<le> maxInFlight b"
    if "int (length (inflight_of b t g p)) \<le> maxInFlight b"
    using that length_mdel_le [of off "inflight_of b t g p"] by linarith
  with assms(1) have "inv_inflight ?d"
    by (auto simp: binv_def inv_inflight_def entry_ok_def f)
  then have "inv_inflight ?b" by (simp add: inv_inflight_def entry_ok_def)
  moreover have "inv_next ?b"
    using assms(1) by (auto simp: binv_def inv_next_def f le_max_iff_disj)
  moreover have "inv_offsets ?b"
    using assms by (intro inv_offsets_commit) (auto simp: binv_def inv_offsets_def delInflight_def)
  moreover have "inv_topics ?b" "inv_streams ?b" "idem_wf (idem ?b)"
    using assms(1) by (auto simp: binv_def inv_topics_def inv_streams_def delInflight_def)
  ultimately show ?thesis by (simp add: binv_def)
qed

lemma addByteSum_prefix_sums: "addByteSum (msg_size m) (prefix_sums ms) = prefix_sums (ms @ [m])"
proof (cases "ms = []")
  case True
  then show ?thesis by (simp add: addByteSum_def prefix_sums_def)
next
  case False
  then have "prefix_sums ms \<noteq> []" by (metis length_prefix_sums length_0_conv)
  with False show ?thesis
    by (simp add: addByteSum_def prefix_sums_snoc last_conv_nth prefix_sums_last)
qed

lemma ts_wf_append:
  assumes "ts_wf ts" "p < length (ts_partitions ts)"
    and "msg_Partition m = int p" "msg_Offset m = int (length (ts_partitions ts ! p))"
  shows "ts_wf (ts_append p m ts)"
  using assms
  by (auto simp: ts_wf_def ts_append_def nth_list_update addByteSum_prefix_sums nth_append less_Suc_eq)

lemma ts_wf_new: "0 < n \<Longrightarrow> n < 2 ^ 32 \<Longrightarrow> ts_wf (newTopicState n cfg)"
  by (auto simp: ts_wf_def newTopicState_def)

lemma part_log_append:
  assumes "mget (topics b) t = Some ts" "0 \<le> p" "p < int (length (ts_partitions ts))"
  shows "part_log (b\<lparr>topics := mput t (ts_append (nat p) m ts) (topics b)\<rparr>) t' p' =
    (if t' = t \<and> p' = p then part_log b t p @ [m] else part_log b t' p')"
  using assms by (auto simp: part_log_def ts_append_def nth_list_update)

lemma part_log_new:
  "mget (topics b) t = None \<Longrightarrow>
     part_log (b\<lparr>topics := mput t (newTopicState n cfg) (topics b)\<rparr>) t' p' = part_log b t' p'"
  by (auto simp: part_log_def newTopicState_def)

text \<open>New topics and longer logs disturb nothing.\<close>

lemma binv_extend:
  assumes b: "binv b" and T: "inv_topics (b\<lparr>topics := T\<rparr>)"
    and pre: "\<And>t p. prefix (part_log b t p) (part_log (b\<lparr>topics := T\<rparr>) t p)"
    and dom: "\<And>t. mget (topics b) t \<noteq> None \<Longrightarrow> mget T t \<noteq> None"
  shows "binv (b\<lparr>topics := T\<rparr>)"
proof -
  let ?b = "b\<lparr>topics := T\<rparr>"
  have len: "length (part_log b t p) \<le> length (part_log ?b t p)" for t p
    using pre by (simp add: prefix_length_le)
  have nth: "part_log ?b t p ! i = part_log b t p ! i" if "i < length (part_log b t p)" for t p i
    using pre [of t p] that by (auto simp: prefix_def nth_append)
  have "entry_ok ?b t g p off e" if "entry_ok b t g p off e" for t g p off e
    using that len [of t p] nth [of "nat off" t p] by (auto simp: entry_ok_def)
  with b have "inv_inflight ?b" by (auto simp: binv_def inv_inflight_def)
  moreover have "inv_next ?b"
    using b len unfolding binv_def inv_next_def by (simp del: not_None_eq) (blast intro: order_trans)
  moreover have "inv_streams ?b"
    using b dom by (simp add: binv_def inv_streams_def)
  ultimately show ?thesis using b T by (simp add: binv_def inv_offsets_def)
qed

lemma binv_produce:
  assumes "binv b" "mget (topics b) t = Some ts" "0 \<le> p" "p < int (length (ts_partitions ts))"
    and "msg_Partition m = p" "msg_Offset m = int (length (ts_partitions ts ! nat p))"
  shows "binv (b\<lparr>topics := mput t (ts_append (nat p) m ts) (topics b)\<rparr>)"
proof (rule binv_extend [OF assms(1)])
  have "t \<noteq> ''''" and "ts_wf (ts_append (nat p) m ts)"
    using assms by (auto simp: binv_def inv_topics_def intro!: ts_wf_append)
  then show "inv_topics (b\<lparr>topics := mput t (ts_append (nat p) m ts) (topics b)\<rparr>)"
    using assms(1) by (auto simp: binv_def inv_topics_def)
qed (use assms in \<open>auto simp: part_log_append\<close>)

lemma binv_create:
  assumes "binv b" "t \<noteq> ''''" "0 < n" "n < 2 ^ 32" "mget (topics b) t = None"
  shows "binv (b\<lparr>topics := mput t (newTopicState n cfg) (topics b)\<rparr>)"
proof (rule binv_extend [OF assms(1)])
  show "inv_topics (b\<lparr>topics := mput t (newTopicState n cfg) (topics b)\<rparr>)"
    using assms by (auto simp: binv_def inv_topics_def ts_wf_new)
qed (use assms in \<open>auto simp: part_log_new\<close>)

lemma binv_createLocked:
  assumes "createTopicLockedWithConfig t n cfg b = (None, b')" "n < 2 ^ 32" "binv b"
  shows "binv b'"
  using assms binv_create [of b t n]
  by (auto simp: createTopicLockedWithConfig_def split: if_splits sum.splits)

lemma requeue_frame:
  "\<exists>P. requeueOffsets pending ks b = b\<lparr>pendingOffsets := P\<rparr>
     \<and> (\<forall>k x. mget P k = Some x \<longrightarrow> mget (pendingOffsets b) k = Some x \<or> k \<in> set ks \<and> x = mdef 0 pending k)"
proof (induction ks arbitrary: b)
  case Nil
  show ?case by (rule exI [of _ "pendingOffsets b"]) simp
next
  case (Cons k ks)
  define Q where "Q = (case mget (pendingOffsets b) k of
      None \<Rightarrow> mput k (mdef 0 pending k) (pendingOffsets b)
    | Some cur \<Rightarrow> if mdef 0 pending k > cur then mput k (mdef 0 pending k) (pendingOffsets b)
                  else pendingOffsets b)"
  have step: "requeueOffsets pending (k # ks) b = requeueOffsets pending ks (b\<lparr>pendingOffsets := Q\<rparr>)"
    by (simp add: Q_def Let_def split: option.splits)
  have Q: "mget Q k' = Some x \<Longrightarrow>
      mget (pendingOffsets b) k' = Some x \<or> k' = k \<and> x = mdef 0 pending k" for k' x
    by (auto simp: Q_def split: option.splits if_splits)
  obtain P where P: "requeueOffsets pending ks (b\<lparr>pendingOffsets := Q\<rparr>) = b\<lparr>pendingOffsets := P\<rparr>"
    "\<forall>k' x. mget P k' = Some x \<longrightarrow> mget Q k' = Some x \<or> k' \<in> set ks \<and> x = mdef 0 pending k'"
    using Cons.IH [of "b\<lparr>pendingOffsets := Q\<rparr>"] by auto
  have "mget P k' = Some x \<Longrightarrow>
      mget (pendingOffsets b) k' = Some x \<or> k' \<in> set (k # ks) \<and> x = mdef 0 pending k'" for k' x
    using P(2) Q by (metis list.set_intros)
  with step P(1) show ?case by (intro exI [of _ P] conjI allI impI) simp_all
qed

lemma flushLoop_frame:
  "flushLoop now pending ks b = (r, b') \<Longrightarrow>
     \<exists>P w. b' = b\<lparr>pendingOffsets := P, wal := w\<rparr>
       \<and> (\<forall>k x. mget P k = Some x \<longrightarrow> mget (pendingOffsets b) k = Some x \<or> k \<in> set ks \<and> x = mdef 0 pending k)"
proof (induction ks arbitrary: b)
  case Nil
  then show ?case by (intro exI [of _ "pendingOffsets b"] exI [of _ "wal b"]) simp
next
  case (Cons k ks)
  obtain r1 b1 where ap: "appendWALEntry now (offsetEntry k (mdef 0 pending k)) b = (r1, b1)" by force
  then obtain w where b1: "b1 = b\<lparr>wal := w\<rparr>" using appendWALEntry_wal by blast
  show ?case
  proof (cases r1)
    case None
    with Cons.prems ap have "flushLoop now pending ks b1 = (r, b')" by simp
    from Cons.IH [OF this] b1 show ?thesis by fastforce
  next
    case (Some err)
    with Cons.prems ap have "b' = requeueOffsets pending (k # ks) b1" by simp
    moreover obtain P where "requeueOffsets pending (k # ks) b1 = b1\<lparr>pendingOffsets := P\<rparr>"
      and "\<forall>k' x. mget P k' = Some x \<longrightarrow>
        mget (pendingOffsets b1) k' = Some x \<or> k' \<in> set (k # ks) \<and> x = mdef 0 pending k'"
      using requeue_frame [of pending "k # ks" b1] by blast
    ultimately show ?thesis using b1
      by (intro exI [of _ P] exI [of _ w]) simp
  qed
qed

lemma flush_frame:
  assumes "flushPendingOffsets now b = (r, b')"
  shows "\<exists>P w. b' = b\<lparr>pendingOffsets := P, wal := w\<rparr>
    \<and> (\<forall>k x. mget P k = Some x \<longrightarrow> mget (pendingOffsets b) k = Some x)"
proof (cases "wal b = None \<or> pendingOffsets b = []")
  case True
  with assms show ?thesis
    by (intro exI [of _ "pendingOffsets b"] exI [of _ "wal b"]) (auto simp: flushPendingOffsets_def split: if_splits)
next
  case False
  with assms have "flushLoop now (pendingOffsets b) (sort (mkeys (pendingOffsets b)))
      (b\<lparr>pendingOffsets := []\<rparr>) = (r, b')"
    by (auto simp: flushPendingOffsets_def Let_def)
  from flushLoop_frame [OF this] obtain P w where "b' = b\<lparr>pendingOffsets := P, wal := w\<rparr>"
    and P: "\<And>k x. mget P k = Some x \<Longrightarrow> k \<in> dom (mget (pendingOffsets b)) \<and> x = mdef 0 (pendingOffsets b) k"
    by (fastforce simp: set_mkeys)
  moreover have "mget (pendingOffsets b) k = Some x" if "mget P k = Some x" for k x
    using P [OF that] by (auto simp: mdef_def)
  ultimately show ?thesis by blast
qed

lemma binv_flush:
  assumes "flushPendingOffsets now b = (r, b')" "binv b"
  shows "binv b'"
proof -
  obtain P w where b': "b' = b\<lparr>pendingOffsets := P, wal := w\<rparr>"
    and "\<forall>k x. mget P k = Some x \<longrightarrow> mget (pendingOffsets b) k = Some x"
    using flush_frame [OF assms(1)] by blast
  with assms(2) have "inv_offsets b'" by (auto simp: binv_def inv_offsets_def)
  with assms(2) show ?thesis by (simp add: b' binv_def inv_defs)
qed

subsection \<open>Streams and channels\<close>

lemma streams_of_add [simp]:
  "streams_of (snd (addStream t g owner lease b)) t' g' =
     (if t' = t \<and> g' = g
      then streams_of b t g @ [\<lparr>cs_Owner = owner, cs_Lease = lease, cs_Ch = nextChan b\<rparr>]
      else streams_of b t' g')"
  by (simp add: addStream_def Let_def streams_of_def)

lemma set_removeStream: "set (removeStream ch sts) \<subseteq> set sts"
  by (induction sts) (auto dest: in_set_butlastD)

lemma removeStream_distinct:
  assumes "distinct (map cs_Ch sts)"
  shows "distinct (map cs_Ch (removeStream ch sts)) \<and> ch \<notin> cs_Ch ` set (removeStream ch sts)"
  using assms
proof (induction sts)
  case (Cons st sts)
  show ?case
  proof (cases "cs_Ch st = ch")
    case True
    with Cons.prems show ?thesis by (cases sts rule: rev_cases) auto
  next
    case False
    with Cons set_removeStream [of ch sts] show ?thesis by auto
  qed
qed simp

lemma removeStream_absent: "ch \<notin> cs_Ch ` set sts \<Longrightarrow> removeStream ch sts = sts"
  by (induction sts) auto

lemma disconnect_frame [simp]:
  "topics (disconnect t g ch b) = topics b" "maxInFlight (disconnect t g ch b) = maxInFlight b"
  "nextChan (disconnect t g ch b) = nextChan b" "idem (disconnect t g ch b) = idem b"
  "consumerOffsets (disconnect t g ch b) = consumerOffsets b" "wal (disconnect t g ch b) = wal b"
  "inFlight (disconnect t g ch b) = inFlight b" "nextIndex (disconnect t g ch b) = nextIndex b"
  "pendingOffsets (disconnect t g ch b) = pendingOffsets b"
  by (simp_all add: disconnect_def Let_def closeChan_def dropCursor_def split: option.splits)

lemma disconnect_chans:
  "chans (disconnect t g ch b) =
     (if ch \<in> cs_Ch ` set (streams_of b t g) then chans (closeChan ch b) else chans b)"
  by (auto simp: disconnect_def Let_def dropCursor_def streams_of_def mget2_def mdef_def
      split: option.splits)

lemma streams_of_disconnect [simp]:
  "streams_of (disconnect t g ch b) t' g' =
     (if t' = t \<and> g' = g then removeStream ch (streams_of b t g) else streams_of b t' g')"
proof (cases "mget (consumerChans b) t")
  case None
  then show ?thesis by (simp add: disconnect_def streams_of_def mget2_def mdef_def)
next
  case (Some gc)
  let ?sts = "removeStream ch (mdef [] gc g)"
  let ?gc = "if ?sts = [] then mdel g gc else mput g ?sts gc"
  have "consumerChans (disconnect t g ch b) =
      (if ?gc = [] then mdel t (consumerChans b) else mput t ?gc (consumerChans b))"
    using Some by (simp add: disconnect_def Let_def closeChan_def dropCursor_def split: option.splits)
  moreover have "mdef [] ?gc g' = (if g' = g then ?sts else mdef [] gc g')" by simp
  moreover have "mdef [] gc g' = []" if "?gc = []" "g' \<noteq> g"
    using that \<open>mdef [] ?gc g' = _\<close> by simp
  moreover have "streams_of b' t' g' = mdef [] (mdef [] (consumerChans b') t') g'" for b' t' g'
    by (simp add: streams_of_def mget2_def mdef_def split: option.splits)
  ultimately show ?thesis
    using Some by (auto simp: mdef_def [of _ _ t])
qed

lemma binv_streams_only:
  assumes "binv b" "inv_streams b'" "topics b' = topics b" "maxInFlight b' = maxInFlight b"
    and "idem b' = idem b" "consumerOffsets b' = consumerOffsets b" "inFlight b' = inFlight b"
    and "nextIndex b' = nextIndex b" "pendingOffsets b' = pendingOffsets b"
  shows "binv b'"
proof -
  have "part_log b' = part_log b" "committed b' = committed b" "inflight_of b' = inflight_of b"
    by (auto intro!: ext simp: part_log_def committed_def inflight_of_def assms)
  with assms show ?thesis by (simp add: binv_def inv_topics_def inv_inflight_def inv_next_def
        inv_offsets_def entry_ok_def)
qed

lemma inv_streamsD:
  "inv_streams b \<Longrightarrow> st \<in> set (streams_of b t g) \<Longrightarrow>
     t \<noteq> '''' \<and> g \<noteq> '''' \<and> mget (topics b) t \<noteq> None \<and> 0 \<le> cs_Lease st \<and> cs_Owner st \<noteq> ''''
     \<and> (\<exists>c. mget (chans b) (cs_Ch st) = Some c \<and> \<not> ch_closed c)"
  by (simp add: inv_streams_def)

lemma inv_streams_unique:
  "inv_streams b \<Longrightarrow> st \<in> set (streams_of b t g) \<Longrightarrow> st' \<in> set (streams_of b t' g') \<Longrightarrow>
     cs_Ch st = cs_Ch st' \<Longrightarrow> t = t' \<and> g = g'"
  unfolding inv_streams_def by (elim conjE) metis

lemma inv_streams_fresh:
  assumes "inv_streams b" "st \<in> set (streams_of b t g)"
  shows "cs_Ch st < nextChan b"
proof -
  obtain c where "mget (chans b) (cs_Ch st) = Some c" using inv_streamsD [OF assms] by blast
  with assms(1) show ?thesis by (simp add: inv_streams_def)
qed

lemma binv_add:
  assumes "binv b" "t \<noteq> ''''" "g \<noteq> ''''" "owner \<noteq> ''''" "0 \<le> lease" "mget (topics b) t \<noteq> None"
  shows "binv (snd (addStream t g owner lease b))"
proof (rule binv_streams_only [OF assms(1)])
  let ?b = "snd (addStream t g owner lease b)"
  have s: "inv_streams b" using assms(1) by (simp add: binv_def)
  have f: "chans ?b = mput (nextChan b) \<lparr>ch_buf = [], ch_closed = False\<rparr> (chans b)"
    "nextChan ?b = nextChan b + 1" "topics ?b = topics b" by (simp_all add: addStream_def Let_def)
  have fresh: "st \<in> set (streams_of b t' g') \<Longrightarrow> cs_Ch st \<noteq> nextChan b" for st t' g'
    using inv_streams_fresh [OF s] by fastforce
  show "inv_streams ?b"
    unfolding inv_streams_def
  proof (intro conjI)
    show "\<forall>t' g' st. st \<in> set (streams_of ?b t' g') \<longrightarrow>
        t' \<noteq> '''' \<and> g' \<noteq> '''' \<and> mget (topics ?b) t' \<noteq> None \<and> 0 \<le> cs_Lease st \<and> cs_Owner st \<noteq> ''''
        \<and> (\<exists>c. mget (chans ?b) (cs_Ch st) = Some c \<and> \<not> ch_closed c)"
      using s assms(2-) fresh unfolding inv_streams_def f by (auto split: if_splits)
    show "\<forall>t' g'. distinct (map cs_Ch (streams_of ?b t' g'))"
    proof (intro allI)
      fix t' g'
      have "nextChan b \<notin> cs_Ch ` set (streams_of b t g)" using fresh [of _ t g] by fastforce
      with s show "distinct (map cs_Ch (streams_of ?b t' g'))" by (simp add: inv_streams_def)
    qed
    show "\<forall>t1 g1 t2 g2 st st'. st \<in> set (streams_of ?b t1 g1) \<and> st' \<in> set (streams_of ?b t2 g2)
        \<and> cs_Ch st = cs_Ch st' \<longrightarrow> t1 = t2 \<and> g1 = g2"
      using inv_streams_unique [OF s] fresh by (auto split: if_splits; metis)
    show "\<forall>ch c. mget (chans ?b) ch = Some c \<longrightarrow> ch < nextChan ?b \<and> length (ch_buf c) \<le> chanCap"
      using s unfolding inv_streams_def f by (auto split: if_splits simp: less_Suc_eq)
  qed
qed (simp_all add: addStream_def Let_def)

lemma closeChan_lookup:
  "mget (chans (closeChan ch b)) ch' =
     (if ch' = ch then map_option (\<lambda>c. c\<lparr>ch_closed := True\<rparr>) (mget (chans b) ch) else mget (chans b) ch')"
  by (auto simp: closeChan_def split: option.splits)

lemma binv_disconnect:
  assumes "binv b"
  shows "binv (disconnect t g ch b)"
proof (rule binv_streams_only [OF assms])
  let ?b = "disconnect t g ch b" and ?in = "ch \<in> cs_Ch ` set (streams_of b t g)"
  have s: "inv_streams b" using assms by (simp add: binv_def)
  have sub: "st \<in> set (streams_of ?b t' g') \<Longrightarrow> st \<in> set (streams_of b t' g')" for st t' g'
    using set_removeStream by (auto split: if_splits)
  have dist: "distinct (map cs_Ch (streams_of b t g))" using s by (simp add: inv_streams_def)
  have other: "cs_Ch st \<noteq> ch" if st: "st \<in> set (streams_of ?b t' g')" and ?in for st t' g'
  proof (cases "t' = t \<and> g' = g")
    case True
    with st removeStream_distinct [OF dist] show ?thesis by auto
  next
    case False
    with s sub [OF st] \<open>?in\<close> show ?thesis unfolding inv_streams_def by blast
  qed
  show "inv_streams ?b"
    unfolding inv_streams_def
  proof (intro conjI)
    show "\<forall>t' g' st. st \<in> set (streams_of ?b t' g') \<longrightarrow>
        t' \<noteq> '''' \<and> g' \<noteq> '''' \<and> mget (topics ?b) t' \<noteq> None \<and> 0 \<le> cs_Lease st \<and> cs_Owner st \<noteq> ''''
        \<and> (\<exists>c. mget (chans ?b) (cs_Ch st) = Some c \<and> \<not> ch_closed c)"
    proof (intro allI impI)
      fix t' g' st assume st: "st \<in> set (streams_of ?b t' g')"
      from inv_streamsD [OF s sub [OF st]] other [OF st]
      show "t' \<noteq> '''' \<and> g' \<noteq> '''' \<and> mget (topics ?b) t' \<noteq> None \<and> 0 \<le> cs_Lease st \<and> cs_Owner st \<noteq> ''''
        \<and> (\<exists>c. mget (chans ?b) (cs_Ch st) = Some c \<and> \<not> ch_closed c)"
        by (auto simp: disconnect_chans closeChan_lookup)
    qed
    show "\<forall>t' g'. distinct (map cs_Ch (streams_of ?b t' g'))"
      using s removeStream_distinct [OF dist] unfolding inv_streams_def by simp
    show "\<forall>t1 g1 t2 g2 st st'. st \<in> set (streams_of ?b t1 g1) \<and> st' \<in> set (streams_of ?b t2 g2)
        \<and> cs_Ch st = cs_Ch st' \<longrightarrow> t1 = t2 \<and> g1 = g2"
      using inv_streams_unique [OF s] sub by metis
    show "\<forall>ch' c. mget (chans ?b) ch' = Some c \<longrightarrow> ch' < nextChan ?b \<and> length (ch_buf c) \<le> chanCap"
      using s unfolding inv_streams_def
      by (auto simp: disconnect_chans closeChan_lookup split: if_splits)
  qed
qed simp_all

lemma binv_recv:
  assumes "binv b"
  shows "binv (snd (recv ch b))"
proof (cases "\<exists>c m ms. mget (chans b) ch = Some c \<and> ch_buf c = m # ms")
  case False
  then have "snd (recv ch b) = b" by (auto simp: recv_def split: option.splits list.splits)
  then show ?thesis by (simp add: assms)
next
  case True
  then obtain c m ms where c: "mget (chans b) ch = Some c" "ch_buf c = m # ms" by blast
  then have b': "snd (recv ch b) = b\<lparr>chans := mput ch (c\<lparr>ch_buf := ms\<rparr>) (chans b)\<rparr>"
    by (simp add: recv_def)
  show ?thesis
  proof (rule binv_streams_only [OF assms])
    have s: "inv_streams b" using assms by (simp add: binv_def)
    have "\<exists>c'. mget (chans (snd (recv ch b))) ch' = Some c' \<and> \<not> ch_closed c'"
      if "\<exists>c'. mget (chans b) ch' = Some c' \<and> \<not> ch_closed c'" for ch'
      using that c by (auto simp: b')
    moreover have "ch' < nextChan b \<and> length (ch_buf c') \<le> chanCap"
      if "mget (chans (snd (recv ch b))) ch' = Some c'" for ch' c'
      using that c s by (fastforce simp: b' inv_streams_def split: if_splits)
    ultimately show "inv_streams (snd (recv ch b))"
      using s unfolding inv_streams_def by (simp add: b')
  qed (simp_all add: b')
qed

theorem bstep_binv:
  assumes "bstep b b'" "binv b"
  shows "binv b'"
  using assms
proof (cases rule: bstep.cases)
  case (bs_idem x s' w')
  have "idem_wf s'"
    using idem_step_wf [of "(idem b, wal b)" x] bs_idem assms(2) by (simp add: binv_def)
  with bs_idem assms(2) show ?thesis by (simp add: binv_idem)
next
  case (bs_note e now r)
  then show ?thesis using appendWALEntry_wal assms(2) by fastforce
next
  case (bs_wal_fail now e err)
  then show ?thesis using appendWALEntry_wal assms(2) by fastforce
next
  case (bs_next t g p i)
  have "mget3 (nextIndex b) t g p = Some i \<longrightarrow> (\<forall>j < i. int j \<le> committed b t g p
      \<or> mget (inflight_of b t g p) (int j) \<noteq> None)"
    using assms(2) unfolding binv_def inv_next_def by blast
  with bs_next assms(2) show ?thesis by (auto intro!: binv_next simp: less_Suc_eq)
next
  case (bs_update t g p off e0 e)
  then have "entry_ok b t g p off e"
    using assms(2) by (fastforce simp: binv_def inv_inflight_def entry_ok_def)
  with bs_update assms(2) show ?thesis by (auto intro: binv_put)
next
  case (bs_produce t ts p m now b1)
  obtain w where "b1 = b\<lparr>wal := w\<rparr>" using appendWALEntry_wal bs_produce by blast
  then have "binv b1" "topics b1 = topics b" using assms(2) by auto
  with bs_produce show ?thesis using binv_produce [of b1 t ts p m] by simp
next
  case (bs_create_logged t n cfg now b1)
  obtain w where "b1 = b\<lparr>wal := w\<rparr>" using appendWALEntry_wal bs_create_logged by blast
  then have "binv b1" "topics b1 = topics b" using assms(2) by auto
  with bs_create_logged show ?thesis using binv_create [of b1 t n cfg] by simp
qed (auto intro: binv_send binv_next binv_put binv_commit binv_ack binv_createLocked binv_flush
    binv_add binv_disconnect binv_recv simp: binv_book)

lemma bsteps_binv: "bsteps b b' \<Longrightarrow> binv b \<Longrightarrow> binv b'"
  by (induction rule: rtranclp_induct) (auto intro: bstep_binv)

section \<open>What never goes back\<close>

definition bmono :: "broker \<Rightarrow> broker \<Rightarrow> bool" where
  "bmono b b' \<longleftrightarrow>
     (\<forall>t p. prefix (part_log b t p) (part_log b' t p))
     \<and> (\<forall>t g p. committed b t g p \<le> committed b' t g p)
     \<and> maxInFlight b' = maxInFlight b \<and> ackTimeout b' = ackTimeout b
     \<and> maxPartitionMsgs b' = maxPartitionMsgs b \<and> maxPartitionBytes b' = maxPartitionBytes b"

lemma bmono_refl [simp]: "bmono b b"
  by (simp add: bmono_def)

lemma bmono_trans: "bmono a b \<Longrightarrow> bmono b c \<Longrightarrow> bmono a c"
  unfolding bmono_def by (metis order_trans prefix_order.order_trans)

lemma bmono_same:
  assumes "topics b' = topics b" "\<And>t g p. committed b' t g p = committed b t g p"
    and "maxInFlight b' = maxInFlight b" "ackTimeout b' = ackTimeout b"
    and "maxPartitionMsgs b' = maxPartitionMsgs b" "maxPartitionBytes b' = maxPartitionBytes b"
  shows "bmono b b'"
  using assms by (simp add: bmono_def part_log_def)

lemma bmono_wal [simp]: "bmono b (b\<lparr>wal := w\<rparr>)" "bmono b (b\<lparr>idem := s\<rparr>)"
  by (simp_all add: bmono_def)

lemma bmono_commit [simp]: "bmono b (commitOffset t g p off b)"
  by (simp add: bmono_def) (simp add: commitOffset_def Let_def setOffset_def queueOffsetPersistLocked_def
      ensureOffsets_def split: option.splits)

lemma bmono_del [simp]: "bmono b (delInflight t g p off b)"
  by (simp add: bmono_def delInflight_def)

lemma bmono_create:
  "createTopicLockedWithConfig t n cfg b = (r, b') \<Longrightarrow> bmono b b'"
  by (auto simp: createTopicLockedWithConfig_def bmono_def part_log_new split: if_splits sum.splits)

lemma bstep_bmono:
  assumes "bstep b b'"
  shows "bmono b b'"
  using assms
proof (cases rule: bstep.cases)
  case (bs_book)
  then show ?thesis by (intro bmono_same) (auto simp: same_core_def committed_def)
next
  case (bs_idem x s' w')
  then show ?thesis by (simp add: bmono_def)
next
  case (bs_produce t ts p m now b1)
  obtain w where "b1 = b\<lparr>wal := w\<rparr>" using appendWALEntry_wal bs_produce by blast
  with bs_produce show ?thesis
    by (auto simp: bmono_def part_log_append [of "b\<lparr>wal := w\<rparr>", simplified])
next
  case (bs_create_logged t n cfg now b1)
  obtain w where "b1 = b\<lparr>wal := w\<rparr>" using appendWALEntry_wal bs_create_logged by blast
  with bs_create_logged show ?thesis
    by (auto simp: bmono_def part_log_new [of "b\<lparr>wal := w\<rparr>", simplified])
next
  case (bs_ack off t g p)
  then show ?thesis by (metis bmono_commit bmono_del bmono_trans)
next
  case (bs_flush now r)
  then show ?thesis using flush_frame by (fastforce simp: bmono_def)
next
  case (bs_disconnect t g ch)
  then show ?thesis
    by (auto simp: bmono_def part_log_def committed_def)
      (auto simp: disconnect_def Let_def closeChan_def dropCursor_def split: option.splits)
next
  case (bs_recv ch)
  then show ?thesis
    by (auto simp: recv_def bmono_def split: option.splits list.splits)
next
  case (bs_send st t g m)
  then show ?thesis by (auto simp: trySend_def bmono_def split: option.splits if_splits)
next
  case (bs_note e now r)
  then show ?thesis by (metis appendWALEntry_wal bmono_wal(1))
next
  case (bs_wal_fail now e err)
  then show ?thesis by (metis appendWALEntry_wal bmono_wal(1))
next
  case (bs_commit off t p g)
  then show ?thesis by simp
next
  case (bs_create t n)
  then show ?thesis by (blast intro: bmono_create)
qed (simp_all add: addStream_def Let_def setNextIndex_def putInflight_def bmono_def)

lemma bsteps_bmono: "bsteps b b' \<Longrightarrow> bmono b b'"
  by (induction rule: rtranclp_induct) (auto intro: bmono_trans bstep_bmono)

end
