(* ===== verification/BrokerRefine.thy ===== *)
theory BrokerRefine
  imports BrokerSteps
begin

text \<open>
  Every operation of the broker, applied to a state that satisfies the invariant, is a sequence
  of the atomic steps of \<open>BrokerSteps\<close>: dispatch, produce, dead-lettering, acknowledgement,
  redelivery, nack and consumer registration, each on every branch.
\<close>

section \<open>Quiet changes\<close>

text \<open>A sequence of steps that touches neither topics, streams, in-flight entries, dispatch
  positions nor committed offsets.\<close>

definition quiet :: "broker \<Rightarrow> broker \<Rightarrow> bool" where
  "quiet b b' \<longleftrightarrow> bsteps b b' \<and> topics b' = topics b \<and> consumerChans b' = consumerChans b
     \<and> maxInFlight b' = maxInFlight b
     \<and> (\<forall>t g p. inflight_of b' t g p = inflight_of b t g p)
     \<and> (\<forall>t g p. mget3 (nextIndex b') t g p = mget3 (nextIndex b) t g p)
     \<and> (\<forall>t g p. committed b' t g p = committed b t g p)"

lemma quiet_refl [simp]: "quiet b b"
  by (simp add: quiet_def)

lemma quiet_trans [trans]: "quiet a b \<Longrightarrow> quiet b c \<Longrightarrow> quiet a c"
  by (simp add: quiet_def) (metis rtranclp_trans)

lemma quiet_bsteps: "quiet b b' \<Longrightarrow> bsteps b b'"
  by (simp add: quiet_def)

lemma quiet_book: "same_core b b' \<Longrightarrow> quiet b b'"
  by (auto simp: quiet_def same_core_def committed_def intro: r_into_rtranclp bs_book [unfolded same_core_def])

lemma quiet_obs:
  "quiet b b' \<Longrightarrow> part_log b' t p = part_log b t p" "quiet b b' \<Longrightarrow> streams_of b' t g = streams_of b t g"
  "quiet b b' \<Longrightarrow> inflight_of b' t g p = inflight_of b t g p"
  "quiet b b' \<Longrightarrow> mget3 (nextIndex b') t g p = mget3 (nextIndex b) t g p"
  "quiet b b' \<Longrightarrow> committed b' t g p = committed b t g p"
  "quiet b b' \<Longrightarrow> topics b' = topics b" "quiet b b' \<Longrightarrow> consumerChans b' = consumerChans b"
  "quiet b b' \<Longrightarrow> maxInFlight b' = maxInFlight b"
  by (simp_all add: quiet_def part_log_def streams_of_def)

lemma quiet_binv: "quiet b b' \<Longrightarrow> binv b \<Longrightarrow> binv b'"
  by (auto simp: quiet_def intro: bsteps_binv)

lemma core_simps [simp]:
  "same_core b (setCursor t g i b)" "same_core b (recordDeliveryLocked t g p owner at b)"
  "same_core b (putRetryState t g p off r b)" "same_core b (ensureOffsets t g b)"
  "same_core b (ensureInFlight t g p b)" "same_core b (ensureNextIndex t g b)"
  "same_core b (ensureCursor t b)"
  by (simp_all add: same_core_def setCursor_def recordDeliveryLocked_def putRetryState_def ensureCursor_def)
    (simp_all add: ensureOffsets_def ensureInFlight_def ensureNextIndex_def inflight_of_def
      mget3_def mget2_def mput2_def mput3_def)

lemma setCursor_frame [simp]:
  "streams_of (setCursor t g i b) t' g' = streams_of b t' g'"
  "inflight_of (setCursor t g i b) t' g' p' = inflight_of b t' g' p'"
  by (simp_all add: setCursor_def)

lemma core_purge [simp]: "same_core b (purgeRetryStateLocked t g p off b)"
  by (simp add: purgeRetryStateLocked_def same_core_def Let_def split: option.splits)

lemma quiet_wal: "appendWALEntry now e b = (r, b') \<Longrightarrow> e_Type e = RecordTypeRetryState \<Longrightarrow> quiet b b'"
  using bs_note appendWALEntry_wal by (fastforce simp: quiet_def)

lemma quiet_wal_fail: "appendWALEntry now e b = (Some err, b') \<Longrightarrow> quiet b b'"
  using bs_wal_fail appendWALEntry_wal by (fastforce simp: quiet_def)

lemma quiet_idem:
  assumes "idem_step (idem b, wal b) x = (s', w')"
  shows "quiet b (b\<lparr>idem := s', wal := w'\<rparr>)"
  using bs_idem [OF assms] by (auto simp: quiet_def)

lemma quiet_note [simp]: "quiet b (noteRetryError now t g p off err b)"
proof -
  obtain r b' where ap: "appendWALEntry now (retryEntry now t g p off err)
      (putRetryState t g p off \<lparr>rs_LastError = err, rs_LastErrorAt = now\<rparr> b) = (r, b')" by force
  have "quiet (putRetryState t g p off \<lparr>rs_LastError = err, rs_LastErrorAt = now\<rparr> b) b'"
    by (rule quiet_wal [OF ap]) (simp add: retryEntry_def zeroEntry_def)
  then show ?thesis
    by (simp add: noteRetryError_def ap) (metis core_simps(3) quiet_book quiet_trans)
qed

lemma quiet_idemCommitted: "idemCommitted now t g m b = (r, b') \<Longrightarrow> quiet b b'"
proof -
  assume a: "idemCommitted now t g m b = (r, b')"
  have w: "b\<lparr>idem := s', wal := wal b\<rparr> = b\<lparr>idem := s'\<rparr>" for s' by simp
  show ?thesis
    using a quiet_idem [of b "OpConsumeCheck now (msg_tenant m) t g (msg_idemKey m)"]
    by (auto simp: idemCommitted_def w split: if_splits prod.splits)
qed

lemma quiet_tryLease: "tryLease now t g m chs start ks fb b = (r, b') \<Longrightarrow> quiet b b'"
proof (induction now t g m chs start ks fb b rule: tryLease.induct)
  case (1 now t g m chs start fb b)
  then show ?case by simp
next
  case (2 now t g m chs start k ks fb b)
  let ?i = "(start + k) mod length chs"
  let ?l = "streamLease b (chs ! ?i)"
  show ?case
  proof (cases "?l = 0")
    case True
    with 2 show ?thesis by (simp add: Let_def)
  next
    case False
    obtain x s' w' where x: "ConsumeBeginLease now (msg_tenant m) t g (msg_idemKey m)
        (cs_Owner (chs ! ?i)) ?l (idem b, wal b) = (x, (s', w'))" by (metis surj_pair)
    let ?b = "b\<lparr>idem := s', wal := w'\<rparr>"
    have q: "quiet b ?b"
      using x by (intro quiet_idem [of b "OpBeginLease now (msg_tenant m) t g (msg_idemKey m)
        (cs_Owner (chs ! ?i)) ?l"]) simp
    show ?thesis
    proof (cases x)
      case (Inl err)
      with "2.IH"(2) [OF refl refl refl False x [symmetric] refl refl Inl] "2.prems" False x q show ?thesis
        by (auto simp: Let_def split: if_splits intro: quiet_trans)
    next
      case (Inr a)
      with "2.prems" False x have "b' = setCursor t g ((?i + 1) mod length chs) ?b"
        by (cases a) (auto simp: Let_def)
      with q show ?thesis by (metis core_simps(1) quiet_book quiet_trans)
    qed
  qed
qed

section \<open>Dispatch\<close>

text \<open>What a piece of dispatch on topic \<open>t\<close> may do.\<close>

definition disp :: "string \<Rightarrow> broker \<Rightarrow> broker \<Rightarrow> bool" where
  "disp t b b' \<longleftrightarrow> bsteps b b' \<and> topics b' = topics b \<and> consumerChans b' = consumerChans b
     \<and> (\<forall>t' g p. t' \<noteq> t \<longrightarrow> inflight_of b' t' g p = inflight_of b t' g p)"

lemma disp_refl [simp]: "disp t b b"
  by (simp add: disp_def)

lemma disp_trans: "disp t a b \<Longrightarrow> disp t b c \<Longrightarrow> disp t a c"
  by (simp add: disp_def) (metis rtranclp_trans)

lemma disp_quiet: "quiet b b' \<Longrightarrow> disp t b b'"
  by (simp add: disp_def quiet_def)

lemma disp_book: "same_core b b' \<Longrightarrow> disp t b b'"
  by (simp add: disp_quiet quiet_book)

lemma disp_obs:
  "disp t b b' \<Longrightarrow> part_log b' t' p = part_log b t' p" "disp t b b' \<Longrightarrow> streams_of b' t' g = streams_of b t' g"
  by (simp_all add: disp_def part_log_def streams_of_def)

lemma disp_binv: "disp t b b' \<Longrightarrow> binv b \<Longrightarrow> binv b'"
  by (auto simp: disp_def intro: bsteps_binv)

text \<open>The situation in which the loop body runs: position \<open>i\<close> of the partition's log.\<close>

definition at_pos :: "broker \<Rightarrow> string \<Rightarrow> string \<Rightarrow> int \<Rightarrow> message list \<Rightarrow> nat \<Rightarrow> bool" where
  "at_pos b t g p ms i \<longleftrightarrow> binv b \<and> 0 \<le> p \<and> part_log b t p = ms
     \<and> mget3 (nextIndex b) t g p = Some i"

lemma binv_log_offset:
  assumes "binv b" "0 \<le> p" "i < length (part_log b t p)"
  shows "msg_Offset (part_log b t p ! i) = int i" "msg_Partition (part_log b t p ! i) = p" "t \<noteq> ''''"
proof -
  obtain ts where ts: "mget (topics b) t = Some ts" "p < int (length (ts_partitions ts))"
    "part_log b t p = ts_partitions ts ! nat p"
    using assms(3) by (auto simp: part_log_def split: option.splits if_splits)
  then have "t \<noteq> ''''" "ts_wf ts" using assms(1) by (auto simp: binv_def inv_topics_def)
  with ts assms(2,3) show "msg_Offset (part_log b t p ! i) = int i" "t \<noteq> ''''"
    "msg_Partition (part_log b t p ! i) = p" by (auto simp: ts_wf_def nat_less_iff)
qed

lemma at_pos_quiet: "quiet b b' \<Longrightarrow> at_pos b t g p ms i \<Longrightarrow> at_pos b' t g p ms i"
  by (auto simp: at_pos_def quiet_obs intro: quiet_binv)

text \<open>The outcome of one round: steps of the machine, and the position moves on \<open>Continue\<close>.\<close>

definition round_ok :: "string \<Rightarrow> string \<Rightarrow> int \<Rightarrow> nat \<Rightarrow> broker \<Rightarrow> ctl \<times> broker \<Rightarrow> bool" where
  "round_ok t g p i b r \<longleftrightarrow> disp t b (snd r)
     \<and> (fst r = Continue \<longrightarrow> mget3 (nextIndex (snd r)) t g p = Some (i + 1))"

lemma round_ok_quiet: "quiet b b1 \<Longrightarrow> round_ok t g p i b1 r \<Longrightarrow> round_ok t g p i b r"
  by (auto simp: round_ok_def intro: disp_trans disp_quiet)

lemma setNextIndex_frame [simp]:
  "topics (setNextIndex t g p n b) = topics b" "consumerChans (setNextIndex t g p n b) = consumerChans b"
  "inflight_of (setNextIndex t g p n b) t' g' p' = inflight_of b t' g' p'"
  "committed (setNextIndex t g p n b) t' g' p' = committed b t' g' p'"
  "maxInFlight (setNextIndex t g p n b) = maxInFlight b" "chans (setNextIndex t g p n b) = chans b"
  by (simp_all add: setNextIndex_def)

lemma disp_advance:
  assumes "mget3 (nextIndex b) t g p = Some i" "i < length (part_log b t p)"
    and "int i \<le> committed b t g p \<or> mget (inflight_of b t g p) (int i) \<noteq> None"
  shows "round_ok t g p i b (Continue, setNextIndex t g p (i + 1) b)"
  using bs_next [OF assms] by (auto simp: round_ok_def disp_def) (simp add: setNextIndex_def)

lemma disp_commit:
  "0 \<le> off \<Longrightarrow> off < int (length (part_log b t p)) \<Longrightarrow> disp t b (commitOffset t g p off b)"
  using bs_commit by (auto simp: disp_def)

lemma skipDone_ok:
  assumes "at_pos b t g p ms i" "i < length ms"
  shows "round_ok t g p i b (Continue, setNextIndex t g p (i + 1) (skipDone t g p (msg_Offset (ms ! i)) b))"
proof -
  let ?c = "commitOffset t g p (int i) b" and ?s = "skipDone t g p (int i) b"
  have off: "msg_Offset (ms ! i) = int i"
    using assms binv_log_offset [of b p i t] by (auto simp: at_pos_def)
  have c: "disp t b ?c" by (rule disp_commit) (use assms in \<open>auto simp: at_pos_def\<close>)
  have q: "quiet ?c ?s" by (simp add: skipDone_def quiet_book)
  have "round_ok t g p i ?s (Continue, setNextIndex t g p (i + 1) ?s)"
    using assms by (intro disp_advance) (auto simp: at_pos_def quiet_obs [OF q])
  then show ?thesis
    using c disp_quiet [OF q] by (auto simp: off round_ok_def intro: disp_trans)
qed

lemma trySend_frame:
  assumes "trySend ch m b = Some b'"
  shows "\<exists>cs. b' = b\<lparr>chans := cs\<rparr>"
  using assms by (auto simp: trySend_def split: option.splits if_splits)

lemma quiet_send:
  assumes "st \<in> set (streams_of b t g)" "logged b t m" "trySend (cs_Ch st) m b = Some b'"
  shows "quiet b b'"
  using bs_send [OF assms] trySend_frame [OF assms(3)] by (auto simp: quiet_def)

lemma logged_at:
  "i < length (part_log b t p) \<Longrightarrow> logged b t ((part_log b t p ! i)\<lparr>msg_Attempts := a, msg_LastError := l\<rparr>)"
  unfolding logged_def by (intro exI [of _ p] exI [of _ i]) (simp add: stripMsg_def)

lemma deliverSimple_ok:
  assumes "at_pos b t g p ms i" "i < length ms" "cs \<in> set (streams_of b t g)"
  shows "round_ok t g p i b (deliverSimple t g p i (ms ! i) cs b)"
proof (cases "trySend (cs_Ch cs)
    ((ms ! i)\<lparr>msg_Attempts := 1, msg_LastError := seedError t g p (msg_Offset (ms ! i)) b\<rparr>) b")
  case None
  then show ?thesis by (simp add: deliverSimple_def round_ok_def)
next
  case (Some b')
  have q: "quiet b b'"
    by (rule quiet_send [OF assms(3) _ Some]) (use assms logged_at in \<open>auto simp: at_pos_def\<close>)
  from skipDone_ok [OF at_pos_quiet [OF q assms(1)] assms(2)] Some round_ok_quiet [OF q]
  show ?thesis by (simp add: deliverSimple_def)
qed

lemma same_core_undo:
  assumes "mget (inflight_of b t g p) off = None" "mget3 (nextIndex b) t g p = Some i"
  shows "same_core b (setNextIndex t g p i (delInflight t g p off (setNextIndex t g p n
           (recordDeliveryLocked t g p owner at (putInflight t g p off e b)))))"
  using assms mdel_mput_new [OF assms(1)]
  by (auto simp: same_core_def setNextIndex_def delInflight_def recordDeliveryLocked_def putInflight_def
      inflight_of_def)

lemma deliverLeased_ok:
  assumes pos: "at_pos b t g p ms i" and i: "i < length ms" and cs: "cs \<in> set (streams_of b t g)"
    and new: "mget (inflight_of b t g p) (int i) = None"
  shows "round_ok t g p i b (deliverLeased now t g p i (ms ! i) cs b)"
proof (cases "maxInFlight b > 0 \<and> int (length (inflight_of b t g p)) \<ge> maxInFlight b")
  case True
  then show ?thesis by (simp add: deliverLeased_def round_ok_def)
next
  case room: False
  let ?m = "ms ! i"
  have b: "binv b" "0 \<le> p" "part_log b t p = ms" "mget3 (nextIndex b) t g p = Some i"
    using pos by (auto simp: at_pos_def)
  have off: "msg_Offset ?m = int i" using binv_log_offset [of b p i t] b i by auto
  define e where "e = \<lparr>ie_Msg = ?m, ie_SentAt = now, ie_Attempts = 1, ie_NextDeliverAt = 0,
      ie_LastError = seedError t g p (int i) b, ie_Owner = cs_Owner cs\<rparr>"
  define b1 where "b1 = putInflight t g p (int i) e b"
  define b2 where "b2 = recordDeliveryLocked t g p (cs_Owner cs) now b1"
  define b3 where "b3 = setNextIndex t g p (i + 1) b2"
  have tg: "t \<noteq> ''''" "g \<noteq> ''''" using inv_streamsD [OF _ cs] b(1) by (auto simp: binv_def)
  have "entry_ok b t g p (int i) e" using tg b i by (simp add: entry_ok_def e_def)
  then have "bstep b b1" using new room unfolding b1_def by (intro bs_lease) auto
  then have d1: "disp t b b1" by (auto simp: disp_def b1_def) (simp_all add: putInflight_def)
  have q: "quiet b1 b2" by (simp add: b2_def quiet_book)
  have n1: "mget3 (nextIndex b1) t g p = Some i" using b by (simp add: b1_def putInflight_def)
  have "round_ok t g p i b2 (Continue, b3)"
    unfolding b3_def using n1 b(3) i disp_obs [OF d1]
    by (intro disp_advance) (auto simp: quiet_obs [OF q] b1_def)
  then have d3: "disp t b b3" and n3: "mget3 (nextIndex b3) t g p = Some (i + 1)"
    using d1 disp_quiet [OF q] by (auto simp: round_ok_def intro: disp_trans)
  let ?out = "?m\<lparr>msg_Attempts := 1, msg_LastError := ie_LastError e\<rparr>"
  have res: "deliverLeased now t g p i ?m cs b =
      (case trySend (cs_Ch cs) ?out b3 of
         Some b4 \<Rightarrow> (Continue, b4)
       | None \<Rightarrow> (Return, setNextIndex t g p i (delInflight t g p (int i) b3)))"
    unfolding b3_def b2_def b1_def e_def
    using room unfolding deliverLeased_def Let_def off by (auto split: option.splits)
  show ?thesis
  proof (cases "trySend (cs_Ch cs) ?out b3")
    case None
    then show ?thesis
      using same_core_undo [OF new b(4)] by (simp add: res round_ok_def b3_def b2_def b1_def disp_book)
  next
    case (Some b4)
    have "quiet b3 b4"
      by (rule quiet_send [OF _ _ Some]) (use cs logged_at [of i b3 t p] i b(3) disp_obs [OF d3] in auto)
    with Some d3 n3 show ?thesis
      by (auto simp: res round_ok_def quiet_obs intro: disp_trans disp_quiet)
  qed
qed

lemma deliver_ok:
  assumes "at_pos b t g p ms i" "i < length ms" "cs \<in> set (streams_of b t g)"
    and "mget (inflight_of b t g p) (int i) = None"
  shows "round_ok t g p i b (deliver now t g p i (ms ! i) cs lease b)"
  using assms deliverSimple_ok deliverLeased_ok by (simp add: deliver_def)

lemma tryLease_index:
  "tryLease now t g m chs start ks fb b = (r, b') \<Longrightarrow> chs \<noteq> [] \<Longrightarrow> (\<forall>k. fb = Some k \<longrightarrow> k < length chs) \<Longrightarrow>
     (case r of Picked k l d \<Rightarrow> k < length chs | NoneFree (Some k) \<Rightarrow> k < length chs | _ \<Rightarrow> True)"
proof (induction now t g m chs start ks fb b rule: tryLease.induct)
  case (1 now t g m chs start fb b)
  then show ?case by (auto split: option.split)
next
  case (2 now t g m chs start k ks fb b)
  let ?i = "(start + k) mod length chs"
  let ?l = "streamLease b (chs ! ?i)"
  show ?case
  proof (cases "?l = 0")
    case True
    with 2 show ?thesis by (simp add: Let_def)
  next
    case False
    obtain x s' w' where x: "ConsumeBeginLease now (msg_tenant m) t g (msg_idemKey m)
        (cs_Owner (chs ! ?i)) ?l (idem b, wal b) = (x, (s', w'))" by (metis surj_pair)
    show ?thesis
    proof (cases x)
      case (Inl err)
      with "2.IH"(2) [OF refl refl refl False x [symmetric] refl refl Inl] "2.prems" False x show ?thesis
        by (auto simp: Let_def split: if_splits)
    next
      case (Inr a)
      with "2.prems" False x show ?thesis by (cases a) (auto simp: Let_def)
    qed
  qed
qed

lemma dispatchIdem_ok:
  assumes pos: "at_pos b t g p ms i" and i: "i < length ms" and chs: "chs = streams_of b t g" "chs \<noteq> []"
    and new: "mget (inflight_of b t g p) (int i) = None"
  shows "round_ok t g p i b (dispatchIdem now t g p chs i (ms ! i) b)"
proof -
  let ?start = "getCursor t g b mod length chs"
  obtain r b1 where r: "tryLease now t g (ms ! i) chs ?start [0..<length chs] None b = (r, b1)" by force
  have q: "quiet b b1" by (rule quiet_tryLease [OF r])
  have b1: "at_pos b1 t g p ms i" "streams_of b1 t g = chs" "mget (inflight_of b1 t g p) (int i) = None"
    using at_pos_quiet [OF q pos] chs new by (simp_all add: quiet_obs [OF q])
  show ?thesis
  proof (cases r)
    case (BeginErr err)
    with r q show ?thesis
      by (auto simp: dispatchIdem_def Let_def round_ok_def intro!: disp_quiet quiet_trans [OF q])
  next
    case (NoneFree fb)
    show ?thesis
    proof (cases fb)
      case None
      with NoneFree r q show ?thesis
        by (simp add: dispatchIdem_def Let_def round_ok_def disp_quiet)
    next
      case (Some k)
      let ?b2 = "setCursor t g ((k + 1) mod length chs) b1"
      have q2: "quiet b1 ?b2" by (simp add: quiet_book)
      have "k < length chs" using tryLease_index [OF r] chs NoneFree Some by simp
      then have "round_ok t g p i ?b2 (deliver now t g p i (ms ! i) (chs ! k) 0 ?b2)"
        using b1 i at_pos_quiet [OF q2] by (intro deliver_ok) (simp_all add: quiet_obs [OF q2])
      then have "round_ok t g p i b (deliver now t g p i (ms ! i) (chs ! k) 0 ?b2)"
        by (intro round_ok_quiet [OF q] round_ok_quiet [OF q2])
      with NoneFree Some r show ?thesis by (simp add: dispatchIdem_def Let_def)
    qed
  next
    case (Picked k lease fin)
    show ?thesis
    proof (cases fin)
      case True
      with Picked r skipDone_ok [OF b1(1) i] show ?thesis
        by (simp add: dispatchIdem_def Let_def round_ok_quiet [OF q])
    next
      case False
      have "k < length chs" using tryLease_index [OF r] chs Picked by simp
      then have "round_ok t g p i b1 (deliver now t g p i (ms ! i) (chs ! k) lease b1)"
        using b1 i by (intro deliver_ok) simp_all
      with Picked False r show ?thesis
        by (simp add: dispatchIdem_def Let_def round_ok_quiet [OF q])
    qed
  qed
qed

lemma dispatchStep_ok:
  assumes pos: "at_pos b t g p ms i" and i: "i < length ms" and chs: "chs = streams_of b t g" "chs \<noteq> []"
  shows "round_ok t g p i b (dispatchStep now t g p chs i (ms ! i) b)"
proof -
  obtain r b1 where r: "idemCommitted now t g (ms ! i) b = (r, b1)" by force
  have q: "quiet b b1" by (rule quiet_idemCommitted [OF r])
  have b1: "at_pos b1 t g p ms i" "streams_of b1 t g = chs"
    using at_pos_quiet [OF q pos] chs by (simp_all add: quiet_obs [OF q])
  have off: "msg_Offset (ms ! i) = int i"
    using binv_log_offset [of b p i t] pos i by (auto simp: at_pos_def)
  have "round_ok t g p i b1 (dispatchStep now t g p chs i (ms ! i) b)"
  proof (cases r)
    case True
    with r skipDone_ok [OF b1(1) i] show ?thesis by (simp add: dispatchStep_def)
  next
    case False
    show ?thesis
    proof (cases "mget (inflight_of b1 t g p) (int i)")
      case (Some e)
      with r False b1 i off show ?thesis
        by (simp add: dispatchStep_def) (metis Suc_eq_plus1 at_pos_def disp_advance option.distinct(1))
    next
      case None
      let ?k = "getCursor t g b1 mod length chs"
      let ?b2 = "setCursor t g ((?k + 1) mod length chs) b1"
      have q2: "quiet b1 ?b2" by (simp add: quiet_book)
      have "round_ok t g p i ?b2 (deliver now t g p i (ms ! i) (chs ! ?k) (streamLease b1 (chs ! ?k)) ?b2)"
        using b1 i None chs(2) at_pos_quiet [OF q2] by (intro deliver_ok) (simp_all add: quiet_obs [OF q2])
      then show ?thesis
        using r False None off round_ok_quiet [OF q2] dispatchIdem_ok [OF b1(1) i b1(2) [symmetric] chs(2) None]
        by (simp add: dispatchStep_def Let_def)
    qed
  qed
  then show ?thesis by (rule round_ok_quiet [OF q])
qed

lemma dispatchLoop_ok:
  assumes "at_pos b t g p ms i" "chs = streams_of b t g" "chs \<noteq> []"
  shows "disp t b (snd (dispatchLoop now t g p chs ms i b))"
  using assms
proof (induction "length ms - i" arbitrary: i b rule: less_induct)
  case less
  show ?case
  proof (cases "i < length ms")
    case False
    then show ?thesis by (simp add: dispatchLoop.simps)
  next
    case True
    obtain c b1 where st: "dispatchStep now t g p chs i (ms ! i) b = (c, b1)" by force
    from dispatchStep_ok [OF less.prems(1) True less.prems(2,3), of now] st
    have d: "disp t b b1" and n: "c = Continue \<longrightarrow> mget3 (nextIndex b1) t g p = Some (i + 1)"
      by (auto simp: round_ok_def)
    have "disp t b1 (snd (dispatchLoop now t g p chs ms (i + 1) b1))" if "c = Continue"
      using less.prems n that True disp_binv [OF d]
      by (intro less.hyps) (auto simp: at_pos_def disp_obs [OF d])
    with d True st show ?thesis
      by (subst dispatchLoop.simps) (auto split: ctl.split intro: disp_trans)
  qed
qed

lemma takeWhile_offsets:
  assumes "\<And>i. i < length ms \<Longrightarrow> msg_Offset (ms ! i) = int i"
    and "j < length (takeWhile (\<lambda>m. msg_Offset m \<le> c) ms)"
  shows "int j \<le> c"
proof -
  have "msg_Offset (takeWhile (\<lambda>m. msg_Offset m \<le> c) ms ! j) \<le> c"
    using nth_mem [OF assms(2)] set_takeWhileD by fastforce
  moreover have "j < length ms" using assms(2) length_takeWhile_le order.strict_trans2 by blast
  ultimately show ?thesis using assms by (simp add: takeWhile_nth)
qed

lemma initNextIndex_ok:
  assumes "binv b" "0 \<le> p" "part_log b t p = ms"
  shows "disp t b (initNextIndex t g p ms b)"
    "\<exists>i. mget3 (nextIndex (initNextIndex t g p ms b)) t g p = Some i"
proof -
  let ?n = "length (takeWhile (\<lambda>m. msg_Offset m \<le> committed b t g p) ms)"
  have "\<forall>j < ?n. int j \<le> committed b t g p"
    using takeWhile_offsets [of ms _ "committed b t g p"] binv_log_offset(1) [OF assms(1,2)] assms(3) by blast
  then have "bstep b (setNextIndex t g p ?n b)" if "mget3 (nextIndex b) t g p = None"
    using that assms(3) by (intro bs_next_init) (auto simp: length_takeWhile_le)
  then show "disp t b (initNextIndex t g p ms b)"
    by (auto simp: initNextIndex_def disp_def split: option.split)
  show "\<exists>i. mget3 (nextIndex (initNextIndex t g p ms b)) t g p = Some i"
    by (auto simp: initNextIndex_def setNextIndex_def split: option.split)
qed

lemma dispatchPartitions_ok:
  assumes "binv b" "mget (topics b) t = Some ts" "parts = ts_partitions ts"
    and "chs = streams_of b t g" "chs \<noteq> []" "set ps \<subseteq> {..<length parts}"
  shows "disp t b (snd (dispatchPartitions now t g chs parts only ps b))"
  using assms
proof (induction ps arbitrary: b)
  case (Cons p ps)
  let ?b0 = "ensureInFlight t g (int p) b"
  let ?b1 = "initNextIndex t g (int p) (parts ! p) ?b0"
  have q: "quiet b ?b0" by (simp add: quiet_book)
  have log: "part_log b t (int p) = parts ! p" using Cons.prems by (simp add: part_log_def)
  have b0: "binv ?b0" using quiet_binv [OF q Cons.prems(1)] .
  have pl: "part_log ?b0 t (int p) = parts ! p" by (simp add: quiet_obs [OF q] log)
  obtain i where i: "mget3 (nextIndex ?b1) t g (int p) = Some i"
    using initNextIndex_ok(2) [OF b0 _ pl] by auto
  have d1: "disp t b ?b1"
    by (rule disp_trans [OF disp_quiet [OF q] initNextIndex_ok(1) [OF b0 _ pl]]) simp
  obtain stop b2 where l: "dispatchLoop now t g (int p) chs (parts ! p) i ?b1 = (stop, b2)" by force
  have "at_pos ?b1 t g (int p) (parts ! p) i"
    using disp_binv [OF d1 Cons.prems(1)] i log by (simp add: at_pos_def disp_obs [OF d1])
  then have d2: "disp t b b2"
    using dispatchLoop_ok [of ?b1 t g "int p" "parts ! p" i chs now] l Cons.prems(4,5) d1
    by (auto simp: disp_obs [OF d1] intro: disp_trans)
  have "disp t b2 (snd (dispatchPartitions now t g chs parts only ps b2))"
    using Cons.prems disp_binv [OF d2] d2 by (intro Cons.IH) (auto simp: disp_obs [OF d2] disp_def)
  moreover have "disp t b (snd (dispatchPartitions now t g chs parts only ps b))"
    using Cons.prems by (intro Cons.IH) auto
  ultimately show ?case
    using i l d2 by (auto simp: Let_def split: bool.split intro: disp_trans)
qed simp

lemma dispatchGroups_ok:
  assumes "binv b" "mget (topics b) t = Some ts" "mget (consumerChans b) t = Some gc"
  shows "disp t b (dispatchGroups now t gc (ts_partitions ts) only gs b)"
  using assms
proof (induction gs arbitrary: b)
  case (Cons g gs)
  show ?case
  proof (cases "mdef [] gc g = []")
    case True
    with Cons show ?thesis by (simp add: Let_def)
  next
    case False
    let ?b0 = "ensureNextIndex t g (ensureCursor t b)"
    have q: "quiet b ?b0" by (rule quiet_trans) (rule quiet_book, rule core_simps)+
    obtain stop b1 where p: "dispatchPartitions now t g (mdef [] gc g) (ts_partitions ts) only
        [0..<length (ts_partitions ts)] ?b0 = (stop, b1)" by force
    have "disp t ?b0 (snd (dispatchPartitions now t g (mdef [] gc g) (ts_partitions ts) only
        [0..<length (ts_partitions ts)] ?b0))"
      using Cons.prems False quiet_binv [OF q]
      by (intro dispatchPartitions_ok)
        (auto simp: quiet_obs [OF q] streams_of_def mget2_def mdef_def split: option.splits)
    then have d: "disp t b b1" using disp_trans [OF disp_quiet [OF q]] p by simp
    have "disp t b1 (dispatchGroups now t gc (ts_partitions ts) only gs b1)"
      using Cons.prems disp_binv [OF d] d by (intro Cons.IH) (auto simp: disp_def)
    with False p d show ?thesis by (auto simp: Let_def split: bool.split intro: disp_trans)
  qed
qed simp

lemma dispatchFiltered_ok: "binv b \<Longrightarrow> disp t b (dispatchFilteredLocked env t only b)"
  by (auto simp: dispatchFilteredLocked_def dispatchGroups_ok split: option.split)

lemma dispatchPartition_ok: "binv b \<Longrightarrow> disp t b (dispatchPartitionLocked env t p b)"
  by (simp add: dispatchPartitionLocked_def dispatchFiltered_ok)

lemma dispatchLocked_ok: "binv b \<Longrightarrow> disp t b (dispatchLocked env t b)"
  by (simp add: dispatchLocked_def dispatchFiltered_ok)

section \<open>Produce and dead letters\<close>

definition touches :: "string \<Rightarrow> broker \<Rightarrow> broker \<Rightarrow> bool" where
  "touches t b b' \<longleftrightarrow> bsteps b b' \<and> consumerChans b' = consumerChans b
     \<and> (\<forall>t' g p. t' \<noteq> t \<longrightarrow> inflight_of b' t' g p = inflight_of b t' g p)"

lemma touches_trans: "touches t a b \<Longrightarrow> touches t b c \<Longrightarrow> touches t a c"
  by (simp add: touches_def) (metis rtranclp_trans)

lemma touches_disp: "disp t b b' \<Longrightarrow> touches t b b'"
  by (simp add: touches_def disp_def)

lemma touches_quiet: "quiet b b' \<Longrightarrow> touches t b b'"
  by (simp add: touches_disp disp_quiet)

lemma touches_refl [simp]: "touches t b b"
  by (simp add: touches_def)

lemma touches_binv: "touches t b b' \<Longrightarrow> binv b \<Longrightarrow> binv b'"
  by (auto simp: touches_def intro: bsteps_binv)

lemma choosePartition_range:
  assumes "choosePartition m n = Inr p" "0 < n" "n < 2 ^ 32"
  shows "0 \<le> p \<and> p < n"
  using assms pickPartition_range [of n "msg_Key m"]
  by (auto simp: choosePartition_def split: option.splits if_splits)

lemma backpressure_msg:
  "msg_size m' = msg_size m \<Longrightarrow> backpressure t p ts m' b = backpressure t p ts m b"
  by (simp add: backpressure_def Let_def)

text \<open>The branches of \<open>produceLocked\<close>.\<close>

lemma produceLocked_cases:
  assumes "produceLocked env t m b = (r, b')"
  obtains (refused) err where "r = Some err" "b' = b"
  | (log_failed) err e where "r = Some err" "appendWALEntry (env_now env) e b = (Some err, b')"
  | (stored) ts p b1 m' where "r = None" "mget (topics b) t = Some ts" "t \<noteq> ''''" "ts_partitions ts \<noteq> []"
      "choosePartition m (int (length (ts_partitions ts))) = Inr p" "backpressure t p ts m b = None"
      "m' = m\<lparr>msg_Partition := p, msg_Offset := int (length (ts_partitions ts ! nat p))\<rparr>"
      "appendWALEntry (env_now env) (messageEntry t m') b = (None, b1)"
      "b' = dispatchPartitionLocked env t p (b1\<lparr>topics := mput t (ts_append (nat p) m' ts) (topics b1)\<rparr>)"
proof (cases "t = '''' \<or> mget (topics b) t = None")
  case True
  with assms have "b' = b \<and> r \<noteq> None" by (auto simp: produceLocked_def split: if_splits)
  then show ?thesis using refused by blast
next
  case False
  then obtain ts where ts: "t \<noteq> ''''" "mget (topics b) t = Some ts" by blast
  show ?thesis
  proof (cases "ts_partitions ts = []")
    case True
    with ts assms show ?thesis by (intro refused) (auto simp: produceLocked_def)
  next
    case parts: False
    show ?thesis
    proof (cases "choosePartition m (int (length (ts_partitions ts)))")
      case (Inl err)
      with ts parts assms show ?thesis by (intro refused [of err]) (auto simp: produceLocked_def)
    next
      case part: (Inr p)
      show ?thesis
      proof (cases "backpressure t p ts m b")
        case (Some err)
        with ts parts part assms show ?thesis by (intro refused [of err]) (auto simp: produceLocked_def)
      next
        case bp: None
        define m' where "m' = m\<lparr>msg_Partition := p, msg_Offset := int (length (ts_partitions ts ! nat p))\<rparr>"
        obtain r1 b1 where ap: "appendWALEntry (env_now env) (messageEntry t m') b = (r1, b1)" by force
        note eqs = ts parts part bp ap m'_def [symmetric]
        show ?thesis
        proof (cases r1)
          case (Some err)
          with assms eqs show ?thesis by (intro log_failed [of err]) (auto simp: produceLocked_def Let_def)
        next
          case None
          with assms eqs show ?thesis
            by (intro stored [of ts p m' b1]) (auto simp: produceLocked_def Let_def)
        qed
      qed
    qed
  qed
qed

lemma produceLocked_ok:
  assumes "binv b" "produceLocked env t m b = (r, b')"
  shows "touches t b b'"
  using assms(2)
proof (cases rule: produceLocked_cases)
  case (log_failed err e)
  then show ?thesis by (intro touches_quiet quiet_wal_fail)
next
  case (stored ts p b1 m')
  let ?b2 = "b1\<lparr>topics := mput t (ts_append (nat p) m' ts) (topics b1)\<rparr>"
  have "ts_wf ts" using assms(1) stored by (simp add: binv_def inv_topics_def)
  then have p: "0 \<le> p \<and> p < int (length (ts_partitions ts))"
    using stored by (intro choosePartition_range [of m]) (auto simp: ts_wf_def)
  have "bstep b ?b2"
    using stored p backpressure_msg [of m' m t p ts b]
    by (intro bs_produce) (auto simp: msg_size_def)
  moreover obtain w where "b1 = b\<lparr>wal := w\<rparr>" using appendWALEntry_wal stored by blast
  ultimately have "touches t b ?b2" by (auto simp: touches_def)
  moreover have "touches t ?b2 b'"
    using \<open>bstep b ?b2\<close> assms(1) stored bstep_binv by (blast intro: touches_disp dispatchPartition_ok)
  ultimately show ?thesis by (rule touches_trans)
qed simp

lemma quiet_idem_only:
  assumes "idem_step (idem b, wal b) x = (s', wal b)"
  shows "quiet b (b\<lparr>idem := s'\<rparr>)"
  using quiet_idem [OF assms] by simp

lemma Produce_ok:
  assumes "binv b" "Produce router env t m b = (r, b')"
  shows "bsteps b b'"
proof -
  let ?now = "env_now env"
  have P: "bsteps b x" if "produceLocked env ft msg b = (r', x)" for ft msg r' x
    using produceLocked_ok [OF assms(1) that] by (simp add: touches_def)
  have I: "bsteps b (b\<lparr>idem := s1\<rparr>)" "binv (b\<lparr>idem := s1\<rparr>)"
    if "Begin ?now tn ft k (idem b) = (x, s1)" for x s1 tn ft k
  proof -
    have "quiet b (b\<lparr>idem := s1\<rparr>)"
      using that by (intro quiet_idem_only [of _ "OpBegin ?now tn ft k"]) simp
    then show "bsteps b (b\<lparr>idem := s1\<rparr>)" "binv (b\<lparr>idem := s1\<rparr>)"
      using assms(1) by (auto simp: quiet_bsteps intro: quiet_binv)
  qed
  have Q: "bsteps b (b2\<lparr>idem := Fail ?now tn ft k c (idem b2)\<rparr>)"
      "bsteps b (b2\<lparr>idem := Commit ?now tn ft k [] (idem b2)\<rparr>)"
    if "Begin ?now tn ft k (idem b) = (x, s1)" "produceLocked env ft msg (b\<lparr>idem := s1\<rparr>) = (r', b2)"
    for x s1 tn ft k msg r' b2 c
  proof -
    have "bsteps b b2"
      using I [OF that(1)] produceLocked_ok [OF _ that(2)] rtranclp_trans by (fastforce simp: touches_def)
    moreover have "quiet b2 (b2\<lparr>idem := Fail ?now tn ft k c (idem b2)\<rparr>)"
      by (intro quiet_idem_only [of _ "OpFail ?now tn ft k c"]) simp
    moreover have "quiet b2 (b2\<lparr>idem := Commit ?now tn ft k [] (idem b2)\<rparr>)"
      by (intro quiet_idem_only [of _ "OpCommit ?now tn ft k []"]) simp
    ultimately show "bsteps b (b2\<lparr>idem := Fail ?now tn ft k c (idem b2)\<rparr>)"
      "bsteps b (b2\<lparr>idem := Commit ?now tn ft k [] (idem b2)\<rparr>)"
      by (auto dest: quiet_bsteps)
  qed
  show ?thesis
    using assms(2) P I(1) Q
    by (auto simp: Produce_def Let_def split: if_splits sum.splits prod.splits option.splits bool.splits)
qed

lemma create_touches:
  assumes "createTopicLocked t n b = (None, b')" "n < 2 ^ 32" "HasPrefix t ''dlq.''"
  shows "touches t b b'"
proof -
  have "bstep b b'" using assms bs_create by (simp add: createTopicLocked_def)
  moreover have "consumerChans b' = consumerChans b" "inFlight b' = inFlight b"
    using assms(1)
    by (auto simp: createTopicLocked_def createTopicLockedWithConfig_def split: if_splits sum.splits)
  ultimately show ?thesis by (auto simp: touches_def inflight_of_def)
qed

lemma publish_ok:
  assumes "binv b" "publishToDLQLocked env t m b = (r, b')"
  shows "touches (dlqTopicName t) b b'"
proof -
  let ?n = "case mget (topics b) t of None \<Rightarrow> 1
    | Some ts \<Rightarrow> if ts_partitions ts \<noteq> [] then int (length (ts_partitions ts)) else 1"
  have n: "?n < 2 ^ 32" using assms(1) by (auto simp: binv_def inv_topics_def ts_wf_def split: option.splits)
  have C: "touches (dlqTopicName t) b x" if "createTopicLocked (dlqTopicName t) ?n b = (None, x)" for x
    using create_touches [OF that n] by (simp add: dlqTopicName_def HasPrefix_def)
  have E: "x = b" if "createTopicLocked (dlqTopicName t) ?n b = (Some err, x)" for x err
    using that by (auto simp: createTopicLocked_def createTopicLockedWithConfig_def split: if_splits sum.splits)
  have P: "touches (dlqTopicName t) b y"
    if "touches (dlqTopicName t) b x" "produceLocked env (dlqTopicName t) mm x = (r', y)" for x y r' mm
    using touches_trans [OF that(1) produceLocked_ok [OF touches_binv [OF that(1) assms(1)] that(2)]] .
  consider "b' = b" | x err where "createTopicLocked (dlqTopicName t) ?n b = (Some err, x)" "b' = x"
    | x mm where "createTopicLocked (dlqTopicName t) ?n b = (None, x)" "produceLocked env (dlqTopicName t) mm x = (r, b')"
    | mm where "produceLocked env (dlqTopicName t) mm b = (r, b')"
    using assms(2) unfolding publishToDLQLocked_def Let_def
    by (auto split: if_splits prod.splits option.splits)
  then show ?thesis by cases (use C E P P [OF touches_refl] in auto)
qed

section \<open>Acknowledgement\<close>

lemma ensureOffsets_delInflight:
  "ensureOffsets t g (delInflight t g' p off b) = delInflight t g' p off (ensureOffsets t g b)"
  by (simp add: ensureOffsets_def delInflight_def inflight_of_def)

text \<open>In range, \<open>ackLocked\<close> drops the in-flight entry, raises the committed offset and dispatches.\<close>

lemma ackLocked_eq:
  assumes "0 \<le> off" "mget (topics b) t = Some ts" "p < int (length (ts_partitions ts))"
  shows "ackLocked env t g p off b =
    (None, dispatchPartitionLocked env t p (commitOffset t g p off (delInflight t g p off b)))"
proof -
  have "committed (delInflight t g p off b) t g p =
      (case mget3 (consumerOffsets b) t g p of None \<Rightarrow> -1 | Some x \<Rightarrow> x)"
    by (simp add: committed_def delInflight_def)
  then show ?thesis
    using assms
    by (auto simp: ackLocked_def commitOffset_def Let_def ensureOffsets_delInflight [symmetric]
        split: option.splits)
      (simp_all add: delInflight_def)
qed

lemma commit_del_bsteps: "0 \<le> off \<Longrightarrow> bsteps b (commitOffset t g p off (delInflight t g p off b))"
  by (blast intro: bs_ack)

lemma ackLocked_ok:
  assumes "binv b" "0 \<le> off" "ackLocked env t g p off b = (r, b')"
  shows "bsteps b b' \<and> consumerChans b' = consumerChans b"
proof (cases "\<exists>ts. mget (topics b) t = Some ts \<and> p < int (length (ts_partitions ts))")
  case False
  with assms(3) have "b' = b" by (auto simp: ackLocked_def split: option.splits if_splits)
  then show ?thesis by simp
next
  case True
  let ?b1 = "commitOffset t g p off (delInflight t g p off b)"
  have "b' = dispatchPartitionLocked env t p ?b1"
    using True assms(3) ackLocked_eq [OF assms(2)] by auto
  moreover have s: "bsteps b ?b1" by (rule commit_del_bsteps [OF assms(2)])
  moreover have "disp t ?b1 (dispatchPartitionLocked env t p ?b1)"
    by (rule dispatchPartition_ok [OF bsteps_binv [OF s assms(1)]])
  ultimately show ?thesis
    by (auto simp: disp_def delInflight_def)
qed

lemma checkAckArgs_None:
  "checkAckArgs t g p off = None \<longleftrightarrow> t \<noteq> '''' \<and> g \<noteq> '''' \<and> 0 \<le> p \<and> 0 \<le> off"
  by (auto simp: checkAckArgs_def)

lemma Ack_ok: "binv b \<Longrightarrow> Ack env t g p off b = (r, b') \<Longrightarrow> bsteps b b'"
  using ackLocked_ok by (auto simp: Ack_def checkAckArgs_None split: option.splits)

lemma ownedEntry_cases:
  assumes "ownedEntry t g p off owner b = (r, b')"
  shows "quiet b b' \<and> (\<forall>e. r = Inr e \<longrightarrow> mget (inflight_of b' t g p) off = Some e \<and> ie_Owner e = owner)"
proof -
  have q: "quiet b (ensureInFlight t g p b)" by (simp add: quiet_book)
  show ?thesis
    using assms q by (auto simp: ownedEntry_def Let_def split: option.splits if_splits)
qed

lemma quiet_consumeCommit:
  assumes "ConsumeCommitIfOwner now tn t g k ow res (idem b, wal b) = (r, (s', w'))"
  shows "quiet b (b\<lparr>idem := s', wal := w'\<rparr>)"
  using assms by (intro quiet_idem [of _ "OpConsumeCommit now tn t g k ow res"]) simp

lemma AckIfOwner_ok:
  assumes "binv b" "AckIfOwner env t g p off owner b = (r, b')"
  shows "bsteps b b'"
proof (cases "checkAckArgs t g p off")
  case (Some err)
  with assms show ?thesis by (simp add: AckIfOwner_def)
next
  case None
  then have off: "0 \<le> off" by (simp add: checkAckArgs_None)
  obtain x b1 where o: "ownedEntry t g p off (TrimSpace owner) b = (x, b1)" by force
  then have q: "quiet b b1" using ownedEntry_cases by blast
  have A: "bsteps b y" if "quiet b1 z" "ackLocked env t g p off z = (r', y)" for z y r'
  proof -
    have "bsteps z y" using ackLocked_ok [OF _ off that(2)] quiet_binv q that assms(1) by blast
    then show ?thesis using that(1) q by (metis quiet_bsteps rtranclp_trans)
  qed
  have B: "bsteps b z" if "quiet b1 z" for z using that q by (metis quiet_bsteps rtranclp_trans)
  show ?thesis
    using assms(2) None o A B [OF quiet_consumeCommit] A [OF quiet_consumeCommit] A [OF quiet_refl] quiet_bsteps [OF q]
    by (auto simp: AckIfOwner_def Let_def split: if_splits sum.splits prod.splits option.splits)
qed

lemma ackAll_ok:
  "binv b \<Longrightarrow> ackAllIfOwner env t g p owner offs b = (r, b') \<Longrightarrow> bsteps b b'"
proof (induction offs arbitrary: b)
  case (Cons off offs)
  obtain x b1 where a: "AckIfOwner env t g p off owner b = (x, b1)" by force
  have s: "bsteps b b1" by (rule AckIfOwner_ok [OF Cons.prems(1) a])
  with Cons a show ?case
    by (auto split: option.splits intro: rtranclp_trans bsteps_binv)
qed simp

lemma AckCumulative_ok:
  assumes "binv b" "AckCumulativeIfOwner env t g p off owner b = (r, b')"
  shows "bsteps b b'"
proof -
  have q1: "quiet b (ensureOffsets t g b)" by (simp add: quiet_book)
  have q2: "quiet b (ensureInFlight t g p (ensureOffsets t g b))"
    by (rule quiet_trans [OF q1]) (simp add: quiet_book)
  have A: "bsteps b y" if "ackAllIfOwner env t g p ow offs (ensureInFlight t g p (ensureOffsets t g b)) = (r', y)"
    for ow offs r' y
    using ackAll_ok [OF quiet_binv [OF q2 assms(1)] that] quiet_bsteps [OF q2] by (metis rtranclp_trans)
  show ?thesis
    using assms(2) quiet_bsteps [OF q1] quiet_bsteps [OF q2] A
    by (auto simp: AckCumulativeIfOwner_def Let_def split: if_splits option.splits)
qed

section \<open>Redelivery\<close>

definition in_flight :: "broker \<Rightarrow> inflightKey \<Rightarrow> inflightEntry \<Rightarrow> bool" where
  "in_flight b k e \<longleftrightarrow> (case k of (t, g, p, off) \<Rightarrow> mget (inflight_of b t g p) off = Some e)"

lemma in_flight_quiet: "quiet b b' \<Longrightarrow> in_flight b' k e = in_flight b k e"
  by (auto simp: in_flight_def quiet_obs split: prod.split)

lemma in_flight_ok:
  assumes "binv b" "in_flight b (t, g, p, off) e"
  shows "entry_ok b t g p off e"
  using assms by (auto simp: in_flight_def binv_def inv_inflight_def)

lemma entry_ok_range:
  assumes "entry_ok b t g p off e"
  shows "checkAckArgs t g p off = None"
    "\<exists>ts. mget (topics b) t = Some ts \<and> p < int (length (ts_partitions ts))"
  using assms
  by (auto simp: entry_ok_def checkAckArgs_None part_log_def split: option.splits if_splits)

lemma advanceOffset_eq:
  assumes "checkAckArgs t g p off = None" "mget (topics b) t = Some ts" "p < int (length (ts_partitions ts))"
  shows "snd (advanceOffsetLocked env t g p off b) =
    (if off \<le> committed b t g p then commitOffset t g p off b
     else dispatchPartitionLocked env t p (commitOffset t g p off b))"
proof -
  have "0 \<le> off" using assms(1) by (simp add: checkAckArgs_None)
  then show ?thesis
    using assms
    by (auto simp: advanceOffsetLocked_def commitOffset_def Let_def committed_def split: option.splits)
qed

lemma finishEntry_ok:
  assumes "binv b" "in_flight b k e"
  shows "bsteps b (finishEntry env k b)"
proof -
  obtain t g p off where k: "k = (t, g, p, off)" by (cases k) auto
  have ok: "entry_ok b t g p off e" using in_flight_ok assms k by blast
  let ?d = "delInflight t g p off b"
  let ?c = "commitOffset t g p off ?d"
  obtain ts where ts: "mget (topics ?d) t = Some ts" "p < int (length (ts_partitions ts))"
    using entry_ok_range(2) [OF ok] by (auto simp: delInflight_def)
  have off: "0 \<le> off" using ok by (simp add: entry_ok_def)
  have c: "bsteps b ?c" by (rule commit_del_bsteps [OF off])
  have "disp t ?c (dispatchPartitionLocked env t p ?c)"
    by (rule dispatchPartition_ok [OF bsteps_binv [OF c assms(1)]])
  then have "bsteps b (dispatchPartitionLocked env t p ?c)"
    using c by (auto simp: disp_def)
  then have "bsteps b (snd (advanceOffsetLocked env t g p off ?d))"
    using c by (simp add: advanceOffset_eq [OF entry_ok_range(1) [OF ok] ts])
  then show ?thesis
    unfolding finishEntry_def k prod.case by (rule rtranclp.rtrancl_into_rtrancl) (rule bs_book [OF core_purge])
qed

lemma setEntryError_same [simp]:
  "stripMsg (ie_Msg (setEntryError err e)) = stripMsg (ie_Msg e)"
  "ie_Attempts (setEntryError err e) = ie_Attempts e"
  "ie_NextDeliverAt (setEntryError err e) = ie_NextDeliverAt e" "ie_Owner (setEntryError err e) = ie_Owner e"
  by (simp_all add: setEntryError_def stripMsg_def)

lemma update_ok:
  assumes "in_flight b (t, g, p, off) e" "stripMsg (ie_Msg e') = stripMsg (ie_Msg e)"
    and "ie_Attempts e \<le> ie_Attempts e'"
  shows "bsteps b (putInflight t g p off e' b)"
  using assms by (auto simp: in_flight_def intro: bs_update)

lemma noteEntryError_ok:
  assumes "in_flight b k e"
  shows "bsteps b (noteEntryError now k err e b)"
    "in_flight (noteEntryError now k err e b) k (setEntryError err e)"
    "consumerChans (noteEntryError now k err e b) = consumerChans b"
proof -
  obtain t g p off where k: "k = (t, g, p, off)" by (cases k) auto
  let ?b = "putInflight t g p off (setEntryError err e) b"
  have s: "bsteps b ?b" by (rule update_ok [of b t g p off e]) (use assms in \<open>simp_all add: k\<close>)
  have q: "quiet ?b (noteEntryError now k err e b)" by (simp add: noteEntryError_def k)
  from s quiet_bsteps [OF q] show "bsteps b (noteEntryError now k err e b)" by (rule rtranclp_trans)
  show "in_flight (noteEntryError now k err e b) k (setEntryError err e)"
    by (simp add: in_flight_quiet [OF q]) (simp add: in_flight_def k)
  show "consumerChans (noteEntryError now k err e b) = consumerChans b"
    by (simp add: quiet_obs [OF q]) (simp add: putInflight_def)
qed

lemma dlqTopicName_neq [simp]: "t \<noteq> dlqTopicName t"
  by (simp add: dlqTopicName_def)

lemma deadLetter_ok:
  assumes "binv b" "in_flight b k e"
  shows "bsteps b (deadLetter env k e b)"
proof -
  obtain t g p off where k: "k = (t, g, p, off)" by (cases k) auto
  obtain r b1 where r: "publishToDLQLocked env t (dlqMsgOf (env_now env) k e) b = (r, b1)" by force
  have t: "touches (dlqTopicName t) b b1" by (rule publish_ok [OF assms(1) r])
  then have s: "bsteps b b1" and f: "in_flight b1 k e"
    using assms(2) by (auto simp: touches_def in_flight_def k)
  have "binv b1" by (rule bsteps_binv [OF s assms(1)])
  from finishEntry_ok [OF this f] noteEntryError_ok(1) [OF f] s r show ?thesis
    by (auto simp: deadLetter_def k split: option.split intro: rtranclp_trans)
qed

lemma quiet_tryRedeliver: "tryRedeliver now t g m chs ol start ks b = (r, b') \<Longrightarrow> quiet b b'"
proof (induction now t g m chs ol start ks b rule: tryRedeliver.induct)
  case (1 now t g m chs ol start b)
  then show ?case by simp
next
  case (2 now t g m chs ol start k ks b)
  let ?i = "(start + k) mod length chs"
  let ?l = "mdef (ackTimeout b) ol (cs_Owner (chs ! ?i))"
  obtain x s' w' where x: "ConsumeBeginLease now (msg_tenant m) t g (msg_idemKey m)
      (cs_Owner (chs ! ?i)) ?l (idem b, wal b) = (x, (s', w'))" by (metis surj_pair)
  let ?b = "b\<lparr>idem := s', wal := w'\<rparr>"
  have q: "quiet b ?b"
    using x by (intro quiet_idem [of b "OpBeginLease now (msg_tenant m) t g (msg_idemKey m)
      (cs_Owner (chs ! ?i)) ?l"]) simp
  show ?case
  proof (cases x)
    case (Inl err)
    with "2.IH" [OF refl refl refl x [symmetric] refl refl Inl] "2.prems" x q show ?thesis
      by (auto simp: Let_def split: if_splits intro: quiet_trans)
  next
    case (Inr a)
    with "2.prems" x q show ?thesis by (cases a) (auto simp: Let_def)
  qed
qed

lemma tryRedeliver_index:
  "tryRedeliver now t g m chs ol start ks b = (Picked k l d, b') \<Longrightarrow> chs \<noteq> [] \<Longrightarrow> k < length chs"
  by (induction now t g m chs ol start ks b rule: tryRedeliver.induct)
    (auto simp: Let_def split: prod.splits sum.splits if_splits)

lemma resentEntry_same [simp]:
  "stripMsg (ie_Msg (resentEntry now cs e)) = stripMsg (ie_Msg e)"
  "ie_Attempts (resentEntry now cs e) = ie_Attempts e + 1"
  by (simp_all add: resentEntry_def Let_def stripMsg_def)

lemma resend_ok:
  assumes "binv b" "in_flight b k e" "cs \<in> set (streams_of b (fst k) (fst (snd k)))"
  shows "bsteps b (resend now k cs e b)"
proof -
  obtain t g p off where k: "k = (t, g, p, off)" by (cases k) auto
  define e' where "e' = resentEntry now cs e"
  define b1 where "b1 = recordDeliveryLocked t g p (cs_Owner cs) now (putInflight t g p off e' b)"
  have u: "bsteps b (putInflight t g p off e' b)"
    by (rule update_ok [of b t g p off e]) (use assms(2) in \<open>simp_all add: k e'_def\<close>)
  moreover have q: "quiet (putInflight t g p off e' b) b1" by (simp add: b1_def quiet_book)
  ultimately have s: "bsteps b b1" by (metis quiet_bsteps rtranclp_trans)
  have ok: "entry_ok b t g p off e" using in_flight_ok assms k by blast
  have "logged b1 t (ie_Msg e')"
    unfolding logged_def quiet_obs [OF q]
    using ok by (intro exI [of _ p] exI [of _ "nat off"]) (auto simp: entry_ok_def e'_def putInflight_def)
  moreover have "cs \<in> set (streams_of b1 t g)"
    using assms(3) by (simp add: k quiet_obs [OF q]) (simp add: putInflight_def)
  ultimately have "bsteps b b2" if "trySend (cs_Ch cs) (ie_Msg e') b1 = Some b2" for b2
    using s that by (auto intro: rtranclp.rtrancl_into_rtrancl bs_send)
  with s show ?thesis
    by (auto simp: resend_def k Let_def e'_def [symmetric] b1_def [symmetric] split: option.split)
qed

lemma redeliverTo_ok:
  assumes b: "binv b" and f: "in_flight b k e"
    and chs: "chs = streams_of b (fst k) (fst (snd k))" "chs \<noteq> []"
  shows "bsteps b (redeliverTo env k chs e b)"
proof -
  obtain t g p off where k: "k = (t, g, p, off)" by (cases k) auto
  have R: "bsteps b (resend (env_now env) k (chs ! i) e (setCursor t g c b1))"
    if "quiet b b1" "i < length chs" for b1 i c
  proof -
    have q: "quiet b (setCursor t g c b1)"
      by (rule quiet_trans [OF that(1)]) (simp add: quiet_book)
    have "bsteps (setCursor t g c b1) (resend (env_now env) k (chs ! i) e (setCursor t g c b1))"
      using f chs that quiet_binv [OF q b] in_flight_quiet [OF q]
      by (intro resend_ok) (simp_all add: k quiet_obs [OF that(1)])
    with quiet_bsteps [OF q] show ?thesis by (rule rtranclp_trans)
  qed
  show ?thesis
  proof (cases "msg_idemKey (ie_Msg e) = ''''")
    case True
    then show ?thesis
      using R [OF quiet_refl, of "getCursor t g b mod length chs"] chs(2)
      by (simp add: redeliverTo_def k Let_def)
  next
    case False
    obtain r b1 where r: "tryRedeliver (env_now env) t g (ie_Msg e) chs (ownerLeaseByTopicGroupLocked t g b)
        (getCursor t g b mod length chs) [0..<length chs] b = (r, b1)" by force
    have q: "quiet b b1" by (rule quiet_tryRedeliver [OF r])
    have f1: "in_flight b1 k e" and b1: "binv b1"
      using f quiet_binv [OF q b] by (simp_all add: in_flight_quiet [OF q])
    note eqs = redeliverTo_def k Let_def False r
    show ?thesis
    proof (cases r)
      case (Picked i lease fin)
      with r chs have "i < length chs" by (auto dest: tryRedeliver_index)
      then show ?thesis
        using Picked R [OF q, of i] finishEntry_ok [OF b1 f1, of env] quiet_bsteps [OF q]
        by (auto simp: eqs intro: rtranclp_trans)
    next
      case (BeginErr err)
      then show ?thesis
        using noteEntryError_ok(1) [OF f1] quiet_bsteps [OF q] by (auto simp: eqs intro: rtranclp_trans)
    next
      case (NoneFree x)
      then show ?thesis using quiet_bsteps [OF q] by (simp add: eqs)
    qed
  qed
qed

lemma redeliverDue_ok:
  assumes b: "binv b" and f: "in_flight b k e"
    and chs: "chs = streams_of b (fst k) (fst (snd k))" "chs \<noteq> []"
  shows "bsteps b (redeliverDue env k chs e b)"
proof -
  obtain e1 b1 where m: "markTimeout (env_now env) k e b = (e1, b1)" by force
  have s1: "bsteps b b1" and f1: "in_flight b1 k e1" and c1: "consumerChans b1 = consumerChans b"
    using m f noteEntryError_ok [OF f] by (auto simp: markTimeout_def split: if_splits)
  obtain r b2 where r: "idemCommitted (env_now env) (fst k) (fst (snd k)) (ie_Msg e1) b1 = (r, b2)" by force
  have q: "quiet b1 b2" by (rule quiet_idemCommitted [OF r])
  have b2: "binv b2" using quiet_binv [OF q bsteps_binv [OF s1 b]] .
  have f2: "in_flight b2 k e1" by (simp add: in_flight_quiet [OF q] f1)
  have s2: "bsteps b b2" using s1 quiet_bsteps [OF q] by (rule rtranclp_trans)
  have chs2: "chs = streams_of b2 (fst k) (fst (snd k))"
    using chs c1 by (simp add: quiet_obs [OF q]) (simp add: streams_of_def)
  have "bsteps b2 (finishEntry env k b2)" "bsteps b2 (deadLetter env k e1 b2)"
    "bsteps b2 (redeliverTo env k chs e1 b2)"
    using finishEntry_ok [OF b2 f2] deadLetter_ok [OF b2 f2] redeliverTo_ok [OF b2 f2 chs2 chs(2)] by auto
  then show ?thesis
    using s1 s2 r m by (auto simp: redeliverDue_def Let_def split: bool.split intro: rtranclp_trans)
qed

lemma redeliverEntry_ok:
  assumes "binv b"
  shows "bsteps b (redeliverEntry env b k)"
proof -
  obtain t g p off where k: "k = (t, g, p, off)" by (cases k) auto
  have q: "quiet b (ensureCursor t b)" by (simp add: quiet_book)
  have c: "consumerChans (ensureCursor t b) = consumerChans b" by (simp add: quiet_obs [OF q])
  have D: "bsteps b (redeliverDue env k chs e (ensureCursor t b))"
    if "in_flight (ensureCursor t b) k e" "chs = streams_of (ensureCursor t b) t g" "chs \<noteq> []" for e chs
    using redeliverDue_ok [OF quiet_binv [OF q assms] that(1)] that(2,3) quiet_bsteps [OF q]
    by (auto simp: k intro: rtranclp_trans)
  show ?thesis
  proof (cases "mget (consumerChans b) t")
    case None
    then show ?thesis by (simp add: redeliverEntry_def k)
  next
    case (Some gc)
    then have "mdef [] gc g = streams_of (ensureCursor t b) t g"
      by (simp add: streams_of_def c mget2_def mdef_def split: option.split)
    with Some show ?thesis
      using D quiet_bsteps [OF q]
      by (auto simp: redeliverEntry_def k Let_def in_flight_def split: option.split)
  qed
qed

lemma ensureCursors_ok: "quiet b (ensureCursors b)"
proof -
  have "quiet b (foldl (\<lambda>b t. if mget (consumerChans b) t = None then b else ensureCursor t b) b ts)" for ts
  proof (induction ts arbitrary: b)
    case (Cons t ts)
    have "quiet b (ensureCursor t b)" by (simp add: quiet_book)
    then show ?case using Cons quiet_trans by (auto intro: quiet_trans)
  qed simp
  then show ?thesis by (simp add: ensureCursors_def)
qed

lemma redeliverExpired_ok:
  assumes "binv b"
  shows "bsteps b (redeliverExpiredLocked env visit b)"
proof -
  have "bsteps b (foldl (redeliverEntry env) b visit)" if "binv b" for b
    using that
  proof (induction visit arbitrary: b)
    case (Cons k ks)
    have "bsteps b (redeliverEntry env b k)" by (rule redeliverEntry_ok [OF Cons.prems])
    moreover from this have "bsteps (redeliverEntry env b k) (foldl (redeliverEntry env) (redeliverEntry env b k) ks)"
      by (intro Cons.IH bsteps_binv [OF _ Cons.prems])
    ultimately show ?case by simp
  qed simp
  from this [OF quiet_binv [OF ensureCursors_ok assms]] show ?thesis
    using quiet_bsteps [OF ensureCursors_ok [of b]] by (auto simp: redeliverExpiredLocked_def)
qed

section \<open>Nack\<close>

lemma nackIdem_ok:
  assumes "nackIdem now k owner reason merged e b = (e', b')"
  shows "quiet b b'" "stripMsg (ie_Msg e') = stripMsg (ie_Msg e)" "ie_Attempts e' = ie_Attempts e"
proof -
  obtain t g p off where k: "k = (t, g, p, off)" by (cases k) auto
  have F: "quiet b (b\<lparr>idem := s', wal := w'\<rparr>)"
    if "ConsumeFailIfOwner now tn t g key owner c (idem b, wal b) = (r, (s', w'))" for tn key c r s' w'
    using that by (intro quiet_idem [of _ "OpConsumeFail now tn t g key owner c"]) simp
  have N: "quiet b (noteRetryError now t g p off err (b\<lparr>idem := s', wal := w'\<rparr>))"
    if "ConsumeFailIfOwner now tn t g key owner c (idem b, wal b) = (r, (s', w'))" for tn key c r s' w' err
    by (rule quiet_trans [OF F [OF that] quiet_note])
  show "quiet b b'"
    using assms F N
    by (auto simp: nackIdem_def k Let_def split: if_splits prod.splits option.splits)
  show "stripMsg (ie_Msg e') = stripMsg (ie_Msg e)" "ie_Attempts e' = ie_Attempts e"
    using assms by (auto simp: nackIdem_def k Let_def split: if_splits prod.splits option.splits)
qed

lemma Nack_ok:
  assumes "binv b" "Nack env visit t g p off owner reason b = (r, b')"
  shows "bsteps b b'"
proof (cases "checkAckArgs t g p off = None \<and> TrimSpace owner \<noteq> ''''")
  case False
  with assms(2) have "b' = b" by (auto simp: Nack_def Let_def split: option.splits if_splits)
  then show ?thesis by simp
next
  case True
  let ?now = "env_now env" and ?rs = "if TrimSpace reason = '''' then ''nack'' else TrimSpace reason"
  obtain x b1 where x: "ownedEntry t g p off (TrimSpace owner) b = (x, b1)" by force
  have q1: "quiet b b1" using ownedEntry_cases [OF x] by blast
  show ?thesis
  proof (cases x)
    case (Inl err)
    with True assms(2) x q1 show ?thesis by (simp add: Nack_def Let_def quiet_bsteps)
  next
    case (Inr e)
    define merged where "merged = appendLastError (ie_LastError e) ?rs"
    define b2 where "b2 = putRetryState t g p off \<lparr>rs_LastError = merged, rs_LastErrorAt = ?now\<rparr> b1"
    obtain r3 b3 where a: "appendWALEntry ?now (retryEntry ?now t g p off merged) b2 = (r3, b3)" by force
    have "quiet b1 b2" by (simp add: b2_def quiet_book)
    moreover have "quiet b2 b3" by (rule quiet_wal [OF a]) (simp add: retryEntry_def zeroEntry_def)
    ultimately have q3: "quiet b b3" using q1 by (metis quiet_trans)
    obtain e1 b4 where n: "nackIdem ?now (t, g, p, off) (TrimSpace owner) ?rs merged (setEntryError merged e) b3
        = (e1, b4)" by force
    have q4: "quiet b1 b4"
      using nackIdem_ok(1) [OF n] \<open>quiet b1 b2\<close> \<open>quiet b2 b3\<close> by (metis quiet_trans)
    define e2 where "e2 = e1\<lparr>ie_NextDeliverAt := 0, ie_SentAt := ?now - nackLease t g (ie_Owner e1) b4 - millisecond\<rparr>"
    have f: "in_flight b4 (t, g, p, off) e"
      using ownedEntry_cases [OF x] Inr by (simp add: in_flight_quiet [OF q4]) (simp add: in_flight_def)
    have "bsteps b4 (putInflight t g p off e2 b4)"
      by (rule update_ok [OF f]) (use nackIdem_ok(2,3) [OF n] in \<open>simp_all add: e2_def\<close>)
    then have s: "bsteps b (putInflight t g p off e2 b4)"
      using quiet_bsteps [OF quiet_trans [OF q1 q4]] by (metis rtranclp_trans)
    have "bsteps b (redeliverExpiredLocked env visit (putInflight t g p off e2 b4))"
      by (rule rtranclp_trans [OF s redeliverExpired_ok [OF bsteps_binv [OF s assms(1)]]])
    with True assms(2) x Inr a n quiet_bsteps [OF q3] show ?thesis
      by (auto simp: Nack_def Let_def merged_def [symmetric] b2_def [symmetric] e2_def [symmetric]
          split: option.splits)
  qed
qed

section \<open>Consumers and topics\<close>

lemma consumeWith_ok:
  assumes "binv b" "t \<noteq> ''''" "g \<noteq> ''''" "owner \<noteq> ''''" "0 \<le> lease"
    and "consumeWith env t g owner lease b = (r, b')"
  shows "bsteps b b'"
proof (cases "mget (topics b) t = None")
  case True
  with assms show ?thesis by (simp add: consumeWith_def)
next
  case False
  let ?b1 = "snd (addStream t g owner lease b)"
  have "bstep b ?b1" by (rule bs_add) (use assms False in auto)
  then have "bsteps b ?b1" "binv ?b1" using assms(1) by (auto intro: bstep_binv)
  moreover from this have "bsteps ?b1 (dispatchLocked env t ?b1)"
    using dispatchLocked_ok by (simp add: disp_def)
  ultimately show ?thesis
    using assms(6) False by (auto simp: consumeWith_def split: prod.splits)
qed

lemma Consume_ok: "binv b \<Longrightarrow> Consume env t g owner b = (r, b') \<Longrightarrow> bsteps b b'"
  by (auto simp: Consume_def Let_def split: if_splits intro: consumeWith_ok)

lemma ConsumeWithLease_ok:
  assumes "binv b" "ConsumeWithLease env t g owner lease b = (r, b')"
  shows "bsteps b b'"
proof (cases "t = '''' \<or> g = '''' \<or> TrimSpace owner = ''''")
  case True
  with assms(2) have "b' = b" by (auto simp: ConsumeWithLease_def Let_def split: if_splits)
  then show ?thesis by simp
next
  case False
  then have "consumeWith env t g (TrimSpace owner) (if lease \<le> 0 then leaseDefault b else lease) b = (r, b')"
    using assms(2) by (simp add: ConsumeWithLease_def Let_def)
  then show ?thesis
    using False by (intro consumeWith_ok [OF assms(1)]) (auto simp: leaseDefault_def)
qed

lemma normalize_idem:
  assumes "normalizeTopicConfig cfg = Inr cfg'"
  shows "normalizeTopicConfig cfg' = Inr cfg'"
proof -
  have "tc_Mode cfg' = TopicModeStandard \<or> tc_Mode cfg' = TopicModeRealtime"
    using assms by (auto simp: normalizeTopicConfig_def Let_def split: if_splits)
  moreover have "ToLower (TrimSpace TopicModeStandard) = TopicModeStandard"
    "ToLower (TrimSpace TopicModeRealtime) = TopicModeRealtime"
    by (simp_all add: ToLower_def TrimSpace_def is_space_def char_lower_def)
  ultimately show ?thesis by (auto simp: normalizeTopicConfig_def Let_def)
qed

lemma CreateTopic_ok:
  assumes "CreateTopicWithConfig now t n cfg0 b = (r, b')" "n < 2 ^ 32"
  shows "bsteps b b'"
proof (cases "t = '''' \<or> n \<le> 0 \<or> mget (topics b) t \<noteq> None")
  case True
  with assms(1) have "b' = b"
    by (auto simp: CreateTopicWithConfig_def split: if_splits sum.splits)
  then show ?thesis by simp
next
  case False
  show ?thesis
  proof (cases "normalizeTopicConfig cfg0")
    case (Inl err)
    with False assms(1) show ?thesis by (auto simp: CreateTopicWithConfig_def)
  next
    case (Inr cfg)
    let ?T = "mput t (newTopicState n cfg) (topics b)"
    have cr: "createTopicLockedWithConfig t n cfg b = (None, b\<lparr>topics := ?T\<rparr>)"
      using False normalize_idem [OF Inr] by (simp add: createTopicLockedWithConfig_def)
    obtain r1 b1 where a: "appendWALEntry now (topicEntry t n cfg) b = (r1, b1)" by force
    then have a': "appendWALEntry now (topicEntry t n cfg) (b\<lparr>topics := ?T\<rparr>) = (r1, b1\<lparr>topics := ?T\<rparr>)"
      by (auto simp: appendWALEntry_def split: option.splits prod.splits)
    have tb1: "topics b1 = topics b" using appendWALEntry_wal [OF a] by auto
    have undo: "b1\<lparr>topics := mdel t ?T\<rparr> = b1"
      using False tb1 by (simp add: mdel_mput_new)
    show ?thesis
    proof (cases r1)
      case None
      then have "bstep b (b1\<lparr>topics := mput t (newTopicState n cfg) (topics b1)\<rparr>)"
        using False assms(2) normalize_idem [OF Inr] a by (intro bs_create_logged [of t n b cfg now]) auto
      with assms(1) False Inr cr a' None tb1 show ?thesis by (auto simp: CreateTopicWithConfig_def)
    next
      case (Some err)
      with a have "bstep b b1" by (auto intro: bs_wal_fail)
      with assms(1) False Inr cr a' Some undo show ?thesis by (auto simp: CreateTopicWithConfig_def)
    qed
  qed
qed

section \<open>The public operations as one step function\<close>

datatype broker_op =
    OpCreateTopic gotime string int topicConfig
  | OpProduce renv string message
  | OpConsume renv string string string
  | OpConsumeWithLease renv string string string duration
  | OpDisconnect string string nat
  | OpRecv nat
  | OpAck renv string string int int
  | OpAckIfOwner renv string string int int string
  | OpAckCumulative renv string string int int string
  | OpNack renv "inflightKey list" string string int int string string
  | OpRedeliver renv "inflightKey list"
  | OpFlush gotime
  | OpIdem idem_op

fun broker_step :: "router option \<Rightarrow> broker \<Rightarrow> broker_op \<Rightarrow> broker" where
  "broker_step router b (OpCreateTopic now t n cfg) = snd (CreateTopicWithConfig now t n cfg b)"
| "broker_step router b (OpProduce env t m) = snd (Produce router env t m b)"
| "broker_step router b (OpConsume env t g ow) = snd (Consume env t g ow b)"
| "broker_step router b (OpConsumeWithLease env t g ow lease) = snd (ConsumeWithLease env t g ow lease b)"
| "broker_step router b (OpDisconnect t g ch) = disconnect t g ch b"
| "broker_step router b (OpRecv ch) = snd (recv ch b)"
| "broker_step router b (OpAck env t g p off) = snd (Ack env t g p off b)"
| "broker_step router b (OpAckIfOwner env t g p off ow) = snd (AckIfOwner env t g p off ow b)"
| "broker_step router b (OpAckCumulative env t g p off ow) = snd (AckCumulativeIfOwner env t g p off ow b)"
| "broker_step router b (OpNack env visit t g p off ow reason) = snd (Nack env visit t g p off ow reason b)"
| "broker_step router b (OpRedeliver env visit) = redeliverExpiredLocked env visit b"
| "broker_step router b (OpFlush now) = snd (flushPendingOffsets now b)"
| "broker_step router b (OpIdem x) =
     (case idem_step (idem b, wal b) x of (s', w') \<Rightarrow> b\<lparr>idem := s', wal := w'\<rparr>)"

text \<open>\<open>pickPartition\<close> reduces modulo the partition count as an unsigned 32-bit number.\<close>

fun op_ok :: "broker_op \<Rightarrow> bool" where
  "op_ok (OpCreateTopic now t n cfg) = (n < 2 ^ 32)"
| "op_ok x = True"

theorem broker_step_bsteps:
  assumes "binv b" "op_ok x"
  shows "bsteps b (broker_step router b x)"
proof (cases x)
  case (OpCreateTopic now t n cfg)
  with assms show ?thesis using CreateTopic_ok by (metis broker_step.simps(1) op_ok.simps(1) prod.collapse)
next
  case (OpFlush now)
  then show ?thesis using bs_flush by (metis broker_step.simps(12) prod.collapse r_into_rtranclp)
next
  case (OpIdem y)
  then show ?thesis using bs_idem [of b y] by (auto split: prod.split)
next
  case (OpProduce env t m)
  with Produce_ok [OF assms(1)] show ?thesis by (metis broker_step.simps(2) prod.collapse)
next
  case (OpConsume env t g ow)
  with Consume_ok [OF assms(1)] show ?thesis by (metis broker_step.simps(3) prod.collapse)
next
  case (OpConsumeWithLease env t g ow l)
  with ConsumeWithLease_ok [OF assms(1)] show ?thesis by (metis broker_step.simps(4) prod.collapse)
next
  case (OpAck env t g p off)
  with Ack_ok [OF assms(1)] show ?thesis by (metis broker_step.simps(7) prod.collapse)
next
  case (OpAckIfOwner env t g p off ow)
  with AckIfOwner_ok [OF assms(1)] show ?thesis by (metis broker_step.simps(8) prod.collapse)
next
  case (OpAckCumulative env t g p off ow)
  with AckCumulative_ok [OF assms(1)] show ?thesis by (metis broker_step.simps(9) prod.collapse)
next
  case (OpNack env visit t g p off ow reason)
  with Nack_ok [OF assms(1)] show ?thesis by (metis broker_step.simps(10) prod.collapse)
qed (auto intro: bs_disconnect bs_recv redeliverExpired_ok assms(1))

interpretation broker_sys: transition_system "broker_step router" op_ok
  "\<lambda>b b'. binv b \<longrightarrow> binv b' \<and> bsteps b b'" for router
proof unfold_locales
  fix x b assume "op_ok x"
  then show "binv b \<longrightarrow> binv (broker_step router b x) \<and> bsteps b (broker_step router b x)"
    using broker_step_bsteps bsteps_binv by blast
qed (auto intro: rtranclp_trans)

lemma init_obs:
  "topics (NewInMemoryBrokerWithOptions w opts) = []" "inFlight (NewInMemoryBrokerWithOptions w opts) = []"
  "consumerOffsets (NewInMemoryBrokerWithOptions w opts) = []"
  "nextIndex (NewInMemoryBrokerWithOptions w opts) = []"
  "consumerChans (NewInMemoryBrokerWithOptions w opts) = []" "chans (NewInMemoryBrokerWithOptions w opts) = []"
  "pendingOffsets (NewInMemoryBrokerWithOptions w opts) = []" "wal (NewInMemoryBrokerWithOptions w opts) = w"
  "idem (NewInMemoryBrokerWithOptions w opts) = NewIdempotencyStore (10 * minute)"
  "retryState (NewInMemoryBrokerWithOptions w opts) = []"
proof -
  have "topics b = [] \<and> inFlight b = [] \<and> consumerOffsets b = [] \<and> nextIndex b = [] \<and> consumerChans b = []
      \<and> chans b = [] \<and> pendingOffsets b = [] \<and> wal b = w \<and> idem b = NewIdempotencyStore (10 * minute)
      \<and> retryState b = []"
    if "b = foldl applyBrokerOption (NewInMemoryBroker w) opts" for b
    using that
  proof (induction opts arbitrary: b rule: rev_induct)
    case Nil
    then show ?case by (simp add: NewInMemoryBroker_def)
  next
    case (snoc x xs)
    then show ?case by (cases x) simp_all
  qed
  from this [OF refl]
  show "topics (NewInMemoryBrokerWithOptions w opts) = []" "inFlight (NewInMemoryBrokerWithOptions w opts) = []"
    "consumerOffsets (NewInMemoryBrokerWithOptions w opts) = []"
    "nextIndex (NewInMemoryBrokerWithOptions w opts) = []"
    "consumerChans (NewInMemoryBrokerWithOptions w opts) = []" "chans (NewInMemoryBrokerWithOptions w opts) = []"
    "pendingOffsets (NewInMemoryBrokerWithOptions w opts) = []" "wal (NewInMemoryBrokerWithOptions w opts) = w"
    "idem (NewInMemoryBrokerWithOptions w opts) = NewIdempotencyStore (10 * minute)"
    "retryState (NewInMemoryBrokerWithOptions w opts) = []"
    by (auto simp: NewInMemoryBrokerWithOptions_def)
qed

lemma binv_init: "binv (NewInMemoryBrokerWithOptions w opts)"
  by (simp add: binv_def inv_defs init_obs part_log_def inflight_of_def committed_def streams_of_def
      idem_wf_def NewIdempotencyStore_def)

lemma binv_run:
  "list_all op_ok xs \<Longrightarrow> binv b \<Longrightarrow> binv (run_ops (broker_step router) b xs)"
  "list_all op_ok xs \<Longrightarrow> binv b \<Longrightarrow> bsteps b (run_ops (broker_step router) b xs)"
  using broker_sys.rel_run [of xs b router] by auto

end
