(* ===== verification/Durability.thy ===== *)
theory Durability
  imports BrokerRefine
begin

text \<open>
  What a restart recovers.  \<open>recovers b b0\<close> relates the state \<open>b\<close> of a running broker to the
  state \<open>b0\<close> a new process builds from the log alone; \<open>durable b\<close> says that replaying the
  entries now in the log of \<open>b\<close> succeeds and gives such a state.  Every atomic step of the
  broker keeps \<open>durable\<close>, for a log in strict mode on a disk whose writes may fail but whose
  fsync does not.
\<close>

section \<open>What the log keeps of a message\<close>

definition persistMsg :: "message \<Rightarrow> message" where
  "persistMsg m = messageFromEntry (messageEntry '''' m)"

lemma messageEntry_simps [simp]:
  "e_Type (messageEntry t m) = RecordTypeMessage" "e_Topic (messageEntry t m) = t"
  "e_Partition (messageEntry t m) = msg_Partition m" "e_Offset (messageEntry t m) = msg_Offset m"
  "e_Key (messageEntry t m) = msg_Key m" "e_Value (messageEntry t m) = msg_Value m"
  by (simp_all add: messageEntry_def Let_def zeroEntry_def split: option.split)

lemma messageFromEntry_messageEntry: "messageFromEntry (messageEntry t m) = persistMsg m"
proof -
  have "messageEntry t m = (messageEntry '''' m)\<lparr>e_Topic := t\<rparr>"
    by (simp add: messageEntry_def Let_def zeroEntry_def split: option.split)
  then show ?thesis
    by (simp add: persistMsg_def messageFromEntry_def envelopeFromEntry_def hasEnvelope_def hasRetry_def hasDLQ_def)
qed

lemma persistMsg_simps [simp]:
  "msg_Offset (persistMsg m) = msg_Offset m" "msg_Partition (persistMsg m) = msg_Partition m"
  "msg_Key (persistMsg m) = msg_Key m" "msg_Value (persistMsg m) = msg_Value m"
  by (simp_all add: persistMsg_def messageFromEntry_def)

lemma msg_size_persist [simp]: "msg_size (persistMsg m) = msg_size m"
  by (simp add: msg_size_def)

section \<open>The relation\<close>

definition cw :: "idemStore \<Rightarrow> idempotencyKey \<Rightarrow> bytes \<Rightarrow> bool" where
  "cw s k r \<longleftrightarrow> (case mget (idem_items s) k of
     None \<Rightarrow> False | Some st \<Rightarrow> st_Status st = IdemStatusCommitted \<and> st_Result st = r)"

lemma cw_iff:
  "cw s k r \<longleftrightarrow> (\<exists>st. mget (idem_items s) k = Some st \<and> st_Status st = IdemStatusCommitted \<and> st_Result st = r)"
  by (simp add: cw_def split: option.split)

definition rec_logs :: "broker \<Rightarrow> broker \<Rightarrow> bool" where
  "rec_logs b b0 \<longleftrightarrow> (\<forall>t p. part_log b0 t p = map persistMsg (part_log b t p))"

definition rec_topics :: "broker \<Rightarrow> broker \<Rightarrow> bool" where
  "rec_topics b b0 \<longleftrightarrow> inv_topics b0
     \<and> (\<forall>t ts0. mget (topics b0) t = Some ts0 \<longrightarrow> (\<exists>ts. mget (topics b) t = Some ts
          \<and> length (ts_partitions ts0) \<le> length (ts_partitions ts) \<and> ts_Config ts0 = ts_Config ts))
     \<and> (\<forall>t ts. mget (topics b) t = Some ts \<and> \<not> HasPrefix t ''dlq.'' \<longrightarrow>
          (\<exists>ts0. mget (topics b0) t = Some ts0 \<and> length (ts_partitions ts0) = length (ts_partitions ts)))
     \<and> (\<forall>t ts. mget (topics b) t = Some ts \<and> mget (topics b0) t = None \<longrightarrow>
          ts_Config ts = \<lparr>tc_Mode = TopicModeStandard\<rparr>)"

definition rec_offsets :: "broker \<Rightarrow> broker \<Rightarrow> bool" where
  "rec_offsets b b0 \<longleftrightarrow> (\<forall>t g p. -1 \<le> committed b0 t g p
     \<and> committed b t g p = max (committed b0 t g p) (mdef (-1) (pendingOffsets b) (t, g, p)))"

definition rec_idem :: "broker \<Rightarrow> broker \<Rightarrow> bool" where
  "rec_idem b b0 \<longleftrightarrow> idem_wf (idem b0)
     \<and> (\<forall>tn t g k r. t \<noteq> '''' \<and> g \<noteq> '''' \<and> k \<noteq> '''' \<longrightarrow>
          cw (idem b0) (consumeKey tn t g k) r = cw (idem b) (consumeKey tn t g k) r)"

definition idle :: "broker \<Rightarrow> bool" where
  "idle b \<longleftrightarrow> inFlight b = [] \<and> nextIndex b = [] \<and> consumerChans b = [] \<and> chans b = []
     \<and> pendingOffsets b = []"

definition recovers :: "broker \<Rightarrow> broker \<Rightarrow> bool" where
  "recovers b b0 \<longleftrightarrow> rec_logs b b0 \<and> rec_topics b b0 \<and> rec_offsets b b0 \<and> rec_idem b b0 \<and> idle b0"

definition log_entries :: "broker \<Rightarrow> entry list" where
  "log_entries b = (case wal b of None \<Rightarrow> [] | Some w \<Rightarrow> lines_entries (wal_file w))"

definition log_sound :: "broker \<Rightarrow> bool" where
  "log_sound b \<longleftrightarrow> (\<exists>w. wal b = Some w \<and> wal_sound w \<and> wal_file w = map Line (log_entries b))"

definition durable :: "broker \<Rightarrow> bool" where
  "durable b \<longleftrightarrow> log_sound b \<and> mwf (pendingOffsets b)
     \<and> (\<forall>now w' opts. \<exists>b0. replayEntries now (log_entries b) (NewInMemoryBrokerWithOptions w' opts) = Inr b0
          \<and> recovers b b0)"

lemma log_cong: "wal b' = wal b \<Longrightarrow> log_entries b' = log_entries b \<and> log_sound b' = log_sound b"
  by (simp add: log_entries_def log_sound_def)

lemma log_pending [simp]:
  "log_entries (b\<lparr>pendingOffsets := P\<rparr>) = log_entries b" "log_sound (b\<lparr>pendingOffsets := P\<rparr>) = log_sound b"
  using log_cong [of "b\<lparr>pendingOffsets := P\<rparr>" b] by simp_all

lemma replayEntries_snoc:
  "replayEntries now (es @ [e]) b =
     (case replayEntries now es b of Inl err \<Rightarrow> Inl err | Inr b' \<Rightarrow> replayEntry now e b')"
  by (induction es arbitrary: b) (auto split: sum.splits)

text \<open>The two ways an append changes the log.\<close>

lemma append_ok_log:
  assumes "appendWALEntry now e b = (r, b')" "log_sound b"
  shows "log_sound b' \<and> log_entries b' = (if r = None then log_entries b @ [e] else log_entries b)"
proof -
  obtain w where w: "wal b = Some w" "wal_sound w" "wal_file w = map Line (log_entries b)"
    using assms(2) by (auto simp: log_sound_def)
  obtain w' where ap: "FileWAL_Append now e w = (r, w')" and b': "b' = b\<lparr>wal := Some w'\<rparr>"
    using assms(1) w(1) by (auto simp: appendWALEntry_def split: prod.splits)
  from Append_sound [OF ap w(2)] have s: "wal_sound w'"
    and f: "wal_file w' = (if r = None then wal_file w @ [Line e] else wal_file w)" by auto
  have le: "log_entries b' = (if r = None then log_entries b @ [e] else log_entries b)"
    using f w by (simp add: log_entries_def b')
  then have "log_sound b'" using s f w(3) by (simp add: log_sound_def b')
  with le show ?thesis by simp
qed

text \<open>A step that leaves the log alone, or adds one entry.\<close>

lemma durable_same:
  assumes "durable b" "log_sound b'" "log_entries b' = log_entries b" "mwf (pendingOffsets b')"
    and "\<And>b0. recovers b b0 \<Longrightarrow> recovers b' b0"
  shows "durable b'"
  using assms unfolding durable_def by metis

lemma durable_add:
  assumes "durable b" "log_sound b'" "log_entries b' = log_entries b @ [e]" "mwf (pendingOffsets b')"
    and "\<And>now b0. recovers b b0 \<Longrightarrow> \<exists>b1. replayEntry now e b0 = Inr b1 \<and> recovers b' b1"
  shows "durable b'"
  unfolding durable_def
proof (intro conjI allI)
  fix now w' opts
  obtain b0 where "replayEntries now (log_entries b) (NewInMemoryBrokerWithOptions w' opts) = Inr b0"
    "recovers b b0" using assms(1) unfolding durable_def by metis
  with assms(3,5) show "\<exists>b0. replayEntries now (log_entries b') (NewInMemoryBrokerWithOptions w' opts) = Inr b0
      \<and> recovers b' b0"
    by (simp add: replayEntries_snoc)
qed (use assms in auto)

section \<open>Replaying one entry\<close>

lemmas recovers_defs = recovers_def rec_logs_def rec_topics_def rec_offsets_def rec_idem_def idle_def

lemma recovers_cong:
  assumes "topics b' = topics b" "idem b' = idem b" "pendingOffsets b' = pendingOffsets b"
    and "\<And>t g p. committed b' t g p = committed b t g p"
  shows "recovers b' b0 = recovers b b0"
  using assms by (simp add: recovers_defs part_log_def)

lemma recovers_retry:
  assumes "recovers b b0" "e_Type e = RecordTypeRetryState"
  shows "\<exists>b1. replayEntry now e b0 = Inr b1 \<and> recovers b b1"
proof -
  have "replayEntry now e b0 = Inr (replayRetryState e b0)" using assms(2) by (simp add: replayEntry_def)
  moreover have "recovers b (replayRetryState e b0)"
    using assms(1) by (simp add: recovers_defs replayRetryState_def putRetryState_def inv_topics_def)
  ultimately show ?thesis by blast
qed

subsection \<open>Messages\<close>

definition grown :: "broker \<Rightarrow> string \<Rightarrow> int \<Rightarrow> topicState" where
  "grown b0 t p = growTopic (p + 1) (case mget (topics b0) t of None \<Rightarrow> emptyTopic | Some ts \<Rightarrow> ts)"

lemma growTopic_partitions:
  "i < length (ts_partitions (growTopic n ts)) \<Longrightarrow> ts_partitions (growTopic n ts) ! i =
     (if i < length (ts_partitions ts) then ts_partitions ts ! i else [])"
  "length (ts_partitions (growTopic n ts)) = max (length (ts_partitions ts)) (nat n)"
  by (auto simp: growTopic_def nth_append)

lemma grown_wf:
  assumes "inv_topics b0" "0 \<le> p" "p + 1 < 2 ^ 32"
  shows "ts_wf (grown b0 t p)"
proof -
  have wf: "ts_partitions ts \<noteq> [] \<or> ts = emptyTopic \<Longrightarrow>
      (\<forall>i < length (ts_partitions ts). ts_byteSums ts ! i = prefix_sums (ts_partitions ts ! i)
        \<and> (\<forall>j < length (ts_partitions ts ! i). msg_Offset (ts_partitions ts ! i ! j) = int j
            \<and> msg_Partition (ts_partitions ts ! i ! j) = int i)) \<Longrightarrow>
      length (ts_byteSums ts) = length (ts_partitions ts) \<Longrightarrow> length (ts_partitions ts) < 2 ^ 32 \<Longrightarrow>
      ts_wf (growTopic (p + 1) ts)" for ts
    using assms(2,3) by (auto simp: ts_wf_def growTopic_def nth_append)
  show ?thesis
  proof (cases "mget (topics b0) t")
    case None
    then show ?thesis using assms wf [of emptyTopic] by (simp add: grown_def emptyTopic_def)
  next
    case (Some ts)
    then have "ts_wf ts" using assms(1) by (simp add: inv_topics_def)
    then show ?thesis using Some wf [of ts] by (simp add: grown_def ts_wf_def)
  qed
qed

lemma grown_log:
  assumes "0 \<le> p" "0 \<le> p'" "p' < int (length (ts_partitions (grown b0 t p)))"
  shows "ts_partitions (grown b0 t p) ! nat p' = part_log b0 t p'"
  using assms by (auto simp: grown_def growTopic_partitions part_log_def emptyTopic_def split: option.split)

lemma part_log_beyond:
  "p' < 0 \<or> int (length (ts_partitions (grown b0 t p))) \<le> p' \<Longrightarrow> part_log b0 t p' = []"
  by (auto simp: part_log_def grown_def growTopic_partitions split: option.split)

lemma replayMessage_eq:
  assumes "0 \<le> msg_Partition m" "msg_Offset m = int (length (part_log b0 t (msg_Partition m)))"
  shows "replayEntry now (messageEntry t m) b0 = Inr (b0\<lparr>
      idem := commitReplayed now (messageEntry t m) (persistMsg m) (idem b0),
      topics := mput t (ts_append (nat (msg_Partition m)) (persistMsg m) (grown b0 t (msg_Partition m))) (topics b0)\<rparr>)"
proof -
  let ?g = "grown b0 t (msg_Partition m)"
  have "msg_Partition m < int (length (ts_partitions ?g))"
    using assms(1) by (simp add: grown_def growTopic_partitions)
  then have "ts_partitions ?g ! nat (msg_Partition m) = part_log b0 t (msg_Partition m)"
    using assms(1) by (simp add: grown_log)
  then show ?thesis
    using assms
    by (simp add: replayEntry_def replayMessage_def Let_def grown_def [symmetric] messageFromEntry_messageEntry)
qed

lemma part_log_replayed:
  assumes "0 \<le> p"
  shows "part_log (b0\<lparr>idem := s, topics := mput t (ts_append (nat p) m (grown b0 t p)) (topics b0)\<rparr>) t' p' =
    (if t' = t \<and> p' = p then part_log b0 t p @ [m] else part_log b0 t' p')"
proof -
  have len: "p < int (length (ts_partitions (grown b0 t p)))"
    using assms by (simp add: grown_def growTopic_partitions)
  then have p: "ts_partitions (grown b0 t p) ! nat p = part_log b0 t p" using assms by (simp add: grown_log)
  show ?thesis
  proof (cases "t' = t")
    case False
    then show ?thesis by (simp add: part_log_def)
  next
    case True
    then show ?thesis
      using assms len p part_log_beyond [of p' b0 t p] grown_log [OF assms, of p' b0 t]
      by (auto simp: part_log_def [of "b0\<lparr>idem := s, topics := _\<rparr>"] ts_append_def nth_list_update not_less)
  qed
qed

lemma cw_put:
  "cw (s\<lparr>idem_items := mput k st (idem_items s)\<rparr>) k' r =
     (if k' = k then st_Status st = IdemStatusCommitted \<and> st_Result st = r else cw s k' r)"
  by (auto simp: cw_iff)

lemma idem_wf_put [simp]: "idem_wf s \<Longrightarrow> idem_wf (s\<lparr>idem_items := mput k st (idem_items s)\<rparr>)"
  by (simp add: idem_wf_def)

lemma commitReplayed_simps [simp]:
  "cw (commitReplayed now e m s) (consumeKey tn t g k) r = cw s (consumeKey tn t g k) r"
  "idem_wf s \<Longrightarrow> idem_wf (commitReplayed now e m s)"
  by (auto simp: commitReplayed_def Commit_def cw_put)

lemma rec_topicsD:
  "rec_topics b b0 \<Longrightarrow> mget (topics b0) t = Some ts0 \<Longrightarrow> mget (topics b) t = Some ts \<Longrightarrow>
     length (ts_partitions ts0) \<le> length (ts_partitions ts) \<and> ts_Config ts0 = ts_Config ts
     \<and> (\<not> HasPrefix t ''dlq.'' \<longrightarrow> length (ts_partitions ts0) = length (ts_partitions ts))"
  "rec_topics b b0 \<Longrightarrow> mget (topics b0) t = None \<Longrightarrow> mget (topics b) t = Some ts \<Longrightarrow>
     HasPrefix t ''dlq.'' \<and> ts_Config ts = \<lparr>tc_Mode = TopicModeStandard\<rparr>"
  "rec_topics b b0 \<Longrightarrow> mget (topics b) t = None \<Longrightarrow> mget (topics b0) t = None"
  unfolding rec_topics_def by (fastforce, fastforce, metis option.distinct(1) option.exhaust)

lemma recovers_message:
  assumes r: "recovers b b0" and b: "binv b" and ts: "mget (topics b) t = Some ts"
    and p: "0 \<le> p" "p < int (length (ts_partitions ts))" "msg_Partition m = p"
    and off: "msg_Offset m = int (length (ts_partitions ts ! nat p))"
  shows "\<exists>b1. replayEntry now (messageEntry t m) b0 = Inr b1
    \<and> recovers (b\<lparr>topics := mput t (ts_append (nat p) m ts) (topics b)\<rparr>) b1"
proof -
  let ?b = "b\<lparr>topics := mput t (ts_append (nat p) m ts) (topics b)\<rparr>"
  let ?g = "grown b0 t p"
  let ?b1 = "b0\<lparr>idem := commitReplayed now (messageEntry t m) (persistMsg m) (idem b0),
      topics := mput t (ts_append (nat p) (persistMsg m) ?g) (topics b0)\<rparr>"
  have log: "part_log b t p = ts_partitions ts ! nat p" using ts p by (simp add: part_log_def)
  then have "length (part_log b0 t p) = length (ts_partitions ts ! nat p)"
    using r by (simp add: recovers_def rec_logs_def)
  then have "replayEntry now (messageEntry t m) b0 = Inr ?b1"
    using p off replayMessage_eq [of m b0 t now] by simp
  moreover have "rec_logs ?b ?b1"
    using r ts p by (simp add: recovers_def rec_logs_def part_log_append part_log_replayed)
  moreover have "rec_topics ?b ?b1"
  proof -
    have small: "length (ts_partitions ts) < 2 ^ 32" "t \<noteq> ''''"
      using b ts by (auto simp: binv_def inv_topics_def ts_wf_def)
    have rt: "rec_topics b b0" using r by (simp add: recovers_def)
    have len: "length (ts_partitions ?g) \<le> length (ts_partitions ts)"
      and cfg: "ts_Config ?g = ts_Config ts"
      and eq: "\<not> HasPrefix t ''dlq.'' \<Longrightarrow> length (ts_partitions ?g) = length (ts_partitions ts)"
      using rec_topicsD(1,2) [OF rt _ ts] p(1,2)
      by (auto simp: grown_def growTopic_partitions emptyTopic_def growTopic_def split: option.splits)
    have wf: "ts_wf ?g" using rt p small by (intro grown_wf) (auto simp: rec_topics_def)
    have gp: "nat p < length (ts_partitions ?g)" using p(1) by (simp add: grown_def growTopic_partitions)
    then have pl: "ts_partitions ?g ! nat p = part_log b0 t p" using p(1) by (intro grown_log) auto
    have "ts_wf (ts_append (nat p) (persistMsg m) ?g)"
      using gp pl p off \<open>length (part_log b0 t p) = _\<close> by (intro ts_wf_append [OF wf]) auto
    then have "inv_topics ?b1" using rt small by (auto simp: rec_topics_def inv_topics_def)
    with rt ts len cfg eq show ?thesis
      by (auto simp: rec_topics_def ts_append_def)
  qed
  moreover have "rec_offsets ?b ?b1" "rec_idem ?b ?b1" "idle ?b1"
    using r by (auto simp: recovers_defs)
  ultimately show ?thesis by (auto simp: recovers_def)
qed

lemma newTopicState_Config [simp]: "ts_Config (newTopicState n cfg) = cfg"
  by (simp add: newTopicState_def)

lemma recovers_topic:
  assumes r: "recovers b b0" and new: "mget (topics b) t = None" and n: "t \<noteq> ''''" "0 < n" "n < 2 ^ 32"
    and cfg: "normalizeTopicConfig cfg = Inr cfg"
  shows "\<exists>b1. replayEntry now (topicEntry t n cfg) b0 = Inr b1
    \<and> recovers (b\<lparr>topics := mput t (newTopicState n cfg) (topics b)\<rparr>) b1"
proof -
  let ?b1 = "b0\<lparr>topics := mput t (newTopicState n cfg) (topics b0)\<rparr>"
  have new0: "mget (topics b0) t = None"
    using r new rec_topicsD(3) unfolding recovers_def by blast
  have nrm: "normalizeTopicConfig \<lparr>tc_Mode = tc_Mode cfg\<rparr> = Inr cfg" using cfg by (cases cfg) simp
  have "replayEntry now (topicEntry t n cfg) b0 = Inr ?b1"
    using n new0 nrm
    by (simp add: replayEntry_def topicEntry_def zeroEntry_def replayTopic_def createTopicLockedWithConfig_def)
  moreover have "recovers (b\<lparr>topics := mput t (newTopicState n cfg) (topics b)\<rparr>) ?b1"
    using r new new0 n
    by (auto simp: recovers_defs part_log_new inv_topics_def ts_wf_new)
  ultimately show ?thesis by blast
qed

lemma recovers_new_dlq:
  assumes "recovers b b0" "mget (topics b) t = None" "HasPrefix t ''dlq.''"
  shows "recovers (b\<lparr>topics := mput t (newTopicState n \<lparr>tc_Mode = TopicModeStandard\<rparr>) (topics b)\<rparr>) b0"
proof -
  have "mget (topics b0) t = None"
    using assms rec_topicsD(3) unfolding recovers_def by blast
  with assms show ?thesis
    by (auto simp: recovers_defs part_log_new)
qed

subsection \<open>Offsets\<close>

lemma replayOffset_committed:
  "committed (replayOffset e b0) t g p =
     (if (t, g, p) = (e_Topic e, e_Group e, e_Partition e) \<and> mget3 (consumerOffsets b0) t g p \<noteq> None
      then max (e_Offset e) (committed b0 t g p)
      else if (t, g, p) = (e_Topic e, e_Group e, e_Partition e) then e_Offset e
      else committed b0 t g p)"
  by (auto simp: replayOffset_def Let_def committed_def split: option.split)

lemma replayOffset_frame [simp]:
  "topics (replayOffset e b0) = topics b0" "idem (replayOffset e b0) = idem b0"
  "idle (replayOffset e b0) = idle b0"
  by (simp_all add: replayOffset_def Let_def ensureOffsets_def idle_def split: option.split)

lemma replayOffset_rec [simp]:
  "rec_logs b (replayOffset e b0) = rec_logs b b0" "rec_topics b (replayOffset e b0) = rec_topics b b0"
  "rec_idem b (replayOffset e b0) = rec_idem b b0"
  by (simp_all add: rec_logs_def part_log_def rec_topics_def inv_topics_def rec_idem_def)

text \<open>Recovery of the offsets when the entries \<open>Q\<close> are still queued.\<close>

definition rec_with :: "broker \<Rightarrow> (offsetFlushKey \<Rightarrow> int) \<Rightarrow> broker \<Rightarrow> bool" where
  "rec_with b Q b0 \<longleftrightarrow> rec_logs b b0 \<and> rec_topics b b0 \<and> rec_idem b b0 \<and> idle b0
     \<and> (\<forall>t g p. -1 \<le> committed b0 t g p \<and> committed b t g p = max (committed b0 t g p) (Q (t, g, p)))"

lemma recovers_with: "recovers b b0 = rec_with b (mdef (-1) (pendingOffsets b)) b0"
  by (auto simp: recovers_def rec_with_def rec_offsets_def)

lemma rec_with_offset:
  assumes "rec_with b Q b0" "-1 \<le> Q k"
  shows "\<exists>b1. replayEntry now (offsetEntry k (Q k)) b0 = Inr b1 \<and> rec_with b (Q(k := -1)) b1"
proof -
  let ?e = "offsetEntry k (Q k)"
  obtain t g p where k: "k = (t, g, p)" by (cases k) auto
  have e: "e_Topic ?e = t" "e_Group ?e = g" "e_Partition ?e = p" "e_Offset ?e = Q k"
    "e_Type ?e = RecordTypeOffset" by (simp_all add: offsetEntry_def zeroEntry_def k)
  have c: "committed b0 t g p = -1" if "mget3 (consumerOffsets b0) t g p = None"
    using that by (simp add: committed_def)
  have rc: "committed (replayOffset ?e b0) t' g' p' =
      (if (t', g', p') = k then max (Q k) (committed b0 t' g' p') else committed b0 t' g' p')" for t' g' p'
    unfolding replayOffset_committed unfolding e unfolding k using assms(2) [unfolded k] c
    by (cases "mget3 (consumerOffsets b0) t g p"; cases "(t', g', p') = (t, g, p)") auto
  have "-1 \<le> committed (replayOffset ?e b0) t' g' p' \<and>
      committed b t' g' p' = max (committed (replayOffset ?e b0) t' g' p') ((Q(k := -1)) (t', g', p'))" for t' g' p'
  proof -
    have "-1 \<le> committed b0 t' g' p' \<and> committed b t' g' p' = max (committed b0 t' g' p') (Q (t', g', p'))"
      using assms(1) by (simp add: rec_with_def)
    then show ?thesis unfolding rc by (cases "(t', g', p') = k") auto
  qed
  with assms(1) have "rec_with b (Q(k := -1)) (replayOffset ?e b0)"
    unfolding rec_with_def replayOffset_rec replayOffset_frame by blast
  moreover have "replayEntry now ?e b0 = Inr (replayOffset ?e b0)" by (simp add: replayEntry_def e)
  ultimately show ?thesis by blast
qed

text \<open>\<open>flushLoop\<close> from the point where the keys \<open>ks\<close> are still to be written.\<close>

definition flush_inv :: "(offsetFlushKey, int) gomap \<Rightarrow> offsetFlushKey list \<Rightarrow> broker \<Rightarrow> bool" where
  "flush_inv pending ks b \<longleftrightarrow> log_sound b \<and> pendingOffsets b = []
     \<and> (\<forall>now w' opts. \<exists>b0. replayEntries now (log_entries b) (NewInMemoryBrokerWithOptions w' opts) = Inr b0
          \<and> rec_with b (\<lambda>k. if k \<in> set ks then mdef (-1) pending k else -1) b0)"

lemma requeue_lookup:
  "distinct ks \<Longrightarrow> (\<And>k. k \<in> set ks \<Longrightarrow> mget (pendingOffsets b) k = None) \<Longrightarrow>
     \<exists>P. requeueOffsets pending ks b = b\<lparr>pendingOffsets := P\<rparr>
       \<and> (mwf (pendingOffsets b) \<longrightarrow> mwf P)
       \<and> (\<forall>k. mget P k = (if k \<in> set ks then Some (mdef 0 pending k) else mget (pendingOffsets b) k))"
proof (induction ks arbitrary: b)
  case Nil
  show ?case by (rule exI [of _ "pendingOffsets b"]) simp
next
  case (Cons k ks)
  let ?Q = "mput k (mdef 0 pending k) (pendingOffsets b)"
  obtain P where "requeueOffsets pending ks (b\<lparr>pendingOffsets := ?Q\<rparr>) = b\<lparr>pendingOffsets := P\<rparr>"
    "mwf ?Q \<longrightarrow> mwf P"
    "\<forall>k'. mget P k' = (if k' \<in> set ks then Some (mdef 0 pending k') else mget ?Q k')"
  proof -
    have "mget (pendingOffsets (b\<lparr>pendingOffsets := ?Q\<rparr>)) k' = None" if "k' \<in> set ks" for k'
      using Cons.prems(1) Cons.prems(2) [of k'] that by (cases "k' = k") simp_all
    then obtain P where "requeueOffsets pending ks (b\<lparr>pendingOffsets := ?Q\<rparr>)
          = (b\<lparr>pendingOffsets := ?Q\<rparr>)\<lparr>pendingOffsets := P\<rparr>"
        "mwf (pendingOffsets (b\<lparr>pendingOffsets := ?Q\<rparr>)) \<longrightarrow> mwf P"
        "\<forall>k'. mget P k' = (if k' \<in> set ks then Some (mdef 0 pending k')
          else mget (pendingOffsets (b\<lparr>pendingOffsets := ?Q\<rparr>)) k')"
      using Cons.IH [of "b\<lparr>pendingOffsets := ?Q\<rparr>"] Cons.prems(1) by (metis distinct.simps(2))
    then show ?thesis by (intro that [of P]) simp_all
  qed
  moreover have "requeueOffsets pending (k # ks) b = requeueOffsets pending ks (b\<lparr>pendingOffsets := ?Q\<rparr>)"
    using Cons.prems(2) [of k] by (simp add: Let_def)
  ultimately show ?case by (intro exI [of _ P]) auto
qed

lemma rec_with_cong:
  assumes "topics b' = topics b" "idem b' = idem b" "\<And>t g p. committed b' t g p = committed b t g p"
  shows "rec_with b' Q b0 = rec_with b Q b0"
  using assms by (simp add: rec_with_def rec_logs_def part_log_def rec_topics_def rec_idem_def)

lemma flushLoop_durable:
  assumes "flush_inv pending ks b" "distinct ks" "set ks \<subseteq> dom (mget pending)"
    and "\<forall>k x. mget pending k = Some x \<longrightarrow> -1 \<le> x" "flushLoop now pending ks b = (r, b')"
  shows "durable b' \<and> (r = None \<longrightarrow> pendingOffsets b' = [])"
  using assms
proof (induction ks arbitrary: b)
  case Nil
  have "mdef (-1 :: int) [] = (\<lambda>k :: offsetFlushKey. -1)" by (rule ext) simp
  with Nil show ?case by (simp add: flush_inv_def durable_def recovers_with)
next
  case (Cons k ks)
  let ?Q = "\<lambda>ks k. if k \<in> set ks then mdef (-1) pending k else -1"
  obtain x where x: "mget pending k = Some x" "-1 \<le> x" using Cons.prems(3,4) by auto
  have off: "mdef 0 pending k = ?Q (k # ks) k" using x by (simp add: mdef_def)
  obtain r1 b1 where ap: "appendWALEntry now (offsetEntry k (mdef 0 pending k)) b = (r1, b1)" by force
  have ls: "log_sound b" using Cons.prems(1) by (simp add: flush_inv_def)
  note log = append_ok_log [OF ap ls]
  obtain w where b1: "b1 = b\<lparr>wal := w\<rparr>" using appendWALEntry_wal [OF ap] by blast
  have same: "rec_with b1 Q b0 = rec_with b Q b0" for Q b0
    by (rule rec_with_cong) (simp_all add: b1)
  show ?case
  proof (cases r1)
    case None
    have upd: "(?Q (k # ks))(k := -1) = ?Q ks" using Cons.prems(2) by auto
    have "flush_inv pending ks b1"
      unfolding flush_inv_def
    proof (intro conjI allI)
      fix now' w' opts
      obtain b0 where b0: "replayEntries now' (log_entries b) (NewInMemoryBrokerWithOptions w' opts) = Inr b0"
        "rec_with b (?Q (k # ks)) b0" using Cons.prems(1) unfolding flush_inv_def by blast
      have "-1 \<le> ?Q (k # ks) k" using x by (simp add: mdef_def)
      from rec_with_offset [OF b0(2) this, of now'] obtain b2 where
        "replayEntry now' (offsetEntry k (mdef 0 pending k)) b0 = Inr b2" "rec_with b (?Q ks) b2"
        unfolding upd off by blast
      with b0 log None show "\<exists>b0. replayEntries now' (log_entries b1) (NewInMemoryBrokerWithOptions w' opts) = Inr b0
          \<and> rec_with b1 (?Q ks) b0"
        by (simp add: replayEntries_snoc same)
    qed (use log None Cons.prems(1) in \<open>auto simp: b1 flush_inv_def\<close>)
    with Cons ap None show ?thesis by simp
  next
    case (Some err)
    obtain P where P: "requeueOffsets pending (k # ks) b1 = b1\<lparr>pendingOffsets := P\<rparr>" "mwf P"
      "\<forall>k'. mget P k' = (if k' \<in> set (k # ks) then Some (mdef 0 pending k') else None)"
    proof -
      have "pendingOffsets b1 = []" using Cons.prems(1) by (simp add: flush_inv_def b1)
      then show ?thesis
        using requeue_lookup [OF Cons.prems(2), of b1 pending] that by (metis map_of.simps(1) mwf_Nil)
    qed
    have b': "b' = b1\<lparr>pendingOffsets := P\<rparr>" "r \<noteq> None" using Cons.prems(5) ap Some P(1) by auto
    have m: "mdef (-1) (pendingOffsets b') = ?Q (k # ks)"
    proof (rule ext)
      fix k'
      have P': "mget P k' = (if k' \<in> set (k # ks) then Some (mdef 0 pending k') else None)"
        using P(3) by blast
      have "mdef (-1) P k' = ?Q (k # ks) k'"
      proof (cases "k' \<in> set (k # ks)")
        case True
        then obtain y where "mget pending k' = Some y" using Cons.prems(3) by blast
        with P' True show ?thesis by (simp add: mdef_def)
      next
        case False
        with P' show ?thesis by (simp add: mdef_def)
      qed
      then show "mdef (-1) (pendingOffsets b') k' = ?Q (k # ks) k'" by (simp add: b')
    qed
    have same': "rec_with b' Q b0 = rec_with b Q b0" for Q b0
      by (rule rec_with_cong) (simp_all add: b' b1)
    have le: "log_entries b' = log_entries b" and "log_sound b'"
      using log Some unfolding b'(1) by simp_all
    moreover have "\<exists>b0. replayEntries now' (log_entries b') (NewInMemoryBrokerWithOptions w' opts) = Inr b0
        \<and> recovers b' b0" for now' w' opts
      using Cons.prems(1) unfolding flush_inv_def recovers_with m same' le by blast
    moreover have "mwf (pendingOffsets b')" using P(2) by (simp add: b')
    ultimately show ?thesis using b'(2) unfolding durable_def by blast
  qed
qed

lemma flush_durable:
  assumes "durable b" "flushPendingOffsets now b = (r, b')"
    and low: "\<forall>k x. mget (pendingOffsets b) k = Some x \<longrightarrow> -1 \<le> x"
  shows "durable b' \<and> (r = None \<longrightarrow> pendingOffsets b' = [])"
proof (cases "pendingOffsets b = []")
  case True
  with assms show ?thesis by (auto simp: flushPendingOffsets_def split: if_splits)
next
  case False
  let ?P = "pendingOffsets b" and ?b = "b\<lparr>pendingOffsets := []\<rparr>"
  let ?ks = "sort (mkeys ?P)"
  have "wal b \<noteq> None" using assms(1) by (auto simp: durable_def log_sound_def)
  with False assms(2) have run: "flushLoop now ?P ?ks ?b = (r, b')"
    by (simp add: flushPendingOffsets_def Let_def)
  have ks: "distinct ?ks" "set ?ks = dom (mget ?P)"
    using assms(1) by (auto simp: durable_def mwf_def mkeys_def set_mkeys [symmetric])
  have Q: "(\<lambda>k. if k \<in> set ?ks then mdef (-1) ?P k else -1) = mdef (-1) ?P"
    unfolding ks by (rule ext) (auto simp: mdef_def split: option.split)
  have same: "rec_with ?b Q b0 = rec_with b Q b0" for Q b0 by (rule rec_with_cong) simp_all
  have "flush_inv ?P ?ks ?b"
    using assms(1) unfolding flush_inv_def Q same durable_def recovers_with by simp
  then show ?thesis by (rule flushLoop_durable [OF _ ks(1) _ low run]) (simp add: set_mkeys)
qed

lemma commitOffset_queue:
  assumes "wal b \<noteq> None" "inv_offsets b"
  shows "mdef (-1) (pendingOffsets (commitOffset t g p off b)) k =
    (if k = (t, g, p) \<and> committed b t g p < off then off else mdef (-1) (pendingOffsets b) k)"
proof -
  have "mget (pendingOffsets b) (t, g, p) = Some cur \<Longrightarrow> cur \<le> committed b t g p" for cur
    using assms(2) by (simp add: inv_offsets_def)
  then show ?thesis
    using assms(1)
    by (auto simp: commitOffset_def Let_def setOffset_def queueOffsetPersistLocked_def split: option.split)
qed

lemma commitOffset_mwf: "mwf (pendingOffsets b) \<Longrightarrow> mwf (pendingOffsets (commitOffset t g p off b))"
  by (simp add: commitOffset_def Let_def setOffset_def queueOffsetPersistLocked_def split: option.split)

lemma recovers_commit:
  assumes "recovers b b0" "wal b \<noteq> None" "inv_offsets b" "0 \<le> off"
  shows "recovers (commitOffset t g p off b) b0"
proof -
  let ?b = "commitOffset t g p off b"
  have "-1 \<le> committed b0 t' g' p' \<and>
      committed ?b t' g' p' = max (committed b0 t' g' p') (mdef (-1) (pendingOffsets ?b) (t', g', p'))" for t' g' p'
  proof -
    have "-1 \<le> committed b0 t' g' p' \<and>
      committed b t' g' p' = max (committed b0 t' g' p') (mdef (-1) (pendingOffsets b) (t', g', p'))"
      using assms(1) by (simp add: recovers_def rec_offsets_def)
    then show ?thesis unfolding commitOffset_queue [OF assms(2,3)] by (auto simp: max_def split: if_splits)
  qed
  with assms(1) show ?thesis
    by (simp add: recovers_def rec_offsets_def) (simp add: rec_logs_def rec_topics_def rec_idem_def)
qed

subsection \<open>Idempotency records\<close>

lemma cw_cleanup:
  assumes "idem_wf s" "k_Scope k = IdemScopeConsume"
  shows "cw (cleanupLocked now s) k r = cw s k r"
  using assms committed_not_evictable [OF assms(2)]
  by (auto simp: cw_iff cleanup_lookup split: option.splits)

definition idem_silent :: "idemStore \<Rightarrow> idemStore \<Rightarrow> bool" where
  "idem_silent s s' \<longleftrightarrow> (\<forall>tn t g k r. cw s' (consumeKey tn t g k) r = cw s (consumeKey tn t g k) r)"

text \<open>A store operation writes no log entry and changes no committed key, or writes one entry
  and changes what that entry says.\<close>

definition idem_logged ::
  "gotime \<Rightarrow> idemStore \<Rightarrow> filewal \<Rightarrow> idemStore \<Rightarrow> filewal \<Rightarrow> bool" where
  "idem_logged now s w s' w' \<longleftrightarrow>
     (\<exists>tn t g k status ow lu res err.
        k \<noteq> '''' \<and> (\<forall>r. \<not> cw s (consumeKey tn t g k) r)
        \<and> FileWAL_Append now (consumeIdemEntry now tn t g k status ow lu res err) w = (None, w')
        \<and> (\<forall>tn' t' g' k' r. cw s' (consumeKey tn' t' g' k') r =
             (if (tn', t', g', k') = (tn, t, g, k) then status = IdemStatusCommitted \<and> r = res
              else cw s (consumeKey tn' t' g' k') r)))"

lemma consumeKey_eq [simp]:
  "consumeKey a b c d = consumeKey a' b' c' d' \<longleftrightarrow> a = a' \<and> b = b' \<and> c = c' \<and> d = d'"
  by (simp add: consumeKey_def)

lemma silent_simps [simp]:
  "idem_silent s s" "idem_wf s \<Longrightarrow> idem_silent s (cleanupLocked now s)"
  "idem_silent s (s'\<lparr>idem_items := mput (produceKey tn t k) st (idem_items s')\<rparr>) = idem_silent s s'"
  by (simp_all add: idem_silent_def cw_cleanup cw_put)

lemma idem_append_cases:
  assumes "idem_append now e (Some w) = (r, w1)"
  shows "\<exists>w'. w1 = Some w' \<and> FileWAL_Append now e w = (r, w')"
  using assms by (auto simp: idem_append_def split: prod.splits)

lemma idem_logged_put:
  assumes "idem_wf s" "key \<noteq> ''''" "FileWAL_Append now (consumeIdemEntry now tn t g key status ow lu res err) w = (None, w')"
    and "\<And>r. \<not> cw s (consumeKey tn t g key) r" "st_Status st = status"
    and "status = IdemStatusCommitted \<Longrightarrow> st_Result st = res"
  shows "idem_logged now s w ((cleanupLocked now s)\<lparr>idem_items :=
     mput (consumeKey tn t g key) st (idem_items (cleanupLocked now s))\<rparr>) w'"
proof -
  let ?s = "(cleanupLocked now s)\<lparr>idem_items :=
     mput (consumeKey tn t g key) st (idem_items (cleanupLocked now s))\<rparr>"
  have "cw ?s (consumeKey tn' t' g' k') r =
      (if (tn', t', g', k') = (tn, t, g, key) then status = IdemStatusCommitted \<and> r = res
       else cw s (consumeKey tn' t' g' k') r)" for tn' t' g' k' r
    using assms(5,6) by (cases "status = IdemStatusCommitted") (auto simp: cw_put cw_cleanup [OF assms(1)])
  with assms(2-4) show ?thesis unfolding idem_logged_def by blast
qed

lemma not_cw:
  assumes "idem_wf s" "mget (idem_items (cleanupLocked now s)) (consumeKey tn t g k) = x"
    and "\<And>st. x = Some st \<Longrightarrow> st_Status st \<noteq> IdemStatusCommitted"
  shows "\<not> cw s (consumeKey tn t g k) r"
proof
  assume "cw s (consumeKey tn t g k) r"
  then have "cw (cleanupLocked now s) (consumeKey tn t g k) r" using cw_cleanup [OF assms(1)] by simp
  then show False using assms(2,3) by (auto simp: cw_iff)
qed

definition idem_shape ::
  "gotime \<Rightarrow> idemStore \<Rightarrow> filewal \<Rightarrow> idemStore \<Rightarrow> filewal option \<Rightarrow> bool" where
  "idem_shape now s w s' w1 \<longleftrightarrow> (\<exists>w'. w1 = Some w' \<and>
     (idem_silent s s' \<and> wal_sound w' \<and> wal_file w' = wal_file w \<or> idem_logged now s w s' w'))"

lemma shape_silent: "wal_sound w \<Longrightarrow> idem_silent s s' \<Longrightarrow> idem_shape now s w s' (Some w)"
  by (simp add: idem_shape_def)

lemma shape_fail:
  "wal_sound w \<Longrightarrow> idem_wf s \<Longrightarrow> idem_append now e (Some w) = (Some err, w1) \<Longrightarrow>
     idem_shape now s w (cleanupLocked now s) w1"
  using Append_sound by (fastforce simp: idem_shape_def dest!: idem_append_cases)

lemma shape_ok:
  assumes "idem_append now (consumeIdemEntry now tn t g key status ow lu res err) (Some w) = (None, w1)"
    and "idem_wf s" "key \<noteq> ''''" "mget (idem_items (cleanupLocked now s)) (consumeKey tn t g key) = x"
    and "\<And>st0. x = Some st0 \<Longrightarrow> st_Status st0 \<noteq> IdemStatusCommitted" "st_Status st = status"
    and "status = IdemStatusCommitted \<Longrightarrow> st_Result st = res"
  shows "idem_shape now s w ((cleanupLocked now s)\<lparr>idem_items :=
     mput (consumeKey tn t g key) st (idem_items (cleanupLocked now s))\<rparr>) w1"
proof -
  obtain w' where "w1 = Some w'"
    "FileWAL_Append now (consumeIdemEntry now tn t g key status ow lu res err) w = (None, w')"
    using idem_append_cases [OF assms(1)] by blast
  moreover have "\<not> cw s (consumeKey tn t g key) r" for r by (rule not_cw [OF assms(2,4,5)])
  ultimately show ?thesis
    unfolding idem_shape_def using assms by (auto intro!: idem_logged_put)
qed

lemma idem_step_log:
  assumes wf: "idem_wf s" and st: "idem_step (s, Some w) x = (s', w1)" and sound: "wal_sound w"
  shows "idem_shape (op_time x) s w s' w1"
proof (cases x)
  case (OpBegin now tn t k)
  with st wf sound show ?thesis
    by (auto simp: Begin_def Let_def split: if_splits option.splits intro!: shape_silent)
next
  case (OpCommit now tn t k r)
  with st wf sound show ?thesis by (auto simp: Commit_def intro!: shape_silent)
next
  case (OpFail now tn t k c)
  with st wf sound show ?thesis by (auto simp: Fail_def intro!: shape_silent)
next
  case (OpCheck now tn t k)
  with st wf sound show ?thesis by (auto simp: Check_def Let_def intro!: shape_silent)
next
  case (OpConsumeCheck now tn t g k)
  with st wf sound show ?thesis by (auto simp: ConsumeCheck_def Let_def intro!: shape_silent)
next
  case (OpBeginLease now tn t g k ow l)
  with st wf sound show ?thesis
    by (auto simp: ConsumeBeginLease_def Let_def split: if_splits option.splits prod.splits
        intro: shape_silent shape_fail shape_ok)
next
  case (OpRenewLease now tn t g k ow l)
  with st wf sound show ?thesis
    by (auto simp: ConsumeRenewLease_def Let_def split: if_splits option.splits prod.splits
        intro: shape_silent shape_fail shape_ok)
next
  case (OpConsumeCommit now tn t g k ow r)
  with st wf sound show ?thesis
    by (auto simp: ConsumeCommitIfOwner_def Let_def split: if_splits option.splits prod.splits
        intro: shape_silent shape_fail shape_ok)
next
  case (OpConsumeFail now tn t g k ow c)
  with st wf sound show ?thesis
    by (auto simp: ConsumeFailIfOwner_def Let_def split: if_splits option.splits prod.splits
        intro: shape_silent shape_fail shape_ok)
qed

lemma replayConsumeIdem_cw:
  assumes "e = consumeIdemEntry now tn t g k status ow lu res err" "k \<noteq> ''''" "idem_wf (idem b0)"
    and "\<And>r. t \<noteq> '''' \<Longrightarrow> g \<noteq> '''' \<Longrightarrow> \<not> cw (idem b0) (consumeKey tn t g k) r"
    and "t' \<noteq> ''''" "g' \<noteq> ''''" "k' \<noteq> ''''"
  shows "idem_wf (idem (replayConsumeIdem now' e b0))"
    "cw (idem (replayConsumeIdem now' e b0)) (consumeKey tn' t' g' k') r =
      (if (tn', t', g', k') = (tn, t, g, k) then status = IdemStatusCommitted \<and> r = res
       else cw (idem b0) (consumeKey tn' t' g' k') r)"
proof -
  have e: "e_IdempotencyScope e = IdemScopeConsume" "e_Topic e = t" "e_Group e = g" "e_IdempotencyKey e = k"
    "e_TenantID e = tn" "e_IdempotencyStatus e = status" "e_Result e = res"
    by (simp_all add: assms(1) consumeIdemEntry_def)
  show "idem_wf (idem (replayConsumeIdem now' e b0))"
    using assms(3) by (simp add: replayConsumeIdem_def Let_def)
  show "cw (idem (replayConsumeIdem now' e b0)) (consumeKey tn' t' g' k') r =
      (if (tn', t', g', k') = (tn, t, g, k) then status = IdemStatusCommitted \<and> r = res
       else cw (idem b0) (consumeKey tn' t' g' k') r)"
    using assms(2,4-) by (auto simp: replayConsumeIdem_def Let_def e cw_put)
qed

lemma replayConsumeIdem_frame [simp]:
  "topics (replayConsumeIdem now e b0) = topics b0"
  "consumerOffsets (replayConsumeIdem now e b0) = consumerOffsets b0"
  "idle (replayConsumeIdem now e b0) = idle b0"
  by (simp_all add: replayConsumeIdem_def Let_def idle_def)

lemma recovers_idem:
  assumes r: "recovers b b0" and e: "e = consumeIdemEntry now tn t g k status ow lu res err" and k: "k \<noteq> ''''"
    and new: "\<And>r. \<not> cw (idem b) (consumeKey tn t g k) r"
    and s': "\<And>tn' t' g' k' r. cw s' (consumeKey tn' t' g' k') r =
             (if (tn', t', g', k') = (tn, t, g, k) then status = IdemStatusCommitted \<and> r = res
              else cw (idem b) (consumeKey tn' t' g' k') r)"
  shows "\<exists>b1. replayEntry now' e b0 = Inr b1 \<and> recovers (b\<lparr>idem := s', wal := w'\<rparr>) b1"
proof -
  let ?b1 = "replayConsumeIdem now' e b0"
  have ri: "rec_idem b b0" using r by (simp add: recovers_def)
  have new0: "t \<noteq> '''' \<Longrightarrow> g \<noteq> '''' \<Longrightarrow> \<not> cw (idem b0) (consumeKey tn t g k) r" for r
    using ri new k by (simp add: rec_idem_def)
  have wf: "idem_wf (idem b0)" using ri by (simp add: rec_idem_def)
  have "replayEntry now' e b0 = Inr ?b1" by (simp add: replayEntry_def e consumeIdemEntry_def zeroEntry_def)
  moreover have "rec_idem (b\<lparr>idem := s', wal := w'\<rparr>) ?b1"
    unfolding rec_idem_def
  proof (intro conjI allI impI)
    show "idem_wf (idem ?b1)" using wf by (simp add: replayConsumeIdem_def Let_def)
    fix tn' t' g' k' :: string and r
    assume ne: "t' \<noteq> '''' \<and> g' \<noteq> '''' \<and> k' \<noteq> ''''"
    then have "cw (idem b0) (consumeKey tn' t' g' k') r = cw (idem b) (consumeKey tn' t' g' k') r"
      using ri by (simp add: rec_idem_def)
    with replayConsumeIdem_cw(2) [OF e k wf new0, of t' g' k' now' tn' r] ne s' [of tn' t' g' k' r]
    show "cw (idem ?b1) (consumeKey tn' t' g' k') r =
        cw (idem (b\<lparr>idem := s', wal := w'\<rparr>)) (consumeKey tn' t' g' k') r" by simp
  qed
  moreover have "rec_logs (b\<lparr>idem := s', wal := w'\<rparr>) ?b1" "rec_topics (b\<lparr>idem := s', wal := w'\<rparr>) ?b1"
    "rec_offsets (b\<lparr>idem := s', wal := w'\<rparr>) ?b1" "idle ?b1"
    using r by (simp_all add: recovers_def rec_logs_def part_log_def rec_topics_def inv_topics_def
        rec_offsets_def committed_def)
  ultimately show ?thesis by (auto simp: recovers_def)
qed

section \<open>Every step keeps the log sufficient\<close>

lemma durable_quiet:
  assumes "durable b" "topics b' = topics b" "idem b' = idem b" "pendingOffsets b' = pendingOffsets b"
    and "\<And>t g p. committed b' t g p = committed b t g p" "wal b' = wal b"
  shows "durable b'"
proof (rule durable_same [OF assms(1)])
  show "log_sound b'" "log_entries b' = log_entries b" "mwf (pendingOffsets b')"
    using log_cong [OF assms(6)] assms(1,4) by (auto simp: durable_def)
qed (use recovers_cong [OF assms(2-5)] in simp)

lemma durable_append:
  assumes "durable b" "appendWALEntry now e b = (r, b1)" "e_Type e = RecordTypeRetryState \<or> r \<noteq> None"
  shows "durable b1"
proof -
  have ls: "log_sound b" using assms(1) by (simp add: durable_def)
  note log = append_ok_log [OF assms(2) ls]
  obtain w where b1: "b1 = b\<lparr>wal := w\<rparr>" using appendWALEntry_wal [OF assms(2)] by blast
  have same: "recovers b1 b0 = recovers b b0" for b0 by (rule recovers_cong) (simp_all add: b1)
  have wf: "mwf (pendingOffsets b1)" using assms(1) by (simp add: durable_def b1)
  show ?thesis
  proof (cases "r = None")
    case True
    with assms log wf show ?thesis
      by (intro durable_add [OF assms(1), of b1 e]) (auto simp: same intro: recovers_retry)
  next
    case False
    with log wf show ?thesis by (intro durable_same [OF assms(1)]) (auto simp: same)
  qed
qed

lemma durable_idem:
  assumes "durable b" "idem_wf (idem b)" "idem_step (idem b, wal b) x = (s', w1)"
  shows "durable (b\<lparr>idem := s', wal := w1\<rparr>)"
proof -
  let ?b = "b\<lparr>idem := s', wal := w1\<rparr>"
  obtain w where w: "wal b = Some w" "wal_sound w" "wal_file w = map Line (log_entries b)"
    using assms(1) by (auto simp: durable_def log_sound_def)
  obtain w' where w1: "w1 = Some w'" and c: "idem_silent (idem b) s' \<and> wal_sound w' \<and> wal_file w' = wal_file w
      \<or> idem_logged (op_time x) (idem b) w s' w'"
    using idem_step_log [OF assms(2) assms(3) [unfolded w(1)] w(2)] by (auto simp: idem_shape_def)
  have wf: "mwf (pendingOffsets ?b)" using assms(1) by (simp add: durable_def)
  from c show ?thesis
  proof
    assume s: "idem_silent (idem b) s' \<and> wal_sound w' \<and> wal_file w' = wal_file w"
    have le: "log_entries ?b = log_entries b" using s w(1) by (simp add: log_entries_def w1)
    moreover have "log_sound ?b" unfolding log_sound_def le using s w(3) by (simp add: w1)
    moreover have "recovers b b0 \<Longrightarrow> recovers ?b b0" for b0
      using s by (simp add: recovers_def rec_logs_def rec_topics_def rec_offsets_def rec_idem_def idem_silent_def)
    ultimately show ?thesis using wf by (intro durable_same [OF assms(1)]) auto
  next
    assume "idem_logged (op_time x) (idem b) w s' w'"
    then obtain tn t g k status ow lu res err where k: "k \<noteq> ''''" "\<And>r. \<not> cw (idem b) (consumeKey tn t g k) r"
      and ap: "FileWAL_Append (op_time x) (consumeIdemEntry (op_time x) tn t g k status ow lu res err) w = (None, w')"
      and s': "\<And>tn' t' g' k' r. cw s' (consumeKey tn' t' g' k') r =
             (if (tn', t', g', k') = (tn, t, g, k) then status = IdemStatusCommitted \<and> r = res
              else cw (idem b) (consumeKey tn' t' g' k') r)"
      unfolding idem_logged_def by blast
    let ?e = "consumeIdemEntry (op_time x) tn t g k status ow lu res err"
    have snd: "wal_sound w'" "wal_file w' = wal_file w @ [Line ?e]" using Append_sound [OF ap w(2)] by auto
    then have le: "log_entries ?b = log_entries b @ [?e]" using w(1) by (simp add: log_entries_def w1)
    moreover have "log_sound ?b" unfolding log_sound_def le using snd w(3) by (simp add: w1)
    moreover have "recovers b b0 \<Longrightarrow> \<exists>b1. replayEntry now ?e b0 = Inr b1 \<and> recovers ?b b1" for now b0
      by (rule recovers_idem [OF _ refl k s'])
    ultimately show ?thesis using wf by (intro durable_add [OF assms(1)]) auto
  qed
qed

lemma durable_commit:
  assumes "durable b" "inv_offsets b" "0 \<le> off"
  shows "durable (commitOffset t g p off b)"
proof (rule durable_same [OF assms(1)])
  have "wal b \<noteq> None" using assms(1) by (auto simp: durable_def log_sound_def)
  then show "recovers b b0 \<Longrightarrow> recovers (commitOffset t g p off b) b0" for b0
    using recovers_commit assms(2,3) by blast
  show "log_sound (commitOffset t g p off b)" "log_entries (commitOffset t g p off b) = log_entries b"
    using log_cong [of "commitOffset t g p off b" b] assms(1) by (auto simp: durable_def)
  show "mwf (pendingOffsets (commitOffset t g p off b))"
    using assms(1) by (simp add: durable_def commitOffset_mwf)
qed

lemma durable_topics:
  assumes "durable b" "appendWALEntry now e b = (None, b1)"
    and "\<And>now b0. recovers b b0 \<Longrightarrow> \<exists>b2. replayEntry now e b0 = Inr b2 \<and> recovers (b\<lparr>topics := T\<rparr>) b2"
  shows "durable (b1\<lparr>topics := T\<rparr>)"
proof -
  have ls: "log_sound b" using assms(1) by (simp add: durable_def)
  note log = append_ok_log [OF assms(2) ls]
  obtain w where b1: "b1 = b\<lparr>wal := w\<rparr>" using appendWALEntry_wal [OF assms(2)] by blast
  have same: "recovers (b1\<lparr>topics := T\<rparr>) b0 = recovers (b\<lparr>topics := T\<rparr>) b0" for b0
    by (rule recovers_cong) (simp_all add: b1)
  show ?thesis
  proof (rule durable_add [OF assms(1), of _ e])
    show "log_sound (b1\<lparr>topics := T\<rparr>)" "log_entries (b1\<lparr>topics := T\<rparr>) = log_entries b @ [e]"
      using log log_cong [of "b1\<lparr>topics := T\<rparr>" b1] by auto
    show "mwf (pendingOffsets (b1\<lparr>topics := T\<rparr>))" using assms(1) by (simp add: durable_def b1)
  qed (simp add: same assms(3))
qed

lemma durable_create_dlq:
  assumes "durable b" "createTopicLockedWithConfig t n \<lparr>tc_Mode = ''''\<rparr> b = (None, b')" "HasPrefix t ''dlq.''"
  shows "durable b'"
proof (cases "mget (topics b) t")
  case (Some ts)
  with assms show ?thesis by (auto simp: createTopicLockedWithConfig_def split: if_splits)
next
  case None
  have norm: "normalizeTopicConfig \<lparr>tc_Mode = ''''\<rparr> = Inr \<lparr>tc_Mode = TopicModeStandard\<rparr>"
    by (simp add: normalizeTopicConfig_def Let_def ToLower_def)
  have b': "b' = b\<lparr>topics := mput t (newTopicState n \<lparr>tc_Mode = TopicModeStandard\<rparr>) (topics b)\<rparr>"
    using assms(2) None norm by (auto simp: createTopicLockedWithConfig_def split: if_splits)
  show ?thesis
  proof (rule durable_same [OF assms(1)])
    show "log_sound b'" "log_entries b' = log_entries b" "mwf (pendingOffsets b')"
      using log_cong [of b' b] assms(1) by (auto simp: b' durable_def)
    show "recovers b b0 \<Longrightarrow> recovers b' b0" for b0
      unfolding b' by (rule recovers_new_dlq [OF _ None assms(3)])
  qed
qed

text \<open>Only offsets that a consumer acknowledged are queued.\<close>

definition pending_low :: "broker \<Rightarrow> bool" where
  "pending_low b \<longleftrightarrow> (\<forall>k x. mget (pendingOffsets b) k = Some x \<longrightarrow> -1 \<le> x)"

lemma pending_low_commit: "pending_low b \<Longrightarrow> 0 \<le> off \<Longrightarrow> pending_low (commitOffset t g p off b)"
  using commitOffset_pending [of t g p off b] unfolding pending_low_def by (metis order_trans neg_le_0_iff_le zero_le_one)

lemma bstep_pending_low:
  assumes "bstep b b'" "pending_low b"
  shows "pending_low b'"
  using assms
proof (cases rule: bstep.cases)
  case (bs_note e now r)
  then show ?thesis using appendWALEntry_wal assms(2) by (fastforce simp: pending_low_def)
next
  case (bs_wal_fail now e err)
  then show ?thesis using appendWALEntry_wal assms(2) by (fastforce simp: pending_low_def)
next
  case (bs_produce t ts p m now b1)
  then show ?thesis using appendWALEntry_wal assms(2) by (fastforce simp: pending_low_def)
next
  case (bs_create_logged t n cfg now b1)
  then show ?thesis using appendWALEntry_wal assms(2) by (fastforce simp: pending_low_def)
next
  case (bs_flush now r)
  from flush_frame [OF this] assms(2) show ?thesis unfolding pending_low_def by fastforce
next
  case (bs_ack off t g p)
  then show ?thesis using pending_low_commit [of "delInflight t g p off b" off t g p] assms(2)
    by (simp add: pending_low_def delInflight_def)
next
  case (bs_commit off t p g)
  then show ?thesis using pending_low_commit assms(2) by blast
qed (use assms(2) in \<open>auto simp: pending_low_def same_core_def trySend_def setNextIndex_def
    putInflight_def createTopicLockedWithConfig_def addStream_def Let_def recv_def
    split: option.splits if_splits sum.splits list.splits\<close>)

theorem bstep_durable:
  assumes "bstep b b'" "binv b" "durable b" "pending_low b"
  shows "durable b'"
  using assms(1)
proof (cases rule: bstep.cases)
  case bs_book
  then show ?thesis
    by (intro durable_quiet [OF assms(3)]) (auto simp: same_core_def committed_def)
next
  case (bs_idem x s' w')
  then show ?thesis using durable_idem [OF assms(3)] assms(2) by (simp add: binv_def)
next
  case (bs_note e now r)
  then show ?thesis using durable_append [OF assms(3)] by blast
next
  case (bs_wal_fail now e err)
  then show ?thesis using durable_append [OF assms(3)] by blast
next
  case (bs_send st t g m)
  then obtain cs where "b' = b\<lparr>chans := cs\<rparr>" using trySend_frame by blast
  then show ?thesis by (intro durable_quiet [OF assms(3)]) simp_all
next
  case (bs_commit off t p g)
  then show ?thesis using durable_commit [OF assms(3)] assms(2) by (simp add: binv_def)
next
  case (bs_ack off t g p)
  have "durable (delInflight t g p off b)"
    by (rule durable_quiet [OF assms(3)]) (simp_all add: delInflight_def)
  moreover have "inv_offsets (delInflight t g p off b)"
    using assms(2) by (simp add: binv_def inv_offsets_def delInflight_def)
  ultimately show ?thesis using bs_ack durable_commit by blast
next
  case (bs_produce t ts p m now b1)
  obtain w where "b1 = b\<lparr>wal := w\<rparr>" using appendWALEntry_wal bs_produce by blast
  then have "topics b1 = topics b" by simp
  then show ?thesis
    using bs_produce recovers_message [OF _ assms(2)]
    by (auto intro!: durable_topics [OF assms(3)])
next
  case (bs_create t n)
  then show ?thesis using durable_create_dlq [OF assms(3)] by blast
next
  case (bs_create_logged t n cfg now b1)
  obtain w where "b1 = b\<lparr>wal := w\<rparr>" using appendWALEntry_wal bs_create_logged by blast
  then have "topics b1 = topics b" by simp
  then show ?thesis
    using bs_create_logged recovers_topic
    by (auto intro!: durable_topics [OF assms(3)])
next
  case (bs_flush now r)
  then show ?thesis using flush_durable [OF assms(3)] assms(4) unfolding pending_low_def by blast
next
  case (bs_disconnect t g ch)
  then show ?thesis by (intro durable_quiet [OF assms(3)]) (simp_all add: committed_def)
next
  case (bs_recv ch)
  then show ?thesis
    by (intro durable_quiet [OF assms(3)]) (auto simp: recv_def split: option.splits list.splits)
qed (auto intro!: durable_quiet [OF assms(3)] simp: setNextIndex_def putInflight_def addStream_def Let_def)

lemma bsteps_durable:
  assumes "bsteps b b'" "binv b" "durable b" "pending_low b"
  shows "durable b' \<and> pending_low b'"
  using assms
  by (induction rule: rtranclp_induct) (auto intro: bstep_durable bstep_pending_low bsteps_binv)

section \<open>Restart\<close>

lemma replayEntries_base:
  assumes "replayEntries now es b = Inr b0"
  shows "maxInFlight b0 = maxInFlight b \<and> wal b0 = wal b"
  using assms
proof (induction es arbitrary: b)
  case (Cons e es)
  obtain b1 where b1: "replayEntry now e b = Inr b1" "replayEntries now es b1 = Inr b0"
    using Cons.prems by (auto split: sum.splits)
  have "maxInFlight b1 = maxInFlight b \<and> wal b1 = wal b"
    using b1(1)
    by (auto simp: replayEntry_def replayTopic_def replayMessage_def replayOffset_def replayRetryState_def
        replayConsumeIdem_def createTopicLockedWithConfig_def ensureOffsets_def putRetryState_def Let_def
        split: if_splits option.splits sum.splits)
  with Cons.IH [OF b1(2)] show ?case by simp
qed simp

lemma purgeAcked_core: "same_core b (purgeAcked b)"
proof -
  have "same_core b (foldl (\<lambda>b (t, g, p, off). purgeRetryStateLocked t g p off b) b xs)" for xs
  proof (induction xs arbitrary: b)
    case Nil
    show ?case by (simp add: same_core_def)
  next
    case (Cons x xs)
    obtain t g p off where x: "x = (t, g, p, off)" by (cases x) auto
    have "same_core b (purgeRetryStateLocked t g p off b)" by simp
    with Cons [of "purgeRetryStateLocked t g p off b"] show ?case
      by (simp add: x same_core_def)
  qed
  then show ?thesis by (simp add: purgeAcked_def)
qed

lemma purgeAcked_frame:
  "topics (purgeAcked b) = topics b" "idem (purgeAcked b) = idem b" "wal (purgeAcked b) = wal b"
  "part_log (purgeAcked b) t p = part_log b t p" "committed (purgeAcked b) t g p = committed b t g p"
  using purgeAcked_core [of b] by (auto simp: same_core_def part_log_def committed_def)

lemma recovers_binv:
  assumes "recovers b b0"
  shows "binv b0"
  using assms
  by (auto simp: binv_def recovers_defs inv_inflight_def inv_next_def inv_streams_def inv_offsets_def
      inflight_of_def streams_of_def)

text \<open>A new process on the log of a durable broker: it starts, its state satisfies the broker's
  invariant, and it has recovered everything \<open>recovers\<close> lists.\<close>

lemma restart_ok:
  assumes "durable b" "wal b = Some w"
    and "list_all (\<lambda>e. jl e < 10 * 1024 * 1024) (log_entries b)"
    and "w' = OpenFileWALWithOptions (survives_power_loss w) si now' script"
  obtains b0 where "NewInMemoryBrokerFromWAL jl now (Some w') opts = Inr (purgeAcked b0)" "recovers b b0"
    "binv (purgeAcked b0)" "wal (purgeAcked b0) = Some w'"
proof -
  have w: "wal_sound w" "wal_file w = map Line (log_entries b)"
    using assms(1,2) by (auto simp: durable_def log_sound_def)
  have fl: "wal_file w' = map Line (log_entries b)"
    using w by (simp add: assms(4) OpenFileWALWithOptions_def survives_power_loss_def wal_sound_def)
  have "bw_Flush IoOk w' = (None, w')" by (simp add: assms(4) OpenFileWALWithOptions_def bw_Flush_def)
  then have rep: "FileWAL_Replay jl w' = (Inr (log_entries b), w')"
    using scan_lines_ok [OF assms(3)] by (simp add: FileWAL_Replay_def fl)
  obtain b0 where b0: "replayEntries now (log_entries b) (NewInMemoryBrokerWithOptions (Some w') opts) = Inr b0"
    "recovers b b0"
    using assms(1) unfolding durable_def by blast
  have "binv (purgeAcked b0)" using recovers_binv [OF b0(2)] binv_book [OF purgeAcked_core] by simp
  moreover have "wal (purgeAcked b0) = Some w'"
    using replayEntries_base [OF b0(1)] by (simp add: purgeAcked_frame init_obs)
  moreover have "NewInMemoryBrokerFromWAL jl now (Some w') opts = Inr (purgeAcked b0)"
    by (simp add: NewInMemoryBrokerFromWAL_def rep b0(1))
  ultimately show ?thesis using b0(2) that by blast
qed

lemma durable_init:
  "wal_sound w \<Longrightarrow> wal_file w = [] \<Longrightarrow> durable (NewInMemoryBrokerWithOptions (Some w) opts)"
  by (simp add: durable_def log_sound_def log_entries_def init_obs)
    (simp add: recovers_defs init_obs part_log_def committed_def inv_topics_def idem_wf_def NewIdempotencyStore_def)

lemma durable_run:
  assumes "wal_sound w" "wal_file w = []" "list_all op_ok xs"
  shows "durable (run_ops (broker_step router) (NewInMemoryBrokerWithOptions (Some w) opts) xs)"
    "pending_low (run_ops (broker_step router) (NewInMemoryBrokerWithOptions (Some w) opts) xs)"
proof -
  have "pending_low (NewInMemoryBrokerWithOptions (Some w) opts)" by (simp add: pending_low_def init_obs)
  from bsteps_durable [OF binv_run(2) [OF assms(3) binv_init] binv_init durable_init [OF assms(1,2)] this]
  show "durable (run_ops (broker_step router) (NewInMemoryBrokerWithOptions (Some w) opts) xs)"
    "pending_low (run_ops (broker_step router) (NewInMemoryBrokerWithOptions (Some w) opts) xs)" by auto
qed

lemma flush_obs:
  assumes "flushPendingOffsets now b = (r, b')"
  shows "part_log b' t p = part_log b t p" "committed b' t g p = committed b t g p"
  using flush_frame [OF assms] by auto

lemma Close_durable:
  assumes "durable b" "pending_low b" "Close now flusher b = (None, b2)"
  shows "durable b2 \<and> pendingOffsets b2 = [] \<and> part_log b2 t p = part_log b t p
    \<and> committed b2 t g p = committed b t g p"
proof -
  have last: "durable b2 \<and> pendingOffsets b2 = [] \<and> part_log b2 t p = part_log b' t p
      \<and> committed b2 t g p = committed b' t g p"
    if "durable b'" "pending_low b'" "flushPendingOffsets now b' = (None, b2)" for b'
    using flush_durable [OF that(1,3)] flush_obs [OF that(3)] that(2) unfolding pending_low_def by simp
  show ?thesis
  proof (cases flusher)
    case False
    with assms last [of b] show ?thesis by (simp add: Close_def)
  next
    case True
    obtain r b' where r: "flushPendingOffsets now b = (r, b')" by force
    have "durable b'" using flush_durable [OF assms(1) r] assms(2) unfolding pending_low_def by blast
    moreover have "pending_low b'" by (rule bstep_pending_low [OF bs_flush [OF r] assms(2)])
    ultimately show ?thesis
      using True assms(3) r last [of b'] flush_obs [OF r] by (simp add: Close_def)
  qed
qed

end
