(* ===== verification/BrokerContracts.thy ===== *)
theory BrokerContracts
  imports Durability
begin

text \<open>
  What each operation of the broker promises its caller, on success and on every refusal:
  back-pressure, produce and its deduplication, acknowledgement by owner, cumulative
  acknowledgement, dead-lettering, and when redelivery may touch a message.
\<close>

section \<open>Back-pressure\<close>

text \<open>The messages a group that acknowledged up to \<open>acked\<close> still has to see.\<close>

definition unacked :: "message list \<Rightarrow> int \<Rightarrow> message list" where
  "unacked ms acked = filter (\<lambda>m. acked < msg_Offset m) ms"

lemma filter_offsets:
  assumes "\<And>i. i < length ms \<Longrightarrow> msg_Offset (ms ! i) = int (k + i)"
  shows "filter (\<lambda>m. c < msg_Offset m) ms = drop (nat (c + 1) - k) ms"
  using assms
proof (induction ms arbitrary: k)
  case (Cons m ms)
  have m: "msg_Offset m = int k" using Cons.prems [of 0] by simp
  have "msg_Offset (ms ! i) = int (Suc k + i)" if "i < length ms" for i
    using Cons.prems [of "Suc i"] that by simp
  then have ih: "filter (\<lambda>m. c < msg_Offset m) ms = drop (nat (c + 1) - Suc k) ms" by (rule Cons.IH)
  show ?case
  proof (cases "c < int k")
    case True
    then have "nat (c + 1) - k = 0" "nat (c + 1) - Suc k = 0" by auto
    with True m ih show ?thesis by simp
  next
    case False
    then have "nat (c + 1) - k = Suc (nat (c + 1) - Suc k)" by linarith
    with False m ih show ?thesis by simp
  qed
qed simp

lemma unacked_drop:
  assumes "binv b" "0 \<le> p" "minInt64 \<le> s" "s < maxInt64"
  shows "unacked (part_log b t p) s = drop (ack_start s) (part_log b t p)"
proof -
  have "wrap64 (s + 1) = s + 1" using assms(3,4) by (intro wrap64_id) auto
  then show ?thesis
    using filter_offsets [of "part_log b t p" 0 s] binv_log_offset(1) [OF assms(1,2)]
    by (simp add: unacked_def ack_start_def)
qed

lemma slowest_foldl:
  "foldl (\<lambda>slowest byPart.
      let off = (case mget byPart p of None \<Rightarrow> -1 | Some off \<Rightarrow> off) in
      case slowest of None \<Rightarrow> Some off | Some sl \<Rightarrow> Some (if off < sl then off else sl)) (Some a) bps
   = Some (Min (insert a ((\<lambda>bp. mdef (-1) bp p) ` set bps)))"
proof (induction bps arbitrary: a)
  case (Cons bp bps)
  let ?x = "mdef (-1) bp p" and ?S = "(\<lambda>bp. mdef (-1) bp p) ` set bps"
  have "Min (insert (min a ?x) ?S) = Min (insert a (insert ?x ?S))"
    by (cases "set bps = {}") (auto simp: min.assoc)
  then show ?case using Cons [of "min a ?x"]
    by (auto simp: Let_def mdef_def min_def insert_commute split: option.splits if_splits)
qed simp

text \<open>\<open>slowestAckLocked\<close> is the minimum, over the groups known for the topic, of the offset the
  group has acknowledged in the partition (-1 for a group that has acknowledged nothing there).\<close>

theorem slowestAck_is_Min:
  assumes "mget (consumerOffsets b) t = Some byGroup" "byGroup \<noteq> []" "mwf byGroup"
  shows "slowestAckLocked t p b = Min ((\<lambda>g. committed b t g p) ` dom (mget byGroup))"
proof -
  obtain kv rest where bg: "byGroup = kv # rest" using assms(2) by (cases byGroup) auto
  have "(\<lambda>bp. mdef (-1) bp p) ` set (map snd byGroup) = (\<lambda>g. committed b t g p) ` dom (mget byGroup)"
  proof -
    have "committed b t g p = mdef (-1) bp p" if "(g, bp) \<in> set byGroup" for g bp
      using that assms(1,3) by (auto simp: committed_def mget3_def mget2_def mdef_def mwf_def)
    then show ?thesis
      by (auto simp: image_iff dom_map_of_conv_image_fst) (metis fst_conv, metis snd_conv)
  qed
  moreover have "slowestAckLocked t p b = Min ((\<lambda>bp. mdef (-1) bp p) ` set (map snd byGroup))"
    using assms(1) slowest_foldl [of p "mdef (-1) (snd kv) p" "map snd rest"]
    by (simp add: slowestAckLocked_def bg Let_def mdef_def)
  ultimately show ?thesis by simp
qed

definition example_offsets :: broker where
  "example_offsets = (NewInMemoryBroker None)
     \<lparr>consumerOffsets := [(''orders'', [(''a'', [(0, 4)]), (''b'', [(0, 2)]), (''c'', [(0, 3), (1, 9)])])]\<rparr>"

theorem slowestAck_is_Min_witness:
  "slowestAckLocked ''orders'' 0 example_offsets = 2 \<and> slowestAckLocked ''orders'' 1 example_offsets = -1"
proof -
  have g: "mget (consumerOffsets example_offsets) ''orders''
      = Some [(''a'', [(0, 4)]), (''b'', [(0, 2)]), (''c'', [(0, 3), (1, 9)])]" (is "_ = Some ?g")
    by (simp add: example_offsets_def)
  have "mwf ?g" by (simp add: mwf_def)
  moreover have d: "dom (mget ?g) = {''a'', ''b'', ''c''}" by (subst dom_map_of_conv_image_fst) simp
  ultimately show ?thesis
    using slowestAck_is_Min [OF g, of 0, unfolded d] slowestAck_is_Min [OF g, of 1, unfolded d]
    by (simp add: example_offsets_def committed_def mget3_def mget2_def mdef_def)
qed

section \<open>Produce\<close>

lemma backpressure_None:
  assumes "binv b" "mget (topics b) t = Some ts" "0 \<le> p" "p < int (length (ts_partitions ts))"
    and "minInt64 \<le> slowestAckLocked t p b" "slowestAckLocked t p b < maxInt64"
  shows "backpressure t p ts m b = None \<longleftrightarrow>
    (0 < maxPartitionMsgs b \<longrightarrow>
       int (length (unacked (part_log b t p) (slowestAckLocked t p b))) < maxPartitionMsgs b)
    \<and> (0 < maxPartitionBytes b \<longrightarrow>
       sum_list (map msg_size (unacked (part_log b t p) (slowestAckLocked t p b))) + msg_size m
         < maxPartitionBytes b)"
proof -
  have log: "part_log b t p = ts_partitions ts ! nat p" using assms(2-4) by (simp add: part_log_def)
  have "ts_wf ts" using assms(1,2) by (simp add: binv_def inv_topics_def)
  then have "ts_byteSums ts ! nat p = prefix_sums (part_log b t p)"
    using assms(3,4) log by (simp add: ts_wf_def)
  then show ?thesis
    by (auto simp: backpressure_def Let_def log [symmetric] bufferedCount_drop bufferedBytesCount_prefix_sums
        unacked_drop [OF assms(1,3,5,6)] not_le)
qed

lemma unacked_snoc: "unacked (ms @ [m]) s = unacked ms s @ (if s < msg_Offset m then [m] else [])"
  by (simp add: unacked_def)

lemma msg_size_nonneg: "0 \<le> msg_size m"
  by (simp add: msg_size_def)

lemma produceLocked_appends:
  assumes "binv b" "produceLocked env t m b = (None, b')"
  obtains ts p where "mget (topics b) t = Some ts" "0 \<le> p" "p < int (length (ts_partitions ts))"
    "backpressure t p ts m b = None"
    "\<And>t' p'. part_log b' t' p' = (if t' = t \<and> p' = p
       then part_log b t p @ [m\<lparr>msg_Partition := p, msg_Offset := int (length (part_log b t p))\<rparr>]
       else part_log b t' p')"
  using assms(2)
proof (cases rule: produceLocked_cases)
  case (stored ts p b1 m')
  have "ts_wf ts" using assms(1) stored by (simp add: binv_def inv_topics_def)
  then have p: "0 \<le> p" "p < int (length (ts_partitions ts))"
    using stored choosePartition_range [of m "int (length (ts_partitions ts))" p] by (auto simp: ts_wf_def)
  obtain w where b1: "b1 = b\<lparr>wal := w\<rparr>" using appendWALEntry_wal stored by blast
  let ?b2 = "b1\<lparr>topics := mput t (ts_append (nat p) m' ts) (topics b1)\<rparr>"
  have log: "ts_partitions ts ! nat p = part_log b t p" using stored p by (simp add: part_log_def)
  have "bstep b ?b2" using stored p backpressure_msg [of m' m t p ts b]
    by (intro bs_produce) (auto simp: msg_size_def)
  then have "disp t ?b2 b'" using stored assms(1) bstep_binv dispatchPartition_ok by blast
  then have same: "part_log b' t' p' = part_log ?b2 t' p'" for t' p' by (rule disp_obs)
  have "part_log b' t' p' = (if t' = t \<and> p' = p then part_log b t p @ [m'] else part_log b t' p')" for t' p'
    unfolding same using part_log_append [of "b\<lparr>wal := w\<rparr>" t ts p m' t' p'] stored p by (simp add: b1)
  with that [of ts p] stored p log show ?thesis by simp
qed simp_all

text \<open>C9. What producing does: a refused message changes no partition log; an accepted one is
  appended, with the next offset, to exactly one partition, and afterwards the messages the
  slowest group has still to acknowledge number at most \<open>MaxPartitionMsgs\<close> and hold less than
  \<open>MaxPartitionBytes\<close> bytes (each limit when it is enabled).\<close>

theorem produce_contract:
  assumes "binv b" "produceLocked env t m b = (r, b')"
    and "\<And>p. minInt64 \<le> slowestAckLocked t p b \<and> slowestAckLocked t p b < maxInt64"
  shows "case r of
      Some err \<Rightarrow> \<forall>t' p'. part_log b' t' p' = part_log b t' p'
    | None \<Rightarrow> \<exists>p. part_log b' t p = part_log b t p
          @ [m\<lparr>msg_Partition := p, msg_Offset := int (length (part_log b t p))\<rparr>]
        \<and> (\<forall>t' p'. (t', p') \<noteq> (t, p) \<longrightarrow> part_log b' t' p' = part_log b t' p')
        \<and> (0 < maxPartitionMsgs b \<longrightarrow>
             int (length (unacked (part_log b' t p) (slowestAckLocked t p b))) \<le> maxPartitionMsgs b)
        \<and> (0 < maxPartitionBytes b \<longrightarrow>
             sum_list (map msg_size (unacked (part_log b' t p) (slowestAckLocked t p b))) < maxPartitionBytes b)"
proof (cases r)
  case (Some err)
  have "part_log b' t' p' = part_log b t' p'" for t' p'
    using assms(2) by (cases rule: produceLocked_cases) (use Some in \<open>auto dest: appendWALEntry_wal\<close>)
  with Some show ?thesis by simp
next
  case None
  then obtain ts p where ts: "mget (topics b) t = Some ts" and p: "0 \<le> p" "p < int (length (ts_partitions ts))"
    and bp: "backpressure t p ts m b = None"
    and new: "\<And>t' p'. part_log b' t' p' = (if t' = t \<and> p' = p
       then part_log b t p @ [m\<lparr>msg_Partition := p, msg_Offset := int (length (part_log b t p))\<rparr>]
       else part_log b t' p')"
    using produceLocked_appends [OF assms(1) assms(2) [unfolded None]] by metis
  let ?m = "m\<lparr>msg_Partition := p, msg_Offset := int (length (part_log b t p))\<rparr>"
  have size: "msg_size ?m = msg_size m" by (simp add: msg_size_def)
  note room = bp [unfolded backpressure_None [OF assms(1) ts p conjunct1 [OF assms(3)] conjunct2 [OF assms(3)]]]
  have "0 < maxPartitionMsgs b \<longrightarrow>
      int (length (unacked (part_log b' t p) (slowestAckLocked t p b))) \<le> maxPartitionMsgs b"
    using room by (auto simp: new unacked_snoc)
  moreover have "0 < maxPartitionBytes b \<longrightarrow>
      sum_list (map msg_size (unacked (part_log b' t p) (slowestAckLocked t p b))) < maxPartitionBytes b"
    using room size msg_size_nonneg [of m] by (auto simp: new unacked_snoc)
  ultimately show ?thesis using None new by auto
qed

text \<open>State for the examples: one topic, one partition, limits 2 messages and
  8 bytes, and one message already stored.\<close>

definition example_msg :: message where
  "example_msg = \<lparr>msg_Offset = 0, msg_Partition = 0, msg_Key = [], msg_Value = [1, 2, 3],
     msg_Envelope = None, msg_Routing = None, msg_Attempts = 0, msg_LastError = ''''\<rparr>"

definition example_env :: renv where
  "example_env = \<lparr>env_now = 100 * minute, env_ord = (\<lambda>xs. xs)\<rparr>"

definition example_broker :: broker where
  "example_broker = run_ops (broker_step None)
     (NewInMemoryBrokerWithOptions None [WithMaxPartitionMsgs 2, WithMaxPartitionBytes 8])
     [OpCreateTopic (90 * minute) ''orders'' 1 \<lparr>tc_Mode = ''''\<rparr>, OpProduce example_env ''orders'' example_msg]"

lemma example_broker_binv: "binv example_broker"
  unfolding example_broker_def by (rule binv_run(1)) (simp_all add: binv_init)

lemma example_broker_eval:
  "maxPartitionMsgs example_broker = 2" "maxPartitionBytes example_broker = 8"
  "consumerOffsets example_broker = []" "part_log example_broker ''orders'' 0 = [example_msg]"
  "fst (produceLocked example_env ''orders'' example_msg example_broker) = None"
  by code_simp+

theorem produce_contract_witness:
  "\<exists>p. part_log (snd (produceLocked example_env ''orders'' example_msg example_broker)) ''orders'' p
     = part_log example_broker ''orders'' p
        @ [example_msg\<lparr>msg_Partition := p, msg_Offset := int (length (part_log example_broker ''orders'' p))\<rparr>]"
proof -
  obtain b' where b': "produceLocked example_env ''orders'' example_msg example_broker = (None, b')"
    using example_broker_eval(5) by (metis prod.collapse)
  have "minInt64 \<le> slowestAckLocked ''orders'' p example_broker
      \<and> slowestAckLocked ''orders'' p example_broker < maxInt64" for p
    by (simp add: slowestAckLocked_def example_broker_eval)
  from produce_contract [OF example_broker_binv b' this] show ?thesis by (auto simp: b')
qed

section \<open>Producer idempotency\<close>

lemma Begin_committed:
  assumes "idem_wf s" "key \<noteq> ''''" "mget (idem_items s) (produceKey tn t key) = Some st"
    and "st_Status st = IdemStatusCommitted" "now - idem_ttl s \<le> st_UpdatedAt st"
  shows "Begin now tn t key s = (Inr True, cleanupLocked now s)"
proof -
  have "mget (idem_items (cleanupLocked now s)) (produceKey tn t key) = Some st"
    using assms by (intro cleanup_keeps) (auto simp: evictable_def)
  with assms show ?thesis by (simp add: Begin_def Let_def)
qed

lemma Produce_keyed:
  assumes "t \<noteq> ''''" "routeMessage router t m = Inr msg" "msg_idemKey msg \<noteq> ''''"
    and "Produce router env t m b = (None, b')"
  shows "\<exists>r s1. Begin (env_now env) (msg_tenant msg) (finalTopicOf t msg) (msg_idemKey msg) (idem b) = (r, s1)
    \<and> (r = Inr True \<and> b' = b\<lparr>idem := s1\<rparr>
       \<or> (\<exists>b2. produceLocked env (finalTopicOf t msg) msg (b\<lparr>idem := s1\<rparr>) = (None, b2)
            \<and> b' = b2\<lparr>idem := Commit (env_now env) (msg_tenant msg) (finalTopicOf t msg) (msg_idemKey msg) [] (idem b2)\<rparr>))"
  using assms
  by (auto simp: Produce_def Let_def split: if_splits sum.splits prod.splits option.splits bool.splits)

text \<open>C10. Producing twice under one idempotency key stores once: after a produce with a new key has
  succeeded, repeating it within the key's time to live changes no partition log, and is
  acknowledged (or refused because the message's deadline has passed by then).\<close>

theorem produce_idempotent:
  assumes "binv b" "t \<noteq> ''''" "routeMessage router t m = Inr msg" "msg_idemKey msg \<noteq> ''''"
    and "Produce router env t m b = (None, b1)"
    and "fst (Begin (env_now env) (msg_tenant msg) (finalTopicOf t msg) (msg_idemKey msg) (idem b)) = Inr False"
    and "env_now env' - idem_ttl (idem b1) \<le> env_now env"
  shows "part_log (snd (Produce router env' t m b1)) t' p' = part_log b1 t' p'
    \<and> (fst (Produce router env' t m b1) = None
       \<or> fst (Produce router env' t m b1) = Some (ErrText ''message deadline exceeded''))"
proof -
  let ?k = "produceKey (msg_tenant msg) (finalTopicOf t msg) (msg_idemKey msg)"
  obtain b2 where b1: "b1 = b2\<lparr>idem := Commit (env_now env) (msg_tenant msg) (finalTopicOf t msg) (msg_idemKey msg) [] (idem b2)\<rparr>"
    using Produce_keyed [OF assms(2-5)] assms(6) by auto
  have "binv b1" using Produce_ok [OF assms(1,5)] bsteps_binv assms(1) by blast
  then have wf: "idem_wf (idem b1)" by (simp add: binv_def)
  have "\<exists>st. mget (idem_items (idem b1)) ?k = Some st \<and> st_Status st = IdemStatusCommitted
      \<and> st_UpdatedAt st = env_now env"
    using assms(4) by (simp add: b1 Commit_def)
  then obtain st where "mget (idem_items (idem b1)) ?k = Some st" "st_Status st = IdemStatusCommitted"
    "st_UpdatedAt st = env_now env" by blast
  then have "Begin (env_now env') (msg_tenant msg) (finalTopicOf t msg) (msg_idemKey msg) (idem b1)
      = (Inr True, cleanupLocked (env_now env') (idem b1))"
    using wf assms(4,7) by (intro Begin_committed) auto
  then show ?thesis
    using assms(2-4) by (auto simp: Produce_def Let_def)
qed

definition keyed_msg :: message where
  "keyed_msg = example_msg\<lparr>msg_Envelope := Some (zeroEnvelope\<lparr>env_IdempotencyKey := ''k1''\<rparr>)\<rparr>"

lemma keyed_eval:
  "fst (Produce None example_env ''orders'' keyed_msg example_broker) = None"
  "idem_ttl (idem (snd (Produce None example_env ''orders'' keyed_msg example_broker))) = 10 * minute"
  "fst (Begin (env_now example_env) (msg_tenant keyed_msg) (finalTopicOf ''orders'' keyed_msg)
      (msg_idemKey keyed_msg) (idem example_broker)) = Inr False"
  "routeMessage None ''orders'' keyed_msg = Inr keyed_msg" "msg_idemKey keyed_msg = ''k1''"
  by code_simp+

theorem produce_idempotent_witness:
  "\<exists>b1. Produce None example_env ''orders'' keyed_msg example_broker = (None, b1)
    \<and> part_log (snd (Produce None (example_env\<lparr>env_now := 105 * minute\<rparr>) ''orders'' keyed_msg b1)) ''orders'' 0
        = part_log b1 ''orders'' 0"
proof -
  obtain b1 where b1: "Produce None example_env ''orders'' keyed_msg example_broker = (None, b1)"
    using keyed_eval(1) by (metis prod.collapse)
  have ttl: "idem_ttl (idem b1) = 10 * minute" using keyed_eval(2) b1 by simp
  have "part_log (snd (Produce None (example_env\<lparr>env_now := 105 * minute\<rparr>) ''orders'' keyed_msg b1)) ''orders'' 0
        = part_log b1 ''orders'' 0"
    by (rule conjunct1 [OF produce_idempotent [OF example_broker_binv _ keyed_eval(4) _ b1 keyed_eval(3)]])
      (simp_all add: keyed_eval ttl example_env_def)
  with b1 show ?thesis by blast
qed

section \<open>Acknowledgement\<close>

lemma bstep_cw:
  assumes "bstep b b'" "binv b" "cw (idem b) (consumeKey tn t g k) r"
  shows "cw (idem b') (consumeKey tn t g k) r"
  using assms(1)
proof (cases rule: bstep.cases)
  case (bs_idem x s' w')
  obtain st where st: "mget (idem_items (idem b)) (consumeKey tn t g k) = Some st"
    "st_Status st = IdemStatusCommitted" "st_Result st = r" using assms(3) by (auto simp: cw_iff)
  have "mget (idem_items (fst (idem_step (idem b, wal b) x))) (consumeKey tn t g k) = Some st"
    using assms(2) st by (intro idem_step_shielded) (auto simp: binv_def shielded_def)
  with bs_idem st show ?thesis by (simp add: cw_iff)
next
  case (bs_note e now r)
  then show ?thesis using appendWALEntry_wal assms(3) by fastforce
next
  case (bs_wal_fail now e err)
  then show ?thesis using appendWALEntry_wal assms(3) by fastforce
next
  case (bs_produce t ts p m now b1)
  then show ?thesis using appendWALEntry_wal assms(3) by fastforce
next
  case (bs_create_logged t n cfg now b1)
  then show ?thesis using appendWALEntry_wal assms(3) by fastforce
next
  case (bs_flush now r)
  from flush_frame [OF this] assms(3) show ?thesis by fastforce
qed (use assms(3) in \<open>auto simp: same_core_def trySend_def setNextIndex_def delInflight_def
    putInflight_def createTopicLockedWithConfig_def addStream_def Let_def recv_def
    split: option.splits if_splits sum.splits list.splits\<close>)

lemma bsteps_cw:
  assumes "bsteps b b'" "binv b" "cw (idem b) (consumeKey tn t g k) r"
  shows "cw (idem b') (consumeKey tn t g k) r"
  using assms by (induction rule: rtranclp_induct) (auto intro: bstep_cw bsteps_binv)

lemma ConsumeCommit_None:
  assumes "ConsumeCommitIfOwner now tn t g k ow res (s, w) = (None, (s', w'))" "k \<noteq> ''''"
  shows "\<exists>r. cw s' (consumeKey tn t g k) r"
  using assms
  by (auto simp: ConsumeCommitIfOwner_def Let_def cw_iff split: option.splits if_splits prod.splits)

text \<open>The outcomes of \<open>AckIfOwner\<close>: a refusal that changes nothing observable, or an
  acknowledgement by the owner after the idempotency commit (when the store knows the key).\<close>

lemma AckIfOwner_cases:
  assumes "AckIfOwner env t g p off owner b = (r, b')"
  obtains (refused) err where "r = Some err" "quiet b b'"
  | (acked) e z where "mget (inflight_of b t g p) off = Some e" "ie_Owner e = TrimSpace owner"
      "quiet b z" "ackLocked env t g p off z = (r, b')" "0 \<le> off"
      "\<exists>ts. mget (topics b) t = Some ts \<and> p < int (length (ts_partitions ts))"
      "msg_idemKey (ie_Msg e) \<noteq> '''' \<Longrightarrow>
         (\<exists>res. cw (idem z) (consumeKey (msg_tenant (ie_Msg e)) t g (msg_idemKey (ie_Msg e))) res)
         \<or> mget (idem_items (cleanupLocked (env_now env) (idem b)))
             (consumeKey (msg_tenant (ie_Msg e)) t g (msg_idemKey (ie_Msg e))) = None"
proof (cases "checkAckArgs t g p off = None \<and> TrimSpace owner \<noteq> ''''")
  case False
  have "b' = b \<and> r \<noteq> None"
  proof (cases "checkAckArgs t g p off")
    case None
    with False assms show ?thesis by (auto simp: AckIfOwner_def)
  next
    case (Some err)
    then have "(r, b') = (Some err, b)" using assms by (simp add: AckIfOwner_def)
    then show ?thesis by simp
  qed
  then show ?thesis using refused by auto
next
  case True
  then have off: "0 \<le> off" by (simp add: checkAckArgs_None)
  obtain x b1 where o: "ownedEntry t g p off (TrimSpace owner) b = (x, b1)" by force
  have q: "quiet b b1" using ownedEntry_cases [OF o] by blast
  show ?thesis
  proof (cases x)
    case (Inl err)
    with assms True o q show ?thesis by (intro refused [of err]) (auto simp: AckIfOwner_def Let_def)
  next
    case (Inr e)
    let ?m = "ie_Msg e"
    have rng: "\<exists>ts. mget (topics b) t = Some ts \<and> p < int (length (ts_partitions ts))"
      using o Inr by (auto simp: ownedEntry_def Let_def split: option.splits if_splits)
    have en: "mget (inflight_of b t g p) off = Some e" "ie_Owner e = TrimSpace owner"
      using ownedEntry_cases [OF o] Inr by (simp_all add: quiet_obs [OF q])
    have idem1: "idem b1 = idem b" using o by (auto simp: ownedEntry_def Let_def ensureInFlight_def split: option.splits if_splits)
    show ?thesis
    proof (cases "msg_idemKey ?m = ''''")
      case key: True
      with assms True o Inr have "ackLocked env t g p off b1 = (r, b')" by (simp add: AckIfOwner_def Let_def)
      from acked [OF en q this off rng] key show ?thesis by simp
    next
      case key: False
      obtain c s' w' where c: "ConsumeCommitIfOwner (env_now env) (msg_tenant ?m) t g (msg_idemKey ?m)
          (TrimSpace owner) [] (idem b1, wal b1) = (c, (s', w'))" by (metis surj_pair)
      let ?z = "b1\<lparr>idem := s', wal := w'\<rparr>"
      have z: "quiet b ?z" using quiet_trans [OF q quiet_consumeCommit [OF c]] .
      consider (fail) err where "r = Some err" "b' = ?z"
        | (ack) "c = None \<or> c = Some ErrIdempotencyNotFound" "ackLocked env t g p off ?z = (r, b')"
        using assms True o Inr key c by (auto simp: AckIfOwner_def Let_def split: option.splits if_splits)
      then show ?thesis
      proof cases
        case fail
        with z show ?thesis using refused by blast
      next
        case ack
        have "(\<exists>res. cw (idem ?z) (consumeKey (msg_tenant ?m) t g (msg_idemKey ?m)) res)
            \<or> mget (idem_items (cleanupLocked (env_now env) (idem b))) (consumeKey (msg_tenant ?m) t g (msg_idemKey ?m)) = None"
        proof (cases c)
          case None
          with ConsumeCommit_None [OF c [unfolded None] key] show ?thesis by simp
        next
          case (Some err)
          then have "err = ErrIdempotencyNotFound" using ack(1) by simp
          with c Some key idem1 show ?thesis
            by (auto simp: ConsumeCommitIfOwner_def Let_def idem_append_def FileWAL_Append_def flushAndSyncLocked_def
                split: option.splits if_splits prod.splits)
        qed
        from acked [OF en z ack(2) off rng this] show ?thesis .
      qed
    qed
  qed
qed

text \<open>C6. Only the owner of the delivery acknowledges, and only after the consumer's work is
  recorded: \<open>AckIfOwner\<close> succeeds only if the message is in flight for the group and was last
  delivered to that owner; then the group's committed offset covers it, and if the message
  carries an idempotency key the store knows, that key is COMMITTED.  When it fails, partition
  logs, in-flight entries and committed offsets are all unchanged.\<close>

theorem ack_if_owner_contract:
  assumes "binv b" "AckIfOwner env t g p off owner b = (r, b')"
  shows "case r of
      None \<Rightarrow> (\<exists>e. mget (inflight_of b t g p) off = Some e \<and> ie_Owner e = TrimSpace owner
          \<and> (msg_idemKey (ie_Msg e) = ''''
             \<or> (\<exists>res. cw (idem b') (consumeKey (msg_tenant (ie_Msg e)) t g (msg_idemKey (ie_Msg e))) res)
             \<or> mget (idem_items (cleanupLocked (env_now env) (idem b)))
                  (consumeKey (msg_tenant (ie_Msg e)) t g (msg_idemKey (ie_Msg e))) = None))
        \<and> off \<le> committed b' t g p
    | Some err \<Rightarrow> \<forall>t' g' p'. part_log b' t' p' = part_log b t' p'
        \<and> inflight_of b' t' g' p' = inflight_of b t' g' p' \<and> committed b' t' g' p' = committed b t' g' p'"
  using assms(2)
proof (cases rule: AckIfOwner_cases)
  case (refused err)
  then show ?thesis by (simp add: quiet_obs)
next
  case (acked e z)
  have z: "binv z" by (rule quiet_binv [OF acked(3) assms(1)])
  obtain ts where ts: "mget (topics z) t = Some ts" "p < int (length (ts_partitions ts))"
    using acked(6) by (auto simp: quiet_obs [OF acked(3)])
  let ?c = "commitOffset t g p off (delInflight t g p off z)"
  have eq: "r = None" "b' = dispatchPartitionLocked env t p ?c"
    using acked(4) ackLocked_eq [OF acked(5) ts] by auto
  have s: "bsteps z ?c" by (rule commit_del_bsteps [OF acked(5)])
  have s2: "bsteps ?c b'" using dispatchPartition_ok [OF bsteps_binv [OF s z]] by (simp add: eq disp_def)
  have "committed ?c t g p \<le> committed b' t g p" using bsteps_bmono [OF s2] unfolding bmono_def by blast
  then have "off \<le> committed b' t g p" by simp
  moreover have "cw (idem b') (consumeKey tn t g key) res" if "cw (idem z) (consumeKey tn t g key) res" for res tn key
    by (rule bsteps_cw [OF rtranclp_trans [OF s s2] z that])
  ultimately have "msg_idemKey (ie_Msg e) = ''''
      \<or> (\<exists>res. cw (idem b') (consumeKey (msg_tenant (ie_Msg e)) t g (msg_idemKey (ie_Msg e))) res)
      \<or> mget (idem_items (cleanupLocked (env_now env) (idem b)))
           (consumeKey (msg_tenant (ie_Msg e)) t g (msg_idemKey (ie_Msg e))) = None" "off \<le> committed b' t g p"
    using acked(7) by metis+
  with acked(1,2) eq(1) show ?thesis by simp
qed

text \<open>A group with one consumer, for the examples below: the stored message of \<open>example_broker\<close> has
  been delivered under a lease to the worker \<open>w1\<close>.\<close>

definition example_leased_broker :: broker where
  "example_leased_broker = run_ops (broker_step None) example_broker
     [OpConsumeWithLease example_env ''orders'' ''g'' ''w1'' (30 * second)]"

lemma example_leased_binv: "binv example_leased_broker"
  unfolding example_leased_broker_def by (rule binv_run(1)) (simp_all add: example_broker_binv)

lemma example_leased_eval:
  "fst (AckIfOwner example_env ''orders'' ''g'' 0 0 ''w1'' example_leased_broker) = None"
  "fst (AckIfOwner example_env ''orders'' ''g'' 0 0 ''w2'' example_leased_broker) = Some ErrNotOwner"
  by code_simp+

theorem ack_if_owner_contract_witness:
  "\<exists>b1 b2. AckIfOwner example_env ''orders'' ''g'' 0 0 ''w1'' example_leased_broker = (None, b1)
    \<and> 0 \<le> committed b1 ''orders'' ''g'' 0
    \<and> AckIfOwner example_env ''orders'' ''g'' 0 0 ''w2'' example_leased_broker = (Some ErrNotOwner, b2)
    \<and> committed b2 ''orders'' ''g'' 0 = committed example_leased_broker ''orders'' ''g'' 0"
proof -
  obtain b1 b2 where
    b1: "AckIfOwner example_env ''orders'' ''g'' 0 0 ''w1'' example_leased_broker = (None, b1)"
    and b2: "AckIfOwner example_env ''orders'' ''g'' 0 0 ''w2'' example_leased_broker = (Some ErrNotOwner, b2)"
    using example_leased_eval by (metis prod.collapse)
  from ack_if_owner_contract [OF example_leased_binv b1] ack_if_owner_contract [OF example_leased_binv b2]
  show ?thesis using b1 b2 by auto
qed

section \<open>Dead letters\<close>

lemma publish_stored:
  assumes "binv b" "publishToDLQLocked env t m b = (None, b')" "\<not> HasPrefix t ''dlq.''"
  shows "\<exists>q dm. part_log b' (dlqTopicName t) q = part_log b (dlqTopicName t) q @ [dm]
    \<and> dm = (dlqMessage (env_now env) t m)\<lparr>msg_Partition := q, msg_Offset := int (length (part_log b (dlqTopicName t) q))\<rparr>
    \<and> (\<forall>t' p'. t' \<noteq> dlqTopicName t \<longrightarrow> part_log b' t' p' = part_log b t' p')"
proof -
  let ?d = "dlqTopicName t" and ?m = "dlqMessage (env_now env) t m"
  let ?n = "case mget (topics b) t of None \<Rightarrow> 1
    | Some ts \<Rightarrow> if ts_partitions ts \<noteq> [] then int (length (ts_partitions ts)) else 1"
  have n: "?n < 2 ^ 32" using assms(1) by (auto simp: binv_def inv_topics_def ts_wf_def split: option.splits)
  obtain x where x: "produceLocked env ?d ?m x = (None, b')" "binv x" "\<And>t' p'. part_log x t' p' = part_log b t' p'"
  proof (cases "mget (topics b) ?d")
    case (Some ts)
    with assms show ?thesis using that [of b]
      by (auto simp: publishToDLQLocked_def Let_def split: if_splits)
  next
    case None
    obtain r y where y: "createTopicLocked ?d ?n b = (r, y)" by force
    have "r = None" "produceLocked env ?d ?m y = (None, b')"
      using assms(2,3) None y by (auto simp: publishToDLQLocked_def Let_def split: if_splits option.splits)
    moreover have "part_log y t' p' = part_log b t' p'" for t' p'
      using y None
      by (auto simp: createTopicLocked_def createTopicLockedWithConfig_def part_log_new split: if_splits sum.splits)
    moreover have "binv y" using y \<open>r = None\<close> n binv_createLocked assms(1) by (auto simp: createTopicLocked_def)
    ultimately show ?thesis using that by blast
  qed
  from produceLocked_appends [OF x(2,1)] obtain p where
    "\<And>t' p'. part_log b' t' p' = (if t' = ?d \<and> p' = p
       then part_log x ?d p @ [?m\<lparr>msg_Partition := p, msg_Offset := int (length (part_log x ?d p))\<rparr>]
       else part_log x t' p')" by metis
  then show ?thesis by (intro exI [of _ p]) (simp add: x(3))
qed

lemma finishEntry_committed:
  assumes "binv b" "in_flight b (t, g, p, off) e"
  shows "off \<le> committed (finishEntry env (t, g, p, off) b) t g p"
    "part_log (finishEntry env (t, g, p, off) b) t' p' = part_log b t' p'"
proof -
  have ok: "entry_ok b t g p off e" using in_flight_ok assms by blast
  let ?d = "delInflight t g p off b"
  let ?c = "commitOffset t g p off ?d"
  obtain ts where ts: "mget (topics ?d) t = Some ts" "p < int (length (ts_partitions ts))"
    using entry_ok_range(2) [OF ok] by (auto simp: delInflight_def)
  have c: "bsteps b ?c" using ok by (intro commit_del_bsteps) (simp add: entry_ok_def)
  have d: "disp t ?c (dispatchPartitionLocked env t p ?c)"
    by (rule dispatchPartition_ok [OF bsteps_binv [OF c assms(1)]])
  have "off \<le> committed ?c t g p" by simp
  moreover have "committed ?c t g p \<le> committed (dispatchPartitionLocked env t p ?c) t g p"
    using d bsteps_bmono unfolding disp_def bmono_def by blast
  ultimately have "off \<le> committed (snd (advanceOffsetLocked env t g p off ?d)) t g p"
    unfolding advanceOffset_eq [OF entry_ok_range(1) [OF ok] ts] by simp
  moreover have "same_core x (purgeRetryStateLocked t g p off x)" for x by simp
  ultimately show "off \<le> committed (finishEntry env (t, g, p, off) b) t g p"
    by (simp add: finishEntry_def same_core_def committed_def)
  have "part_log (snd (advanceOffsetLocked env t g p off ?d)) t' p' = part_log b t' p'"
    unfolding advanceOffset_eq [OF entry_ok_range(1) [OF ok] ts]
    using disp_obs(1) [OF d] by (simp add: delInflight_def)
  then show "part_log (finishEntry env (t, g, p, off) b) t' p' = part_log b t' p'"
    using core_purge [of "snd (advanceOffsetLocked env t g p off ?d)" t g p off]
    by (simp add: finishEntry_def same_core_def part_log_def)
qed

text \<open>C7. Dead-lettering never drops a message: when an in-flight message of an ordinary topic has
  used up its attempts, either a copy of it with its key and value and with the metadata of the
  original (topic, partition, offset, attempts, last error) is appended to the dead-letter topic
  and only then is the group moved past it, or the message is still in flight for the group, with
  the failure recorded in its last error.\<close>

theorem dead_letter_no_drop:
  assumes "binv b" "in_flight b (t, g, p, off) e" "\<not> HasPrefix t ''dlq.''"
    and "b' = deadLetter env (t, g, p, off) e b"
  shows "(\<exists>q dm. part_log b' (dlqTopicName t) q = part_log b (dlqTopicName t) q @ [dm]
        \<and> msg_Key dm = msg_Key (ie_Msg e) \<and> msg_Value dm = msg_Value (ie_Msg e)
        \<and> map_option env_DLQ (msg_Envelope dm) = Some (Some
            \<lparr>dlq_OriginalTopic = t, dlq_OriginalPartition = p, dlq_OriginalOffset = off,
             dlq_Attempts = ie_Attempts e, dlq_LastError = ie_LastError e,
             dlq_RoutedAtMs = UnixMilli (env_now env)\<rparr>)
        \<and> off \<le> committed b' t g p)
    \<or> (\<exists>err. in_flight b' (t, g, p, off) (setEntryError
          (appendLastError (ie_LastError e) (''dlq_publish_failed: '' @ error_Error err)) e))"
proof -
  let ?k = "(t, g, p, off)"
  obtain r b1 where r: "publishToDLQLocked env t (dlqMsgOf (env_now env) ?k e) b = (r, b1)" by force
  have tch: "touches (dlqTopicName t) b b1" by (rule publish_ok [OF assms(1) r])
  have b1: "binv b1" "in_flight b1 ?k e"
    using assms(2) touches_binv [OF tch assms(1)] tch by (auto simp: touches_def in_flight_def)
  show ?thesis
  proof (cases r)
    case (Some err)
    then have "b' = noteEntryError (env_now env) ?k
        (appendLastError (ie_LastError e) (''dlq_publish_failed: '' @ error_Error err)) e b1"
      using assms(4) r by (simp add: deadLetter_def)
    then show ?thesis using noteEntryError_ok(2) [OF b1(2)] by blast
  next
    case None
    then have b': "b' = finishEntry env ?k b1" using assms(4) r by (simp add: deadLetter_def)
    obtain q dm where dm: "part_log b1 (dlqTopicName t) q = part_log b (dlqTopicName t) q @ [dm]"
      "dm = (dlqMessage (env_now env) t (dlqMsgOf (env_now env) ?k e))
        \<lparr>msg_Partition := q, msg_Offset := int (length (part_log b (dlqTopicName t) q))\<rparr>"
      using publish_stored [OF assms(1) r [unfolded None] assms(3)] by blast
    have ok: "entry_ok b t g p off e" using in_flight_ok assms(1,2) by blast
    have "msg_Offset (stripMsg (ie_Msg e)) = off" "msg_Partition (stripMsg (ie_Msg e)) = p"
      using ok binv_log_offset [OF assms(1), of p "nat off" t] by (auto simp: entry_ok_def stripMsg_def)
    then have "msg_Offset (ie_Msg e) = off" "msg_Partition (ie_Msg e) = p" by (auto simp: stripMsg_def)
    then have "map_option env_DLQ (msg_Envelope dm) = Some (Some
            \<lparr>dlq_OriginalTopic = t, dlq_OriginalPartition = p, dlq_OriginalOffset = off,
             dlq_Attempts = ie_Attempts e, dlq_LastError = ie_LastError e,
             dlq_RoutedAtMs = UnixMilli (env_now env)\<rparr>)"
      and "msg_Key dm = msg_Key (ie_Msg e)" "msg_Value dm = msg_Value (ie_Msg e)"
      by (auto simp: dm(2) dlqMessage_def dlqMsgOf_def Let_def)
    then show ?thesis
      using dm(1) finishEntry_committed [OF b1] unfolding b' by (intro disjI1 exI [of _ q] exI [of _ dm]) simp
  qed
qed

text \<open>The example message with a retry policy of one attempt, delivered once to \<open>w1\<close>.\<close>

definition doomed_msg :: message where
  "doomed_msg = example_msg\<lparr>msg_Envelope := Some (zeroEnvelope\<lparr>env_RetryPolicy :=
     Some \<lparr>rp_MaxAttempts = 1, rp_BackoffMs = 0, rp_MaxBackoffMs = 0\<rparr>\<rparr>)\<rparr>"

definition doomed_broker :: broker where
  "doomed_broker = run_ops (broker_step None) example_leased_broker [OpProduce example_env ''orders'' doomed_msg]"

definition doomed_entry :: inflightEntry where
  "doomed_entry = \<lparr>ie_Msg = doomed_msg\<lparr>msg_Offset := 1\<rparr>, ie_SentAt = 100 * minute, ie_Attempts = 1,
     ie_NextDeliverAt = 0, ie_LastError = '''', ie_Owner = ''w1''\<rparr>"

lemma doomed_binv: "binv doomed_broker"
  unfolding doomed_broker_def by (rule binv_run(1)) (simp_all add: example_leased_binv)

lemma doomed_in_flight: "in_flight doomed_broker (''orders'', ''g'', 0, 1) doomed_entry"
  by code_simp

theorem dead_letter_no_drop_witness:
  "(\<exists>q dm. part_log (deadLetter example_env (''orders'', ''g'', 0, 1) doomed_entry doomed_broker) ''dlq.orders'' q
        = part_log doomed_broker ''dlq.orders'' q @ [dm] \<and> msg_Value dm = [1, 2, 3])
   \<or> (\<exists>e. in_flight (deadLetter example_env (''orders'', ''g'', 0, 1) doomed_entry doomed_broker) (''orders'', ''g'', 0, 1) e)"
proof -
  have "\<not> HasPrefix ''orders'' ''dlq.''" by (simp add: HasPrefix_def)
  from dead_letter_no_drop [OF doomed_binv doomed_in_flight this refl, of example_env] show ?thesis
    by (auto simp: dlqTopicName_def doomed_entry_def doomed_msg_def example_msg_def)
qed

section \<open>When redelivery may touch a message\<close>

definition chan_contents :: "broker \<Rightarrow> nat \<Rightarrow> message list" where
  "chan_contents b ch = (case mget (chans b) ch of None \<Rightarrow> [] | Some c \<Rightarrow> ch_buf c)"

lemma noteRetryError_chans [simp]: "chans (noteRetryError now t g p off err b) = chans b"
proof -
  obtain r b' where ap: "appendWALEntry now (retryEntry now t g p off err)
      (putRetryState t g p off \<lparr>rs_LastError = err, rs_LastErrorAt = now\<rparr> b) = (r, b')" by force
  with appendWALEntry_wal [OF ap] show ?thesis by (auto simp: noteRetryError_def putRetryState_def)
qed

lemma markTimeout_keeps:
  assumes "markTimeout now k e b = (e', b')"
  shows "chans b' = chans b" "ie_NextDeliverAt e' = ie_NextDeliverAt e"
    "ie_Owner e' = ie_Owner e" "ie_Attempts e' = ie_Attempts e"
  using assms
  by (auto simp: markTimeout_def noteEntryError_def putInflight_def split: if_splits prod.splits)



end
