(* ===== verification/BrokerQueries.thy ===== *)
theory BrokerQueries
  imports BrokerContracts
begin

text \<open>
  The read-only views of the broker that the debug API, the CLI and the metrics collector
  serve: \<open>ConsumerLag\<close>, \<open>MessageStates\<close>, \<open>Peek\<close>, \<open>MetricsSnapshot\<close> and
  \<open>SnapshotInflightCounts\<close> (\<^verbatim>\<open>internal/broker/broker.go\<close>, \<^verbatim>\<open>state_maps.go\<close>,
  \<^verbatim>\<open>metrics.go\<close>, \<^verbatim>\<open>metrics_snapshot.go\<close>, \<^verbatim>\<open>internal/debugtypes\<close>).  Iteration over a Go map
  is iteration over the association list; \<open>sort.Slice\<close> on rows with distinct keys is
  \<open>sort_key\<close>; \<open>sort.Search\<close> is the library's binary search, written out.  The lemmas show
  that the views are right: lag is the number of messages a group has still to acknowledge,
  computed in the same way by both views, and the state shown for a message follows from
  where the broker has it.
\<close>

section \<open>Lease snapshot of a partition\<close>

record leaseSnapshot =
  ls_Owners :: "string list"
  ls_OldestAgeMs :: int
  ls_LeaseDurationMs :: int
  ls_LeaseExpiresAtMs :: int
  ls_Stalled :: bool

text \<open>The entry sent first; of several sent at the same time, the first met.\<close>

fun oldestEntry :: "inflightEntry option \<Rightarrow> inflightEntry list \<Rightarrow> inflightEntry option" where
  "oldestEntry oldest [] = oldest"
| "oldestEntry oldest (e # es) =
     oldestEntry
       (case oldest of
          None \<Rightarrow> Some e
        | Some x \<Rightarrow> if ie_SentAt e < ie_SentAt x then Some e else Some x) es"

definition leaseOwners :: "inflightEntry list \<Rightarrow> string list" where
  "leaseOwners es = sort (remdups (filter (\<lambda>ow. ow \<noteq> '''') (map ie_Owner es)))"

definition partitionLeaseSnapshotLocked ::
  "string \<Rightarrow> string \<Rightarrow> int \<Rightarrow> gotime \<Rightarrow> broker \<Rightarrow> leaseSnapshot" where
  "partitionLeaseSnapshotLocked topic grp prt now b =
     (let entries = map snd (inflight_of b topic grp prt); owners = leaseOwners entries;
          none = \<lparr>ls_Owners = owners, ls_OldestAgeMs = 0, ls_LeaseDurationMs = 0,
                  ls_LeaseExpiresAtMs = 0, ls_Stalled = False\<rparr> in
      case oldestEntry None entries of
        None \<Rightarrow> none
      | Some oldest \<Rightarrow>
          if IsZero (ie_SentAt oldest) then none
          else
            let age = Milliseconds (time_Sub now (ie_SentAt oldest));
                ld = mdef 0 (ownerLeaseByTopicGroupLocked topic grp b) (ie_Owner oldest);
                lease = (if ld \<le> 0 then ackTimeout b else ld);
                leaseMs = Milliseconds lease in
            \<lparr>ls_Owners = owners, ls_OldestAgeMs = age, ls_LeaseDurationMs = leaseMs,
             ls_LeaseExpiresAtMs = UnixMilli (ie_SentAt oldest + lease),
             ls_Stalled = (leaseMs > 0 \<and> age > leaseMs)\<rparr>)"

section \<open>Consumer lag\<close>

record consumerLagRow =
  lr_Group :: string
  lr_Topic :: string
  lr_Partition :: int
  lr_HeadOffset :: int
  lr_CommittedOffset :: int
  lr_Inflight :: int
  lr_Lag :: int
  lr_LeaseOwners :: "string list"
  lr_LastOwner :: string
  lr_LastDeliveredAt :: int
  lr_OldestLeaseAge :: int
  lr_LeaseDurationMs :: int
  lr_LeaseExpiresAt :: int
  lr_Stalled :: bool

text \<open>The topics a query is about: the one named, or all of them in order.\<close>

definition queryTopics :: "string \<Rightarrow> broker \<Rightarrow> string list" where
  "queryTopics topic b =
     (if topic \<noteq> '''' then (if mget (topics b) topic = None then [] else [topic])
      else sort (mkeys (topics b)))"

text \<open>Internally an offset is the last one acknowledged; the views show the next one.\<close>

definition committedNext :: "broker \<Rightarrow> string \<Rightarrow> string \<Rightarrow> int \<Rightarrow> int" where
  "committedNext b topic grp prt = max 0 (wrap64 (committed b topic grp prt + 1))"

definition lagRow :: "gotime \<Rightarrow> string \<Rightarrow> string \<Rightarrow> topicState \<Rightarrow> broker \<Rightarrow> nat \<Rightarrow> consumerLagRow" where
  "lagRow now grp name ts b p =
     (let prt = int p;
          comm = committedNext b name grp prt;
          snap = partitionLeaseSnapshotLocked name grp prt now b;
          lastD = mget3 (lastDelivery b) name grp prt;
          head = int (length (ts_partitions ts ! p)) in
      \<lparr>lr_Group = grp, lr_Topic = name, lr_Partition = prt, lr_HeadOffset = head,
       lr_CommittedOffset = comm, lr_Inflight = int (length (inflight_of b name grp prt)),
       lr_Lag = max 0 (head - comm), lr_LeaseOwners = ls_Owners snap,
       lr_LastOwner = (case lastD of None \<Rightarrow> '''' | Some d \<Rightarrow> ds_Owner d),
       lr_LastDeliveredAt = (case lastD of None \<Rightarrow> 0
         | Some d \<Rightarrow> if IsZero (ds_At d) then 0 else UnixMilli (ds_At d)),
       lr_OldestLeaseAge = ls_OldestAgeMs snap, lr_LeaseDurationMs = ls_LeaseDurationMs snap,
       lr_LeaseExpiresAt = ls_LeaseExpiresAtMs snap, lr_Stalled = ls_Stalled snap\<rparr>)"

definition ConsumerLag :: "gotime \<Rightarrow> string \<Rightarrow> string \<Rightarrow> broker \<Rightarrow> consumerLagRow list" where
  "ConsumerLag now grp topic b =
     concat (map (\<lambda>name. case mget (topics b) name of
         None \<Rightarrow> []
       | Some ts \<Rightarrow> map (lagRow now grp name ts b) [0..<length (ts_partitions ts)])
       (queryTopics topic b))"

section \<open>Message states\<close>

record messageStateRow =
  mr_Group :: string
  mr_Topic :: string
  mr_Partition :: int
  mr_Offset :: int
  mr_State :: string
  mr_Owner :: string
  mr_Key :: bytes
  mr_Value :: bytes
  mr_Attempts :: int
  mr_LastError :: string
  mr_LastDeliveredAt :: int
  mr_LeaseAgeMs :: int
  mr_LeaseDurationMs :: int
  mr_LeaseExpiresAtMs :: int
  mr_Stalled :: bool
  mr_Envelope :: "envelope option"
  mr_Routing :: "routingMetadata option"

definition baseRow :: "string \<Rightarrow> string \<Rightarrow> int \<Rightarrow> message \<Rightarrow> messageStateRow" where
  "baseRow grp topic prt m =
     \<lparr>mr_Group = grp, mr_Topic = topic, mr_Partition = prt, mr_Offset = msg_Offset m,
      mr_State = '''', mr_Owner = '''', mr_Key = msg_Key m, mr_Value = msg_Value m, mr_Attempts = 1,
      mr_LastError = '''', mr_LastDeliveredAt = 0, mr_LeaseAgeMs = 0, mr_LeaseDurationMs = 0,
      mr_LeaseExpiresAtMs = 0, mr_Stalled = False, mr_Envelope = msg_Envelope m,
      mr_Routing = msg_Routing m\<rparr>"

definition inFlightRow :: "gotime \<Rightarrow> duration \<Rightarrow> inflightEntry \<Rightarrow> messageStateRow \<Rightarrow> messageStateRow" where
  "inFlightRow now lease e row =
     (let sent = \<not> IsZero (ie_SentAt e);
          age = (if sent then Milliseconds (time_Sub now (ie_SentAt e)) else 0);
          leaseMs = Milliseconds lease in
      row\<lparr>mr_State := ''in_flight'', mr_Owner := ie_Owner e, mr_Attempts := ie_Attempts e,
        mr_LastError := ie_LastError e,
        mr_LastDeliveredAt := (if sent then UnixMilli (ie_SentAt e) else 0), mr_LeaseAgeMs := age,
        mr_LeaseDurationMs := leaseMs,
        mr_LeaseExpiresAtMs := (if sent then UnixMilli (ie_SentAt e + lease) else 0),
        mr_Stalled := (leaseMs > 0 \<and> age > leaseMs)\<rparr>)"

definition stateRow :: "gotime \<Rightarrow> string \<Rightarrow> string \<Rightarrow> int \<Rightarrow> broker \<Rightarrow> message \<Rightarrow> messageStateRow" where
  "stateRow now grp topic prt b m =
     (let row = baseRow grp topic prt m in
      if HasPrefix topic ''dlq.''
      then row\<lparr>mr_State := ''dead_lettered'', mr_Attempts := msg_Attempts m, mr_LastError := msg_LastError m\<rparr>
      else case mget (inflight_of b topic grp prt) (msg_Offset m) of
        Some e \<Rightarrow>
          let ld = mdef 0 (ownerLeaseByTopicGroupLocked topic grp b) (ie_Owner e) in
          inFlightRow now (if ld \<le> 0 then ackTimeout b else ld) e row
      | None \<Rightarrow>
          let err = seedError topic grp prt (msg_Offset m) b in
          if err \<noteq> '''' then row\<lparr>mr_State := ''retried'', mr_LastError := err\<rparr>
          else if msg_Offset m < committedNext b topic grp prt then row\<lparr>mr_State := ''acked''\<rparr>
          else row\<lparr>mr_State := ''queued''\<rparr>)"

definition rowMatches :: "string \<Rightarrow> string \<Rightarrow> messageStateRow \<Rightarrow> bool" where
  "rowMatches status owner row \<longleftrightarrow>
     (status = '''' \<or> status = ''all'' \<or> mr_State row = status) \<and> (owner = '''' \<or> mr_Owner row = owner)"

text \<open>Append the row if it matches; stop everything once the limit is reached.  The Boolean
  says whether the loops were left (\<^verbatim>\<open>goto done\<close>).\<close>

fun collectRows ::
  "(messageStateRow \<Rightarrow> bool) \<Rightarrow> nat \<Rightarrow> messageStateRow list \<Rightarrow> messageStateRow list \<Rightarrow> bool \<times> messageStateRow list" where
  "collectRows matches limit [] rows = (False, rows)"
| "collectRows matches limit (r # rs) rows =
     (let rows' = (if matches r then rows @ [r] else rows) in
      if limit \<le> length rows' then (True, rows') else collectRows matches limit rs rows')"

fun collectParts ::
  "(messageStateRow \<Rightarrow> bool) \<Rightarrow> nat \<Rightarrow> messageStateRow list list \<Rightarrow> messageStateRow list \<Rightarrow> messageStateRow list" where
  "collectParts matches limit [] rows = rows"
| "collectParts matches limit (ps # pss) rows =
     (case collectRows matches limit ps rows of
        (True, rows') \<Rightarrow> rows'
      | (False, rows') \<Rightarrow> collectParts matches limit pss rows')"

definition clampLimit :: "int \<Rightarrow> nat" where
  "clampLimit limit = nat (if limit < 1 then 1 else if limit > 1000 then 1000 else limit)"

text \<open>The rows of each partition of each topic, newest message first.\<close>

definition partRows :: "gotime \<Rightarrow> string \<Rightarrow> string \<Rightarrow> broker \<Rightarrow> messageStateRow list list" where
  "partRows now grp topic b =
     concat (map (\<lambda>name. case mget (topics b) name of
         None \<Rightarrow> []
       | Some ts \<Rightarrow> map (\<lambda>p. map (stateRow now grp name (int p) b) (rev (ts_partitions ts ! p)))
                      [0..<length (ts_partitions ts)])
       (queryTopics topic b))"

definition rowKey :: "messageStateRow \<Rightarrow> string \<times> int \<times> int" where
  "rowKey r = (mr_Topic r, mr_Partition r, - mr_Offset r)"

definition MessageStates ::
  "gotime \<Rightarrow> string \<Rightarrow> string \<Rightarrow> string \<Rightarrow> string \<Rightarrow> int \<Rightarrow> broker \<Rightarrow> messageStateRow list" where
  "MessageStates now grp topic status owner limit b =
     (let lim = clampLimit limit;
          rows = collectParts (rowMatches (ToLower (TrimSpace status)) (TrimSpace owner)) lim
                   (partRows now grp topic b) [] in
      take lim (sort_key rowKey rows))"

section \<open>Peek\<close>

definition Peek :: "string \<Rightarrow> int \<Rightarrow> broker \<Rightarrow> error + (int \<times> message) list" where
  "Peek topic limit b =
     (case mget (topics b) topic of
        None \<Rightarrow> Inl (ErrText (''topic not found: '' @ topic))
      | Some ts \<Rightarrow>
          let flat = concat (map (\<lambda>p. map (\<lambda>m. (int p, m)) (ts_partitions ts ! p))
                       [0..<length (ts_partitions ts)]) in
          Inr (take (clampLimit limit) (sort_key (\<lambda>(p, m). (- msg_Offset m, p)) flat)))"

section \<open>Metrics\<close>

record partitionMetric =
  pm_Topic :: string
  pm_Group :: string
  pm_Partition :: int
  pm_Value :: int

record metricsSnapshot =
  sn_InFlight :: "partitionMetric list"
  sn_ConsumerLag :: "partitionMetric list"

text \<open>\<^verbatim>\<open>sort.Search\<close>: the smallest index in a range from which on \<open>f\<close> holds.\<close>

function searchLoop :: "(nat \<Rightarrow> bool) \<Rightarrow> nat \<Rightarrow> nat \<Rightarrow> nat" where
  "searchLoop f i j =
     (if i < j then
        let h = (i + j) div 2 in
        if f h then searchLoop f i h else searchLoop f (h + 1) j
      else i)"
  by pat_completeness auto
termination
  by (relation "measure (\<lambda>(f, i, j). j - i)") auto

declare searchLoop.simps [simp del]

definition lagForPartition :: "message list \<Rightarrow> int \<Rightarrow> int" where
  "lagForPartition part comm =
     (if part = [] then 0
      else int (length part) - int (searchLoop (\<lambda>i. comm < msg_Offset (part ! i)) 0 (length part)))"

text \<open>The groups that have offsets, in-flight maps or consumers for a topic.\<close>

definition metricGroups :: "string \<Rightarrow> broker \<Rightarrow> string list" where
  "metricGroups topic b =
     remdups (mkeys (mdef [] (consumerOffsets b) topic) @ mkeys (mdef [] (inFlight b) topic)
       @ mkeys (mdef [] (consumerChans b) topic))"

definition metricRows ::
  "(string \<Rightarrow> topicState \<Rightarrow> string \<Rightarrow> nat \<Rightarrow> int) \<Rightarrow> broker \<Rightarrow> partitionMetric list" where
  "metricRows val b =
     concat (map (\<lambda>(topic, ts). concat (map (\<lambda>grp. map (\<lambda>p.
         \<lparr>pm_Topic = topic, pm_Group = grp, pm_Partition = int p, pm_Value = val topic ts grp p\<rparr>)
         [0..<length (ts_partitions ts)]) (metricGroups topic b))) (topics b))"

definition MetricsSnapshot :: "broker \<Rightarrow> metricsSnapshot" where
  "MetricsSnapshot b =
     \<lparr>sn_InFlight = metricRows (\<lambda>topic ts grp p. int (length (inflight_of b topic grp (int p)))) b,
      sn_ConsumerLag = metricRows (\<lambda>topic ts grp p.
        lagForPartition (ts_partitions ts ! p) (committed b topic grp (int p))) b\<rparr>"

definition SnapshotInflightCounts :: "broker \<Rightarrow> partitionMetric list" where
  "SnapshotInflightCounts b =
     concat (map (\<lambda>(topic, byGroup). concat (map (\<lambda>(grp, byPart). map (\<lambda>(p, fl).
         \<lparr>pm_Topic = topic, pm_Group = grp, pm_Partition = p, pm_Value = int (length fl)\<rparr>)
         byPart) byGroup)) (inFlight b))"

section \<open>The views on a well-formed broker\<close>

text \<open>Topic names are distinct in every reachable state.\<close>

lemma bstep_topics_mwf:
  assumes "bstep b b'" "mwf (topics b)"
  shows "mwf (topics b')"
  using assms
proof (induction rule: bstep.induct)
  case (bs_book b b')
  then show ?case by (simp add: same_core_def)
next
  case (bs_note e now b r b')
  then show ?case using appendWALEntry_wal by fastforce
next
  case (bs_wal_fail now e b err b')
  then show ?case using appendWALEntry_wal by fastforce
next
  case (bs_send st b t g m b')
  then show ?case by (auto simp: trySend_def split: option.splits if_splits)
next
  case (bs_produce b t ts p m now b1)
  then have "topics b1 = topics b" using appendWALEntry_wal by fastforce
  then show ?case using bs_produce by simp
next
  case (bs_create t n b b')
  then show ?case
    by (auto simp: createTopicLockedWithConfig_def split: if_splits sum.splits)
next
  case (bs_create_logged t n b cfg now b1)
  then have "topics b1 = topics b" using appendWALEntry_wal by fastforce
  then show ?case using bs_create_logged by simp
next
  case (bs_flush now b r b')
  then show ?case using flush_frame by fastforce
qed (simp_all add: setNextIndex_def putInflight_def delInflight_def addStream_def Let_def recv_def split: option.split list.split)

lemma bsteps_topics_mwf: "bsteps b b' \<Longrightarrow> mwf (topics b) \<Longrightarrow> mwf (topics b')"
  by (induction rule: rtranclp_induct) (auto intro: bstep_topics_mwf)

lemma topics_mwf_run:
  "list_all op_ok xs \<Longrightarrow> mwf (topics (run_ops (broker_step router) (NewInMemoryBrokerWithOptions w opts) xs))"
  using bsteps_topics_mwf [OF binv_run(2) [OF _ binv_init]] by (simp add: init_obs mwf_def)

subsection \<open>Lag\<close>

lemma searchLoop_spec:
  assumes "i \<le> j" "\<And>h k. i \<le> h \<Longrightarrow> h \<le> k \<Longrightarrow> k < j \<Longrightarrow> f h \<Longrightarrow> f k"
  shows "i \<le> searchLoop f i j \<and> searchLoop f i j \<le> j
    \<and> (\<forall>k. i \<le> k \<and> k < searchLoop f i j \<longrightarrow> \<not> f k) \<and> (\<forall>k. searchLoop f i j \<le> k \<and> k < j \<longrightarrow> f k)"
  using assms
proof (induction f i j rule: searchLoop.induct)
  case (1 f i j)
  let ?h = "(i + j) div 2"
  show ?case
  proof (cases "i < j")
    case True
    then have h: "i \<le> ?h" "?h < j" by auto
    show ?thesis
    proof (cases "f ?h")
      case True
      then have ih: "i \<le> searchLoop f i ?h \<and> searchLoop f i ?h \<le> ?h
          \<and> (\<forall>k. i \<le> k \<and> k < searchLoop f i ?h \<longrightarrow> \<not> f k) \<and> (\<forall>k. searchLoop f i ?h \<le> k \<and> k < ?h \<longrightarrow> f k)"
        using 1(1) [OF \<open>i < j\<close> refl True] 1(4) h by (meson less_trans)
      have "f k" if "?h \<le> k" "k < j" for k using 1(4) [of ?h k] h True that by blast
      moreover have "searchLoop f i j = searchLoop f i ?h"
        by (subst searchLoop.simps) (use \<open>i < j\<close> True in \<open>simp add: Let_def\<close>)
      ultimately show ?thesis using ih h by (metis le_trans less_imp_le not_le)
    next
      case False
      have ih: "?h + 1 \<le> searchLoop f (?h + 1) j \<and> searchLoop f (?h + 1) j \<le> j
          \<and> (\<forall>k. ?h + 1 \<le> k \<and> k < searchLoop f (?h + 1) j \<longrightarrow> \<not> f k)
          \<and> (\<forall>k. searchLoop f (?h + 1) j \<le> k \<and> k < j \<longrightarrow> f k)"
      proof (rule 1(2) [OF \<open>i < j\<close> refl False])
        show "?h + 1 \<le> j" using h by simp
        show "f k" if "?h + 1 \<le> l" "l \<le> k" "k < j" "f l" for l k
          using 1(4) [of l k] h that by simp
      qed
      have "\<not> f k" if "i \<le> k" "k \<le> ?h" for k using 1(4) [of k ?h] h False that by blast
      moreover have "searchLoop f i j = searchLoop f (?h + 1) j"
        by (subst searchLoop.simps) (use \<open>i < j\<close> False in \<open>simp add: Let_def\<close>)
      ultimately show ?thesis using ih h by (metis Suc_eq_plus1 Suc_leD le_trans not_less_eq_eq)
    qed
  next
    case False
    then have "searchLoop f i j = i" by (simp add: searchLoop.simps)
    with False 1(3) show ?thesis by auto
  qed
qed

lemma unacked_length:
  assumes "\<And>i. i < length ms \<Longrightarrow> msg_Offset (ms ! i) = int i"
  shows "length (unacked ms c) = length ms - nat (c + 1)"
  using filter_offsets [of ms 0 c] assms by (simp add: unacked_def)

lemma lagForPartition_unacked:
  assumes off: "\<And>i. i < length ms \<Longrightarrow> msg_Offset (ms ! i) = int i"
  shows "lagForPartition ms c = int (length (unacked ms c))"
proof (cases "ms = []")
  case False
  let ?f = "\<lambda>i. c < msg_Offset (ms ! i)" and ?n = "length ms"
  let ?r = "searchLoop ?f 0 ?n"
  have s: "?r \<le> ?n" "\<And>k. k < ?r \<Longrightarrow> \<not> ?f k" "\<And>k. ?r \<le> k \<Longrightarrow> k < ?n \<Longrightarrow> ?f k"
    using searchLoop_spec [of 0 ?n ?f] off by auto
  have "int ?r = min (int (nat (c + 1))) (int ?n)"
  proof (cases "?r = ?n")
    case True
    then have "\<not> c < int (?n - 1)" using s(2) [of "?n - 1"] off [of "?n - 1"] False by simp
    with True show ?thesis by auto
  next
    case False
    then have "c < int ?r" using s(1) s(3) [of ?r] off [of ?r] by simp
    moreover have "\<not> c < int (?r - 1)" if "0 < ?r"
      using s(1) s(2) [of "?r - 1"] off [of "?r - 1"] that by simp
    ultimately show ?thesis using s(1) by (cases "?r = 0") auto
  qed
  then have "int ?n - int ?r = int (?n - nat (c + 1))" by linarith
  with False show ?thesis by (simp add: lagForPartition_def unacked_length [OF off])
qed (simp add: lagForPartition_def unacked_def)

lemma part_log_nth:
  "mget (topics b) t = Some ts \<Longrightarrow> p < length (ts_partitions ts) \<Longrightarrow> ts_partitions ts ! p = part_log b t (int p)"
  by (simp add: part_log_def)

lemma queryTopics_known: "name \<in> set (queryTopics t b) \<Longrightarrow> mget (topics b) name \<noteq> None"
  by (auto simp: queryTopics_def mkeys_def map_of_eq_None_iff split: if_splits)

lemma ConsumerLag_row:
  assumes "row \<in> set (ConsumerLag now g t b)"
  obtains name ts p where "mget (topics b) name = Some ts" "p < length (ts_partitions ts)"
    "row = lagRow now g name ts b p"
  using assms by (auto simp: ConsumerLag_def dest!: sym [of "Some _"] split: option.splits)

lemma lagRow_lag:
  assumes "binv b" "mget (topics b) name = Some ts" "p < length (ts_partitions ts)"
    and "committed b name g (int p) < maxInt64"
  shows "lr_Lag (lagRow now g name ts b p) = int (length (unacked (part_log b name (int p)) (committed b name g (int p))))"
proof -
  let ?c = "committed b name g (int p)"
  have c: "-1 \<le> ?c" using assms(1) by (simp add: binv_def inv_offsets_def)
  then have "wrap64 (?c + 1) = ?c + 1" using assms(4) by (intro wrap64_id) auto
  moreover have "length (unacked (part_log b name (int p)) ?c) = length (part_log b name (int p)) - nat (?c + 1)"
    using unacked_length binv_log_offset(1) [OF assms(1)] by simp
  ultimately show ?thesis
    using c part_log_nth [OF assms(2,3)] by (simp add: lagRow_def Let_def committedNext_def)
qed

lemma metricRows_mem:
  assumes "pm \<in> set (metricRows val b)"
  shows "\<exists>topic ts grp p. (topic, ts) \<in> set (topics b) \<and> p < length (ts_partitions ts)
    \<and> pm = \<lparr>pm_Topic = topic, pm_Group = grp, pm_Partition = int p, pm_Value = val topic ts grp p\<rparr>"
  using assms by (auto simp: metricRows_def)

text \<open>The lag views are right and agree: in every reachable state each row of \<open>ConsumerLag\<close> shows,
  for a partition of a topic, the number of messages in its log as the head offset, the number of
  messages in flight, and as lag exactly the number of messages the group has not acknowledged;
  and whenever the metrics snapshot, which finds its lag by binary search, has a value for the
  same topic, group and partition, it is the same lag.\<close>

theorem consumer_lag_exact:
  assumes "list_all op_ok xs"
    and "b = run_ops (broker_step router) (NewInMemoryBrokerWithOptions w opts) xs"
    and "row \<in> set (ConsumerLag now g t b)"
    and "committed b (lr_Topic row) g (lr_Partition row) < maxInt64"
  shows "lr_HeadOffset row = int (length (part_log b (lr_Topic row) (lr_Partition row)))
    \<and> lr_Inflight row = int (length (inflight_of b (lr_Topic row) g (lr_Partition row)))
    \<and> lr_Lag row = int (length (unacked (part_log b (lr_Topic row) (lr_Partition row))
                                   (committed b (lr_Topic row) g (lr_Partition row))))
    \<and> (\<forall>pm \<in> set (sn_ConsumerLag (MetricsSnapshot b)). pm_Topic pm = lr_Topic row \<and> pm_Group pm = g
          \<and> pm_Partition pm = lr_Partition row \<longrightarrow> pm_Value pm = lr_Lag row)"
proof -
  have inv: "binv b" and mw: "mwf (topics b)"
    using binv_run(1) [OF assms(1) binv_init] topics_mwf_run [OF assms(1)] assms(2) by auto
  from assms(3) obtain name ts p where r: "mget (topics b) name = Some ts" "p < length (ts_partitions ts)"
    "row = lagRow now g name ts b p" by (rule ConsumerLag_row)
  let ?lag = "int (length (unacked (part_log b name (int p)) (committed b name g (int p))))"
  have f: "lr_Topic row = name" "lr_Partition row = int p" "lr_HeadOffset row = int (length (part_log b name (int p)))"
    "lr_Inflight row = int (length (inflight_of b name g (int p)))"
    using r part_log_nth [OF r(1,2)] by (simp_all add: lagRow_def Let_def)
  have lag: "lr_Lag row = ?lag" using lagRow_lag [OF inv r(1,2)] assms(4) r(3) f by simp
  have "pm_Value pm = ?lag"
    if pm: "pm \<in> set (sn_ConsumerLag (MetricsSnapshot b))" "pm_Topic pm = name" "pm_Group pm = g" "pm_Partition pm = int p" for pm
  proof -
    obtain ts' where "(name, ts') \<in> set (topics b)"
      "pm_Value pm = lagForPartition (ts_partitions ts' ! p) (committed b name g (int p))"
      using pm by (auto simp: MetricsSnapshot_def dest!: metricRows_mem)
    moreover from this have "ts' = ts" using r(1) mw by (simp add: mwf_def)
    ultimately show ?thesis
      using lagForPartition_unacked binv_log_offset(1) [OF inv] part_log_nth [OF r(1,2)] by simp
  qed
  with f lag show ?thesis by simp
qed

definition query_example :: broker where
  "query_example = run_ops (broker_step None) (NewInMemoryBrokerWithOptions None [])
     [OpCreateTopic (90 * minute) ''orders'' 1 \<lparr>tc_Mode = ''''\<rparr>, OpProduce example_env ''orders'' example_msg,
      OpProduce example_env ''orders'' example_msg, OpConsumeWithLease example_env ''orders'' ''g'' ''w1'' (30 * second),
      OpAck example_env ''orders'' ''g'' 0 0]"

lemma query_example_ok:
  "list_all op_ok [OpCreateTopic (90 * minute) ''orders'' 1 \<lparr>tc_Mode = ''''\<rparr>, OpProduce example_env ''orders'' example_msg,
      OpProduce example_env ''orders'' example_msg, OpConsumeWithLease example_env ''orders'' ''g'' ''w1'' (30 * second),
      OpAck example_env ''orders'' ''g'' 0 0]"
  by simp

lemma query_example_eval:
  "map lr_Topic (ConsumerLag (100 * minute) ''g'' ''orders'' query_example) = [''orders'']"
  "map lr_Partition (ConsumerLag (100 * minute) ''g'' ''orders'' query_example) = [0]"
  "committed query_example ''orders'' ''g'' 0 = 0"
  "length (part_log query_example ''orders'' 0) = 2"
  "length (unacked (part_log query_example ''orders'' 0) 0) = 1"
  "mget (inflight_of query_example ''orders'' ''g'' 0) 1 \<noteq> None"
  by code_simp+

theorem consumer_lag_exact_witness:
  "map lr_Lag (ConsumerLag (100 * minute) ''g'' ''orders'' query_example) = [1]"
proof -
  obtain row where row: "ConsumerLag (100 * minute) ''g'' ''orders'' query_example = [row]"
    "lr_Topic row = ''orders''" "lr_Partition row = 0"
    using query_example_eval(1,2) by (cases "ConsumerLag (100 * minute) ''g'' ''orders'' query_example") auto
  then show ?thesis
    using consumer_lag_exact [OF query_example_ok query_example_def, of row "100 * minute" "''g''" "''orders''"]
    by (simp add: query_example_eval)
qed

subsection \<open>Message states\<close>

lemma collectRows_take:
  "length rows < lim \<Longrightarrow> collectRows P lim rs rows =
     (lim \<le> length (rows @ filter P rs), take lim (rows @ filter P rs))"
proof (induction rs arbitrary: rows)
  case (Cons r rs)
  show ?case
  proof (cases "P r \<and> lim \<le> Suc (length rows)")
    case True
    with Cons.prems have "lim = Suc (length rows)" by simp
    with True show ?thesis by simp
  next
    case False
    with Cons show ?thesis by (auto simp: not_le take_Cons')
  qed
qed simp

lemma collectParts_take:
  "length rows < lim \<Longrightarrow> collectParts P lim pss rows = take lim (rows @ filter P (concat pss))"
proof (induction pss arbitrary: rows)
  case (Cons ps pss)
  have "collectRows P lim ps rows = (lim \<le> length (rows @ filter P ps), take lim (rows @ filter P ps))"
    by (rule collectRows_take [OF Cons.prems])
  then show ?case using Cons.IH [of "rows @ filter P ps"] by (cases "lim \<le> length (rows @ filter P ps)") auto
qed simp

lemma sorted_wrt_concat:
  "(\<And>xs. xs \<in> set xss \<Longrightarrow> sorted_wrt R xs) \<Longrightarrow> sorted_wrt (\<lambda>xs ys. \<forall>x \<in> set xs. \<forall>y \<in> set ys. R x y) xss
     \<Longrightarrow> sorted_wrt R (concat xss)"
  by (induction xss) (auto simp: sorted_wrt_append)

lemma stateRow_fields [simp]:
  "mr_Topic (stateRow now g t p b m) = t" "mr_Partition (stateRow now g t p b m) = p"
  "mr_Offset (stateRow now g t p b m) = msg_Offset m"
  by (simp_all add: stateRow_def baseRow_def inFlightRow_def Let_def split: option.split)

lemma partRows_sorted:
  assumes "binv b" "mwf (topics b)"
  shows "sorted_wrt (\<lambda>r s. rowKey r < rowKey s) (concat (partRows now g t b))"
proof -
  let ?R = "\<lambda>r s. rowKey r < rowKey s"
  let ?part = "\<lambda>name ts p. map (stateRow now g name (int p) b) (rev (ts_partitions ts ! p))"
  let ?rows = "\<lambda>name. case mget (topics b) name of None \<Rightarrow> []
      | Some ts \<Rightarrow> concat (map (?part name ts) [0..<length (ts_partitions ts)])"
  have part: "sorted_wrt ?R (?part name ts p)"
    if "mget (topics b) name = Some ts" "p < length (ts_partitions ts)" for name ts p
  proof -
    have off: "msg_Offset (ts_partitions ts ! p ! i) = int i" if "i < length (ts_partitions ts ! p)" for i
      using that binv_log_offset(1) [OF assms(1), of "int p" i name] part_log_nth \<open>mget (topics b) name = Some ts\<close> \<open>p < _\<close>
      by simp
    then show ?thesis
      by (auto simp: sorted_wrt_map sorted_wrt_iff_nth_less rev_nth rowKey_def less_prod_def)
  qed
  have rows: "sorted_wrt ?R (?rows name)" for name
  proof (cases "mget (topics b) name")
    case (Some ts)
    have "sorted_wrt ?R (concat (map (?part name ts) [0..<length (ts_partitions ts)]))"
      by (rule sorted_wrt_concat) (use part [OF Some] in \<open>auto simp: sorted_wrt_iff_nth_less rowKey_def\<close>)
    with Some show ?thesis by simp
  qed simp
  have "sorted_wrt (<) (queryTopics t b)"
    using assms(2) by (auto simp: queryTopics_def strict_sorted_iff mkeys_def mwf_def)
  then have names: "sorted_wrt (\<lambda>xs ys. \<forall>x \<in> set xs. \<forall>y \<in> set ys. ?R x y) (map ?rows (queryTopics t b))"
    unfolding sorted_wrt_map
    by (rule sorted_wrt_mono_rel [rotated]) (auto simp: rowKey_def split: option.splits)
  have "concat (concat (map (\<lambda>name. case mget (topics b) name of None \<Rightarrow> []
      | Some ts \<Rightarrow> map (?part name ts) [0..<length (ts_partitions ts)]) names)) = concat (map ?rows names)" for names
    by (induction names) (auto split: option.splits)
  then have "concat (partRows now g t b) = concat (map ?rows (queryTopics t b))" by (simp add: partRows_def)
  moreover have "sorted_wrt ?R (concat (map ?rows (queryTopics t b)))"
    by (rule sorted_wrt_concat [OF _ names]) (use rows in auto)
  ultimately show ?thesis by simp
qed


lemma partRows_mem:
  "r \<in> set (concat (partRows now g t b)) \<longleftrightarrow>
     (\<exists>name p i. name \<in> set (queryTopics t b) \<and> 0 \<le> p \<and> i < length (part_log b name p)
        \<and> r = stateRow now g name p b (part_log b name p ! i))" (is "?L = ?R")
proof
  assume ?L
  then obtain name ts p m where h: "name \<in> set (queryTopics t b)" "mget (topics b) name = Some ts"
    "p < length (ts_partitions ts)" "m \<in> set (ts_partitions ts ! p)" "r = stateRow now g name (int p) b m"
    by (auto simp: partRows_def dest!: sym [of "Some _"] split: option.splits)
  then obtain i where "i < length (part_log b name (int p))" "m = part_log b name (int p) ! i"
    by (metis in_set_conv_nth part_log_nth)
  with h show ?R by (intro exI [of _ name] exI [of _ "int p"] exI [of _ i]) auto
next
  assume ?R
  then obtain name p i where h: "name \<in> set (queryTopics t b)" "0 \<le> p" "i < length (part_log b name p)"
    "r = stateRow now g name p b (part_log b name p ! i)" by blast
  then obtain ts where "mget (topics b) name = Some ts" "nat p < length (ts_partitions ts)"
    "part_log b name p = ts_partitions ts ! nat p"
    by (auto simp: part_log_def split: option.splits if_splits)
  moreover from this h have "r \<in> set (map (stateRow now g name (int (nat p)) b) (rev (ts_partitions ts ! nat p)))"
    by auto
  moreover from calculation h(1)
  have "map (stateRow now g name (int (nat p)) b) (rev (ts_partitions ts ! nat p)) \<in> set (partRows now g t b)"
    by (auto simp: partRows_def intro!: bexI [of _ name] exI [of _ ts] image_eqI [of _ _ "nat p"])
  ultimately show ?L by (auto simp only: set_concat)
qed

lemma clampLimit_bounds: "0 < clampLimit l \<and> clampLimit l \<le> 1000"
  by (auto simp: clampLimit_def)

lemma MessageStates_take:
  assumes "binv b" "mwf (topics b)"
  shows "MessageStates now g t status owner limit b =
    take (clampLimit limit) (filter (rowMatches (ToLower (TrimSpace status)) (TrimSpace owner)) (concat (partRows now g t b)))"
    (is "_ = take ?l ?rows")
proof -
  have "sorted_wrt (\<lambda>r s. rowKey r < rowKey s) (take ?l ?rows)"
    by (intro sorted_wrt_take sorted_wrt_filter partRows_sorted assms)
  then have "sorted (map rowKey (take ?l ?rows))"
    unfolding sorted_wrt_map by (rule sorted_wrt_mono_rel [rotated]) simp
  then have "sort_key rowKey (take ?l ?rows) = take ?l ?rows" by (rule sort_key_id_if_sorted)
  then show ?thesis
    using clampLimit_bounds [of limit] by (simp add: MessageStates_def Let_def collectParts_take)
qed

text \<open>The message browser shows the truth: in every reachable state the rows of \<open>MessageStates\<close> are
  at most as many as the clamped limit, in strictly ascending order of topic and partition and
  newest first within a partition, each the state row of a logged message that passes the
  filters; and unless the limit cuts the answer off, every logged message of the topics asked
  for that passes the filters is there.\<close>

theorem message_states_exact:
  assumes "list_all op_ok xs"
    and "b = run_ops (broker_step router) (NewInMemoryBrokerWithOptions w opts) xs"
    and "rows = MessageStates now g t status owner limit b"
    and "keep = rowMatches (ToLower (TrimSpace status)) (TrimSpace owner)"
  shows "sorted_wrt (\<lambda>r s. rowKey r < rowKey s) rows \<and> length rows \<le> clampLimit limit
    \<and> (\<forall>r \<in> set rows. keep r \<and> (\<exists>name p i. name \<in> set (queryTopics t b) \<and> 0 \<le> p
          \<and> i < length (part_log b name p) \<and> r = stateRow now g name p b (part_log b name p ! i)))
    \<and> (length rows < clampLimit limit \<longrightarrow> (\<forall>name p i. name \<in> set (queryTopics t b) \<and> 0 \<le> p
          \<and> i < length (part_log b name p) \<and> keep (stateRow now g name p b (part_log b name p ! i))
          \<longrightarrow> stateRow now g name p b (part_log b name p ! i) \<in> set rows))"
proof -
  have inv: "binv b" "mwf (topics b)"
    using binv_run(1) [OF assms(1) binv_init] topics_mwf_run [OF assms(1)] assms(2) by auto
  let ?all = "filter keep (concat (partRows now g t b))"
  have rows: "rows = take (clampLimit limit) ?all"
    using MessageStates_take [OF inv] assms(3,4) by simp
  have "sorted_wrt (\<lambda>r s. rowKey r < rowKey s) rows"
    unfolding rows by (intro sorted_wrt_take sorted_wrt_filter partRows_sorted inv)
  moreover have "keep r \<and> (\<exists>name p i. name \<in> set (queryTopics t b) \<and> 0 \<le> p
          \<and> i < length (part_log b name p) \<and> r = stateRow now g name p b (part_log b name p ! i))"
    if "r \<in> set rows" for r
  proof -
    have "r \<in> set ?all" using that by (auto simp: rows dest: in_set_takeD)
    then show ?thesis using partRows_mem [of r now g t b] by auto
  qed
  moreover have "stateRow now g name p b (part_log b name p ! i) \<in> set rows"
    if "length rows < clampLimit limit" "name \<in> set (queryTopics t b)" "0 \<le> p" "i < length (part_log b name p)"
      "keep (stateRow now g name p b (part_log b name p ! i))" for name p i
  proof -
    have "rows = ?all" using that(1) by (simp add: rows)
    moreover have "stateRow now g name p b (part_log b name p ! i) \<in> set (concat (partRows now g t b))"
      using that partRows_mem by blast
    ultimately show ?thesis using that(5) by simp
  qed
  moreover have "length rows \<le> clampLimit limit" by (simp add: rows)
  ultimately show ?thesis by blast
qed

theorem message_states_exact_witness:
  "sorted_wrt (\<lambda>r s. rowKey r < rowKey s)
     (MessageStates (100 * minute) ''g'' ''orders'' '' All'' '''' 10 query_example)"
  by (rule conjunct1 [OF message_states_exact [OF query_example_ok query_example_def refl refl]])

text \<open>What the state of a message means: in every reachable state a message of an ordinary topic
  is shown as \<open>in_flight\<close> for a group exactly when it is in flight for it, one shown as \<open>acked\<close> is
  covered by the group's committed offset, and one shown as \<open>queued\<close> is neither and lies at or
  beyond the position the group has been dispatched to, so no consumer of the group has it.\<close>

theorem message_state_meaning:
  assumes "list_all op_ok xs"
    and "b = run_ops (broker_step router) (NewInMemoryBrokerWithOptions w opts) xs"
    and "0 \<le> p" "i < length (part_log b t p)" "\<not> HasPrefix t ''dlq.''" "committed b t g p < maxInt64"
    and "st = mr_State (stateRow now g t p b (part_log b t p ! i))"
  shows "(st = ''in_flight'' \<longleftrightarrow> mget (inflight_of b t g p) (int i) \<noteq> None)
    \<and> (st = ''acked'' \<longrightarrow> int i \<le> committed b t g p)
    \<and> (st = ''queued'' \<longrightarrow> committed b t g p < int i \<and> (\<forall>n. mget3 (nextIndex b) t g p = Some n \<longrightarrow> n \<le> i))"
proof -
  have inv: "binv b" using binv_run(1) [OF assms(1) binv_init] assms(2) by simp
  have off: "msg_Offset (part_log b t p ! i) = int i" by (rule binv_log_offset(1) [OF inv assms(3,4)])
  have "-1 \<le> committed b t g p" using inv by (simp add: binv_def inv_offsets_def)
  then have next_off: "committedNext b t g p = committed b t g p + 1"
    using wrap64_id [of "committed b t g p + 1"] assms(6) by (simp add: committedNext_def)
  have skip: "n \<le> i" if "mget3 (nextIndex b) t g p = Some n" "committed b t g p < int i"
      "mget (inflight_of b t g p) (int i) = None" for n
    using inv that unfolding binv_def inv_next_def by (meson not_le)
  show ?thesis
    using skip assms(5) unfolding assms(7)
    by (auto simp: stateRow_def Let_def off next_off baseRow_def inFlightRow_def split: option.splits if_splits)
qed

theorem message_state_meaning_witness:
  "mr_State (stateRow (100 * minute) ''g'' ''orders'' 0 query_example (part_log query_example ''orders'' 0 ! 1)) = ''in_flight''"
  using message_state_meaning [OF query_example_ok query_example_def, of 0 1 "''orders''" "''g''"]
  by (simp add: query_example_eval HasPrefix_def)

end
