(* ===== verification/LagTracker.thy ===== *)
theory LagTracker
  imports BrokerQueries
begin

text \<open>
  The stand-alone lag tracker of \<^verbatim>\<open>internal/broker/lag_tracker.go\<close>: per partition the head
  offset, per group and partition the committed offset and the set of leased offsets, all
  keyed by structs in flat Go maps.  It is specified against the history of the calls made to
  it: what \<open>Snapshot\<close> reports is a function of which calls happened and in which order.
\<close>

section \<open>Definitions\<close>

type_synonym lagKey = "string \<times> int"
type_synonym lagGroupKey = "string \<times> string \<times> int"

record lagTracker =
  lt_head :: "(lagKey, int) gomap"
  lt_committed :: "(lagGroupKey, int) gomap"
  lt_inflight :: "(lagGroupKey, (int, unit) gomap) gomap"

definition NewLagTracker :: lagTracker where
  "NewLagTracker = \<lparr>lt_head = [], lt_committed = [], lt_inflight = []\<rparr>"

definition OnProduced :: "string \<Rightarrow> int \<Rightarrow> int \<Rightarrow> lagTracker \<Rightarrow> lagTracker" where
  "OnProduced topic p offset t =
     (let nxt = wrap64 (offset + 1) in
      if nxt > mdef 0 (lt_head t) (topic, p) then t\<lparr>lt_head := mput (topic, p) nxt (lt_head t)\<rparr> else t)"

definition OnLeased :: "string \<Rightarrow> string \<Rightarrow> int \<Rightarrow> int \<Rightarrow> lagTracker \<Rightarrow> lagTracker" where
  "OnLeased grp topic p offset t =
     (let k = (grp, topic, p) in
      t\<lparr>lt_inflight := mput k (mput offset () (mdef [] (lt_inflight t) k)) (lt_inflight t)\<rparr>)"

text \<open>Remove the offset from the group's set, and the set when it becomes empty.\<close>

definition dropLease :: "lagGroupKey \<Rightarrow> int \<Rightarrow> lagTracker \<Rightarrow> lagTracker" where
  "dropLease k offset t =
     (case mget (lt_inflight t) k of
        None \<Rightarrow> t
      | Some s \<Rightarrow>
          let s' = mdel offset s in
          t\<lparr>lt_inflight := (if s' = [] then mdel k (lt_inflight t) else mput k s' (lt_inflight t))\<rparr>)"

definition OnAcked :: "string \<Rightarrow> string \<Rightarrow> int \<Rightarrow> int \<Rightarrow> lagTracker \<Rightarrow> lagTracker" where
  "OnAcked grp topic p offset t =
     (let k = (grp, topic, p); t1 = dropLease k offset t; nxt = wrap64 (offset + 1) in
      if nxt > mdef 0 (lt_committed t1) k then t1\<lparr>lt_committed := mput k nxt (lt_committed t1)\<rparr> else t1)"

definition OnNacked :: "string \<Rightarrow> string \<Rightarrow> int \<Rightarrow> int \<Rightarrow> lagTracker \<Rightarrow> lagTracker" where
  "OnNacked grp topic p offset t = dropLease (grp, topic, p) offset t"

definition LagSnapshot :: "string \<Rightarrow> string \<Rightarrow> lagTracker \<Rightarrow> consumerLagRow list" where
  "LagSnapshot grp topic t =
     map (\<lambda>((tp, p), head).
       \<lparr>lr_Group = grp, lr_Topic = tp, lr_Partition = p, lr_HeadOffset = head,
        lr_CommittedOffset = mdef 0 (lt_committed t) (grp, tp, p),
        lr_Inflight = int (length (mdef [] (lt_inflight t) (grp, tp, p))), lr_Lag = 0,
        lr_LeaseOwners = [], lr_LastOwner = '''', lr_LastDeliveredAt = 0, lr_OldestLeaseAge = 0,
        lr_LeaseDurationMs = 0, lr_LeaseExpiresAt = 0, lr_Stalled = False\<rparr>)
       (filter (\<lambda>((tp, p), head). topic = '''' \<or> tp = topic) (lt_head t))"

section \<open>Specification by the history of calls\<close>

datatype lag_event =
    Produced string int int
  | Leased lagGroupKey int
  | Acked lagGroupKey int
  | Nacked lagGroupKey int

fun lag_step :: "lagTracker \<Rightarrow> lag_event \<Rightarrow> lagTracker" where
  "lag_step t (Produced tp p off) = OnProduced tp p off t"
| "lag_step t (Leased k off) = OnLeased (fst k) (fst (snd k)) (snd (snd k)) off t"
| "lag_step t (Acked k off) = OnAcked (fst k) (fst (snd k)) (snd (snd k)) off t"
| "lag_step t (Nacked k off) = OnNacked (fst k) (fst (snd k)) (snd (snd k)) off t"

fun ev_offset :: "lag_event \<Rightarrow> int" where
  "ev_offset (Produced tp p off) = off"
| "ev_offset (Leased k off) = off"
| "ev_offset (Acked k off) = off"
| "ev_offset (Nacked k off) = off"

text \<open>Leased, and neither acknowledged nor refused since.\<close>

definition outstanding :: "lag_event list \<Rightarrow> lagGroupKey \<Rightarrow> int set" where
  "outstanding evs k = {off. \<exists>us vs. evs = us @ Leased k off # vs \<and> Acked k off \<notin> set vs \<and> Nacked k off \<notin> set vs}"

definition headAfter :: "lag_event list \<Rightarrow> lagKey \<Rightarrow> int" where
  "headAfter evs k = Max (insert 0 {off + 1 | off. Produced (fst k) (snd k) off \<in> set evs})"

definition committedAfter :: "lag_event list \<Rightarrow> lagGroupKey \<Rightarrow> int" where
  "committedAfter evs k = Max (insert 0 {off + 1 | off. Acked k off \<in> set evs})"

lemma outstanding_Nil [simp]: "outstanding [] k = {}"
  by (simp add: outstanding_def)

lemma outstanding_snoc [simp]:
  "outstanding (evs @ [Produced tp p off]) k = outstanding evs k"
  "outstanding (evs @ [Leased k' off]) k = (if k' = k then insert off (outstanding evs k) else outstanding evs k)"
  "outstanding (evs @ [Acked k' off]) k = (if k' = k then outstanding evs k - {off} else outstanding evs k)"
  "outstanding (evs @ [Nacked k' off]) k = (if k' = k then outstanding evs k - {off} else outstanding evs k)"
proof -
  have split: "(\<exists>us vs. evs @ [x] = us @ Leased k o' # vs \<and> Acked k o' \<notin> set vs \<and> Nacked k o' \<notin> set vs)
      \<longleftrightarrow> (x = Leased k o' \<or> x \<noteq> Acked k o' \<and> x \<noteq> Nacked k o'
          \<and> (\<exists>us vs. evs = us @ Leased k o' # vs \<and> Acked k o' \<notin> set vs \<and> Nacked k o' \<notin> set vs))" for x o'
  proof
    assume "\<exists>us vs. evs @ [x] = us @ Leased k o' # vs \<and> Acked k o' \<notin> set vs \<and> Nacked k o' \<notin> set vs"
    then obtain us vs where h: "evs @ [x] = us @ Leased k o' # vs" "Acked k o' \<notin> set vs" "Nacked k o' \<notin> set vs"
      by blast
    then show "x = Leased k o' \<or> x \<noteq> Acked k o' \<and> x \<noteq> Nacked k o'
          \<and> (\<exists>us vs. evs = us @ Leased k o' # vs \<and> Acked k o' \<notin> set vs \<and> Nacked k o' \<notin> set vs)"
      by (cases vs rule: rev_cases) auto
  next
    assume "x = Leased k o' \<or> x \<noteq> Acked k o' \<and> x \<noteq> Nacked k o'
          \<and> (\<exists>us vs. evs = us @ Leased k o' # vs \<and> Acked k o' \<notin> set vs \<and> Nacked k o' \<notin> set vs)"
    then show "\<exists>us vs. evs @ [x] = us @ Leased k o' # vs \<and> Acked k o' \<notin> set vs \<and> Nacked k o' \<notin> set vs"
    proof (elim disjE conjE exE)
      assume "x = Leased k o'"
      then show ?thesis by (intro exI [of _ evs] exI [of _ "[]"]) simp
    next
      fix us vs assume "x \<noteq> Acked k o'" "x \<noteq> Nacked k o'" "evs = us @ Leased k o' # vs"
        "Acked k o' \<notin> set vs" "Nacked k o' \<notin> set vs"
      then show ?thesis by (intro exI [of _ us] exI [of _ "vs @ [x]"]) simp
    qed
  qed
  show "outstanding (evs @ [Produced tp p off]) k = outstanding evs k"
    "outstanding (evs @ [Leased k' off]) k = (if k' = k then insert off (outstanding evs k) else outstanding evs k)"
    "outstanding (evs @ [Acked k' off]) k = (if k' = k then outstanding evs k - {off} else outstanding evs k)"
    "outstanding (evs @ [Nacked k' off]) k = (if k' = k then outstanding evs k - {off} else outstanding evs k)"
    unfolding outstanding_def split by auto
qed

lemma Max_snoc:
  assumes "\<And>x. Q x \<longleftrightarrow> P x \<or> x = off" "finite {x. P x}"
  shows "Max (insert 0 {x + 1 | x. Q x}) = max (off + 1) (Max (insert (0 :: int) {x + 1 | x. P x}))"
proof -
  have "insert 0 {x + 1 | x. Q x} = insert (off + 1) (insert 0 {x + 1 | x. P x})" using assms(1) by auto
  moreover have "finite {x + 1 | x. P x}" using finite_imageI [OF assms(2), of "\<lambda>x. x + 1"] by (simp add: setcompr_eq_image)
  ultimately show ?thesis by simp
qed

lemma finite_events: "finite {off. F off \<in> set evs}" if "inj F"
  using finite_vimageI [OF finite_set that, of evs] by (simp add: vimage_def)

lemma after_snoc [simp]:
  "headAfter (evs @ [Produced tp p off]) k = (if k = (tp, p) then max (off + 1) (headAfter evs k) else headAfter evs k)"
  "committedAfter (evs @ [Acked k' off]) k2 = (if k2 = k' then max (off + 1) (committedAfter evs k2) else committedAfter evs k2)"
proof -
  have "inj (Produced (fst k) (snd k))" "inj (Acked k2)" by (auto intro: injI)
  note f = this [THEN finite_events]
  show "headAfter (evs @ [Produced tp p off]) k = (if k = (tp, p) then max (off + 1) (headAfter evs k) else headAfter evs k)"
  proof (cases "k = (tp, p)")
    case True
    have "Max (insert 0 {x + 1 | x. Produced tp p x \<in> set (evs @ [Produced tp p off])})
        = max (off + 1) (Max (insert 0 {x + 1 | x. Produced tp p x \<in> set evs}))"
      by (rule Max_snoc) (use True f(1) in auto)
    with True show ?thesis by (simp add: headAfter_def)
  next
    case False
    then have "{x + 1 | x. Produced (fst k) (snd k) x \<in> set (evs @ [Produced tp p off])}
        = {x + 1 | x. Produced (fst k) (snd k) x \<in> set evs}" by (cases k) auto
    with False show ?thesis by (simp only: headAfter_def if_False)
  qed
  show "committedAfter (evs @ [Acked k' off]) k2 = (if k2 = k' then max (off + 1) (committedAfter evs k2) else committedAfter evs k2)"
  proof (cases "k2 = k'")
    case True
    have "Max (insert 0 {x + 1 | x. Acked k2 x \<in> set (evs @ [Acked k2 off])})
        = max (off + 1) (Max (insert 0 {x + 1 | x. Acked k2 x \<in> set evs}))"
      by (rule Max_snoc) (use f(2) in auto)
    with True show ?thesis by (simp add: committedAfter_def)
  qed (auto simp: committedAfter_def)
qed

lemma after_other [simp]:
  "headAfter (evs @ [Leased k' off]) k = headAfter evs k" "headAfter (evs @ [Acked k' off]) k = headAfter evs k"
  "headAfter (evs @ [Nacked k' off]) k = headAfter evs k" "committedAfter (evs @ [Leased k' off]) k2 = committedAfter evs k2"
  "committedAfter (evs @ [Nacked k' off]) k2 = committedAfter evs k2"
  "committedAfter (evs @ [Produced tp p off]) k2 = committedAfter evs k2"
  by (simp_all add: headAfter_def committedAfter_def)

text \<open>What the tracker's maps hold after a history.\<close>

definition tracks :: "lag_event list \<Rightarrow> lagTracker \<Rightarrow> bool" where
  "tracks evs t \<longleftrightarrow> mwf (lt_head t) \<and> (\<forall>k. mdef 0 (lt_head t) k = headAfter evs k)
     \<and> (\<forall>k. mdef 0 (lt_committed t) k = committedAfter evs k)
     \<and> (\<forall>k. mwf (mdef [] (lt_inflight t) k) \<and> dom (mget (mdef [] (lt_inflight t) k)) = outstanding evs k)"

lemma mdel_Nil [simp]: "mdel k [] = []"
  by (simp add: mdel_def)

lemma dropLease_obs:
  "mdef [] (lt_inflight (dropLease k off t)) k' =
     (if k' = k then mdel off (mdef [] (lt_inflight t) k) else mdef [] (lt_inflight t) k')"
  "lt_head (dropLease k off t) = lt_head t" "lt_committed (dropLease k off t) = lt_committed t"
  using mdel_Nil [of off] by (auto simp: dropLease_def Let_def mdef_def split: option.splits)

lemma tracks_run:
  assumes "\<forall>e \<in> set evs. -1 \<le> ev_offset e \<and> ev_offset e < maxInt64"
  shows "tracks evs (run_ops lag_step NewLagTracker evs)"
  using assms
proof (induction evs rule: rev_induct)
  case Nil
  show ?case by (simp add: tracks_def NewLagTracker_def mdef_def mwf_def headAfter_def committedAfter_def)
next
  case (snoc e evs)
  let ?t = "run_ops lag_step NewLagTracker evs"
  have ih: "tracks evs ?t" using snoc by simp
  have w: "wrap64 (ev_offset e + 1) = ev_offset e + 1" using snoc.prems by (intro wrap64_id) auto
  show ?case
  proof (cases e)
    case (Produced tp p off)
    with ih w show ?thesis by (auto simp: run_ops_append OnProduced_def Let_def tracks_def mdef_mput)
  next
    case (Leased k off)
    with ih show ?thesis by (auto simp: run_ops_append OnLeased_def Let_def tracks_def mdef_mput)
  next
    case (Acked k off)
    with ih w show ?thesis by (auto simp: run_ops_append OnAcked_def Let_def tracks_def mdef_mput dropLease_obs)
  next
    case (Nacked k off)
    with ih show ?thesis by (auto simp: run_ops_append OnNacked_def tracks_def dropLease_obs)
  qed
qed

text \<open>\<open>LagTracker\<close> reports the history: after any sequence of calls, each row of its snapshot shows
  as head the highest produced offset plus one, as committed the highest acknowledged offset of
  the group plus one, and as in flight the number of offsets leased to the group and neither
  acknowledged nor refused since.\<close>

theorem lag_tracker_history:
  assumes "\<forall>e \<in> set evs. -1 \<le> ev_offset e \<and> ev_offset e < maxInt64"
    and "row \<in> set (LagSnapshot g topic (run_ops lag_step NewLagTracker evs))"
    and "k = (g, lr_Topic row, lr_Partition row)"
  shows "lr_HeadOffset row = headAfter evs (lr_Topic row, lr_Partition row)
    \<and> lr_CommittedOffset row = committedAfter evs k \<and> lr_Inflight row = int (card (outstanding evs k))"
proof -
  let ?t = "run_ops lag_step NewLagTracker evs"
  have tr: "tracks evs ?t" by (rule tracks_run [OF assms(1)])
  obtain tp p h where r: "((tp, p), h) \<in> set (lt_head ?t)" "lr_HeadOffset row = h" "lr_Topic row = tp"
    "lr_Partition row = p" "lr_CommittedOffset row = mdef 0 (lt_committed ?t) (g, tp, p)"
    "lr_Inflight row = int (length (mdef [] (lt_inflight ?t) (g, tp, p)))"
    using assms(2) by (auto simp: LagSnapshot_def)
  have "mget (lt_head ?t) (tp, p) = Some h" using r(1) tr by (simp add: tracks_def mwf_def)
  then have "headAfter evs (tp, p) = h" using tr by (simp add: tracks_def) (metis mdef_def option.simps(5))
  moreover have "length s = card (dom (mget s))" if "mwf s" for s :: "(int, unit) gomap"
    using that distinct_card [of "map fst s"] by (simp add: mwf_def dom_map_of_conv_image_fst)
  ultimately show ?thesis using r tr assms(3) by (simp add: tracks_def)
qed

definition lag_history :: "lag_event list" where
  "lag_history = [Produced ''t'' 0 0, Produced ''t'' 0 1, Leased (''g'', ''t'', 0) 0, Leased (''g'', ''t'', 0) 1, Acked (''g'', ''t'', 0) 0]"

theorem lag_tracker_history_witness:
  "committedAfter lag_history (''g'', ''t'', 0) = 1 \<and> card (outstanding lag_history (''g'', ''t'', 0)) = 1"
proof -
  define rows where "rows = LagSnapshot ''g'' ''t'' (run_ops lag_step NewLagTracker lag_history)"
  have ev: "map (\<lambda>r. (lr_Topic r, lr_Partition r, lr_CommittedOffset r, lr_Inflight r)) rows = [(''t'', 0, 1, 1)]"
    unfolding rows_def by code_simp
  then obtain row where row: "rows = [row]" "lr_Topic row = ''t''" "lr_Partition row = 0"
    "lr_CommittedOffset row = 1" "lr_Inflight row = 1" by (cases rows) auto
  have ok: "\<forall>e \<in> set lag_history. -1 \<le> ev_offset e \<and> ev_offset e < maxInt64" by (simp add: lag_history_def)
  have "row \<in> set (LagSnapshot ''g'' ''t'' (run_ops lag_step NewLagTracker lag_history))"
    using row(1) by (simp add: rows_def)
  from lag_tracker_history [OF ok this refl] row show ?thesis by simp
qed

end
