(* ===== verification/ConsumerRunner.thy ===== *)
theory ConsumerRunner
  imports BrokerContracts
begin

text \<open>
  The consumer loop that runs a user's handler under an idempotency lease,
  \<^verbatim>\<open>internal/broker/consumer_runner.go\<close>.  The handler is a parameter: what it answers for a
  message.  While it runs, the renewal goroutine extends the lease on a ticker and everybody
  else goes on using the broker; \<open>meanwhile\<close> is that interleaving, as a list of renewal ticks
  and operations of others.  The lemmas show that the runner only does what the broker's
  public operations allow, so every invariant of the broker holds with runners attached, and
  that it acknowledges a keyed message only when the work is recorded as done.
\<close>

section \<open>Definitions\<close>

definition minRenew :: duration where
  "minRenew = 100 * millisecond"

text \<open>How often the lease is renewed.\<close>

definition renewInterval :: "duration \<Rightarrow> duration" where
  "renewInterval lease =
     (let r1 = lease sdiv 3; r2 = (if r1 < minRenew then minRenew else r1) in
      if r2 \<ge> lease then
        let r3 = lease sdiv 2; r4 = (if r3 \<le> 0 then minRenew else r3) in
        (if r4 \<ge> lease then minRenew else r4)
      else r2)"

datatype meanwhile = RenewTick gotime | Other broker_op

fun mw_ok :: "meanwhile \<Rightarrow> bool" where
  "mw_ok (RenewTick now) = True"
| "mw_ok (Other x) = op_ok x"

record session =
  ss_router :: "router option"
  ss_topic :: string
  ss_group :: string
  ss_owner :: string
  ss_lease :: duration

text \<open>One round of the loop: when the lease is claimed, what happens while the handler runs,
  when the result is settled, and the order in which a redelivery pass would visit entries.\<close>

record round_env =
  rd_claim :: gotime
  rd_during :: "meanwhile list"
  rd_settle :: renv
  rd_visit :: "inflightKey list"

text \<open>The renewal goroutine stops at the first renewal that fails and reports it.\<close>

fun runMeanwhile :: "session \<Rightarrow> message \<Rightarrow> error option \<Rightarrow> meanwhile list \<Rightarrow> broker \<Rightarrow> error option \<times> broker" where
  "runMeanwhile ss m failed [] b = (failed, b)"
| "runMeanwhile ss m failed (Other x # xs) b = runMeanwhile ss m failed xs (broker_step (ss_router ss) b x)"
| "runMeanwhile ss m failed (RenewTick now # xs) b =
     (if failed \<noteq> None \<or> msg_idemKey m = '''' then runMeanwhile ss m failed xs b
      else case ConsumeRenewLease now (msg_tenant m) (ss_topic ss) (ss_group ss) (msg_idemKey m)
                  (ss_owner ss) (ss_lease ss) (idem b, wal b) of
        (r, (s', w')) \<Rightarrow> runMeanwhile ss m r xs (b\<lparr>idem := s', wal := w'\<rparr>))"

datatype outcome = RAck "error option" | RNack string "error option"

definition runnerAck :: "session \<Rightarrow> round_env \<Rightarrow> message \<Rightarrow> broker \<Rightarrow> outcome \<times> broker" where
  "runnerAck ss rd m b =
     (case AckIfOwner (rd_settle rd) (ss_topic ss) (ss_group ss) (msg_Partition m) (msg_Offset m) (ss_owner ss) b of
        (r, b') \<Rightarrow> (RAck r, b'))"

definition runnerNack :: "session \<Rightarrow> round_env \<Rightarrow> message \<Rightarrow> string \<Rightarrow> broker \<Rightarrow> outcome \<times> broker" where
  "runnerNack ss rd m reason b =
     (case Nack (rd_settle rd) (rd_visit rd) (ss_topic ss) (ss_group ss) (msg_Partition m) (msg_Offset m)
             (ss_owner ss) reason b of
        (r, b') \<Rightarrow> (RNack reason r, b'))"

text \<open>The handler has answered and no renewal failed: fail or commit the lease, then Nack or Ack.\<close>

definition runnerSettle :: "session \<Rightarrow> round_env \<Rightarrow> message \<Rightarrow> error + bytes \<Rightarrow> broker \<Rightarrow> outcome \<times> broker" where
  "runnerSettle ss rd m answer b =
     (let now = env_now (rd_settle rd) in
      case answer of
        Inl herr \<Rightarrow>
          (case ConsumeFailIfOwner now (msg_tenant m) (ss_topic ss) (ss_group ss) (msg_idemKey m) (ss_owner ss)
                  (Some herr) (idem b, wal b) of
             (r, (s', w')) \<Rightarrow>
               let b1 = b\<lparr>idem := s', wal := w'\<rparr> in
               (case r of
                  Some ferr \<Rightarrow> runnerNack ss rd m (''idem_fail_failed: '' @ error_Error ferr) b1
                | None \<Rightarrow> runnerNack ss rd m (error_Error herr) b1))
      | Inr res \<Rightarrow>
          (case ConsumeCommitIfOwner now (msg_tenant m) (ss_topic ss) (ss_group ss) (msg_idemKey m) (ss_owner ss)
                  res (idem b, wal b) of
             (r, (s', w')) \<Rightarrow>
               let b1 = b\<lparr>idem := s', wal := w'\<rparr> in
               (case r of
                  Some cerr \<Rightarrow> runnerNack ss rd m (''idem_commit_failed: '' @ error_Error cerr) b1
                | None \<Rightarrow> runnerAck ss rd m b1)))"

text \<open>After the claim: the lease was refused, the work is already done, or the handler runs.\<close>

definition runnerClaimed ::
  "(message \<Rightarrow> error + bytes) \<Rightarrow> session \<Rightarrow> round_env \<Rightarrow> message \<Rightarrow> error + (bool \<times> bytes) \<Rightarrow> broker
     \<Rightarrow> outcome \<times> broker" where
  "runnerClaimed handler ss rd m claim b =
     (case claim of
        Inl berr \<Rightarrow>
          runnerNack ss rd m
            (if berr = ErrIdempotencyLeaseHeld then ''idem_lease_held''
             else ''idem_begin_failed: '' @ error_Error berr) b
      | Inr (alreadyDone, prior) \<Rightarrow>
          if alreadyDone then runnerAck ss rd m b
          else
            (case runMeanwhile ss m None (rd_during rd) b of
               (Some rerr, b2) \<Rightarrow> runnerNack ss rd m (''idem_lease_lost: '' @ error_Error rerr) b2
             | (None, b2) \<Rightarrow> runnerSettle ss rd m (handler m) b2))"

definition handleMessage ::
  "(message \<Rightarrow> error + bytes) \<Rightarrow> session \<Rightarrow> round_env \<Rightarrow> message \<Rightarrow> broker \<Rightarrow> outcome \<times> broker" where
  "handleMessage handler ss rd m b =
     (if msg_idemKey m = '''' then
        let b1 = snd (runMeanwhile ss m None (rd_during rd) b) in
        (case handler m of
           Inl herr \<Rightarrow> runnerNack ss rd m (error_Error herr) b1
         | Inr res \<Rightarrow> runnerAck ss rd m b1)
      else
        case ConsumeBeginLease (rd_claim rd) (msg_tenant m) (ss_topic ss) (ss_group ss) (msg_idemKey m)
               (ss_owner ss) (ss_lease ss) (idem b, wal b) of
          (claim, (s', w')) \<Rightarrow> runnerClaimed handler ss rd m claim (b\<lparr>idem := s', wal := w'\<rparr>))"

text \<open>The loop: others act, then the next message is taken from the channel; the loop ends when
  the channel is closed and empty, or with the context (the end of the list).\<close>

fun runnerLoop ::
  "(message \<Rightarrow> error + bytes) \<Rightarrow> session \<Rightarrow> nat \<Rightarrow> (broker_op list \<times> round_env) list \<Rightarrow> broker
     \<Rightarrow> outcome list \<times> broker" where
  "runnerLoop handler ss ch [] b = ([], b)"
| "runnerLoop handler ss ch ((before, rd) # rds) b =
     (let b1 = run_ops (broker_step (ss_router ss)) b before in
      case recv ch b1 of
        (Some m, b2) \<Rightarrow>
          (case handleMessage handler ss rd m b2 of
             (o1, b3) \<Rightarrow> (case runnerLoop handler ss ch rds b3 of (os, b4) \<Rightarrow> (o1 # os, b4)))
      | (None, b2) \<Rightarrow>
          (case mget (chans b2) ch of
             None \<Rightarrow> ([], b2)
           | Some c \<Rightarrow> if ch_closed c then ([], b2) else runnerLoop handler ss ch rds b2))"

definition RunConsumerWithIdempotency ::
  "(message \<Rightarrow> error + bytes) \<Rightarrow> router option \<Rightarrow> renv \<Rightarrow> string \<Rightarrow> string \<Rightarrow> string \<Rightarrow> duration
     \<Rightarrow> (broker_op list \<times> round_env) list \<Rightarrow> broker \<Rightarrow> (error + outcome list) \<times> broker" where
  "RunConsumerWithIdempotency handler router env topic grp owner0 lease rounds b =
     (case validateLease lease of
        Some err \<Rightarrow> (Inl err, b)
      | None \<Rightarrow>
          let owner = (if TrimSpace owner0 = '''' then ''consumer-runner'' else TrimSpace owner0) in
          case ConsumeWithLease env topic grp owner lease b of
            (Inl err, b1) \<Rightarrow> (Inl err, b1)
          | (Inr ch, b1) \<Rightarrow>
              (case runnerLoop handler \<lparr>ss_router = router, ss_topic = topic, ss_group = grp,
                      ss_owner = owner, ss_lease = lease\<rparr> ch rounds b1 of
                 (os, b2) \<Rightarrow> (Inr os, b2)))"

section \<open>The runner is a client of the public operations\<close>

definition reaches :: "router option \<Rightarrow> broker \<Rightarrow> broker \<Rightarrow> bool" where
  "reaches router b b' \<longleftrightarrow> (\<exists>ys. list_all op_ok ys \<and> b' = run_ops (broker_step router) b ys)"

lemma reaches_refl [simp]: "reaches router b b"
  unfolding reaches_def by (rule exI [of _ "[]"]) simp

lemma reaches_trans: "reaches router a b \<Longrightarrow> reaches router b c \<Longrightarrow> reaches router a c"
  unfolding reaches_def by (metis list_all_append run_ops_append)

lemma reaches_run: "list_all op_ok ys \<Longrightarrow> reaches router b (run_ops (broker_step router) b ys)"
  by (auto simp: reaches_def)

lemma reaches_op: "op_ok x \<Longrightarrow> reaches router b (broker_step router b x)"
  using reaches_run [of "[x]" router b] by simp

lemma reaches_idem:
  assumes "idem_step (idem b, wal b) x = (s', w')"
  shows "reaches router b (b\<lparr>idem := s', wal := w'\<rparr>)"
  using reaches_op [of "OpIdem x" router b] assms by simp

lemma reaches_bsteps: "reaches router b b' \<Longrightarrow> binv b \<Longrightarrow> bsteps b b' \<and> binv b'"
  by (auto simp: reaches_def intro: binv_run)

lemma runMeanwhile_reaches:
  "list_all mw_ok xs \<Longrightarrow> runMeanwhile ss m failed xs b = (r, b') \<Longrightarrow> reaches (ss_router ss) b b'"
proof (induction ss m failed xs b rule: runMeanwhile.induct)
  case (2 ss m failed x xs b)
  then show ?case using reaches_op [of x "ss_router ss" b] by (auto intro: reaches_trans)
next
  case (3 ss m failed now xs b)
  show ?case
  proof (cases "failed \<noteq> None \<or> msg_idemKey m = ''''")
    case True
    with 3 show ?thesis by simp
  next
    case False
    obtain q s' w' where c: "ConsumeRenewLease now (msg_tenant m) (ss_topic ss) (ss_group ss) (msg_idemKey m)
        (ss_owner ss) (ss_lease ss) (idem b, wal b) = (q, (s', w'))" by (metis prod.exhaust)
    have "reaches (ss_router ss) b (b\<lparr>idem := s', wal := w'\<rparr>)"
      by (rule reaches_idem [of _ "OpRenewLease now (msg_tenant m) (ss_topic ss) (ss_group ss) (msg_idemKey m) (ss_owner ss) (ss_lease ss)"])
        (simp add: c)
    moreover have "reaches (ss_router ss) (b\<lparr>idem := s', wal := w'\<rparr>) b'"
      using 3(2) [OF False c [symmetric] refl] 3(3,4) False c by simp
    ultimately show ?thesis by (rule reaches_trans)
  qed
qed simp

lemma runnerAck_reaches: "runnerAck ss rd m b = (oc, b') \<Longrightarrow> reaches (ss_router ss) b b'"
  using reaches_op [of "OpAckIfOwner (rd_settle rd) (ss_topic ss) (ss_group ss) (msg_Partition m) (msg_Offset m) (ss_owner ss)" "ss_router ss" b]
  by (auto simp: runnerAck_def split: prod.splits)

lemma runnerNack_reaches: "runnerNack ss rd m reason b = (oc, b') \<Longrightarrow> reaches (ss_router ss) b b'"
  using reaches_op [of "OpNack (rd_settle rd) (rd_visit rd) (ss_topic ss) (ss_group ss) (msg_Partition m) (msg_Offset m) (ss_owner ss) reason" "ss_router ss" b]
  by (auto simp: runnerNack_def split: prod.splits)

lemma runnerSettle_reaches:
  assumes "runnerSettle ss rd m answer b = (oc, b')"
  shows "reaches (ss_router ss) b b'"
proof (cases answer)
  case (Inl herr)
  obtain r s' w' where c: "ConsumeFailIfOwner (env_now (rd_settle rd)) (msg_tenant m) (ss_topic ss) (ss_group ss)
      (msg_idemKey m) (ss_owner ss) (Some herr) (idem b, wal b) = (r, (s', w'))" by (metis prod.exhaust)
  have "reaches (ss_router ss) b (b\<lparr>idem := s', wal := w'\<rparr>)"
    by (rule reaches_idem [of _ "OpConsumeFail (env_now (rd_settle rd)) (msg_tenant m) (ss_topic ss) (ss_group ss) (msg_idemKey m) (ss_owner ss) (Some herr)"])
      (simp add: c)
  with Inl c assms show ?thesis
    by (auto simp: runnerSettle_def Let_def split: option.splits intro: reaches_trans runnerNack_reaches)
next
  case (Inr res)
  obtain r s' w' where c: "ConsumeCommitIfOwner (env_now (rd_settle rd)) (msg_tenant m) (ss_topic ss) (ss_group ss)
      (msg_idemKey m) (ss_owner ss) res (idem b, wal b) = (r, (s', w'))" by (metis prod.exhaust)
  have "reaches (ss_router ss) b (b\<lparr>idem := s', wal := w'\<rparr>)"
    by (rule reaches_idem [of _ "OpConsumeCommit (env_now (rd_settle rd)) (msg_tenant m) (ss_topic ss) (ss_group ss) (msg_idemKey m) (ss_owner ss) res"])
      (simp add: c)
  with Inr c assms show ?thesis
    by (auto simp: runnerSettle_def Let_def split: option.splits intro: reaches_trans runnerNack_reaches runnerAck_reaches)
qed

lemma runnerClaimed_reaches:
  assumes "list_all mw_ok (rd_during rd)" "runnerClaimed handler ss rd m claim b = (oc, b')"
  shows "reaches (ss_router ss) b b'"
proof -
  obtain r b2 where mw: "runMeanwhile ss m None (rd_during rd) b = (r, b2)" by force
  have "reaches (ss_router ss) b b2" by (rule runMeanwhile_reaches [OF assms(1) mw])
  with assms(2) mw show ?thesis
    by (auto simp: runnerClaimed_def split: sum.splits if_splits option.splits
        dest!: runnerNack_reaches runnerAck_reaches runnerSettle_reaches intro: reaches_trans)
qed

lemma claim_reaches:
  assumes "ConsumeBeginLease now tn t g k ow lease (idem b, wal b) = (claim, (s', w'))"
  shows "reaches router b (b\<lparr>idem := s', wal := w'\<rparr>)"
  by (rule reaches_idem [of _ "OpBeginLease now tn t g k ow lease"]) (simp add: assms)

lemma handleMessage_reaches:
  assumes "list_all mw_ok (rd_during rd)" "handleMessage handler ss rd m b = (oc, b')"
  shows "reaches (ss_router ss) b b'"
proof (cases "msg_idemKey m = ''''")
  case True
  have "reaches (ss_router ss) b (snd (runMeanwhile ss m None (rd_during rd) b))"
    using runMeanwhile_reaches [OF assms(1)] by (metis prod.collapse)
  with True assms(2) show ?thesis
    by (auto simp: handleMessage_def Let_def split: sum.splits
        intro: reaches_trans runnerNack_reaches runnerAck_reaches)
next
  case False
  with assms(2) show ?thesis
    by (auto simp: handleMessage_def split: prod.splits
        intro: reaches_trans claim_reaches runnerClaimed_reaches [OF assms(1)])
qed

lemma runnerLoop_reaches:
  "list_all (\<lambda>(before, rd). list_all op_ok before \<and> list_all mw_ok (rd_during rd)) rds \<Longrightarrow>
     runnerLoop handler ss ch rds b = (os, b') \<Longrightarrow> reaches (ss_router ss) b b'"
proof (induction handler ss ch rds b arbitrary: os b' rule: runnerLoop.induct)
  case (2 handler ss ch before rd rds b)
  let ?b1 = "run_ops (broker_step (ss_router ss)) b before"
  have b1: "reaches (ss_router ss) b ?b1" using 2 by (intro reaches_run) auto
  obtain mo b2 where rc: "recv ch ?b1 = (mo, b2)" by force
  have b2: "reaches (ss_router ss) b b2"
    using reaches_trans [OF b1 reaches_op [of "OpRecv ch" "ss_router ss"]] rc by simp
  show ?case
  proof (cases mo)
    case None
    with 2(1) [OF refl rc [symmetric] None] 2(3,4) rc b2 show ?thesis
      by (auto split: option.splits if_splits intro: reaches_trans)
  next
    case (Some m)
    obtain o1 b3 where h: "handleMessage handler ss rd m b2 = (o1, b3)" by force
    obtain os' where l: "runnerLoop handler ss ch rds b3 = (os', b')"
      using 2(4) rc Some h by (auto split: prod.splits)
    have "reaches (ss_router ss) b2 b3" using 2(3) h by (intro handleMessage_reaches) auto
    moreover have "reaches (ss_router ss) b3 b'"
      using 2(2) [OF refl rc [symmetric] Some h [symmetric]] 2(3) l by auto
    ultimately show ?thesis using b2 by (metis reaches_trans)
  qed
qed simp


lemma runnerNack_not_ack: "runnerNack ss rd m reason b \<noteq> (RAck r, b')"
  by (simp add: runnerNack_def split: prod.split)

lemma runnerAck_cw:
  assumes "binv b" "cw (idem b) (consumeKey tn t g k) res" "runnerAck ss rd m b = (oc, b')"
  shows "cw (idem b') (consumeKey tn t g k) res"
  using bsteps_cw [OF conjunct1 [OF reaches_bsteps [OF runnerAck_reaches [OF assms(3)] assms(1)]] assms(1,2)] .

lemma BeginLease_done:
  assumes "ConsumeBeginLease now tn t g k ow lease (s, w) = (Inr (True, prior), (s', w'))"
    and "k \<noteq> ''''" "idem_wf s"
  shows "cw s (consumeKey tn t g k) prior" "cw s' (consumeKey tn t g k) prior"
proof -
  have "cw (cleanupLocked now s) (consumeKey tn t g k) prior \<and> s' = cleanupLocked now s"
    using assms(1,2)
    by (auto simp: ConsumeBeginLease_def Let_def cw_iff split: option.splits if_splits prod.splits)
  with assms(3) show "cw s (consumeKey tn t g k) prior" "cw s' (consumeKey tn t g k) prior"
    by (simp_all add: cw_cleanup)
qed

lemma runnerSettle_ack:
  assumes "binv b" "msg_idemKey m \<noteq> ''''" "runnerSettle ss rd m answer b = (RAck r, b')"
  shows "\<exists>res res'. answer = Inr res
    \<and> cw (idem b') (consumeKey (msg_tenant m) (ss_topic ss) (ss_group ss) (msg_idemKey m)) res'"
proof -
  obtain res s' w' where a: "answer = Inr res"
    and c: "ConsumeCommitIfOwner (env_now (rd_settle rd)) (msg_tenant m) (ss_topic ss) (ss_group ss)
      (msg_idemKey m) (ss_owner ss) res (idem b, wal b) = (None, (s', w'))"
    and ack: "runnerAck ss rd m (b\<lparr>idem := s', wal := w'\<rparr>) = (RAck r, b')"
    using assms(3) runnerNack_not_ack
    by (auto simp: runnerSettle_def Let_def split: sum.splits prod.splits option.splits)
  obtain res' where "cw s' (consumeKey (msg_tenant m) (ss_topic ss) (ss_group ss) (msg_idemKey m)) res'"
    using ConsumeCommit_None [OF c assms(2)] by blast
  moreover have "binv (b\<lparr>idem := s', wal := w'\<rparr>)"
    using assms(1) bstep_binv [OF bs_idem [of b "OpConsumeCommit (env_now (rd_settle rd)) (msg_tenant m)
        (ss_topic ss) (ss_group ss) (msg_idemKey m) (ss_owner ss) res" s' w']] c by simp
  ultimately show ?thesis using runnerAck_cw [OF _ _ ack] a by fastforce
qed

text \<open>Acknowledged means done: when the runner acknowledges a message with an idempotency key,
  then afterwards the key is COMMITTED, and either it was already committed, with the same
  result, when the runner claimed it, or the handler succeeded in this round.\<close>

theorem runner_ack_after_commit:
  assumes "binv b" "list_all mw_ok (rd_during rd)" "msg_idemKey m \<noteq> ''''"
    and "handleMessage handler ss rd m b = (RAck r, b')"
    and "k = consumeKey (msg_tenant m) (ss_topic ss) (ss_group ss) (msg_idemKey m)"
  shows "(\<exists>res. cw (idem b) k res \<and> cw (idem b') k res)
    \<or> (\<exists>res res'. handler m = Inr res \<and> cw (idem b') k res')"
proof -
  obtain claim s' w' where c: "ConsumeBeginLease (rd_claim rd) (msg_tenant m) (ss_topic ss) (ss_group ss) (msg_idemKey m)
      (ss_owner ss) (ss_lease ss) (idem b, wal b) = (claim, (s', w'))" by (metis prod.exhaust)
  let ?b1 = "b\<lparr>idem := s', wal := w'\<rparr>"
  have b1: "binv ?b1" using reaches_bsteps [OF claim_reaches [OF c] assms(1)] by blast
  have cl: "runnerClaimed handler ss rd m claim ?b1 = (RAck r, b')"
    using assms(3,4) c by (simp add: handleMessage_def)
  then obtain alreadyDone prior where claim: "claim = Inr (alreadyDone, prior)"
    using runnerNack_not_ack by (cases claim) (auto simp: runnerClaimed_def)
  show ?thesis
  proof (cases alreadyDone)
    case True
    with cl claim have ack: "runnerAck ss rd m ?b1 = (RAck r, b')" by (simp add: runnerClaimed_def)
    have "cw (idem b) k prior" "cw (idem ?b1) k prior"
      using BeginLease_done [OF _ assms(3)] c claim True assms(1,5) by (auto simp: binv_def)
    with runnerAck_cw [OF b1 _ ack] assms(5) show ?thesis by blast
  next
    case False
    obtain b2 where mw: "runMeanwhile ss m None (rd_during rd) ?b1 = (None, b2)"
      and s: "runnerSettle ss rd m (handler m) b2 = (RAck r, b')"
      using cl claim False runnerNack_not_ack by (auto simp: runnerClaimed_def split: prod.splits option.splits)
    have "binv b2" using reaches_bsteps [OF runMeanwhile_reaches [OF assms(2) mw] b1] by blast
    from runnerSettle_ack [OF this assms(3) s] assms(5) show ?thesis by blast
  qed
qed

definition runner_example :: broker where
  "runner_example = run_ops (broker_step None) (NewInMemoryBrokerWithOptions None [])
     [OpCreateTopic (90 * minute) ''orders'' 1 \<lparr>tc_Mode = ''''\<rparr>, OpProduce example_env ''orders'' keyed_msg,
      OpConsumeWithLease example_env ''orders'' ''g'' ''w1'' (30 * second)]"

definition runner_session :: session where
  "runner_session = \<lparr>ss_router = None, ss_topic = ''orders'', ss_group = ''g'', ss_owner = ''w1'', ss_lease = 30 * second\<rparr>"

definition runner_round :: round_env where
  "runner_round = \<lparr>rd_claim = 100 * minute, rd_during = [RenewTick (100 * minute + 10 * second)],
     rd_settle = \<lparr>env_now = 100 * minute + 20 * second, env_ord = (\<lambda>xs. xs)\<rparr>, rd_visit = []\<rparr>"

lemma runner_round_ok: "list_all mw_ok (rd_during runner_round)"
  by (simp add: runner_round_def)


lemma runner_example_binv: "binv runner_example"
  unfolding runner_example_def by (rule binv_run(1) [OF _ binv_init]) simp

lemma runner_example_eval:
  "fst (handleMessage (\<lambda>_. Inr [1]) runner_session runner_round (part_log runner_example ''orders'' 0 ! 0) runner_example) = RAck None"
  "msg_idemKey (part_log runner_example ''orders'' 0 ! 0) = ''k1''"
  "msg_tenant (part_log runner_example ''orders'' 0 ! 0) = ''''"
  "ss_topic runner_session = ''orders''" "ss_group runner_session = ''g''"
  by code_simp+

theorem runner_ack_after_commit_witness:
  "\<exists>res. cw (idem (snd (handleMessage (\<lambda>_. Inr [1]) runner_session runner_round
      (part_log runner_example ''orders'' 0 ! 0) runner_example))) (consumeKey '''' ''orders'' ''g'' ''k1'') res"
proof -
  let ?m = "part_log runner_example ''orders'' 0 ! 0"
  obtain b' where h: "handleMessage (\<lambda>_. Inr [1]) runner_session runner_round ?m runner_example = (RAck None, b')"
    using runner_example_eval(1) by (metis prod.collapse)
  from runner_ack_after_commit [OF runner_example_binv runner_round_ok _ h refl] show ?thesis
    by (auto simp: h runner_example_eval)
qed

text \<open>Leases are renewed in time: for every lease the runner accepts, the renewal interval is
  positive and at least two renewals fall due before the lease runs out.\<close>

theorem renewal_in_time:
  assumes "validateLease lease = None"
  shows "0 < renewInterval lease \<and> 2 * renewInterval lease < lease"
proof -
  have l: "250 * millisecond \<le> lease" using assms by (auto simp: validateLease_def split: if_splits)
  then have "lease sdiv 3 = lease div 3" "lease div 3 < lease" "2 * (lease div 3) < lease"
    by (simp_all add: signed_divide_int_def)
  with l show ?thesis by (simp add: renewInterval_def Let_def minRenew_def)
qed

theorem renewal_in_time_witness: "2 * renewInterval (250 * millisecond) < 250 * millisecond"
  using renewal_in_time [of "250 * millisecond"] by (simp add: validateLease_def)

end
