(* ===== verification/EngineTypes.thy ===== *)
theory EngineTypes
  imports Prelude Complex_Main
begin

text \<open>
  Data of the workflow engine: runs, node executions, run events and timers with their
  validation (\<^verbatim>\<open>internal/engine/types.go\<close>), budgets (\<^verbatim>\<open>budget.go\<close>, \<^verbatim>\<open>usage.go\<close>) and workflow
  graphs (\<^verbatim>\<open>dag.go\<close>, \<^verbatim>\<open>spec.go\<close>).  A \<open>json.RawMessage\<close> is represented by the value its text
  encodes (\<open>json\<close>), \<open>JNil\<close> being the nil or empty message and \<open>JBad\<close> text that is not valid JSON, and dollar amounts, \<open>float64\<close> in
  the code, by rationals, so rounding is not modelled.  The \<open>clone...\<close> functions copy; on
  values they are the identity.
\<close>

section \<open>JSON values and errors\<close>

datatype json =
    JNil
  | JBad string
  | JNull
  | JBool bool
  | JText string
  | JInt int
  | JNum rat
  | JTime gotime
  | JArr "json list"
  | JObj "(string \<times> json) list"

text \<open>\<open>json_ok\<close>: \<open>json.Marshal\<close> succeeds on it.  \<open>marshal\<close> is \<^verbatim>\<open>p, _ := json.Marshal(v)\<close>, where a
  failure leaves nil.\<close>

fun json_ok :: "json \<Rightarrow> bool" where
  "json_ok (JBad s) \<longleftrightarrow> False"
| "json_ok (JArr xs) \<longleftrightarrow> (\<forall>x \<in> set xs. json_ok x)"
| "json_ok (JObj kvs) \<longleftrightarrow> (\<forall>kv \<in> set kvs. json_ok (snd kv))"
| "json_ok _ \<longleftrightarrow> True"

definition marshal :: "json \<Rightarrow> json" where
  "marshal j = (if json_ok j then j else JNil)"

datatype engineError =
    EText string
  | ErrRunAlreadyExists
  | ErrRunNotFound
  | ErrNodeFailed
  | ErrRunCanceled
  | ErrGraphInvalid
  | ErrBudgetExceeded
  | ErrAuthorizationDenied string
  | ErrTenantAccessDenied
  | ErrTenantQuotaExceeded
  | ErrRiskBlocked string
  | ErrRiskApprovalRequired string
  | ErrHumanApprovalPending
  | ErrHumanTaskNotFound
  | ErrHumanTaskResolved
  | ErrToolNotApproved
  | ErrToolServerNotApproved
  | ErrToolSchemaInvalid
  | ErrAgentStateNotFound
  | ErrAgentStateAccessDenied
  | ErrAgentStateReplayWriteDenied
  | ErrAgentStateVersionConflict
  | ErrSideEffectReceiptNotFound
  | ErrSideEffectCommitPending
  | ErrSideEffectNotCompensable
  | EWrap string engineError

section \<open>Statuses and event types\<close>

abbreviation RunStatusQueued :: string where "RunStatusQueued \<equiv> ''queued''"
abbreviation RunStatusRunning :: string where "RunStatusRunning \<equiv> ''running''"
abbreviation RunStatusWaiting :: string where "RunStatusWaiting \<equiv> ''waiting''"
abbreviation RunStatusSucceeded :: string where "RunStatusSucceeded \<equiv> ''succeeded''"
abbreviation RunStatusFailed :: string where "RunStatusFailed \<equiv> ''failed''"
abbreviation RunStatusCanceled :: string where "RunStatusCanceled \<equiv> ''canceled''"

abbreviation NodeStatusQueued :: string where "NodeStatusQueued \<equiv> ''queued''"
abbreviation NodeStatusRunning :: string where "NodeStatusRunning \<equiv> ''running''"
abbreviation NodeStatusWaiting :: string where "NodeStatusWaiting \<equiv> ''waiting''"
abbreviation NodeStatusSucceeded :: string where "NodeStatusSucceeded \<equiv> ''succeeded''"
abbreviation NodeStatusFailed :: string where "NodeStatusFailed \<equiv> ''failed''"
abbreviation NodeStatusCanceled :: string where "NodeStatusCanceled \<equiv> ''canceled''"

abbreviation TimerScheduled :: string where "TimerScheduled \<equiv> ''scheduled''"
abbreviation TimerFired :: string where "TimerFired \<equiv> ''fired''"
abbreviation TimerCanceled :: string where "TimerCanceled \<equiv> ''canceled''"

abbreviation EventTimerScheduled :: string where "EventTimerScheduled \<equiv> ''timer_scheduled''"
abbreviation EventTimerFired :: string where "EventTimerFired \<equiv> ''timer_fired''"
abbreviation EventTimerCanceled :: string where "EventTimerCanceled \<equiv> ''timer_canceled''"
abbreviation EventRunCreated :: string where "EventRunCreated \<equiv> ''run_created''"
abbreviation EventRunStarted :: string where "EventRunStarted \<equiv> ''run_started''"
abbreviation EventRunFinished :: string where "EventRunFinished \<equiv> ''run_finished''"
abbreviation EventNodeStarted :: string where "EventNodeStarted \<equiv> ''node_started''"
abbreviation EventNodeFinished :: string where "EventNodeFinished \<equiv> ''node_finished''"
abbreviation EventNodeFailed :: string where "EventNodeFailed \<equiv> ''node_failed''"
abbreviation EventThrottled :: string where "EventThrottled \<equiv> ''throttled''"
abbreviation EventBudgetExceeded :: string where "EventBudgetExceeded \<equiv> ''budget_exceeded''"
abbreviation EventRiskAssessed :: string where "EventRiskAssessed \<equiv> ''risk_assessed''"
abbreviation EventHumanTaskCreated :: string where "EventHumanTaskCreated \<equiv> ''human_task_created''"
abbreviation EventHumanTaskResolved :: string where "EventHumanTaskResolved \<equiv> ''human_task_resolved''"

definition RunStatus_Valid :: "string \<Rightarrow> bool" where
  "RunStatus_Valid s \<longleftrightarrow> s \<in> {RunStatusQueued, RunStatusRunning, RunStatusWaiting, RunStatusSucceeded,
     RunStatusFailed, RunStatusCanceled}"

definition NodeStatus_Valid :: "string \<Rightarrow> bool" where
  "NodeStatus_Valid s \<longleftrightarrow> s \<in> {NodeStatusQueued, NodeStatusRunning, NodeStatusWaiting, NodeStatusSucceeded,
     NodeStatusFailed, NodeStatusCanceled}"

section \<open>Budgets\<close>

record budgetPolicy =
  bp_MaxTokens :: int
  bp_MaxDollars :: rat
  bp_WallClockTimeoutMS :: int
  bp_MaxAttempts :: int

record budgetUsage =
  bu_Tokens :: int
  bu_Dollars :: rat
  bu_Attempts :: int
  bu_WallClock :: int

text \<open>The smallest positive of some values, 0 when none is positive: \<open>minPosI64\<close>, \<open>minPosF64\<close> and
  \<open>minPosInt\<close> are this one loop at three types.\<close>

fun minPosLoop :: "'a::{zero, linorder} \<Rightarrow> 'a list \<Rightarrow> 'a" where
  "minPosLoop out [] = out"
| "minPosLoop out (v # vs) =
     (if v \<le> 0 then minPosLoop out vs
      else if out = 0 \<or> v < out then minPosLoop v vs else minPosLoop out vs)"

definition minPosI64 :: "int list \<Rightarrow> int" where "minPosI64 vals = minPosLoop 0 vals"
definition minPosF64 :: "rat list \<Rightarrow> rat" where "minPosF64 vals = minPosLoop 0 vals"
definition minPosInt :: "int list \<Rightarrow> int" where "minPosInt vals = minPosLoop 0 vals"

definition effectiveBudget :: "budgetPolicy \<Rightarrow> budgetPolicy \<Rightarrow> budgetPolicy \<Rightarrow> budgetPolicy" where
  "effectiveBudget def tenant perRun =
     \<lparr>bp_MaxTokens = minPosI64 [bp_MaxTokens def, bp_MaxTokens tenant, bp_MaxTokens perRun],
      bp_MaxDollars = minPosF64 [bp_MaxDollars def, bp_MaxDollars tenant, bp_MaxDollars perRun],
      bp_WallClockTimeoutMS = minPosI64 [bp_WallClockTimeoutMS def, bp_WallClockTimeoutMS tenant, bp_WallClockTimeoutMS perRun],
      bp_MaxAttempts = minPosInt [bp_MaxAttempts def, bp_MaxAttempts tenant, bp_MaxAttempts perRun]\<rparr>"

definition zeroBudget :: budgetPolicy where
  "zeroBudget = \<lparr>bp_MaxTokens = 0, bp_MaxDollars = 0, bp_WallClockTimeoutMS = 0, bp_MaxAttempts = 0\<rparr>"

definition zeroUsage :: budgetUsage where
  "zeroUsage = \<lparr>bu_Tokens = 0, bu_Dollars = 0, bu_Attempts = 0, bu_WallClock = 0\<rparr>"

section \<open>Runs, events, node executions, timers\<close>

record run =
  run_RunID :: string
  run_WorkflowID :: string
  run_Status :: string
  run_StartedAt :: "gotime option"
  run_EndedAt :: "gotime option"
  run_Spec :: json
  run_InitialInput :: json
  run_TenantID :: string
  run_TerminalReason :: string
  run_TerminalMeta :: json
  run_RunBudget :: budgetPolicy
  run_BudgetUsage :: budgetUsage

record runEvent =
  ev_RunID :: string
  ev_Seq :: int
  ev_Type :: string
  ev_At :: gotime
  ev_WorkflowID :: string
  ev_NodeID :: string
  ev_Attempt :: int
  ev_Payload :: json

record nodeExecution =
  ne_RunID :: string
  ne_WorkflowID :: string
  ne_NodeID :: string
  ne_Attempt :: int
  ne_Status :: string
  ne_StartedAt :: "gotime option"
  ne_EndedAt :: "gotime option"
  ne_Input :: json
  ne_Output :: json
  ne_Error :: string

record timer =
  tm_RunID :: string
  tm_WorkflowID :: string
  tm_NodeID :: string
  tm_Attempt :: int
  tm_Status :: string
  tm_FireAt :: gotime
  tm_CreatedAt :: gotime
  tm_FiredAt :: "gotime option"
  tm_Reason :: string

definition Run_Validate :: "run \<Rightarrow> engineError option" where
  "Run_Validate r =
     (if run_RunID r = '''' then Some (EText ''run_id is required'')
      else if run_WorkflowID r = '''' then Some (EText ''workflow_id is required'')
      else if \<not> RunStatus_Valid (run_Status r) then Some (EText (''invalid run status: '' @ run_Status r))
      else None)"

definition NodeExecution_Validate :: "nodeExecution \<Rightarrow> engineError option" where
  "NodeExecution_Validate n =
     (if ne_RunID n = '''' then Some (EText ''run_id is required'')
      else if ne_WorkflowID n = '''' then Some (EText ''workflow_id is required'')
      else if ne_NodeID n = '''' then Some (EText ''node_id is required'')
      else if ne_Attempt n < 1 then Some (EText ''attempt must be >= 1'')
      else if \<not> NodeStatus_Valid (ne_Status n) then Some (EText (''invalid node status: '' @ ne_Status n))
      else None)"

definition RunEvent_Validate :: "runEvent \<Rightarrow> engineError option" where
  "RunEvent_Validate e =
     (if ev_RunID e = '''' then Some (EText ''run_id is required'')
      else if ev_Seq e < 1 then Some (EText ''seq must be >= 1'')
      else if ev_Type e = '''' then Some (EText ''type is required'')
      else if IsZero (ev_At e) then Some (EText ''at is required'')
      else None)"

section \<open>Lemmas\<close>

lemma minPosLoop_spec:
  assumes "0 \<le> out"
  shows "minPosLoop out vs = (let ps = set (filter (\<lambda>v. 0 < v) (out # vs)) in if ps = {} then 0 else Min ps)"
  using assms
proof (induction vs arbitrary: out)
  case Nil
  then show ?case by auto
next
  case (Cons v vs)
  show ?case
  proof (cases "v \<le> 0")
    case True
    with Cons show ?thesis by (auto simp: Let_def)
  next
    case False
    let ?P = "set (filter (\<lambda>v. 0 < v) vs)"
    show ?thesis
    proof (cases "out = 0 \<or> v < out")
      case True
      have "Min (insert v ?P) = Min (insert v (insert out ?P))" if "0 < out" "v < out"
        using that by (cases "?P = {}") (auto simp: min_def)
      with True False Cons.IH [of v] Cons.prems show ?thesis by (auto simp: Let_def insert_commute)
    next
      case less: False
      then have out: "0 < out" "out \<le> v" using Cons.prems by auto
      then have "Min (insert out ?P) = Min (insert out (insert v ?P))" by (cases "?P = {}") (auto simp: min_def)
      with less False Cons.IH [of out] out show ?thesis by (simp add: Let_def)
    qed
  qed
qed

end
