(* ===== verification/EngineDocs.thy ===== *)
theory EngineDocs
  imports EngineTypes
begin

text \<open>
  The values the engine keeps as JSON documents in the key-value part of its store:
  principals, authorization policies (\<^verbatim>\<open>authz.go\<close>), risk reports and policies (\<^verbatim>\<open>risk.go\<close>), human
  tasks (\<^verbatim>\<open>human.go\<close>), tool policies, servers and call records (\<^verbatim>\<open>tool_gateway.go\<close>), the routing
  policy (\<^verbatim>\<open>brain.go\<close>), side-effect receipts (\<^verbatim>\<open>side_effects.go\<close>), audit records
  (\<^verbatim>\<open>governance.go\<close>), agent states (\<^verbatim>\<open>agent_state.go\<close>), evaluations (\<^verbatim>\<open>evals.go\<close>), releases
  (\<^verbatim>\<open>workflow_releases.go\<close>) and the lists of identifiers that index them.

  A stored value is a Go string.  \<open>kvText\<close> says which text it is: a plain string, or the JSON
  text of one of these values, where reading back what was written gives the value itself
  (times are in UTC throughout).  \<open>kv_json_ok\<close> says that \<open>json.Marshal\<close> succeeds; it fails only on
  an invalid \<open>json.RawMessage\<close>.
\<close>

record principal =
  pr_ID :: string
  pr_Type :: string
  pr_TenantID :: string
  pr_TenantScopes :: "string list"
  pr_Roles :: "string list"
  pr_Capabilities :: "string list"
  pr_Attributes :: "(string, string) gomap"

definition noPrincipal :: principal where
  "noPrincipal = \<lparr>pr_ID = '''', pr_Type = '''', pr_TenantID = '''', pr_TenantScopes = [], pr_Roles = [], pr_Capabilities = [], pr_Attributes = []\<rparr>"

record authorizationRule =
  ar_ID :: string
  ar_Description :: string
  ar_Effect :: string
  ar_Actions :: "string list"
  ar_PrincipalIDs :: "string list"
  ar_Roles :: "string list"
  ar_PrincipalCapabilities :: "string list"
  ar_Tenants :: "string list"
  ar_Workflows :: "string list"
  ar_Tools :: "string list"
  ar_NodeIDs :: "string list"
  ar_RequiredCapabilities :: "string list"

record authorizationPolicyBundle =
  ab_ID :: string
  ab_Description :: string
  ab_UpdatedAt :: "gotime option"
  ab_Rules :: "authorizationRule list"

record riskThresholds =
  rk_SandboxScore :: int
  rk_ApprovalScore :: int
  rk_BlockScore :: int

record riskPolicy =
  rkp_ID :: string
  rkp_Description :: string
  rkp_UpdatedAt :: "gotime option"
  rkp_Thresholds :: riskThresholds

record riskFinding =
  rf_Category :: string
  rf_Severity :: string
  rf_Score :: int
  rf_Summary :: string
  rf_Evidence :: "string list"

record workflowRiskReport =
  rr_Allowed :: bool
  rr_Action :: string
  rr_Score :: int
  rr_Reason :: string
  rr_RunID :: string
  rr_TenantID :: string
  rr_WorkflowID :: string
  rr_Principal :: principal
  rr_Thresholds :: riskThresholds
  rr_Findings :: "riskFinding list"

record humanTask =
  ht_ID :: string
  ht_RunID :: string
  ht_WorkflowID :: string
  ht_NodeID :: string
  ht_Attempt :: int
  ht_TenantID :: string
  ht_Mode :: string
  ht_Source :: string
  ht_Status :: string
  ht_Prompt :: string
  ht_RequestedInput :: json
  ht_EditedInput :: json
  ht_SideEffectReceiptID :: string
  ht_ReviewComment :: string
  ht_TimeoutAction :: string
  ht_CreatedAt :: gotime
  ht_UpdatedAt :: gotime
  ht_ResolvedAt :: "gotime option"
  ht_ExpiresAt :: "gotime option"
  ht_RiskReport :: "workflowRiskReport option"

record sideEffectReceipt =
  se_ID :: string
  se_CreatedAt :: gotime
  se_UpdatedAt :: gotime
  se_TenantID :: string
  se_PrincipalID :: string
  se_RunID :: string
  se_WorkflowID :: string
  se_NodeID :: string
  se_Attempt :: int
  se_Tool :: string
  se_ServerID :: string
  se_Status :: string
  se_Mode :: string
  se_Irreversible :: bool
  se_ApprovalRequired :: bool
  se_CompensationTool :: string
  se_HumanTaskID :: string
  se_Input :: json
  se_Preview :: json
  se_CommitOutput :: json
  se_CompensationOutput :: json
  se_Error :: string

record auditRecord =
  au_ID :: string
  au_At :: gotime
  au_TenantID :: string
  au_PrincipalID :: string
  au_Action :: string
  au_ResourceType :: string
  au_ResourceID :: string
  au_RunID :: string
  au_WorkflowID :: string
  au_Outcome :: string
  au_Reason :: string

record sideEffectPolicy =
  sp_Enabled :: bool
  sp_StageRequired :: bool
  sp_DryRunSupported :: bool
  sp_Irreversible :: bool
  sp_ApprovalBeforeCommit :: bool
  sp_CompensationTool :: string

record adaptiveRoute =
  rt_ID :: string
  rt_Provider :: string
  rt_Model :: string
  rt_EstimatedTokens :: int
  rt_EstimatedDollars :: rat
  rt_Priority :: int
  rt_TenantScopes :: "string list"

record adaptiveRoutingPolicy =
  ap_CheapFirst :: bool
  ap_EscalateOnUncertainty :: bool
  ap_UncertaintyThreshold :: rat
  ap_EscalateOnFailure :: bool
  ap_FailureAttemptThreshold :: int
  ap_EscalateOnRisk :: bool
  ap_RiskScoreThreshold :: int
  ap_Routes :: "adaptiveRoute list"

record toolServer =
  ts_ID :: string
  ts_Kind :: string
  ts_Endpoint :: string
  ts_Description :: string
  ts_Approved :: bool
  ts_AllowedTools :: "string list"
  ts_TenantScopes :: "string list"
  ts_SandboxAllowed :: bool

record toolPolicy =
  tl_ID :: string
  tl_Tool :: string
  tl_ServerID :: string
  tl_Approved :: bool
  tl_SandboxRequired :: bool
  tl_SideEffect :: "sideEffectPolicy option"
  tl_AdaptiveRouting :: "adaptiveRoutingPolicy option"
  tl_TenantScopes :: "string list"
  tl_RedactFields :: "string list"
  tl_InputSchema :: json
  tl_OutputSchema :: json

record toolGatewayBundle =
  tb_Tools :: "toolPolicy list"
  tb_Servers :: "toolServer list"
  tb_UpdatedAt :: "gotime option"

record toolCallRecord =
  cr_ID :: string
  cr_At :: gotime
  cr_TenantID :: string
  cr_PrincipalID :: string
  cr_RunID :: string
  cr_WorkflowID :: string
  cr_NodeID :: string
  cr_Attempt :: int
  cr_Tool :: string
  cr_ServerID :: string
  cr_ServerKind :: string
  cr_RouteID :: string
  cr_Provider :: string
  cr_Model :: string
  cr_Allowed :: bool
  cr_Sandboxed :: bool
  cr_DurationMS :: int
  cr_Reason :: string
  cr_Input :: json
  cr_Output :: json
  cr_Error :: string

record brainWeights =
  bw_SuccessRate :: rat
  bw_WorkflowAffinity :: rat
  bw_Latency :: rat
  bw_Cost :: rat
  bw_Priority :: rat
  bw_Escalation :: rat

record brainPolicy =
  bn_Enabled :: bool
  bn_LookbackRecords :: int
  bn_MinSamples :: int
  bn_DefaultSuccessRate :: rat
  bn_DefaultLatencyMS :: int
  bn_Weights :: brainWeights

record agentStateSnapshot =
  ag_TenantID :: string
  ag_AgentID :: string
  ag_Version :: int
  ag_ParentVersion :: int
  ag_CreatedAt :: gotime
  ag_State :: json
  ag_TraceID :: string
  ag_PrincipalID :: string
  ag_RunID :: string
  ag_WorkflowID :: string
  ag_NodeID :: string
  ag_Attempt :: int

record evalCase =
  ec_ID :: string
  ec_Name :: string
  ec_SourceRunID :: string
  ec_Spec :: json
  ec_Input :: json
  ec_TargetNodeID :: string
  ec_ExpectedOutput :: json
  ec_Labels :: "(string, string) gomap"

record evalDataset =
  ds_ID :: string
  ds_Name :: string
  ds_Description :: string
  ds_Cases :: "evalCase list"
  ds_CreatedAt :: "gotime option"
  ds_UpdatedAt :: "gotime option"

record evalSuite =
  su_ID :: string
  su_Name :: string
  su_Description :: string
  su_DatasetID :: string
  su_Evaluator :: string
  su_TargetNodeID :: string
  su_PassThreshold :: rat
  su_CreatedAt :: "gotime option"
  su_UpdatedAt :: "gotime option"

record evalCaseResult =
  er_CaseID :: string
  er_Name :: string
  er_SourceRunID :: string
  er_RunID :: string
  er_RunStatus :: string
  er_Passed :: bool
  er_Score :: rat
  er_Reason :: string
  er_TargetNodeID :: string
  er_ExpectedOutput :: json
  er_ActualOutput :: json

record evalReport =
  ep_ID :: string
  ep_SuiteID :: string
  ep_DatasetID :: string
  ep_Status :: string
  ep_Evaluator :: string
  ep_TargetNodeID :: string
  ep_PassThreshold :: rat
  ep_CaseCount :: int
  ep_PassedCount :: int
  ep_PassRate :: rat
  ep_Passed :: bool
  ep_CreatedAt :: "gotime option"
  ep_CompletedAt :: "gotime option"
  ep_Results :: "evalCaseResult list"

record releaseVersion =
  rv_ID :: string
  rv_WorkflowID :: string
  rv_Spec :: json
  rv_PromptSnapshot :: json
  rv_ModelSnapshot :: json
  rv_ToolGateway :: "toolGatewayBundle option"
  rv_Authorization :: "authorizationPolicyBundle option"
  rv_Risk :: "riskPolicy option"
  rv_SourceRunID :: string
  rv_EvalRunID :: string
  rv_CreatedAt :: "gotime option"
  rv_UpdatedAt :: "gotime option"

record releaseChannel =
  rc_WorkflowID :: string
  rc_Environment :: string
  rc_ActiveVersionID :: string
  rc_PreviousVersionID :: string
  rc_CanaryVersionID :: string
  rc_CanaryPercent :: int
  rc_ShadowVersionIDs :: "string list"
  rc_AutoRollback :: bool
  rc_LastEvalRunID :: string
  rc_CreatedAt :: "gotime option"
  rc_UpdatedAt :: "gotime option"

datatype kvText =
    Plain string
  | DocIDs "string list"
  | DocAudit auditRecord
  | DocHuman humanTask
  | DocReceipt sideEffectReceipt
  | DocPolicy authorizationPolicyBundle
  | DocRiskPolicy riskPolicy
  | DocToolBundle toolGatewayBundle
  | DocToolCall toolCallRecord
  | DocBrainPolicy brainPolicy
  | DocInt int
  | DocAgentState agentStateSnapshot
  | DocDataset evalDataset
  | DocSuite evalSuite
  | DocReport evalReport
  | DocRelease releaseVersion
  | DocChannel releaseChannel

fun kv_json_ok :: "kvText \<Rightarrow> bool" where
  "kv_json_ok (DocHuman t) \<longleftrightarrow> json_ok (ht_RequestedInput t) \<and> json_ok (ht_EditedInput t)"
| "kv_json_ok (DocReceipt r) \<longleftrightarrow> json_ok (se_Input r) \<and> json_ok (se_Preview r) \<and> json_ok (se_CommitOutput r) \<and> json_ok (se_CompensationOutput r)"
| "kv_json_ok (DocToolBundle b) \<longleftrightarrow> list_all (\<lambda>p. json_ok (tl_InputSchema p) \<and> json_ok (tl_OutputSchema p)) (tb_Tools b)"
| "kv_json_ok (DocToolCall r) \<longleftrightarrow> json_ok (cr_Input r) \<and> json_ok (cr_Output r)"
| "kv_json_ok (DocAgentState x) \<longleftrightarrow> json_ok (ag_State x)"
| "kv_json_ok (DocDataset d) \<longleftrightarrow> list_all (\<lambda>c. json_ok (ec_Spec c) \<and> json_ok (ec_Input c) \<and> json_ok (ec_ExpectedOutput c)) (ds_Cases d)"
| "kv_json_ok (DocReport r) \<longleftrightarrow> list_all (\<lambda>x. json_ok (er_ExpectedOutput x) \<and> json_ok (er_ActualOutput x)) (ep_Results r)"
| "kv_json_ok (DocRelease v) \<longleftrightarrow> json_ok (rv_Spec v) \<and> json_ok (rv_PromptSnapshot v) \<and> json_ok (rv_ModelSnapshot v) \<and>
     (case rv_ToolGateway v of None \<Rightarrow> True | Some b \<Rightarrow> list_all (\<lambda>p. json_ok (tl_InputSchema p) \<and> json_ok (tl_OutputSchema p)) (tb_Tools b))"
| "kv_json_ok _ \<longleftrightarrow> True"

end
