(* ===== verification/EngineStore.thy ===== *)
theory EngineStore
  imports EngineDocs "HOL-Library.Product_Lexorder"
begin

text \<open>
  The engine's persistence layer, \<^verbatim>\<open>internal/engine/memstore.go\<close>.

  \<^item> \<open>storeOps\<close> is the Go interface \<open>Store\<close>: a record of its methods, which the runner calls
    without knowing the implementation.  A method that may read the clock or the disk takes
    the time as its first argument.
  \<^item> \<open>memStore\<close> is \<open>MemoryStore\<close>; every method is one definition.  A list that Go sorts with
    \<open>sort.Slice\<close> is sorted by the key its comparison function orders by.
  \<^item> \<open>storeView\<close> is the abstract state a client can observe, and the locale \<open>store_contract\<close>
    what every implementation promises about it; \<open>reliable_store\<close> adds that valid calls
    succeed.  Both are discharged here for \<open>MemoryStore\<close>, and for \<open>FileStore\<close> in its theory.
\<close>

section \<open>The Store interface\<close>

record 's storeOps =
  so_CreateRun :: "gotime \<Rightarrow> run \<Rightarrow> 's \<Rightarrow> engineError option \<times> 's"
  so_UpdateRun :: "gotime \<Rightarrow> run \<Rightarrow> 's \<Rightarrow> engineError option \<times> 's"
  so_GetRun :: "'s \<Rightarrow> string \<Rightarrow> run option"
  so_UpsertNodeExecution :: "gotime \<Rightarrow> nodeExecution \<Rightarrow> 's \<Rightarrow> engineError option \<times> 's"
  so_GetNodeExecution :: "'s \<Rightarrow> string \<Rightarrow> string \<Rightarrow> int \<Rightarrow> nodeExecution option"
  so_ListNodeExecutions :: "'s \<Rightarrow> string \<Rightarrow> nodeExecution list"
  so_AppendEvent :: "gotime \<Rightarrow> runEvent \<Rightarrow> 's \<Rightarrow> (engineError + runEvent) \<times> 's"
  so_ListEvents :: "'s \<Rightarrow> string \<Rightarrow> runEvent list"
  so_UpsertTimer :: "gotime \<Rightarrow> timer \<Rightarrow> 's \<Rightarrow> engineError option \<times> 's"
  so_GetTimer :: "'s \<Rightarrow> string \<Rightarrow> string \<Rightarrow> int \<Rightarrow> timer option"
  so_ListTimers :: "'s \<Rightarrow> string \<Rightarrow> timer list"
  so_ListDueTimers :: "'s \<Rightarrow> gotime \<Rightarrow> timer list"
  so_ListRuns :: "'s \<Rightarrow> string list"
  so_PutKV :: "gotime \<Rightarrow> string \<Rightarrow> kvText \<Rightarrow> 's \<Rightarrow> engineError option \<times> 's"
  so_GetKV :: "'s \<Rightarrow> string \<Rightarrow> kvText option"

section \<open>MemoryStore\<close>

type_synonym nodeKey = "string \<times> string \<times> int"

record memStore =
  ms_runs :: "(string, run) gomap"
  ms_nodes :: "(nodeKey, nodeExecution) gomap"
  ms_events :: "(string, runEvent list) gomap"
  ms_nextSeq :: "(string, int) gomap"
  ms_timers :: "(string, timer) gomap"
  ms_kv :: "(string, kvText) gomap"

definition NewMemoryStore :: memStore where
  "NewMemoryStore = \<lparr>ms_runs = [], ms_nodes = [], ms_events = [], ms_nextSeq = [], ms_timers = [], ms_kv = []\<rparr>"

text \<open>What both stores do to their maps once a call is accepted.\<close>

definition seedSeq :: "string \<Rightarrow> (string, int) gomap \<Rightarrow> (string, int) gomap" where
  "seedSeq runID m = (if mget m runID = None then mput runID 1 m else m)"

definition CreateRun :: "run \<Rightarrow> memStore \<Rightarrow> engineError option \<times> memStore" where
  "CreateRun r s =
     (case Run_Validate r of
        Some err \<Rightarrow> (Some err, s)
      | None \<Rightarrow>
          if mget (ms_runs s) (run_RunID r) \<noteq> None then (Some ErrRunAlreadyExists, s)
          else (None, s\<lparr>ms_runs := mput (run_RunID r) r (ms_runs s),
                        ms_nextSeq := seedSeq (run_RunID r) (ms_nextSeq s)\<rparr>))"

definition UpdateRun :: "run \<Rightarrow> memStore \<Rightarrow> engineError option \<times> memStore" where
  "UpdateRun r s =
     (case Run_Validate r of
        Some err \<Rightarrow> (Some err, s)
      | None \<Rightarrow>
          if mget (ms_runs s) (run_RunID r) = None then (Some ErrRunNotFound, s)
          else (None, s\<lparr>ms_runs := mput (run_RunID r) r (ms_runs s)\<rparr>))"

definition GetRun :: "memStore \<Rightarrow> string \<Rightarrow> run option" where
  "GetRun s runID = mget (ms_runs s) runID"

text \<open>\<open>ListRuns\<close> orders by end time, else start time, newest first, runs without a time last,
  ties by id.\<close>

definition runTime :: "run \<Rightarrow> gotime" where
  "runTime r = (case run_EndedAt r of Some t \<Rightarrow> t | None \<Rightarrow> (case run_StartedAt r of Some t \<Rightarrow> t | None \<Rightarrow> 0))"

definition runOrder :: "(string, run) gomap \<Rightarrow> string \<Rightarrow> bool \<times> int \<times> string" where
  "runOrder m runID =
     (case mget m runID of None \<Rightarrow> (True, 0, runID) | Some r \<Rightarrow> (IsZero (runTime r), - runTime r, runID))"

definition ListRuns :: "memStore \<Rightarrow> string list" where
  "ListRuns s = sort_key (runOrder (ms_runs s)) (mkeys (ms_runs s))"

definition nodeKeyOf :: "nodeExecution \<Rightarrow> nodeKey" where
  "nodeKeyOf n = (ne_RunID n, ne_NodeID n, ne_Attempt n)"

definition UpsertNodeExecution :: "nodeExecution \<Rightarrow> memStore \<Rightarrow> engineError option \<times> memStore" where
  "UpsertNodeExecution n s =
     (case NodeExecution_Validate n of
        Some err \<Rightarrow> (Some err, s)
      | None \<Rightarrow>
          if mget (ms_runs s) (ne_RunID n) = None then (Some ErrRunNotFound, s)
          else (None, s\<lparr>ms_nodes := mput (nodeKeyOf n) n (ms_nodes s)\<rparr>))"

definition GetNodeExecution :: "memStore \<Rightarrow> string \<Rightarrow> string \<Rightarrow> int \<Rightarrow> nodeExecution option" where
  "GetNodeExecution s runID nodeID attempt = mget (ms_nodes s) (runID, nodeID, attempt)"

definition ListNodeExecutions :: "memStore \<Rightarrow> string \<Rightarrow> nodeExecution list" where
  "ListNodeExecutions s runID =
     sort_key (\<lambda>n. (ne_NodeID n, ne_Attempt n)) (map snd (filter (\<lambda>(k, v). fst k = runID) (ms_nodes s)))"

definition stampEvent :: "gotime \<Rightarrow> runEvent \<Rightarrow> runEvent" where
  "stampEvent now e = (if IsZero (ev_At e) then e\<lparr>ev_At := now\<rparr> else e)"

definition AppendEvent :: "gotime \<Rightarrow> runEvent \<Rightarrow> memStore \<Rightarrow> (engineError + runEvent) \<times> memStore" where
  "AppendEvent now e0 s =
     (let e = stampEvent now e0 in
      if mget (ms_runs s) (ev_RunID e) = None then (Inl ErrRunNotFound, s)
      else
        let seq0 = mdef 0 (ms_nextSeq s) (ev_RunID e);
            seq = (if seq0 < 1 then 1 else seq0);
            s1 = s\<lparr>ms_nextSeq := mput (ev_RunID e) (seq + 1) (ms_nextSeq s)\<rparr>;
            e1 = e\<lparr>ev_Seq := seq\<rparr>
        in case RunEvent_Validate e1 of
             Some err \<Rightarrow> (Inl err, s1)
           | None \<Rightarrow>
               (Inr e1, s1\<lparr>ms_events := mput (ev_RunID e) (mdef [] (ms_events s1) (ev_RunID e) @ [e1]) (ms_events s1)\<rparr>))"

definition ListEvents :: "memStore \<Rightarrow> string \<Rightarrow> runEvent list" where
  "ListEvents s runID = mdef [] (ms_events s) runID"

subsection \<open>Timers\<close>

definition digit_char :: "nat \<Rightarrow> char" where
  "digit_char d = char_of (48 + d)"

fun nat_itoa :: "nat \<Rightarrow> string" where
  "nat_itoa n = (if n < 10 then [digit_char n] else nat_itoa (n div 10) @ [digit_char (n mod 10)])"

declare nat_itoa.simps [simp del]

text \<open>\<^verbatim>\<open>fmt.Sprintf("%d", i)\<close>.\<close>

definition itoa :: "int \<Rightarrow> string" where
  "itoa i = (if i < 0 then ''-'' @ nat_itoa (nat (- i)) else nat_itoa (nat i))"

definition timerKey :: "string \<Rightarrow> string \<Rightarrow> int \<Rightarrow> string" where
  "timerKey runID nodeID attempt = runID @ ''|'' @ nodeID @ ''|'' @ itoa attempt"

definition timerKeyOf :: "timer \<Rightarrow> string" where
  "timerKeyOf t = timerKey (tm_RunID t) (tm_NodeID t) (tm_Attempt t)"

definition UpsertTimer :: "timer \<Rightarrow> memStore \<Rightarrow> engineError option \<times> memStore" where
  "UpsertTimer t s =
     (if mget (ms_runs s) (tm_RunID t) = None then (Some ErrRunNotFound, s)
      else (None, s\<lparr>ms_timers := mput (timerKeyOf t) t (ms_timers s)\<rparr>))"

definition GetTimer :: "memStore \<Rightarrow> string \<Rightarrow> string \<Rightarrow> int \<Rightarrow> timer option" where
  "GetTimer s runID nodeID attempt = mget (ms_timers s) (timerKey runID nodeID attempt)"

definition ListTimers :: "memStore \<Rightarrow> string \<Rightarrow> timer list" where
  "ListTimers s runID =
     sort_key (\<lambda>t. (tm_FireAt t, tm_NodeID t, tm_Attempt t)) (filter (\<lambda>t. tm_RunID t = runID) (map snd (ms_timers s)))"

definition timerDue :: "gotime \<Rightarrow> timer \<Rightarrow> bool" where
  "timerDue now t \<longleftrightarrow> tm_Status t = TimerScheduled \<and> \<not> now < tm_FireAt t"

definition ListDueTimers :: "memStore \<Rightarrow> gotime \<Rightarrow> timer list" where
  "ListDueTimers s now =
     sort_key (\<lambda>t. (tm_FireAt t, tm_RunID t, tm_NodeID t, tm_Attempt t)) (filter (timerDue now) (map snd (ms_timers s)))"

subsection \<open>Metadata\<close>

definition PutKV :: "string \<Rightarrow> kvText \<Rightarrow> memStore \<Rightarrow> engineError option \<times> memStore" where
  "PutKV key0 val s =
     (let key = TrimSpace key0 in
      if key = '''' then (Some (EText ''PutKV: key required''), s)
      else (None, s\<lparr>ms_kv := mput key val (ms_kv s)\<rparr>))"

definition GetKV :: "memStore \<Rightarrow> string \<Rightarrow> kvText option" where
  "GetKV s key0 = (let key = TrimSpace key0 in if key = '''' then None else mget (ms_kv s) key)"

definition memOps :: "memStore storeOps" where
  "memOps =
     \<lparr>so_CreateRun = (\<lambda>_. CreateRun), so_UpdateRun = (\<lambda>_. UpdateRun), so_GetRun = GetRun,
      so_UpsertNodeExecution = (\<lambda>_. UpsertNodeExecution), so_GetNodeExecution = GetNodeExecution,
      so_ListNodeExecutions = ListNodeExecutions, so_AppendEvent = AppendEvent, so_ListEvents = ListEvents,
      so_UpsertTimer = (\<lambda>_. UpsertTimer), so_GetTimer = GetTimer, so_ListTimers = ListTimers,
      so_ListDueTimers = ListDueTimers, so_ListRuns = ListRuns, so_PutKV = (\<lambda>_. PutKV), so_GetKV = GetKV\<rparr>"

section \<open>What a client observes\<close>

record storeView =
  sv_run :: "string \<Rightarrow> run option"
  sv_node :: "string \<Rightarrow> string \<Rightarrow> int \<Rightarrow> nodeExecution option"
  sv_events :: "string \<Rightarrow> runEvent list"
  sv_timer :: "string \<Rightarrow> string \<Rightarrow> int \<Rightarrow> timer option"
  sv_kv :: "string \<Rightarrow> kvText option"

definition view :: "'s storeOps \<Rightarrow> 's \<Rightarrow> storeView" where
  "view ops s = \<lparr>sv_run = so_GetRun ops s, sv_node = so_GetNodeExecution ops s, sv_events = so_ListEvents ops s,
     sv_timer = so_GetTimer ops s, sv_kv = so_GetKV ops s\<rparr>"

definition put_run :: "run \<Rightarrow> storeView \<Rightarrow> storeView" where
  "put_run r v = v\<lparr>sv_run := (sv_run v)(run_RunID r \<mapsto> r)\<rparr>"

definition put_node :: "nodeExecution \<Rightarrow> storeView \<Rightarrow> storeView" where
  "put_node n v = v\<lparr>sv_node := (\<lambda>r i a. if (r, i, a) = nodeKeyOf n then Some n else sv_node v r i a)\<rparr>"

definition add_event :: "runEvent \<Rightarrow> storeView \<Rightarrow> storeView" where
  "add_event e v = v\<lparr>sv_events := (sv_events v)(ev_RunID e := sv_events v (ev_RunID e) @ [e])\<rparr>"

definition put_timer :: "timer \<Rightarrow> storeView \<Rightarrow> storeView" where
  "put_timer t v = v\<lparr>sv_timer := (\<lambda>r i a. if timerKey r i a = timerKeyOf t then Some t else sv_timer v r i a)\<rparr>"

definition put_kv :: "string \<Rightarrow> kvText \<Rightarrow> storeView \<Rightarrow> storeView" where
  "put_kv key val v = v\<lparr>sv_kv := (\<lambda>k. if TrimSpace k = TrimSpace key then Some val else sv_kv v k)\<rparr>"

lemmas view_updates = put_run_def put_node_def add_event_def put_timer_def put_kv_def

text \<open>The events of a run are numbered upwards from 1, and belong to it.\<close>

definition events_ok :: "string \<Rightarrow> runEvent list \<Rightarrow> bool" where
  "events_ok r es \<longleftrightarrow> sorted_wrt (\<lambda>x y. ev_Seq x < ev_Seq y) es \<and>
     list_all (\<lambda>e. ev_RunID e = r \<and> RunEvent_Validate e = None) es"

definition view_ok :: "storeView \<Rightarrow> bool" where
  "view_ok v \<longleftrightarrow>
     (\<forall>i r. sv_run v i = Some r \<longrightarrow> run_RunID r = i \<and> Run_Validate r = None) \<and>
     (\<forall>r i a n. sv_node v r i a = Some n \<longrightarrow> nodeKeyOf n = (r, i, a) \<and> NodeExecution_Validate n = None) \<and>
     (\<forall>r. events_ok r (sv_events v r)) \<and>
     (\<forall>r i a t. sv_timer v r i a = Some t \<longrightarrow> timerKeyOf t = timerKey r i a) \<and>
     (\<forall>r i a r' i' a'. timerKey r i a = timerKey r' i' a' \<longrightarrow> sv_timer v r i a = sv_timer v r' i' a')"

section \<open>The contract\<close>

locale store_contract =
  fixes ops :: "'s storeOps" and sinv :: "'s \<Rightarrow> bool"
  assumes inv_view: "sinv s \<Longrightarrow> view_ok (view ops s)"
    and create: "sinv s \<Longrightarrow> so_CreateRun ops now r s = (err, s') \<Longrightarrow> sinv s' \<and>
      (if err = None
       then Run_Validate r = None \<and> so_GetRun ops s (run_RunID r) = None \<and> view ops s' = put_run r (view ops s)
       else view ops s' = view ops s)"
    and update: "sinv s \<Longrightarrow> so_UpdateRun ops now r s = (err, s') \<Longrightarrow> sinv s' \<and>
      (if err = None
       then Run_Validate r = None \<and> so_GetRun ops s (run_RunID r) \<noteq> None \<and> view ops s' = put_run r (view ops s)
       else view ops s' = view ops s)"
    and node: "sinv s \<Longrightarrow> so_UpsertNodeExecution ops now n s = (err, s') \<Longrightarrow> sinv s' \<and>
      (if err = None
       then NodeExecution_Validate n = None \<and> so_GetRun ops s (ne_RunID n) \<noteq> None \<and> view ops s' = put_node n (view ops s)
       else view ops s' = view ops s)"
    and event_ok: "sinv s \<Longrightarrow> so_AppendEvent ops now e s = (Inr e', s') \<Longrightarrow> sinv s' \<and>
      e' = (stampEvent now e)\<lparr>ev_Seq := ev_Seq e'\<rparr> \<and> so_GetRun ops s (ev_RunID e) \<noteq> None \<and>
      view ops s' = add_event e' (view ops s)"
    and event_err: "sinv s \<Longrightarrow> so_AppendEvent ops now e s = (Inl er, s') \<Longrightarrow> sinv s' \<and> view ops s' = view ops s"
    and timer: "sinv s \<Longrightarrow> so_UpsertTimer ops now t s = (err, s') \<Longrightarrow> sinv s' \<and>
      (if err = None
       then so_GetRun ops s (tm_RunID t) \<noteq> None \<and> view ops s' = put_timer t (view ops s)
       else view ops s' = view ops s)"
    and kv_ok: "sinv s \<Longrightarrow> so_PutKV ops now k x s = (None, s') \<Longrightarrow> sinv s' \<and> TrimSpace k \<noteq> '''' \<and>
      view ops s' = put_kv k x (view ops s)"
    and kv_err: "sinv s \<Longrightarrow> so_PutKV ops now k x s = (Some er, s') \<Longrightarrow> sinv s' \<and>
      (view ops s' = view ops s \<or> TrimSpace k \<noteq> '''' \<and> view ops s' = put_kv k x (view ops s))"
    and nodes_list: "sinv s \<Longrightarrow> distinct (so_ListNodeExecutions ops s rid) \<and>
      set (so_ListNodeExecutions ops s rid) = {n'. \<exists>i a. so_GetNodeExecution ops s rid i a = Some n'}"
    and timers_list: "sinv s \<Longrightarrow> distinct (so_ListTimers ops s rid) \<and>
      set (so_ListTimers ops s rid) = {t'. tm_RunID t' = rid \<and> (\<exists>r' i a. so_GetTimer ops s r' i a = Some t')}"
    and due_list: "sinv s \<Longrightarrow> distinct (so_ListDueTimers ops s now) \<and>
      set (so_ListDueTimers ops s now) = {t'. timerDue now t' \<and> (\<exists>r' i a. so_GetTimer ops s r' i a = Some t')}"
    and runs_list: "sinv s \<Longrightarrow> distinct (so_ListRuns ops s) \<and> set (so_ListRuns ops s) = {i. so_GetRun ops s i \<noteq> None}"
    and kv_trim: "sinv s \<Longrightarrow> so_GetKV ops s (TrimSpace k) = so_GetKV ops s k"

text \<open>A store on which a valid call never fails.  \<open>json_ok\<close> of the raw messages is what a
  durable store needs to write them.\<close>

definition run_json_ok :: "run \<Rightarrow> bool" where
  "run_json_ok r \<longleftrightarrow> json_ok (run_Spec r) \<and> json_ok (run_InitialInput r) \<and> json_ok (run_TerminalMeta r)"

definition node_json_ok :: "nodeExecution \<Rightarrow> bool" where
  "node_json_ok n \<longleftrightarrow> json_ok (ne_Input n) \<and> json_ok (ne_Output n)"

locale reliable_store = store_contract +
  fixes healthy :: "'a \<Rightarrow> bool"
  assumes create_works: "sinv s \<Longrightarrow> healthy s \<Longrightarrow> Run_Validate r = None \<Longrightarrow> run_json_ok r \<Longrightarrow>
      so_GetRun ops s (run_RunID r) = None \<Longrightarrow> \<exists>s'. so_CreateRun ops now r s = (None, s') \<and> healthy s'"
    and update_works: "sinv s \<Longrightarrow> healthy s \<Longrightarrow> Run_Validate r = None \<Longrightarrow> run_json_ok r \<Longrightarrow>
      so_GetRun ops s (run_RunID r) \<noteq> None \<Longrightarrow> \<exists>s'. so_UpdateRun ops now r s = (None, s') \<and> healthy s'"
    and node_works: "sinv s \<Longrightarrow> healthy s \<Longrightarrow> NodeExecution_Validate n = None \<Longrightarrow> node_json_ok n \<Longrightarrow>
      so_GetRun ops s (ne_RunID n) \<noteq> None \<Longrightarrow> \<exists>s'. so_UpsertNodeExecution ops now n s = (None, s') \<and> healthy s'"
    and event_works: "sinv s \<Longrightarrow> healthy s \<Longrightarrow> ev_RunID e \<noteq> '''' \<Longrightarrow> ev_Type e \<noteq> '''' \<Longrightarrow> 0 < now \<Longrightarrow> json_ok (ev_Payload e) \<Longrightarrow>
      so_GetRun ops s (ev_RunID e) \<noteq> None \<Longrightarrow> \<exists>e' s'. so_AppendEvent ops now e s = (Inr e', s') \<and> healthy s'"
    and timer_works: "sinv s \<Longrightarrow> healthy s \<Longrightarrow> tm_RunID t \<noteq> '''' \<Longrightarrow> tm_NodeID t \<noteq> '''' \<Longrightarrow> 1 \<le> tm_Attempt t \<Longrightarrow>
      so_GetRun ops s (tm_RunID t) \<noteq> None \<Longrightarrow> \<exists>s'. so_UpsertTimer ops now t s = (None, s') \<and> healthy s'"
    and kv_works: "sinv s \<Longrightarrow> healthy s \<Longrightarrow> TrimSpace k \<noteq> '''' \<Longrightarrow> kv_json_ok x \<Longrightarrow>
      \<exists>s'. so_PutKV ops now k x s = (None, s') \<and> healthy s'"


section \<open>MemoryStore keeps the contract\<close>

definition mem_inv :: "memStore \<Rightarrow> bool" where
  "mem_inv s \<longleftrightarrow> mwf (ms_runs s) \<and> mwf (ms_nodes s) \<and> mwf (ms_timers s) \<and>
     (\<forall>i r. mget (ms_runs s) i = Some r \<longrightarrow> run_RunID r = i \<and> Run_Validate r = None) \<and>
     (\<forall>k n. mget (ms_nodes s) k = Some n \<longrightarrow> nodeKeyOf n = k \<and> NodeExecution_Validate n = None) \<and>
     (\<forall>k t. mget (ms_timers s) k = Some t \<longrightarrow> timerKeyOf t = k) \<and>
     (\<forall>r. events_ok r (ListEvents s r) \<and> list_all (\<lambda>e. ev_Seq e < mdef 0 (ms_nextSeq s) r) (ListEvents s r))"

lemma memOps_simps [simp]:
  "so_CreateRun memOps now = CreateRun" "so_UpdateRun memOps now = UpdateRun" "so_GetRun memOps = GetRun"
  "so_UpsertNodeExecution memOps now = UpsertNodeExecution" "so_GetNodeExecution memOps = GetNodeExecution"
  "so_ListNodeExecutions memOps = ListNodeExecutions" "so_AppendEvent memOps = AppendEvent"
  "so_ListEvents memOps = ListEvents" "so_UpsertTimer memOps now = UpsertTimer" "so_GetTimer memOps = GetTimer"
  "so_ListTimers memOps = ListTimers" "so_ListDueTimers memOps = ListDueTimers" "so_ListRuns memOps = ListRuns"
  "so_PutKV memOps now = PutKV" "so_GetKV memOps = GetKV"
  by (simp_all add: memOps_def)

lemma GetKV_eq: "GetKV s k = (if TrimSpace k = '''' then None else mget (ms_kv s) (TrimSpace k))"
  by (simp add: GetKV_def Let_def)

lemmas mem_reads = GetRun_def GetNodeExecution_def ListEvents_def GetTimer_def GetKV_eq

lemma mem_view_ok: "mem_inv s \<Longrightarrow> view_ok (view memOps s)"
  by (auto simp: mem_inv_def view_ok_def view_def mem_reads)

lemma events_ok_Nil [simp]: "events_ok r []"
  by (simp add: events_ok_def)

lemma events_ok_snoc:
  "events_ok r (es @ [e]) \<longleftrightarrow>
     events_ok r es \<and> list_all (\<lambda>x. ev_Seq x < ev_Seq e) es \<and> ev_RunID e = r \<and> RunEvent_Validate e = None"
  by (auto simp: events_ok_def sorted_wrt_append list_all_iff)

lemma stampEvent_simps [simp]:
  "ev_RunID (stampEvent now e) = ev_RunID e" "ev_Type (stampEvent now e) = ev_Type e"
  "ev_Seq (stampEvent now e) = ev_Seq e" "ev_Payload (stampEvent now e) = ev_Payload e"
  "ev_NodeID (stampEvent now e) = ev_NodeID e" "ev_Attempt (stampEvent now e) = ev_Attempt e"
  by (simp_all add: stampEvent_def)

lemma seedSeq_low: "mdef 0 m r \<le> mdef 0 (seedSeq i m) r"
  by (auto simp: seedSeq_def mdef_def)

lemma CreateRun_mem:
  assumes "mem_inv s" "CreateRun r s = (err, s')"
  shows "mem_inv s' \<and> (if err = None
    then Run_Validate r = None \<and> GetRun s (run_RunID r) = None \<and> view memOps s' = put_run r (view memOps s)
    else view memOps s' = view memOps s)"
proof -
  have "list_all (\<lambda>e. ev_Seq e < mdef 0 (seedSeq i (ms_nextSeq s)) x) (ListEvents s x)" for i x
    using assms(1) seedSeq_low [of "ms_nextSeq s" x i] by (fastforce simp: mem_inv_def list_all_iff)
  with assms show ?thesis
    by (auto simp: CreateRun_def mem_inv_def view_def put_run_def mem_reads fun_eq_iff split: option.splits if_splits)
qed

lemma UpdateRun_mem:
  assumes "mem_inv s" "UpdateRun r s = (err, s')"
  shows "mem_inv s' \<and> (if err = None
    then Run_Validate r = None \<and> GetRun s (run_RunID r) \<noteq> None \<and> view memOps s' = put_run r (view memOps s)
    else view memOps s' = view memOps s)"
  using assms
  by (auto simp: UpdateRun_def mem_inv_def view_def put_run_def mem_reads fun_eq_iff split: option.splits if_splits)

lemma UpsertNode_mem:
  assumes "mem_inv s" "UpsertNodeExecution n s = (err, s')"
  shows "mem_inv s' \<and> (if err = None
    then NodeExecution_Validate n = None \<and> GetRun s (ne_RunID n) \<noteq> None \<and> view memOps s' = put_node n (view memOps s)
    else view memOps s' = view memOps s)"
  using assms
  by (auto simp: UpsertNodeExecution_def mem_inv_def view_def put_node_def mem_reads fun_eq_iff split: option.splits if_splits)

lemma UpsertTimer_mem:
  assumes "mem_inv s" "UpsertTimer t s = (err, s')"
  shows "mem_inv s' \<and> (if err = None
    then GetRun s (tm_RunID t) \<noteq> None \<and> view memOps s' = put_timer t (view memOps s)
    else view memOps s' = view memOps s)"
  using assms
  by (auto simp: UpsertTimer_def mem_inv_def view_def put_timer_def mem_reads fun_eq_iff split: if_splits)

lemma PutKV_mem:
  assumes "mem_inv s" "PutKV k x s = (err, s')"
  shows "mem_inv s' \<and> (if err = None then TrimSpace k \<noteq> '''' \<and> view memOps s' = put_kv k x (view memOps s)
    else view memOps s' = view memOps s)"
  using assms
  by (auto simp: PutKV_def Let_def mem_inv_def view_def put_kv_def mem_reads fun_eq_iff split: if_splits)

lemma AppendEvent_ok_mem:
  assumes "mem_inv s" "AppendEvent now e s = (Inr e', s')"
  shows "mem_inv s' \<and> e' = (stampEvent now e)\<lparr>ev_Seq := ev_Seq e'\<rparr> \<and> GetRun s (ev_RunID e) \<noteq> None \<and>
    view memOps s' = add_event e' (view memOps s)"
proof -
  let ?r = "ev_RunID e" and ?q = "max 1 (mdef 0 (ms_nextSeq s) (ev_RunID e))"
  let ?e = "(stampEvent now e)\<lparr>ev_Seq := ?q\<rparr>"
  from assms(2) have run: "GetRun s ?r \<noteq> None" and e: "e' = ?e" and valid: "RunEvent_Validate ?e = None"
    and s': "s' = s\<lparr>ms_nextSeq := mput ?r (?q + 1) (ms_nextSeq s), ms_events := mput ?r (ListEvents s ?r @ [?e]) (ms_events s)\<rparr>"
    by (auto simp: AppendEvent_def Let_def GetRun_def ListEvents_def max_def split: option.splits if_splits)
  have old: "events_ok ?r (ListEvents s ?r)" "list_all (\<lambda>x. ev_Seq x < mdef 0 (ms_nextSeq s) ?r) (ListEvents s ?r)"
    using assms(1) by (auto simp: mem_inv_def)
  then have low: "list_all (\<lambda>x. ev_Seq x < ?q) (ListEvents s ?r)" "list_all (\<lambda>x. ev_Seq x < ?q + 1) (ListEvents s ?r)"
    by (fastforce simp: list_all_iff)+
  have ev: "ListEvents s' x = (if x = ?r then ListEvents s ?r @ [?e] else ListEvents s x)" for x
    by (simp add: s' ListEvents_def)
  have seq: "mdef 0 (ms_nextSeq s') x = (if x = ?r then ?q + 1 else mdef 0 (ms_nextSeq s) x)" for x
    by (simp add: s')
  have "events_ok x (ListEvents s' x) \<and> list_all (\<lambda>y. ev_Seq y < mdef 0 (ms_nextSeq s') x) (ListEvents s' x)" for x
    unfolding ev seq using assms(1) old low valid by (auto simp: events_ok_snoc mem_inv_def)
  moreover have "ms_runs s' = ms_runs s" "ms_nodes s' = ms_nodes s" "ms_timers s' = ms_timers s"
    by (simp_all add: s')
  ultimately have "mem_inv s'" using assms(1) unfolding mem_inv_def by metis
  moreover have "view memOps s' = add_event e' (view memOps s)"
    using ev by (auto simp: view_def add_event_def fun_eq_iff e mem_reads s')
  ultimately show ?thesis using e run by simp
qed

lemma AppendEvent_err_mem:
  assumes "mem_inv s" "AppendEvent now e s = (Inl err, s')"
  shows "mem_inv s' \<and> view memOps s' = view memOps s"
proof -
  have s': "s' = s \<or> s' = s\<lparr>ms_nextSeq := mput (ev_RunID e) (max 1 (mdef 0 (ms_nextSeq s) (ev_RunID e)) + 1) (ms_nextSeq s)\<rparr>"
    using assms(2) by (auto simp: AppendEvent_def Let_def max_def split: option.splits if_splits)
  have low: "list_all (\<lambda>x. ev_Seq x < max 1 (mdef 0 (ms_nextSeq s) r) + 1) (mdef [] (ms_events s) r)" for r
    using assms(1) by (fastforce simp: mem_inv_def list_all_iff mem_reads)
  from s' assms(1) low have "mem_inv s'" by (auto simp: mem_inv_def mem_reads simp del: max_less_iff_conj)
  moreover from s' have "view memOps s' = view memOps s" by (auto simp: view_def mem_reads fun_eq_iff)
  ultimately show ?thesis by simp
qed


lemma distinct_values:
  assumes "mwf m" "\<And>k v. mget m k = Some v \<Longrightarrow> f v = k"
  shows "distinct (map snd (filter P m))" "v \<in> set (map snd (filter P m)) \<longleftrightarrow> mget m (f v) = Some v \<and> P (f v, v)"
proof -
  have mem: "(k, v) \<in> set m \<longleftrightarrow> mget m k = Some v" for k v
    using assms(1) by (simp add: mwf_def)
  have "inj_on snd (set (filter P m))"
    using assms(2) by (auto simp: inj_on_def mem)
  moreover have "distinct (filter P m)"
    using assms(1) by (simp add: mwf_def distinct_map)
  ultimately show "distinct (map snd (filter P m))" by (simp add: distinct_map)
  show "v \<in> set (map snd (filter P m)) \<longleftrightarrow> mget m (f v) = Some v \<and> P (f v, v)"
    using assms(2) by (auto simp: image_iff mem)
qed

lemma ListNodeExecutions_mem:
  assumes "mem_inv s"
  shows "distinct (ListNodeExecutions s r)"
    "set (ListNodeExecutions s r) = {n. \<exists>i a. GetNodeExecution s r i a = Some n}"
proof -
  note d = distinct_values [where m = "ms_nodes s" and f = nodeKeyOf and P = "\<lambda>(k, v). fst k = r"]
  have "mwf (ms_nodes s)" and key: "\<And>k v. mget (ms_nodes s) k = Some v \<Longrightarrow> nodeKeyOf v = k"
    using assms by (auto simp: mem_inv_def)
  with d show "distinct (ListNodeExecutions s r)" by (simp add: ListNodeExecutions_def)
  have "n \<in> set (ListNodeExecutions s r) \<longleftrightarrow> mget (ms_nodes s) (nodeKeyOf n) = Some n \<and> ne_RunID n = r" for n
    using d(2) [OF \<open>mwf (ms_nodes s)\<close> key] by (simp add: ListNodeExecutions_def nodeKeyOf_def)
  moreover have "ne_RunID n = r \<and> mget (ms_nodes s) (nodeKeyOf n) = Some n" if "mget (ms_nodes s) (r, i, a) = Some n" for n i a
    using key [OF that] that by (simp add: nodeKeyOf_def)
  ultimately have "n \<in> set (ListNodeExecutions s r) \<longleftrightarrow> (\<exists>i a. mget (ms_nodes s) (r, i, a) = Some n)" for n
    by (metis nodeKeyOf_def)
  then show "set (ListNodeExecutions s r) = {n. \<exists>i a. GetNodeExecution s r i a = Some n}"
    by (simp add: GetNodeExecution_def set_eq_iff)
qed

lemma timers_mem:
  assumes "mem_inv s"
  shows "distinct (filter P (map snd (ms_timers s)))"
    "set (filter P (map snd (ms_timers s))) = {t. P t \<and> (\<exists>r i a. GetTimer s r i a = Some t)}"
proof -
  note d = distinct_values [where m = "ms_timers s" and f = timerKeyOf and P = "\<lambda>(k, v). P v"]
  have "mwf (ms_timers s)" and key: "\<And>k v. mget (ms_timers s) k = Some v \<Longrightarrow> timerKeyOf v = k"
    using assms by (auto simp: mem_inv_def)
  have eq: "filter P (map snd (ms_timers s)) = map snd (filter (\<lambda>(k, v). P v) (ms_timers s))"
    by (induction "ms_timers s") (auto simp: filter_map comp_def case_prod_unfold)
  with d \<open>mwf (ms_timers s)\<close> key show "distinct (filter P (map snd (ms_timers s)))" by simp
  have "t \<in> set (filter P (map snd (ms_timers s))) \<longleftrightarrow> mget (ms_timers s) (timerKeyOf t) = Some t \<and> P t" for t
    unfolding eq using d(2) [OF \<open>mwf (ms_timers s)\<close> key] by simp
  then show "set (filter P (map snd (ms_timers s))) = {t. P t \<and> (\<exists>r i a. GetTimer s r i a = Some t)}"
    by (auto simp: GetTimer_def timerKeyOf_def) (metis key timerKeyOf_def)
qed

lemma ListRuns_mem:
  assumes "mem_inv s"
  shows "distinct (ListRuns s)" "set (ListRuns s) = {i. GetRun s i \<noteq> None}"
  using assms by (auto simp: ListRuns_def GetRun_def set_mkeys dom_def mem_inv_def mwf_def mkeys_def dom_map_of_conv_image_fst [symmetric])

interpretation mem: reliable_store memOps mem_inv "\<lambda>_. True"
proof (unfold_locales, goal_cases)
  case 1
  then show ?case by (rule mem_view_ok)
next
  case (2 s now r err s')
  then show ?case using CreateRun_mem by simp
next
  case (3 s now r err s')
  then show ?case using UpdateRun_mem by simp
next
  case (4 s now n err s')
  then show ?case using UpsertNode_mem by simp
next
  case (5 s now e e' s')
  then show ?case using AppendEvent_ok_mem by simp
next
  case (6 s now e er s')
  then show ?case using AppendEvent_err_mem by simp
next
  case (7 s now t err s')
  then show ?case using UpsertTimer_mem by simp
next
  case (8 s now k x s')
  then show ?case using PutKV_mem [of s k x None s'] by simp
next
  case (9 s now k x er s')
  then show ?case using PutKV_mem [of s k x "Some er" s'] by simp
next
  case (10 s rid)
  then show ?case using ListNodeExecutions_mem by simp
next
  case (11 s rid)
  then show ?case using timers_mem [of s "\<lambda>t. tm_RunID t = rid"] by (simp add: ListTimers_def)
next
  case (12 s now)
  then show ?case using timers_mem [of s "timerDue now"] by (simp add: ListDueTimers_def)
next
  case (13 s)
  then show ?case using ListRuns_mem by simp
next
  case (14 s k)
  then show ?case by (simp add: GetKV_eq)
qed (auto simp: CreateRun_def UpdateRun_def UpsertNodeExecution_def AppendEvent_def UpsertTimer_def PutKV_def GetRun_def Let_def
    RunEvent_Validate_def stampEvent_def IsZero_def split: option.splits)


section \<open>Sequences of calls\<close>

datatype storeCall =
    CallCreateRun gotime run
  | CallUpdateRun gotime run
  | CallUpsertNode gotime nodeExecution
  | CallAppendEvent gotime runEvent
  | CallUpsertTimer gotime timer
  | CallPutKV gotime string kvText

fun store_step :: "'s storeOps \<Rightarrow> 's \<Rightarrow> storeCall \<Rightarrow> 's" where
  "store_step ops s (CallCreateRun now r) = snd (so_CreateRun ops now r s)"
| "store_step ops s (CallUpdateRun now r) = snd (so_UpdateRun ops now r s)"
| "store_step ops s (CallUpsertNode now n) = snd (so_UpsertNodeExecution ops now n s)"
| "store_step ops s (CallAppendEvent now e) = snd (so_AppendEvent ops now e s)"
| "store_step ops s (CallUpsertTimer now t) = snd (so_UpsertTimer ops now t s)"
| "store_step ops s (CallPutKV now k x) = snd (so_PutKV ops now k x s)"

text \<open>A later state holds everything an earlier one did: runs, node attempts and timers stay
  known, and the events of a run are only extended.\<close>

definition extends :: "storeView \<Rightarrow> storeView \<Rightarrow> bool" where
  "extends v w \<longleftrightarrow> (\<forall>i. sv_run v i \<noteq> None \<longrightarrow> sv_run w i \<noteq> None) \<and>
     (\<forall>r i a. sv_node v r i a \<noteq> None \<longrightarrow> sv_node w r i a \<noteq> None) \<and>
     (\<forall>r i a. sv_timer v r i a \<noteq> None \<longrightarrow> sv_timer w r i a \<noteq> None) \<and>
     (\<forall>r. \<exists>es. sv_events w r = sv_events v r @ es)"

lemma extends_refl [simp]: "extends v v"
  by (auto simp: extends_def)

lemma extends_trans: "extends u v \<Longrightarrow> extends v w \<Longrightarrow> extends u w"
  unfolding extends_def by (metis append_assoc)

lemma extends_updates [simp]:
  "extends v (put_run r v)" "extends v (put_node n v)" "extends v (add_event e v)" "extends v (put_timer t v)"
  "extends v (put_kv k x v)"
  by (auto simp: extends_def view_updates)

context store_contract
begin

lemma step_extends:
  assumes "sinv s"
  shows "sinv (store_step ops s c) \<and> extends (view ops s) (view ops (store_step ops s c))"
proof (cases c)
  case (CallAppendEvent now e)
  show ?thesis
  proof (cases "so_AppendEvent ops now e s")
    case (Pair res s')
    then show ?thesis using CallAppendEvent event_ok [OF assms] event_err [OF assms] by (cases res) auto
  qed
next
  case (CallPutKV now k x)
  show ?thesis
  proof (cases "so_PutKV ops now k x s")
    case (Pair res s')
    then show ?thesis using CallPutKV kv_ok [OF assms] kv_err [OF assms] by (cases res) fastforce+
  qed
next
  case (CallCreateRun now r)
  then show ?thesis using create [OF assms prod.collapse [symmetric], of now r] by (auto split: if_splits)
next
  case (CallUpdateRun now r)
  then show ?thesis using update [OF assms prod.collapse [symmetric], of now r] by (auto split: if_splits)
next
  case (CallUpsertNode now n)
  then show ?thesis using node [OF assms prod.collapse [symmetric], of now n] by (auto split: if_splits)
next
  case (CallUpsertTimer now t)
  then show ?thesis using timer [OF assms prod.collapse [symmetric], of now t] by (auto split: if_splits)
qed

end

sublocale store_contract \<subseteq> calls: transition_system "store_step ops" "\<lambda>_. True"
  "\<lambda>s t. sinv s \<longrightarrow> sinv t \<and> extends (view ops s) (view ops t)"
  by unfold_locales (use step_extends in \<open>auto intro: extends_trans\<close>)


text \<open>What the caller sees of a sequence of calls.\<close>

datatype storeAnswer = AErr "engineError option" | AEvent "engineError + runEvent"

fun store_answer :: "'s storeOps \<Rightarrow> 's \<Rightarrow> storeCall \<Rightarrow> storeAnswer" where
  "store_answer ops s (CallCreateRun now r) = AErr (fst (so_CreateRun ops now r s))"
| "store_answer ops s (CallUpdateRun now r) = AErr (fst (so_UpdateRun ops now r s))"
| "store_answer ops s (CallUpsertNode now n) = AErr (fst (so_UpsertNodeExecution ops now n s))"
| "store_answer ops s (CallAppendEvent now e) = AEvent (fst (so_AppendEvent ops now e s))"
| "store_answer ops s (CallUpsertTimer now t) = AErr (fst (so_UpsertTimer ops now t s))"
| "store_answer ops s (CallPutKV now k x) = AErr (fst (so_PutKV ops now k x s))"

fun store_answers :: "'s storeOps \<Rightarrow> 's \<Rightarrow> storeCall list \<Rightarrow> storeAnswer list" where
  "store_answers ops s [] = []"
| "store_answers ops s (c # cs) = store_answer ops s c # store_answers ops (store_step ops s c) cs"


section \<open>Timer keys\<close>

lemma split_at_bar: "CHR ''|'' \<notin> set a \<Longrightarrow> CHR ''|'' \<notin> set b \<Longrightarrow> a @ CHR ''|'' # x = b @ CHR ''|'' # y \<longleftrightarrow> a = b \<and> x = y"
  by (induction a arbitrary: b; case_tac b) auto

lemma digit_char_inj: "a < 10 \<Longrightarrow> b < 10 \<Longrightarrow> digit_char a = digit_char b \<longleftrightarrow> a = b"
  by (auto simp: digit_char_def char_of_eq_iff take_bit_eq_mod)

lemma nat_itoa_ne [simp]: "nat_itoa k \<noteq> []" "[] \<noteq> nat_itoa k"
  by (subst nat_itoa.simps, simp)+

lemma nat_itoa_inj: "nat_itoa m = nat_itoa n \<Longrightarrow> m = n"
proof (induction m arbitrary: n rule: nat_itoa.induct)
  case (1 m)
  show ?case
  proof (cases "m < 10 \<or> n < 10")
    case True
    with 1(2) show ?thesis
      by (auto simp: nat_itoa.simps [of m] nat_itoa.simps [of n] digit_char_inj split: if_splits)
  next
    case False
    with 1(2) have "nat_itoa (m div 10) = nat_itoa (n div 10)" "m mod 10 = n mod 10"
      by (auto simp: nat_itoa.simps [of m] nat_itoa.simps [of n] digit_char_inj)
    with 1(1) False show ?thesis by (metis div_mult_mod_eq)
  qed
qed

lemma nat_itoa_hd: "hd (nat_itoa n) \<noteq> CHR ''-''"
proof (induction n rule: nat_itoa.induct)
  case (1 n)
  have "digit_char d \<noteq> CHR ''-''" if "d < 10" for d
    using that by (auto simp: digit_char_def char_of_eq_iff take_bit_eq_mod)
  with 1 show ?case by (auto simp: nat_itoa.simps [of n])
qed

lemma itoa_inj: "itoa i = itoa j \<longleftrightarrow> i = j"
proof
  assume "itoa i = itoa j"
  moreover have "CHR ''-'' # x \<noteq> nat_itoa n" for x n using nat_itoa_hd [of n] by (metis list.sel(1))
  ultimately show "i = j" by (auto simp: itoa_def dest!: nat_itoa_inj split: if_splits) metis+
qed simp

text \<open>Timer keys: the key joins run, step and attempt with bars, so identifiers without a bar give
  every timer a key of its own; but step \<^verbatim>\<open>b|c\<close> of run \<open>a\<close> and step \<open>c\<close> of run \<^verbatim>\<open>a|b\<close> share one, and
  storing a timer for one replaces the other's.\<close>

theorem timer_keys:
  "(\<forall>r i a r' i' a'. CHR ''|'' \<notin> set r \<union> set i \<union> set r' \<union> set i' \<longrightarrow>
      timerKey r i a = timerKey r' i' a' \<longleftrightarrow> (r, i, a) = (r', i', a')) \<and>
   timerKey ''a'' ''b|c'' 1 = timerKey ''a|b'' ''c'' 1"
proof (intro conjI allI impI)
  fix r i a r' i' a' assume "CHR ''|'' \<notin> set r \<union> set i \<union> set r' \<union> set i'"
  then show "timerKey r i a = timerKey r' i' a' \<longleftrightarrow> (r, i, a) = (r', i', a')"
    by (simp add: timerKey_def split_at_bar itoa_inj)
qed (simp add: timerKey_def)

theorem timer_keys_witness:
  "timerKey ''run-1'' ''fetch'' 2 \<noteq> timerKey ''run-1'' ''fetch'' 12 \<and> timerKey ''a'' ''b|c'' 1 = timerKey ''a|b'' ''c'' 1"
proof -
  have "timerKey ''run-1'' ''fetch'' 2 = timerKey ''run-1'' ''fetch'' 12 \<longleftrightarrow> (''run-1'', ''fetch'', 2 :: int) = (''run-1'', ''fetch'', 12)"
    using timer_keys by (elim conjE allE [of _ "''run-1''"] allE [of _ "''fetch''"] allE [of _ "2 :: int"] allE [of _ "12 :: int"]) simp
  with timer_keys show ?thesis by simp
qed

end
