(* ===== verification/Patterns.thy ===== *)
theory Patterns
  imports Prelude
begin

text \<open>
  Wildcard patterns and normalised string lists of the authorization layer
  (\<^verbatim>\<open>internal/engine/authz.go\<close>: \<open>matchPattern\<close>, \<open>matchesAnyPattern\<close>, \<open>matchesAnyMember\<close>,
  \<open>normalizeStrings\<close>), with what they use of Go's \<open>strings\<close> package.

  \<open>matchPattern\<close> splits the pattern at its stars, checks the first and the last piece as prefix
  and suffix, and looks for the pieces from left to right, always taking the leftmost
  occurrence.  \<open>glob\<close> is the textbook meaning of a pattern, in which a star stands for any
  string; \<open>match_pattern_glob\<close> shows that the greedy search decides exactly it.
\<close>

section \<open>strings.Split, Index, HasSuffix, Contains\<close>

fun split_on :: "char \<Rightarrow> string \<Rightarrow> string list" where
  "split_on c [] = [[]]"
| "split_on c (x # xs) =
     (if x = c then [] # split_on c xs
      else case split_on c xs of [] \<Rightarrow> [[x]] | p # ps \<Rightarrow> (x # p) # ps)"

fun strings_Index :: "string \<Rightarrow> string \<Rightarrow> nat option" where
  "strings_Index s sub =
     (if HasPrefix s sub then Some 0
      else case s of [] \<Rightarrow> None | _ # t \<Rightarrow> map_option Suc (strings_Index t sub))"

declare strings_Index.simps [simp del]

definition HasSuffix :: "string \<Rightarrow> string \<Rightarrow> bool" where
  "HasSuffix s p \<longleftrightarrow> length p \<le> length s \<and> drop (length s - length p) s = p"

definition strings_Contains :: "string \<Rightarrow> string \<Rightarrow> bool" where
  "strings_Contains s sub \<longleftrightarrow> strings_Index s sub \<noteq> None"

section \<open>Pattern matching\<close>

text \<open>The loop over the pieces; \<open>rest\<close> is \<^verbatim>\<open>value[pos:]\<close>.\<close>

fun matchLoop :: "nat \<Rightarrow> string list \<Rightarrow> string \<Rightarrow> bool" where
  "matchLoop i [] rest = True"
| "matchLoop i (p # ps) rest =
     (if p = '''' then matchLoop (i + 1) ps rest
      else case strings_Index rest p of
             None \<Rightarrow> False
           | Some idx \<Rightarrow>
               if i = 0 \<and> idx \<noteq> 0 then False
               else matchLoop (i + 1) ps (drop (idx + length p) rest))"

definition matchPattern :: "string \<Rightarrow> string \<Rightarrow> bool" where
  "matchPattern value0 pattern0 =
     (let value = TrimSpace value0; pattern = TrimSpace pattern0 in
      if pattern = '''' then False
      else if pattern = ''*'' then True
      else if \<not> strings_Contains pattern ''*'' then value = pattern
      else
        let parts = split_on (CHR ''*'') pattern in
        if length parts = 1 then value = pattern
        else if hd parts \<noteq> '''' \<and> \<not> HasPrefix value (hd parts) then False
        else if last parts \<noteq> '''' \<and> \<not> HasSuffix value (last parts) then False
        else matchLoop 0 parts value)"

definition matchesAnyPattern :: "string \<Rightarrow> string list \<Rightarrow> bool" where
  "matchesAnyPattern value patterns \<longleftrightarrow>
     patterns = [] \<or> list_ex (\<lambda>pattern. matchPattern (TrimSpace value) pattern) patterns"

definition matchesAnyMember :: "string list \<Rightarrow> string list \<Rightarrow> bool" where
  "matchesAnyMember values patterns \<longleftrightarrow> list_ex (\<lambda>value. matchesAnyPattern value patterns) values"

text \<open>\<open>normalizeStrings\<close>: trimmed, without blanks and duplicates, sorted.  \<open>normalizePolicyActions\<close> and
  the loop of \<open>indexIDs\<close> are the same code.\<close>

fun keepNew :: "string list \<Rightarrow> string list \<Rightarrow> string list" where
  "keepNew seen [] = []"
| "keepNew seen (v # vs) =
     (let v1 = TrimSpace v in
      if v1 = '''' \<or> v1 \<in> set seen then keepNew seen vs else v1 # keepNew (v1 # seen) vs)"

definition normalizeStrings :: "string list \<Rightarrow> string list" where
  "normalizeStrings values = sort (keepNew [] values)"

section \<open>The meaning of a pattern\<close>

fun glob :: "string \<Rightarrow> string \<Rightarrow> bool" where
  "glob [] v \<longleftrightarrow> v = []"
| "glob (c # p) v \<longleftrightarrow>
     (if c = CHR ''*'' then glob p v \<or> (case v of [] \<Rightarrow> False | _ # xs \<Rightarrow> glob (c # p) xs)
      else case v of [] \<Rightarrow> False | x # xs \<Rightarrow> x = c \<and> glob p xs)"

lemma glob_star: "glob (CHR ''*'' # p) v \<longleftrightarrow> (\<exists>x y. v = x @ y \<and> glob p y)"
proof (induction v)
  case (Cons a v)
  show ?case
  proof
    assume "glob (CHR ''*'' # p) (a # v)"
    with Cons show "\<exists>x y. a # v = x @ y \<and> glob p y" by (simp del: glob.simps(2) add: glob.simps(2) [of _ _ "a # v"]) (metis append_Cons append_Nil)
  next
    assume "\<exists>x y. a # v = x @ y \<and> glob p y"
    with Cons show "glob (CHR ''*'' # p) (a # v)" by (auto simp: Cons_eq_append_conv simp del: glob.simps(2) simp add: glob.simps(2) [of _ _ "a # v"])
  qed
qed simp

lemma glob_literal: "CHR ''*'' \<notin> set p \<Longrightarrow> glob (p @ q) v \<longleftrightarrow> (\<exists>y. v = p @ y \<and> glob q y)"
proof (induction p arbitrary: v)
  case (Cons c p)
  then show ?case by (cases v) auto
qed simp

text \<open>The pieces after the first: each is preceded by a star.\<close>

fun pieces :: "string list \<Rightarrow> string \<Rightarrow> bool" where
  "pieces [] v \<longleftrightarrow> v = []"
| "pieces (p # ps) v \<longleftrightarrow> (\<exists>x y. v = x @ p @ y \<and> pieces ps y)"

definition starred :: "string list \<Rightarrow> string" where
  "starred ps = concat (map (\<lambda>p. CHR ''*'' # p) ps)"

lemma glob_starred: "list_all (\<lambda>p. CHR ''*'' \<notin> set p) ps \<Longrightarrow> glob (starred ps) v \<longleftrightarrow> pieces ps v"
proof (induction ps arbitrary: v)
  case (Cons p ps)
  then have "glob (starred (p # ps)) v \<longleftrightarrow> (\<exists>x y. v = x @ y \<and> (\<exists>z. y = p @ z \<and> glob (starred ps) z))"
    by (simp add: starred_def glob_star glob_literal del: glob.simps)
  with Cons show ?case by auto
qed (simp add: starred_def)

lemma split_on_parts:
  "\<exists>p ps. split_on c s = p # ps \<and> s = p @ concat (map (\<lambda>q. c # q) ps) \<and> list_all (\<lambda>q. c \<notin> set q) (p # ps)"
proof (induction s)
  case (Cons x s)
  then obtain p ps where "split_on c s = p # ps" "s = p @ concat (map (\<lambda>q. c # q) ps)" "list_all (\<lambda>q. c \<notin> set q) (p # ps)" by blast
  then show ?case by (cases "x = c") auto
qed simp

section \<open>The greedy search\<close>

lemma HasPrefix_iff: "HasPrefix s p \<longleftrightarrow> (\<exists>y. s = p @ y)"
  unfolding HasPrefix_def by (metis append_eq_conv_conj append_take_drop_id)

lemma HasSuffix_iff: "HasSuffix s p \<longleftrightarrow> (\<exists>x. s = x @ p)"
  unfolding HasSuffix_def by (metis append_eq_conv_conj append_take_drop_id diff_le_self le_add2 length_append length_drop diff_diff_cancel add_diff_cancel_right')

lemma Index_Some:
  "strings_Index s sub = Some k \<Longrightarrow> \<exists>x. length x = k \<and> s = x @ sub @ drop (k + length sub) s"
proof (induction s arbitrary: k)
  case Nil
  then show ?case by (auto simp: strings_Index.simps HasPrefix_def split: if_splits)
next
  case (Cons a s)
  show ?case
  proof (cases "HasPrefix (a # s) sub")
    case True
    with Cons.prems show ?thesis by (auto simp: strings_Index.simps HasPrefix_iff)
  next
    case False
    with Cons.prems obtain j where "strings_Index s sub = Some j" "k = Suc j" by (auto simp: strings_Index.simps [of "a # s"])
    with Cons.IH [of j] obtain x where "length x = j" "s = x @ sub @ drop (j + length sub) s" by blast
    with \<open>k = Suc j\<close> show ?thesis by (intro exI [of _ "a # x"]) simp
  qed
qed

lemma Index_leftmost:
  "\<exists>k \<le> length x. strings_Index (x @ sub @ y) sub = Some k"
proof (induction x)
  case Nil
  then show ?case by (simp add: strings_Index.simps HasPrefix_iff)
next
  case (Cons a x)
  then show ?case by (auto simp: strings_Index.simps [of "a # _"])
qed

lemma pieces_more: "ps \<noteq> [] \<Longrightarrow> pieces ps v \<Longrightarrow> pieces ps (x @ v)"
  by (cases ps) (auto, metis append.assoc)

lemma loop_room: "ps \<noteq> [] \<Longrightarrow> matchLoop i ps v \<Longrightarrow> length (last ps) \<le> length v"
proof (induction i ps v rule: matchLoop.induct)
  case (2 i p ps rest)
  show ?case
  proof (cases "p = ''''")
    case True
    with 2 show ?thesis by (cases "ps = []") auto
  next
    case False
    with 2 obtain k where k: "strings_Index rest p = Some k" "matchLoop (i + 1) ps (drop (k + length p) rest)" "\<not> (i = 0 \<and> k \<noteq> 0)"
      by (auto split: option.splits if_splits)
    have "length p \<le> length rest" using Index_Some [OF k(1)] by (metis le_add1 le_add2 le_trans length_append)
    with 2(2) [OF False k(1,3)] k(2) show ?thesis by (cases "ps = []") auto
  qed
qed simp

lemma HasSuffix_drop:
  assumes "HasSuffix v p" "length p \<le> length v - k"
  shows "HasSuffix (drop k v) p"
proof (cases "p = ''''")
  case False
  obtain x where "v = x @ p" using assms(1) by (auto simp: HasSuffix_iff)
  moreover have "k \<le> length x" using assms(2) False calculation by (cases p) auto
  ultimately show ?thesis by (simp add: HasSuffix_iff)
qed (simp add: HasSuffix_iff)

lemma loop_pieces:
  assumes "ps \<noteq> []" "0 < i"
  shows "pieces ps v \<longleftrightarrow> matchLoop i ps v \<and> HasSuffix v (last ps)"
  using assms
proof (induction ps arbitrary: i v)
  case (Cons p ps)
  show ?case
  proof (cases "ps = []")
    case True
    have "matchLoop i [p] v" if "v = x @ p" for x
      using Index_leftmost [of x p "[]"] that Cons.prems by auto
    with True show ?thesis by (auto simp: HasSuffix_iff simp del: matchLoop.simps)
  next
    case False
    have step: "matchLoop i (p # ps) v \<longleftrightarrow> (\<exists>k. strings_Index v p = Some k \<and> matchLoop (i + 1) ps (drop (k + length p) v))"
      using Cons.prems by (cases "p = ''''") (auto simp: strings_Index.simps [of v "[]"] HasPrefix_def split: option.splits)
    show ?thesis
    proof
      assume "pieces (p # ps) v"
      then obtain x y where v: "v = x @ p @ y" and y: "pieces ps y" by auto
      obtain k where k: "k \<le> length x" "strings_Index v p = Some k" using Index_leftmost [of x p y] v by auto
      have z: "drop (k + length p) v = drop (k + length p) (x @ p) @ y" using k(1) by (simp add: v)
      have d: "pieces ps (drop (k + length p) v)" unfolding z by (rule pieces_more [OF False y])
      with Cons.IH [OF False, of "i + 1" "drop (k + length p) v"]
      have l: "matchLoop (i + 1) ps (drop (k + length p) v)" "HasSuffix (drop (k + length p) v) (last ps)" by auto
      from l(2) have "HasSuffix v (last ps)" unfolding HasSuffix_iff by (metis append.assoc append_take_drop_id)
      with l(1) k(2) step False show "matchLoop i (p # ps) v \<and> HasSuffix v (last (p # ps))" by auto
    next
      assume a: "matchLoop i (p # ps) v \<and> HasSuffix v (last (p # ps))"
      then obtain k where k: "strings_Index v p = Some k" "matchLoop (i + 1) ps (drop (k + length p) v)" using step by blast
      have "HasSuffix (drop (k + length p) v) (last ps)"
        using a False loop_room [OF False k(2)] by (intro HasSuffix_drop) auto
      with k Cons.IH [OF False, of "i + 1"] have "pieces ps (drop (k + length p) v)" by simp
      with Index_Some [OF k(1)] show "pieces (p # ps) v" by auto
    qed
  qed
qed simp

lemma contains_star: "strings_Contains s ''*'' \<longleftrightarrow> CHR ''*'' \<in> set s"
proof (induction s)
  case Nil
  show ?case by (simp add: strings_Contains_def strings_Index.simps HasPrefix_def)
next
  case (Cons a s)
  then show ?case by (auto simp: strings_Contains_def strings_Index.simps [of "a # s"] HasPrefix_def)
qed

text \<open>\<open>matchPattern\<close> decides wildcard matching: for a pattern that is not blank it answers exactly
  whether the trimmed value matches the trimmed pattern when every star stands for any
  string, although it only ever tries the leftmost occurrence of each piece; a blank pattern
  matches nothing.\<close>

theorem match_pattern_glob:
  "matchPattern value pattern \<longleftrightarrow> TrimSpace pattern \<noteq> '''' \<and> glob (TrimSpace pattern) (TrimSpace value)"
proof -
  let ?v = "TrimSpace value" and ?p = "TrimSpace pattern"
  obtain p ps where s: "split_on (CHR ''*'') ?p = p # ps" and eq: "?p = p @ starred ps"
    and free: "CHR ''*'' \<notin> set p" "list_all (\<lambda>q. CHR ''*'' \<notin> set q) ps"
    using split_on_parts [of "CHR ''*''" ?p] by (auto simp: starred_def)
  have g: "glob ?p ?v \<longleftrightarrow> (\<exists>y. ?v = p @ y \<and> pieces ps y)"
    unfolding eq glob_literal [OF free(1)] glob_starred [OF free(2)] ..
  have has: "strings_Contains ?p ''*'' \<longleftrightarrow> ps \<noteq> []"
    using contains_star [of ?p] free unfolding eq by (auto simp: starred_def)
  show ?thesis
  proof (cases "ps = []")
    case True
    then have "?v = ?p \<longleftrightarrow> glob ?p ?v" using g eq by (auto simp: starred_def)
    moreover have "?p \<noteq> ''*''" using True free eq by (auto simp: starred_def)
    ultimately show ?thesis using True has by (auto simp: matchPattern_def Let_def s)
  next
    case False
    have tail: "matchLoop 0 (p # ps) (p @ y) \<longleftrightarrow> matchLoop 1 ps y" for y
      by (cases "p = ''''") (simp_all add: strings_Index.simps [of "p @ y"])
    have suf: "HasSuffix (p @ y) (last ps) \<and> matchLoop 1 ps y \<longleftrightarrow> pieces ps y" for y
      using loop_pieces [OF False, of 1 y] loop_room [OF False, of 1 y] HasSuffix_drop [of "p @ y" "last ps" "length p"]
      by (auto simp: HasSuffix_iff)
    have all: "glob ''*'' ?v" by (simp add: glob_star del: glob.simps(2)) 
    have "HasPrefix ?v p \<and> HasSuffix ?v (last ps) \<and> matchLoop 0 (p # ps) ?v \<longleftrightarrow> glob ?p ?v"
      unfolding g HasPrefix_iff using tail suf by metis
    moreover have "HasPrefix ?v []" "HasSuffix ?v []" by (simp_all add: HasPrefix_iff HasSuffix_iff)
    ultimately have "(p = '''' \<or> HasPrefix ?v p) \<and> (last ps = '''' \<or> HasSuffix ?v (last ps)) \<and> matchLoop 0 (p # ps) ?v \<longleftrightarrow> glob ?p ?v"
      by (cases "p = ''''"; cases "last ps = ''''") simp_all
    with False has all show ?thesis by (auto simp: matchPattern_def Let_def s simp del: matchLoop.simps glob.simps)
  qed
qed

section \<open>Normalised lists\<close>

lemma set_keepNew: "set (keepNew seen vs) = TrimSpace ` set vs - {''''} - set seen"
  by (induction vs arbitrary: seen) (auto simp: Let_def)

lemma distinct_keepNew: "distinct (keepNew seen vs)"
  by (induction vs arbitrary: seen) (auto simp: Let_def set_keepNew)

lemma normalizeStrings_simps [simp]:
  "set (normalizeStrings vs) = TrimSpace ` set vs - {''''}" "sorted (normalizeStrings vs)" "distinct (normalizeStrings vs)"
  by (simp_all add: normalizeStrings_def set_keepNew distinct_keepNew)

lemma normalizeStrings_idem [simp]: "normalizeStrings (normalizeStrings vs) = normalizeStrings vs"
proof -
  have "TrimSpace ` (TrimSpace ` A - {''''}) - {''''} = TrimSpace ` A - {''''}" for A by (auto simp: image_iff intro!: bexI [of _ "TrimSpace _"])
  then have "set (normalizeStrings (normalizeStrings vs)) = set (normalizeStrings vs)" by simp
  then show ?thesis by (intro sorted_distinct_set_unique) simp_all
qed

end
