(* ===== verification/EngineKV.thy ===== *)
theory EngineKV
  imports EngineStore Patterns
begin

text \<open>
  Documents and indexes in the key-value part of the store (\<^verbatim>\<open>internal/engine/evals.go\<close>:
  \<open>putJSONKV\<close>, \<open>getJSONKV\<close>, \<open>indexIDs\<close>), the identifiers made from the clock and random bytes
  (\<^verbatim>\<open>trace.go\<close>: \<open>NewTraceID\<close>), and the context of a call.

  \<^item> A document of another kind than the one asked for does not decode; this happens only where
    two kinds share a key.
  \<^item> \<open>NewTraceID\<close> reads random bytes.  The random text of the next identifier is given by a
    function of the store at the moment it is drawn (\<open>sx_newID\<close>), about which nothing is assumed
    unless a theorem says so.
  \<^item> \<open>callCtx\<close> holds what the services read from a \<open>context.Context\<close>: the tenant and the principal.
  \<^item> The clock is read once per call of a service.
\<close>

record callCtx =
  cx_Tenant :: string
  cx_Principal :: "principal option"

record 's svcEnv =
  sx_ops :: "'s storeOps"
  sx_newID :: "'s \<Rightarrow> string"

section \<open>Identifiers\<close>

text \<open>The calendar date of a day counted from 1 January of year 1, and
  \<^verbatim>\<open>Format("20060102T150405.000000000Z")\<close>.\<close>

definition civilDate :: "int \<Rightarrow> int \<times> int \<times> int" where
  "civilDate days =
     (let z = days + 306; era = z div 146097; doe = z mod 146097;
          yoe = (doe - doe div 1460 + doe div 36524 - doe div 146096) div 365;
          doy = doe - (365 * yoe + yoe div 4 - yoe div 100);
          mp = (5 * doy + 2) div 153;
          d = doy - (153 * mp + 2) div 5 + 1;
          m = (if mp < 10 then mp + 3 else mp - 9);
          y = yoe + era * 400
      in (if m \<le> 2 then y + 1 else y, m, d))"

definition padded :: "nat \<Rightarrow> int \<Rightarrow> string" where
  "padded w i = (let s = itoa i in replicate (w - length s) (CHR ''0'') @ s)"

definition stamp :: "gotime \<Rightarrow> string" where
  "stamp t =
     (let day = 86400 * second; n = t mod day; sec = n div second in
      case civilDate (t div day) of (y, m, d) \<Rightarrow>
        padded 4 y @ padded 2 m @ padded 2 d @ ''T'' @ padded 2 (sec div 3600) @ padded 2 (sec div 60 mod 60)
          @ padded 2 (sec mod 60) @ ''.'' @ padded 9 (n mod second) @ ''Z'')"

definition mintID :: "'s svcEnv \<Rightarrow> string \<Rightarrow> gotime \<Rightarrow> 's \<Rightarrow> string" where
  "mintID env prefix now s = prefix @ stamp now @ ''-'' @ sx_newID env s"

section \<open>Documents\<close>

definition putJSONKV :: "'s storeOps \<Rightarrow> gotime \<Rightarrow> string \<Rightarrow> kvText \<Rightarrow> 's \<Rightarrow> engineError option \<times> 's" where
  "putJSONKV ops now key v s =
     (if kv_json_ok v then so_PutKV ops now key v s else (Some (EText ''json: invalid RawMessage''), s))"

text \<open>\<open>getJSONKV\<close>: not there, there but not decodable, or the document.  \<open>pick\<close> says which kind is
  decoded.\<close>

definition getJSONKV :: "'s storeOps \<Rightarrow> (kvText \<Rightarrow> 'd option) \<Rightarrow> string \<Rightarrow> 's \<Rightarrow> (engineError + 'd) option" where
  "getJSONKV ops pick key s =
     (case so_GetKV ops s key of
        None \<Rightarrow> None
      | Some raw \<Rightarrow> (case pick raw of None \<Rightarrow> Some (Inl (EText ''json: cannot unmarshal'')) | Some d \<Rightarrow> Some (Inr d)))"

definition asAudit :: "kvText \<Rightarrow> auditRecord option" where
  "asAudit d = (case d of DocAudit r \<Rightarrow> Some r | _ \<Rightarrow> None)"

definition asHuman :: "kvText \<Rightarrow> humanTask option" where
  "asHuman d = (case d of DocHuman t \<Rightarrow> Some t | _ \<Rightarrow> None)"

definition asPolicy :: "kvText \<Rightarrow> authorizationPolicyBundle option" where
  "asPolicy d = (case d of DocPolicy b \<Rightarrow> Some b | _ \<Rightarrow> None)"

definition asRiskPolicy :: "kvText \<Rightarrow> riskPolicy option" where
  "asRiskPolicy d = (case d of DocRiskPolicy p \<Rightarrow> Some p | _ \<Rightarrow> None)"

definition asReceipt :: "kvText \<Rightarrow> sideEffectReceipt option" where
  "asReceipt d = (case d of DocReceipt r \<Rightarrow> Some r | _ \<Rightarrow> None)"

definition asToolBundle :: "kvText \<Rightarrow> toolGatewayBundle option" where
  "asToolBundle d = (case d of DocToolBundle b \<Rightarrow> Some b | _ \<Rightarrow> None)"

definition asToolCall :: "kvText \<Rightarrow> toolCallRecord option" where
  "asToolCall d = (case d of DocToolCall r \<Rightarrow> Some r | _ \<Rightarrow> None)"

definition asBrainPolicy :: "kvText \<Rightarrow> brainPolicy option" where
  "asBrainPolicy d = (case d of DocBrainPolicy p \<Rightarrow> Some p | _ \<Rightarrow> None)"

definition asInt :: "kvText \<Rightarrow> int option" where
  "asInt d = (case d of DocInt x \<Rightarrow> Some x | _ \<Rightarrow> None)"

definition asAgentState :: "kvText \<Rightarrow> agentStateSnapshot option" where
  "asAgentState d = (case d of DocAgentState x \<Rightarrow> Some x | _ \<Rightarrow> None)"

definition asDataset :: "kvText \<Rightarrow> evalDataset option" where
  "asDataset d = (case d of DocDataset x \<Rightarrow> Some x | _ \<Rightarrow> None)"

definition asSuite :: "kvText \<Rightarrow> evalSuite option" where
  "asSuite d = (case d of DocSuite x \<Rightarrow> Some x | _ \<Rightarrow> None)"

definition asReport :: "kvText \<Rightarrow> evalReport option" where
  "asReport d = (case d of DocReport x \<Rightarrow> Some x | _ \<Rightarrow> None)"

definition asRelease :: "kvText \<Rightarrow> releaseVersion option" where
  "asRelease d = (case d of DocRelease x \<Rightarrow> Some x | _ \<Rightarrow> None)"

definition asChannel :: "kvText \<Rightarrow> releaseChannel option" where
  "asChannel d = (case d of DocChannel x \<Rightarrow> Some x | _ \<Rightarrow> None)"

definition indexIDs :: "'s storeOps \<Rightarrow> string \<Rightarrow> 's \<Rightarrow> engineError + string list" where
  "indexIDs ops key s =
     (case so_GetKV ops s key of
        None \<Rightarrow> Inr []
      | Some (Plain raw) \<Rightarrow> if TrimSpace raw = '''' then Inr [] else Inl (EText ''json: cannot unmarshal'')
      | Some (DocIDs ids) \<Rightarrow> Inr (sort (keepNew [] ids))
      | Some _ \<Rightarrow> Inl (EText ''json: cannot unmarshal''))"

section \<open>What documents do to the store\<close>

lemma asDoc_iff [simp]:
  "asAudit d = Some r \<longleftrightarrow> d = DocAudit r" "asHuman d = Some t \<longleftrightarrow> d = DocHuman t"
  "asPolicy d = Some b \<longleftrightarrow> d = DocPolicy b" "asRiskPolicy d = Some p \<longleftrightarrow> d = DocRiskPolicy p"
  by (cases d; auto simp: asAudit_def asHuman_def asPolicy_def asRiskPolicy_def)+

lemma asDoc_own [simp]:
  "asAudit (DocAudit r) = Some r" "asHuman (DocHuman t) = Some t" "asPolicy (DocPolicy b) = Some b"
  "asRiskPolicy (DocRiskPolicy p) = Some p"
  by (simp_all add: asAudit_def asHuman_def asPolicy_def asRiskPolicy_def)

lemma asDoc_tools [simp]:
  "asReceipt d = Some r \<longleftrightarrow> d = DocReceipt r" "asToolBundle d = Some b \<longleftrightarrow> d = DocToolBundle b"
  "asToolCall d = Some c \<longleftrightarrow> d = DocToolCall c" "asBrainPolicy d = Some p \<longleftrightarrow> d = DocBrainPolicy p"
  by (cases d; auto simp: asReceipt_def asToolBundle_def asToolCall_def asBrainPolicy_def)+

lemma asDoc_state [simp]:
  "asInt d = Some i \<longleftrightarrow> d = DocInt i" "asAgentState d = Some x \<longleftrightarrow> d = DocAgentState x"
  "asRelease d = Some v \<longleftrightarrow> d = DocRelease v" "asChannel d = Some c \<longleftrightarrow> d = DocChannel c"
  by (cases d; auto simp: asInt_def asAgentState_def asRelease_def asChannel_def)+

lemma asDoc_eval [simp]:
  "asDataset d = Some x \<longleftrightarrow> d = DocDataset x" "asSuite d = Some u \<longleftrightarrow> d = DocSuite u" "asReport d = Some r \<longleftrightarrow> d = DocReport r"
  by (cases d; auto simp: asDataset_def asSuite_def asReport_def)+

text \<open>\<open>kv_moves K s s'\<close>: a service wrote documents under keys in \<open>K\<close> and nothing else.\<close>

definition kv_moves :: "'s storeOps \<Rightarrow> (string \<Rightarrow> bool) \<Rightarrow> 's \<Rightarrow> 's \<Rightarrow> bool" where
  "kv_moves ops K s s' \<longleftrightarrow> (view ops s')\<lparr>sv_kv := sv_kv (view ops s)\<rparr> = view ops s \<and>
     (\<forall>k. \<not> K (TrimSpace k) \<longrightarrow> so_GetKV ops s' k = so_GetKV ops s k)"

lemma kv_moves_refl [simp]: "kv_moves ops K s s"
  by (simp add: kv_moves_def)

lemma kv_moves_trans: "kv_moves ops K s t \<Longrightarrow> kv_moves ops K t u \<Longrightarrow> kv_moves ops K s u"
  by (auto simp: kv_moves_def view_def)

lemma kv_moves_weaken: "kv_moves ops K s t \<Longrightarrow> (\<And>k. K k \<Longrightarrow> L k) \<Longrightarrow> kv_moves ops L s t"
  by (auto simp: kv_moves_def)

lemma kv_moves_reads:
  assumes "kv_moves ops K s s'"
  shows "so_GetRun ops s' = so_GetRun ops s" "so_GetNodeExecution ops s' = so_GetNodeExecution ops s"
    "so_ListEvents ops s' = so_ListEvents ops s" "so_GetTimer ops s' = so_GetTimer ops s"
    "\<not> K (TrimSpace k) \<Longrightarrow> so_GetKV ops s' k = so_GetKV ops s k"
  using assms by (auto simp: kv_moves_def view_def)

lemma view_get:
  "view ops s' = view ops s \<Longrightarrow> so_GetKV ops s' k = so_GetKV ops s k"
  "view ops s' = put_kv key d (view ops s) \<Longrightarrow> so_GetKV ops s' k = (if TrimSpace k = TrimSpace key then Some d else so_GetKV ops s k)"
  by (drule arg_cong [of _ _ "\<lambda>v. sv_kv v k"], simp add: view_def put_kv_def)+

lemma kv_moves_put:
  assumes "view ops s' = view ops s \<or> view ops s' = put_kv key d (view ops s)" "K (TrimSpace key)"
  shows "kv_moves ops K s s'"
proof -
  have "so_GetKV ops s' k = so_GetKV ops s k" if "\<not> K (TrimSpace k)" for k
    using assms that view_get [of ops s'] by metis
  moreover have "(view ops s')\<lparr>sv_kv := sv_kv (view ops s)\<rparr> = view ops s" using assms(1) by (auto simp: put_kv_def)
  ultimately show ?thesis by (simp add: kv_moves_def)
qed

context store_contract
begin

lemma put_doc:
  assumes "sinv s" "putJSONKV ops now key d s = (err, s')"
  shows "sinv s'" "K (TrimSpace key) \<Longrightarrow> kv_moves ops K s s'"
    "err = None \<Longrightarrow> TrimSpace k = TrimSpace key \<Longrightarrow> so_GetKV ops s' k = Some d"
    "so_GetKV ops s' k = so_GetKV ops s k \<or> TrimSpace k = TrimSpace key \<and> so_GetKV ops s' k = Some d"
proof -
  have v: "sinv s' \<and> (view ops s' = view ops s \<or> view ops s' = put_kv key d (view ops s)) \<and> (err = None \<longrightarrow> view ops s' = put_kv key d (view ops s))"
    using assms kv_ok [of s now key d s'] kv_err [of s now key d _ s']
    by (cases err) (auto simp: putJSONKV_def split: if_splits)
  then show "sinv s'" by blast
  show "kv_moves ops K s s'" if "K (TrimSpace key)" using v kv_moves_put that by metis
  show "so_GetKV ops s' k = Some d" if "err = None" "TrimSpace k = TrimSpace key"
    using v that view_get(2) [of ops s' key d s k] by simp
  show "so_GetKV ops s' k = so_GetKV ops s k \<or> TrimSpace k = TrimSpace key \<and> so_GetKV ops s' k = Some d"
    using v view_get [of ops s'] by metis
qed

end

end
