(* ===== verification/WorkflowDag.thy ===== *)
theory WorkflowDag
  imports EngineTypes "HOL-Library.Multiset"
begin

text \<open>
  Workflow graphs: \<^verbatim>\<open>internal/engine/dag.go\<close> (validation, cycle detection, topological order),
  \<^verbatim>\<open>spec.go\<close> and \<^verbatim>\<open>spec_parse.go\<close> (specifications), \<^verbatim>\<open>registry.go\<close> (handlers, compilation) and the
  graph part of \<^verbatim>\<open>replay_helpers.go\<close>.  A handler (\<open>NodeFunc\<close>) is a value of the type parameter
  \<open>'f\<close>.  The depth-first search of \<open>hasCycle\<close> is a pair of mutually recursive functions (one
  node, the loop over its children) on the \<open>visited\<close> and \<open>stack\<close> sets; Kahn's loop and the
  breadth-first search of \<open>downstreamNodes\<close> are recursive functions on their queues.  Go visits
  a map in no fixed order, so the initial queue of \<open>TopologicalOrder\<close> follows a parameter
  \<open>order\<close>, any arrangement of the keys.
\<close>

section \<open>Graphs and specifications\<close>

record humanStepSpec =
  hs_Mode :: string
  hs_Prompt :: string
  hs_TimeoutMS :: int
  hs_OnTimeout :: string

record 'f nodeDef =
  nd_NodeID :: string
  nd_Topic :: string
  nd_RequiredCapability :: string
  nd_Human :: "humanStepSpec option"
  nd_InputSchema :: json
  nd_OutputSchema :: json
  nd_Run :: "'f option"
  nd_TimeoutMS :: int

record nodeEdge =
  ed_From :: string
  ed_To :: string

record 'f workflowGraph =
  wg_ID :: string
  wg_Nodes :: "'f nodeDef list"
  wg_Edges :: "nodeEdge list"
  wg_TimeoutMS :: int

record nodeSpec =
  nsp_ID :: string
  nsp_Topic :: string
  nsp_Capability :: string
  nsp_Human :: "humanStepSpec option"
  nsp_Deps :: "string list"
  nsp_Input :: json
  nsp_Output :: json
  nsp_MaxAttempts :: int

record workflowSpec =
  ws_ID :: string
  ws_Nodes :: "nodeSpec list"

abbreviation node_ids :: "'f workflowGraph \<Rightarrow> string list" where
  "node_ids g \<equiv> map nd_NodeID (wg_Nodes g)"

definition childrenMap :: "nodeEdge list \<Rightarrow> (string, string list) gomap" where
  "childrenMap es = foldl (\<lambda>m e. mput (ed_From e) (mdef [] m (ed_From e) @ [ed_To e]) m) [] es"

section \<open>Cycle detection\<close>

type_synonym dfsState = "string set \<times> string set"

function (sequential) dfs :: "(string, string list) gomap \<Rightarrow> string \<Rightarrow> dfsState \<Rightarrow> bool \<times> dfsState"
  and dfsChildren :: "(string, string list) gomap \<Rightarrow> string list \<Rightarrow> dfsState \<Rightarrow> bool \<times> dfsState" where
  "dfs ch node (visited, stack) =
     (if node \<in> stack then (True, visited, stack)
      else if node \<in> visited then (False, visited, stack)
      else case dfsChildren ch (mdef [] ch node) (insert node visited, insert node stack) of
             (True, st) \<Rightarrow> (True, st)
           | (False, visited1, stack1) \<Rightarrow> (False, visited1, stack1 - {node}))"
| "dfsChildren ch [] st = (False, st)"
| "dfsChildren ch (c # cs) st =
     (case dfs ch c st of
        (True, st1) \<Rightarrow> (True, st1)
      | (False, st1) \<Rightarrow> dfsChildren ch cs st1)"
  by pat_completeness auto


lemma dfs_grows_dom:
  "dfs_dfsChildren_dom (Inl (ch, node, st)) \<Longrightarrow> fst st \<subseteq> fst (snd (dfs ch node st))"
  "dfs_dfsChildren_dom (Inr (ch, cs, st)) \<Longrightarrow> fst st \<subseteq> fst (snd (dfsChildren ch cs st))"
proof (induct ch node st and ch cs st rule: dfs_dfsChildren.pinduct)
  case (1 ch node visited stack)
  then show ?case
    by (cases "dfsChildren ch (mdef [] ch node) (insert node visited, insert node stack)")
      (auto simp: dfs.psimps split: prod.splits bool.splits)
next
  case (2 ch st)
  then show ?case by (simp add: dfsChildren.psimps)
next
  case (3 ch c cs st)
  then show ?case by (cases "dfs ch c st") (auto simp: dfsChildren.psimps split: prod.splits bool.splits)
qed

text \<open>Each call either visits one more node that has children, or has less left to loop over.\<close>

definition dfs_measure ::
  "((string, string list) gomap \<times> string \<times> dfsState) + ((string, string list) gomap \<times> string list \<times> dfsState) \<Rightarrow> nat \<times> nat" where
  "dfs_measure x = (case x of
     Inl (ch, node, st) \<Rightarrow> (card (dom (mget ch) - fst st), 1)
   | Inr (ch, cs, st) \<Rightarrow> (card (dom (mget ch) - fst st), 2 * length cs))"

termination dfs
proof (relation "inv_image (less_than <*lex*> less_than) dfs_measure")
  show "wf (inv_image (less_than <*lex*> less_than) dfs_measure)" by (intro wf_inv_image wf_lex_prod wf_less_than)
next
  fix ch :: "(string, string list) gomap" and node :: string and visited stack :: "string set"
  assume new: "node \<notin> stack" "node \<notin> visited"
  let ?D = "dom (mget ch)"
  have fin: "finite ?D" by (rule finite_dom_map_of)
  show "(Inr (ch, mdef [] ch node, insert node visited, insert node stack), Inl (ch, node, visited, stack))
    \<in> inv_image (less_than <*lex*> less_than) dfs_measure"
  proof (cases "node \<in> ?D")
    case True
    then have "card (?D - insert node visited) < card (?D - visited)"
      using fin new by (intro psubset_card_mono) auto
    then show ?thesis by (simp add: dfs_measure_def)
  next
    case False
    then have "mdef [] ch node = []" "?D - insert node visited = ?D - visited"
      using domI by (force simp: mdef_def split: option.splits)+
    then show ?thesis by (simp add: dfs_measure_def)
  qed
next
  fix ch :: "(string, string list) gomap" and c cs st
  show "(Inl (ch, c, st), Inr (ch, c # cs, st)) \<in> inv_image (less_than <*lex*> less_than) dfs_measure"
    by (simp add: dfs_measure_def)
next
  fix ch :: "(string, string list) gomap" and c cs st st1 b
  assume "(b, st1) = dfs ch c st" "b = False" and dom: "dfs_dfsChildren_dom (Inl (ch, c, st))"
  then have "fst st \<subseteq> fst st1" using dfs_grows_dom(1) [OF dom] by (metis snd_conv)
  then have "card (dom (mget ch) - fst st1) \<le> card (dom (mget ch) - fst st)"
    by (intro card_mono) (auto simp: finite_dom_map_of)
  then show "(Inr (ch, cs, st1), Inr (ch, c # cs, st)) \<in> inv_image (less_than <*lex*> less_than) dfs_measure"
    by (auto simp: dfs_measure_def)
qed

definition hasCycle :: "'f workflowGraph \<Rightarrow> bool" where
  "hasCycle g = fst (dfsChildren (childrenMap (wg_Edges g)) (node_ids g) ({}, {}))"

section \<open>Validation\<close>

fun checkNodes :: "'f nodeDef list \<Rightarrow> string set \<Rightarrow> engineError + string set" where
  "checkNodes [] nodeSet = Inr nodeSet"
| "checkNodes (n # ns) nodeSet =
     (if nd_NodeID n = '''' then Inl (EText ''node has empty id'')
      else if nd_NodeID n \<in> nodeSet then Inl (EText (''duplicate node id: '' @ nd_NodeID n))
      else checkNodes ns (insert (nd_NodeID n) nodeSet))"

fun checkEdges :: "nodeEdge list \<Rightarrow> string set \<Rightarrow> engineError option" where
  "checkEdges [] nodeSet = None"
| "checkEdges (e # es) nodeSet =
     (if ed_From e \<notin> nodeSet then Some (EText (''edge references unknown node: '' @ ed_From e))
      else if ed_To e \<notin> nodeSet then Some (EText (''edge references unknown node: '' @ ed_To e))
      else checkEdges es nodeSet)"

definition Graph_Validate :: "'f workflowGraph \<Rightarrow> engineError option" where
  "Graph_Validate g =
     (case checkNodes (wg_Nodes g) {} of
        Inl err \<Rightarrow> Some err
      | Inr nodeSet \<Rightarrow>
          (case checkEdges (wg_Edges g) nodeSet of
             Some err \<Rightarrow> Some err
           | None \<Rightarrow> if hasCycle g then Some (EText ''workflow graph contains a cycle'') else None))"

section \<open>Topological order\<close>

definition initDegrees :: "'f workflowGraph \<Rightarrow> (string, int) gomap" where
  "initDegrees g =
     foldl (\<lambda>m e. mput (ed_To e) (mdef 0 m (ed_To e) + 1) m)
       (foldl (\<lambda>m n. mput (nd_NodeID n) 0 m) [] (wg_Nodes g)) (wg_Edges g)"

fun relaxChildren :: "string list \<Rightarrow> (string, int) gomap \<Rightarrow> string list \<Rightarrow> (string, int) gomap \<times> string list" where
  "relaxChildren [] inDegree queue = (inDegree, queue)"
| "relaxChildren (c # cs) inDegree queue =
     (let d = mdef 0 inDegree c - 1; inDegree1 = mput c d inDegree in
      relaxChildren cs inDegree1 (if d = 0 then queue @ [c] else queue))"

definition pendingDegree :: "(string, int) gomap \<Rightarrow> nat" where
  "pendingDegree m = (\<Sum>(k, v)\<leftarrow>m. nat v)"

lemma pendingDegree_dec: "pendingDegree (mput c (mdef 0 m c - 1) m) + (if mdef 0 m c - 1 = 0 then 1 else 0) \<le> pendingDegree m"
  by (induction m) (auto simp: pendingDegree_def mput_def mdef_def)

lemma relaxChildren_measure:
  "relaxChildren cs m q = (m', q') \<Longrightarrow> length q' + pendingDegree m' \<le> length q + pendingDegree m"
proof (induction cs arbitrary: m q)
  case (Cons c cs)
  let ?d = "mdef 0 m c - 1"
  from Cons.prems have "relaxChildren cs (mput c ?d m) (if ?d = 0 then q @ [c] else q) = (m', q')"
    by (simp add: Let_def)
  from Cons.IH [OF this] pendingDegree_dec [of c m] show ?case by (auto split: if_splits)
qed simp

function kahnLoop :: "'f workflowGraph \<Rightarrow> (string, int) gomap \<Rightarrow> string list \<Rightarrow> 'f nodeDef list \<Rightarrow> 'f nodeDef list" where
  "kahnLoop g inDegree queue ordered =
     (case queue of
        [] \<Rightarrow> ordered
      | i # rest \<Rightarrow>
          (case relaxChildren (mdef [] (childrenMap (wg_Edges g)) i) inDegree rest of
             (inDegree1, queue1) \<Rightarrow>
               kahnLoop g inDegree1 queue1
                 (case find (\<lambda>n. nd_NodeID n = i) (wg_Nodes g) of
                    None \<Rightarrow> ordered
                  | Some n \<Rightarrow> ordered @ [n])))"
  by pat_completeness auto
termination
proof (relation "measure (\<lambda>(g, inDegree, queue, ordered). length queue + pendingDegree inDegree)", goal_cases)
  case (2 g inDegree queue ordered i rest inDegree1 queue1)
  from relaxChildren_measure [OF this(2) [symmetric]] this(1) show ?case by simp
qed simp

declare kahnLoop.simps [simp del]

definition TopologicalOrder :: "string list \<Rightarrow> 'f workflowGraph \<Rightarrow> engineError + 'f nodeDef list" where
  "TopologicalOrder order g =
     (let inDegree = initDegrees g;
          queue = filter (\<lambda>i. mdef 0 inDegree i = 0) order;
          ordered = kahnLoop g inDegree queue []
      in if length ordered \<noteq> length (wg_Nodes g) then Inl (EText ''graph has cycles or disconnected nodes'')
         else Inr ordered)"

section \<open>Downstream nodes\<close>

function downstreamLoop :: "(string, string list) gomap \<Rightarrow> string list \<Rightarrow> string set \<Rightarrow> string set" where
  "downstreamLoop ch q out =
     (case q of
        [] \<Rightarrow> out
      | n # rest \<Rightarrow>
          if n \<in> out then downstreamLoop ch rest out
          else downstreamLoop ch (rest @ mdef [] ch n) (insert n out))"
  by pat_completeness auto
termination
proof (relation "(\<lambda>(ch, q, out). card (dom (mget ch) - out)) <*mlex*> measure (\<lambda>(ch, q, out). length q)", goal_cases)
  case 1
  then show ?case by (simp add: wf_mlex)
next
  case (2 ch q out n rest)
  then show ?case by (auto simp: mlex_prod_def)
next
  case (3 ch q out n rest)
  have fin: "finite (dom (mget ch) - out)" by (simp add: finite_dom_map_of)
  show ?case
  proof (cases "n \<in> dom (mget ch)")
    case True
    then have "card (dom (mget ch) - insert n out) < card (dom (mget ch) - out)"
      using fin 3 by (intro psubset_card_mono) auto
    then show ?thesis by (simp add: mlex_less)
  next
    case False
    then have "mdef [] ch n = []" "dom (mget ch) - insert n out = dom (mget ch) - out"
      using domI by (force simp: mdef_def split: option.splits)+
    then show ?thesis using 3 by (simp add: mlex_prod_def)
  qed
qed

declare downstreamLoop.simps [simp del]

definition graphHasNode :: "'f workflowGraph \<Rightarrow> string \<Rightarrow> bool" where
  "graphHasNode g nodeID = list_ex (\<lambda>n. nd_NodeID n = nodeID) (wg_Nodes g)"

definition downstreamNodes :: "'f workflowGraph \<Rightarrow> string \<Rightarrow> string set" where
  "downstreamNodes g fromStep = downstreamLoop (childrenMap (wg_Edges g)) [fromStep] {}"


declare dfs.simps [simp del] dfsChildren.simps(2) [simp del]

section \<open>The edge relation\<close>

definition edge_rel :: "nodeEdge list \<Rightarrow> (string \<times> string) set" where
  "edge_rel es = {(ed_From e, ed_To e) | e. e \<in> set es}"

lemma childrenMap_get: "mdef [] (childrenMap es) i = map ed_To (filter (\<lambda>e. ed_From e = i) es)"
  unfolding childrenMap_def by (induction es rule: rev_induct) auto

lemma children_edge: "c \<in> set (mdef [] (childrenMap es) i) \<longleftrightarrow> (i, c) \<in> edge_rel es"
  by (auto simp: childrenMap_get edge_rel_def)

lemma finite_edge_rel: "finite (edge_rel es)"
  by (simp add: edge_rel_def setcompr_eq_image)

section \<open>Depth-first search finds the cycles\<close>

definition ch_rel :: "(string, string list) gomap \<Rightarrow> (string \<times> string) set" where
  "ch_rel ch = {(a, b). b \<in> set (mdef [] ch a)}"

text \<open>If every node on the stack leads to the nodes about to be searched, then an answer \<open>True\<close>
  comes from a cycle; an answer \<open>False\<close> leaves the stack as it was.\<close>

lemma dfs_sound:
  "dfs ch node st = (b, st') \<Longrightarrow> \<forall>s \<in> snd st. (s, node) \<in> (ch_rel ch)\<^sup>+ \<Longrightarrow> snd st \<subseteq> fst st \<Longrightarrow>
     (if b then \<exists>x. (x, x) \<in> (ch_rel ch)\<^sup>+ else snd st' = snd st \<and> fst st \<subseteq> fst st')"
  "dfsChildren ch cs st = (b, st') \<Longrightarrow> \<forall>s \<in> snd st. \<forall>c \<in> set cs. (s, c) \<in> (ch_rel ch)\<^sup>+ \<Longrightarrow> snd st \<subseteq> fst st \<Longrightarrow>
     (if b then \<exists>x. (x, x) \<in> (ch_rel ch)\<^sup>+ else snd st' = snd st \<and> fst st \<subseteq> fst st')"
proof (induction ch node st and ch cs st arbitrary: b st' and b st' rule: dfs_dfsChildren.induct)
  case (1 ch node visited stack)
  show ?case
  proof (cases "node \<in> stack \<or> node \<in> visited")
    case True
    then show ?thesis using 1(2-4) by (auto simp: dfs.simps split: if_splits)
  next
    case new: False
    obtain b1 st1 where r: "dfsChildren ch (mdef [] ch node) (insert node visited, insert node stack) = (b1, st1)"
      by (metis surj_pair)
    have edge: "(node, c) \<in> ch_rel ch" if "c \<in> set (mdef [] ch node)" for c
      using that by (simp add: ch_rel_def)
    have "\<forall>s \<in> snd (insert node visited, insert node stack). \<forall>c \<in> set (mdef [] ch node). (s, c) \<in> (ch_rel ch)\<^sup>+"
      using 1(3) edge by (auto intro: trancl_into_trancl)
    moreover have "snd (insert node visited, insert node stack) \<subseteq> fst (insert node visited, insert node stack)"
      using 1(4) by auto
    ultimately have h: "if b1 then \<exists>x. (x, x) \<in> (ch_rel ch)\<^sup>+ else snd st1 = insert node stack \<and> insert node visited \<subseteq> fst st1"
      using 1(1) [OF _ _ r] new by (cases b1) auto
    show ?thesis
    proof (cases b1)
      case True
      with h r new 1(2) show ?thesis by (auto simp: dfs.simps)
    next
      case False
      with r new 1(2) have "b = False" "st' = (fst st1, snd st1 - {node})"
        by (auto simp: dfs.simps split: prod.splits)
      with h False new show ?thesis by auto
    qed
  qed
next
  case (3 ch c cs st)
  obtain b1 st1 where r: "dfs ch c st = (b1, st1)" by (metis surj_pair)
  have h: "if b1 then \<exists>x. (x, x) \<in> (ch_rel ch)\<^sup>+ else snd st1 = snd st \<and> fst st \<subseteq> fst st1"
    using 3(1) [OF r] 3(4,5) by auto
  show ?case
  proof (cases b1)
    case True
    with h r 3(3) show ?thesis by (auto simp: dfsChildren.simps)
  next
    case False
    with r 3(3) have "dfsChildren ch cs st1 = (b, st')" by (simp add: dfsChildren.simps)
    moreover have "snd st1 \<subseteq> fst st1" using h False 3(5) by auto
    ultimately show ?thesis using h False 3(2) [OF r [symmetric], of b st'] 3(4,5) by (auto split: if_splits)
  qed
qed simp

text \<open>An answer \<open>False\<close> has seen everything: what is visited and off the stack is closed under the
  edges and lies on no cycle.\<close>

definition finished_ok :: "(string, string list) gomap \<Rightarrow> dfsState \<Rightarrow> bool" where
  "finished_ok ch st \<longleftrightarrow> (\<forall>x \<in> fst st - snd st. (\<forall>y. (x, y) \<in> ch_rel ch \<longrightarrow> y \<in> fst st - snd st) \<and> (x, x) \<notin> (ch_rel ch)\<^sup>+)"

lemma finished_closed:
  assumes "finished_ok ch st" "(x, y) \<in> (ch_rel ch)\<^sup>*" "x \<in> fst st - snd st"
  shows "y \<in> fst st - snd st"
  using assms(2,3)
proof (induction rule: rtrancl_induct)
  case (step y z)
  then have "y \<in> fst st - snd st" "(y, z) \<in> ch_rel ch" by simp_all
  with assms(1) show ?case unfolding finished_ok_def by blast
qed

lemma dfs_complete:
  "dfs ch node st = (False, st') \<Longrightarrow> finished_ok ch st \<Longrightarrow> snd st \<subseteq> fst st \<Longrightarrow>
     finished_ok ch st' \<and> snd st' = snd st \<and> fst st \<subseteq> fst st' \<and> node \<in> fst st' - snd st'"
  "dfsChildren ch cs st = (False, st') \<Longrightarrow> finished_ok ch st \<Longrightarrow> snd st \<subseteq> fst st \<Longrightarrow>
     finished_ok ch st' \<and> snd st' = snd st \<and> fst st \<subseteq> fst st' \<and> set cs \<subseteq> fst st' - snd st'"
proof (induction ch node st and ch cs st arbitrary: st' and st' rule: dfs_dfsChildren.induct)
  case (1 ch node visited stack)
  show ?case
  proof (cases "node \<in> stack \<or> node \<in> visited")
    case True
    then show ?thesis using 1(2-4) by (auto simp: dfs.simps split: if_splits)
  next
    case new: False
    let ?v = "insert node visited" and ?s = "insert node stack"
    obtain v1 s1 where r: "dfsChildren ch (mdef [] ch node) (?v, ?s) = (False, v1, s1)" and st': "st' = (v1, s1 - {node})"
      using 1(2) new by (auto simp: dfs.simps split: prod.splits bool.splits if_splits)
    have "?v - ?s = visited - stack" using new by auto
    with 1(3) have "finished_ok ch (?v, ?s)" by (simp only: finished_ok_def fst_conv snd_conv)
    moreover have "snd (?v, ?s) \<subseteq> fst (?v, ?s)" using 1(4) by auto
    ultimately have f: "finished_ok ch (v1, s1)" "s1 = ?s" "?v \<subseteq> v1" "set (mdef [] ch node) \<subseteq> v1 - s1"
      using 1(1) [OF _ _ r] new by auto
    have kids: "y \<in> v1 - s1" if "(node, y) \<in> ch_rel ch" for y
      using that f(4) by (auto simp: ch_rel_def)
    have "(node, node) \<notin> (ch_rel ch)\<^sup>+"
    proof
      assume "(node, node) \<in> (ch_rel ch)\<^sup>+"
      then obtain c where "(node, c) \<in> ch_rel ch" "(c, node) \<in> (ch_rel ch)\<^sup>*" by (meson tranclD)
      then show False using kids finished_closed [OF f(1)] f(2) by auto
    qed
    moreover have "v1 - (s1 - {node}) = insert node (v1 - s1)" using f(2,3) by auto
    ultimately have "finished_ok ch (v1, s1 - {node})"
      using f(1) kids unfolding finished_ok_def fst_conv snd_conv by blast
    then show ?thesis using f new by (auto simp: st')
  qed
next
  case (3 ch c cs st)
  obtain st1 where r: "dfs ch c st = (False, st1)" "dfsChildren ch cs st1 = (False, st')"
    using 3(3) by (auto simp: dfsChildren.simps split: prod.splits bool.splits)
  have h: "finished_ok ch st1" "snd st1 = snd st" "fst st \<subseteq> fst st1" "c \<in> fst st1 - snd st1"
    using 3(1) [OF r(1) 3(4,5)] by auto
  moreover have "snd st1 \<subseteq> fst st1" using h 3(5) by auto
  ultimately show ?case using 3(2) [OF r(1) [symmetric] refl r(2) h(1)] by auto
qed simp

lemma hasCycle_reachable:
  "hasCycle g \<longleftrightarrow> (\<exists>n \<in> set (node_ids g). \<exists>x. (n, x) \<in> (edge_rel (wg_Edges g))\<^sup>* \<and> (x, x) \<in> (edge_rel (wg_Edges g))\<^sup>+)"
  if closed: "edge_rel (wg_Edges g) \<subseteq> set (node_ids g) \<times> set (node_ids g)"
proof -
  let ?ch = "childrenMap (wg_Edges g)" and ?E = "edge_rel (wg_Edges g)"
  have E: "ch_rel ?ch = ?E" by (auto simp: ch_rel_def children_edge)
  obtain b st where r: "dfsChildren ?ch (node_ids g) ({}, {}) = (b, st)" by (metis surj_pair)
  then have b: "hasCycle g = b" by (simp add: hasCycle_def)
  show ?thesis
  proof (cases b)
    case True
    with dfs_sound(2) [OF r] obtain x where x: "(x, x) \<in> ?E\<^sup>+" by (auto simp: E)
    then obtain y where "(x, y) \<in> ?E" by (meson tranclD)
    with closed have "x \<in> set (node_ids g)" by auto
    with x True b show ?thesis by blast
  next
    case False
    with r have "dfsChildren ?ch (node_ids g) ({}, {}) = (False, st)" by simp
    moreover have "finished_ok ?ch ({}, {})" by (simp add: finished_ok_def)
    ultimately have ok: "finished_ok ?ch st" "set (node_ids g) \<subseteq> fst st - snd st"
      using dfs_complete(2) [of ?ch "node_ids g" "({}, {})" st] by auto
    have "(x, x) \<notin> ?E\<^sup>+" if "n \<in> set (node_ids g)" "(n, x) \<in> ?E\<^sup>*" for n x
    proof -
      have "x \<in> fst st - snd st" using finished_closed [OF ok(1), of n x] that ok(2) by (auto simp: E)
      with ok(1) show ?thesis unfolding finished_ok_def E by blast
    qed
    with False b show ?thesis by blast
  qed
qed


section \<open>What a valid graph is\<close>

definition graph_ok :: "'f workflowGraph \<Rightarrow> bool" where
  "graph_ok g \<longleftrightarrow> '''' \<notin> set (node_ids g) \<and> distinct (node_ids g) \<and>
     edge_rel (wg_Edges g) \<subseteq> set (node_ids g) \<times> set (node_ids g) \<and> acyclic (edge_rel (wg_Edges g))"

lemma checkNodes_ok:
  "(\<exists>S'. checkNodes ns S = Inr S') \<longleftrightarrow> '''' \<notin> nd_NodeID ` set ns \<and> distinct (map nd_NodeID ns) \<and> S \<inter> nd_NodeID ` set ns = {}"
  "checkNodes ns S = Inr S' \<Longrightarrow> S' = S \<union> nd_NodeID ` set ns"
  by (induction ns S rule: checkNodes.induct) (auto split: if_splits)

lemma checkEdges_ok: "checkEdges es S = None \<longleftrightarrow> edge_rel es \<subseteq> S \<times> S"
  by (induction es S rule: checkEdges.induct) (auto simp: edge_rel_def)

lemma hasCycle_acyclic:
  assumes "edge_rel (wg_Edges g) \<subseteq> set (node_ids g) \<times> set (node_ids g)"
  shows "hasCycle g \<longleftrightarrow> \<not> acyclic (edge_rel (wg_Edges g))"
proof -
  have "x \<in> set (node_ids g)" if "(x, x) \<in> (edge_rel (wg_Edges g))\<^sup>+" for x
    using that assms by (meson mem_Sigma_iff subsetD tranclD)
  then show ?thesis unfolding hasCycle_reachable [OF assms] acyclic_def by blast
qed

lemma Graph_Validate_iff: "Graph_Validate g = None \<longleftrightarrow> graph_ok g"
proof (cases "checkNodes (wg_Nodes g) {}")
  case (Inl err)
  with checkNodes_ok(1) [of "wg_Nodes g" "{}"] show ?thesis by (auto simp: Graph_Validate_def graph_ok_def)
next
  case (Inr S)
  then have S: "S = set (node_ids g)" and ok: "'''' \<notin> set (node_ids g)" "distinct (node_ids g)"
    using checkNodes_ok [of "wg_Nodes g" "{}"] by auto
  have "checkEdges (wg_Edges g) S = None \<longleftrightarrow> edge_rel (wg_Edges g) \<subseteq> set (node_ids g) \<times> set (node_ids g)"
    by (simp add: checkEdges_ok S)
  with Inr ok hasCycle_acyclic [of g] show ?thesis
    by (cases "checkEdges (wg_Edges g) S") (auto simp: Graph_Validate_def graph_ok_def)
qed

text \<open>C17. \<open>Validate\<close> accepts exactly the well-formed graphs: identifiers non-empty and distinct, edges
  between known nodes, and no cycle; in particular the depth-first search finds a cycle if and
  only if there is one.\<close>

theorem graph_validate_exact: "Graph_Validate g = None \<longleftrightarrow> graph_ok g"
  by (rule Graph_Validate_iff)

section \<open>Kahn's algorithm\<close>

lemma initDegrees_get:
  fixes g :: "'f workflowGraph"
  shows "mdef 0 (initDegrees g) i = int (length (filter (\<lambda>e. ed_To e = i) (wg_Edges g)))"
proof -
  have base: "mdef 0 (foldl (\<lambda>m n. mput (nd_NodeID n) 0 m) [] ns) i = 0" for ns :: "'f nodeDef list"
    by (induction ns rule: rev_induct) auto
  have "mdef 0 (foldl (\<lambda>m e. mput (ed_To e) (mdef 0 m (ed_To e) + 1) m) m0 es) i
      = mdef 0 m0 i + int (length (filter (\<lambda>e. ed_To e = i) es))" for m0 :: "(string, int) gomap" and es :: "nodeEdge list"
    by (induction es rule: rev_induct) auto
  then show ?thesis by (simp add: initDegrees_def base)
qed

lemma initDegrees_keys:
  fixes g :: "'f workflowGraph"
  shows "dom (mget (initDegrees g)) = set (node_ids g) \<union> ed_To ` set (wg_Edges g)" "mwf (initDegrees g)"
proof -
  have nodes: "dom (mget (foldl (\<lambda>m n. mput (nd_NodeID n) (0::int) m) [] ns)) = nd_NodeID ` set ns"
    "mwf (foldl (\<lambda>m n. mput (nd_NodeID n) (0::int) m) [] ns)" for ns :: "'f nodeDef list"
    by (induction ns rule: rev_induct) auto
  have "dom (mget (foldl (\<lambda>m e. mput (ed_To e) (mdef 0 m (ed_To e) + 1) m) m0 es)) = dom (mget m0) \<union> ed_To ` set es"
    "mwf m0 \<Longrightarrow> mwf (foldl (\<lambda>m e. mput (ed_To e) (mdef 0 m (ed_To e) + 1) m) m0 es)" for m0 :: "(string, int) gomap" and es :: "nodeEdge list"
    by (induction es rule: rev_induct) auto
  then show "dom (mget (initDegrees g)) = set (node_ids g) \<union> ed_To ` set (wg_Edges g)" "mwf (initDegrees g)"
    using nodes by (simp_all add: initDegrees_def)
qed

text \<open>One round of the loop over the children lowers each degree by the number of edges, and
  queues exactly the nodes that reach 0.\<close>

lemma relaxChildren_spec:
  assumes "relaxChildren cs m q = (m', q')" "\<And>c. c \<in> set cs \<Longrightarrow> int (count_list cs c) \<le> mdef 0 m c"
  shows "(\<forall>c. mdef 0 m' c = mdef 0 m c - int (count_list cs c)) \<and>
    (\<exists>xs. q' = q @ xs \<and> distinct xs \<and> set xs = {c \<in> set cs. mdef 0 m c = int (count_list cs c)})"
  using assms
proof (induction cs arbitrary: m q)
  case (Cons c cs)
  let ?m = "mput c (mdef 0 m c - 1) m" and ?q = "if mdef 0 m c - 1 = 0 then q @ [c] else q"
  from Cons.prems have "relaxChildren cs ?m ?q = (m', q')" by (simp add: Let_def)
  moreover have "int (count_list cs x) \<le> mdef 0 ?m x" if "x \<in> set cs" for x
    using Cons.prems(2) [of x] that by auto
  ultimately obtain xs where h: "\<forall>x. mdef 0 m' x = mdef 0 ?m x - int (count_list cs x)"
    "q' = ?q @ xs" "distinct xs" "set xs = {x \<in> set cs. mdef 0 ?m x = int (count_list cs x)}"
    using Cons.IH by blast
  have deg: "mdef 0 m' x = mdef 0 m x - int (count_list (c # cs) x)" for x
    using h(1) by auto
  have notin: "c \<notin> set cs" if "mdef 0 m c = 1"
    using Cons.prems(2) [of c] that by (auto simp: count_list_0_iff [symmetric])
  show ?case
  proof (cases "mdef 0 m c = 1")
    case True
    then have "q' = q @ (c # xs)" "distinct (c # xs)" using h notin by auto
    moreover have "set (c # xs) = {x \<in> set (c # cs). mdef 0 m x = int (count_list (c # cs) x)}"
      using h(4) True notin by (auto simp: count_list_0_iff)
    ultimately show ?thesis using deg by blast
  next
    case False
    then have "q' = q @ xs" using h by auto
    moreover have "set xs = {x \<in> set (c # cs). mdef 0 m x = int (count_list (c # cs) x)}"
      using h(4) False by (auto simp: count_list_0_iff)
    ultimately show ?thesis using deg h(3) by blast
  qed
qed simp


text \<open>The state of the loop: \<open>out\<close> are the nodes already ordered.  Each node's degree counts the
  edges from nodes not yet ordered, the nodes of degree 0 are those ordered or queued, and
  every node ordered or queued comes after all its parents.\<close>

definition parents_before :: "nodeEdge list \<Rightarrow> string list \<Rightarrow> bool" where
  "parents_before es xs \<longleftrightarrow> (\<forall>i < length xs. \<forall>e \<in> set es. ed_To e = xs ! i \<longrightarrow> ed_From e \<in> set (take i xs))"

definition kahn_inv :: "'f workflowGraph \<Rightarrow> string list \<Rightarrow> (string, int) gomap \<Rightarrow> string list \<Rightarrow> bool" where
  "kahn_inv g out m q \<longleftrightarrow> distinct (out @ q) \<and> set (out @ q) \<subseteq> set (node_ids g) \<and>
     (\<forall>i. mdef 0 m i = int (length (filter (\<lambda>e. ed_To e = i \<and> ed_From e \<notin> set out) (wg_Edges g)))) \<and>
     (\<forall>i \<in> set (node_ids g). i \<in> set (out @ q) \<longleftrightarrow> mdef 0 m i = 0) \<and>
     parents_before (wg_Edges g) (out @ q)"

lemma count_children: "count_list (mdef [] (childrenMap es) i) c = length (filter (\<lambda>e. ed_To e = c \<and> ed_From e = i) es)"
  by (simp add: childrenMap_get) (induction es, auto)

lemma parents_before_append:
  assumes "parents_before es xs" "\<And>y e. y \<in> set ys \<Longrightarrow> e \<in> set es \<Longrightarrow> ed_To e = y \<Longrightarrow> ed_From e \<in> set xs"
  shows "parents_before es (xs @ ys)"
  unfolding parents_before_def
proof (intro allI impI ballI)
  fix i e assume i: "i < length (xs @ ys)" and e: "e \<in> set es" "ed_To e = (xs @ ys) ! i"
  show "ed_From e \<in> set (take i (xs @ ys))"
  proof (cases "i < length xs")
    case True
    with assms(1) e show ?thesis by (simp add: parents_before_def nth_append)
  next
    case False
    with i have "(xs @ ys) ! i \<in> set ys" by (simp add: nth_append)
    with assms(2) e False show ?thesis by simp
  qed
qed

lemma degree_split:
  "i \<notin> set out \<Longrightarrow> length (filter (\<lambda>e. ed_To e = c \<and> ed_From e \<notin> set out) es) =
     length (filter (\<lambda>e. ed_To e = c \<and> ed_From e \<notin> set (out @ [i])) es) + length (filter (\<lambda>e. ed_To e = c \<and> ed_From e = i) es)"
  by (induction es) auto

lemma kahn_step:
  assumes g: "graph_ok g" and inv: "kahn_inv g out m (i # q)"
    and r: "relaxChildren (mdef [] (childrenMap (wg_Edges g)) i) m q = (m', q')"
  shows "kahn_inv g (out @ [i]) m' q'"
proof -
  let ?es = "wg_Edges g" and ?ch = "mdef [] (childrenMap (wg_Edges g)) i"
  let ?deg = "\<lambda>out c. length (filter (\<lambda>e. ed_To e = c \<and> ed_From e \<notin> set out) ?es)"
  have deg: "mdef 0 m c = int (?deg out c)" for c using inv by (simp add: kahn_inv_def)
  have zero: "c \<in> set (out @ i # q) \<longleftrightarrow> mdef 0 m c = 0" if "c \<in> set (node_ids g)" for c
    using inv that unfolding kahn_inv_def by blast
  have iout: "i \<notin> set out" "i \<notin> set q" using inv by (auto simp: kahn_inv_def)
  have sum: "?deg out c = ?deg (out @ [i]) c + count_list ?ch c" for c
    unfolding count_children by (rule degree_split [OF iout(1)])
  then have "c \<in> set ?ch \<Longrightarrow> int (count_list ?ch c) \<le> mdef 0 m c" for c by (simp add: deg)
  from relaxChildren_spec [OF r this] obtain xs where m': "\<And>c. mdef 0 m' c = int (?deg (out @ [i]) c)"
    and q': "q' = q @ xs" and xs: "distinct xs" "set xs = {c \<in> set ?ch. mdef 0 m c = int (count_list ?ch c)}"
    using sum by (auto simp: deg)
  have new: "c \<in> set xs \<longleftrightarrow> c \<notin> set (out @ i # q) \<and> mdef 0 m' c = 0" if "c \<in> set (node_ids g)" for c
  proof -
    have old: "c \<in> set (out @ i # q) \<longleftrightarrow> ?deg out c = 0" using zero [OF that] deg [of c] by simp
    have "c \<in> set ?ch \<longleftrightarrow> count_list ?ch c \<noteq> 0" by (simp add: count_list_0_iff)
    then show ?thesis unfolding xs(2) old m' using sum [of c] deg [of c] by auto
  qed
  have nodes: "c \<in> set (node_ids g)" if "c \<in> set xs" for c
    using that xs(2) g by (auto simp: children_edge graph_ok_def)
  have parents: "ed_From e \<in> set (out @ i # q)" if "y \<in> set xs" "e \<in> set ?es" "ed_To e = y" for y e
  proof -
    have "?deg (out @ [i]) y = 0" using that(1) new [OF nodes] m' by auto
    then have "\<forall>e \<in> set ?es. ed_To e = y \<longrightarrow> ed_From e \<in> set (out @ [i])" by (auto simp: filter_empty_conv)
    with that show ?thesis by auto
  qed
  have "distinct ((out @ [i]) @ q')" "set ((out @ [i]) @ q') \<subseteq> set (node_ids g)"
    using inv new nodes xs(1) by (auto simp: kahn_inv_def q')
  moreover have "parents_before ?es ((out @ [i]) @ q')"
    using parents_before_append [of ?es "out @ i # q" xs] parents inv by (simp add: kahn_inv_def q')
  moreover have "c \<in> set ((out @ [i]) @ q') \<longleftrightarrow> mdef 0 m' c = 0" if "c \<in> set (node_ids g)" for c
  proof -
    have "mdef 0 m' c = 0" if "c \<in> set (out @ i # q)"
    proof -
      have "int (?deg out c) = 0" using that zero [OF \<open>c \<in> set (node_ids g)\<close>] deg [of c] by simp
      then have "?deg (out @ [i]) c = 0" using sum [of c] by linarith
      then show ?thesis using m' [of c] by simp
    qed
    with new [OF that] show ?thesis by (auto simp: q')
  qed
  ultimately show ?thesis using m' by (simp add: kahn_inv_def)
qed


lemma find_node:
  "i \<in> set (map nd_NodeID ns) \<Longrightarrow> \<exists>n. find (\<lambda>n. nd_NodeID n = i) ns = Some n \<and> n \<in> set ns \<and> nd_NodeID n = i"
  by (induction ns) auto

lemma kahnLoop_ok:
  assumes "graph_ok g" "kahn_inv g (map nd_NodeID ordered) m q" "set ordered \<subseteq> set (wg_Nodes g)"
  shows "\<exists>m'. kahn_inv g (map nd_NodeID (kahnLoop g m q ordered)) m' [] \<and> set (kahnLoop g m q ordered) \<subseteq> set (wg_Nodes g)"
  using assms(2,3)
proof (induction "length q + pendingDegree m" arbitrary: m q ordered rule: less_induct)
  case less
  show ?case
  proof (cases q)
    case Nil
    with less show ?thesis by (subst kahnLoop.simps, subst (2) kahnLoop.simps) auto
  next
    case (Cons i rest)
    obtain m1 q1 where r: "relaxChildren (mdef [] (childrenMap (wg_Edges g)) i) m rest = (m1, q1)" by fastforce
    have "i \<in> set (node_ids g)" using less(2) Cons by (auto simp: kahn_inv_def)
    then obtain n where n: "find (\<lambda>n. nd_NodeID n = i) (wg_Nodes g) = Some n" "n \<in> set (wg_Nodes g)" "nd_NodeID n = i"
      by (metis find_node)
    have step: "kahnLoop g m q ordered = kahnLoop g m1 q1 (ordered @ [n])"
      by (subst kahnLoop.simps) (simp add: Cons r n)
    have "kahn_inv g (map nd_NodeID (ordered @ [n])) m1 q1"
      using kahn_step [OF assms(1) _ r] less(2) Cons n(3) by simp
    moreover have "length q1 + pendingDegree m1 < length q + pendingDegree m"
      using relaxChildren_measure [OF r] Cons by simp
    ultimately show ?thesis using less(1) less(3) n(2) unfolding step by simp
  qed
qed

lemma wf_all_ordered:
  assumes "graph_ok g" "kahn_inv g out m []"
  shows "set out = set (node_ids g)"
proof (rule ccontr)
  let ?E = "edge_rel (wg_Edges g)" and ?R = "set (node_ids g) - set out"
  assume "set out \<noteq> set (node_ids g)"
  then have "?R \<noteq> {}" using assms(2) by (auto simp: kahn_inv_def)
  moreover have "wf ?E" using assms(1) by (simp add: graph_ok_def finite_acyclic_wf finite_edge_rel)
  ultimately obtain x where x: "x \<in> ?R" "\<And>y. (y, x) \<in> ?E \<Longrightarrow> y \<notin> ?R" by (metis wfE_min')
  then have "mdef 0 m x \<noteq> 0" using assms(2) unfolding kahn_inv_def by auto
  then have "filter (\<lambda>e. ed_To e = x \<and> ed_From e \<notin> set out) (wg_Edges g) \<noteq> []" using assms(2) by (auto simp: kahn_inv_def)
  then obtain e where e: "e \<in> set (wg_Edges g)" "ed_To e = x" "ed_From e \<notin> set out" by (auto simp: filter_empty_conv)
  then have "(ed_From e, x) \<in> ?E" by (auto simp: edge_rel_def)
  with x(2) e(3) assms(1) show False by (auto simp: graph_ok_def)
qed

text \<open>C18. \<open>TopologicalOrder\<close> succeeds on every graph \<open>Validate\<close> accepts, in whatever order Go visits
  its map: the result is an arrangement of all the nodes in which each comes after all its
  parents.\<close>

theorem topological_order_correct:
  assumes "Graph_Validate g = None" "mset order = mset (mkeys (initDegrees g))"
  shows "\<exists>ns. TopologicalOrder order g = Inr ns \<and> mset ns = mset (wg_Nodes g) \<and>
    (\<forall>i < length ns. \<forall>e \<in> set (wg_Edges g). ed_To e = nd_NodeID (ns ! i) \<longrightarrow>
       (\<exists>j < i. nd_NodeID (ns ! j) = ed_From e))"
proof -
  let ?m = "initDegrees g" and ?q = "filter (\<lambda>i. mdef 0 (initDegrees g) i = 0) order"
  have g: "graph_ok g" using assms(1) Graph_Validate_iff by blast
  have ord: "set order = set (node_ids g)" "distinct order"
  proof -
    have "set order = dom (mget ?m)" using assms(2) by (metis mset_eq_setD set_mkeys)
    then show "set order = set (node_ids g)" using g by (auto simp: initDegrees_keys graph_ok_def edge_rel_def)
    have "distinct (mkeys ?m)" using initDegrees_keys(2) [of g] by (simp add: mwf_def mkeys_def)
    with assms(2) show "distinct order" by (metis mset_eq_imp_distinct_iff)
  qed
  have "parents_before (wg_Edges g) ?q"
    by (auto simp: parents_before_def initDegrees_get filter_empty_conv dest!: nth_mem)
  then have "kahn_inv g (map nd_NodeID []) ?m ?q" using ord by (auto simp: kahn_inv_def initDegrees_get)
  from kahnLoop_ok [OF g this] obtain m' where k: "kahn_inv g (map nd_NodeID (kahnLoop g ?m ?q [])) m' []"
    "set (kahnLoop g ?m ?q []) \<subseteq> set (wg_Nodes g)" by auto
  let ?ns = "kahnLoop g ?m ?q []"
  have all: "set (map nd_NodeID ?ns) = set (node_ids g)" using wf_all_ordered [OF g k(1)] by simp
  have inj: "inj_on nd_NodeID (set (wg_Nodes g))" "distinct (wg_Nodes g)" using g by (auto simp: graph_ok_def distinct_map)
  have "distinct ?ns" using k(1) by (auto simp: kahn_inv_def distinct_map)
  moreover have "set ?ns = set (wg_Nodes g)" using all inj_on_image_eq_iff [OF inj(1) k(2) subset_refl] by simp
  ultimately have perm: "mset ?ns = mset (wg_Nodes g)" using inj(2) by (simp add: set_eq_iff_mset_eq_distinct)
  then have "length ?ns = length (wg_Nodes g)" by (rule mset_eq_length)
  then have "TopologicalOrder order g = Inr ?ns" by (simp add: TopologicalOrder_def Let_def)
  moreover have "\<exists>j < i. nd_NodeID (?ns ! j) = ed_From e" if "i < length ?ns" "e \<in> set (wg_Edges g)" "ed_To e = nd_NodeID (?ns ! i)" for i e
  proof -
    have "parents_before (wg_Edges g) (map nd_NodeID ?ns)" using k(1) by (simp add: kahn_inv_def)
    then have "ed_From e \<in> set (take i (map nd_NodeID ?ns))" using that by (simp add: parents_before_def)
    then show ?thesis using that(1) by (auto simp: in_set_conv_nth)
  qed
  ultimately show ?thesis using perm by blast
qed


section \<open>Breadth-first search finds the downstream nodes\<close>

lemma downstreamLoop_spec:
  assumes "\<forall>x \<in> out. \<forall>y. (x, y) \<in> ch_rel ch \<longrightarrow> y \<in> out \<union> set q"
  shows "out \<union> set q \<subseteq> downstreamLoop ch q out \<and> downstreamLoop ch q out \<subseteq> out \<union> (ch_rel ch)\<^sup>* `` set q \<and>
    (\<forall>x y. x \<in> downstreamLoop ch q out \<longrightarrow> (x, y) \<in> ch_rel ch \<longrightarrow> y \<in> downstreamLoop ch q out)"
  using assms
proof (induction ch q out rule: downstreamLoop.induct)
  case (1 ch q out)
  show ?case
  proof (cases q)
    case Nil
    with 1(3) show ?thesis by (auto simp: downstreamLoop.simps)
  next
    case (Cons n rest)
    show ?thesis
    proof (cases "n \<in> out")
      case True
      have step: "downstreamLoop ch q out = downstreamLoop ch rest out"
        using Cons True by (subst downstreamLoop.simps) simp
      have "\<forall>x \<in> out. \<forall>y. (x, y) \<in> ch_rel ch \<longrightarrow> y \<in> out \<union> set rest" using 1(3) True Cons by fastforce
      note ih = 1(1) [OF Cons True this]
      show ?thesis using ih True Cons unfolding step by auto
    next
      case False
      let ?q = "rest @ mdef [] ch n"
      have step: "downstreamLoop ch q out = downstreamLoop ch ?q (insert n out)"
        using Cons False by (subst downstreamLoop.simps) simp
      have kids: "y \<in> set (mdef [] ch n) \<longleftrightarrow> (n, y) \<in> ch_rel ch" for y by (simp add: ch_rel_def)
      have "\<forall>x \<in> insert n out. \<forall>y. (x, y) \<in> ch_rel ch \<longrightarrow> y \<in> insert n out \<union> set ?q"
        using 1(3) Cons kids by fastforce
      note ih = 1(2) [OF Cons False this]
      have "(ch_rel ch)\<^sup>* `` set ?q \<subseteq> (ch_rel ch)\<^sup>* `` set q"
        using kids Cons by (auto intro: converse_rtrancl_into_rtrancl)
      moreover have "n \<in> (ch_rel ch)\<^sup>* `` set q" using Cons by auto
      ultimately have "insert n out \<union> (ch_rel ch)\<^sup>* `` set ?q \<subseteq> out \<union> (ch_rel ch)\<^sup>* `` set q" by blast
      moreover have "out \<union> set q \<subseteq> insert n out \<union> set ?q" using Cons by auto
      ultimately show ?thesis using ih unfolding step by (meson order_trans)
    qed
  qed
qed

text \<open>\<open>downstreamNodes\<close>, the part of a workflow a replay runs again, is exactly the set of nodes
  reachable from the given step, itself included.\<close>

lemma downstream_exact: "downstreamNodes g n = {x. (n, x) \<in> (edge_rel (wg_Edges g))\<^sup>*}"
proof -
  let ?ch = "childrenMap (wg_Edges g)" and ?R = "downstreamLoop (childrenMap (wg_Edges g)) [n] {}"
  have E: "ch_rel ?ch = edge_rel (wg_Edges g)" by (auto simp: ch_rel_def children_edge)
  have spec: "n \<in> ?R" "?R \<subseteq> (edge_rel (wg_Edges g))\<^sup>* `` {n}"
    "\<And>x y. x \<in> ?R \<Longrightarrow> (x, y) \<in> edge_rel (wg_Edges g) \<Longrightarrow> y \<in> ?R"
    using downstreamLoop_spec [of "{}" ?ch "[n]"] by (auto simp: E)
  have "x \<in> ?R" if "(n, x) \<in> (edge_rel (wg_Edges g))\<^sup>*" for x
    using that by (induction rule: rtrancl_induct) (use spec in auto)
  with spec(2) show ?thesis by (auto simp: downstreamNodes_def)
qed

section \<open>Specifications\<close>

text \<open>\<open>json.Unmarshal\<close> into the specification types.  A key matches a field if it equals its name
  up to case; the last match counts; \<open>null\<close> leaves a string, number, list or structure as it
  is and clears a pointer; a value of another kind is an error; other keys are ignored.\<close>

fun dec_string :: "json \<Rightarrow> string \<Rightarrow> engineError + string" where
  "dec_string (JText s) cur = Inr s"
| "dec_string JNull cur = Inr cur"
| "dec_string _ cur = Inl (EText ''json: cannot unmarshal into string'')"

fun dec_int :: "json \<Rightarrow> int \<Rightarrow> engineError + int" where
  "dec_int (JInt i) cur = (if minInt64 \<le> i \<and> i \<le> maxInt64 then Inr i else Inl (EText ''json: cannot unmarshal number into int''))"
| "dec_int JNull cur = Inr cur"
| "dec_int _ cur = Inl (EText ''json: cannot unmarshal into int'')"

fun dec_strings :: "json list \<Rightarrow> engineError + string list" where
  "dec_strings [] = Inr []"
| "dec_strings (x # xs) =
     (case dec_string x '''' of
        Inl e \<Rightarrow> Inl e
      | Inr s \<Rightarrow> (case dec_strings xs of Inl e \<Rightarrow> Inl e | Inr ss \<Rightarrow> Inr (s # ss)))"

fun dec_fields :: "(string \<Rightarrow> json \<Rightarrow> 'a \<Rightarrow> engineError + 'a) \<Rightarrow> (string \<times> json) list \<Rightarrow> 'a \<Rightarrow> engineError + 'a" where
  "dec_fields f [] cur = Inr cur"
| "dec_fields f ((k, v) # kvs) cur = (case f (ToLower k) v cur of Inl e \<Rightarrow> Inl e | Inr cur1 \<Rightarrow> dec_fields f kvs cur1)"

fun dec_object :: "(string \<Rightarrow> json \<Rightarrow> 'a \<Rightarrow> engineError + 'a) \<Rightarrow> json \<Rightarrow> 'a \<Rightarrow> engineError + 'a" where
  "dec_object f (JObj kvs) cur = dec_fields f kvs cur"
| "dec_object f JNull cur = Inr cur"
| "dec_object f _ cur = Inl (EText ''json: cannot unmarshal into struct'')"

definition with_res :: "('a \<Rightarrow> 'b) \<Rightarrow> engineError + 'a \<Rightarrow> engineError + 'b" where
  "with_res f r = (case r of Inl e \<Rightarrow> Inl e | Inr x \<Rightarrow> Inr (f x))"

definition dec_retry :: "string \<Rightarrow> json \<Rightarrow> int \<Rightarrow> engineError + int" where
  "dec_retry k v cur = (if k = ''max_attempts'' then dec_int v cur else Inr cur)"

definition dec_human :: "string \<Rightarrow> json \<Rightarrow> humanStepSpec \<Rightarrow> engineError + humanStepSpec" where
  "dec_human k v h =
     (if k = ''mode'' then with_res (\<lambda>s. h\<lparr>hs_Mode := s\<rparr>) (dec_string v (hs_Mode h))
      else if k = ''prompt'' then with_res (\<lambda>s. h\<lparr>hs_Prompt := s\<rparr>) (dec_string v (hs_Prompt h))
      else if k = ''timeout_ms'' then with_res (\<lambda>s. h\<lparr>hs_TimeoutMS := s\<rparr>) (dec_int v (hs_TimeoutMS h))
      else if k = ''on_timeout'' then with_res (\<lambda>s. h\<lparr>hs_OnTimeout := s\<rparr>) (dec_string v (hs_OnTimeout h))
      else Inr h)"

definition zeroHuman :: humanStepSpec where
  "zeroHuman = \<lparr>hs_Mode = '''', hs_Prompt = '''', hs_TimeoutMS = 0, hs_OnTimeout = ''''\<rparr>"

definition dec_node :: "string \<Rightarrow> json \<Rightarrow> nodeSpec \<Rightarrow> engineError + nodeSpec" where
  "dec_node k v n =
     (if k = ''id'' then with_res (\<lambda>s. n\<lparr>nsp_ID := s\<rparr>) (dec_string v (nsp_ID n))
      else if k = ''topic'' then with_res (\<lambda>s. n\<lparr>nsp_Topic := s\<rparr>) (dec_string v (nsp_Topic n))
      else if k = ''capability'' then with_res (\<lambda>s. n\<lparr>nsp_Capability := s\<rparr>) (dec_string v (nsp_Capability n))
      else if k = ''human'' then
        (if v = JNull then Inr (n\<lparr>nsp_Human := None\<rparr>)
         else with_res (\<lambda>h. n\<lparr>nsp_Human := Some h\<rparr>) (dec_object dec_human v (case nsp_Human n of Some h \<Rightarrow> h | None \<Rightarrow> zeroHuman)))
      else if k = ''deps'' then
        (case v of
           JArr xs \<Rightarrow> with_res (\<lambda>ds. n\<lparr>nsp_Deps := ds\<rparr>) (dec_strings xs)
         | JNull \<Rightarrow> Inr (n\<lparr>nsp_Deps := []\<rparr>)
         | _ \<Rightarrow> Inl (EText ''json: cannot unmarshal into []string''))
      else if k = ''input_schema'' then Inr (n\<lparr>nsp_Input := v\<rparr>)
      else if k = ''output_schema'' then Inr (n\<lparr>nsp_Output := v\<rparr>)
      else if k = ''retry'' then with_res (\<lambda>i. n\<lparr>nsp_MaxAttempts := i\<rparr>) (dec_object dec_retry v (nsp_MaxAttempts n))
      else Inr n)"

definition zeroNode :: nodeSpec where
  "zeroNode = \<lparr>nsp_ID = '''', nsp_Topic = '''', nsp_Capability = '''', nsp_Human = None, nsp_Deps = [], nsp_Input = JNil,
     nsp_Output = JNil, nsp_MaxAttempts = 0\<rparr>"

fun dec_nodes :: "json list \<Rightarrow> engineError + nodeSpec list" where
  "dec_nodes [] = Inr []"
| "dec_nodes (x # xs) =
     (case dec_object dec_node x zeroNode of
        Inl e \<Rightarrow> Inl e
      | Inr n \<Rightarrow> (case dec_nodes xs of Inl e \<Rightarrow> Inl e | Inr ns \<Rightarrow> Inr (n # ns)))"

definition dec_spec :: "string \<Rightarrow> json \<Rightarrow> workflowSpec \<Rightarrow> engineError + workflowSpec" where
  "dec_spec k v s =
     (if k = ''id'' then with_res (\<lambda>x. s\<lparr>ws_ID := x\<rparr>) (dec_string v (ws_ID s))
      else if k = ''nodes'' then
        (case v of
           JArr xs \<Rightarrow> with_res (\<lambda>ns. s\<lparr>ws_Nodes := ns\<rparr>) (dec_nodes xs)
         | JNull \<Rightarrow> Inr (s\<lparr>ws_Nodes := []\<rparr>)
         | _ \<Rightarrow> Inl (EText ''json: cannot unmarshal into []NodeSpec''))
      else Inr s)"

definition unmarshalSpec :: "json \<Rightarrow> engineError + workflowSpec" where
  "unmarshalSpec j =
     (if \<not> json_ok j \<or> j = JNil then Inl (EText ''invalid JSON'')
      else dec_object dec_spec j \<lparr>ws_ID = '''', ws_Nodes = []\<rparr>)"

definition plainNode :: "string \<Rightarrow> 'f nodeDef" where
  "plainNode i = \<lparr>nd_NodeID = i, nd_Topic = '''', nd_RequiredCapability = '''', nd_Human = None, nd_InputSchema = JNil,
     nd_OutputSchema = JNil, nd_Run = None, nd_TimeoutMS = 0\<rparr>"

fun buildGraph :: "nodeSpec list \<Rightarrow> string set \<Rightarrow> 'f workflowGraph \<Rightarrow> engineError + 'f workflowGraph" where
  "buildGraph [] seen g = Inr g"
| "buildGraph (ns # rest) seen g =
     (if nsp_ID ns = '''' then Inl (EText ''node id is required'')
      else if nsp_ID ns \<in> seen then Inl (EText (''duplicate node id: '' @ nsp_ID ns))
      else buildGraph rest (insert (nsp_ID ns) seen)
             (g\<lparr>wg_Nodes := wg_Nodes g @ [plainNode (nsp_ID ns)],
                wg_Edges := wg_Edges g @ map (\<lambda>dep. \<lparr>ed_From = dep, ed_To = nsp_ID ns\<rparr>) (nsp_Deps ns)\<rparr>))"

definition ParseWorkflowSpecJSON :: "json \<Rightarrow> engineError + ('f workflowGraph \<times> workflowSpec)" where
  "ParseWorkflowSpecJSON b =
     (case unmarshalSpec b of
        Inl err \<Rightarrow> Inl err
      | Inr spec \<Rightarrow>
          if ws_ID spec = '''' then Inl (EText ''spec id is required'')
          else if ws_Nodes spec = [] then Inl (EText ''spec must have nodes'')
          else (case buildGraph (ws_Nodes spec) {} \<lparr>wg_ID = ws_ID spec, wg_Nodes = [], wg_Edges = [], wg_TimeoutMS = 0\<rparr> of
                  Inl err \<Rightarrow> Inl err
                | Inr g \<Rightarrow> (case Graph_Validate g of Some err \<Rightarrow> Inl err | None \<Rightarrow> Inr (g, spec))))"


section \<open>Handlers and compilation\<close>

record 'f handlerRegistry =
  hr_byTopic :: "(string, 'f) gomap"

definition NewHandlerRegistry :: "'f handlerRegistry" where
  "NewHandlerRegistry = \<lparr>hr_byTopic = []\<rparr>"

definition Register :: "string \<Rightarrow> 'f option \<Rightarrow> 'f handlerRegistry \<Rightarrow> 'f handlerRegistry" where
  "Register topic fn r =
     (case fn of
        None \<Rightarrow> r
      | Some f \<Rightarrow> if topic = '''' then r else r\<lparr>hr_byTopic := mput topic f (hr_byTopic r)\<rparr>)"

definition Lookup :: "'f handlerRegistry \<Rightarrow> string \<Rightarrow> 'f option" where
  "Lookup r topic = mget (hr_byTopic r) topic"

definition NormalizeAndValidate :: "humanStepSpec \<Rightarrow> engineError + humanStepSpec" where
  "NormalizeAndValidate s0 =
     (let s1 = s0\<lparr>hs_Mode := TrimSpace (hs_Mode s0), hs_Prompt := TrimSpace (hs_Prompt s0), hs_OnTimeout := TrimSpace (hs_OnTimeout s0)\<rparr>;
          s2 = (if hs_Mode s1 = '''' then s1\<lparr>hs_Mode := ''approval''\<rparr> else s1)
      in if hs_Mode s2 \<notin> {''approval'', ''edit''} then Inl (EText (''invalid human step mode '' @ hs_Mode s2))
         else
           let s3 = (if hs_OnTimeout s2 = '''' then s2\<lparr>hs_OnTimeout := ''reject''\<rparr> else s2)
           in if hs_OnTimeout s3 \<notin> {''reject'', ''approve'', ''cancel''} then Inl (EText (''invalid human on_timeout '' @ hs_OnTimeout s3))
              else Inr (if hs_TimeoutMS s3 < 0 then s3\<lparr>hs_TimeoutMS := 0\<rparr> else s3))"

text \<open>The maps \<open>topicByNode\<close> and so on hold, for a node id, the entry of the last specification
  with that id.\<close>

definition specOf :: "workflowSpec \<Rightarrow> string \<Rightarrow> nodeSpec" where
  "specOf spec i = (case find (\<lambda>n. nsp_ID n = i) (rev (ws_Nodes spec)) of Some n \<Rightarrow> n | None \<Rightarrow> zeroNode)"

definition compileNode :: "workflowSpec \<Rightarrow> 'f handlerRegistry \<Rightarrow> 'f nodeDef \<Rightarrow> engineError + 'f nodeDef" where
  "compileNode spec reg nd =
     (let i = nd_NodeID nd; sp = specOf spec i; topic = nsp_Topic sp in
      if topic = '''' \<and> nsp_Human sp = None then Inl (EText (''node '' @ i @ '' missing topic''))
      else
        case (case nsp_Human sp of None \<Rightarrow> Inr None | Some h \<Rightarrow> with_res Some (NormalizeAndValidate h)) of
          Inl err \<Rightarrow> Inl (EWrap (''node '' @ i @ '' invalid human config'') err)
        | Inr human \<Rightarrow>
            if topic \<noteq> '''' \<and> Lookup reg topic = None
            then Inl (EText (''no handler registered for topic '' @ topic @ '' (node '' @ i @ '')''))
            else Inr \<lparr>nd_NodeID = i, nd_Topic = topic, nd_RequiredCapability = TrimSpace (nsp_Capability sp), nd_Human = human,
                      nd_InputSchema = nsp_Input sp, nd_OutputSchema = nsp_Output sp,
                      nd_Run = (if topic = '''' then None else Lookup reg topic), nd_TimeoutMS = 0\<rparr>)"

fun compileNodes :: "workflowSpec \<Rightarrow> 'f handlerRegistry \<Rightarrow> 'f nodeDef list \<Rightarrow> engineError + 'f nodeDef list" where
  "compileNodes spec reg [] = Inr []"
| "compileNodes spec reg (nd # nds) =
     (case compileNode spec reg nd of
        Inl err \<Rightarrow> Inl err
      | Inr n \<Rightarrow> (case compileNodes spec reg nds of Inl err \<Rightarrow> Inl err | Inr ns \<Rightarrow> Inr (n # ns)))"

definition CompileSpecToExecutable ::
  "workflowSpec \<Rightarrow> 'f workflowGraph \<Rightarrow> 'f handlerRegistry option \<Rightarrow> engineError + 'f workflowGraph" where
  "CompileSpecToExecutable spec g reg0 =
     (case reg0 of
        None \<Rightarrow> Inl (EText ''handler registry is required'')
      | Some reg \<Rightarrow>
          (case compileNodes spec reg (wg_Nodes g) of
             Inl err \<Rightarrow> Inl err
           | Inr ns \<Rightarrow>
               let out = \<lparr>wg_ID = wg_ID g, wg_Nodes = ns, wg_Edges = wg_Edges g, wg_TimeoutMS = 0\<rparr> in
               (case Graph_Validate out of Some err \<Rightarrow> Inl err | None \<Rightarrow> Inr out)))"

lemma buildGraph_ok:
  "buildGraph ns seen g = Inr g' \<Longrightarrow>
     wg_Nodes g' = wg_Nodes g @ map (\<lambda>n. plainNode (nsp_ID n)) ns \<and>
     wg_Edges g' = wg_Edges g @ concat (map (\<lambda>n. map (\<lambda>d. \<lparr>ed_From = d, ed_To = nsp_ID n\<rparr>) (nsp_Deps n)) ns)"
  by (induction ns seen g rule: buildGraph.induct) (auto split: if_splits)

lemma spec_edges:
  "edge_rel (concat (map (\<lambda>n. map (\<lambda>d. \<lparr>ed_From = d, ed_To = nsp_ID n\<rparr>) (nsp_Deps n)) ns)) =
     {(d, nsp_ID n) | d n. n \<in> set ns \<and> d \<in> set (nsp_Deps n)}"
proof (induction ns)
  case (Cons n ns)
  have "edge_rel (xs @ ys) = edge_rel xs \<union> edge_rel ys" for xs ys by (auto simp: edge_rel_def)
  moreover have "edge_rel (map (\<lambda>d. \<lparr>ed_From = d, ed_To = i\<rparr>) ds) = {(d, i) | d. d \<in> set ds}" for ds i
    by (auto simp: edge_rel_def) (metis image_eqI nodeEdge.select_convs(1,2))
  ultimately show ?case using Cons by auto
qed (simp add: edge_rel_def)

lemma compileNode_ok:
  assumes "compileNode spec reg nd = Inr n"
  shows "nd_NodeID n = nd_NodeID nd"
    "nd_Topic n = nsp_Topic (specOf spec (nd_NodeID nd))"
    "nd_Topic n \<noteq> '''' \<longrightarrow> nd_Run n = Lookup reg (nd_Topic n) \<and> nd_Run n \<noteq> None"
    "nd_Topic n = '''' \<longrightarrow> nd_Human n \<noteq> None"
  using assms by (auto simp: compileNode_def Let_def with_res_def split: sum.splits if_splits option.splits)

lemma compileNodes_ok:
  "compileNodes spec reg nds = Inr ns \<Longrightarrow>
     map nd_NodeID ns = map nd_NodeID nds \<and> list_all2 (\<lambda>nd n. compileNode spec reg nd = Inr n) nds ns"
  by (induction nds arbitrary: ns) (auto simp: compileNode_ok(1) split: sum.splits)

text \<open>C19. From specification to executable graph: when parsing and compiling succeed, the executable
  graph has the specification's nodes in order, an edge for each dependency, is acyclic and
  well formed, and every node has the handler its topic names or waits for a human.\<close>

theorem compiled_graph_executable:
  assumes "ParseWorkflowSpecJSON b = Inr (g, spec)" "CompileSpecToExecutable spec g (Some reg) = Inr x"
  shows "node_ids x = map nsp_ID (ws_Nodes spec) \<and>
    edge_rel (wg_Edges x) = {(d, nsp_ID n) | d n. n \<in> set (ws_Nodes spec) \<and> d \<in> set (nsp_Deps n)} \<and>
    graph_ok x \<and>
    (\<forall>n \<in> set (wg_Nodes x). if nd_Topic n = '''' then nd_Human n \<noteq> None else nd_Run n = Lookup reg (nd_Topic n) \<and> nd_Run n \<noteq> None)"
proof -
  obtain g0 where g0: "buildGraph (ws_Nodes spec) {} \<lparr>wg_ID = ws_ID spec, wg_Nodes = [], wg_Edges = [], wg_TimeoutMS = 0\<rparr> = Inr g"
    using assms(1) by (auto simp: ParseWorkflowSpecJSON_def split: sum.splits if_splits option.splits)
  from buildGraph_ok [OF g0] have g: "node_ids g = map nsp_ID (ws_Nodes spec)"
    "edge_rel (wg_Edges g) = {(d, nsp_ID n) | d n. n \<in> set (ws_Nodes spec) \<and> d \<in> set (nsp_Deps n)}"
    by (simp_all add: plainNode_def spec_edges comp_def)
  from assms(2) have c: "compileNodes spec reg (wg_Nodes g) = Inr (wg_Nodes x)" "wg_Edges x = wg_Edges g" "Graph_Validate x = None"
    by (auto simp: CompileSpecToExecutable_def Let_def split: sum.splits option.splits)
  note cn = compileNodes_ok [OF c(1)]
  have "if nd_Topic n = '''' then nd_Human n \<noteq> None else nd_Run n = Lookup reg (nd_Topic n) \<and> nd_Run n \<noteq> None"
    if "n \<in> set (wg_Nodes x)" for n
  proof -
    obtain i where i: "i < length (wg_Nodes x)" "wg_Nodes x ! i = n" using \<open>n \<in> set (wg_Nodes x)\<close> by (auto simp: in_set_conv_nth)
    with cn have "compileNode spec reg (wg_Nodes g ! i) = Inr n" by (auto simp: list_all2_conv_all_nth)
    from compileNode_ok(3,4) [OF this] show ?thesis by (simp only: if_bool_eq_conj)
  qed
  moreover have "graph_ok x" using c(3) Graph_Validate_iff by blast
  moreover have "node_ids x = map nsp_ID (ws_Nodes spec)" using cn g(1) by simp
  ultimately show ?thesis using g(2) c(2) by metis
qed


section \<open>Examples\<close>

definition example_spec :: json where
  "example_spec = JObj [(''id'', JText ''wf''), (''nodes'', JArr
     [JObj [(''id'', JText ''c''), (''topic'', JText ''t''), (''deps'', JArr [JText ''a'', JText ''b''])],
      JObj [(''id'', JText ''a''), (''topic'', JText ''t'')],
      JObj [(''id'', JText ''b''), (''human'', JObj [(''prompt'', JText ''ok?'')]), (''deps'', JArr [JText ''a''])]])]"

definition example_registry :: "nat handlerRegistry" where
  "example_registry = Register ''t'' (Some 7) NewHandlerRegistry"

definition example_parsed :: "nat workflowGraph \<times> workflowSpec" where
  "example_parsed = projr (ParseWorkflowSpecJSON example_spec)"

definition example_graph :: "nat workflowGraph" where
  "example_graph = projr (CompileSpecToExecutable (snd example_parsed) (fst example_parsed) (Some example_registry))"

lemma example_parses: "ParseWorkflowSpecJSON example_spec = Inr (fst example_parsed, snd example_parsed)"
  by code_simp

lemma example_compiles: "CompileSpecToExecutable (snd example_parsed) (fst example_parsed) (Some example_registry) = Inr example_graph"
  by code_simp

theorem compiled_graph_executable_witness: "graph_ok example_graph \<and> node_ids example_graph = [''c'', ''a'', ''b'']"
proof
  show "graph_ok example_graph" using compiled_graph_executable [OF example_parses example_compiles] by blast
qed code_simp

theorem topological_order_correct_witness:
  "\<exists>ns. TopologicalOrder [''b'', ''a'', ''c''] example_graph = Inr ns \<and> mset ns = mset (wg_Nodes example_graph)"
proof -
  have "Graph_Validate example_graph = None" by code_simp
  moreover have "mset [''b'', ''a'', ''c''] = mset (mkeys (initDegrees example_graph))" by code_simp
  ultimately show ?thesis using topological_order_correct by blast
qed

end
