(* ===== verification/Authz.thy ===== *)
theory Authz
  imports Patterns EngineDocs WorkflowDag
begin

text \<open>
  Authorization, \<^verbatim>\<open>internal/engine/authz.go\<close>: principals and policy rules with their
  normalisation, the evaluation of one request against a policy bundle and of a whole workflow.
  The policy in force (\<open>SaveAuthorizationPolicy\<close>, \<open>GetAuthorizationPolicy\<close>) and \<open>authorizeWorkflow\<close>,
  which touch the store, are in theory \<open>Gates\<close>.

  \<open>permits\<close> says when a request is to be allowed, without the code's lists and texts:
  the principal's tenant scopes cover the tenant, it has the required capability, no deny rule
  applies, and where the policy has allow rules for the action, one of them applies.
\<close>

abbreviation PolicyEffectAllow :: string where "PolicyEffectAllow \<equiv> ''allow''"
abbreviation PolicyEffectDeny :: string where "PolicyEffectDeny \<equiv> ''deny''"
abbreviation PolicyActionRunStart :: string where "PolicyActionRunStart \<equiv> ''run_start''"
abbreviation PolicyActionToolExecute :: string where "PolicyActionToolExecute \<equiv> ''tool_execute''"
abbreviation PolicyModeEnforce :: string where "PolicyModeEnforce \<equiv> ''enforce''"

section \<open>Data\<close>

record authorizationRequest =
  aq_Action :: string
  aq_RunID :: string
  aq_TenantID :: string
  aq_WorkflowID :: string
  aq_NodeID :: string
  aq_Tool :: string
  aq_RequiredCapability :: string
  aq_Principal :: principal

record authorizationCheck =
  ac_Action :: string
  ac_Allowed :: bool
  ac_RunID :: string
  ac_TenantID :: string
  ac_WorkflowID :: string
  ac_NodeID :: string
  ac_Tool :: string
  ac_RequiredCapability :: string
  ac_Reason :: string
  ac_MatchedAllowRules :: "string list"
  ac_MatchedDenyRules :: "string list"
  ac_BuiltinDenials :: "string list"

record workflowAuthorizationReport =
  wr_Allowed :: bool
  wr_Mode :: string
  wr_RunID :: string
  wr_TenantID :: string
  wr_WorkflowID :: string
  wr_Reason :: string
  wr_Principal :: principal
  wr_Checks :: "authorizationCheck list"

text \<open>\<^verbatim>\<open>%q\<close> on text without quotes and control characters, and \<open>strings.Join\<close>.\<close>

definition quoted :: "string \<Rightarrow> string" where
  "quoted s = [CHR 0x22] @ s @ [CHR 0x22]"

fun strings_Join :: "string list \<Rightarrow> string \<Rightarrow> string" where
  "strings_Join [] sep = ''''"
| "strings_Join [s] sep = s"
| "strings_Join (s # t # ts) sep = s @ sep @ strings_Join (t # ts) sep"

section \<open>Normalisation\<close>

text \<open>The attributes are rebuilt with trimmed keys; where two keys become equal, the one the map
  iteration meets last stays.\<close>

fun trimAttributes :: "(string, string) gomap \<Rightarrow> (string, string) gomap \<Rightarrow> (string, string) gomap" where
  "trimAttributes [] out = out"
| "trimAttributes ((k, v) # kvs) out =
     (if TrimSpace k = '''' then trimAttributes kvs out else trimAttributes kvs (mput (TrimSpace k) (TrimSpace v) out))"

definition Principal_Normalize :: "principal \<Rightarrow> principal" where
  "Principal_Normalize p =
     (let tenantID = TrimSpace (pr_TenantID p); scopes = normalizeStrings (pr_TenantScopes p) in
      \<lparr>pr_ID = TrimSpace (pr_ID p), pr_Type = TrimSpace (pr_Type p), pr_TenantID = tenantID,
       pr_TenantScopes = (if tenantID \<noteq> '''' \<and> scopes = [] then [tenantID] else scopes),
       pr_Roles = normalizeStrings (pr_Roles p), pr_Capabilities = normalizeStrings (pr_Capabilities p),
       pr_Attributes = trimAttributes (pr_Attributes p) []\<rparr>)"

definition normalizePolicyActions :: "string list \<Rightarrow> string list" where
  "normalizePolicyActions values = sort (keepNew [] values)"

definition Rule_NormalizeAndValidate :: "authorizationRule \<Rightarrow> engineError + authorizationRule" where
  "Rule_NormalizeAndValidate r0 =
     (let r = \<lparr>ar_ID = TrimSpace (ar_ID r0), ar_Description = TrimSpace (ar_Description r0), ar_Effect = ar_Effect r0,
               ar_Actions = normalizePolicyActions (ar_Actions r0), ar_PrincipalIDs = normalizeStrings (ar_PrincipalIDs r0),
               ar_Roles = normalizeStrings (ar_Roles r0), ar_PrincipalCapabilities = normalizeStrings (ar_PrincipalCapabilities r0),
               ar_Tenants = normalizeStrings (ar_Tenants r0), ar_Workflows = normalizeStrings (ar_Workflows r0),
               ar_Tools = normalizeStrings (ar_Tools r0), ar_NodeIDs = normalizeStrings (ar_NodeIDs r0),
               ar_RequiredCapabilities = normalizeStrings (ar_RequiredCapabilities r0)\<rparr>
      in if ar_ID r = '''' then Inl (EText ''authorization rule id is required'')
         else if ar_Effect r = PolicyEffectAllow \<or> ar_Effect r = PolicyEffectDeny then Inr r
         else Inl (EText (''authorization rule '' @ quoted (ar_ID r) @ '' has invalid effect '' @ quoted (ar_Effect r))))"

fun validateRules :: "string list \<Rightarrow> authorizationRule list \<Rightarrow> engineError + authorizationRule list" where
  "validateRules seen [] = Inr []"
| "validateRules seen (r0 # rs) =
     (case Rule_NormalizeAndValidate r0 of
        Inl err \<Rightarrow> Inl err
      | Inr r \<Rightarrow>
          if ar_ID r \<in> set seen then Inl (EText (''duplicate authorization rule id '' @ quoted (ar_ID r)))
          else (case validateRules (ar_ID r # seen) rs of Inl err \<Rightarrow> Inl err | Inr out \<Rightarrow> Inr (r # out)))"

definition Bundle_NormalizeAndValidate :: "authorizationPolicyBundle \<Rightarrow> engineError + authorizationPolicyBundle" where
  "Bundle_NormalizeAndValidate b =
     (case validateRules [] (ab_Rules b) of
        Inl err \<Rightarrow> Inl err
      | Inr rules \<Rightarrow>
          Inr \<lparr>ab_ID = TrimSpace (ab_ID b), ab_Description = TrimSpace (ab_Description b), ab_UpdatedAt = ab_UpdatedAt b,
               ab_Rules = sort_key ar_ID rules\<rparr>)"

section \<open>Evaluation\<close>

definition hasCapability :: "principal \<Rightarrow> string \<Rightarrow> bool" where
  "hasCapability p capability0 =
     (let capability = TrimSpace capability0 in
      if capability = '''' then False else list_ex (\<lambda>item. item = capability) (pr_Capabilities p))"

definition matchesAction :: "authorizationRule \<Rightarrow> string \<Rightarrow> bool" where
  "matchesAction r act \<longleftrightarrow> ar_Actions r = [] \<or> list_ex (\<lambda>item. item = act) (ar_Actions r)"

definition Rule_matches :: "authorizationRule \<Rightarrow> authorizationRequest \<Rightarrow> bool" where
  "Rule_matches r req =
     (if ar_PrincipalIDs r \<noteq> [] \<and> \<not> matchesAnyPattern (pr_ID (aq_Principal req)) (ar_PrincipalIDs r) then False
      else if ar_Roles r \<noteq> [] \<and> \<not> matchesAnyMember (pr_Roles (aq_Principal req)) (ar_Roles r) then False
      else if ar_PrincipalCapabilities r \<noteq> [] \<and> \<not> matchesAnyMember (pr_Capabilities (aq_Principal req)) (ar_PrincipalCapabilities r) then False
      else if ar_Tenants r \<noteq> [] \<and> \<not> matchesAnyPattern (aq_TenantID req) (ar_Tenants r) then False
      else if ar_Workflows r \<noteq> [] \<and> \<not> matchesAnyPattern (aq_WorkflowID req) (ar_Workflows r) then False
      else if ar_Tools r \<noteq> [] \<and> \<not> matchesAnyPattern (aq_Tool req) (ar_Tools r) then False
      else if ar_NodeIDs r \<noteq> [] \<and> \<not> matchesAnyPattern (aq_NodeID req) (ar_NodeIDs r) then False
      else if ar_RequiredCapabilities r \<noteq> [] \<and> \<not> matchesAnyPattern (aq_RequiredCapability req) (ar_RequiredCapabilities r) then False
      else True)"

definition trimRequest :: "authorizationRequest \<Rightarrow> authorizationRequest" where
  "trimRequest q =
     \<lparr>aq_Action = TrimSpace (aq_Action q), aq_RunID = TrimSpace (aq_RunID q), aq_TenantID = TrimSpace (aq_TenantID q),
      aq_WorkflowID = TrimSpace (aq_WorkflowID q), aq_NodeID = TrimSpace (aq_NodeID q), aq_Tool = TrimSpace (aq_Tool q),
      aq_RequiredCapability = TrimSpace (aq_RequiredCapability q), aq_Principal = Principal_Normalize (aq_Principal q)\<rparr>"

text \<open>The two checks that hold whatever the policy says.\<close>

definition builtinDenials :: "authorizationRequest \<Rightarrow> string list" where
  "builtinDenials req =
     (let scopes = pr_TenantScopes (aq_Principal req);
          inScope = (aq_TenantID req \<noteq> '''' \<and> list_ex (\<lambda>scope. matchPattern (aq_TenantID req) scope) scopes)
      in (if \<not> inScope \<and> aq_TenantID req \<noteq> '''' \<and> scopes \<noteq> []
          then [''principal tenant scope does not include tenant '' @ quoted (aq_TenantID req)] else [])
         @ (if aq_RequiredCapability req \<noteq> '''' \<and> \<not> hasCapability (aq_Principal req) (aq_RequiredCapability req)
            then [''principal lacks required capability '' @ quoted (aq_RequiredCapability req)] else []))"

text \<open>The loop over the rules: whether an allow rule for the action exists, and the identifiers of the
  matching allow and deny rules.\<close>

fun ruleLoop :: "authorizationRequest \<Rightarrow> authorizationRule list \<Rightarrow> bool \<times> string list \<times> string list \<Rightarrow> bool \<times> string list \<times> string list" where
  "ruleLoop req [] acc = acc"
| "ruleLoop req (r # rs) (anyAllow, allows, denies) =
     (if \<not> matchesAction r (aq_Action req) then ruleLoop req rs (anyAllow, allows, denies)
      else
        let anyAllow1 = (anyAllow \<or> ar_Effect r = PolicyEffectAllow) in
        if \<not> Rule_matches r req then ruleLoop req rs (anyAllow1, allows, denies)
        else if ar_Effect r = PolicyEffectAllow then ruleLoop req rs (anyAllow1, allows @ [ar_ID r], denies)
        else if ar_Effect r = PolicyEffectDeny then ruleLoop req rs (anyAllow1, allows, denies @ [ar_ID r])
        else ruleLoop req rs (anyAllow1, allows, denies))"

definition evaluateAuthorization :: "authorizationPolicyBundle \<Rightarrow> authorizationRequest \<Rightarrow> authorizationCheck" where
  "evaluateAuthorization bundle req0 =
     (let req = trimRequest req0; builtins = builtinDenials req in
      case ruleLoop req (ab_Rules bundle) (False, [], []) of (anyAllow, allows, denies) \<Rightarrow>
      let (ok, why) =
        (if builtins \<noteq> [] then (False, strings_Join builtins ''; '')
         else if denies \<noteq> [] then (False, ''denied by policy rule(s): '' @ strings_Join denies '', '')
         else if anyAllow \<and> allows = [] then (False, ''no allow rule matched'')
         else if allows \<noteq> [] then (True, ''allowed by policy rule(s): '' @ strings_Join allows '', '')
         else (True, ''allowed''))
      in \<lparr>ac_Action = aq_Action req, ac_Allowed = ok, ac_RunID = aq_RunID req, ac_TenantID = aq_TenantID req,
          ac_WorkflowID = aq_WorkflowID req, ac_NodeID = aq_NodeID req, ac_Tool = aq_Tool req,
          ac_RequiredCapability = aq_RequiredCapability req, ac_Reason = why, ac_MatchedAllowRules = allows,
          ac_MatchedDenyRules = denies, ac_BuiltinDenials = builtins\<rparr>)"

text \<open>\<open>EvaluateWorkflowAuthorization\<close>, given the policy in force: the start of the run, then every node
  that names a topic or requires a capability.\<close>

definition nodeRequest :: "string \<Rightarrow> string \<Rightarrow> string \<Rightarrow> principal \<Rightarrow> 'f nodeDef \<Rightarrow> authorizationRequest" where
  "nodeRequest runID tenantID workflowID p node =
     \<lparr>aq_Action = PolicyActionToolExecute, aq_RunID = runID, aq_TenantID = tenantID, aq_WorkflowID = workflowID,
      aq_NodeID = nd_NodeID node, aq_Tool = nd_Topic node, aq_RequiredCapability = nd_RequiredCapability node, aq_Principal = p\<rparr>"

definition startRequest :: "string \<Rightarrow> string \<Rightarrow> string \<Rightarrow> principal \<Rightarrow> authorizationRequest" where
  "startRequest runID tenantID workflowID p =
     \<lparr>aq_Action = PolicyActionRunStart, aq_RunID = runID, aq_TenantID = tenantID, aq_WorkflowID = workflowID,
      aq_NodeID = '''', aq_Tool = '''', aq_RequiredCapability = '''', aq_Principal = p\<rparr>"

definition needsCheck :: "'f nodeDef \<Rightarrow> bool" where
  "needsCheck node \<longleftrightarrow> \<not> (TrimSpace (nd_Topic node) = '''' \<and> TrimSpace (nd_RequiredCapability node) = '''')"

fun nodeChecks ::
  "authorizationPolicyBundle \<Rightarrow> ('f nodeDef \<Rightarrow> authorizationRequest) \<Rightarrow> 'f nodeDef list
     \<Rightarrow> bool \<times> string \<times> authorizationCheck list \<Rightarrow> bool \<times> string \<times> authorizationCheck list" where
  "nodeChecks bundle mk [] acc = acc"
| "nodeChecks bundle mk (node # nodes) (allowed, reason, checks) =
     (if \<not> needsCheck node then nodeChecks bundle mk nodes (allowed, reason, checks)
      else
        let check = evaluateAuthorization bundle (mk node) in
        nodeChecks bundle mk nodes
          (if \<not> ac_Allowed check \<and> allowed then (False, ac_Reason check, checks @ [check])
           else (allowed, reason, checks @ [check])))"

definition workflowReport ::
  "authorizationPolicyBundle \<Rightarrow> string \<Rightarrow> principal \<Rightarrow> string \<Rightarrow> 'f workflowGraph \<Rightarrow> workflowAuthorizationReport" where
  "workflowReport bundle ctxTenant p0 runID0 g =
     (let p = Principal_Normalize p0;
          tenantID = (if TrimSpace ctxTenant = '''' then pr_TenantID p else TrimSpace ctxTenant);
          workflowID = TrimSpace (wg_ID g); runID = TrimSpace runID0;
          runCheck = evaluateAuthorization bundle (startRequest runID tenantID workflowID p)
      in case nodeChecks bundle (nodeRequest runID tenantID workflowID p) (wg_Nodes g)
                (ac_Allowed runCheck, ac_Reason runCheck, [runCheck]) of
           (allowed, reason, checks) \<Rightarrow>
             \<lparr>wr_Allowed = allowed, wr_Mode = PolicyModeEnforce, wr_RunID = runID, wr_TenantID = tenantID,
              wr_WorkflowID = workflowID, wr_Reason = (if allowed then ''authorized'' else reason), wr_Principal = p,
              wr_Checks = checks\<rparr>)"

section \<open>When a request is permitted\<close>

definition applies :: "authorizationRequest \<Rightarrow> authorizationRule \<Rightarrow> bool" where
  "applies req r \<longleftrightarrow> matchesAction r (aq_Action req) \<and> Rule_matches r req"

definition permits :: "authorizationPolicyBundle \<Rightarrow> authorizationRequest \<Rightarrow> bool" where
  "permits bundle req \<longleftrightarrow>
     (let p = aq_Principal req; tenant = aq_TenantID req; cap = aq_RequiredCapability req; rules = set (ab_Rules bundle) in
      (tenant = '''' \<or> pr_TenantScopes p = [] \<or> (\<exists>scope \<in> set (pr_TenantScopes p). matchPattern tenant scope)) \<and>
      (cap = '''' \<or> cap \<in> set (pr_Capabilities p)) \<and>
      \<not> (\<exists>r \<in> rules. ar_Effect r = PolicyEffectDeny \<and> applies req r) \<and>
      ((\<exists>r \<in> rules. ar_Effect r = PolicyEffectAllow \<and> matchesAction r (aq_Action req)) \<longrightarrow>
       (\<exists>r \<in> rules. ar_Effect r = PolicyEffectAllow \<and> applies req r)))"

lemma ruleLoop_eq:
  "ruleLoop req rs (a, al, de) =
     (a \<or> list_ex (\<lambda>r. ar_Effect r = PolicyEffectAllow \<and> matchesAction r (aq_Action req)) rs,
      al @ map ar_ID (filter (\<lambda>r. ar_Effect r = PolicyEffectAllow \<and> applies req r) rs),
      de @ map ar_ID (filter (\<lambda>r. ar_Effect r = PolicyEffectDeny \<and> applies req r) rs))"
  by (induction rs arbitrary: a al de) (auto simp: applies_def)

lemma trimRequest_simps [simp]:
  "TrimSpace (aq_RequiredCapability (trimRequest q)) = aq_RequiredCapability (trimRequest q)"
  "TrimSpace (aq_TenantID (trimRequest q)) = aq_TenantID (trimRequest q)"
  by (simp_all add: trimRequest_def)

lemma builtinDenials_none:
  assumes "TrimSpace (aq_RequiredCapability req) = aq_RequiredCapability req"
  shows "builtinDenials req = [] \<longleftrightarrow>
    (aq_TenantID req = '''' \<or> pr_TenantScopes (aq_Principal req) = [] \<or>
       (\<exists>scope \<in> set (pr_TenantScopes (aq_Principal req)). matchPattern (aq_TenantID req) scope)) \<and>
    (aq_RequiredCapability req = '''' \<or> aq_RequiredCapability req \<in> set (pr_Capabilities (aq_Principal req)))"
  using assms by (auto simp: builtinDenials_def hasCapability_def Let_def list_ex_iff)

lemma evaluate_permits: "ac_Allowed (evaluateAuthorization bundle req) = permits bundle (trimRequest req)"
  unfolding evaluateAuthorization_def permits_def Let_def ruleLoop_eq
  using builtinDenials_none [of "trimRequest req"]
  by (auto simp: list_ex_iff filter_empty_conv split: if_splits)


section \<open>Whole workflows\<close>

lemma nodeChecks_eq:
  "nodeChecks bundle mk nodes (a, w, cs) = (a', w', cs') \<Longrightarrow>
     (a' \<longleftrightarrow> a \<and> list_all (\<lambda>n. needsCheck n \<longrightarrow> ac_Allowed (evaluateAuthorization bundle (mk n))) nodes) \<and>
     cs' = cs @ map (\<lambda>n. evaluateAuthorization bundle (mk n)) (filter needsCheck nodes)"
proof (induction nodes arbitrary: a w cs)
  case (Cons n ns)
  let ?c = "evaluateAuthorization bundle (mk n)"
  show ?case
  proof (cases "needsCheck n")
    case True
    with Cons.prems have "nodeChecks bundle mk ns (if \<not> ac_Allowed ?c \<and> a then (False, ac_Reason ?c, cs @ [?c]) else (a, w, cs @ [?c])) = (a', w', cs')"
      by (simp add: Let_def)
    with Cons.IH [of "a \<and> ac_Allowed ?c" "if \<not> ac_Allowed ?c \<and> a then ac_Reason ?c else w" "cs @ [?c]"] True show ?thesis
      by (cases a; cases "ac_Allowed ?c") auto
  qed (use Cons in simp)
qed simp

definition workflow_permitted ::
  "authorizationPolicyBundle \<Rightarrow> string \<Rightarrow> principal \<Rightarrow> string \<Rightarrow> 'f workflowGraph \<Rightarrow> bool" where
  "workflow_permitted bundle tenantID p runID g \<longleftrightarrow>
     permits bundle (trimRequest (startRequest runID tenantID (TrimSpace (wg_ID g)) p)) \<and>
     list_all (\<lambda>n. needsCheck n \<longrightarrow> permits bundle (trimRequest (nodeRequest runID tenantID (TrimSpace (wg_ID g)) p n))) (wg_Nodes g)"

lemma workflow_report_allowed:
  "wr_Allowed (workflowReport bundle ctxTenant p runID g) \<longleftrightarrow>
     workflow_permitted bundle (wr_TenantID (workflowReport bundle ctxTenant p runID g)) (Principal_Normalize p) (TrimSpace runID) g"
proof -
  let ?p = "Principal_Normalize p" and ?t = "if TrimSpace ctxTenant = '''' then pr_TenantID (Principal_Normalize p) else TrimSpace ctxTenant"
  let ?c = "evaluateAuthorization bundle (startRequest (TrimSpace runID) ?t (TrimSpace (wg_ID g)) ?p)"
  let ?n = "nodeChecks bundle (nodeRequest (TrimSpace runID) ?t (TrimSpace (wg_ID g)) ?p) (wg_Nodes g) (ac_Allowed ?c, ac_Reason ?c, [?c])"
  obtain a w cs where n: "?n = (a, w, cs)" by (cases ?n) auto
  show ?thesis using nodeChecks_eq [OF n] n
    by (simp add: workflowReport_def Let_def workflow_permitted_def evaluate_permits)
qed

end
