(* ===== verification/Governance.thy ===== *)
theory Governance
  imports EngineKV Authz
begin

text \<open>
  Tenant governance, \<^verbatim>\<open>internal/engine/governance.go\<close>: the audit trail, handler registries and caps
  on active runs per tenant, and the check that a caller may touch a tenant's run.  Spans and
  metrics are left out.

  \<open>runnerMem\<close> holds the fields of \<open>Runner\<close> these services and those of theory \<open>Gates\<close> keep in memory.
  \<open>may_access\<close> says, without audit records and texts, when a caller may touch a run;
  \<open>audit_log\<close> is the trail as the set of records the index reaches.
\<close>

abbreviation AuditOutcomeAllowed :: string where "AuditOutcomeAllowed \<equiv> ''allowed''"
abbreviation AuditOutcomeDenied :: string where "AuditOutcomeDenied \<equiv> ''denied''"
abbreviation auditIndexKey :: string where "auditIndexKey \<equiv> ''audit/index''"

section \<open>The caller\<close>

definition WithTenantID :: "callCtx \<Rightarrow> string \<Rightarrow> callCtx" where
  "WithTenantID ctx tenantID = (if tenantID = '''' then ctx else ctx\<lparr>cx_Tenant := tenantID\<rparr>)"

definition WithPrincipal :: "callCtx \<Rightarrow> principal \<Rightarrow> callCtx" where
  "WithPrincipal ctx p = ctx\<lparr>cx_Principal := Some (Principal_Normalize p)\<rparr>"

definition PrincipalFrom :: "callCtx \<Rightarrow> principal option" where
  "PrincipalFrom ctx = map_option Principal_Normalize (cx_Principal ctx)"

definition effectiveTenantFromContext :: "callCtx \<Rightarrow> string" where
  "effectiveTenantFromContext ctx =
     (let tenantID = TrimSpace (cx_Tenant ctx) in
      if tenantID \<noteq> '''' then tenantID
      else case PrincipalFrom ctx of None \<Rightarrow> '''' | Some p \<Rightarrow> TrimSpace (pr_TenantID p))"

section \<open>The audit trail\<close>

definition auditRecordKey :: "string \<Rightarrow> string" where
  "auditRecordKey i = ''audit/records/'' @ TrimSpace i"

definition auditNote :: "string \<Rightarrow> string \<Rightarrow> string \<Rightarrow> string \<Rightarrow> string \<Rightarrow> string \<Rightarrow> string \<Rightarrow> string \<Rightarrow> string \<Rightarrow> auditRecord" where
  "auditNote tenantID principalID act ty res runID wfl outcome reason =
     \<lparr>au_ID = '''', au_At = 0, au_TenantID = tenantID, au_PrincipalID = principalID, au_Action = act, au_ResourceType = ty,
      au_ResourceID = res, au_RunID = runID, au_WorkflowID = wfl, au_Outcome = outcome, au_Reason = reason\<rparr>"

text \<open>The record as it is stored.\<close>

definition auditFilled :: "'s svcEnv \<Rightarrow> callCtx \<Rightarrow> gotime \<Rightarrow> auditRecord \<Rightarrow> 's \<Rightarrow> auditRecord" where
  "auditFilled env ctx now r s =
     \<lparr>au_ID = (if TrimSpace (au_ID r) = '''' then mintID env ''audit-'' now s else TrimSpace (au_ID r)),
      au_At = (if IsZero (au_At r) then now else au_At r),
      au_TenantID = (if TrimSpace (au_TenantID r) = '''' then effectiveTenantFromContext ctx else TrimSpace (au_TenantID r)),
      au_PrincipalID =
        (if TrimSpace (au_PrincipalID r) = '''' then (case PrincipalFrom ctx of Some p \<Rightarrow> pr_ID p | None \<Rightarrow> '''')
         else TrimSpace (au_PrincipalID r)),
      au_Action = TrimSpace (au_Action r), au_ResourceType = TrimSpace (au_ResourceType r),
      au_ResourceID = TrimSpace (au_ResourceID r), au_RunID = TrimSpace (au_RunID r),
      au_WorkflowID = TrimSpace (au_WorkflowID r), au_Outcome = au_Outcome r, au_Reason = TrimSpace (au_Reason r)\<rparr>"

definition appendAuditRecord :: "'s svcEnv \<Rightarrow> callCtx \<Rightarrow> gotime \<Rightarrow> auditRecord \<Rightarrow> 's \<Rightarrow> 's" where
  "appendAuditRecord env ctx now r0 s =
     (let r = auditFilled env ctx now r0 s; ops = sx_ops env in
      if au_Action r = '''' then s
      else case putJSONKV ops now (auditRecordKey (au_ID r)) (DocAudit r) s of
             (Some err, s1) \<Rightarrow> s1
           | (None, s1) \<Rightarrow>
               (case indexIDs ops auditIndexKey s1 of
                  Inl err \<Rightarrow> s1
                | Inr ids \<Rightarrow> snd (putJSONKV ops now auditIndexKey (DocIDs (ids @ [au_ID r])) s1)))"

text \<open>The loop that collects at most \<open>limit\<close> documents.\<close>

fun collectUpTo :: "(string \<Rightarrow> 'a option) \<Rightarrow> int \<Rightarrow> string list \<Rightarrow> 'a list \<Rightarrow> 'a list" where
  "collectUpTo f limit [] out = out"
| "collectUpTo f limit (i # is) out =
     (case f i of
        None \<Rightarrow> collectUpTo f limit is out
      | Some x \<Rightarrow> if limit \<le> int (length out + 1) then out @ [x] else collectUpTo f limit is (out @ [x]))"

definition auditWanted :: "'s storeOps \<Rightarrow> string \<Rightarrow> string \<Rightarrow> 's \<Rightarrow> string \<Rightarrow> auditRecord option" where
  "auditWanted ops tenantID runID s i =
     (case getJSONKV ops asAudit (auditRecordKey i) s of
        Some (Inr r) \<Rightarrow>
          if tenantID \<noteq> '''' \<and> au_TenantID r \<noteq> tenantID then None
          else if runID \<noteq> '''' \<and> au_RunID r \<noteq> runID then None
          else Some r
      | _ \<Rightarrow> None)"

definition ListAuditRecords :: "'s storeOps \<Rightarrow> string \<Rightarrow> string \<Rightarrow> int \<Rightarrow> 's \<Rightarrow> engineError + auditRecord list" where
  "ListAuditRecords ops tenantID runID limit0 s =
     (let limit = (if limit0 \<le> 0 then 100 else limit0) in
      case indexIDs ops auditIndexKey s of
        Inl err \<Rightarrow> Inl err
      | Inr ids \<Rightarrow>
          Inr (sort_key (\<lambda>r. - au_At r)
            (collectUpTo (auditWanted ops (TrimSpace tenantID) (TrimSpace runID) s) limit (rev ids) [])))"

section \<open>Registries and caps per tenant\<close>

record 'f runnerMem =
  rm_registry :: "'f handlerRegistry option"
  rm_tenantRegistries :: "(string, 'f handlerRegistry) gomap"
  rm_tenantRunCaps :: "(string, int) gomap"
  rm_policyBundle :: "authorizationPolicyBundle option"
  rm_riskPolicy :: "riskPolicy option"
  rm_graphs :: "(string, 'f workflowGraph) gomap"
  rm_toolGateway :: "toolGatewayBundle option"
  rm_brainPolicy :: "brainPolicy option"

definition SetTenantHandlerRegistry :: "string \<Rightarrow> 'f handlerRegistry option \<Rightarrow> 'f runnerMem \<Rightarrow> 'f runnerMem" where
  "SetTenantHandlerRegistry tenantID0 reg m =
     (let tenantID = TrimSpace tenantID0 in
      if tenantID = '''' then m
      else case reg of
             None \<Rightarrow> m\<lparr>rm_tenantRegistries := mdel tenantID (rm_tenantRegistries m)\<rparr>
           | Some g \<Rightarrow> m\<lparr>rm_tenantRegistries := mput tenantID g (rm_tenantRegistries m)\<rparr>)"

definition HandlerRegistryForTenant :: "'f runnerMem \<Rightarrow> string \<Rightarrow> 'f handlerRegistry option" where
  "HandlerRegistryForTenant m tenantID0 =
     (let tenantID = TrimSpace tenantID0 in
      case (if tenantID = '''' then None else mget (rm_tenantRegistries m) tenantID) of
        Some reg \<Rightarrow> Some reg
      | None \<Rightarrow> rm_registry m)"

definition SetTenantActiveRunCap :: "string \<Rightarrow> int \<Rightarrow> 'f runnerMem \<Rightarrow> 'f runnerMem" where
  "SetTenantActiveRunCap tenantID0 cap m =
     (let tenantID = TrimSpace tenantID0 in
      if tenantID = '''' \<or> cap < 0 then m
      else if cap = 0 then m\<lparr>rm_tenantRunCaps := mdel tenantID (rm_tenantRunCaps m)\<rparr>
      else m\<lparr>rm_tenantRunCaps := mput tenantID cap (rm_tenantRunCaps m)\<rparr>)"

definition tenantActiveRunCap :: "'f runnerMem \<Rightarrow> string \<Rightarrow> int" where
  "tenantActiveRunCap m tenantID = (if tenantID = '''' then 0 else mdef 0 (rm_tenantRunCaps m) tenantID)"

text \<open>The graphs the runner has executed, by workflow.\<close>

definition rememberGraph :: "string \<Rightarrow> 'f workflowGraph \<Rightarrow> 'f runnerMem \<Rightarrow> 'f runnerMem" where
  "rememberGraph i g m = (if i = '''' then m else m\<lparr>rm_graphs := mput i (g\<lparr>wg_ID := i\<rparr>) (rm_graphs m)\<rparr>)"

definition getGraph :: "'f runnerMem \<Rightarrow> string \<Rightarrow> 'f workflowGraph option" where
  "getGraph m i = mget (rm_graphs m) i"

definition isActive :: "'s storeOps \<Rightarrow> 's \<Rightarrow> string \<Rightarrow> string \<Rightarrow> string \<Rightarrow> bool" where
  "isActive ops s tenantID excludeRunID runID =
     (if runID = excludeRunID then False
      else case so_GetRun ops s runID of
             None \<Rightarrow> False
           | Some r \<Rightarrow> TrimSpace (run_TenantID r) = tenantID \<and>
               run_Status r \<in> {RunStatusQueued, RunStatusRunning, RunStatusWaiting})"

definition activeRunsForTenant :: "'s storeOps \<Rightarrow> string \<Rightarrow> string \<Rightarrow> 's \<Rightarrow> int" where
  "activeRunsForTenant ops tenantID0 excludeRunID0 s =
     (let tenantID = TrimSpace tenantID0; excludeRunID = TrimSpace excludeRunID0 in
      if tenantID = '''' then 0
      else int (length (filter (isActive ops s tenantID excludeRunID) (so_ListRuns ops s))))"

definition enforceTenantRunQuota ::
  "'s svcEnv \<Rightarrow> 'f runnerMem \<Rightarrow> callCtx \<Rightarrow> gotime \<Rightarrow> string \<Rightarrow> string \<Rightarrow> string \<Rightarrow> 's \<Rightarrow> engineError option \<times> 's" where
  "enforceTenantRunQuota env m ctx now tenantID0 runID wfl s =
     (let tenantID = TrimSpace tenantID0; cap = tenantActiveRunCap m tenantID in
      if tenantID = '''' then (None, s)
      else if cap \<le> 0 then (None, s)
      else if activeRunsForTenant (sx_ops env) tenantID runID s < cap then (None, s)
      else
        (Some (EWrap ('': active run cap reached for tenant '' @ quoted tenantID) ErrTenantQuotaExceeded),
         appendAuditRecord env ctx now
           (auditNote tenantID '''' ''tenant.quota.active_runs'' ''run'' (TrimSpace runID) (TrimSpace runID) (TrimSpace wfl)
              AuditOutcomeDenied (''tenant active run cap reached ('' @ itoa cap @ '')'')) s))"

section \<open>Access to a tenant's runs\<close>

definition accessNote :: "string \<Rightarrow> string \<Rightarrow> string \<Rightarrow> run \<Rightarrow> string \<Rightarrow> string \<Rightarrow> auditRecord" where
  "accessNote tenantID principalID act r outcome reason =
     auditNote tenantID principalID act ''run'' (run_RunID r) (run_RunID r) (run_WorkflowID r) outcome reason"

definition ensureRunTenantAccess ::
  "'s svcEnv \<Rightarrow> callCtx \<Rightarrow> gotime \<Rightarrow> run \<Rightarrow> string \<Rightarrow> 's \<Rightarrow> engineError option \<times> 's" where
  "ensureRunTenantAccess env ctx now r act s =
     (let tenantID = TrimSpace (run_TenantID r); caller = effectiveTenantFromContext ctx;
          audit = (\<lambda>principalID outcome reason. appendAuditRecord env ctx now (accessNote tenantID principalID act r outcome reason) s)
      in if tenantID = '''' then (None, s)
         else if caller = '''' then
           (Some (EWrap ('': missing tenant context for run '' @ quoted (run_RunID r)) ErrTenantAccessDenied),
            audit '''' AuditOutcomeDenied ''missing caller tenant context'')
         else if caller \<noteq> tenantID then
           (Some (EWrap ('': caller tenant '' @ quoted caller @ '' cannot access tenant '' @ quoted tenantID) ErrTenantAccessDenied),
            audit '''' AuditOutcomeDenied (''caller tenant '' @ quoted caller @ '' cannot access tenant '' @ quoted tenantID))
         else
           let allowed = (None, audit '''' AuditOutcomeAllowed ''tenant access allowed'') in
           case PrincipalFrom ctx of
             None \<Rightarrow> allowed
           | Some p \<Rightarrow>
               if pr_TenantScopes p \<noteq> [] \<and> \<not> list_ex (\<lambda>scope. matchPattern tenantID scope) (pr_TenantScopes p) then
                 (Some (EWrap ('': principal tenant scope does not include tenant '' @ quoted tenantID) ErrTenantAccessDenied),
                  audit (pr_ID p) AuditOutcomeDenied (''principal tenant scope does not include tenant '' @ quoted tenantID))
               else allowed)"

text \<open>\<open>ensureArtifactTenantAccess\<close> reads three fields of the artifact's metadata.\<close>

definition ensureArtifactTenantAccess ::
  "'s svcEnv \<Rightarrow> callCtx \<Rightarrow> gotime \<Rightarrow> string \<Rightarrow> string \<Rightarrow> string \<Rightarrow> string \<Rightarrow> 's \<Rightarrow> engineError option \<times> 's" where
  "ensureArtifactTenantAccess env ctx now metaTenant metaRun metaWorkflow act s =
     (let tenantID =
        (if TrimSpace metaTenant = '''' \<and> TrimSpace metaRun \<noteq> ''''
         then (case so_GetRun (sx_ops env) s metaRun of Some r \<Rightarrow> TrimSpace (run_TenantID r) | None \<Rightarrow> '''')
         else TrimSpace metaTenant)
      in if tenantID = '''' then (None, s)
         else ensureRunTenantAccess env ctx now
                \<lparr>run_RunID = metaRun, run_WorkflowID = metaWorkflow, run_Status = '''', run_StartedAt = None, run_EndedAt = None,
                 run_Spec = JNil, run_InitialInput = JNil, run_TenantID = tenantID, run_TerminalReason = '''',
                 run_TerminalMeta = JNil, run_RunBudget = zeroBudget, run_BudgetUsage = zeroUsage\<rparr> act s)"

section \<open>Keys\<close>

lemma dropWhile_space: "s = [] \<or> \<not> is_space (hd s) \<Longrightarrow> dropWhile is_space s = s"
  by (cases s) auto

lemma TrimSpace_fixed: "s = [] \<or> \<not> is_space (hd s) \<and> \<not> is_space (last s) \<Longrightarrow> TrimSpace s = s"
  by (auto simp: TrimSpace_def dropWhile_space hd_rev)

lemma TrimSpace_ends: "TrimSpace s \<noteq> [] \<Longrightarrow> \<not> is_space (hd (TrimSpace s)) \<and> \<not> is_space (last (TrimSpace s))"
proof -
  assume ne: "TrimSpace s \<noteq> []"
  have "dropWhile is_space (TrimSpace s) = TrimSpace s" by (simp add: TrimSpace_def dropWhile_rev_dropWhile)
  moreover have "dropWhile is_space (rev (TrimSpace s)) = rev (TrimSpace s)" by (simp add: TrimSpace_def)
  ultimately show ?thesis using ne hd_dropWhile [of is_space "TrimSpace s"] hd_dropWhile [of is_space "rev (TrimSpace s)"]
    by (simp add: hd_rev)
qed

lemma TrimSpace_prefixed:
  assumes "p \<noteq> []" "\<not> is_space (hd p)" "\<not> is_space (last p)"
  shows "TrimSpace (p @ TrimSpace i) = p @ TrimSpace i"
  using assms TrimSpace_ends [of i] by (intro TrimSpace_fixed) (cases "TrimSpace i = []"; simp)

definition isAuditKey :: "string \<Rightarrow> bool" where
  "isAuditKey k \<longleftrightarrow> HasPrefix k ''audit/''"

lemma audit_keys [simp]:
  "TrimSpace (auditRecordKey i) = auditRecordKey i" "TrimSpace auditIndexKey = auditIndexKey"
  "isAuditKey (auditRecordKey i)" "isAuditKey auditIndexKey" "auditRecordKey i \<noteq> auditIndexKey" "auditIndexKey \<noteq> auditRecordKey i"
  "auditRecordKey (TrimSpace i) = auditRecordKey i" "auditRecordKey i = auditRecordKey j \<longleftrightarrow> TrimSpace i = TrimSpace j"
  unfolding auditRecordKey_def isAuditKey_def using TrimSpace_prefixed [of "''audit/records/''" i]
  by (simp_all add: TrimSpace_fixed is_space_def HasPrefix_def)

section \<open>Nothing but the audit trail changes\<close>

lemma indexIDs_Some: "indexIDs ops key s = Inr ids \<Longrightarrow> i \<in> set ids \<Longrightarrow> TrimSpace i = i \<and> i \<noteq> ''''"
  by (auto simp: indexIDs_def set_keepNew split: option.splits kvText.splits if_splits)

lemma indexIDs_doc: "so_GetKV ops s key = Some (DocIDs ids) \<Longrightarrow> indexIDs ops key s = Inr (normalizeStrings ids)"
  by (simp add: indexIDs_def normalizeStrings_def)

definition audit_index :: "'s storeOps \<Rightarrow> 's \<Rightarrow> string list" where
  "audit_index ops s = (case indexIDs ops auditIndexKey s of Inr ids \<Rightarrow> ids | Inl _ \<Rightarrow> [])"

definition audit_log :: "'s storeOps \<Rightarrow> 's \<Rightarrow> string \<Rightarrow> auditRecord option" where
  "audit_log ops s i =
     (if i \<in> set (audit_index ops s)
      then (case getJSONKV ops asAudit (auditRecordKey i) s of Some (Inr r) \<Rightarrow> Some r | _ \<Rightarrow> None) else None)"

lemma audit_log_same:
  assumes "kv_moves ops K s s'" "\<And>k. isAuditKey k \<Longrightarrow> \<not> K k"
  shows "audit_log ops s' = audit_log ops s"
proof -
  have "so_GetKV ops s' k = so_GetKV ops s k" if "isAuditKey (TrimSpace k)" for k
    using kv_moves_reads(5) [OF assms(1)] assms(2) that by blast
  then have "so_GetKV ops s' auditIndexKey = so_GetKV ops s auditIndexKey"
    "\<And>i. so_GetKV ops s' (auditRecordKey i) = so_GetKV ops s (auditRecordKey i)" by simp_all
  then have "indexIDs ops auditIndexKey s' = indexIDs ops auditIndexKey s"
    "\<And>i. getJSONKV ops asAudit (auditRecordKey i) s' = getJSONKV ops asAudit (auditRecordKey i) s"
    unfolding indexIDs_def getJSONKV_def by simp_all
  then show ?thesis unfolding fun_eq_iff audit_log_def audit_index_def by metis
qed

context store_contract
begin

lemma append_audit:
  assumes "sinv s" "sx_ops env = ops"
  shows "sinv (appendAuditRecord env ctx now r s)" "kv_moves ops isAuditKey s (appendAuditRecord env ctx now r s)"
proof -
  define f where "f = auditFilled env ctx now r s"
  obtain e1 s1 where p1: "putJSONKV ops now (auditRecordKey (au_ID f)) (DocAudit f) s = (e1, s1)" by fastforce
  note a = put_doc(1) [OF assms(1) p1] put_doc(2) [OF assms(1) p1, of isAuditKey, simplified]
  define s2 where "s2 xs = snd (putJSONKV ops now auditIndexKey (DocIDs (xs @ [au_ID f])) s1)" for xs
  have p2: "putJSONKV ops now auditIndexKey (DocIDs (xs @ [au_ID f])) s1 = (fst (putJSONKV ops now auditIndexKey (DocIDs (xs @ [au_ID f])) s1), s2 xs)" for xs
    by (simp add: s2_def)
  note b = put_doc(1) [OF a(1) p2] put_doc(2) [OF a(1) p2, of isAuditKey, simplified]
  have "appendAuditRecord env ctx now r s \<in> {s, s1} \<union> range s2"
    unfolding appendAuditRecord_def Let_def assms(2) f_def [symmetric] p1
    by (cases e1; cases "indexIDs ops auditIndexKey s1") (simp_all add: s2_def)
  then show "sinv (appendAuditRecord env ctx now r s)" "kv_moves ops isAuditKey s (appendAuditRecord env ctx now r s)"
    using assms(1) a b kv_moves_trans [OF a(2) b(2)] by auto
qed

text \<open>A record that is in the trail stays there unchanged, whatever is appended under a new
  identifier and whatever fails on the way.\<close>

lemma append_audit_keeps:
  assumes "sinv s" "sx_ops env = ops" "TrimSpace (au_ID (auditFilled env ctx now r s)) \<notin> set (audit_index ops s)"
    and "audit_log ops s i = Some x"
  shows "audit_log ops (appendAuditRecord env ctx now r s) i = Some x"
proof -
  define f where "f = auditFilled env ctx now r s"
  have idx: "i \<in> set (audit_index ops s)" and doc: "so_GetKV ops s (auditRecordKey i) = Some (DocAudit x)"
    using assms(4) by (simp_all add: audit_log_def getJSONKV_def split: if_splits sum.splits option.splits)
  obtain ids where ids: "indexIDs ops auditIndexKey s = Inr ids" "i \<in> set ids"
    using idx unfolding audit_index_def by (cases "indexIDs ops auditIndexKey s") simp_all
  have tr: "TrimSpace i = i" "i \<noteq> ''''" using indexIDs_Some [OF ids] by simp_all
  with ids assms(3) have ne: "auditRecordKey i \<noteq> auditRecordKey (au_ID f)" by (auto simp: audit_index_def f_def)
  obtain e1 s1 where p1: "putJSONKV ops now (auditRecordKey (au_ID f)) (DocAudit f) s = (e1, s1)" by fastforce
  have s1: "sinv s1" "so_GetKV ops s1 (auditRecordKey i) = Some (DocAudit x)" "indexIDs ops auditIndexKey s1 = Inr ids"
    using put_doc(1) [OF assms(1) p1] put_doc(4) [OF assms(1) p1, of "auditRecordKey i"] put_doc(4) [OF assms(1) p1, of auditIndexKey]
      ne doc ids(1) by (simp_all add: indexIDs_def)
  have "audit_log ops s' i = Some x" if "putJSONKV ops now auditIndexKey (DocIDs (ids @ [au_ID f])) s1 = (e2, s')" for e2 s'
  proof -
    have k: "so_GetKV ops s' (auditRecordKey i) = Some (DocAudit x)"
      using put_doc(4) [OF s1(1) that, of "auditRecordKey i"] s1(2) by auto
    have "\<exists>ids'. indexIDs ops auditIndexKey s' = Inr ids' \<and> i \<in> set ids'"
    proof (cases "so_GetKV ops s' auditIndexKey = so_GetKV ops s1 auditIndexKey")
      case True
      with s1(3) ids(2) show ?thesis by (simp add: indexIDs_def)
    next
      case False
      with put_doc(4) [OF s1(1) that, of auditIndexKey] have "indexIDs ops auditIndexKey s' = Inr (normalizeStrings (ids @ [au_ID f]))"
        by (auto intro: indexIDs_doc)
      with ids(2) tr show ?thesis by (force simp: image_iff)
    qed
    with k show ?thesis by (auto simp: audit_log_def audit_index_def getJSONKV_def)
  qed
  moreover have "audit_log ops s1 i = Some x" using s1 ids by (simp add: audit_log_def audit_index_def getJSONKV_def)
  ultimately show ?thesis using assms s1(3) p1
    by (auto simp: appendAuditRecord_def Let_def simp flip: f_def split: option.splits sum.splits) (metis prod.collapse)
qed

end

section \<open>Access\<close>

definition may_access :: "callCtx \<Rightarrow> run \<Rightarrow> bool" where
  "may_access ctx r \<longleftrightarrow>
     (let tenantID = TrimSpace (run_TenantID r) in
      tenantID = '''' \<or>
      effectiveTenantFromContext ctx = tenantID \<and>
      (case PrincipalFrom ctx of
         None \<Rightarrow> True
       | Some p \<Rightarrow> pr_TenantScopes p = [] \<or> (\<exists>scope \<in> set (pr_TenantScopes p). matchPattern tenantID scope)))"

lemma access_exact: "fst (ensureRunTenantAccess env ctx now r act s) = None \<longleftrightarrow> may_access ctx r"
  by (auto simp: ensureRunTenantAccess_def may_access_def Let_def list_ex_iff split: option.splits)

lemma access_store:
  "snd (ensureRunTenantAccess env ctx now r act s) = s \<or>
   (\<exists>x. snd (ensureRunTenantAccess env ctx now r act s) = appendAuditRecord env ctx now x s)"
  unfolding ensureRunTenantAccess_def Let_def by (cases "PrincipalFrom ctx") auto


end
