(* ===== verification/Throttle.thy ===== *)
theory Throttle
  imports EngineStore
begin

text \<open>
  Concurrency caps of the runner, \<^verbatim>\<open>internal/engine/throttle.go\<close> and \<^verbatim>\<open>throttle_config.go\<close>, and the
  rate-limiter wrapper of \<^verbatim>\<open>rate_limiter_events.go\<close>.  \<open>throttleState\<close> holds the runner's three maps.
  Every method takes the lock \<open>throttleMu\<close> for its whole body, so each is one step.  The order in
  which \<open>WithThrottleConfig\<close> visits its maps is the order of the association lists.
\<close>

section \<open>State and configuration\<close>

record throttleState =
  th_topicCaps :: "(string, int) gomap"
  th_tenantTopicCaps :: "(string, (string, int) gomap) gomap"
  th_inflightCaps :: "(string, int) gomap"

abbreviation ThrottleScopeTopic :: string where "ThrottleScopeTopic \<equiv> ''topic''"
abbreviation ThrottleScopeTenantTopic :: string where "ThrottleScopeTenantTopic \<equiv> ''tenant_topic''"

record throttledPayload =
  tp_Reason :: string
  tp_Scope :: string
  tp_TenantID :: string
  tp_Topic :: string
  tp_Limit :: int
  tp_Inflight :: int
  tp_RetryAfterMS :: int

text \<open>A field tagged \<open>omitempty\<close> is left out when it is empty or 0.\<close>

definition omitempty :: "bool \<Rightarrow> string \<Rightarrow> json \<Rightarrow> (string \<times> json) list" where
  "omitempty isEmpty k v = (if isEmpty then [] else [(k, v)])"

definition throttledJSON :: "throttledPayload \<Rightarrow> json" where
  "throttledJSON p = JObj ([(''reason'', JText (tp_Reason p)), (''scope'', JText (tp_Scope p))]
     @ omitempty (tp_TenantID p = '''') ''tenant_id'' (JText (tp_TenantID p))
     @ omitempty (tp_Topic p = '''') ''topic'' (JText (tp_Topic p))
     @ [(''limit'', JInt (tp_Limit p)), (''inflight'', JInt (tp_Inflight p))]
     @ omitempty (tp_RetryAfterMS p = 0) ''retry_after_ms'' (JInt (tp_RetryAfterMS p)))"

definition SetTopicConcurrencyCap :: "string \<Rightarrow> int \<Rightarrow> throttleState \<Rightarrow> throttleState" where
  "SetTopicConcurrencyCap topic cap r =
     (if topic = '''' \<or> cap < 0 then r
      else if cap = 0 then r\<lparr>th_topicCaps := mdel topic (th_topicCaps r)\<rparr>
      else r\<lparr>th_topicCaps := mput topic cap (th_topicCaps r)\<rparr>)"

definition SetTenantTopicConcurrencyCap :: "string \<Rightarrow> string \<Rightarrow> int \<Rightarrow> throttleState \<Rightarrow> throttleState" where
  "SetTenantTopicConcurrencyCap tenantID topic cap r =
     (if tenantID = '''' \<or> topic = '''' \<or> cap < 0 then r
      else
        let m = mdef [] (th_tenantTopicCaps r) tenantID in
        if cap = 0 then
          (let m1 = mdel topic m in
           if m1 = [] then r\<lparr>th_tenantTopicCaps := mdel tenantID (th_tenantTopicCaps r)\<rparr>
           else r\<lparr>th_tenantTopicCaps := mput tenantID m1 (th_tenantTopicCaps r)\<rparr>)
        else r\<lparr>th_tenantTopicCaps := mput tenantID (mput topic cap m) (th_tenantTopicCaps r)\<rparr>)"

text \<open>\<^verbatim>\<open>strings.SplitN(s, ":", 2)\<close>: the parts around the first colon, if there is one.\<close>

definition splitColon :: "string \<Rightarrow> (string \<times> string) option" where
  "splitColon s = (if CHR '':'' \<in> set s then Some (takeWhile (\<lambda>c. c \<noteq> CHR '':'') s, tl (dropWhile (\<lambda>c. c \<noteq> CHR '':'') s)) else None)"

definition parseTenantTopicKey :: "string \<Rightarrow> string \<times> string" where
  "parseTenantTopicKey s0 =
     (let s = TrimSpace s0 in
      if s = '''' then ('''', '''')
      else case splitColon s of
             Some (a, b) \<Rightarrow> (TrimSpace a, TrimSpace b)
           | None \<Rightarrow> (''*'', s))"

record throttleConfig =
  tc_TopicCaps :: "(string, int) gomap"
  tc_TenantTopicCaps :: "(string, int) gomap"

definition applyTenantTopicCap :: "string \<times> int \<Rightarrow> throttleState \<Rightarrow> throttleState" where
  "applyTenantTopicCap kc r =
     (case parseTenantTopicKey (fst kc) of (tenant, topic) \<Rightarrow>
        if topic = '''' then r
        else if tenant = ''*'' \<or> tenant = '''' then SetTopicConcurrencyCap topic (snd kc) r
        else SetTenantTopicConcurrencyCap tenant topic (snd kc) r)"

definition WithThrottleConfig :: "throttleConfig \<Rightarrow> throttleState \<Rightarrow> throttleState" where
  "WithThrottleConfig cfg r =
     fold applyTenantTopicCap (tc_TenantTopicCaps cfg)
       (fold (\<lambda>(topic, cap). SetTopicConcurrencyCap topic cap) (tc_TopicCaps cfg) r)"

section \<open>Acquiring and releasing\<close>

definition capKey :: "string \<Rightarrow> string \<Rightarrow> string \<Rightarrow> string" where
  "capKey scope tenantID topic =
     (if scope = ThrottleScopeTenantTopic then ''tenant:'' @ tenantID @ ''|topic:'' @ topic else ''topic:'' @ topic)"

definition concurrencyCapFor :: "throttleState \<Rightarrow> string \<Rightarrow> string \<Rightarrow> int \<times> string \<times> string" where
  "concurrencyCapFor r tenantID topic =
     (if topic = '''' then (0, '''', '''')
      else
        let c = (if tenantID = '''' then 0 else mdef 0 (mdef [] (th_tenantTopicCaps r) tenantID) topic) in
        if 0 < c then (c, ThrottleScopeTenantTopic, capKey ThrottleScopeTenantTopic tenantID topic)
        else
          let c1 = mdef 0 (th_topicCaps r) topic in
          if 0 < c1 then (c1, ThrottleScopeTopic, capKey ThrottleScopeTopic '''' topic) else (0, '''', ''''))"

definition tryAcquireCap :: "string \<Rightarrow> int \<Rightarrow> throttleState \<Rightarrow> (bool \<times> int) \<times> throttleState" where
  "tryAcquireCap key cap r =
     (if key = '''' \<or> cap \<le> 0 then ((True, 0), r)
      else
        let cur = mdef 0 (th_inflightCaps r) key in
        if cap \<le> cur then ((False, cur), r)
        else ((True, cur + 1), r\<lparr>th_inflightCaps := mput key (cur + 1) (th_inflightCaps r)\<rparr>))"

definition releaseCap :: "string \<Rightarrow> throttleState \<Rightarrow> throttleState" where
  "releaseCap key r =
     (if key = '''' then r
      else
        let cur = mdef 0 (th_inflightCaps r) key in
        if cur \<le> 1 then r\<lparr>th_inflightCaps := mdel key (th_inflightCaps r)\<rparr>
        else r\<lparr>th_inflightCaps := mput key (cur - 1) (th_inflightCaps r)\<rparr>)"

definition shouldEmitThrottle ::
  "(string, gotime) gomap \<Rightarrow> string \<Rightarrow> gotime \<Rightarrow> duration \<Rightarrow> bool \<times> (string, gotime) gomap" where
  "shouldEmitThrottle lst key now every =
     (if key = '''' then (False, lst)
      else case mget lst key of
             Some t \<Rightarrow> if time_Sub now t < every then (False, lst) else (True, mput key now lst)
           | None \<Rightarrow> (True, mput key now lst))"

section \<open>Rate limiters\<close>

record rateLimitRequest =
  rq_TenantID :: string
  rq_Provider :: string
  rq_Kind :: string
  rq_EstimatedTokens :: int
  rq_EstimatedDollars :: rat

record rateLimitDecision =
  rd_Allowed :: bool
  rd_RetryAfter :: duration
  rd_Reason :: string

definition eventingRateLimiter_Decide ::
  "(rateLimitRequest \<Rightarrow> engineError + rateLimitDecision) \<Rightarrow> string \<Rightarrow> rateLimitRequest
     \<Rightarrow> (engineError + rateLimitDecision) \<times> throttledPayload option" where
  "eventingRateLimiter_Decide inner topic req =
     (case inner req of
        Inl err \<Rightarrow> (Inl err, None)
      | Inr dec \<Rightarrow>
          (Inr dec,
           if rd_Allowed dec then None
           else Some \<lparr>tp_Reason = (if rq_Provider req \<noteq> '''' \<or> rq_Kind req \<noteq> '''' \<or> rd_Reason dec \<noteq> ''''
                         then ''provider_rate_limit:'' @ rq_Kind req @ '':'' @ rq_Provider req @ '':'' @ rd_Reason dec
                         else ''provider_rate_limit''),
                       tp_Scope = ThrottleScopeTenantTopic, tp_TenantID = rq_TenantID req, tp_Topic = topic,
                       tp_Limit = 0, tp_Inflight = 0, tp_RetryAfterMS = Milliseconds (rd_RetryAfter dec)\<rparr>))"

definition wrapRateLimiter_emit ::
  "'s storeOps \<Rightarrow> gotime \<Rightarrow> string \<Rightarrow> string \<Rightarrow> string \<Rightarrow> int \<Rightarrow> throttledPayload \<Rightarrow> 's \<Rightarrow> 's" where
  "wrapRateLimiter_emit ops now runID wfID nodeID attempt p s =
     snd (so_AppendEvent ops now
       \<lparr>ev_RunID = runID, ev_Seq = 0, ev_Type = EventThrottled, ev_At = 0, ev_WorkflowID = wfID, ev_NodeID = nodeID,
        ev_Attempt = attempt, ev_Payload = marshal (throttledJSON p)\<rparr> s)"

record delayError =
  de_After :: duration
  de_Reason :: string

definition Delay :: "duration \<Rightarrow> string \<Rightarrow> delayError" where
  "Delay after reason = \<lparr>de_After = (if after < 0 then 0 else after), de_Reason = reason\<rparr>"

definition ThrottleDelay :: "duration \<Rightarrow> string \<Rightarrow> delayError" where
  "ThrottleDelay retryAfter reason =
     Delay (if retryAfter \<le> 0 then 250 * millisecond else retryAfter) (if reason = '''' then ''throttled'' else reason)"

section \<open>Properties\<close>

text \<open>What the runs do with the caps: acquire a slot, give back one they hold, or change the
  configuration.  The second component of the state lists the slots held.\<close>

datatype capStep =
    CapAcquire string int
  | CapRelease string
  | CapSetTopic string int
  | CapSetTenant string string int

fun cap_step :: "throttleState \<times> string list \<Rightarrow> capStep \<Rightarrow> throttleState \<times> string list" where
  "cap_step (r, held) (CapAcquire key cap) =
     (case tryAcquireCap key cap r of ((ok, n), r1) \<Rightarrow> (r1, if ok \<and> key \<noteq> '''' \<and> 0 < cap then key # held else held))"
| "cap_step (r, held) (CapRelease key) = (if key \<in> set held then (releaseCap key r, remove1 key held) else (r, held))"
| "cap_step (r, held) (CapSetTopic topic cap) = (SetTopicConcurrencyCap topic cap r, held)"
| "cap_step (r, held) (CapSetTenant tenant topic cap) = (SetTenantTopicConcurrencyCap tenant topic cap r, held)"

definition caps_exact :: "throttleState \<times> string list \<Rightarrow> bool" where
  "caps_exact st \<longleftrightarrow> '''' \<notin> set (snd st) \<and> (\<forall>key. mdef 0 (th_inflightCaps (fst st)) key = int (count_list (snd st) key))"

lemma count_list_remove1: "count_list (remove1 x xs) y = count_list xs y - (if x = y then 1 else 0)"
  by (induction xs) auto

lemma cap_step_exact:
  assumes "caps_exact st"
  shows "caps_exact (cap_step st c)"
proof (cases st)
  case (Pair r held)
  have eq: "mdef 0 (th_inflightCaps r) key = int (count_list held key)" for key
    using assms Pair by (simp add: caps_exact_def)
  have ne: "'''' \<notin> set held" using assms Pair by (simp add: caps_exact_def)
  show ?thesis
  proof (cases c)
    case (CapRelease key)
    have "0 < count_list held key" if "key \<in> set held" using that by (metis count_list_0_iff not_gr_zero)
    then show ?thesis using CapRelease Pair eq ne
      by (auto simp: caps_exact_def releaseCap_def Let_def count_list_remove1 dest: notin_set_remove1)
  qed (use Pair eq ne in \<open>auto simp: caps_exact_def tryAcquireCap_def SetTopicConcurrencyCap_def
      SetTenantTopicConcurrencyCap_def Let_def split: if_splits\<close>)
qed

lemma cap_step_bound:
  assumes "caps_exact st" "int (count_list (snd st) key) \<le> C" "\<And>cap. c = CapAcquire key cap \<Longrightarrow> cap \<le> C"
  shows "int (count_list (snd (cap_step st c)) key) \<le> C"
proof (cases st)
  case (Pair r held)
  then show ?thesis using assms
    by (cases c) (auto simp: caps_exact_def tryAcquireCap_def Let_def count_list_remove1 split: if_splits)
qed

text \<open>Concurrency caps hold: however runs acquire and release slots and whenever the caps are
  reconfigured, the counter of a key is exactly the number of slots held, so none is lost, and
  at most as many are held as the largest cap an acquisition of that key has used.\<close>

theorem concurrency_cap_respected:
  assumes "th_inflightCaps r = []" "0 \<le> C" "\<And>cap. CapAcquire key cap \<in> set xs \<Longrightarrow> cap \<le> C"
  shows "mdef 0 (th_inflightCaps (fst (run_ops cap_step (r, []) xs))) key = int (count_list (snd (run_ops cap_step (r, []) xs)) key) \<and>
    int (count_list (snd (run_ops cap_step (r, []) xs)) key) \<le> C"
proof -
  have "caps_exact (run_ops cap_step st xs) \<and> int (count_list (snd (run_ops cap_step st xs)) key) \<le> C"
    if "caps_exact st" "int (count_list (snd st) key) \<le> C" "\<And>cap. CapAcquire key cap \<in> set xs \<Longrightarrow> cap \<le> C" for st xs
    using that
  proof (induction xs arbitrary: st)
    case (Cons c xs)
    then show ?case using cap_step_exact [of st c] cap_step_bound [of st key C c] by simp
  qed simp
  from this [of "(r, [])" xs] assms show ?thesis by (simp add: caps_exact_def)
qed

definition example_caps :: throttleState where
  "example_caps = WithThrottleConfig \<lparr>tc_TopicCaps = [(''embed'', 2)], tc_TenantTopicCaps = [('' acme : embed '', 1)]\<rparr>
     \<lparr>th_topicCaps = [], th_tenantTopicCaps = [], th_inflightCaps = []\<rparr>"

definition example_cap_steps :: "capStep list" where
  "example_cap_steps = [CapAcquire ''topic:embed'' 2, CapAcquire ''topic:embed'' 2, CapAcquire ''topic:embed'' 2, CapRelease ''topic:embed'']"

theorem concurrency_cap_respected_witness:
  "concurrencyCapFor example_caps ''acme'' ''embed'' = (1, ThrottleScopeTenantTopic, ''tenant:acme|topic:embed'') \<and>
   int (count_list (snd (run_ops cap_step (example_caps, []) example_cap_steps)) ''topic:embed'') \<le> 2 \<and>
   count_list (snd (run_ops cap_step (example_caps, []) example_cap_steps)) ''topic:embed'' = 1"
proof (intro conjI)
  have "th_inflightCaps example_caps = []" by code_simp
  then show "int (count_list (snd (run_ops cap_step (example_caps, []) example_cap_steps)) ''topic:embed'') \<le> 2"
    using concurrency_cap_respected [of example_caps 2 "''topic:embed''" example_cap_steps] by (auto simp: example_cap_steps_def)
qed code_simp+

end
