(* ===== verification/DagRunner.thy ===== *)
theory DagRunner
  imports WorkflowDag Throttle
begin

text \<open>
  The DAG scheduler, \<^verbatim>\<open>internal/engine/runner_dag.go\<close>: \<open>runDAGWithCache\<close> from its entry to its
  return, with the payload builder of \<^verbatim>\<open>runner_artifacts.go\<close> and \<^verbatim>\<open>node_finished_proof.go\<close>.

  \<^item> \<open>dagEnv\<close> holds what is fixed during one run: the store's methods, the graph, the effective
    budget, the replay cache, and as parameters the parts of the runner that are other
    components: the human-approval step (\<open>dv_human\<close>), the artifact store (\<open>dv_put\<close>), the
    self-healing capture (\<open>dv_capture\<close>).
  \<^item> \<open>dagState\<close> holds the variables of the function.  \<open>dg_inflight\<close> are the goroutines started
    and not yet heard of, with what was handed to them; \<open>dg_running\<close> is the code's counter.
  \<^item> One turn of the main loop is \<open>dagIter\<close>: the budget and cancellation checks (\<open>loopHead\<close>), the
    inner loop that starts nodes (\<open>scheduleLoop\<close>, one pass is \<open>scheduleOne\<close>), and what the
    \<open>select\<close> receives (\<open>dagEvent\<close>: the ticker, the end of the context, a usage report or a
    result).  What other goroutines do to the store and the caps between two turns is an
    arbitrary change given with each turn.
  \<^item> The clock is read once per turn.
\<close>

section \<open>Data\<close>

record replayCacheEntry =
  rc_Attempt :: int
  rc_Output :: json

datatype nodeErr = NEDelay delayError | NEPending | NEOther string

definition nodeErr_Error :: "nodeErr \<Rightarrow> string" where
  "nodeErr_Error e = (case e of NEDelay d \<Rightarrow> ''delay'' | NEPending \<Rightarrow> ''human approval pending'' | NEOther s \<Rightarrow> s)"

record nodeResult =
  nr_nodeID :: string
  nr_attempt :: int
  nr_started :: gotime
  nr_ended :: gotime
  nr_input :: json
  nr_output :: json
  nr_err :: "nodeErr option"

record startedNode =
  sn_nodeID :: string
  sn_attempt :: int
  sn_started :: gotime
  sn_input :: json
  sn_result :: "nodeResult option"

datatype humanOutcome = HumanNo | HumanError engineError | HumanPending | HumanDone nodeResult

record ('f, 's) dagEnv =
  dv_ops :: "'s storeOps"
  dv_runID :: string
  dv_wfID :: string
  dv_graph :: "'f workflowGraph"
  dv_initialInput :: json
  dv_cache :: "(string, replayCacheEntry) gomap option"
  dv_effBudget :: budgetPolicy
  dv_tenantID :: string
  dv_maxPar :: int
  dv_human :: "'f nodeDef \<Rightarrow> int \<Rightarrow> json \<Rightarrow> gotime \<Rightarrow> 's \<Rightarrow> humanOutcome \<times> 's"
  dv_jsonLen :: "json \<Rightarrow> int"
  dv_inlineLimit :: int
  dv_put :: "(json \<Rightarrow> engineError + (json \<times> json)) option"
  dv_capture :: "'s \<Rightarrow> 's"

record 's dagState =
  dg_store :: "'s"
  dg_run :: run
  dg_done :: "(string, nodeExecution) gomap"
  dg_outputs :: "(string, json) gomap"
  dg_maxAttempt :: "(string, int) gomap"
  dg_attemptsUsed :: int
  dg_inDegree :: "(string, int) gomap"
  dg_ready :: "string list"
  dg_running :: int
  dg_inflight :: "startedNode list"
  dg_inflightKey :: "(string, string) gomap"
  dg_lastThrottle :: "(string, gotime) gomap"
  dg_throttle :: throttleState
  dg_stopScheduling :: bool
  dg_externalCanceled :: bool
  dg_failed :: bool
  dg_waiting :: bool
  dg_budgetExceeded :: bool
  dg_ctxDone :: bool

section \<open>Calls whose error is ignored\<close>

definition mkEvent :: "string \<Rightarrow> string \<Rightarrow> string \<Rightarrow> string \<Rightarrow> int \<Rightarrow> json \<Rightarrow> runEvent" where
  "mkEvent runID ty wfl node att payload =
     \<lparr>ev_RunID = runID, ev_Seq = 0, ev_Type = ty, ev_At = 0, ev_WorkflowID = wfl, ev_NodeID = node, ev_Attempt = att,
      ev_Payload = payload\<rparr>"

definition emit :: "('f, 's) dagEnv \<Rightarrow> gotime \<Rightarrow> string \<Rightarrow> string \<Rightarrow> string \<Rightarrow> int \<Rightarrow> json \<Rightarrow> 's dagState \<Rightarrow> 's dagState" where
  "emit env now ty wfl node att payload st =
     st\<lparr>dg_store := snd (so_AppendEvent (dv_ops env) now (mkEvent (dv_runID env) ty wfl node att payload) (dg_store st))\<rparr>"

definition saveRun :: "('f, 's) dagEnv \<Rightarrow> gotime \<Rightarrow> 's dagState \<Rightarrow> 's dagState" where
  "saveRun env now st = st\<lparr>dg_store := snd (so_UpdateRun (dv_ops env) now (dg_run st) (dg_store st))\<rparr>"

definition saveNode :: "('f, 's) dagEnv \<Rightarrow> gotime \<Rightarrow> nodeExecution \<Rightarrow> 's dagState \<Rightarrow> engineError option \<times> 's dagState" where
  "saveNode env now ne st =
     (case so_UpsertNodeExecution (dv_ops env) now ne (dg_store st) of (err, s) \<Rightarrow> (err, st\<lparr>dg_store := s\<rparr>))"

definition isCanceled :: "('f, 's) dagEnv \<Rightarrow> 's dagState \<Rightarrow> bool" where
  "isCanceled env st =
     (case so_GetRun (dv_ops env) (dg_store st) (dv_runID env) of None \<Rightarrow> False | Some r \<Rightarrow> run_Status r = RunStatusCanceled)"

text \<open>\<^verbatim>\<open>run.BudgetUsage.WallClock = now.Sub(*run.StartedAt).Milliseconds()\<close>.\<close>

definition wallClock :: "gotime \<Rightarrow> run \<Rightarrow> run" where
  "wallClock now r =
     (case run_StartedAt r of
        None \<Rightarrow> r
      | Some t \<Rightarrow> r\<lparr>run_BudgetUsage := (run_BudgetUsage r)\<lparr>bu_WallClock := Milliseconds (time_Sub now t)\<rparr>\<rparr>)"

section \<open>Budget\<close>

definition triggerBudgetExceeded :: "('f, 's) dagEnv \<Rightarrow> gotime \<Rightarrow> json \<Rightarrow> 's dagState \<Rightarrow> 's dagState" where
  "triggerBudgetExceeded env now p st =
     (if dg_budgetExceeded st then st
      else
        let r = dg_run st;
            r1 = r\<lparr>run_Status := RunStatusFailed, run_EndedAt := Some now, run_TerminalReason := ''budget_exceeded'',
                   run_BudgetUsage := (run_BudgetUsage r)\<lparr>bu_Attempts := dg_attemptsUsed st\<rparr>\<rparr>;
            st1 = saveRun env now (st\<lparr>dg_budgetExceeded := True, dg_run := (wallClock now r1)\<lparr>run_TerminalMeta := marshal p\<rparr>\<rparr>);
            st2 = emit env now EventBudgetExceeded (dv_wfID env) '''' 0 (marshal p) st1;
            st3 = emit env now EventRunFinished (dv_wfID env) '''' 0
                    (JObj [(''status'', JText ''failed''), (''terminal_reason'', JText ''budget_exceeded'')]) st2
        in st3\<lparr>dg_store := dv_capture env (dg_store st3), dg_stopScheduling := True, dg_ctxDone := True\<rparr>)"

definition budgetPayload :: "string \<Rightarrow> string \<Rightarrow> json \<Rightarrow> string \<Rightarrow> json \<Rightarrow> json" where
  "budgetPayload reason limKey bound usedKey used =
     JObj [(''scope'', JText ''run''), (''reason'', JText reason), (''limit'', JObj [(limKey, bound)]), (''used'', JObj [(usedKey, used)])]"

definition loopHead :: "('f, 's) dagEnv \<Rightarrow> gotime \<Rightarrow> 's dagState \<Rightarrow> 's dagState" where
  "loopHead env now st =
     (let bound = bp_WallClockTimeoutMS (dv_effBudget env);
          st1 = (case run_StartedAt (dg_run st) of
                   None \<Rightarrow> st
                 | Some t0 \<Rightarrow>
                     let used = Milliseconds (time_Sub now t0) in
                     if \<not> dg_budgetExceeded st \<and> 0 < bound \<and> bound < used
                     then triggerBudgetExceeded env now
                            (budgetPayload ''wall_clock_timeout'' ''wall_clock_timeout_ms'' (JInt bound) ''wall_clock_ms'' (JInt used)) st
                     else st)
      in if \<not> dg_stopScheduling st1 \<and> isCanceled env st1
         then st1\<lparr>dg_externalCanceled := True, dg_stopScheduling := True, dg_ctxDone := True\<rparr>
         else st1)"

section \<open>Payload of a finished node\<close>

record nodeFinishedPayload =
  nf_Output :: json
  nf_ArtifactRef :: "json option"
  nf_ArtifactMeta :: "json option"
  nf_UsedCachedOutput :: bool
  nf_CachedAttempt :: int
  nf_QueuedAt :: "gotime option"
  nf_StartedAt :: "gotime option"
  nf_EndedAt :: "gotime option"
  nf_QueueMS :: int
  nf_WorkerMS :: int

definition emptyFinished :: "json \<Rightarrow> nodeFinishedPayload" where
  "emptyFinished out = \<lparr>nf_Output = out, nf_ArtifactRef = None, nf_ArtifactMeta = None, nf_UsedCachedOutput = False,
     nf_CachedAttempt = 0, nf_QueuedAt = None, nf_StartedAt = None, nf_EndedAt = None, nf_QueueMS = 0, nf_WorkerMS = 0\<rparr>"

definition buildNodeFinishedPayload :: "('f, 's) dagEnv \<Rightarrow> json \<Rightarrow> engineError + nodeFinishedPayload" where
  "buildNodeFinishedPayload env out =
     (let limit = (if dv_inlineLimit env < 0 then 0 else dv_inlineLimit env) in
      if out = JNil then Inr (emptyFinished JNil)
      else if 0 < limit \<and> dv_jsonLen env out \<le> limit
      then (if json_ok out then Inr (emptyFinished out) else Inl (EText ''json: invalid RawMessage''))
      else case dv_put env of
             None \<Rightarrow> Inl (EText ''artifact store not configured'')
           | Some put \<Rightarrow>
               (case put out of
                  Inl err \<Rightarrow> Inl err
                | Inr (ref, meta) \<Rightarrow> Inr ((emptyFinished JNil)\<lparr>nf_ArtifactRef := Some ref, nf_ArtifactMeta := Some meta\<rparr>)))"

definition InjectNodeFinishedProofFields ::
  "int option \<Rightarrow> gotime \<Rightarrow> gotime \<Rightarrow> nodeFinishedPayload \<Rightarrow> nodeFinishedPayload" where
  "InjectNodeFinishedProofFields cached start fin p =
     p\<lparr>nf_UsedCachedOutput := (cached \<noteq> None),
       nf_CachedAttempt := (case cached of Some a \<Rightarrow> a | None \<Rightarrow> nf_CachedAttempt p),
       nf_QueuedAt := Some start, nf_StartedAt := Some start, nf_EndedAt := Some fin, nf_QueueMS := 0,
       nf_WorkerMS := Milliseconds (time_Sub fin start)\<rparr>"

definition optJSON :: "string \<Rightarrow> json option \<Rightarrow> (string \<times> json) list" where
  "optJSON k v = (case v of None \<Rightarrow> [] | Some j \<Rightarrow> [(k, j)])"

definition finishedJSON :: "nodeFinishedPayload \<Rightarrow> json" where
  "finishedJSON p = JObj (omitempty (nf_Output p = JNil) ''output'' (nf_Output p)
     @ optJSON ''artifact_ref'' (nf_ArtifactRef p) @ optJSON ''artifact_meta'' (nf_ArtifactMeta p)
     @ omitempty (\<not> nf_UsedCachedOutput p) ''used_cached_output'' (JBool True)
     @ omitempty (nf_CachedAttempt p = 0) ''cached_attempt'' (JInt (nf_CachedAttempt p))
     @ optJSON ''queued_at'' (map_option JTime (nf_QueuedAt p)) @ optJSON ''started_at'' (map_option JTime (nf_StartedAt p))
     @ optJSON ''ended_at'' (map_option JTime (nf_EndedAt p))
     @ omitempty (nf_QueueMS p = 0) ''queue_ms'' (JInt (nf_QueueMS p))
     @ omitempty (nf_WorkerMS p = 0) ''worker_ms'' (JInt (nf_WorkerMS p)))"

section \<open>Starting nodes\<close>

definition nodeIndexOf :: "'f workflowGraph \<Rightarrow> string \<Rightarrow> nat" where
  "nodeIndexOf g i = (case filter (\<lambda>k. nd_NodeID (wg_Nodes g ! k) = i) [0..<length (wg_Nodes g)] of [] \<Rightarrow> 0 | ks \<Rightarrow> last ks)"

definition nodeByID :: "'f workflowGraph \<Rightarrow> string \<Rightarrow> 'f nodeDef option" where
  "nodeByID g i = find (\<lambda>n. nd_NodeID n = i) (rev (wg_Nodes g))"

definition parentsOf :: "nodeEdge list \<Rightarrow> string \<Rightarrow> string list" where
  "parentsOf es i = map ed_From (filter (\<lambda>e. ed_To e = i) es)"

text \<open>After a node is done: its children lose one open dependency each.\<close>

fun relaxReady :: "(string, nodeExecution) gomap \<Rightarrow> string list \<Rightarrow> (string, int) gomap \<Rightarrow> string list \<Rightarrow> (string, int) gomap \<times> string list" where
  "relaxReady dn [] inDegree ready = (inDegree, ready)"
| "relaxReady dn (c # cs) inDegree ready =
     (if mget dn c \<noteq> None then relaxReady dn cs inDegree ready
      else
        let d = mdef 0 inDegree c - 1; inDegree1 = mput c d inDegree in
        relaxReady dn cs inDegree1 (if d = 0 then ready @ [c] else ready))"

definition nodeDone :: "('f, 's) dagEnv \<Rightarrow> string \<Rightarrow> 's dagState \<Rightarrow> 's dagState" where
  "nodeDone env nodeID st =
     (case relaxReady (dg_done st) (mdef [] (childrenMap (wg_Edges (dv_graph env))) nodeID) (dg_inDegree st) (dg_ready st) of
        (inDegree1, ready1) \<Rightarrow> st\<lparr>dg_inDegree := inDegree1, dg_ready := sort_key (nodeIndexOf (dv_graph env)) ready1\<rparr>)"

definition releaseSlot :: "string \<Rightarrow> 's dagState \<Rightarrow> 's dagState" where
  "releaseSlot nodeID st =
     (let key = mdef '''' (dg_inflightKey st) nodeID in
      if key = '''' then st
      else st\<lparr>dg_throttle := releaseCap key (dg_throttle st), dg_inflightKey := mdel nodeID (dg_inflightKey st)\<rparr>)"

text \<open>The input of a node: the initial input, or an object with the outputs of its parents.\<close>

definition aggInput :: "(string, json) gomap \<Rightarrow> string list \<Rightarrow> json" where
  "aggInput outputs deps =
     JObj (map (\<lambda>d. (d, let j = mdef JNil outputs d in if j = JNil then JNull else j)) (sort (remdups deps)))"

datatype schedCtl = SSkip | SPlaced | SBreak | SReturn engineError

text \<open>The concurrency cap of the node's topic.\<close>

definition acquireSlot :: "('f, 's) dagEnv \<Rightarrow> gotime \<Rightarrow> 'f nodeDef \<Rightarrow> 's dagState \<Rightarrow> bool \<times> 's dagState" where
  "acquireSlot env now node st =
     (if dv_cache env \<noteq> None \<or> nd_Topic node = '''' then (True, st)
      else
        case concurrencyCapFor (dg_throttle st) (dv_tenantID env) (nd_Topic node) of (cap, scope, key) \<Rightarrow>
        if cap \<le> 0 then (True, st)
        else
          case tryAcquireCap key cap (dg_throttle st) of
            ((True, n), th) \<Rightarrow>
              (True, st\<lparr>dg_throttle := th, dg_inflightKey := mput (nd_NodeID node) key (dg_inflightKey st)\<rparr>)
          | ((False, n), th) \<Rightarrow>
              (let st1 = st\<lparr>dg_throttle := th, dg_ready := dg_ready st @ [nd_NodeID node]\<rparr> in
               case shouldEmitThrottle (dg_lastThrottle st1) key now (250 * millisecond) of
                 (True, lst) \<Rightarrow>
                   (False, emit env now EventThrottled (dv_wfID env) (nd_NodeID node) 0
                      (marshal (throttledJSON \<lparr>tp_Reason = ''concurrency_cap'', tp_Scope = scope, tp_TenantID = dv_tenantID env,
                         tp_Topic = nd_Topic node, tp_Limit = cap, tp_Inflight = n, tp_RetryAfterMS = 25\<rparr>))
                      (st1\<lparr>dg_lastThrottle := lst\<rparr>))
               | (False, lst) \<Rightarrow> (False, st1\<lparr>dg_lastThrottle := lst\<rparr>)))"

definition nodeRecord :: "('f, 's) dagEnv \<Rightarrow> string \<Rightarrow> int \<Rightarrow> string \<Rightarrow> gotime \<Rightarrow> gotime option \<Rightarrow> json \<Rightarrow> json \<Rightarrow> string \<Rightarrow> nodeExecution" where
  "nodeRecord env nodeID att status started ended input outp err =
     \<lparr>ne_RunID = dv_runID env, ne_WorkflowID = dv_wfID env, ne_NodeID = nodeID, ne_Attempt = att, ne_Status = status,
      ne_StartedAt = Some started, ne_EndedAt = ended, ne_Input = input, ne_Output = outp, ne_Error = err\<rparr>"

text \<open>A node whose output is in the replay cache is finished on the spot.\<close>

definition replayNode ::
  "('f, 's) dagEnv \<Rightarrow> gotime \<Rightarrow> string \<Rightarrow> int \<Rightarrow> json \<Rightarrow> replayCacheEntry \<Rightarrow> 's dagState \<Rightarrow> schedCtl \<times> 's dagState" where
  "replayNode env now nodeID att input entry st =
     (let st1 = emit env now EventNodeStarted (dv_wfID env) nodeID att JNil st;
          ne = nodeRecord env nodeID att NodeStatusSucceeded now (Some now) input (rc_Output entry) ''''
      in case saveNode env now ne st1 of
           (Some err, st2) \<Rightarrow> (SReturn err, st2)
         | (None, st2) \<Rightarrow>
             let st3 = st2\<lparr>dg_done := mput nodeID ne (dg_done st2)\<rparr> in
             (case buildNodeFinishedPayload env (rc_Output entry) of
                Inl err \<Rightarrow> (SReturn err, st3)
              | Inr p \<Rightarrow>
                  let st4 = emit env now EventNodeFinished (dv_wfID env) nodeID att
                              (finishedJSON (InjectNodeFinishedProofFields (Some (rc_Attempt entry)) now now p)) st3
                  in (SPlaced, nodeDone env nodeID (st4\<lparr>dg_outputs := mput nodeID (rc_Output entry) (dg_outputs st4)\<rparr>))))"

definition startNode :: "('f, 's) dagEnv \<Rightarrow> gotime \<Rightarrow> string \<Rightarrow> int \<Rightarrow> json \<Rightarrow> 's dagState \<Rightarrow> schedCtl \<times> 's dagState" where
  "startNode env now nodeID att input st =
     (case saveNode env now (nodeRecord env nodeID att NodeStatusRunning now None input JNil '''') st of
        (Some err, st1) \<Rightarrow> (SReturn err, releaseSlot nodeID st1)
      | (None, st1) \<Rightarrow>
          let st2 = emit env now EventNodeStarted (dv_wfID env) nodeID att JNil st1 in
          (SPlaced, st2\<lparr>dg_running := dg_running st2 + 1,
             dg_inflight := dg_inflight st2 @ [\<lparr>sn_nodeID = nodeID, sn_attempt = att, sn_started = now, sn_input = input, sn_result = None\<rparr>]\<rparr>))"

text \<open>The node has its slot: count the attempt, build the input, then the human step, the replay
  cache or a goroutine.\<close>

definition countAttempt :: "('f, 's) dagEnv \<Rightarrow> gotime \<Rightarrow> 's dagState \<Rightarrow> 's dagState" where
  "countAttempt env now st =
     saveRun env now (st\<lparr>dg_attemptsUsed := dg_attemptsUsed st + 1,
       dg_run := wallClock now ((dg_run st)\<lparr>run_BudgetUsage := (run_BudgetUsage (dg_run st))\<lparr>bu_Attempts := dg_attemptsUsed st + 1\<rparr>\<rparr>)\<rparr>)"

definition nodeInput :: "('f, 's) dagEnv \<Rightarrow> 's dagState \<Rightarrow> string \<Rightarrow> json" where
  "nodeInput env st nodeID =
     (let deps = parentsOf (wg_Edges (dv_graph env)) nodeID in
      if deps = [] then dv_initialInput env else aggInput (dg_outputs st) deps)"

definition inputFails :: "('f, 's) dagEnv \<Rightarrow> 's dagState \<Rightarrow> string \<Rightarrow> bool" where
  "inputFails env st nodeID \<longleftrightarrow> parentsOf (wg_Edges (dv_graph env)) nodeID \<noteq> [] \<and> \<not> json_ok (nodeInput env st nodeID)"

definition nextAttempt :: "'s dagState \<Rightarrow> string \<Rightarrow> int" where
  "nextAttempt st nodeID = (let prev = mdef 0 (dg_maxAttempt st) nodeID in if 0 < prev then prev + 1 else 1)"

definition humanWait :: "('f, 's) dagEnv \<Rightarrow> gotime \<Rightarrow> string \<Rightarrow> 's dagState \<Rightarrow> 's dagState" where
  "humanWait env now nodeID st =
     releaseSlot nodeID
       ((saveRun env now (st\<lparr>dg_run := (dg_run st)\<lparr>run_Status := RunStatusWaiting, run_EndedAt := None\<rparr>\<rparr>))
          \<lparr>dg_waiting := True, dg_stopScheduling := True\<rparr>)"

definition humanResult :: "nodeResult \<Rightarrow> 's dagState \<Rightarrow> 's dagState" where
  "humanResult res st =
     st\<lparr>dg_running := dg_running st + 1,
        dg_inflight := dg_inflight st @ [\<lparr>sn_nodeID = nr_nodeID res, sn_attempt = nr_attempt res,
          sn_started = nr_started res, sn_input = nr_input res, sn_result = Some res\<rparr>]\<rparr>"

definition dispatchNode ::
  "('f, 's) dagEnv \<Rightarrow> gotime \<Rightarrow> string \<Rightarrow> int \<Rightarrow> json \<Rightarrow> humanOutcome \<Rightarrow> 's dagState \<Rightarrow> schedCtl \<times> 's dagState" where
  "dispatchNode env now nodeID att input ho st =
     (case ho of
        HumanError err \<Rightarrow> (SReturn err, releaseSlot nodeID st)
      | HumanPending \<Rightarrow> (SPlaced, humanWait env now nodeID st)
      | HumanDone res \<Rightarrow> (SPlaced, humanResult res st)
      | HumanNo \<Rightarrow>
          (case (case dv_cache env of None \<Rightarrow> None | Some cache \<Rightarrow> mget cache nodeID) of
             Some entry \<Rightarrow> replayNode env now nodeID att input entry st
           | None \<Rightarrow> startNode env now nodeID att input st))"

definition placeNode :: "('f, 's) dagEnv \<Rightarrow> gotime \<Rightarrow> 'f nodeDef \<Rightarrow> 's dagState \<Rightarrow> schedCtl \<times> 's dagState" where
  "placeNode env now node st0 =
     (let nodeID = nd_NodeID node; st1 = countAttempt env now st0; input = nodeInput env st1 nodeID in
      if inputFails env st1 nodeID then (SReturn (EText ''json: invalid RawMessage''), releaseSlot nodeID st1)
      else
        let att = nextAttempt st1 nodeID; st2 = st1\<lparr>dg_maxAttempt := mput nodeID att (dg_maxAttempt st1)\<rparr> in
        case dv_human env node att input now (dg_store st2) of
          (ho, s) \<Rightarrow> dispatchNode env now nodeID att input ho (st2\<lparr>dg_store := s\<rparr>))"

definition scheduleOne :: "('f, 's) dagEnv \<Rightarrow> gotime \<Rightarrow> 's dagState \<Rightarrow> schedCtl \<times> 's dagState" where
  "scheduleOne env now st0 =
     (case dg_ready st0 of
        [] \<Rightarrow> (SBreak, st0)
      | nodeID # rest \<Rightarrow>
          let st = st0\<lparr>dg_ready := rest\<rparr>; bound = bp_MaxAttempts (dv_effBudget env) in
          (case nodeByID (dv_graph env) nodeID of
             None \<Rightarrow> (SReturn ErrGraphInvalid, st)
           | Some node \<Rightarrow>
               if \<not> dg_budgetExceeded st \<and> 0 < bound \<and> bound < dg_attemptsUsed st + 1
               then (SBreak, triggerBudgetExceeded env now
                       (budgetPayload ''max_attempts'' ''max_attempts'' (JInt bound) ''attempts'' (JInt (dg_attemptsUsed st))) st)
               else
                 (case acquireSlot env now node st of
                    (False, st1) \<Rightarrow> (SSkip, st1)
                  | (True, st1) \<Rightarrow> placeNode env now node st1)))"

lemma relaxReady_measure:
  "relaxReady dn cs m q = (m', q') \<Longrightarrow> length q' + pendingDegree m' \<le> length q + pendingDegree m"
proof (induction cs arbitrary: m q)
  case (Cons c cs)
  let ?d = "mdef 0 m c - 1"
  show ?case
  proof (cases "mget dn c = None")
    case True
    with Cons.prems have "relaxReady dn cs (mput c ?d m) (if ?d = 0 then q @ [c] else q) = (m', q')"
      by (simp add: Let_def)
    from Cons.IH [OF this] pendingDegree_dec [of c m] show ?thesis by (auto split: if_splits)
  next
    case False
    with Cons show ?thesis by simp
  qed
qed simp

definition sched_left :: "'s dagState \<Rightarrow> nat" where
  "sched_left st = length (dg_ready st) + pendingDegree (dg_inDegree st)"

lemma frame_simps [simp]:
  "dg_ready (emit env now ty wfl node att p st) = dg_ready st" "dg_inDegree (emit env now ty wfl node att p st) = dg_inDegree st"
  "dg_ready (saveRun env now st) = dg_ready st" "dg_inDegree (saveRun env now st) = dg_inDegree st"
  "dg_ready (releaseSlot i st) = dg_ready st" "dg_inDegree (releaseSlot i st) = dg_inDegree st"
  by (simp_all add: emit_def saveRun_def releaseSlot_def Let_def)

lemma nodeDone_left: "sched_left (nodeDone env i st) \<le> sched_left st"
  by (auto simp: nodeDone_def sched_left_def split: prod.splits dest: relaxReady_measure)

lemma frame_simps2 [simp]:
  "dg_ready (countAttempt env now st) = dg_ready st" "dg_inDegree (countAttempt env now st) = dg_inDegree st"
  "dg_ready (humanWait env now i st) = dg_ready st" "dg_inDegree (humanWait env now i st) = dg_inDegree st"
  "dg_ready (humanResult res st) = dg_ready st" "dg_inDegree (humanResult res st) = dg_inDegree st"
  by (simp_all add: countAttempt_def humanWait_def humanResult_def)

lemma saveNode_frame: "saveNode env now ne st = (err, st') \<Longrightarrow> \<exists>s. st' = st\<lparr>dg_store := s\<rparr>"
  by (auto simp: saveNode_def split: prod.splits)

lemma replayNode_left:
  assumes "replayNode env now i a j entry st = (c, st')"
  shows "sched_left st' \<le> sched_left st" "c \<noteq> SSkip"
proof -
  have "sched_left (nodeDone env i x) \<le> sched_left st" if "dg_ready x = dg_ready st" "dg_inDegree x = dg_inDegree st" for i x
    using nodeDone_left [of env i x] that by (simp add: sched_left_def)
  with assms show "sched_left st' \<le> sched_left st"
    by (auto simp: replayNode_def Let_def sched_left_def dest!: saveNode_frame split: prod.splits option.splits sum.splits)
  from assms show "c \<noteq> SSkip"
    by (auto simp: replayNode_def Let_def split: prod.splits option.splits sum.splits)
qed

lemma startNode_left:
  assumes "startNode env now i a j st = (c, st')"
  shows "sched_left st' \<le> sched_left st" "c \<noteq> SSkip"
  using assms by (auto simp: startNode_def Let_def sched_left_def dest!: saveNode_frame split: prod.splits option.splits)

lemma placeNode_left:
  assumes "placeNode env now node st = (c, st')"
  shows "sched_left st' \<le> sched_left st" "c \<noteq> SSkip"
proof -
  have "sched_left st' \<le> sched_left x \<and> c \<noteq> SSkip" if "dispatchNode env now i a j ho x = (c, st')" for i a j ho x
    using that replayNode_left [of env now i a j _ x c st'] startNode_left [of env now i a j x c st']
    by (auto simp: dispatchNode_def sched_left_def split: humanOutcome.splits option.splits)
  then show "sched_left st' \<le> sched_left st" "c \<noteq> SSkip"
    using assms by (fastforce simp: placeNode_def Let_def sched_left_def split: if_splits prod.splits)+
qed

lemma acquireSlot_frame:
  assumes "acquireSlot env now node st = (ok, st')"
  shows "dg_ready st' = (if ok then dg_ready st else dg_ready st @ [nd_NodeID node])" "dg_inDegree st' = dg_inDegree st"
  using assms by (auto simp: acquireSlot_def Let_def split: if_splits prod.splits bool.splits)

lemma scheduleOne_left:
  assumes "scheduleOne env now st = (c, st')" "dg_ready st \<noteq> []"
  shows "c = SPlaced \<Longrightarrow> sched_left st' < sched_left st" "c = SSkip \<Longrightarrow> sched_left st' = sched_left st"
proof -
  obtain i rest where r: "dg_ready st = i # rest" using assms(2) by (cases "dg_ready st") auto
  let ?st = "st\<lparr>dg_ready := rest\<rparr>"
  have pl: "sched_left st' < sched_left st" if "acquireSlot env now node ?st = (True, st1)" "placeNode env now node st1 = (c, st')" for node st1
    using acquireSlot_frame [OF that(1)] placeNode_left(1) [OF that(2)] r by (simp add: sched_left_def)
  have sk: "sched_left st' = sched_left st" if "acquireSlot env now node ?st = (False, st')" for node
    using acquireSlot_frame [OF that] r by (simp add: sched_left_def)
  have "placeNode env now node st1 \<noteq> (SSkip, st2)" for node st1 st2
    using placeNode_left(2) by blast
  with assms(1) pl sk show "c = SPlaced \<Longrightarrow> sched_left st' < sched_left st" "c = SSkip \<Longrightarrow> sched_left st' = sched_left st"
    by (auto simp: scheduleOne_def r Let_def split: option.splits if_splits prod.splits bool.splits)
qed

text \<open>Each pass consumes a ready node, turns an open dependency into a ready node, or is one of at
  most \<open>maxSkips\<close> passes in a row that only rotate the queue.\<close>

function scheduleLoop :: "('f, 's) dagEnv \<Rightarrow> gotime \<Rightarrow> nat \<Rightarrow> nat \<Rightarrow> 's dagState \<Rightarrow> engineError option \<times> 's dagState" where
  "scheduleLoop env now maxSkips skips st =
     (if dg_stopScheduling st \<or> \<not> dg_running st < dv_maxPar env \<or> dg_ready st = [] \<or> maxSkips \<le> skips then (None, st)
      else
        case scheduleOne env now st of
          (SBreak, st1) \<Rightarrow> (None, st1)
        | (SReturn err, st1) \<Rightarrow> (Some err, st1)
        | (SSkip, st1) \<Rightarrow> scheduleLoop env now maxSkips (skips + 1) st1
        | (SPlaced, st1) \<Rightarrow> scheduleLoop env now maxSkips 0 st1)"
  by pat_completeness auto
termination
proof (relation "(\<lambda>(env, now, maxSkips, skips, st). sched_left st) <*mlex*> measure (\<lambda>(env, now, maxSkips, skips, st). maxSkips - skips)", goal_cases)
  case 1
  then show ?case by (simp add: wf_mlex)
next
  case (2 env now maxSkips skips st c st1)
  from scheduleOne_left(2) [OF this(2) [symmetric]] 2 show ?case by (auto simp: mlex_prod_def)
next
  case (3 env now maxSkips skips st c st1)
  from scheduleOne_left(1) [OF this(2) [symmetric]] 3 show ?case by (auto simp: mlex_prod_def)
qed

declare scheduleLoop.simps [simp del]

section \<open>Results\<close>

datatype dagEvent = EvTick | EvDone | EvUsage int rat | EvResult nodeResult

datatype 's dagOut = DagOn "'s dagState" | DagReturn engineError "'s dagState"

definition dropInflight :: "nodeResult \<Rightarrow> startedNode list \<Rightarrow> startedNode list" where
  "dropInflight res fl =
     (case find (\<lambda>x. sn_nodeID x = nr_nodeID res \<and> sn_attempt x = nr_attempt res) fl of None \<Rightarrow> fl | Some x \<Rightarrow> remove1 x fl)"

definition resultCanceled :: "('f, 's) dagEnv \<Rightarrow> gotime \<Rightarrow> nodeResult \<Rightarrow> string \<Rightarrow> 's dagState \<Rightarrow> 's dagState" where
  "resultCanceled env now res err st =
     snd (saveNode env now (nodeRecord env (nr_nodeID res) (nr_attempt res) NodeStatusCanceled (nr_started res) (Some (nr_ended res)) (nr_input res) JNil err) st)"

definition resultDelay :: "('f, 's) dagEnv \<Rightarrow> gotime \<Rightarrow> nodeResult \<Rightarrow> delayError \<Rightarrow> 's dagState \<Rightarrow> 's dagState" where
  "resultDelay env now res d st =
     (let fireAt = now + de_After d; i = nr_nodeID res; a = nr_attempt res;
          st1 = snd (saveNode env now (nodeRecord env i a NodeStatusWaiting (nr_started res) (Some now) (nr_input res) JNil '''') st);
          st2 = st1\<lparr>dg_store := snd (so_UpsertTimer (dv_ops env) now
                  \<lparr>tm_RunID = dv_runID env, tm_WorkflowID = dv_wfID env, tm_NodeID = i, tm_Attempt = a, tm_Status = TimerScheduled,
                   tm_FireAt = fireAt, tm_CreatedAt = now, tm_FiredAt = None, tm_Reason = de_Reason d\<rparr> (dg_store st1))\<rparr>;
          st3 = emit env now EventTimerScheduled (dv_wfID env) i a (JObj [(''fire_at'', JTime fireAt), (''reason'', JText (de_Reason d))]) st2;
          st4 = saveRun env now (st3\<lparr>dg_run := (dg_run st3)\<lparr>run_Status := RunStatusWaiting, run_EndedAt := None\<rparr>\<rparr>)
      in st4\<lparr>dg_waiting := True, dg_stopScheduling := True\<rparr>)"

definition resultFailed :: "('f, 's) dagEnv \<Rightarrow> gotime \<Rightarrow> nodeResult \<Rightarrow> string \<Rightarrow> 's dagState \<Rightarrow> 's dagState" where
  "resultFailed env now res msg st =
     (let i = nr_nodeID res; a = nr_attempt res;
          st1 = snd (saveNode env now (nodeRecord env i a NodeStatusFailed (nr_started res) (Some (nr_ended res)) (nr_input res) JNil msg) st);
          st2 = emit env now EventNodeFailed (dv_wfID env) i a (JObj [(''error'', JText msg)]) st1;
          st3 = saveRun env now (st2\<lparr>dg_run := (dg_run st2)\<lparr>run_Status := RunStatusFailed, run_EndedAt := Some (nr_ended res),
                  run_TerminalReason := ''node_failed'',
                  run_TerminalMeta := JObj [(''attempt'', JInt a), (''error'', JText msg), (''failed_node'', JText i)]\<rparr>\<rparr>);
          st4 = emit env now EventRunFinished '''' '''' 0 (JObj [(''failed_node'', JText i), (''status'', JText ''failed'')]) st3
      in st4\<lparr>dg_store := dv_capture env (dg_store st4), dg_failed := True, dg_stopScheduling := True, dg_ctxDone := True\<rparr>)"

definition resultOk :: "('f, 's) dagEnv \<Rightarrow> gotime \<Rightarrow> nodeResult \<Rightarrow> 's dagState \<Rightarrow> 's dagOut" where
  "resultOk env now res st =
     (let i = nr_nodeID res; a = nr_attempt res;
          ne = nodeRecord env i a NodeStatusSucceeded (nr_started res) (Some (nr_ended res)) (nr_input res) (nr_output res) ''''
      in case saveNode env now ne st of
           (Some err, st1) \<Rightarrow> DagReturn err st1
         | (None, st1) \<Rightarrow>
             let st2 = st1\<lparr>dg_done := mput i ne (dg_done st1)\<rparr> in
             (case buildNodeFinishedPayload env (nr_output res) of
                Inl err \<Rightarrow> DagReturn err st2
              | Inr p \<Rightarrow>
                  let st3 = emit env now EventNodeFinished (dv_wfID env) i a
                              (finishedJSON (InjectNodeFinishedProofFields None (nr_started res) (nr_ended res) p)) st2
                  in DagOn (nodeDone env i (st3\<lparr>dg_outputs := mput i (nr_output res) (dg_outputs st3)\<rparr>))))"

definition handleResult :: "('f, 's) dagEnv \<Rightarrow> gotime \<Rightarrow> nodeResult \<Rightarrow> 's dagState \<Rightarrow> 's dagOut" where
  "handleResult env now res st0 =
     (let st = releaseSlot (nr_nodeID res) (st0\<lparr>dg_running := dg_running st0 - 1, dg_inflight := dropInflight res (dg_inflight st0)\<rparr>) in
      if dg_budgetExceeded st then DagOn (resultCanceled env now res ''budget_exceeded'' st)
      else if dg_externalCanceled st \<or> isCanceled env st
      then DagOn ((resultCanceled env now res '''' st)\<lparr>dg_stopScheduling := True\<rparr>)
      else case nr_err res of
             Some (NEDelay d) \<Rightarrow> DagOn (resultDelay env now res d st)
           | Some e \<Rightarrow> DagOn (resultFailed env now res (nodeErr_Error e) st)
           | None \<Rightarrow> resultOk env now res st)"

definition handleUsage :: "('f, 's) dagEnv \<Rightarrow> gotime \<Rightarrow> int \<Rightarrow> rat \<Rightarrow> 's dagState \<Rightarrow> 's dagState" where
  "handleUsage env now tokens dollars st =
     (if dg_budgetExceeded st then st
      else
        let r = dg_run st; u = run_BudgetUsage r;
            st1 = saveRun env now (st\<lparr>dg_run := wallClock now (r\<lparr>run_BudgetUsage := u\<lparr>bu_Tokens := bu_Tokens u + tokens, bu_Dollars := bu_Dollars u + dollars\<rparr>\<rparr>)\<rparr>);
            u1 = run_BudgetUsage (dg_run st1); b = dv_effBudget env
        in if 0 < bp_MaxTokens b \<and> bp_MaxTokens b < bu_Tokens u1
           then triggerBudgetExceeded env now (budgetPayload ''tokens'' ''max_tokens'' (JInt (bp_MaxTokens b)) ''tokens'' (JInt (bu_Tokens u1))) st1
           else if 0 < bp_MaxDollars b \<and> bp_MaxDollars b < bu_Dollars u1
           then triggerBudgetExceeded env now (budgetPayload ''dollars'' ''max_dollars'' (JNum (bp_MaxDollars b)) ''dollars'' (JNum (bu_Dollars u1))) st1
           else st1)"

definition noteDone :: "('f, 's) dagEnv \<Rightarrow> 's dagState \<Rightarrow> 's dagState" where
  "noteDone env st =
     st\<lparr>dg_externalCanceled := (dg_externalCanceled st \<or> isCanceled env st), dg_stopScheduling := True, dg_ctxDone := True\<rparr>"

section \<open>The main loop\<close>

text \<open>One turn: what others did meanwhile (\<open>tn_store\<close>, \<open>tn_throttle\<close>), the time, and what the
  \<open>select\<close> received.  With nothing in flight and nodes still throttled, the code waits for the
  end of the context or a pause; \<open>EvDone\<close> stands for the former.\<close>

record 's dagTurn =
  tn_now :: gotime
  tn_store :: "'s \<Rightarrow> 's"
  tn_throttle :: "throttleState \<Rightarrow> throttleState"
  tn_event :: dagEvent

datatype 's dagStep = StepOn "'s dagState" | StepExit "'s dagState" | StepReturn engineError "'s dagState"

definition dagSelect :: "('f, 's) dagEnv \<Rightarrow> gotime \<Rightarrow> dagEvent \<Rightarrow> 's dagState \<Rightarrow> 's dagStep" where
  "dagSelect env now ev st =
     (case ev of
        EvTick \<Rightarrow> StepOn st
      | EvDone \<Rightarrow> StepOn (noteDone env st)
      | EvUsage tokens dollars \<Rightarrow> StepOn (handleUsage env now tokens dollars st)
      | EvResult res \<Rightarrow> (case handleResult env now res st of DagOn st1 \<Rightarrow> StepOn st1 | DagReturn err st1 \<Rightarrow> StepReturn err st1))"

definition dagIter :: "('f, 's) dagEnv \<Rightarrow> 's dagTurn \<Rightarrow> 's dagState \<Rightarrow> 's dagStep" where
  "dagIter env tn st0 =
     (let st = st0\<lparr>dg_store := tn_store tn (dg_store st0), dg_throttle := tn_throttle tn (dg_throttle st0)\<rparr>;
          now = tn_now tn;
          st1 = loopHead env now st
      in case scheduleLoop env now (length (dg_ready st1)) 0 st1 of
           (Some err, st2) \<Rightarrow> StepReturn err st2
         | (None, st2) \<Rightarrow>
             if dg_running st2 = 0 then
               (if dg_stopScheduling st2 then StepExit st2
                else if dg_ready st2 \<noteq> [] \<and> tn_event tn = EvDone then StepOn (noteDone env st2)
                else StepOn st2)
             else dagSelect env now (tn_event tn) st2)"

datatype 's dagEnd = EndExit "'s dagState" | EndReturn engineError "'s dagState" | EndBusy "'s dagState"

fun dagLoop :: "('f, 's) dagEnv \<Rightarrow> 's dagTurn list \<Rightarrow> 's dagState \<Rightarrow> 's dagEnd" where
  "dagLoop env turns st =
     (if dg_ready st = [] \<and> dg_running st \<le> 0 then EndExit st
      else case turns of
             [] \<Rightarrow> EndBusy st
           | tn # rest \<Rightarrow>
               (case dagIter env tn st of
                  StepOn st1 \<Rightarrow> dagLoop env rest st1
                | StepExit st1 \<Rightarrow> EndExit st1
                | StepReturn err st1 \<Rightarrow> EndReturn err st1))"

declare dagLoop.simps [simp del]

definition dagFinish :: "('f, 's) dagEnv \<Rightarrow> gotime \<Rightarrow> 's dagState \<Rightarrow> engineError option \<times> 's dagState" where
  "dagFinish env now st =
     (if dg_failed st then (Some ErrNodeFailed, st)
      else if dg_externalCanceled st \<or> isCanceled env st then (Some ErrRunCanceled, st)
      else if dg_waiting st \<or> run_Status (dg_run st) = RunStatusWaiting then (None, st)
      else if isCanceled env st then (Some ErrRunCanceled, st)
      else if dg_budgetExceeded st then (Some ErrBudgetExceeded, st)
      else
        let r = (dg_run st)\<lparr>run_Status := RunStatusSucceeded, run_EndedAt := Some now, run_TerminalReason := '''', run_TerminalMeta := JNil\<rparr>
        in case so_UpdateRun (dv_ops env) now r (dg_store st) of
             (Some err, s) \<Rightarrow> (Some err, st\<lparr>dg_run := r, dg_store := s\<rparr>)
           | (None, s) \<Rightarrow>
               (None, emit env now EventRunFinished '''' '''' 0 (JObj [(''status'', JText ''succeeded'')]) (st\<lparr>dg_run := r, dg_store := s\<rparr>)))"


section \<open>Start and resume\<close>

text \<open>\<open>dagGates\<close> are the checks the function calls on its way in, each with its effect on the store
  (audit records, a staged approval): \<open>authorizeWorkflow\<close>, \<open>evaluateAndEnforceRisk\<close> with
  \<open>stageRiskApproval\<close>, \<open>ensureRunTenantAccess\<close> and \<open>enforceTenantRunQuota\<close>.  \<open>runnerCfg\<close> is what the
  function reads of the runner.\<close>

record 's dagGates =
  gt_authorize :: "'s \<Rightarrow> engineError option \<times> 's"
  gt_risk :: "'s \<Rightarrow> (engineError + json) \<times> 's"
  gt_access :: "run \<Rightarrow> 's \<Rightarrow> engineError option \<times> 's"
  gt_quota :: "string \<Rightarrow> 's \<Rightarrow> engineError option \<times> 's"

record ('f, 's) runnerCfg =
  rn_ops :: "'s storeOps"
  rn_maxParallel :: int
  rn_defaultRunBudget :: budgetPolicy
  rn_tenantBudgets :: "(string, budgetPolicy) gomap"
  rn_human :: "string \<Rightarrow> string \<Rightarrow> 'f nodeDef \<Rightarrow> int \<Rightarrow> json \<Rightarrow> gotime \<Rightarrow> 's \<Rightarrow> humanOutcome \<times> 's"
  rn_jsonLen :: "json \<Rightarrow> int"
  rn_inlineLimit :: int
  rn_put :: "(json \<Rightarrow> engineError + (json \<times> json)) option"
  rn_capture :: "string \<Rightarrow> 's \<Rightarrow> 's"
  rn_remember :: "string \<Rightarrow> 'f workflowGraph \<Rightarrow> 's \<Rightarrow> 's"

definition getTenantBudget :: "('f, 's) runnerCfg \<Rightarrow> string \<Rightarrow> budgetPolicy" where
  "getTenantBudget cfg tenantID = (if tenantID = '''' then zeroBudget else mdef zeroBudget (rn_tenantBudgets cfg) tenantID)"

text \<open>What the stored node executions of a run say: highest attempt, succeeded nodes, outputs.\<close>

record resumeInfo =
  ri_maxAttempt :: "(string, int) gomap"
  ri_done :: "(string, nodeExecution) gomap"
  ri_outputs :: "(string, json) gomap"

definition resumeNode :: "nodeExecution \<Rightarrow> resumeInfo \<Rightarrow> resumeInfo" where
  "resumeNode ne x =
     (let x1 = (if mdef 0 (ri_maxAttempt x) (ne_NodeID ne) < ne_Attempt ne
                then x\<lparr>ri_maxAttempt := mput (ne_NodeID ne) (ne_Attempt ne) (ri_maxAttempt x)\<rparr> else x)
      in if ne_Status ne = NodeStatusSucceeded
         then x1\<lparr>ri_done := mput (ne_NodeID ne) ne (ri_done x1),
                 ri_outputs := (if ne_Output ne = JNil then ri_outputs x1 else mput (ne_NodeID ne) (ne_Output ne) (ri_outputs x1))\<rparr>
         else x1)"

definition resumeFrom :: "nodeExecution list \<Rightarrow> resumeInfo" where
  "resumeFrom nes = fold resumeNode nes \<lparr>ri_maxAttempt = [], ri_done = [], ri_outputs = []\<rparr>"

definition openDegrees :: "'f workflowGraph \<Rightarrow> (string, nodeExecution) gomap \<Rightarrow> (string, int) gomap" where
  "openDegrees g dn =
     foldl (\<lambda>m e. if mget dn (ed_From e) = None then mput (ed_To e) (mdef 0 m (ed_To e) + 1) m else m)
       (foldl (\<lambda>m n. mput (nd_NodeID n) 0 m) [] (wg_Nodes g)) (wg_Edges g)"

datatype ('f, 's) dagStarted = StartStop "engineError option" "'s" | StartLoop "('f, 's) dagEnv" "'s dagState"

definition initialReady :: "'f workflowGraph \<Rightarrow> (string, int) gomap \<Rightarrow> (string, nodeExecution) gomap \<Rightarrow> string list" where
  "initialReady g deg dn = sort_key (nodeIndexOf g) (filter (\<lambda>i. mdef 0 deg i = 0 \<and> mget dn i = None) (mkeys deg))"

text \<open>From the moment the run is known to the first turn of the loop.\<close>

definition enterLoop ::
  "('f, 's) runnerCfg \<Rightarrow> gotime \<Rightarrow> string \<Rightarrow> string \<Rightarrow> string \<Rightarrow> 'f workflowGraph \<Rightarrow> json \<Rightarrow> (string, replayCacheEntry) gomap option
     \<Rightarrow> throttleState \<Rightarrow> run \<Rightarrow> int \<Rightarrow> resumeInfo \<Rightarrow> 's \<Rightarrow> ('f, 's) dagStarted" where
  "enterLoop cfg now runID wfID reqTenant g initialInput cache th r0 used info s =
     (let ops = rn_ops cfg;
          r1 = (if run_StartedAt r0 = None then r0\<lparr>run_StartedAt := Some now\<rparr> else r0);
          r2 = (if run_Status r1 \<noteq> RunStatusRunning then r1\<lparr>run_EndedAt := None\<rparr> else r1)
      in if (case so_GetRun ops s runID of None \<Rightarrow> False | Some c \<Rightarrow> run_Status c = RunStatusCanceled)
         then StartStop (Some ErrRunCanceled) s
         else
           let r3 = r2\<lparr>run_Status := RunStatusRunning\<rparr> in
           (case so_UpdateRun ops now r3 s of
              (Some err, s1) \<Rightarrow> StartStop (Some err) s1
            | (None, s1) \<Rightarrow>
                let s2 = (if run_StartedAt r0 = None then snd (so_AppendEvent ops now (mkEvent runID EventRunStarted '''' '''' 0 JNil) s1) else s1);
                    tenantID = (if run_TenantID r3 = '''' then reqTenant else run_TenantID r3);
                    eff = effectiveBudget (rn_defaultRunBudget cfg) (getTenantBudget cfg tenantID) (run_RunBudget r3);
                    r4 = wallClock now (r3\<lparr>run_TenantID := tenantID, run_RunBudget := eff,
                           run_BudgetUsage := (run_BudgetUsage r3)\<lparr>bu_Attempts := used\<rparr>\<rparr>);
                    s3 = snd (so_UpdateRun ops now r4 s2);
                    deg = openDegrees g (ri_done info)
                in StartLoop
                     \<lparr>dv_ops = ops, dv_runID = runID, dv_wfID = wfID, dv_graph = g, dv_initialInput = initialInput, dv_cache = cache,
                      dv_effBudget = eff, dv_tenantID = tenantID,
                      dv_maxPar = (if rn_maxParallel cfg < 1 then 1 else rn_maxParallel cfg),
                      dv_human = rn_human cfg runID wfID, dv_jsonLen = rn_jsonLen cfg, dv_inlineLimit = rn_inlineLimit cfg,
                      dv_put = rn_put cfg, dv_capture = rn_capture cfg runID\<rparr>
                     \<lparr>dg_store = s3, dg_run = r4, dg_done = ri_done info, dg_outputs = ri_outputs info,
                      dg_maxAttempt = ri_maxAttempt info, dg_attemptsUsed = used, dg_inDegree = deg,
                      dg_ready = initialReady g deg (ri_done info), dg_running = 0, dg_inflight = [], dg_inflightKey = [],
                      dg_lastThrottle = [], dg_throttle = th, dg_stopScheduling = False, dg_externalCanceled = False,
                      dg_failed = False, dg_waiting = False, dg_budgetExceeded = False, dg_ctxDone = False\<rparr>))"

definition dagStart ::
  "('f, 's) runnerCfg \<Rightarrow> 's dagGates \<Rightarrow> gotime \<Rightarrow> string \<Rightarrow> string \<Rightarrow> 'f workflowGraph \<Rightarrow> json \<Rightarrow> json
     \<Rightarrow> (string, replayCacheEntry) gomap option \<Rightarrow> throttleState \<Rightarrow> 's \<Rightarrow> ('f, 's) dagStarted" where
  "dagStart cfg gates now runID reqTenant g initialInput spec cache th s =
     (case Graph_Validate g of
        Some err \<Rightarrow> StartStop (Some err) s
      | None \<Rightarrow>
          (case gt_authorize gates s of
             (Some err, s0) \<Rightarrow> StartStop (Some err) s0
           | (None, s0) \<Rightarrow>
               (case gt_risk gates s0 of
                  (Inl err, s1) \<Rightarrow> StartStop (Some err) s1
                | (Inr report, s1) \<Rightarrow>
                    let ops = rn_ops cfg; wf0 = (if wg_ID g = '''' then ''graph_'' @ runID else wg_ID g) in
                    (case so_GetRun ops s1 runID of
                       Some old \<Rightarrow>
                         (case gt_access gates old s1 of
                            (Some err, s2) \<Rightarrow> StartStop (Some err) s2
                          | (None, s2) \<Rightarrow>
                              let r1 = (if run_TenantID old = '''' \<and> reqTenant \<noteq> '''' then old\<lparr>run_TenantID := reqTenant\<rparr> else old);
                                  wfID = (if run_WorkflowID r1 \<noteq> '''' then run_WorkflowID r1 else wf0);
                                  r2 = (if run_WorkflowID r1 \<noteq> '''' then r1 else r1\<lparr>run_WorkflowID := wf0\<rparr>)
                              in if run_Status r2 = RunStatusSucceeded then StartStop None s2
                                 else if run_Status r2 = RunStatusCanceled then StartStop (Some ErrRunCanceled) s2
                                 else
                                   let nes = so_ListNodeExecutions ops s2 runID in
                                   enterLoop cfg now runID wfID reqTenant g initialInput cache th r2 (int (length nes)) (resumeFrom nes)
                                     (rn_remember cfg wfID g s2))
                     | None \<Rightarrow>
                         (case gt_quota gates wf0 s1 of
                            (Some err, s2) \<Rightarrow> StartStop (Some err) s2
                          | (None, s2) \<Rightarrow>
                              let r = \<lparr>run_RunID = runID, run_WorkflowID = wf0, run_Status = RunStatusQueued, run_StartedAt = None,
                                       run_EndedAt = None, run_Spec = spec, run_InitialInput = initialInput, run_TenantID = reqTenant,
                                       run_TerminalReason = '''', run_TerminalMeta = JNil, run_RunBudget = zeroBudget, run_BudgetUsage = zeroUsage\<rparr>
                              in (case so_CreateRun ops now r s2 of
                                    (Some err, s3) \<Rightarrow> StartStop (Some err) s3
                                  | (None, s3) \<Rightarrow>
                                      let s4 = snd (so_AppendEvent ops now (mkEvent runID EventRunCreated '''' '''' 0 JNil) s3);
                                          s5 = (if json_ok report then snd (so_AppendEvent ops now (mkEvent runID EventRiskAssessed wf0 '''' 0 report) s4) else s4)
                                      in enterLoop cfg now runID wf0 reqTenant g initialInput cache th r 0
                                           \<lparr>ri_maxAttempt = [], ri_done = [], ri_outputs = []\<rparr> (rn_remember cfg wf0 g s5)))))))"

text \<open>\<open>runDAGWithCache\<close> as a whole; \<open>None\<close> while the turns given have not brought it to its end.\<close>

definition runDAGWithCache ::
  "('f, 's) runnerCfg \<Rightarrow> 's dagGates \<Rightarrow> gotime \<Rightarrow> string \<Rightarrow> string \<Rightarrow> 'f workflowGraph \<Rightarrow> json \<Rightarrow> json
     \<Rightarrow> (string, replayCacheEntry) gomap option \<Rightarrow> throttleState \<Rightarrow> 's dagTurn list \<Rightarrow> gotime \<Rightarrow> 's \<Rightarrow> (engineError option \<times> 's) option" where
  "runDAGWithCache cfg gates now runID reqTenant g initialInput spec cache th turns endTime s =
     (case dagStart cfg gates now runID reqTenant g initialInput spec cache th s of
        StartStop res s1 \<Rightarrow> Some (res, s1)
      | StartLoop env st \<Rightarrow>
          (case dagLoop env turns st of
             EndBusy _ \<Rightarrow> None
           | EndReturn err st1 \<Rightarrow> Some (Some err, dg_store st1)
           | EndExit st1 \<Rightarrow> (case dagFinish env endTime st1 of (res, st2) \<Rightarrow> Some (res, dg_store st2))))"

definition runDAG ::
  "('f, 's) runnerCfg \<Rightarrow> 's dagGates \<Rightarrow> gotime \<Rightarrow> string \<Rightarrow> string \<Rightarrow> 'f workflowGraph \<Rightarrow> json \<Rightarrow> json
     \<Rightarrow> throttleState \<Rightarrow> 's dagTurn list \<Rightarrow> gotime \<Rightarrow> 's \<Rightarrow> (engineError option \<times> 's) option" where
  "runDAG cfg gates now runID reqTenant g initialInput spec th turns endTime s =
     runDAGWithCache cfg gates now runID reqTenant g initialInput spec None th turns endTime s"

end
