(* ===== verification/Human.thy ===== *)
theory Human
  imports Governance DagRunner
begin

text \<open>
  Human approval, \<^verbatim>\<open>internal/engine/human.go\<close>: tasks and their index, timers that bound the wait,
  the decision of a reviewer (\<open>ResolveHumanTask\<close>), the approval a risky run waits for
  (\<open>stageRiskApproval\<close>) and the step of a node that needs a person (\<open>maybeHandleHumanNode\<close>, which the
  DAG scheduler calls).

  \<^item> \<open>saveHumanTask\<close> takes the task by value: the identifier it makes is in the store only, the
    caller's copy keeps an empty one.  The model keeps the two apart as the code does.
  \<^item> \<open>hx_resume\<close> (\<open>resumeWaitingRun\<close>) and \<open>hx_capture\<close> (\<open>maybeCaptureSelfHealingArtifact\<close>) are called
    at the end of a decision; they are other components and given as functions on the store.
\<close>

abbreviation HumanTimeoutReject :: string where "HumanTimeoutReject \<equiv> ''reject''"
abbreviation HumanTimeoutApprove :: string where "HumanTimeoutApprove \<equiv> ''approve''"
abbreviation HumanTimeoutCancel :: string where "HumanTimeoutCancel \<equiv> ''cancel''"
abbreviation HumanTaskPending :: string where "HumanTaskPending \<equiv> ''pending''"
abbreviation HumanTaskApproved :: string where "HumanTaskApproved \<equiv> ''approved''"
abbreviation HumanTaskRejected :: string where "HumanTaskRejected \<equiv> ''rejected''"
abbreviation HumanTaskTimedOut :: string where "HumanTaskTimedOut \<equiv> ''timed_out''"
abbreviation HumanTaskCanceled :: string where "HumanTaskCanceled \<equiv> ''canceled''"
abbreviation HumanTaskSourceNode :: string where "HumanTaskSourceNode \<equiv> ''node''"
abbreviation HumanTaskSourceRisk :: string where "HumanTaskSourceRisk \<equiv> ''risk''"
abbreviation HumanDecisionApprove :: string where "HumanDecisionApprove \<equiv> ''approve''"
abbreviation HumanDecisionReject :: string where "HumanDecisionReject \<equiv> ''reject''"
abbreviation HumanStepModeApproval :: string where "HumanStepModeApproval \<equiv> ''approval''"
abbreviation humanTaskIndexKey :: string where "humanTaskIndexKey \<equiv> ''human/tasks/index''"
abbreviation RiskActionRequireApproval :: string where "RiskActionRequireApproval \<equiv> ''require_approval''"

section \<open>Tasks in the store\<close>

definition humanTaskKey :: "string \<Rightarrow> string" where
  "humanTaskKey i = ''human/tasks/'' @ TrimSpace i"

definition noHumanTask :: humanTask where
  "noHumanTask = \<lparr>ht_ID = '''', ht_RunID = '''', ht_WorkflowID = '''', ht_NodeID = '''', ht_Attempt = 0, ht_TenantID = '''',
     ht_Mode = '''', ht_Source = '''', ht_Status = '''', ht_Prompt = '''', ht_RequestedInput = JNil, ht_EditedInput = JNil,
     ht_SideEffectReceiptID = '''', ht_ReviewComment = '''', ht_TimeoutAction = '''', ht_CreatedAt = 0, ht_UpdatedAt = 0,
     ht_ResolvedAt = None, ht_ExpiresAt = None, ht_RiskReport = None\<rparr>"

definition taskFilled :: "'s svcEnv \<Rightarrow> gotime \<Rightarrow> humanTask \<Rightarrow> 's \<Rightarrow> humanTask" where
  "taskFilled env now t s =
     t\<lparr>ht_ID := (if TrimSpace (ht_ID t) = '''' then mintID env ''human-'' now s else TrimSpace (ht_ID t)),
       ht_RunID := TrimSpace (ht_RunID t), ht_WorkflowID := TrimSpace (ht_WorkflowID t), ht_NodeID := TrimSpace (ht_NodeID t),
       ht_TenantID := TrimSpace (ht_TenantID t), ht_Mode := TrimSpace (ht_Mode t), ht_Source := TrimSpace (ht_Source t),
       ht_Status := TrimSpace (ht_Status t), ht_Prompt := TrimSpace (ht_Prompt t),
       ht_SideEffectReceiptID := TrimSpace (ht_SideEffectReceiptID t), ht_ReviewComment := TrimSpace (ht_ReviewComment t),
       ht_TimeoutAction := TrimSpace (ht_TimeoutAction t),
       ht_CreatedAt := (if IsZero (ht_CreatedAt t) then now else ht_CreatedAt t), ht_UpdatedAt := now\<rparr>"

definition saveHumanTask :: "'s svcEnv \<Rightarrow> gotime \<Rightarrow> humanTask \<Rightarrow> 's \<Rightarrow> engineError option \<times> 's" where
  "saveHumanTask env now t0 s =
     (let t = taskFilled env now t0 s; ops = sx_ops env in
      case putJSONKV ops now (humanTaskKey (ht_ID t)) (DocHuman t) s of
        (Some err, s1) \<Rightarrow> (Some err, s1)
      | (None, s1) \<Rightarrow>
          (case indexIDs ops humanTaskIndexKey s1 of
             Inl err \<Rightarrow> (Some err, s1)
           | Inr ids \<Rightarrow>
               if list_ex (\<lambda>existing. existing = ht_ID t) ids then (None, s1)
               else putJSONKV ops now humanTaskIndexKey (DocIDs (ids @ [ht_ID t])) s1))"

definition GetHumanTask :: "'s storeOps \<Rightarrow> string \<Rightarrow> 's \<Rightarrow> (engineError + humanTask) option" where
  "GetHumanTask ops taskID s = getJSONKV ops asHuman (humanTaskKey taskID) s"

definition taskWanted :: "'s storeOps \<Rightarrow> string \<Rightarrow> string \<Rightarrow> 's \<Rightarrow> string \<Rightarrow> humanTask option" where
  "taskWanted ops runID status s i =
     (case GetHumanTask ops i s of
        Some (Inr t) \<Rightarrow>
          if runID \<noteq> '''' \<and> ht_RunID t \<noteq> runID then None
          else if status \<noteq> '''' \<and> ht_Status t \<noteq> status then None
          else Some t
      | _ \<Rightarrow> None)"

definition ListHumanTasks :: "'s storeOps \<Rightarrow> string \<Rightarrow> string \<Rightarrow> int \<Rightarrow> 's \<Rightarrow> engineError + humanTask list" where
  "ListHumanTasks ops runID status limit0 s =
     (let limit = (if limit0 \<le> 0 then 100 else limit0) in
      case indexIDs ops humanTaskIndexKey s of
        Inl err \<Rightarrow> Inl err
      | Inr ids \<Rightarrow>
          Inr (sort_key (\<lambda>t. - ht_CreatedAt t)
            (collectUpTo (taskWanted ops (TrimSpace runID) (TrimSpace status) s) limit (rev ids) [])))"

fun findTaskLoop :: "string \<Rightarrow> int \<Rightarrow> string \<Rightarrow> humanTask option \<Rightarrow> humanTask list \<Rightarrow> humanTask option" where
  "findTaskLoop nodeID attempt source fallback [] = fallback"
| "findTaskLoop nodeID attempt source fallback (t # ts) =
     (if ht_NodeID t \<noteq> TrimSpace nodeID then findTaskLoop nodeID attempt source fallback ts
      else if source \<noteq> '''' \<and> ht_Source t \<noteq> source then findTaskLoop nodeID attempt source fallback ts
      else if ht_Attempt t = attempt then Some t
      else findTaskLoop nodeID attempt source (case fallback of None \<Rightarrow> Some t | Some f \<Rightarrow> Some f) ts)"

definition findHumanTask :: "'s storeOps \<Rightarrow> string \<Rightarrow> string \<Rightarrow> int \<Rightarrow> string \<Rightarrow> 's \<Rightarrow> engineError + humanTask option" where
  "findHumanTask ops runID nodeID attempt source s =
     (case ListHumanTasks ops runID '''' 500 s of
        Inl err \<Rightarrow> Inl err
      | Inr tasks \<Rightarrow> Inr (findTaskLoop nodeID attempt (TrimSpace source) None tasks))"

section \<open>Timers of a task\<close>

definition cancelOneTimer :: "'s storeOps \<Rightarrow> gotime \<Rightarrow> string \<Rightarrow> string \<Rightarrow> int \<Rightarrow> timer \<Rightarrow> 's \<Rightarrow> 's" where
  "cancelOneTimer ops now runID nodeID attempt t s =
     (if tm_NodeID t \<noteq> nodeID \<or> tm_Attempt t \<noteq> attempt \<or> tm_Status t \<noteq> TimerScheduled then s
      else
        let s1 = snd (so_UpsertTimer ops now (t\<lparr>tm_Status := TimerCanceled, tm_FiredAt := Some now\<rparr>) s) in
        snd (so_AppendEvent ops now (mkEvent runID EventTimerCanceled (tm_WorkflowID t) nodeID attempt JNil) s1))"

definition cancelHumanTimers :: "'s storeOps \<Rightarrow> gotime \<Rightarrow> string \<Rightarrow> string \<Rightarrow> int \<Rightarrow> 's \<Rightarrow> 's" where
  "cancelHumanTimers ops now runID nodeID attempt s =
     fold (cancelOneTimer ops now runID nodeID attempt) (so_ListTimers ops s runID) s"

definition humanTimeoutFired :: "'s storeOps \<Rightarrow> string \<Rightarrow> string \<Rightarrow> int \<Rightarrow> 's \<Rightarrow> bool" where
  "humanTimeoutFired ops runID nodeID attempt s =
     list_ex (\<lambda>t. tm_NodeID t = nodeID \<and> tm_Attempt t = attempt \<and> HasPrefix (tm_Reason t) ''human_timeout:'' \<and> tm_Status t = TimerFired)
       (so_ListTimers ops s runID)"

section \<open>Documents as event payloads\<close>

definition texts :: "string list \<Rightarrow> json" where
  "texts xs = JArr (map JText xs)"

definition principalJSON :: "principal \<Rightarrow> json" where
  "principalJSON p = JObj ([(''id'', JText (pr_ID p))]
     @ omitempty (pr_Type p = '''') ''type'' (JText (pr_Type p))
     @ omitempty (pr_TenantID p = '''') ''tenant_id'' (JText (pr_TenantID p))
     @ omitempty (pr_TenantScopes p = []) ''tenant_scopes'' (texts (pr_TenantScopes p))
     @ omitempty (pr_Roles p = []) ''roles'' (texts (pr_Roles p))
     @ omitempty (pr_Capabilities p = []) ''capabilities'' (texts (pr_Capabilities p))
     @ omitempty (pr_Attributes p = []) ''attributes'' (JObj (sort_key fst (map (\<lambda>(k, v). (k, JText v)) (pr_Attributes p)))))"

definition findingJSON :: "riskFinding \<Rightarrow> json" where
  "findingJSON f = JObj ([(''category'', JText (rf_Category f)), (''severity'', JText (rf_Severity f)), (''score'', JInt (rf_Score f)),
     (''summary'', JText (rf_Summary f))] @ omitempty (rf_Evidence f = []) ''evidence'' (texts (rf_Evidence f)))"

definition thresholdsJSON :: "riskThresholds \<Rightarrow> json" where
  "thresholdsJSON t = JObj (omitempty (rk_SandboxScore t = 0) ''sandbox_score'' (JInt (rk_SandboxScore t))
     @ omitempty (rk_ApprovalScore t = 0) ''approval_score'' (JInt (rk_ApprovalScore t))
     @ omitempty (rk_BlockScore t = 0) ''block_score'' (JInt (rk_BlockScore t)))"

definition riskReportJSON :: "workflowRiskReport \<Rightarrow> json" where
  "riskReportJSON r = JObj ([(''allowed'', JBool (rr_Allowed r)), (''action'', JText (rr_Action r)), (''score'', JInt (rr_Score r))]
     @ omitempty (rr_Reason r = '''') ''reason'' (JText (rr_Reason r))
     @ omitempty (rr_RunID r = '''') ''run_id'' (JText (rr_RunID r))
     @ omitempty (rr_TenantID r = '''') ''tenant_id'' (JText (rr_TenantID r))
     @ omitempty (rr_WorkflowID r = '''') ''workflow_id'' (JText (rr_WorkflowID r))
     @ [(''principal'', principalJSON (rr_Principal r)), (''thresholds'', thresholdsJSON (rr_Thresholds r))]
     @ omitempty (rr_Findings r = []) ''findings'' (JArr (map findingJSON (rr_Findings r))))"

definition humanJSON :: "humanTask \<Rightarrow> json" where
  "humanJSON t = JObj ([(''id'', JText (ht_ID t)), (''run_id'', JText (ht_RunID t))]
     @ omitempty (ht_WorkflowID t = '''') ''workflow_id'' (JText (ht_WorkflowID t))
     @ omitempty (ht_NodeID t = '''') ''node_id'' (JText (ht_NodeID t))
     @ omitempty (ht_Attempt t = 0) ''attempt'' (JInt (ht_Attempt t))
     @ omitempty (ht_TenantID t = '''') ''tenant_id'' (JText (ht_TenantID t))
     @ [(''mode'', JText (ht_Mode t)), (''source'', JText (ht_Source t)), (''status'', JText (ht_Status t))]
     @ omitempty (ht_Prompt t = '''') ''prompt'' (JText (ht_Prompt t))
     @ omitempty (ht_RequestedInput t = JNil) ''requested_input'' (ht_RequestedInput t)
     @ omitempty (ht_EditedInput t = JNil) ''edited_input'' (ht_EditedInput t)
     @ omitempty (ht_SideEffectReceiptID t = '''') ''side_effect_receipt_id'' (JText (ht_SideEffectReceiptID t))
     @ omitempty (ht_ReviewComment t = '''') ''review_comment'' (JText (ht_ReviewComment t))
     @ omitempty (ht_TimeoutAction t = '''') ''timeout_action'' (JText (ht_TimeoutAction t))
     @ [(''created_at'', JTime (ht_CreatedAt t)), (''updated_at'', JTime (ht_UpdatedAt t))]
     @ optJSON ''resolved_at'' (map_option JTime (ht_ResolvedAt t)) @ optJSON ''expires_at'' (map_option JTime (ht_ExpiresAt t))
     @ optJSON ''risk_report'' (map_option riskReportJSON (ht_RiskReport t)))"

section \<open>A reviewer's decision\<close>

record 's humanEnv =
  hx_svc :: "'s svcEnv"
  hx_resume :: "callCtx \<Rightarrow> string \<Rightarrow> 's \<Rightarrow> 's"
  hx_capture :: "callCtx \<Rightarrow> string \<Rightarrow> 's \<Rightarrow> 's"

text \<open>From the moment the decision is stored.\<close>

definition afterDecision :: "'s humanEnv \<Rightarrow> callCtx \<Rightarrow> gotime \<Rightarrow> humanTask \<Rightarrow> bool \<Rightarrow> 's \<Rightarrow> 's" where
  "afterDecision env ctx now t resume s =
     (let ops = sx_ops (hx_svc env);
          s1 = (if ht_NodeID t \<noteq> '''' then cancelHumanTimers ops now (ht_RunID t) (ht_NodeID t) (ht_Attempt t) s else s);
          s2 = appendAuditRecord (hx_svc env) ctx now
                 (auditNote (ht_TenantID t) '''' ''human.resolve'' ''human_task'' (ht_ID t) (ht_RunID t) (ht_WorkflowID t)
                    (if ht_Status t = HumanTaskApproved then AuditOutcomeAllowed else AuditOutcomeDenied) (ht_Status t)) s1;
          s3 = snd (so_AppendEvent ops now
                 (mkEvent (ht_RunID t) EventHumanTaskResolved (ht_WorkflowID t) (ht_NodeID t) (ht_Attempt t) (marshal (humanJSON t))) s2)
      in if ht_Source t = HumanTaskSourceRisk \<and> ht_Status t = HumanTaskRejected then
           (case so_GetRun ops s3 (ht_RunID t) of
              None \<Rightarrow> s3
            | Some r \<Rightarrow>
                hx_capture env ctx (ht_RunID t)
                  (snd (so_UpdateRun ops now
                     (r\<lparr>run_Status := RunStatusFailed, run_EndedAt := Some now, run_TerminalReason := ''human_rejected''\<rparr>) s3)))
         else if resume then hx_resume env ctx (ht_RunID t) s3
         else s3)"

definition decided :: "gotime \<Rightarrow> string \<Rightarrow> json \<Rightarrow> string \<Rightarrow> humanTask \<Rightarrow> humanTask option" where
  "decided now decision edited comment t =
     (let t1 = t\<lparr>ht_ReviewComment := TrimSpace comment, ht_EditedInput := edited, ht_UpdatedAt := now, ht_ResolvedAt := Some now\<rparr> in
      if TrimSpace decision = HumanDecisionApprove then Some (t1\<lparr>ht_Status := HumanTaskApproved\<rparr>)
      else if TrimSpace decision = HumanDecisionReject then Some (t1\<lparr>ht_Status := HumanTaskRejected\<rparr>)
      else None)"

definition ResolveHumanTask ::
  "'s humanEnv \<Rightarrow> callCtx \<Rightarrow> gotime \<Rightarrow> string \<Rightarrow> string \<Rightarrow> json \<Rightarrow> string \<Rightarrow> bool \<Rightarrow> 's \<Rightarrow> (engineError + humanTask) \<times> 's" where
  "ResolveHumanTask env ctx now taskID decision edited comment resume s =
     (let ops = sx_ops (hx_svc env) in
      case GetHumanTask ops taskID s of
        None \<Rightarrow> (Inl ErrHumanTaskNotFound, s)
      | Some (Inl err) \<Rightarrow> (Inl err, s)
      | Some (Inr t0) \<Rightarrow>
          if ht_Status t0 \<noteq> HumanTaskPending then (Inl ErrHumanTaskResolved, s)
          else
            (case (case so_GetRun ops s (ht_RunID t0) of
                     None \<Rightarrow> (None, s)
                   | Some r \<Rightarrow> ensureRunTenantAccess (hx_svc env) ctx now r ''human.resolve'' s) of
               (Some err, s1) \<Rightarrow> (Inl err, s1)
             | (None, s1) \<Rightarrow>
                 (case decided now decision edited comment t0 of
                    None \<Rightarrow> (Inl (EText (''invalid human decision '' @ quoted decision)), s1)
                  | Some t \<Rightarrow>
                      (case saveHumanTask (hx_svc env) now t s1 of
                         (Some err, s2) \<Rightarrow> (Inl err, s2)
                       | (None, s2) \<Rightarrow> (Inr t, afterDecision env ctx now t resume s2)))))"

section \<open>The approval a risky run waits for\<close>

definition riskError :: "workflowRiskReport \<Rightarrow> engineError" where
  "riskError report =
     (if rr_Action report = RiskActionRequireApproval
      then ErrRiskApprovalRequired (if TrimSpace (rr_Reason report) \<noteq> '''' then rr_Reason report else ''risk approval required'')
      else ErrRiskBlocked (if TrimSpace (rr_Reason report) \<noteq> '''' then rr_Reason report else ''risk blocked''))"

text \<open>The run is created, or set to waiting.\<close>

definition parkRun ::
  "'s storeOps \<Rightarrow> gotime \<Rightarrow> string \<Rightarrow> string \<Rightarrow> json \<Rightarrow> json \<Rightarrow> string \<Rightarrow> 's \<Rightarrow> engineError option \<times> 's" where
  "parkRun ops now runID wfl spec initialInput tenantID s =
     (case so_GetRun ops s runID of
        None \<Rightarrow>
          (let r = \<lparr>run_RunID = runID, run_WorkflowID = wfl, run_Status = RunStatusWaiting, run_StartedAt = None, run_EndedAt = None,
                    run_Spec = spec, run_InitialInput = initialInput, run_TenantID = tenantID, run_TerminalReason = '''',
                    run_TerminalMeta = JNil, run_RunBudget = zeroBudget, run_BudgetUsage = zeroUsage\<rparr>
           in case so_CreateRun ops now r s of
                (Some err, s1) \<Rightarrow> (Some err, s1)
              | (None, s1) \<Rightarrow> (None, snd (so_AppendEvent ops now (mkEvent runID EventRunCreated wfl '''' 0 JNil) s1)))
      | Some r \<Rightarrow>
          if run_Status r \<noteq> RunStatusWaiting
          then so_UpdateRun ops now (r\<lparr>run_Status := RunStatusWaiting, run_Spec := spec, run_InitialInput := initialInput\<rparr>) s
          else (None, s))"

definition stageRiskApproval ::
  "'s svcEnv \<Rightarrow> callCtx \<Rightarrow> gotime \<Rightarrow> string \<Rightarrow> 'f workflowGraph \<Rightarrow> json \<Rightarrow> json \<Rightarrow> workflowRiskReport \<Rightarrow> 's \<Rightarrow> (engineError + humanTask) \<times> 's" where
  "stageRiskApproval env ctx now runID g spec initialInput report s =
     (let ops = sx_ops env in
      if spec = JNil then (Inl (riskError report), s)
      else case findHumanTask ops runID '''' 0 HumanTaskSourceRisk s of
             Inr (Some t) \<Rightarrow> (Inr t, s)
           | _ \<Rightarrow>
               (case parkRun ops now runID (TrimSpace (wg_ID g)) spec initialInput (rr_TenantID report) s of
                  (Some err, s1) \<Rightarrow> (Inl err, s1)
                | (None, s1) \<Rightarrow>
                    let t = noHumanTask\<lparr>ht_RunID := runID, ht_WorkflowID := TrimSpace (wg_ID g), ht_TenantID := rr_TenantID report,
                          ht_Mode := HumanStepModeApproval, ht_Source := HumanTaskSourceRisk, ht_Status := HumanTaskPending,
                          ht_Prompt := rr_Reason report, ht_RequestedInput := initialInput, ht_RiskReport := Some report\<rparr>
                    in (case saveHumanTask env now t s1 of
                          (Some err, s2) \<Rightarrow> (Inl err, s2)
                        | (None, s2) \<Rightarrow>
                            let s3 = snd (so_AppendEvent ops now (mkEvent runID EventHumanTaskCreated (wg_ID g) '''' 0 (marshal (humanJSON t))) s2)
                            in (Inr t, appendAuditRecord env ctx now
                                  (auditNote (ht_TenantID t) '''' ''human.request'' ''human_task'' (ht_ID t) (ht_RunID t) (ht_WorkflowID t)
                                     AuditOutcomeDenied ''risk escalation requires approval'') s3))))"

section \<open>A node that needs a person\<close>

text \<open>\<^verbatim>\<open>time.Duration(ms) * time.Millisecond\<close> wraps at 64 bits.\<close>

definition msDuration :: "int \<Rightarrow> duration" where
  "msDuration ms = sint (word_of_int (ms * millisecond) :: 64 word)"

definition nodeTask :: "callCtx \<Rightarrow> string \<Rightarrow> string \<Rightarrow> 'f nodeDef \<Rightarrow> humanStepSpec \<Rightarrow> int \<Rightarrow> json \<Rightarrow> gotime \<Rightarrow> humanTask" where
  "nodeTask ctx runID wfl node h attempt input started =
     noHumanTask\<lparr>ht_RunID := runID, ht_WorkflowID := wfl, ht_NodeID := nd_NodeID node, ht_Attempt := attempt,
       ht_TenantID := effectiveTenantFromContext ctx, ht_Mode := hs_Mode h, ht_Source := HumanTaskSourceNode,
       ht_Status := HumanTaskPending, ht_Prompt := hs_Prompt h, ht_RequestedInput := input, ht_TimeoutAction := hs_OnTimeout h,
       ht_ExpiresAt := (if 0 < hs_TimeoutMS h then Some (started + msDuration (hs_TimeoutMS h)) else None)\<rparr>"

text \<open>The task does not exist yet: store it, the waiting node and its timer.\<close>

definition requestHuman ::
  "'s svcEnv \<Rightarrow> callCtx \<Rightarrow> string \<Rightarrow> string \<Rightarrow> 'f nodeDef \<Rightarrow> humanStepSpec \<Rightarrow> int \<Rightarrow> json \<Rightarrow> gotime \<Rightarrow> 's \<Rightarrow> humanOutcome \<times> 's" where
  "requestHuman env ctx runID wfl node h attempt input started s =
     (let ops = sx_ops env; i = nd_NodeID node; t = nodeTask ctx runID wfl node h attempt input started in
      case saveHumanTask env started t s of
        (Some err, s1) \<Rightarrow> (HumanError err, s1)
      | (None, s1) \<Rightarrow>
          (case so_UpsertNodeExecution ops started
                  \<lparr>ne_RunID = runID, ne_WorkflowID = wfl, ne_NodeID = i, ne_Attempt = attempt, ne_Status = NodeStatusWaiting,
                   ne_StartedAt = Some started, ne_EndedAt = None, ne_Input = input, ne_Output = JNil, ne_Error = ''''\<rparr> s1 of
             (Some err, s2) \<Rightarrow> (HumanError err, s2)
           | (None, s2) \<Rightarrow>
               let s3 = snd (so_AppendEvent ops started (mkEvent runID EventNodeStarted wfl i attempt JNil) s2);
                   s4 = snd (so_AppendEvent ops started (mkEvent runID EventHumanTaskCreated wfl i attempt (marshal (humanJSON t))) s3);
                   s5 = (case ht_ExpiresAt t of
                           None \<Rightarrow> s4
                         | Some fireAt \<Rightarrow>
                             snd (so_AppendEvent ops started (mkEvent runID EventTimerScheduled wfl i attempt JNil)
                               (snd (so_UpsertTimer ops started
                                  \<lparr>tm_RunID = runID, tm_WorkflowID = wfl, tm_NodeID = i, tm_Attempt = attempt, tm_Status = TimerScheduled,
                                   tm_FireAt = fireAt, tm_CreatedAt = started, tm_FiredAt = None, tm_Reason = ''human_timeout:'' @ ht_ID t\<rparr> s4))))
               in (HumanPending, appendAuditRecord env ctx started
                     (auditNote (ht_TenantID t) '''' ''human.request'' ''human_task'' (ht_ID t) runID wfl
                        AuditOutcomeDenied ''node requires human approval'') s5)))"

definition taskOverdue :: "'s storeOps \<Rightarrow> string \<Rightarrow> string \<Rightarrow> int \<Rightarrow> gotime \<Rightarrow> humanTask \<Rightarrow> 's \<Rightarrow> bool" where
  "taskOverdue ops runID nodeID attempt now t s \<longleftrightarrow>
     ht_Status t = HumanTaskPending \<and>
     ((case ht_ExpiresAt t of Some x \<Rightarrow> \<not> now < x | None \<Rightarrow> False) \<or>
      humanTimeoutFired ops runID nodeID (if 0 < ht_Attempt t then ht_Attempt t else attempt) s)"

definition timedOut :: "gotime \<Rightarrow> humanTask \<Rightarrow> humanTask" where
  "timedOut now t =
     t\<lparr>ht_UpdatedAt := now, ht_ResolvedAt := Some now,
       ht_Status := (if ht_TimeoutAction t = HumanTimeoutApprove then HumanTaskApproved
                     else if ht_TimeoutAction t = HumanTimeoutCancel then HumanTaskCanceled else HumanTaskTimedOut)\<rparr>"

text \<open>The outcome of a task that is no longer open, or still is.\<close>

definition taskOutcome :: "string \<Rightarrow> int \<Rightarrow> json \<Rightarrow> gotime \<Rightarrow> humanTask \<Rightarrow> humanOutcome" where
  "taskOutcome nodeID attempt input now t =
     (let res = \<lparr>nr_nodeID = nodeID, nr_attempt = attempt, nr_started = now, nr_ended = now, nr_input = input, nr_output = JNil, nr_err = None\<rparr> in
      if ht_Status t = HumanTaskPending then HumanPending
      else if ht_Status t = HumanTaskApproved
      then HumanDone (res\<lparr>nr_output := (if ht_EditedInput t \<noteq> JNil then ht_EditedInput t else input)\<rparr>)
      else if ht_Status t = HumanTaskRejected \<or> ht_Status t = HumanTaskTimedOut
      then HumanDone (res\<lparr>nr_err := Some (NEOther (''human step '' @ ht_Status t))\<rparr>)
      else if ht_Status t = HumanTaskCanceled then HumanDone (res\<lparr>nr_err := Some (NEOther ''run canceled'')\<rparr>)
      else HumanError (EText (''unexpected human task status '' @ quoted (ht_Status t))))"

definition maybeHandleHumanNode ::
  "'s svcEnv \<Rightarrow> callCtx \<Rightarrow> string \<Rightarrow> string \<Rightarrow> 'f nodeDef \<Rightarrow> int \<Rightarrow> json \<Rightarrow> gotime \<Rightarrow> 's \<Rightarrow> humanOutcome \<times> 's" where
  "maybeHandleHumanNode env ctx runID wfl node attempt input now s =
     (let ops = sx_ops env; i = nd_NodeID node in
      case nd_Human node of
        None \<Rightarrow> (HumanNo, s)
      | Some h \<Rightarrow>
          (case findHumanTask ops runID i attempt HumanTaskSourceNode s of
             Inl err \<Rightarrow> (HumanError err, s)
           | Inr None \<Rightarrow> requestHuman env ctx runID wfl node h attempt input now s
           | Inr (Some t) \<Rightarrow>
               if taskOverdue ops runID i attempt now t s then
                 (case saveHumanTask env now (timedOut now t) s of
                    (Some err, s1) \<Rightarrow> (HumanError err, s1)
                  | (None, s1) \<Rightarrow>
                      (taskOutcome i attempt input now (timedOut now t),
                       snd (so_AppendEvent ops now (mkEvent runID EventHumanTaskResolved wfl i attempt (marshal (humanJSON (timedOut now t)))) s1)))
               else (taskOutcome i attempt input now t, s)))"

section \<open>Where tasks are kept\<close>

definition isHumanKey :: "string \<Rightarrow> bool" where
  "isHumanKey k \<longleftrightarrow> HasPrefix k ''human/''"

lemma human_keys [simp]:
  "TrimSpace (humanTaskKey i) = humanTaskKey i" "TrimSpace humanTaskIndexKey = humanTaskIndexKey"
  "isHumanKey (humanTaskKey i)" "isHumanKey humanTaskIndexKey"
  "humanTaskKey i = humanTaskKey j \<longleftrightarrow> TrimSpace i = TrimSpace j"
  "humanTaskKey i = humanTaskIndexKey \<longleftrightarrow> TrimSpace i = ''index''" "humanTaskIndexKey = humanTaskKey i \<longleftrightarrow> TrimSpace i = ''index''"
  unfolding humanTaskKey_def isHumanKey_def using TrimSpace_prefixed [of "''human/tasks/''" i]
  by (auto simp: TrimSpace_fixed is_space_def HasPrefix_def)

lemma human_not_audit: "isHumanKey k \<Longrightarrow> \<not> isAuditKey k" "isAuditKey k \<Longrightarrow> \<not> isHumanKey k"
  by (cases k; auto simp: isHumanKey_def isAuditKey_def HasPrefix_def)+

lemma TrimSpace_Cons: "\<not> is_space c \<Longrightarrow> TrimSpace (c # x) = c # rev (dropWhile is_space (rev x))"
  by (simp add: TrimSpace_def dropWhile_append3)

lemma mint_human: "TrimSpace (mintID env ''human-'' now s) \<noteq> ''index''" "TrimSpace (mintID env ''human-'' now s) \<noteq> ''''"
  by (simp_all add: mintID_def TrimSpace_Cons is_space_def)

definition settled :: "'s storeOps \<Rightarrow> 's \<Rightarrow> string \<Rightarrow> humanTask \<Rightarrow> bool" where
  "settled ops s i t \<longleftrightarrow> GetHumanTask ops i s = Some (Inr t) \<and> ht_Status t \<noteq> HumanTaskPending"

text \<open>A task is stored under its own identifier, and no task at the place of the index.\<close>

definition human_inv :: "'s storeOps \<Rightarrow> 's \<Rightarrow> bool" where
  "human_inv ops s \<longleftrightarrow>
     (\<forall>i t. GetHumanTask ops i s = Some (Inr t) \<longrightarrow> TrimSpace (ht_ID t) = TrimSpace i \<and> TrimSpace i \<noteq> ''index'')"

definition task_moves :: "'s storeOps \<Rightarrow> 's \<Rightarrow> 's \<Rightarrow> bool" where
  "task_moves ops s s' \<longleftrightarrow> (human_inv ops s \<longrightarrow> human_inv ops s' \<and> (\<forall>i t. settled ops s i t \<longrightarrow> settled ops s' i t))"

lemma task_moves_refl [simp]: "task_moves ops s s"
  by (simp add: task_moves_def)

lemma task_moves_trans: "task_moves ops s t \<Longrightarrow> task_moves ops t u \<Longrightarrow> task_moves ops s u"
  by (simp add: task_moves_def)

lemma GetHumanTask_iff: "GetHumanTask ops i s = Some (Inr t) \<longleftrightarrow> so_GetKV ops s (humanTaskKey i) = Some (DocHuman t)"
  by (auto simp: GetHumanTask_def getJSONKV_def split: option.splits)

lemma task_moves_same: "(\<And>i. so_GetKV ops s' (humanTaskKey i) = so_GetKV ops s (humanTaskKey i)) \<Longrightarrow> task_moves ops s s'"
  by (simp add: task_moves_def human_inv_def settled_def GetHumanTask_iff)

lemma task_moves_kv: "kv_moves ops K s s' \<Longrightarrow> (\<And>k. isHumanKey k \<Longrightarrow> \<not> K k) \<Longrightarrow> task_moves ops s s'"
  using kv_moves_reads(5) by (intro task_moves_same) fastforce

lemma taskFilled_simps [simp]:
  "ht_Status (taskFilled env now t s) = TrimSpace (ht_Status t)" "ht_RunID (taskFilled env now t s) = TrimSpace (ht_RunID t)"
  "ht_NodeID (taskFilled env now t s) = TrimSpace (ht_NodeID t)" "ht_Source (taskFilled env now t s) = TrimSpace (ht_Source t)"
  "ht_EditedInput (taskFilled env now t s) = ht_EditedInput t"
  by (simp_all add: taskFilled_def)

lemma taskFilled_ID:
  "TrimSpace (ht_ID t) = '''' \<Longrightarrow> ht_ID (taskFilled env now t s) = mintID env ''human-'' now s"
  "TrimSpace (ht_ID t) \<noteq> '''' \<Longrightarrow> ht_ID (taskFilled env now t s) = TrimSpace (ht_ID t)"
  by (simp_all add: taskFilled_def)

context store_contract
begin

lemma save_task:
  assumes "sinv s" "sx_ops env = ops" "saveHumanTask env now t s = (err, s')"
  shows "sinv s'" "kv_moves ops isHumanKey s s'"
    "so_GetKV ops s' (humanTaskKey i) = so_GetKV ops s (humanTaskKey i) \<or> (\<exists>ids. so_GetKV ops s' (humanTaskKey i) = Some (DocIDs ids)) \<and> TrimSpace i = ''index'' \<or>
       humanTaskKey i = humanTaskKey (ht_ID (taskFilled env now t s)) \<and> so_GetKV ops s' (humanTaskKey i) = Some (DocHuman (taskFilled env now t s))"
    "err = None \<Longrightarrow> TrimSpace (ht_ID (taskFilled env now t s)) \<noteq> ''index'' \<Longrightarrow>
       so_GetKV ops s' (humanTaskKey (ht_ID (taskFilled env now t s))) = Some (DocHuman (taskFilled env now t s))"
proof -
  define f where "f = taskFilled env now t s"
  obtain e1 s1 where p1: "putJSONKV ops now (humanTaskKey (ht_ID f)) (DocHuman f) s = (e1, s1)" by fastforce
  note a = put_doc(1) [OF assms(1) p1] put_doc(2) [OF assms(1) p1, of isHumanKey, simplified]
  have shape: "s' = s1 \<and> (err = None \<longrightarrow> e1 = None) \<or>
      (\<exists>ids. e1 = None \<and> putJSONKV ops now humanTaskIndexKey (DocIDs (ids @ [ht_ID f])) s1 = (err, s'))"
    using assms(3) unfolding saveHumanTask_def Let_def assms(2) f_def [symmetric] p1
    by (auto split: option.splits sum.splits if_splits)
  have s1: "so_GetKV ops s1 (humanTaskKey i) = so_GetKV ops s (humanTaskKey i) \<or>
      humanTaskKey i = humanTaskKey (ht_ID f) \<and> so_GetKV ops s1 (humanTaskKey i) = Some (DocHuman f)" for i
    using put_doc(4) [OF assms(1) p1, of "humanTaskKey i"] by simp
  have new: "e1 = None \<Longrightarrow> so_GetKV ops s1 (humanTaskKey (ht_ID f)) = Some (DocHuman f)"
    using put_doc(3) [OF assms(1) p1] by simp
  have rest: "sinv s' \<and> kv_moves ops isHumanKey s1 s' \<and> (so_GetKV ops s' (humanTaskKey i) = so_GetKV ops s1 (humanTaskKey i) \<or>
      (\<exists>ids. so_GetKV ops s' (humanTaskKey i) = Some (DocIDs ids)) \<and> TrimSpace i = ''index'')" for i
    using shape
  proof
    assume "\<exists>ids. e1 = None \<and> putJSONKV ops now humanTaskIndexKey (DocIDs (ids @ [ht_ID f])) s1 = (err, s')"
    then obtain ids where p2: "putJSONKV ops now humanTaskIndexKey (DocIDs (ids @ [ht_ID f])) s1 = (err, s')" by blast
    show ?thesis using put_doc(1) [OF a(1) p2] put_doc(2) [OF a(1) p2, of isHumanKey] put_doc(4) [OF a(1) p2, of "humanTaskKey i"] by auto
  qed (use a in simp)
  show "sinv s'" using rest by blast
  show "kv_moves ops isHumanKey s s'" using kv_moves_trans [OF a(2), of s'] rest by simp
  show "so_GetKV ops s' (humanTaskKey i) = so_GetKV ops s (humanTaskKey i) \<or> (\<exists>ids. so_GetKV ops s' (humanTaskKey i) = Some (DocIDs ids)) \<and> TrimSpace i = ''index'' \<or>
       humanTaskKey i = humanTaskKey (ht_ID (taskFilled env now t s)) \<and> so_GetKV ops s' (humanTaskKey i) = Some (DocHuman (taskFilled env now t s))"
    using rest [of i] s1 [of i] unfolding f_def [symmetric] by (elim conjE disjE) simp_all
  show "so_GetKV ops s' (humanTaskKey (ht_ID (taskFilled env now t s))) = Some (DocHuman (taskFilled env now t s))"
    if "err = None" "TrimSpace (ht_ID (taskFilled env now t s)) \<noteq> ''index''"
    using rest [of "ht_ID f"] new shape that unfolding f_def by auto
qed

text \<open>Writing a task is harmless to settled ones when its place is free or holds an open task.\<close>

lemma save_task_moves:
  assumes "sinv s" "sx_ops env = ops" "saveHumanTask env now t s = (err, s')"
    and "human_inv ops s \<Longrightarrow> TrimSpace (ht_ID (taskFilled env now t s)) \<noteq> ''index'' \<and>
      (\<forall>x. GetHumanTask ops (ht_ID (taskFilled env now t s)) s = Some (Inr x) \<longrightarrow> ht_Status x = HumanTaskPending)"
  shows "task_moves ops s s'"
  unfolding task_moves_def
proof (intro impI conjI allI)
  assume inv: "human_inv ops s"
  note k = save_task(3) [OF assms(1-3)] and free = assms(4) [OF inv]
  show "settled ops s' i x" if "settled ops s i x" for i x
  proof -
    from that have i: "so_GetKV ops s (humanTaskKey i) = Some (DocHuman x)" "ht_Status x \<noteq> HumanTaskPending" "TrimSpace i \<noteq> ''index''"
      using inv by (auto simp: settled_def GetHumanTask_iff human_inv_def)
    have "humanTaskKey i \<noteq> humanTaskKey (ht_ID (taskFilled env now t s))"
      using free i(1,2) unfolding GetHumanTask_iff by metis
    with k [of i] i show ?thesis by (simp add: settled_def GetHumanTask_iff)
  qed
  show "human_inv ops s'" unfolding human_inv_def
  proof (intro allI impI)
    fix i x
    assume i: "GetHumanTask ops i s' = Some (Inr x)"
    from k [of i] show "TrimSpace (ht_ID x) = TrimSpace i \<and> TrimSpace i \<noteq> ''index''"
      using i inv free human_keys(5) [of i "ht_ID (taskFilled env now t s)"]
      by (elim disjE) (auto simp: human_inv_def GetHumanTask_iff simp del: human_keys(5))
  qed
qed

text \<open>The other calls leave every document alone.\<close>

lemma calls_kv:
  assumes "sinv s"
  shows "sinv (snd (so_CreateRun ops now r s)) \<and> so_GetKV ops (snd (so_CreateRun ops now r s)) = so_GetKV ops s"
    "sinv (snd (so_UpdateRun ops now r s)) \<and> so_GetKV ops (snd (so_UpdateRun ops now r s)) = so_GetKV ops s"
    "sinv (snd (so_UpsertNodeExecution ops now n s)) \<and> so_GetKV ops (snd (so_UpsertNodeExecution ops now n s)) = so_GetKV ops s"
    "sinv (snd (so_UpsertTimer ops now t s)) \<and> so_GetKV ops (snd (so_UpsertTimer ops now t s)) = so_GetKV ops s"
    "sinv (snd (so_AppendEvent ops now e s)) \<and> so_GetKV ops (snd (so_AppendEvent ops now e s)) = so_GetKV ops s"
proof -
  have same: "so_GetKV ops x = so_GetKV ops s" if "sv_kv (view ops x) = sv_kv (view ops s)" for x
    using that by (simp add: view_def)
  note c = prod.collapse [symmetric]
  show "sinv (snd (so_CreateRun ops now r s)) \<and> so_GetKV ops (snd (so_CreateRun ops now r s)) = so_GetKV ops s"
    using create [OF assms c, of now r] by (auto intro!: same simp: view_updates split: if_splits)
  show "sinv (snd (so_UpdateRun ops now r s)) \<and> so_GetKV ops (snd (so_UpdateRun ops now r s)) = so_GetKV ops s"
    using update [OF assms c, of now r] by (auto intro!: same simp: view_updates split: if_splits)
  show "sinv (snd (so_UpsertNodeExecution ops now n s)) \<and> so_GetKV ops (snd (so_UpsertNodeExecution ops now n s)) = so_GetKV ops s"
    using node [OF assms c, of now n] by (auto intro!: same simp: view_updates split: if_splits)
  show "sinv (snd (so_UpsertTimer ops now t s)) \<and> so_GetKV ops (snd (so_UpsertTimer ops now t s)) = so_GetKV ops s"
    using timer [OF assms c, of now t] by (auto intro!: same simp: view_updates split: if_splits)
  show "sinv (snd (so_AppendEvent ops now e s)) \<and> so_GetKV ops (snd (so_AppendEvent ops now e s)) = so_GetKV ops s"
    using event_ok [OF assms, of now e] event_err [OF assms, of now e]
    by (cases "so_AppendEvent ops now e s"; cases "fst (so_AppendEvent ops now e s)") (auto intro!: same simp: view_updates)
qed

end

end
