(* ===== verification/Risk.thy ===== *)
theory Risk
  imports Human
begin

text \<open>
  Risk assessment of a run, \<^verbatim>\<open>internal/engine/risk.go\<close>: the policy and its thresholds, the three
  detectors, the score and the action, and the check at the start of a run, which a stored
  manual approval or rejection overrides.

  \<^item> \<open>rawText\<close> gives the bytes of a raw message, which the prompt detector reads when the message
    holds no string value.
  \<^item> A Go map is visited in the order of the object; scores do not depend on it.
  \<^item> \<open>JTime\<close> values occur only in documents the engine writes, not in the input of a run.
\<close>

abbreviation RiskActionAllow :: string where "RiskActionAllow \<equiv> ''allow''"
abbreviation RiskActionSandbox :: string where "RiskActionSandbox \<equiv> ''sandbox''"
abbreviation RiskActionBlock :: string where "RiskActionBlock \<equiv> ''block''"
abbreviation RiskSeverityLow :: string where "RiskSeverityLow \<equiv> ''low''"
abbreviation RiskSeverityMedium :: string where "RiskSeverityMedium \<equiv> ''medium''"
abbreviation RiskSeverityHigh :: string where "RiskSeverityHigh \<equiv> ''high''"
abbreviation RiskSeverityCritical :: string where "RiskSeverityCritical \<equiv> ''critical''"
abbreviation RiskCategoryPromptInjection :: string where "RiskCategoryPromptInjection \<equiv> ''prompt_injection''"
abbreviation RiskCategorySuspiciousChain :: string where "RiskCategorySuspiciousChain \<equiv> ''suspicious_tool_chain''"
abbreviation RiskCategoryUnusualDataMotion :: string where "RiskCategoryUnusualDataMotion \<equiv> ''unusual_data_movement''"

section \<open>Policy\<close>

definition defaultRiskPolicy :: riskPolicy where
  "defaultRiskPolicy = \<lparr>rkp_ID = '''', rkp_Description = '''', rkp_UpdatedAt = None,
     rkp_Thresholds = \<lparr>rk_SandboxScore = 30, rk_ApprovalScore = 60, rk_BlockScore = 90\<rparr>\<rparr>"

definition orDefault :: "int \<Rightarrow> int \<Rightarrow> int" where
  "orDefault v d = (if v \<le> 0 then d else v)"

definition RiskPolicy_NormalizeAndValidate :: "riskPolicy \<Rightarrow> engineError + riskPolicy" where
  "RiskPolicy_NormalizeAndValidate p =
     (let d = rkp_Thresholds defaultRiskPolicy; t = rkp_Thresholds p;
          t1 = \<lparr>rk_SandboxScore = orDefault (rk_SandboxScore t) (rk_SandboxScore d),
                rk_ApprovalScore = orDefault (rk_ApprovalScore t) (rk_ApprovalScore d),
                rk_BlockScore = orDefault (rk_BlockScore t) (rk_BlockScore d)\<rparr>
      in if rk_ApprovalScore t1 \<le> rk_SandboxScore t1 then Inl (EText ''risk policy sandbox_score must be lower than approval_score'')
         else if rk_BlockScore t1 \<le> rk_ApprovalScore t1 then Inl (EText ''risk policy approval_score must be lower than block_score'')
         else Inr \<lparr>rkp_ID = TrimSpace (rkp_ID p), rkp_Description = TrimSpace (rkp_Description p), rkp_UpdatedAt = rkp_UpdatedAt p,
                   rkp_Thresholds = t1\<rparr>)"

definition riskActionForScore :: "int \<Rightarrow> riskThresholds \<Rightarrow> string" where
  "riskActionForScore score t =
     (if rk_BlockScore t \<le> score then RiskActionBlock
      else if rk_ApprovalScore t \<le> score then RiskActionRequireApproval
      else if rk_SandboxScore t \<le> score then RiskActionSandbox
      else RiskActionAllow)"

definition severityForScore :: "int \<Rightarrow> string" where
  "severityForScore score =
     (if 75 \<le> score then RiskSeverityCritical else if 45 \<le> score then RiskSeverityHigh
      else if 25 \<le> score then RiskSeverityMedium else RiskSeverityLow)"

section \<open>What topics suggest\<close>

definition containsAny :: "string \<Rightarrow> string list \<Rightarrow> bool" where
  "containsAny s needles = list_ex (\<lambda>needle. strings_Contains s needle) needles"

record topicProfile =
  tpf_Network :: bool
  tpf_Exec :: bool
  tpf_Filesystem :: bool
  tpf_Database :: bool
  tpf_Secret :: bool

definition classifyTopic :: "string \<Rightarrow> topicProfile" where
  "classifyTopic topic0 =
     (let topic = ToLower (TrimSpace topic0) in
      \<lparr>tpf_Network = containsAny topic [''http'', ''https'', ''web'', ''fetch'', ''request'', ''upload'', ''download'', ''post'', ''send'',
         ''email'', ''smtp'', ''slack'', ''webhook''],
       tpf_Exec = containsAny topic [''shell'', ''exec'', ''cmd'', ''powershell'', ''bash'', ''terminal'', ''process''],
       tpf_Filesystem = containsAny topic [''file'', ''fs'', ''disk'', ''blob'', ''bucket'', ''s3'', ''storage''],
       tpf_Database = containsAny topic [''db'', ''sql'', ''query'', ''warehouse'', ''table'', ''record''],
       tpf_Secret = containsAny topic [''secret'', ''vault'', ''credential'', ''token'', ''private_key'', ''api_key'', ''passwd'', ''password'']\<rparr>)"

definition topicByNode :: "'f workflowGraph \<Rightarrow> (string, string) gomap" where
  "topicByNode g = foldl (\<lambda>m n. mput (nd_NodeID n) (TrimSpace (nd_Topic n)) m) [] (wg_Nodes g)"

fun adjacentTopics :: "'f nodeDef list \<Rightarrow> (string \<times> string) list" where
  "adjacentTopics (a # b # ns) = (TrimSpace (nd_Topic a), TrimSpace (nd_Topic b)) # adjacentTopics (b # ns)"
| "adjacentTopics _ = []"

definition workflowTopicPairs :: "'f workflowGraph \<Rightarrow> (string \<times> string) list" where
  "workflowTopicPairs g =
     filter (\<lambda>(a, b). \<not> (a = '''' \<or> b = ''''))
       (if wg_Edges g \<noteq> []
        then map (\<lambda>e. (mdef '''' (topicByNode g) (ed_From e), mdef '''' (topicByNode g) (ed_To e))) (wg_Edges g)
        else adjacentTopics (wg_Nodes g))"

definition workflowHasOutboundTopic :: "'f workflowGraph \<Rightarrow> bool" where
  "workflowHasOutboundTopic g = list_ex (\<lambda>n. tpf_Network (classifyTopic (nd_Topic n))) (wg_Nodes g)"

section \<open>What the input contains\<close>

fun collectStringsRecursive :: "json \<Rightarrow> string list" where
  "collectStringsRecursive (JText s) = [s]"
| "collectStringsRecursive (JArr xs) = concat (map collectStringsRecursive xs)"
| "collectStringsRecursive (JObj kvs) = concat (map (\<lambda>kv. collectStringsRecursive (snd kv)) kvs)"
| "collectStringsRecursive _ = []"

definition collectJSONStrings :: "json \<Rightarrow> string list" where
  "collectJSONStrings raw = (if raw = JNil \<or> \<not> json_ok raw then [] else collectStringsRecursive raw)"

definition sensitiveWords :: "string list" where
  "sensitiveWords = [''password'', ''secret'', ''token'', ''credential'', ''api_key'', ''private_key'', ''ssn'', ''pii'']"

fun collectSensitiveKeysRecursive :: "json \<Rightarrow> string list" where
  "collectSensitiveKeysRecursive (JArr xs) = concat (map collectSensitiveKeysRecursive xs)"
| "collectSensitiveKeysRecursive (JObj kvs) =
     concat (map (\<lambda>kv. (if containsAny (ToLower (TrimSpace (fst kv))) sensitiveWords then [fst kv] else [])
                       @ collectSensitiveKeysRecursive (snd kv)) kvs)"
| "collectSensitiveKeysRecursive _ = []"

definition collectSensitiveJSONKeys :: "json \<Rightarrow> string list" where
  "collectSensitiveJSONKeys raw = (if raw = JNil \<or> \<not> json_ok raw then [] else remdups (collectSensitiveKeysRecursive raw))"

section \<open>Detectors\<close>

definition injectionPatterns :: "string list" where
  "injectionPatterns = [''ignore previous instructions'', ''ignore prior instructions'', ''ignore system prompt'', ''reveal system prompt'',
     ''developer instructions'', ''bypass safety'', ''disable guardrails'', ''jailbreak'', ''exfiltrate'', ''leak secrets'',
     ''reveal secrets'', ''override policy'']"

fun injectionEvidence :: "string list \<Rightarrow> string list \<Rightarrow> string list" where
  "injectionEvidence [] evidence = evidence"
| "injectionEvidence (v # vs) evidence =
     (let sample = TrimSpace v; snippet = take 96 sample in
      if sample = '''' \<or> \<not> containsAny (ToLower sample) injectionPatterns \<or> snippet \<in> set evidence
      then injectionEvidence vs evidence
      else injectionEvidence vs (evidence @ [snippet]))"

definition mkFinding :: "string \<Rightarrow> string \<Rightarrow> int \<Rightarrow> string \<Rightarrow> string list \<Rightarrow> riskFinding" where
  "mkFinding category severity score summary evidence =
     \<lparr>rf_Category = category, rf_Severity = severity, rf_Score = score, rf_Summary = summary, rf_Evidence = evidence\<rparr>"

definition detectPromptInjection :: "(json \<Rightarrow> string) \<Rightarrow> json \<Rightarrow> riskFinding list" where
  "detectPromptInjection rawText initialInput =
     (let values0 = collectJSONStrings initialInput;
          vals = (if values0 = [] \<and> initialInput \<noteq> JNil then [rawText initialInput] else values0);
          evidence = injectionEvidence vals []
      in if evidence = [] then []
         else
           let score = min 65 (45 + (if 1 < length evidence then 10 else 0) + (if 2 < length evidence then 10 else 0)) in
           [mkFinding RiskCategoryPromptInjection (severityForScore score) score
              ''input contains prompt-injection-shaped instructions'' evidence])"

text \<open>The loops keep the first finding of a kind (\<open>seen\<close> holds the one summary they write).\<close>

definition detectSuspiciousToolChains :: "'f workflowGraph \<Rightarrow> riskFinding list" where
  "detectSuspiciousToolChains g =
     (case find (\<lambda>(a, b). tpf_Network (classifyTopic a) \<and> tpf_Exec (classifyTopic b)) (workflowTopicPairs g) of
        Some (a, b) \<Rightarrow>
          [mkFinding RiskCategorySuspiciousChain RiskSeverityHigh 45
             ''workflow chains network retrieval into command execution'' [a @ '' -> '' @ b]]
      | None \<Rightarrow>
          if list_ex (\<lambda>n. tpf_Network (classifyTopic (nd_Topic n))) (wg_Nodes g) \<and> list_ex (\<lambda>n. tpf_Exec (classifyTopic (nd_Topic n))) (wg_Nodes g)
          then [mkFinding RiskCategorySuspiciousChain RiskSeverityMedium 35
                  ''workflow mixes outbound network access with command execution'' []]
          else [])"

definition movesData :: "string \<times> string \<Rightarrow> bool" where
  "movesData p \<longleftrightarrow> (let a = classifyTopic (fst p) in
     (tpf_Secret a \<or> tpf_Database a \<or> tpf_Filesystem a) \<and> tpf_Network (classifyTopic (snd p)))"

definition detectUnusualDataMovement :: "'f workflowGraph \<Rightarrow> json \<Rightarrow> riskFinding list" where
  "detectUnusualDataMovement g initialInput =
     (case find movesData (workflowTopicPairs g) of
        None \<Rightarrow> []
      | Some (a, b) \<Rightarrow>
          let score = (if tpf_Secret (classifyTopic a) then 75 else 65) in
          [mkFinding RiskCategoryUnusualDataMotion (severityForScore score) score
             ''workflow moves internal or sensitive data toward outbound tools'' [a @ '' -> '' @ b]])
     @ (let keys = collectSensitiveJSONKeys initialInput in
        if keys \<noteq> [] \<and> workflowHasOutboundTopic g
        then [mkFinding RiskCategoryUnusualDataMotion RiskSeverityHigh 40
                ''workflow combines sensitive input fields with outbound delivery tools'' (sort keys)]
        else [])"

section \<open>The report\<close>

definition riskReason :: "string \<Rightarrow> string" where
  "riskReason act =
     (if act = RiskActionAllow then ''risk score below sandbox threshold''
      else if act = RiskActionSandbox then ''risk score requires sandbox execution''
      else if act = RiskActionRequireApproval then ''risk score requires manual approval''
      else if act = RiskActionBlock then ''risk score requires blocking execution''
      else '''')"

definition riskFindings :: "(json \<Rightarrow> string) \<Rightarrow> 'f workflowGraph \<Rightarrow> json \<Rightarrow> riskFinding list" where
  "riskFindings rawText g initialInput =
     sort_key (\<lambda>f. (- rf_Score f, rf_Summary f))
       (detectPromptInjection rawText initialInput @ detectSuspiciousToolChains g @ detectUnusualDataMovement g initialInput)"

definition riskReport ::
  "(json \<Rightarrow> string) \<Rightarrow> riskThresholds \<Rightarrow> callCtx \<Rightarrow> string \<Rightarrow> 'f workflowGraph \<Rightarrow> json \<Rightarrow> workflowRiskReport" where
  "riskReport rawText thresholds ctx runID g initialInput =
     (let p = Principal_Normalize (case PrincipalFrom ctx of Some p \<Rightarrow> p | None \<Rightarrow> noPrincipal);
          tenantID = (if TrimSpace (cx_Tenant ctx) = '''' then pr_TenantID p else TrimSpace (cx_Tenant ctx));
          findings = riskFindings rawText g initialInput;
          score = min 100 (sum_list (map rf_Score findings));
          act = riskActionForScore score thresholds
      in \<lparr>rr_Allowed = (act = RiskActionAllow \<or> act = RiskActionSandbox), rr_Action = act, rr_Score = score, rr_Reason = riskReason act,
          rr_RunID = TrimSpace runID, rr_TenantID = tenantID, rr_WorkflowID = TrimSpace (wg_ID g), rr_Principal = p,
          rr_Thresholds = thresholds, rr_Findings = findings\<rparr>)"

text \<open>A stored decision of a reviewer about the run overrides the action that asks for one.\<close>

definition applyReview :: "humanTask option \<Rightarrow> workflowRiskReport \<Rightarrow> workflowRiskReport" where
  "applyReview found report =
     (case found of
        None \<Rightarrow> report
      | Some t \<Rightarrow>
          if ht_Status t = HumanTaskApproved
          then report\<lparr>rr_Action := RiskActionAllow, rr_Allowed := True, rr_Reason := ''manual risk approval granted''\<rparr>
          else if ht_Status t = HumanTaskRejected \<or> ht_Status t = HumanTaskTimedOut \<or> ht_Status t = HumanTaskCanceled
          then report\<lparr>rr_Action := RiskActionBlock, rr_Allowed := False, rr_Reason := ''manual risk approval rejected''\<rparr>
          else if ht_Status t = HumanTaskPending then report\<lparr>rr_Reason := ''waiting for manual risk approval''\<rparr>
          else report)"

definition reviewedReport :: "'s storeOps \<Rightarrow> string \<Rightarrow> workflowRiskReport \<Rightarrow> 's \<Rightarrow> workflowRiskReport" where
  "reviewedReport ops runID report s =
     (if rr_Action report = RiskActionRequireApproval
      then (case findHumanTask ops runID '''' 0 HumanTaskSourceRisk s of Inr found \<Rightarrow> applyReview found report | Inl err \<Rightarrow> report)
      else report)"

end
