(* ===== verification/FileStore.thy ===== *)
theory FileStore
  imports EngineStore
begin

text \<open>
  The durable store, \<^verbatim>\<open>internal/engine/store_file.go\<close>: the maps of \<open>MemoryStore\<close> and a JSONL log
  that is fsynced on every write and replayed by \<open>OpenFileStore\<close>.

  \<open>engineWAL\<close> holds what is in the file as a list of pieces: \<open>WLine\<close> a complete line, \<open>WTorn\<close>
  a proper fragment of a line and \<open>WOpen\<close> a line without its newline, both left by a write
  that failed half way; the next write continues the same line.  What the disk answers is a
  script (\<open>ew_io\<close>), one outcome per write; an exhausted script answers success.  A value
  decodes to what was encoded; the length of an encoded record is the parameter \<open>jl\<close>, for
  the scanner's 10 MiB limit.  Seeking in the open file does not fail.

  The theory shows that the store keeps the \<open>Store\<close> contract on any disk, that it behaves as
  \<open>MemoryStore\<close> while the disk works, that reopening restores what was stored, and what a
  torn write costs.
\<close>

section \<open>The log\<close>

datatype walOp =
    opCreateRun run
  | opUpdateRun run
  | opUpsertNode nodeExecution
  | opAppendEvent runEvent
  | opUpsertTimer timer
  | opPutKV string kvText
  | opOther string

record walRecord =
  wr_Op :: walOp
  wr_At :: gotime

datatype walPiece = WLine walRecord | WTorn | WOpen walRecord

datatype walIO = EioOk | EioNone | EioTorn | EioOpen | EioSync

record engineWAL =
  ew_file :: "walPiece list"
  ew_io :: "walIO list"

definition openEngineWAL :: "walPiece list \<Rightarrow> walIO list \<Rightarrow> engineWAL" where
  "openEngineWAL content script = \<lparr>ew_file = content, ew_io = script\<rparr>"

fun op_json_ok :: "walOp \<Rightarrow> bool" where
  "op_json_ok (opCreateRun r) = run_json_ok r"
| "op_json_ok (opUpdateRun r) = run_json_ok r"
| "op_json_ok (opUpsertNode n) = node_json_ok n"
| "op_json_ok (opAppendEvent e) = json_ok (ev_Payload e)"
| "op_json_ok _ = True"

definition next_eio :: "engineWAL \<Rightarrow> walIO" where
  "next_eio w = (case ew_io w of [] \<Rightarrow> EioOk | x # _ \<Rightarrow> x)"

definition engineWAL_Append :: "gotime \<Rightarrow> walOp \<Rightarrow> engineWAL \<Rightarrow> engineError option \<times> engineWAL" where
  "engineWAL_Append now opr w =
     (if \<not> op_json_ok opr then (Some (EText ''marshal wal value''), w)
      else
        let rec = \<lparr>wr_Op = opr, wr_At = now\<rparr>; w1 = w\<lparr>ew_io := tl (ew_io w)\<rparr> in
        case next_eio w of
          EioOk \<Rightarrow> (None, w1\<lparr>ew_file := ew_file w1 @ [WLine rec]\<rparr>)
        | EioNone \<Rightarrow> (Some (EText ''write wal record''), w1)
        | EioTorn \<Rightarrow> (Some (EText ''write wal record''), w1\<lparr>ew_file := ew_file w1 @ [WTorn]\<rparr>)
        | EioOpen \<Rightarrow> (Some (EText ''write wal record''), w1\<lparr>ew_file := ew_file w1 @ [WOpen rec]\<rparr>)
        | EioSync \<Rightarrow> (Some (EText ''fsync wal''), w1\<lparr>ew_file := ew_file w1 @ [WLine rec]\<rparr>))"

text \<open>Scanning: a fragment spoils the line it starts, whatever follows it; an unterminated
  complete line decodes only as the last one.\<close>

fun scanRecords :: "(walRecord \<Rightarrow> nat) \<Rightarrow> walPiece list \<Rightarrow> engineError + walRecord list" where
  "scanRecords jl [] = Inr []"
| "scanRecords jl (WTorn # ps) = Inl (EText ''decode wal record'')"
| "scanRecords jl [WOpen r] =
     (if 10 * 1024 * 1024 \<le> jl r then Inl (EText ''scan wal: token too long'') else Inr [r])"
| "scanRecords jl (WOpen r # p # ps) = Inl (EText ''decode wal record'')"
| "scanRecords jl (WLine r # ps) =
     (if 10 * 1024 * 1024 \<le> jl r then Inl (EText ''scan wal: token too long'')
      else case scanRecords jl ps of Inl e \<Rightarrow> Inl e | Inr rs \<Rightarrow> Inr (r # rs))"

definition engineWAL_Replay :: "(walRecord \<Rightarrow> nat) \<Rightarrow> engineWAL \<Rightarrow> engineError + walRecord list" where
  "engineWAL_Replay jl w = scanRecords jl (ew_file w)"

section \<open>FileStore\<close>

record fileStore = memStore +
  fs_wal :: engineWAL

abbreviation mem_of :: "fileStore \<Rightarrow> memStore" where "mem_of \<equiv> memStore.truncate"

definition timerFieldsOk :: "timer \<Rightarrow> bool" where
  "timerFieldsOk t \<longleftrightarrow> \<not> (tm_RunID t = '''' \<or> tm_NodeID t = '''' \<or> tm_Attempt t < 1)"

definition bumpSeq :: "string \<Rightarrow> int \<Rightarrow> (string, int) gomap \<Rightarrow> (string, int) gomap" where
  "bumpSeq runID nxt m =
     (case mget m runID of None \<Rightarrow> mput runID nxt m | Some cur \<Rightarrow> if cur < nxt then mput runID nxt m else m)"

fun applyRecord :: "walOp \<Rightarrow> fileStore \<Rightarrow> engineError + fileStore" where
  "applyRecord (opCreateRun r) s =
     (case Run_Validate r of
        Some err \<Rightarrow> Inl (EWrap ''replay create_run validate'' err)
      | None \<Rightarrow> Inr (s\<lparr>ms_runs := mput (run_RunID r) r (ms_runs s), ms_nextSeq := seedSeq (run_RunID r) (ms_nextSeq s)\<rparr>))"
| "applyRecord (opUpdateRun r) s =
     (case Run_Validate r of
        Some err \<Rightarrow> Inl (EWrap ''replay update_run validate'' err)
      | None \<Rightarrow> Inr (s\<lparr>ms_runs := mput (run_RunID r) r (ms_runs s), ms_nextSeq := seedSeq (run_RunID r) (ms_nextSeq s)\<rparr>))"
| "applyRecord (opUpsertNode n) s =
     (case NodeExecution_Validate n of
        Some err \<Rightarrow> Inl (EWrap ''replay upsert_node validate'' err)
      | None \<Rightarrow> Inr (s\<lparr>ms_nodes := mput (nodeKeyOf n) n (ms_nodes s)\<rparr>))"
| "applyRecord (opAppendEvent e) s =
     (case RunEvent_Validate e of
        Some err \<Rightarrow> Inl (EWrap ''replay append_event validate'' err)
      | None \<Rightarrow> Inr (s\<lparr>ms_events := mput (ev_RunID e) (mdef [] (ms_events s) (ev_RunID e) @ [e]) (ms_events s),
                      ms_nextSeq := bumpSeq (ev_RunID e) (ev_Seq e + 1) (ms_nextSeq s)\<rparr>))"
| "applyRecord (opUpsertTimer t) s =
     (if \<not> timerFieldsOk t then Inl (EText ''replay upsert_timer: invalid timer fields'')
      else Inr (s\<lparr>ms_timers := mput (timerKeyOf t) t (ms_timers s)\<rparr>))"
| "applyRecord (opPutKV key val) s =
     (let k = TrimSpace key in
      if k = '''' then Inl (EText ''replay put_kv: key required'')
      else Inr (s\<lparr>ms_kv := mput k val (ms_kv s)\<rparr>))"
| "applyRecord (opOther x) s = Inl (EText (''unknown wal op: '' @ x))"

fun applyRecords :: "walRecord list \<Rightarrow> fileStore \<Rightarrow> engineError + fileStore" where
  "applyRecords [] s = Inr s"
| "applyRecords (r # rs) s = (case applyRecord (wr_Op r) s of Inl err \<Rightarrow> Inl err | Inr s1 \<Rightarrow> applyRecords rs s1)"

definition emptyFileStore :: "engineWAL \<Rightarrow> fileStore" where
  "emptyFileStore w = memStore.extend NewMemoryStore \<lparr>fs_wal = w\<rparr>"

definition seedAll :: "fileStore \<Rightarrow> fileStore" where
  "seedAll s = s\<lparr>ms_nextSeq := fold seedSeq (mkeys (ms_runs s)) (ms_nextSeq s)\<rparr>"

definition replayLocked :: "(walRecord \<Rightarrow> nat) \<Rightarrow> fileStore \<Rightarrow> engineError + fileStore" where
  "replayLocked jl s =
     (case engineWAL_Replay jl (fs_wal s) of
        Inl err \<Rightarrow> Inl err
      | Inr records \<Rightarrow>
          (case applyRecords records (emptyFileStore (fs_wal s)) of
             Inl err \<Rightarrow> Inl err
           | Inr s1 \<Rightarrow> Inr (seedAll s1)))"

definition OpenFileStore :: "(walRecord \<Rightarrow> nat) \<Rightarrow> walPiece list \<Rightarrow> walIO list \<Rightarrow> engineError + fileStore" where
  "OpenFileStore jl content script = replayLocked jl (emptyFileStore (openEngineWAL content script))"

text \<open>A call of \<open>s.wal.Append\<close> from a method.\<close>

definition persist :: "gotime \<Rightarrow> walOp \<Rightarrow> fileStore \<Rightarrow> engineError option \<times> fileStore" where
  "persist now opr s = (case engineWAL_Append now opr (fs_wal s) of (err, w) \<Rightarrow> (err, s\<lparr>fs_wal := w\<rparr>))"

definition FileStore_CreateRun :: "gotime \<Rightarrow> run \<Rightarrow> fileStore \<Rightarrow> engineError option \<times> fileStore" where
  "FileStore_CreateRun now r s =
     (case Run_Validate r of
        Some err \<Rightarrow> (Some err, s)
      | None \<Rightarrow>
          if mget (ms_runs s) (run_RunID r) \<noteq> None then (Some ErrRunAlreadyExists, s)
          else (case persist now (opCreateRun r) s of
                  (Some err, s1) \<Rightarrow> (Some err, s1)
                | (None, s1) \<Rightarrow> (None, s1\<lparr>ms_runs := mput (run_RunID r) r (ms_runs s1),
                                       ms_nextSeq := seedSeq (run_RunID r) (ms_nextSeq s1)\<rparr>)))"

definition FileStore_UpdateRun :: "gotime \<Rightarrow> run \<Rightarrow> fileStore \<Rightarrow> engineError option \<times> fileStore" where
  "FileStore_UpdateRun now r s =
     (case Run_Validate r of
        Some err \<Rightarrow> (Some err, s)
      | None \<Rightarrow>
          if mget (ms_runs s) (run_RunID r) = None then (Some ErrRunNotFound, s)
          else (case persist now (opUpdateRun r) s of
                  (Some err, s1) \<Rightarrow> (Some err, s1)
                | (None, s1) \<Rightarrow> (None, s1\<lparr>ms_runs := mput (run_RunID r) r (ms_runs s1)\<rparr>)))"

definition FileStore_GetRun :: "fileStore \<Rightarrow> string \<Rightarrow> run option" where
  "FileStore_GetRun s runID = mget (ms_runs s) runID"

definition FileStore_ListRuns :: "fileStore \<Rightarrow> string list" where
  "FileStore_ListRuns s = sort_key (runOrder (ms_runs s)) (mkeys (ms_runs s))"

definition FileStore_UpsertNodeExecution :: "gotime \<Rightarrow> nodeExecution \<Rightarrow> fileStore \<Rightarrow> engineError option \<times> fileStore" where
  "FileStore_UpsertNodeExecution now n s =
     (case NodeExecution_Validate n of
        Some err \<Rightarrow> (Some err, s)
      | None \<Rightarrow>
          if mget (ms_runs s) (ne_RunID n) = None then (Some ErrRunNotFound, s)
          else (case persist now (opUpsertNode n) s of
                  (Some err, s1) \<Rightarrow> (Some err, s1)
                | (None, s1) \<Rightarrow> (None, s1\<lparr>ms_nodes := mput (nodeKeyOf n) n (ms_nodes s1)\<rparr>)))"

definition FileStore_GetNodeExecution :: "fileStore \<Rightarrow> string \<Rightarrow> string \<Rightarrow> int \<Rightarrow> nodeExecution option" where
  "FileStore_GetNodeExecution s runID nodeID attempt = mget (ms_nodes s) (runID, nodeID, attempt)"

definition FileStore_ListNodeExecutions :: "fileStore \<Rightarrow> string \<Rightarrow> nodeExecution list" where
  "FileStore_ListNodeExecutions s runID =
     sort_key (\<lambda>n. (ne_NodeID n, ne_Attempt n)) (map snd (filter (\<lambda>(k, v). fst k = runID) (ms_nodes s)))"

definition FileStore_AppendEvent :: "gotime \<Rightarrow> runEvent \<Rightarrow> fileStore \<Rightarrow> (engineError + runEvent) \<times> fileStore" where
  "FileStore_AppendEvent now e0 s =
     (let e = stampEvent now e0 in
      if mget (ms_runs s) (ev_RunID e) = None then (Inl ErrRunNotFound, s)
      else
        let seq0 = mdef 0 (ms_nextSeq s) (ev_RunID e);
            seq = (if seq0 < 1 then 1 else seq0);
            e1 = e\<lparr>ev_Seq := seq\<rparr>;
            s1 = s\<lparr>ms_nextSeq := mput (ev_RunID e) (seq + 1) (ms_nextSeq s)\<rparr>
        in case RunEvent_Validate e1 of
             Some err \<Rightarrow> (Inl err, s1)
           | None \<Rightarrow>
               (case persist now (opAppendEvent e1) s1 of
                  (Some err, s2) \<Rightarrow> (Inl err, s2\<lparr>ms_nextSeq := mput (ev_RunID e) seq (ms_nextSeq s2)\<rparr>)
                | (None, s2) \<Rightarrow>
                    (Inr e1, s2\<lparr>ms_events := mput (ev_RunID e) (mdef [] (ms_events s2) (ev_RunID e) @ [e1]) (ms_events s2)\<rparr>)))"

definition FileStore_ListEvents :: "fileStore \<Rightarrow> string \<Rightarrow> runEvent list" where
  "FileStore_ListEvents s runID = mdef [] (ms_events s) runID"

definition FileStore_UpsertTimer :: "gotime \<Rightarrow> timer \<Rightarrow> fileStore \<Rightarrow> engineError option \<times> fileStore" where
  "FileStore_UpsertTimer now t s =
     (if \<not> timerFieldsOk t then (Some (EText ''invalid timer''), s)
      else if mget (ms_runs s) (tm_RunID t) = None then (Some ErrRunNotFound, s)
      else (case persist now (opUpsertTimer t) s of
              (Some err, s1) \<Rightarrow> (Some err, s1)
            | (None, s1) \<Rightarrow> (None, s1\<lparr>ms_timers := mput (timerKeyOf t) t (ms_timers s1)\<rparr>)))"

definition FileStore_GetTimer :: "fileStore \<Rightarrow> string \<Rightarrow> string \<Rightarrow> int \<Rightarrow> timer option" where
  "FileStore_GetTimer s runID nodeID attempt = mget (ms_timers s) (timerKey runID nodeID attempt)"

definition FileStore_ListTimers :: "fileStore \<Rightarrow> string \<Rightarrow> timer list" where
  "FileStore_ListTimers s runID =
     sort_key (\<lambda>t. (tm_FireAt t, tm_NodeID t, tm_Attempt t)) (filter (\<lambda>t. tm_RunID t = runID) (map snd (ms_timers s)))"

definition FileStore_ListDueTimers :: "fileStore \<Rightarrow> gotime \<Rightarrow> timer list" where
  "FileStore_ListDueTimers s now =
     sort_key (\<lambda>t. (tm_FireAt t, tm_RunID t, tm_NodeID t, tm_Attempt t)) (filter (timerDue now) (map snd (ms_timers s)))"

text \<open>\<open>PutKV\<close> changes the map before it writes the record.\<close>

definition FileStore_PutKV :: "gotime \<Rightarrow> string \<Rightarrow> kvText \<Rightarrow> fileStore \<Rightarrow> engineError option \<times> fileStore" where
  "FileStore_PutKV now key0 val s =
     (let key = TrimSpace key0 in
      if key = '''' then (Some (EText ''PutKV: key required''), s)
      else persist now (opPutKV key val) (s\<lparr>ms_kv := mput key val (ms_kv s)\<rparr>))"

definition FileStore_GetKV :: "fileStore \<Rightarrow> string \<Rightarrow> kvText option" where
  "FileStore_GetKV s key0 = (let key = TrimSpace key0 in if key = '''' then None else mget (ms_kv s) key)"

definition fileOps :: "fileStore storeOps" where
  "fileOps =
     \<lparr>so_CreateRun = FileStore_CreateRun, so_UpdateRun = FileStore_UpdateRun, so_GetRun = FileStore_GetRun,
      so_UpsertNodeExecution = FileStore_UpsertNodeExecution, so_GetNodeExecution = FileStore_GetNodeExecution,
      so_ListNodeExecutions = FileStore_ListNodeExecutions, so_AppendEvent = FileStore_AppendEvent,
      so_ListEvents = FileStore_ListEvents, so_UpsertTimer = FileStore_UpsertTimer, so_GetTimer = FileStore_GetTimer,
      so_ListTimers = FileStore_ListTimers, so_ListDueTimers = FileStore_ListDueTimers, so_ListRuns = FileStore_ListRuns,
      so_PutKV = FileStore_PutKV, so_GetKV = FileStore_GetKV\<rparr>"

section \<open>The contract on any disk\<close>

lemma fileOps_simps [simp]:
  "so_CreateRun fileOps = FileStore_CreateRun" "so_UpdateRun fileOps = FileStore_UpdateRun" "so_GetRun fileOps = FileStore_GetRun"
  "so_UpsertNodeExecution fileOps = FileStore_UpsertNodeExecution" "so_GetNodeExecution fileOps = FileStore_GetNodeExecution"
  "so_ListNodeExecutions fileOps = FileStore_ListNodeExecutions" "so_AppendEvent fileOps = FileStore_AppendEvent"
  "so_ListEvents fileOps = FileStore_ListEvents" "so_UpsertTimer fileOps = FileStore_UpsertTimer"
  "so_GetTimer fileOps = FileStore_GetTimer" "so_ListTimers fileOps = FileStore_ListTimers"
  "so_ListDueTimers fileOps = FileStore_ListDueTimers" "so_ListRuns fileOps = FileStore_ListRuns"
  "so_PutKV fileOps = FileStore_PutKV" "so_GetKV fileOps = FileStore_GetKV"
  by (simp_all add: fileOps_def)

lemma mem_of_simps [simp]:
  "ms_runs (mem_of s) = ms_runs s" "ms_nodes (mem_of s) = ms_nodes s" "ms_events (mem_of s) = ms_events s"
  "ms_nextSeq (mem_of s) = ms_nextSeq s" "ms_timers (mem_of s) = ms_timers s" "ms_kv (mem_of s) = ms_kv s"
  by (simp_all add: memStore.truncate_def)

lemma mem_of_upd [simp]:
  "mem_of (s\<lparr>fs_wal := w\<rparr>) = mem_of s"
  "mem_of (s\<lparr>ms_runs := a\<rparr>) = (mem_of s)\<lparr>ms_runs := a\<rparr>" "mem_of (s\<lparr>ms_nodes := b\<rparr>) = (mem_of s)\<lparr>ms_nodes := b\<rparr>"
  "mem_of (s\<lparr>ms_events := c\<rparr>) = (mem_of s)\<lparr>ms_events := c\<rparr>" "mem_of (s\<lparr>ms_nextSeq := d\<rparr>) = (mem_of s)\<lparr>ms_nextSeq := d\<rparr>"
  "mem_of (s\<lparr>ms_timers := e\<rparr>) = (mem_of s)\<lparr>ms_timers := e\<rparr>" "mem_of (s\<lparr>ms_kv := f\<rparr>) = (mem_of s)\<lparr>ms_kv := f\<rparr>"
  by (simp_all add: memStore.truncate_def)

text \<open>Reading does not touch the log: the durable store reads what its maps hold.\<close>

lemma file_reads:
  "FileStore_GetRun s = GetRun (mem_of s)" "FileStore_GetNodeExecution s = GetNodeExecution (mem_of s)"
  "FileStore_ListEvents s = ListEvents (mem_of s)" "FileStore_GetTimer s = GetTimer (mem_of s)"
  "FileStore_GetKV s = GetKV (mem_of s)" "FileStore_ListNodeExecutions s = ListNodeExecutions (mem_of s)"
  "FileStore_ListTimers s = ListTimers (mem_of s)" "FileStore_ListDueTimers s = ListDueTimers (mem_of s)"
  "FileStore_ListRuns s = ListRuns (mem_of s)"
  by (simp_all add: fun_eq_iff FileStore_GetRun_def GetRun_def FileStore_GetNodeExecution_def GetNodeExecution_def
      FileStore_ListEvents_def ListEvents_def FileStore_GetTimer_def GetTimer_def FileStore_GetKV_def GetKV_def
      FileStore_ListNodeExecutions_def ListNodeExecutions_def FileStore_ListTimers_def ListTimers_def
      FileStore_ListDueTimers_def ListDueTimers_def FileStore_ListRuns_def ListRuns_def Let_def)

lemma view_file: "view fileOps s = view memOps (mem_of s)"
  by (simp add: view_def file_reads)

lemma persist_mem: "persist now opr s = (err, s') \<Longrightarrow> mem_of s' = mem_of s"
  by (auto simp: persist_def split: prod.splits)

text \<open>A method either does what \<open>MemoryStore\<close> does, or fails and leaves the maps alone.\<close>

lemma create_shape:
  "FileStore_CreateRun now r s = (err, s') \<Longrightarrow>
     CreateRun r (mem_of s) = (err, mem_of s') \<or> err \<noteq> None \<and> mem_of s' = mem_of s"
  by (auto simp: FileStore_CreateRun_def CreateRun_def persist_def split: option.splits prod.splits if_splits)

lemma update_shape:
  "FileStore_UpdateRun now r s = (err, s') \<Longrightarrow>
     UpdateRun r (mem_of s) = (err, mem_of s') \<or> err \<noteq> None \<and> mem_of s' = mem_of s"
  by (auto simp: FileStore_UpdateRun_def UpdateRun_def persist_def split: option.splits prod.splits if_splits)

lemma node_shape:
  "FileStore_UpsertNodeExecution now n s = (err, s') \<Longrightarrow>
     UpsertNodeExecution n (mem_of s) = (err, mem_of s') \<or> err \<noteq> None \<and> mem_of s' = mem_of s"
  by (auto simp: FileStore_UpsertNodeExecution_def UpsertNodeExecution_def persist_def split: option.splits prod.splits if_splits)

lemma timer_shape:
  "FileStore_UpsertTimer now t s = (err, s') \<Longrightarrow>
     UpsertTimer t (mem_of s) = (err, mem_of s') \<or> err \<noteq> None \<and> mem_of s' = mem_of s"
  by (auto simp: FileStore_UpsertTimer_def UpsertTimer_def persist_def split: option.splits prod.splits if_splits)

lemma kv_shape:
  "FileStore_PutKV now k x s = (err, s') \<Longrightarrow>
     PutKV k x (mem_of s) = (None, mem_of s') \<or> err \<noteq> None \<and> mem_of s' = mem_of s"
  by (auto simp: FileStore_PutKV_def PutKV_def Let_def persist_def split: prod.splits if_splits)

lemma event_shape:
  assumes "FileStore_AppendEvent now e s = (res, s')"
  obtains (same) "AppendEvent now e (mem_of s) = (res, mem_of s')"
  | (failed) q er where "res = Inl er" "mem_of s' = (mem_of s)\<lparr>ms_nextSeq := mput (ev_RunID e) q (ms_nextSeq s)\<rparr>"
      "mdef 0 (ms_nextSeq s) (ev_RunID e) \<le> q"
proof -
  have putput: "mput k v (mput k v' m) = mput k v m" for k v v' and m :: "(string, int) gomap"
    by (simp add: mput_def)
  from assms have "AppendEvent now e (mem_of s) = (res, mem_of s') \<or>
    (\<exists>q er. res = Inl er \<and> mem_of s' = (mem_of s)\<lparr>ms_nextSeq := mput (ev_RunID e) q (ms_nextSeq s)\<rparr> \<and>
      mdef 0 (ms_nextSeq s) (ev_RunID e) \<le> q)"
    by (auto simp: FileStore_AppendEvent_def AppendEvent_def Let_def persist_def putput
        split: option.splits prod.splits if_splits)
  then show ?thesis using same failed by blast
qed

lemma seq_raised:
  assumes "mem_inv m" "mdef 0 (ms_nextSeq m) r \<le> q"
  shows "mem_inv (m\<lparr>ms_nextSeq := mput r q (ms_nextSeq m)\<rparr>)"
    and "view memOps (m\<lparr>ms_nextSeq := mput r q (ms_nextSeq m)\<rparr>) = view memOps m"
proof -
  have "list_all (\<lambda>e. ev_Seq e < q) (mdef [] (ms_events m) r)"
    using assms by (fastforce simp: mem_inv_def list_all_iff mem_reads)
  with assms(1) show "mem_inv (m\<lparr>ms_nextSeq := mput r q (ms_nextSeq m)\<rparr>)" by (auto simp: mem_inv_def mem_reads)
  show "view memOps (m\<lparr>ms_nextSeq := mput r q (ms_nextSeq m)\<rparr>) = view memOps m"
    by (simp add: view_def mem_reads fun_eq_iff)
qed

definition disk_ok :: "fileStore \<Rightarrow> bool" where
  "disk_ok s \<longleftrightarrow> list_all ((=) EioOk) (ew_io (fs_wal s))"

definition logRecord :: "gotime \<Rightarrow> walOp \<Rightarrow> fileStore \<Rightarrow> fileStore" where
  "logRecord now opr s = s\<lparr>fs_wal := \<lparr>ew_file = ew_file (fs_wal s) @ [WLine \<lparr>wr_Op = opr, wr_At = now\<rparr>], ew_io = tl (ew_io (fs_wal s))\<rparr>\<rparr>"

lemma persist_works: "disk_ok s \<Longrightarrow> op_json_ok opr \<Longrightarrow> persist now opr s = (None, logRecord now opr s)"
  by (auto simp: disk_ok_def persist_def engineWAL_Append_def next_eio_def logRecord_def split: list.splits)

lemma disk_ok_logRecord: "disk_ok s \<Longrightarrow> disk_ok (logRecord now opr s)"
  by (cases "ew_io (fs_wal s)") (auto simp: disk_ok_def logRecord_def)

lemma disk_ok_upd [simp]:
  "disk_ok (s\<lparr>ms_runs := a\<rparr>) = disk_ok s" "disk_ok (s\<lparr>ms_nodes := b\<rparr>) = disk_ok s" "disk_ok (s\<lparr>ms_events := c\<rparr>) = disk_ok s"
  "disk_ok (s\<lparr>ms_nextSeq := d\<rparr>) = disk_ok s" "disk_ok (s\<lparr>ms_timers := e\<rparr>) = disk_ok s" "disk_ok (s\<lparr>ms_kv := f\<rparr>) = disk_ok s"
  by (simp_all add: disk_ok_def)

lemma logRecord_mem [simp]:
  "mem_of (logRecord now opr s) = mem_of s" "ms_runs (logRecord now opr s) = ms_runs s"
  "ms_nodes (logRecord now opr s) = ms_nodes s" "ms_events (logRecord now opr s) = ms_events s"
  "ms_nextSeq (logRecord now opr s) = ms_nextSeq s" "ms_timers (logRecord now opr s) = ms_timers s"
  "ms_kv (logRecord now opr s) = ms_kv s"
  by (simp_all add: logRecord_def)

interpretation file_store: reliable_store fileOps "\<lambda>s. mem_inv (mem_of s)" disk_ok
proof (unfold_locales, goal_cases)
  case 1
  then show ?case by (simp add: view_file mem_view_ok)
next
  case (2 s now r err s')
  then show ?case using create_shape [of now r s err s'] CreateRun_mem [of "mem_of s" r err "mem_of s'"]
    by (auto simp: view_file file_reads)
next
  case (3 s now r err s')
  then show ?case using update_shape [of now r s err s'] UpdateRun_mem [of "mem_of s" r err "mem_of s'"]
    by (auto simp: view_file file_reads)
next
  case (4 s now n err s')
  then show ?case using node_shape [of now n s err s'] UpsertNode_mem [of "mem_of s" n err "mem_of s'"]
    by (auto simp: view_file file_reads)
next
  case (5 s now e e' s')
  then have "AppendEvent now e (mem_of s) = (Inr e', mem_of s')" by (auto elim: event_shape)
  with 5 show ?case using AppendEvent_ok_mem [of "mem_of s" now e e' "mem_of s'"] by (simp add: view_file file_reads)
next
  case (6 s now e er s')
  from 6(2) show ?case unfolding fileOps_simps
  proof (cases rule: event_shape)
    case same
    with 6 show ?thesis using AppendEvent_err_mem by (simp add: view_file)
  next
    case (failed q er)
    with 6 show ?thesis using seq_raised [of "mem_of s" "ev_RunID e" q] by (simp add: view_file)
  qed
next
  case (7 s now t err s')
  then show ?case using timer_shape [of now t s err s'] UpsertTimer_mem [of "mem_of s" t err "mem_of s'"]
    by (auto simp: view_file file_reads)
next
  case (8 s now k x s')
  then show ?case using kv_shape [of now k x s None s'] PutKV_mem [of "mem_of s" k x None "mem_of s'"]
    by (auto simp: view_file)
next
  case (9 s now k x er s')
  then have "mem_inv (mem_of s') \<and> (view memOps (mem_of s') = view memOps (mem_of s) \<or>
      TrimSpace k \<noteq> '''' \<and> view memOps (mem_of s') = put_kv k x (view memOps (mem_of s)))"
    using kv_shape [of now k x s "Some er" s'] PutKV_mem [of "mem_of s" k x None "mem_of s'"] by auto
  then show ?case by (simp add: view_file)
next
  case (10 s rid)
  then show ?case using ListNodeExecutions_mem by (simp add: file_reads)
next
  case (11 s rid)
  then show ?case using timers_mem [of "mem_of s" "\<lambda>t. tm_RunID t = rid"] by (simp add: file_reads ListTimers_def)
next
  case (12 s now)
  then show ?case using timers_mem [of "mem_of s" "timerDue now"] by (simp add: file_reads ListDueTimers_def)
next
  case (13 s)
  then show ?case using ListRuns_mem by (simp add: file_reads)
next
  case (14 s k)
  then show ?case by (simp add: file_reads GetKV_eq)
qed (auto simp: FileStore_PutKV_def FileStore_CreateRun_def FileStore_UpdateRun_def FileStore_UpsertNodeExecution_def FileStore_AppendEvent_def
    FileStore_UpsertTimer_def FileStore_GetRun_def Let_def persist_works disk_ok_logRecord timerFieldsOk_def
    RunEvent_Validate_def stampEvent_def IsZero_def split: option.splits)


section \<open>Same behaviour as MemoryStore\<close>

text \<open>The calls on which the two stores agree: the raw messages are valid JSON and a timer has its
  key fields, which only \<open>FileStore\<close> requires.\<close>

fun call_ok :: "storeCall \<Rightarrow> bool" where
  "call_ok (CallCreateRun now r) = run_json_ok r"
| "call_ok (CallUpdateRun now r) = run_json_ok r"
| "call_ok (CallUpsertNode now n) = node_json_ok n"
| "call_ok (CallAppendEvent now e) = json_ok (ev_Payload e)"
| "call_ok (CallUpsertTimer now t) = timerFieldsOk t"
| "call_ok (CallPutKV now k x) = True"

lemma file_step_mem:
  assumes "disk_ok s" "call_ok c"
  shows "mem_of (store_step fileOps s c) = store_step memOps (mem_of s) c \<and>
    store_answer fileOps s c = store_answer memOps (mem_of s) c \<and> disk_ok (store_step fileOps s c)"
  using assms
  by (cases c) (auto simp: FileStore_CreateRun_def CreateRun_def FileStore_UpdateRun_def UpdateRun_def
      FileStore_UpsertNodeExecution_def UpsertNodeExecution_def FileStore_AppendEvent_def AppendEvent_def
      FileStore_UpsertTimer_def UpsertTimer_def FileStore_PutKV_def PutKV_def Let_def
      persist_works disk_ok_logRecord split: option.splits)

lemma file_run_mem:
  assumes "disk_ok s" "list_all call_ok cs"
  shows "mem_of (run_ops (store_step fileOps) s cs) = run_ops (store_step memOps) (mem_of s) cs \<and>
    store_answers fileOps s cs = store_answers memOps (mem_of s) cs"
  using assms by (induction cs arbitrary: s) (auto simp: file_step_mem)

section \<open>Reopening\<close>

lemma applyRecords_snoc:
  "applyRecords (rs @ [r]) s = (case applyRecords rs s of Inl err \<Rightarrow> Inl err | Inr s1 \<Rightarrow> applyRecord (wr_Op r) s1)"
  by (induction rs arbitrary: s) (auto split: sum.splits)

lemma scanRecords_lines:
  "list_all (\<lambda>r. jl r < 10 * 1024 * 1024) rs \<Longrightarrow> scanRecords jl (map WLine rs) = Inr rs"
  by (induction rs) (auto simp: not_le)

lemma scanRecords_torn: "WTorn \<in> set ps \<Longrightarrow> \<exists>err. scanRecords jl ps = Inl err"
  by (induction jl ps rule: scanRecords.induct) (auto split: sum.splits if_splits, force)

text \<open>\<open>same_maps\<close>: equal but for the event counters and, unless \<open>kvs\<close>, the metadata.\<close>

definition same_maps :: "bool \<Rightarrow> fileStore \<Rightarrow> fileStore \<Rightarrow> bool" where
  "same_maps kvs s t \<longleftrightarrow> ms_runs s = ms_runs t \<and> ms_nodes s = ms_nodes t \<and> ms_events s = ms_events t \<and>
     ms_timers s = ms_timers t \<and> (kvs \<longrightarrow> ms_kv s = ms_kv t)"

definition seqs_low :: "fileStore \<Rightarrow> bool" where
  "seqs_low s \<longleftrightarrow> (\<forall>r. list_all (\<lambda>e. ev_Seq e < mdef 0 (ms_nextSeq s) r) (mdef [] (ms_events s) r))"

text \<open>The log holds what the maps do.\<close>

definition logged :: "bool \<Rightarrow> fileStore \<Rightarrow> bool" where
  "logged kvs s \<longleftrightarrow> (\<exists>rs. ew_file (fs_wal s) = map WLine rs \<and>
     (\<forall>w. \<exists>s0. applyRecords rs (emptyFileStore w) = Inr s0 \<and> same_maps kvs s0 s \<and> seqs_low s0))"

definition clean_disk :: "bool \<Rightarrow> fileStore \<Rightarrow> bool" where
  "clean_disk kvs s \<longleftrightarrow> (if kvs then disk_ok s else list_all (\<lambda>x. x \<in> {EioOk, EioNone}) (ew_io (fs_wal s)))"

lemma seedSeq_ge: "mdef 0 m r \<le> mdef 0 (seedSeq i m) r"
  by (rule seedSeq_low)

lemma seqs_low_seed:
  assumes "seqs_low s" "\<And>r. mdef 0 (ms_nextSeq s) r \<le> mdef 0 m r"
  shows "seqs_low (s\<lparr>ms_nextSeq := m\<rparr>)"
  unfolding seqs_low_def list_all_iff
proof (intro allI ballI)
  fix r e assume "e \<in> set (mdef [] (ms_events (s\<lparr>ms_nextSeq := m\<rparr>)) r)"
  then have "ev_Seq e < mdef 0 (ms_nextSeq s) r" using assms(1) by (auto simp: seqs_low_def list_all_iff)
  also have "\<dots> \<le> mdef 0 m r" by (rule assms(2))
  finally show "ev_Seq e < mdef 0 (ms_nextSeq (s\<lparr>ms_nextSeq := m\<rparr>)) r" by simp
qed

lemma applyRecord_seqs:
  assumes "applyRecord opr s = Inr s'" "seqs_low s"
  shows "seqs_low s'"
proof (cases opr)
  case (opAppendEvent e)
  have up: "mdef 0 m r \<le> mdef 0 (bumpSeq i n m) r" "RunEvent_Validate e = None \<Longrightarrow> ev_Seq e < mdef 0 (bumpSeq i (ev_Seq e + 1) m) i"
    if "0 \<le> n" for m i r n
    using that by (auto simp: bumpSeq_def mdef_def RunEvent_Validate_def split: option.splits if_splits)
  from assms opAppendEvent have v: "RunEvent_Validate e = None"
    and s': "s' = s\<lparr>ms_events := mput (ev_RunID e) (mdef [] (ms_events s) (ev_RunID e) @ [e]) (ms_events s),
                    ms_nextSeq := bumpSeq (ev_RunID e) (ev_Seq e + 1) (ms_nextSeq s)\<rparr>"
    by (auto split: option.splits)
  then have "0 \<le> ev_Seq e + 1" by (auto simp: RunEvent_Validate_def split: if_splits)
  note up = up [OF this]
  have "ev_Seq x < mdef 0 (ms_nextSeq s') r" if "x \<in> set (mdef [] (ms_events s') r)" for x r
  proof (cases "x = e \<and> r = ev_RunID e")
    case True
    then show ?thesis using up(2) v by (simp add: s')
  next
    case False
    then have "x \<in> set (mdef [] (ms_events s) r)" using that by (auto simp: s' split: if_splits)
    then have "ev_Seq x < mdef 0 (ms_nextSeq s) r" using assms(2) by (auto simp: seqs_low_def list_all_iff)
    also have "\<dots> \<le> mdef 0 (ms_nextSeq s') r" using up(1) by (simp add: s')
    finally show ?thesis .
  qed
  then show ?thesis by (auto simp: seqs_low_def list_all_iff)
qed (use assms seqs_low_seed [OF assms(2) seedSeq_ge] in \<open>auto simp: seqs_low_def Let_def split: option.splits if_splits\<close>)

text \<open>A record written for a change of the maps keeps them in step.\<close>

lemma logged_record:
  assumes "logged kvs s"
    and "\<And>s0. same_maps kvs s0 s \<Longrightarrow> \<exists>s1. applyRecord opr s0 = Inr s1 \<and> same_maps kvs s1 s'"
    and "fs_wal s' = fs_wal (logRecord now opr s)"
  shows "logged kvs s'"
proof -
  from assms(1) obtain rs where f: "ew_file (fs_wal s) = map WLine rs"
    and a: "\<And>w. \<exists>s0. applyRecords rs (emptyFileStore w) = Inr s0 \<and> same_maps kvs s0 s \<and> seqs_low s0"
    by (auto simp: logged_def)
  have "ew_file (fs_wal s') = map WLine (rs @ [\<lparr>wr_Op = opr, wr_At = now\<rparr>])"
    by (simp add: assms(3) logRecord_def f)
  moreover have "\<exists>s0. applyRecords (rs @ [\<lparr>wr_Op = opr, wr_At = now\<rparr>]) (emptyFileStore w) = Inr s0 \<and>
      same_maps kvs s0 s' \<and> seqs_low s0" for w
    using a [of w] assms(2) applyRecord_seqs by (fastforce simp: applyRecords_snoc)
  ultimately show ?thesis unfolding logged_def by blast
qed

lemma logged_same:
  "logged kvs s \<Longrightarrow> ew_file (fs_wal s') = ew_file (fs_wal s) \<Longrightarrow> same_maps kvs s s' \<Longrightarrow> logged kvs s'"
  by (auto simp: logged_def same_maps_def)

lemma persist_clean:
  assumes "clean_disk kvs s" "persist now opr s = (err, s')"
  shows "clean_disk kvs s'"
    and "if err = None then s' = logRecord now opr s
      else ew_file (fs_wal s') = ew_file (fs_wal s) \<and> (\<exists>w. s' = s\<lparr>fs_wal := w\<rparr>) \<and> \<not> (kvs \<and> op_json_ok opr)"
proof -
  obtain w where w: "engineWAL_Append now opr (fs_wal s) = (err, w)" "s' = s\<lparr>fs_wal := w\<rparr>"
    using assms(2) by (auto simp: persist_def split: prod.splits)
  from w assms(1) show "clean_disk kvs s'"
    by (cases "ew_io (fs_wal s)") (auto simp: clean_disk_def disk_ok_def engineWAL_Append_def next_eio_def split: if_splits)
  from w assms(1) show "if err = None then s' = logRecord now opr s
      else ew_file (fs_wal s') = ew_file (fs_wal s) \<and> (\<exists>w. s' = s\<lparr>fs_wal := w\<rparr>) \<and> \<not> (kvs \<and> op_json_ok opr)"
    by (cases "ew_io (fs_wal s)")
      (auto simp: clean_disk_def disk_ok_def engineWAL_Append_def next_eio_def logRecord_def split: if_splits)
qed


lemma clean_disk_wal: "fs_wal s = fs_wal t \<Longrightarrow> clean_disk kvs s = clean_disk kvs t"
  by (simp add: clean_disk_def disk_ok_def)

lemma persist_logged:
  assumes "logged kvs s" "clean_disk kvs s" "persist now opr s = (err, s1)"
    and "\<And>s0. same_maps kvs s0 s \<Longrightarrow> \<exists>s2. applyRecord opr s0 = Inr s2 \<and> same_maps kvs s2 (f (logRecord now opr s))"
    and "\<And>x. fs_wal (f x) = fs_wal x"
  shows "if err = None then logged kvs (f s1) \<and> clean_disk kvs (f s1) else logged kvs s1 \<and> clean_disk kvs s1"
proof -
  note pc = persist_clean [OF assms(2,3)]
  have cf: "clean_disk kvs (f s1)" using pc(1) clean_disk_wal [OF assms(5)] by simp
  show ?thesis
  proof (cases err)
    case None
    with pc have "s1 = logRecord now opr s" by simp
    with None cf logged_record [OF assms(1,4)] assms(5) show ?thesis by simp
  next
    case (Some e)
    with pc have "ew_file (fs_wal s1) = ew_file (fs_wal s)" "\<exists>w. s1 = s\<lparr>fs_wal := w\<rparr>" by auto
    with Some pc logged_same [OF assms(1)] show ?thesis by (auto simp: same_maps_def)
  qed
qed

lemma step_logged:
  assumes "logged kvs s" "clean_disk kvs s"
  shows "logged kvs (store_step fileOps s c) \<and> clean_disk kvs (store_step fileOps s c)"
proof (cases c)
  case (CallCreateRun now r)
  obtain err s1 where p: "persist now (opCreateRun r) s = (err, s1)" by fastforce
  show ?thesis
    using persist_logged [OF assms p, of "\<lambda>x. x\<lparr>ms_runs := mput (run_RunID r) r (ms_runs x), ms_nextSeq := seedSeq (run_RunID r) (ms_nextSeq x)\<rparr>"]
      assms p CallCreateRun
    by (cases "Run_Validate r"; cases err) (auto simp: FileStore_CreateRun_def same_maps_def)
next
  case (CallUpdateRun now r)
  obtain err s1 where p: "persist now (opUpdateRun r) s = (err, s1)" by fastforce
  show ?thesis
    using persist_logged [OF assms p, of "\<lambda>x. x\<lparr>ms_runs := mput (run_RunID r) r (ms_runs x)\<rparr>"] assms p CallUpdateRun
    by (cases "Run_Validate r"; cases err) (auto simp: FileStore_UpdateRun_def same_maps_def)
next
  case (CallUpsertNode now n)
  obtain err s1 where p: "persist now (opUpsertNode n) s = (err, s1)" by fastforce
  show ?thesis
    using persist_logged [OF assms p, of "\<lambda>x. x\<lparr>ms_nodes := mput (nodeKeyOf n) n (ms_nodes x)\<rparr>"] assms p CallUpsertNode
    by (cases "NodeExecution_Validate n"; cases err) (auto simp: FileStore_UpsertNodeExecution_def same_maps_def)
next
  case (CallUpsertTimer now t)
  obtain err s1 where p: "persist now (opUpsertTimer t) s = (err, s1)" by fastforce
  show ?thesis
    using persist_logged [OF assms p, of "\<lambda>x. x\<lparr>ms_timers := mput (timerKeyOf t) t (ms_timers x)\<rparr>"] assms p CallUpsertTimer
    by (cases err) (auto simp: FileStore_UpsertTimer_def same_maps_def)
next
  case (CallPutKV now k x)
  let ?s = "s\<lparr>ms_kv := mput (TrimSpace k) x (ms_kv s)\<rparr>"
  obtain err s1 where p: "persist now (opPutKV (TrimSpace k) x) ?s = (err, s1)" by fastforce
  have cd: "clean_disk kvs ?s" using assms(2) clean_disk_wal [of ?s s] by simp
  have "logged kvs s1 \<and> clean_disk kvs s1" if "TrimSpace k \<noteq> ''''"
  proof (cases err)
    case None
    with persist_clean [OF cd p] have s1: "s1 = logRecord now (opPutKV (TrimSpace k) x) ?s" by simp
    have "logged kvs s1"
      by (rule logged_record [OF assms(1), of "opPutKV (TrimSpace k) x" _ now])
        (use that in \<open>auto simp: s1 logRecord_def same_maps_def Let_def\<close>)
    with persist_clean(1) [OF cd p] show ?thesis by simp
  next
    case (Some e)
    with persist_clean(2) [OF cd p] have "ew_file (fs_wal s1) = ew_file (fs_wal s)" "\<exists>w. s1 = ?s\<lparr>fs_wal := w\<rparr>" "\<not> kvs" by auto
    then have "logged kvs s1" using logged_same [OF assms(1)] by (auto simp: same_maps_def)
    with persist_clean(1) [OF cd p] show ?thesis by simp
  qed
  with CallPutKV p assms show ?thesis by (auto simp: FileStore_PutKV_def Let_def)
next
  case (CallAppendEvent now e)
  let ?q = "max 1 (mdef 0 (ms_nextSeq s) (ev_RunID e))"
  let ?e = "(stampEvent now e)\<lparr>ev_Seq := ?q\<rparr>"
  let ?s = "s\<lparr>ms_nextSeq := mput (ev_RunID e) (?q + 1) (ms_nextSeq s)\<rparr>"
  obtain err s1 where p: "persist now (opAppendEvent ?e) ?s = (err, s1)" by fastforce
  have l: "logged kvs (x\<lparr>ms_nextSeq := m\<rparr>) = logged kvs x" "clean_disk kvs (x\<lparr>ms_nextSeq := m\<rparr>) = clean_disk kvs x" for x m
    by (simp_all add: logged_def same_maps_def clean_disk_def disk_ok_def)
  let ?f = "\<lambda>x. x\<lparr>ms_events := mput (ev_RunID e) (mdef [] (ms_events x) (ev_RunID e) @ [?e]) (ms_events x)\<rparr>"
  have "if err = None then logged kvs (?f s1) \<and> clean_disk kvs (?f s1) else logged kvs s1 \<and> clean_disk kvs s1"
    if "RunEvent_Validate ?e = None"
    by (rule persist_logged [OF _ _ p]) (use assms that in \<open>auto simp: l same_maps_def\<close>)

  moreover have "snd (FileStore_AppendEvent now e s) =
      (if mget (ms_runs s) (ev_RunID e) = None then s
       else if RunEvent_Validate ?e \<noteq> None then ?s
       else if err = None then ?f s1 else s1\<lparr>ms_nextSeq := mput (ev_RunID e) ?q (ms_nextSeq s1)\<rparr>)"
    using p by (cases err) (auto simp: FileStore_AppendEvent_def Let_def max_def split: option.splits)
  ultimately show ?thesis using CallAppendEvent assms by (auto simp: l split: if_splits)
qed


lemma run_logged:
  "logged kvs s \<Longrightarrow> clean_disk kvs s \<Longrightarrow> logged kvs (run_ops (store_step fileOps) s cs)"
  by (induction cs arbitrary: s) (auto simp: step_logged)

lemma seedAll_ge: "mdef 0 m r \<le> mdef 0 (fold seedSeq is m) r"
proof (induction "is" arbitrary: m)
  case (Cons i "is")
  then show ?case using seedSeq_low [of m r i] order_trans by fastforce
qed simp

lemma open_logged:
  assumes "logged kvs s" "mem_inv (mem_of s)"
    and "list_all (\<lambda>p. case p of WLine r \<Rightarrow> jl r < 10 * 1024 * 1024 | _ \<Rightarrow> True) (ew_file (fs_wal s))"
  shows "\<exists>s1. OpenFileStore jl (ew_file (fs_wal s)) script = Inr s1 \<and> mem_inv (mem_of s1) \<and> same_maps kvs s1 s"
proof -
  from assms(1) obtain rs where f: "ew_file (fs_wal s) = map WLine rs"
    and a: "\<And>w. \<exists>s0. applyRecords rs (emptyFileStore w) = Inr s0 \<and> same_maps kvs s0 s \<and> seqs_low s0"
    by (auto simp: logged_def)
  obtain s0 where s0: "applyRecords rs (emptyFileStore (openEngineWAL (map WLine rs) script)) = Inr s0"
    "same_maps kvs s0 s" "seqs_low s0" using a by blast
  have "list_all (\<lambda>r. jl r < 10 * 1024 * 1024) rs"
    using assms(3) by (simp add: f list_all_iff)
  then have "OpenFileStore jl (ew_file (fs_wal s)) script = Inr (seedAll s0)"
    using s0(1) by (simp add: OpenFileStore_def replayLocked_def engineWAL_Replay_def f scanRecords_lines
        emptyFileStore_def openEngineWAL_def memStore.extend_def)
  moreover have sm: "same_maps kvs (seedAll s0) s" using s0(2) by (simp add: seedAll_def same_maps_def)
  moreover have low: "seqs_low (seedAll s0)"
    unfolding seedAll_def by (rule seqs_low_seed [OF s0(3)]) (rule seedAll_ge)
  have "mem_inv (mem_of (seedAll s0))"
    using assms(2) sm low by (simp add: mem_inv_def same_maps_def seqs_low_def ListEvents_def)
  ultimately show ?thesis by blast
qed

lemma open_empty: "OpenFileStore jl [] script = Inr (emptyFileStore (openEngineWAL [] script))"
  by (simp add: OpenFileStore_def replayLocked_def engineWAL_Replay_def openEngineWAL_def emptyFileStore_def
      memStore.extend_def seedAll_def NewMemoryStore_def mkeys_def)

lemma mem_inv_New: "mem_inv NewMemoryStore"
  by (simp add: mem_inv_def NewMemoryStore_def ListEvents_def)

lemma mem_of_empty: "mem_of (emptyFileStore w) = NewMemoryStore"
  by (simp add: emptyFileStore_def memStore.extend_def memStore.truncate_def NewMemoryStore_def)

lemma fs_wal_empty [simp]: "fs_wal (emptyFileStore w) = w"
  by (simp add: emptyFileStore_def memStore.extend_def)

lemma logged_empty: "logged kvs (emptyFileStore (openEngineWAL [] script))"
  by (auto simp: logged_def openEngineWAL_def same_maps_def seqs_low_def emptyFileStore_def memStore.extend_def NewMemoryStore_def)

section \<open>Properties\<close>

text \<open>C15. While the disk works, the durable store is \<open>MemoryStore\<close>: any sequence of calls whose raw
  messages are valid JSON and whose timers have their key fields gets the same answers from
  \<open>FileStore\<close> as from \<open>MemoryStore\<close>, and afterwards the two hold the same maps.\<close>

theorem file_store_refines_memory:
  assumes "list_all ((=) EioOk) script" "list_all call_ok cs" "OpenFileStore jl [] script = Inr s"
  shows "store_answers fileOps s cs = store_answers memOps NewMemoryStore cs \<and>
    mem_of (run_ops (store_step fileOps) s cs) = run_ops (store_step memOps) NewMemoryStore cs"
proof -
  from assms(3) have s: "s = emptyFileStore (openEngineWAL [] script)" by (simp add: open_empty)
  then have "disk_ok s" using assms(1) by (simp add: disk_ok_def openEngineWAL_def)
  from file_run_mem [OF this assms(2)] show ?thesis by (simp add: s mem_of_empty)
qed



lemma persist_grows: "persist now opr s = (err, s') \<Longrightarrow> \<exists>ps. ew_file (fs_wal s') = ew_file (fs_wal s) @ ps"
  by (auto simp: persist_def engineWAL_Append_def Let_def split: prod.splits if_splits walIO.splits)

lemma persist_kv_grows: "\<exists>ps. ew_file (fs_wal (snd (persist now opr (s\<lparr>ms_kv := m\<rparr>)))) = ew_file (fs_wal s) @ ps"
  using persist_grows [OF prod.collapse [symmetric], of now opr "s\<lparr>ms_kv := m\<rparr>"] by simp

lemma step_grows: "\<exists>ps. ew_file (fs_wal (store_step fileOps s c)) = ew_file (fs_wal s) @ ps"
  using persist_kv_grows
  by (cases c) (auto simp: FileStore_CreateRun_def FileStore_UpdateRun_def FileStore_UpsertNodeExecution_def
      FileStore_UpsertTimer_def FileStore_PutKV_def FileStore_AppendEvent_def Let_def dest!: persist_grows
      split: option.split prod.split)

lemma run_grows: "\<exists>ps. ew_file (fs_wal (run_ops (store_step fileOps) s cs)) = ew_file (fs_wal s) @ ps"
proof (induction cs arbitrary: s)
  case (Cons c cs)
  then show ?case using step_grows [of s c] by (metis append_assoc run_ops.simps(2))
qed simp

text \<open>A torn write is fatal: once a write has left a fragment in the file, the store goes on
  answering, but whatever is called afterwards the file can never be opened again.\<close>

theorem torn_write_is_fatal:
  assumes "WTorn \<in> set (ew_file (fs_wal s))"
  shows "\<exists>err. OpenFileStore jl (ew_file (fs_wal (run_ops (store_step fileOps) s cs))) script = Inl err"
proof -
  obtain ps where "ew_file (fs_wal (run_ops (store_step fileOps) s cs)) = ew_file (fs_wal s) @ ps"
    using run_grows by blast
  with assms have "WTorn \<in> set (ew_file (fs_wal (run_ops (store_step fileOps) s cs)))" by simp
  from scanRecords_torn [OF this, of jl] show ?thesis
    by (auto simp: OpenFileStore_def replayLocked_def engineWAL_Replay_def openEngineWAL_def)
qed

text \<open>History is append-only in both stores: along any calls, on any disk, the events of a run are
  only extended, their numbers increase strictly, and no run, node attempt or timer is
  forgotten.\<close>

theorem store_history:
  assumes "mem_inv m" "mem_inv (mem_of f)"
  shows "extends (view memOps m) (view memOps (run_ops (store_step memOps) m cs)) \<and>
    extends (view fileOps f) (view fileOps (run_ops (store_step fileOps) f cs)) \<and>
    events_ok r (ListEvents (run_ops (store_step memOps) m cs) r) \<and>
    events_ok r (FileStore_ListEvents (run_ops (store_step fileOps) f cs) r)"
proof -
  have m: "mem_inv (run_ops (store_step memOps) m cs) \<and> extends (view memOps m) (view memOps (run_ops (store_step memOps) m cs))"
    using mem.calls.rel_run [of cs m] assms(1) by (simp add: list_all_iff)
  have f: "mem_inv (mem_of (run_ops (store_step fileOps) f cs)) \<and> extends (view fileOps f) (view fileOps (run_ops (store_step fileOps) f cs))"
    using file_store.calls.rel_run [of cs f] assms(2) by (simp add: list_all_iff)
  from m f show ?thesis by (simp add: mem_inv_def file_reads)
qed



section \<open>Examples\<close>

definition example_run :: run where
  "example_run = \<lparr>run_RunID = ''r1'', run_WorkflowID = ''wf'', run_Status = RunStatusQueued, run_StartedAt = None,
     run_EndedAt = None, run_Spec = JNil, run_InitialInput = JObj [(''x'', JInt 1)], run_TenantID = '''',
     run_TerminalReason = '''', run_TerminalMeta = JNil, run_RunBudget = zeroBudget, run_BudgetUsage = zeroUsage\<rparr>"

definition example_event :: "string \<Rightarrow> runEvent" where
  "example_event ty = \<lparr>ev_RunID = ''r1'', ev_Seq = 0, ev_Type = ty, ev_At = 0, ev_WorkflowID = ''wf'', ev_NodeID = '''',
     ev_Attempt = 0, ev_Payload = JNil\<rparr>"

definition example_node :: nodeExecution where
  "example_node = \<lparr>ne_RunID = ''r1'', ne_WorkflowID = ''wf'', ne_NodeID = ''n1'', ne_Attempt = 1, ne_Status = NodeStatusRunning,
     ne_StartedAt = Some 7, ne_EndedAt = None, ne_Input = JNil, ne_Output = JNil, ne_Error = ''''\<rparr>"

definition example_timer :: timer where
  "example_timer = \<lparr>tm_RunID = ''r1'', tm_WorkflowID = ''wf'', tm_NodeID = ''n1'', tm_Attempt = 1, tm_Status = TimerScheduled,
     tm_FireAt = 20, tm_CreatedAt = 8, tm_FiredAt = None, tm_Reason = ''backoff''\<rparr>"

definition example_calls :: "storeCall list" where
  "example_calls = [CallCreateRun 5 example_run, CallAppendEvent 6 (example_event EventRunCreated), CallUpsertNode 7 example_node,
     CallUpsertTimer 8 example_timer, CallPutKV 9 '' v '' (Plain ''7''), CallAppendEvent 10 (example_event EventNodeStarted)]"

definition example_file :: "walIO list \<Rightarrow> fileStore" where
  "example_file script = emptyFileStore (openEngineWAL [] script)"

lemma example_calls_ok: "list_all call_ok example_calls"
  by code_simp

lemma example_opens: "OpenFileStore (\<lambda>_. 100) [] script = Inr (example_file script)"
  by (simp add: open_empty example_file_def)

theorem file_store_refines_memory_witness:
  "mem_of (run_ops (store_step fileOps) (example_file []) example_calls) = run_ops (store_step memOps) NewMemoryStore example_calls \<and>
   map ev_Seq (ListEvents (run_ops (store_step memOps) NewMemoryStore example_calls) ''r1'') = [1, 2]"
proof
  show "mem_of (run_ops (store_step fileOps) (example_file []) example_calls) = run_ops (store_step memOps) NewMemoryStore example_calls"
    using file_store_refines_memory [OF _ example_calls_ok example_opens, of "[]"] by simp
qed code_simp


theorem torn_write_is_fatal_witness:
  "\<exists>err. OpenFileStore (\<lambda>_. 100) (ew_file (fs_wal (run_ops (store_step fileOps)
     (run_ops (store_step fileOps) (example_file [EioOk, EioTorn]) example_calls) example_calls))) [] = Inl err"
  by (rule torn_write_is_fatal) code_simp

theorem store_history_witness:
  "events_ok ''r1'' (ListEvents (run_ops (store_step memOps) NewMemoryStore example_calls) ''r1'')"
  using store_history [OF mem_inv_New, of "example_file []" example_calls "''r1''"] mem_inv_New
  by (simp add: example_file_def mem_of_empty)

end
