(* ===== verification/HumanSafety.thy ===== *)
theory HumanSafety
  imports Human FileStore
begin

text \<open>
  What human approval guarantees, for every store that keeps the contract: a decision once stored
  is final whatever the engine does afterwards, and a human node succeeds only on a stored
  approval.

  \<open>engineCall\<close> are the calls by which the engine acts on the store: any call of the store that
  does not write the documents of this component, the step of a human node, the staging of a
  risk approval, a new task, an audit record.  \<open>humanCall\<close> adds a reviewer's decision, with the
  calls the resumed run makes.
\<close>

section \<open>Sequences of calls\<close>

datatype 'f engineCall =
    EStore storeCall
  | ENode callCtx string string "'f nodeDef" int json gotime
  | EStage callCtx gotime string "'f workflowGraph" json json workflowRiskReport
  | ENewTask gotime humanTask
  | EAudit callCtx gotime auditRecord

datatype 'f humanCall =
    HEngine "'f engineCall"
  | HResolve callCtx gotime string string json string bool "'f engineCall list"

fun engine_step :: "'s svcEnv \<Rightarrow> 's \<Rightarrow> 'f engineCall \<Rightarrow> 's" where
  "engine_step env s (EStore c) = store_step (sx_ops env) s c"
| "engine_step env s (ENode ctx runID wfl node attempt input now) = snd (maybeHandleHumanNode env ctx runID wfl node attempt input now s)"
| "engine_step env s (EStage ctx now runID g spec input report) = snd (stageRiskApproval env ctx now runID g spec input report s)"
| "engine_step env s (ENewTask now t) = snd (saveHumanTask env now (t\<lparr>ht_ID := ''''\<rparr>) s)"
| "engine_step env s (EAudit ctx now r) = appendAuditRecord env ctx now r s"

fun human_step :: "'s svcEnv \<Rightarrow> 's \<Rightarrow> 'f humanCall \<Rightarrow> 's" where
  "human_step env s (HEngine c) = engine_step env s c"
| "human_step env s (HResolve ctx now taskID decision edited comment resume cs) =
     snd (ResolveHumanTask
       \<lparr>hx_svc = env, hx_resume = (\<lambda>_ _ s. run_ops (engine_step env) s cs), hx_capture = (\<lambda>_ _ s. run_ops (engine_step env) s cs)\<rparr>
       ctx now taskID decision edited comment resume s)"

fun engine_ok :: "'f engineCall \<Rightarrow> bool" where
  "engine_ok (EStore (CallPutKV now k x)) \<longleftrightarrow> \<not> isHumanKey (TrimSpace k)"
| "engine_ok _ \<longleftrightarrow> True"

fun human_call_ok :: "'f humanCall \<Rightarrow> bool" where
  "human_call_ok (HEngine c) \<longleftrightarrow> engine_ok c"
| "human_call_ok (HResolve ctx now taskID decision edited comment resume cs) \<longleftrightarrow> list_all engine_ok cs"

section \<open>Finding a task\<close>

lemma collectUpTo_sound: "x \<in> set (collectUpTo f limit ks out) \<Longrightarrow> x \<in> set out \<or> (\<exists>i \<in> set ks. f i = Some x)"
proof (induction ks arbitrary: out)
  case (Cons k ks)
  show ?case
  proof (cases "f k")
    case (Some y)
    with Cons.prems Cons.IH [of "out @ [y]"] show ?thesis by (auto split: if_splits)
  qed (use Cons in auto)
qed simp

lemma findTaskLoop_sound:
  "findTaskLoop nodeID attempt source fb ts = Some t \<Longrightarrow>
     fb = Some t \<or> t \<in> set ts \<and> ht_NodeID t = TrimSpace nodeID \<and> (source = '''' \<or> ht_Source t = source)"
  by (induction ts arbitrary: fb) (fastforce split: option.splits if_splits)+

lemma findHumanTask_sound:
  assumes "findHumanTask ops runID nodeID attempt source s = Inr (Some t)"
  obtains i where "GetHumanTask ops i s = Some (Inr t)" "TrimSpace i = i" "i \<noteq> ''''"
    "TrimSpace runID = '''' \<or> ht_RunID t = TrimSpace runID" "ht_NodeID t = TrimSpace nodeID"
    "TrimSpace source = '''' \<or> ht_Source t = TrimSpace source"
proof -
  obtain ids where ids: "indexIDs ops humanTaskIndexKey s = Inr ids"
    and l: "findTaskLoop nodeID attempt (TrimSpace source) None
      (sort_key (\<lambda>t. - ht_CreatedAt t) (collectUpTo (taskWanted ops (TrimSpace runID) '''' s) 500 (rev ids) [])) = Some t"
    using assms by (auto simp: findHumanTask_def ListHumanTasks_def split: sum.splits)
  note f = findTaskLoop_sound [OF l, simplified]
  then obtain i where i: "i \<in> set ids" "taskWanted ops (TrimSpace runID) '''' s i = Some t"
    using collectUpTo_sound [of t "taskWanted ops (TrimSpace runID) '''' s" 500 "rev ids" "[]"] by auto
  then show thesis using that [of i] f indexIDs_Some [OF ids i(1)]
    by (auto simp: taskWanted_def split: option.splits sum.splits if_splits)
qed

section \<open>The service on a store\<close>

text \<open>The random part of identifiers does not repeat.\<close>

definition fresh_tasks :: "'s svcEnv \<Rightarrow> ('s \<Rightarrow> bool) \<Rightarrow> bool" where
  "fresh_tasks env sinv \<longleftrightarrow> (\<forall>s now. sinv s \<longrightarrow> so_GetKV (sx_ops env) s (humanTaskKey (mintID env ''human-'' now s)) = None)"

locale human_service = store_contract ops sinv for ops :: "'s storeOps" and sinv :: "'s \<Rightarrow> bool" +
  fixes env :: "'s svcEnv"
  assumes env_ops: "sx_ops env = ops"
    and fresh: "fresh_tasks env sinv"
begin

definition moves :: "'s \<Rightarrow> 's \<Rightarrow> bool" where
  "moves s s' \<longleftrightarrow> (sinv s \<longrightarrow> sinv s' \<and> task_moves ops s s')"

lemma moves_refl [simp]: "moves s s"
  by (simp add: moves_def)

lemma moves_trans [trans]: "moves s t \<Longrightarrow> moves t u \<Longrightarrow> moves s u"
  using task_moves_trans by (auto simp: moves_def)

lemma kv_same_moves: "so_GetKV ops s' = so_GetKV ops s \<Longrightarrow> task_moves ops s s'"
  by (rule task_moves_same) simp

lemma moves_call:
  "moves s (snd (so_CreateRun ops now r s))" "moves s (snd (so_UpdateRun ops now r s))"
  "moves s (snd (so_UpsertNodeExecution ops now n s))" "moves s (snd (so_UpsertTimer ops now t s))"
  "moves s (snd (so_AppendEvent ops now e s))" "moves s (appendAuditRecord env ctx now a s)"
proof -
  show "moves s (appendAuditRecord env ctx now a s)" unfolding moves_def
  proof
    assume "sinv s"
    note m = append_audit [OF this env_ops, of ctx now a]
    show "sinv (appendAuditRecord env ctx now a s) \<and> task_moves ops s (appendAuditRecord env ctx now a s)"
      using m(1) task_moves_kv [OF m(2) human_not_audit(1)] by simp
  qed
qed (use calls_kv in \<open>auto simp: moves_def kv_same_moves\<close>)

lemmas moves_after [simp, intro] = moves_trans [OF _ moves_call(1)] moves_trans [OF _ moves_call(2)] moves_trans [OF _ moves_call(3)]
  moves_trans [OF _ moves_call(4)] moves_trans [OF _ moves_call(5)] moves_trans [OF _ moves_call(6)]

lemma moves_access: "moves s x \<Longrightarrow> moves s (snd (ensureRunTenantAccess env ctx now r act x))"
  using access_store [of env ctx now r act x] by auto

lemma moves_fold: "(\<And>x s. moves s (f x s)) \<Longrightarrow> moves s (fold f xs s)"
  by (induction xs arbitrary: s) (auto intro: moves_trans)

lemma moves_cancelTimers: "moves s (cancelHumanTimers ops now runID nodeID attempt s)"
  unfolding cancelHumanTimers_def
  by (rule moves_fold) (auto simp: cancelOneTimer_def Let_def intro: moves_trans)

lemma save_sinv: "sinv s \<Longrightarrow> sinv (snd (saveHumanTask env now t s))"
  using save_task(1) [OF _ env_ops] by (metis prod.collapse)

lemma moves_new: "TrimSpace (ht_ID t) = '''' \<Longrightarrow> moves s (snd (saveHumanTask env now t s))"
  using save_task_moves [OF _ env_ops prod.collapse [symmetric], of s now t] save_sinv fresh mint_human(1) [of env now s]
  by (auto simp: moves_def fresh_tasks_def taskFilled_ID env_ops GetHumanTask_iff)

text \<open>Storing a new version of an open task.\<close>

lemma moves_update:
  assumes "GetHumanTask ops i s = Some (Inr t)" "ht_Status t = HumanTaskPending" "ht_ID t' = ht_ID t"
  shows "moves s (snd (saveHumanTask env now t' s))"
proof (cases "TrimSpace (ht_ID t') = ''''")
  case False
  have "TrimSpace (ht_ID (taskFilled env now t' s)) = TrimSpace i \<and> TrimSpace i \<noteq> ''index''" if "human_inv ops s"
    using assms that False by (simp add: human_inv_def taskFilled_ID)
  then have "human_inv ops s \<Longrightarrow> TrimSpace (ht_ID (taskFilled env now t' s)) \<noteq> ''index'' \<and>
      (\<forall>x. GetHumanTask ops (ht_ID (taskFilled env now t' s)) s = Some (Inr x) \<longrightarrow> ht_Status x = HumanTaskPending)"
    using assms(1,2) human_keys(5) [of i "ht_ID (taskFilled env now t' s)"] by (auto simp: GetHumanTask_iff simp del: human_keys(5))
  from save_task_moves [OF _ env_ops prod.collapse [symmetric] this] save_sinv show ?thesis by (auto simp: moves_def)
qed (rule moves_new)

lemma moves_park: "parkRun ops now runID wfl spec input tenantID s = (err, s') \<Longrightarrow> moves s s'"
  using moves_call [of s] moves_after [of s s]
  by (auto simp: parkRun_def Let_def dest!: arg_cong [of _ _ snd] split: option.splits if_splits prod.splits) 

lemma moves_stage: "moves s (snd (stageRiskApproval env ctx now runID g spec input report s))"
proof -
  define t where "t = noHumanTask\<lparr>ht_RunID := runID, ht_WorkflowID := TrimSpace (wg_ID g), ht_TenantID := rr_TenantID report,
    ht_Mode := HumanStepModeApproval, ht_Source := HumanTaskSourceRisk, ht_Status := HumanTaskPending,
    ht_Prompt := rr_Reason report, ht_RequestedInput := input, ht_RiskReport := Some report\<rparr>"
  obtain e1 s1 where p: "parkRun ops now runID (TrimSpace (wg_ID g)) spec input (rr_TenantID report) s = (e1, s1)" by fastforce
  obtain e2 s2 where sv: "saveHumanTask env now t s1 = (e2, s2)" by fastforce
  have "TrimSpace (ht_ID t) = ''''" by (simp add: t_def noHumanTask_def)
  then have "moves s1 s2" using moves_new [of t s1 now] sv by simp
  then have "moves s s2" using moves_park [OF p] moves_trans by blast
  then show ?thesis unfolding stageRiskApproval_def Let_def env_ops p t_def [symmetric]
    using moves_park [OF p] sv by (auto split: sum.split option.split)
qed

lemma moves_request: "moves s (snd (requestHuman env ctx runID wfl node h attempt input now s))"
proof -
  define t where "t = nodeTask ctx runID wfl node h attempt input now"
  obtain e1 s1 where sv: "saveHumanTask env now t s = (e1, s1)" by fastforce
  have "TrimSpace (ht_ID t) = ''''" by (simp add: t_def nodeTask_def noHumanTask_def)
  then have m: "moves s s1" using moves_new [of t s now] sv by simp
  have n: "moves s s2" if "so_UpsertNodeExecution ops now x s1 = (e, s2)" for x e s2
    using moves_trans [OF m moves_call(3) [of s1 now x]] that by simp
  show ?thesis unfolding requestHuman_def Let_def env_ops t_def [symmetric] sv
    using m by (auto split: option.split prod.split dest: n)
qed

lemma moves_node: "moves s (snd (maybeHandleHumanNode env ctx runID wfl node attempt input now s))"
proof (cases "nd_Human node")
  case (Some h)
  show ?thesis
  proof (cases "findHumanTask ops runID (nd_NodeID node) attempt HumanTaskSourceNode s")
    case (Inr found)
    have "moves s (snd (saveHumanTask env now (timedOut now t) s))" if f: "found = Some t" and "taskOverdue ops runID (nd_NodeID node) attempt now t s" for t
    proof -
      obtain i where "GetHumanTask ops i s = Some (Inr t)"
        by (rule findHumanTask_sound [OF Inr [unfolded f]])
      with that(2) show ?thesis by (intro moves_update [of i s t]) (simp_all add: taskOverdue_def timedOut_def)
    qed
    then have "moves s s1" if "found = Some t" "taskOverdue ops runID (nd_NodeID node) attempt now t s" "saveHumanTask env now (timedOut now t) s = (e, s1)" for t e s1
      using that by (metis snd_conv)
    then show ?thesis using Some Inr
      by (auto simp: maybeHandleHumanNode_def Let_def env_ops moves_request split: option.split prod.split)
  qed (simp add: maybeHandleHumanNode_def Let_def env_ops Some)
qed (simp add: maybeHandleHumanNode_def Let_def)

lemma moves_engine: "engine_ok c \<Longrightarrow> moves s (engine_step env s c)"
proof (cases c)
  case (EStore d)
  assume ok: "engine_ok c"
  show ?thesis
  proof (cases d)
    case (CallPutKV now k x)
    have "moves s (snd (so_PutKV ops now k x s))" unfolding moves_def
    proof
      assume "sinv s"
      have v: "sinv (snd (so_PutKV ops now k x s)) \<and> (view ops (snd (so_PutKV ops now k x s)) = view ops s \<or>
          view ops (snd (so_PutKV ops now k x s)) = put_kv k x (view ops s))"
        using kv_ok [OF \<open>sinv s\<close>, of now k x] kv_err [OF \<open>sinv s\<close>, of now k x]
        by (cases "so_PutKV ops now k x s"; cases "fst (so_PutKV ops now k x s)") auto
      then show "sinv (snd (so_PutKV ops now k x s)) \<and> task_moves ops s (snd (so_PutKV ops now k x s))"
        using kv_moves_put [of ops "snd (so_PutKV ops now k x s)" s k x "\<lambda>k. \<not> isHumanKey k"] ok EStore CallPutKV
          task_moves_kv [of ops "\<lambda>k. \<not> isHumanKey k" s] by auto
    qed
    with EStore CallPutKV show ?thesis by (simp add: env_ops)
  qed (simp_all add: EStore env_ops moves_call)
qed (simp_all add: env_ops moves_node moves_stage moves_new moves_call)

lemma moves_engines: "list_all engine_ok cs \<Longrightarrow> moves s x \<Longrightarrow> moves s (run_ops (engine_step env) x cs)"
proof (induction cs arbitrary: x)
  case (Cons c cs)
  then have "moves s (engine_step env x c)" using moves_trans [OF _ moves_engine [of c]] by simp
  with Cons show ?case by simp
qed simp

lemma moves_decision:
  assumes "list_all engine_ok cs" "moves s x"
  shows "moves s (afterDecision
    \<lparr>hx_svc = env, hx_resume = (\<lambda>_ _ s. run_ops (engine_step env) s cs), hx_capture = (\<lambda>_ _ s. run_ops (engine_step env) s cs)\<rparr>
    ctx now t resume x)"
proof -
  have c: "moves s (cancelHumanTimers ops now runID nodeID attempt x)" for runID nodeID attempt
    using assms(2) moves_cancelTimers moves_trans by blast
  show ?thesis using assms c by (auto simp: afterDecision_def Let_def env_ops intro: moves_engines split: option.split)
qed

lemma access_keeps:
  assumes "sinv s"
  shows "GetHumanTask ops i (snd (ensureRunTenantAccess env ctx now r act s)) = GetHumanTask ops i s"
proof -
  have "so_GetKV ops (appendAuditRecord env ctx now a s) (humanTaskKey i) = so_GetKV ops s (humanTaskKey i)" for a
    using kv_moves_reads(5) [OF append_audit(2) [OF assms env_ops]] human_not_audit(1) by simp
  then show ?thesis using access_store [of env ctx now r act s] by (auto simp: GetHumanTask_def getJSONKV_def)
qed

lemma moves_resolve:
  assumes "list_all engine_ok cs"
  shows "moves s (human_step env s (HResolve ctx now taskID decision edited comment resume cs))"
proof (cases "sinv s")
  case sinv: True
  define henv where "henv = \<lparr>hx_svc = env, hx_resume = (\<lambda>_ _ s. run_ops (engine_step env) s cs), hx_capture = (\<lambda>_ _ s. run_ops (engine_step env) s cs)\<rparr>"
  have svc: "hx_svc henv = env" by (simp add: henv_def)
  have "moves s (snd (ResolveHumanTask henv ctx now taskID decision edited comment resume s))"
  proof (cases "\<exists>t0. GetHumanTask ops taskID s = Some (Inr t0) \<and> ht_Status t0 = HumanTaskPending")
    case True
    then obtain t0 where t0: "GetHumanTask ops taskID s = Some (Inr t0)" "ht_Status t0 = HumanTaskPending" by blast
    define acc where "acc = (case so_GetRun ops s (ht_RunID t0) of None \<Rightarrow> (None, s) | Some r \<Rightarrow> ensureRunTenantAccess env ctx now r ''human.resolve'' s)"
    have s1: "moves s (snd acc)" "GetHumanTask ops taskID (snd acc) = Some (Inr t0)"
      using moves_access [OF moves_refl] access_keeps [OF sinv] t0 by (simp_all add: acc_def split: option.split)
    have fin: "moves s s2 \<and> moves s (afterDecision henv ctx now t resume s2)"
      if "decided now decision edited comment t0 = Some t" "saveHumanTask env now t (snd acc) = (e2, s2)" for t e2 s2
    proof -
      have "ht_ID t = ht_ID t0" using that(1) by (auto simp: decided_def Let_def split: if_splits)
      then have "moves (snd acc) s2" using moves_update [OF s1(2) t0(2), of t now] that(2) by simp
      then have "moves s s2" using s1(1) moves_trans by blast
      with moves_decision [OF assms] show ?thesis by (simp add: henv_def)
    qed
    have "ResolveHumanTask henv ctx now taskID decision edited comment resume s =
      (case acc of
         (Some err, s1) \<Rightarrow> (Inl err, s1)
       | (None, s1) \<Rightarrow>
           (case decided now decision edited comment t0 of
              None \<Rightarrow> (Inl (EText (''invalid human decision '' @ quoted decision)), s1)
            | Some t \<Rightarrow>
                (case saveHumanTask env now t s1 of
                   (Some err, s2) \<Rightarrow> (Inl err, s2)
                 | (None, s2) \<Rightarrow> (Inr t, afterDecision henv ctx now t resume s2))))"
      unfolding ResolveHumanTask_def Let_def svc env_ops acc_def using t0 by simp
    then show ?thesis using s1(1) fin by (cases acc) (auto split: option.split prod.split)
  next
    case False
    then show ?thesis by (auto simp: ResolveHumanTask_def Let_def svc env_ops split: option.split sum.split)
  qed
  then show ?thesis by (simp add: henv_def)
qed (simp add: moves_def)

lemma moves_human: "human_call_ok c \<Longrightarrow> moves s (human_step env s c)"
  by (cases c) (simp_all add: moves_engine moves_resolve del: human_step.simps(2))

end

sublocale human_service \<subseteq> decisions: transition_system "human_step env" human_call_ok moves
  by unfold_locales (auto intro: moves_trans moves_human)

context human_service
begin

lemma all_calls: "list_all human_call_ok cs \<Longrightarrow> moves s (run_ops (human_step env) s cs)"
  by (rule decisions.rel_run)

end

section \<open>Identifiers that do not repeat\<close>

text \<open>An identifier longer than all keys of the store together is new; with it the service runs on
  both stores.\<close>

definition longID :: "(string, kvText) gomap \<Rightarrow> string" where
  "longID m = replicate (Suc (sum_list (map (length \<circ> fst) m))) (CHR ''a'')"

definition memSvc :: "memStore svcEnv" where
  "memSvc = \<lparr>sx_ops = memOps, sx_newID = (\<lambda>s. longID (ms_kv s))\<rparr>"

definition fileSvc :: "fileStore svcEnv" where
  "fileSvc = \<lparr>sx_ops = fileOps, sx_newID = (\<lambda>s. longID (ms_kv s))\<rparr>"

lemma long_key_fresh: "sum_list (map (length \<circ> fst) m) < length k \<Longrightarrow> mget m k = None"
proof (rule ccontr)
  assume "sum_list (map (length \<circ> fst) m) < length k" "mget m k \<noteq> None"
  then obtain v where "(k, v) \<in> set m" by (auto dest: map_of_SomeD)
  then have "length k \<in> set (map (length \<circ> fst) m)" by force
  from member_le_sum_list [OF this] \<open>_ < length k\<close> show False by simp
qed

lemma long_mint:
  assumes "sx_newID env s = longID m"
  shows "mget m (TrimSpace (humanTaskKey (mintID env ''human-'' now s))) = None"
proof (rule long_key_fresh)
  have "TrimSpace (mintID env ''human-'' now s) = mintID env ''human-'' now s"
    by (rule TrimSpace_fixed) (simp add: mintID_def assms longID_def is_space_def)
  then show "sum_list (map (length \<circ> fst) m) < length (TrimSpace (humanTaskKey (mintID env ''human-'' now s)))"
    unfolding human_keys(1) by (simp add: humanTaskKey_def) (simp add: mintID_def assms longID_def)
qed

lemma long_fresh: "fresh_tasks memSvc mem_inv" "fresh_tasks fileSvc (\<lambda>s. mem_inv (mem_of s))"
  using long_mint [of memSvc] long_mint [of fileSvc]
  by (auto simp: fresh_tasks_def memSvc_def fileSvc_def GetKV_eq file_reads)

interpretation human_mem: human_service memOps mem_inv memSvc
  by unfold_locales (simp_all add: long_fresh memSvc_def [THEN arg_cong, of sx_ops])

interpretation human_file: human_service fileOps "\<lambda>s. mem_inv (mem_of s)" fileSvc
  by unfold_locales (simp_all add: long_fresh fileSvc_def [THEN arg_cong, of sx_ops])

section \<open>Properties\<close>

lemma human_service_of:
  "store_contract ops sinv \<Longrightarrow> sx_ops env = ops \<Longrightarrow> fresh_tasks env sinv \<Longrightarrow> human_service ops sinv env"
  by (simp add: human_service_def human_service_axioms_def)

text \<open>C25. A decision is final: on a store that keeps its contract, once a task is approved, rejected,
  timed out or canceled, no sequence of calls changes that document; not further decisions of
  reviewers, with or without resuming the run, not the steps of human nodes and their timeouts,
  new tasks, risk approvals, audit records, nor any other traffic on the store.  The random part
  of new identifiers is assumed not to hit an existing task.\<close>

theorem human_decision_final:
  assumes "store_contract ops sinv" "sx_ops env = ops" "fresh_tasks env sinv"
    and "sinv s" "human_inv ops s" "list_all human_call_ok cs" "settled ops s i t"
  shows "settled ops (run_ops (human_step env) s cs) i t \<and> human_inv ops (run_ops (human_step env) s cs)"
proof -
  from assms(1-3) have hs: "human_service ops sinv env" by (rule human_service_of)
  have "human_service.moves ops sinv s (run_ops (human_step env) s cs)"
    by (rule human_service.all_calls [OF hs assms(6)])
  with assms(4,5,7) show ?thesis by (simp add: human_service.moves_def [OF hs] task_moves_def)
qed

definition approvedTask :: humanTask where
  "approvedTask = noHumanTask\<lparr>ht_ID := ''t'', ht_RunID := ''r'', ht_NodeID := ''n'', ht_Attempt := 1, ht_Source := HumanTaskSourceNode, ht_Status := HumanTaskApproved\<rparr>"

definition approvedStore :: memStore where
  "approvedStore = NewMemoryStore\<lparr>ms_kv := [(''human/tasks/t'', DocHuman approvedTask), (humanTaskIndexKey, DocIDs [''t''])]\<rparr>"

definition anybody :: callCtx where
  "anybody = \<lparr>cx_Tenant = '''', cx_Principal = None\<rparr>"

lemma approvedStore_inv: "mem_inv approvedStore"
  by (simp add: mem_inv_def approvedStore_def NewMemoryStore_def ListEvents_def)

lemma approvedStore_get: "GetHumanTask memOps i approvedStore = Some (Inr t) \<longleftrightarrow> TrimSpace i = ''t'' \<and> t = approvedTask"
  using human_keys(6) [of i]
  by (auto simp: GetHumanTask_iff GetKV_eq approvedStore_def simp flip: human_keys(6)) (auto simp: humanTaskKey_def)

lemma approvedStore_human: "human_inv memOps approvedStore" "settled memOps approvedStore ''t'' approvedTask"
  by (simp_all add: human_inv_def settled_def approvedStore_get TrimSpace_fixed is_space_def) (auto simp: approvedTask_def noHumanTask_def TrimSpace_fixed is_space_def)

theorem human_decision_final_witness:
  "settled memOps (run_ops (human_step memSvc) approvedStore [HResolve anybody 5 ''t'' HumanDecisionReject JNil '''' False []]) ''t'' approvedTask"
  using human_decision_final [OF mem.store_contract_axioms _ long_fresh(1) approvedStore_inv approvedStore_human(1) _ approvedStore_human(2),
      of "[HResolve anybody 5 ''t'' HumanDecisionReject JNil '''' False []]"]
  by (simp add: memSvc_def)

text \<open>C26. A node that needs a person succeeds only on an approval: when the step of a human node ends
  without an error, the store holds an approved task of that run and that node, and the node's
  output is the reviewer's edited input or, if there is none, the input itself.\<close>

theorem human_node_needs_approval:
  assumes "store_contract ops sinv" "sx_ops env = ops" "sinv s" "human_inv ops s" "TrimSpace runID \<noteq> ''''"
    and "maybeHandleHumanNode env ctx runID wfl node attempt input now s = (HumanDone res, s')" "nr_err res = None"
  shows "\<exists>i t. GetHumanTask ops i s' = Some (Inr t) \<and> ht_Status t = HumanTaskApproved \<and> ht_RunID t = TrimSpace runID \<and>
    ht_NodeID t = TrimSpace (nd_NodeID node) \<and> ht_Source t = HumanTaskSourceNode \<and>
    nr_output res = (if ht_EditedInput t \<noteq> JNil then ht_EditedInput t else input)"
proof -
  have req: "fst (requestHuman env ctx runID wfl node h attempt input now s) \<noteq> HumanDone r" for h r
    by (auto simp: requestHuman_def Let_def split: prod.split option.split)
  have "(\<exists>h. requestHuman env ctx runID wfl node h attempt input now s = (HumanDone res, s')) \<or>
      (\<exists>t. findHumanTask ops runID (nd_NodeID node) attempt HumanTaskSourceNode s = Inr (Some t))"
    using assms(6) by (auto simp: maybeHandleHumanNode_def Let_def assms(2) split: option.splits sum.splits)
  then obtain t where f: "findHumanTask ops runID (nd_NodeID node) attempt HumanTaskSourceNode s = Inr (Some t)"
    using req by (metis fst_conv)
  have [simp]: "TrimSpace HumanTaskSourceNode = HumanTaskSourceNode" "TrimSpace HumanTaskApproved = HumanTaskApproved"
    by (simp_all add: TrimSpace_fixed is_space_def)
  obtain i where i: "GetHumanTask ops i s = Some (Inr t)" "TrimSpace i = i" "i \<noteq> ''''" "ht_RunID t = TrimSpace runID"
    "ht_NodeID t = TrimSpace (nd_NodeID node)" "ht_Source t = HumanTaskSourceNode"
    by (rule findHumanTask_sound [OF f]) (use assms(5) in auto)
  have out: "ht_Status x = HumanTaskApproved \<and> nr_output res = (if ht_EditedInput x \<noteq> JNil then ht_EditedInput x else input)"
    if "taskOutcome (nd_NodeID node) attempt input now x = HumanDone res" for x
    using that assms(7) by (auto simp: taskOutcome_def Let_def split: if_splits)
  show ?thesis
  proof (cases "taskOverdue ops runID (nd_NodeID node) attempt now t s")
    case True
    then obtain s1 ev where sv: "saveHumanTask env now (timedOut now t) s = (None, s1)" and s': "s' = snd (so_AppendEvent ops now ev s1)"
      and o: "taskOutcome (nd_NodeID node) attempt input now (timedOut now t) = HumanDone res"
      using assms(6) f by (auto simp: maybeHandleHumanNode_def Let_def assms(2) split: option.splits prod.splits)
    let ?x = "taskFilled env now (timedOut now t) s"
    have ID: "TrimSpace (ht_ID (timedOut now t)) = i" "i \<noteq> ''index''" using assms(4) i(1,2) by (auto simp: human_inv_def timedOut_def)
    then have "so_GetKV ops s1 (humanTaskKey (ht_ID ?x)) = Some (DocHuman ?x)"
      using store_contract.save_task(4) [OF assms(1,3,2) sv] i(2,3) by (simp add: taskFilled_ID)
    then have "GetHumanTask ops (ht_ID ?x) s' = Some (Inr ?x)"
      using store_contract.calls_kv(5) [OF assms(1) store_contract.save_task(1) [OF assms(1,3,2) sv], of now ev] s' by (simp add: GetHumanTask_iff)
    with out [OF o] i show ?thesis by (intro exI [of _ "ht_ID ?x"] exI [of _ ?x]) (simp add: timedOut_def)
  next
    case False
    then have "taskOutcome (nd_NodeID node) attempt input now t = HumanDone res" "s' = s"
      using assms(6) f by (auto simp: maybeHandleHumanNode_def Let_def assms(2) split: option.splits)
    with out i show ?thesis by blast
  qed
qed

definition gateNode :: "nat nodeDef" where
  "gateNode = (plainNode ''n'')\<lparr>nd_Human := Some \<lparr>hs_Mode = HumanStepModeApproval, hs_Prompt = '''', hs_TimeoutMS = 0, hs_OnTimeout = HumanTimeoutReject\<rparr>\<rparr>"

definition gateResult :: nodeResult where
  "gateResult = \<lparr>nr_nodeID = ''n'', nr_attempt = 2, nr_started = 7, nr_ended = 7, nr_input = JInt 3, nr_output = JInt 3, nr_err = None\<rparr>"

lemma gate_passes: "maybeHandleHumanNode memSvc anybody ''r'' ''w'' gateNode 2 (JInt 3) 7 approvedStore = (HumanDone gateResult, approvedStore)"
  by code_simp

theorem human_node_needs_approval_witness:
  "\<exists>i t. GetHumanTask memOps i approvedStore = Some (Inr t) \<and> ht_Status t = HumanTaskApproved \<and> ht_RunID t = TrimSpace ''r'' \<and>
     ht_NodeID t = TrimSpace (nd_NodeID gateNode) \<and> ht_Source t = HumanTaskSourceNode \<and>
     nr_output gateResult = (if ht_EditedInput t \<noteq> JNil then ht_EditedInput t else JInt 3)"
proof (rule human_node_needs_approval [OF mem.store_contract_axioms _ approvedStore_inv approvedStore_human(1) _ gate_passes])
  show "sx_ops memSvc = memOps" by (simp add: memSvc_def)
  show "TrimSpace ''r'' \<noteq> ''''" by code_simp
  show "nr_err gateResult = None" by (simp add: gateResult_def)
qed

end
