(* ===== verification/DagSafety.thy ===== *)
theory DagSafety
  imports DagRunner
begin

text \<open>
  What the DAG scheduler guarantees.  \<open>core_inv\<close> is the invariant of its bookkeeping, on the set
  of finished nodes, the open in-degrees, the ready queue and the nodes in flight; \<open>sched_inv\<close>
  is that invariant on a \<open>dagState\<close>, with the parallelism limit and the cap slots.  Every step
  of the main loop keeps it, whatever the handlers answer, whatever other goroutines do to the
  store and the caps, and whenever the context ends.
\<close>

section \<open>The bookkeeping\<close>

definition open_deg :: "nodeEdge list \<Rightarrow> string set \<Rightarrow> string \<Rightarrow> int" where
  "open_deg es D c = int (length (filter (\<lambda>e. ed_To e = c \<and> ed_From e \<notin> D) es))"

definition core_inv :: "'f workflowGraph \<Rightarrow> string set \<Rightarrow> (string, int) gomap \<Rightarrow> string list \<Rightarrow> string list \<Rightarrow> bool \<Rightarrow> bool" where
  "core_inv g D deg ready fl stop \<longleftrightarrow>
     distinct (ready @ fl) \<and> set (ready @ fl) \<subseteq> set (node_ids g) - D \<and>
     (\<forall>c \<in> set (node_ids g) - D. mdef 0 deg c = open_deg (wg_Edges g) D c) \<and>
     (\<forall>c \<in> set (ready @ fl). mdef 0 deg c = 0) \<and>
     (\<not> stop \<longrightarrow> (\<forall>c \<in> set (node_ids g) - D. mdef 0 deg c = 0 \<longrightarrow> c \<in> set (ready @ fl)))"

lemma core_inv_perm: "core_inv g D deg r f stop \<Longrightarrow> mset (r' @ f') = mset (r @ f) \<Longrightarrow> core_inv g D deg r' f' stop"
  unfolding core_inv_def by (metis mset_eq_imp_distinct_iff mset_eq_setD)

lemma core_inv_stop: "core_inv g D deg r f stop \<Longrightarrow> core_inv g D deg r f True"
  by (auto simp: core_inv_def)

lemma core_inv_drop: "core_inv g D deg (i # r) f stop \<Longrightarrow> core_inv g D deg r f True"
  by (auto simp: core_inv_def)

lemma core_inv_parents:
  assumes "core_inv g D deg r f stop" "c \<in> set (r @ f)" "e \<in> set (wg_Edges g)" "ed_To e = c"
  shows "ed_From e \<in> D"
proof -
  have "open_deg (wg_Edges g) D c = 0" using assms(1,2) unfolding core_inv_def by (metis subsetD)
  with assms(3,4) show ?thesis by (auto simp: open_deg_def filter_empty_conv)
qed

lemma open_deg_split:
  "i \<notin> D \<Longrightarrow> open_deg es D c = open_deg es (insert i D) c + int (length (filter (\<lambda>e. ed_To e = c \<and> ed_From e = i) es))"
  by (induction es) (auto simp: open_deg_def)

lemma relaxReady_filter: "relaxReady dn cs m q = relaxChildren (filter (\<lambda>c. mget dn c = None) cs) m q"
  by (induction cs arbitrary: m q) (auto simp: Let_def)

lemma count_list_filter: "count_list (filter P cs) c = (if P c then count_list cs c else 0)"
  by (induction cs) auto

text \<open>Finishing node \<open>i\<close>: its children lose their edges from it, and those with none left become
  ready.\<close>

lemma core_inv_done:
  assumes inv: "core_inv g (dom (mget dn)) deg r f True" and i: "i \<in> set (node_ids g)" "i \<notin> set (r @ f)" "mget dn' = (mget dn)(i \<mapsto> ne)"
    and new: "i \<notin> dom (mget dn)" and ok: "edge_rel (wg_Edges g) \<subseteq> set (node_ids g) \<times> set (node_ids g)"
    and compl: "\<not> stop \<longrightarrow> (\<forall>c \<in> set (node_ids g) - dom (mget dn) - {i}. mdef 0 deg c = 0 \<longrightarrow> c \<in> set (r @ f))"
    and relax: "relaxReady dn' (mdef [] (childrenMap (wg_Edges g)) i) deg r = (deg', r')"
  shows "core_inv g (dom (mget dn')) deg' r' f stop"
proof -
  let ?es = "wg_Edges g" and ?D = "dom (mget dn)" and ?N = "set (node_ids g)"
  let ?cs = "filter (\<lambda>c. mget dn' c = None) (mdef [] (childrenMap (wg_Edges g)) i)"
  have D': "dom (mget dn') = insert i ?D" using i(3) by auto
  have isN: "mget dn' c = None \<longleftrightarrow> c \<notin> insert i ?D" for c unfolding D' [symmetric] by auto
  have deg: "mdef 0 deg c = open_deg ?es ?D c" if "c \<in> ?N - ?D" for c using inv that unfolding core_inv_def by blast
  have cnt: "int (count_list ?cs c) = int (length (filter (\<lambda>e. ed_To e = c \<and> ed_From e = i) ?es))" if "c \<notin> insert i ?D" for c
    using that by (simp add: count_list_filter isN count_children)
  have split: "open_deg ?es ?D c = open_deg ?es (insert i ?D) c + int (length (filter (\<lambda>e. ed_To e = c \<and> ed_From e = i) ?es))" for c
    by (rule open_deg_split [OF new])
  have csN: "c \<in> ?N - insert i ?D" if "c \<in> set ?cs" for c
    using that ok isN by (auto simp: children_edge)
  have le: "int (count_list ?cs c) \<le> mdef 0 deg c" if "c \<in> set ?cs" for c
    using csN [OF that] deg [of c] split [of c] cnt [of c] by (auto simp: open_deg_def)
  obtain xs where d': "\<And>c. mdef 0 deg' c = mdef 0 deg c - int (count_list ?cs c)"
    and r': "r' = r @ xs" "distinct xs" "set xs = {c \<in> set ?cs. mdef 0 deg c = int (count_list ?cs c)}"
    using relaxChildren_spec [OF relax [unfolded relaxReady_filter] le] by blast
  have degN: "mdef 0 deg' c = open_deg ?es (insert i ?D) c" if "c \<in> ?N - insert i ?D" for c
    using that deg [of c] split [of c] cnt [of c] d' [of c] by auto
  have old0: "mdef 0 deg c = 0" if "c \<in> set (r @ f)" for c using inv that unfolding core_inv_def by blast
  have rf: "c \<in> ?N - insert i ?D" if "c \<in> set (r @ f)" for c
    using inv that i(2) unfolding core_inv_def by blast
  have xpos: "mdef 0 deg c \<noteq> 0" if "c \<in> set xs" for c
    using that r'(3) by (auto simp: count_list_0_iff)
  have "set xs \<inter> set (r @ f) = {}" using xpos old0 by blast
  moreover have "distinct (r @ f)" using inv unfolding core_inv_def by blast
  ultimately have "distinct (r' @ f)" using r'(1,2) by auto
  moreover have "set (r' @ f) \<subseteq> ?N - insert i ?D" using rf r' csN by auto
  moreover have "mdef 0 deg' c = 0" if "c \<in> set (r' @ f)" for c
  proof (cases "c \<in> set xs")
    case True
    then show ?thesis using r'(3) d' [of c] by auto
  next
    case False
    with that have c: "c \<in> set (r @ f)" using r'(1) by auto
    have "0 \<le> open_deg ?es (insert i ?D) c" by (simp add: open_deg_def)
    then show ?thesis using degN [OF rf [OF c]] old0 [OF c] d' [of c] by linarith
  qed
  moreover have "c \<in> set (r' @ f)" if "\<not> stop" "c \<in> ?N - insert i ?D" "mdef 0 deg' c = 0" for c
  proof (cases "mdef 0 deg c = 0")
    case True
    then show ?thesis using compl that r'(1) by auto
  next
    case False
    then have "count_list ?cs c \<noteq> 0" "mdef 0 deg c = int (count_list ?cs c)" using that(3) d' [of c] by auto
    then have "c \<in> set xs" using r'(3) by (auto simp: count_list_0_iff)
    then show ?thesis using r'(1) by simp
  qed
  ultimately show ?thesis unfolding core_inv_def D' using degN by blast
qed


section \<open>The invariant of the scheduler\<close>

definition keys_in :: "(string, string) gomap \<Rightarrow> string set \<Rightarrow> bool" where
  "keys_in ks A \<longleftrightarrow> (\<forall>k v. mget ks k = Some v \<longrightarrow> k \<in> A \<and> v \<noteq> '''')"

abbreviation flying :: "'s dagState \<Rightarrow> string list" where
  "flying st \<equiv> map sn_nodeID (dg_inflight st)"

definition sched_inv :: "('f, 's) dagEnv \<Rightarrow> 's dagState \<Rightarrow> bool" where
  "sched_inv env st \<longleftrightarrow>
     core_inv (dv_graph env) (dom (mget (dg_done st))) (dg_inDegree st) (dg_ready st) (flying st) (dg_stopScheduling st) \<and>
     dg_running st = int (length (dg_inflight st)) \<and> dg_running st \<le> dv_maxPar env \<and>
     keys_in (dg_inflightKey st) (set (flying st)) \<and>
     (dg_budgetExceeded st \<or> dg_externalCanceled st \<longrightarrow> dg_stopScheduling st)"

text \<open>While node \<open>i\<close> is taken from the queue and not yet placed.\<close>

definition popped :: "('f, 's) dagEnv \<Rightarrow> string \<Rightarrow> 's dagState \<Rightarrow> bool" where
  "popped env i st \<longleftrightarrow>
     core_inv (dv_graph env) (dom (mget (dg_done st))) (dg_inDegree st) (i # dg_ready st) (flying st) (dg_stopScheduling st) \<and>
     dg_running st = int (length (dg_inflight st)) \<and> dg_running st < dv_maxPar env \<and>
     keys_in (dg_inflightKey st) (if dv_cache env = None then insert i (set (flying st)) else set (flying st)) \<and>
     (dg_budgetExceeded st \<or> dg_externalCanceled st \<longrightarrow> dg_stopScheduling st)"

definition env_ok :: "('f, 's) dagEnv \<Rightarrow> bool" where
  "env_ok env \<longleftrightarrow> graph_ok (dv_graph env) \<and>
     (\<forall>node a j t s res s'. dv_human env node a j t s = (HumanDone res, s') \<longrightarrow> nr_nodeID res = nd_NodeID node)"

text \<open>Changes of the store, the run record, the caps and the usage leave the bookkeeping alone.\<close>

definition same_book :: "'s dagState \<Rightarrow> 's dagState \<Rightarrow> bool" where
  "same_book st st' \<longleftrightarrow> dg_done st' = dg_done st \<and> dg_inDegree st' = dg_inDegree st \<and> dg_ready st' = dg_ready st \<and>
     dg_inflight st' = dg_inflight st \<and> dg_running st' = dg_running st \<and> dg_inflightKey st' = dg_inflightKey st \<and>
     dg_stopScheduling st' = dg_stopScheduling st \<and> dg_budgetExceeded st' = dg_budgetExceeded st \<and>
     dg_externalCanceled st' = dg_externalCanceled st"

lemma same_book_inv: "same_book st st' \<Longrightarrow> sched_inv env st' = sched_inv env st" "same_book st st' \<Longrightarrow> popped env i st' = popped env i st"
  by (simp_all add: same_book_def sched_inv_def popped_def)

lemma same_book_simps [simp]:
  "same_book st st" "same_book st (emit env now ty wfl node att p st)" "same_book st (saveRun env now st)"
  "same_book st (countAttempt env now st)" "same_book st (st\<lparr>dg_store := s\<rparr>)" "same_book st (st\<lparr>dg_run := r\<rparr>)"
  "same_book st (st\<lparr>dg_maxAttempt := m\<rparr>)" "same_book st (st\<lparr>dg_throttle := th\<rparr>)"
  by (simp_all add: same_book_def emit_def saveRun_def countAttempt_def)

lemma same_book_trans: "same_book a b \<Longrightarrow> same_book b c \<Longrightarrow> same_book a c"
  by (simp add: same_book_def)

lemma sched_inv_stop:
  assumes "sched_inv env st" "dg_stopScheduling st'" "dg_done st' = dg_done st" "dg_inDegree st' = dg_inDegree st"
    "dg_ready st' = dg_ready st" "dg_inflight st' = dg_inflight st" "dg_running st' = dg_running st" "dg_inflightKey st' = dg_inflightKey st"
  shows "sched_inv env st'"
  using assms core_inv_stop by (auto simp: sched_inv_def)

lemma trigger_inv:
  assumes "sched_inv env st"
  shows "sched_inv env (triggerBudgetExceeded env now p st)"
proof (cases "dg_budgetExceeded st")
  case False
  then show ?thesis
    by (intro sched_inv_stop [OF assms]) (simp_all add: triggerBudgetExceeded_def Let_def emit_def saveRun_def)
qed (simp add: triggerBudgetExceeded_def assms)

lemma loopHead_inv:
  assumes "sched_inv env st"
  shows "sched_inv env (loopHead env now st)"
proof -
  have "sched_inv env (st\<lparr>dg_externalCanceled := True, dg_stopScheduling := True, dg_ctxDone := True\<rparr>)" if "sched_inv env st" for st
    by (rule sched_inv_stop [OF that]) simp_all
  with assms trigger_inv [OF assms] show ?thesis by (auto simp: loopHead_def Let_def split: option.split)
qed

lemma noteDone_inv: "sched_inv env st \<Longrightarrow> sched_inv env (noteDone env st)"
  by (rule sched_inv_stop) (simp_all add: noteDone_def)

lemma usage_inv: "sched_inv env st \<Longrightarrow> sched_inv env (handleUsage env now tk dl st)"
proof -
  assume inv: "sched_inv env st"
  have "sched_inv env (saveRun env now (st\<lparr>dg_run := r\<rparr>))" for r
    using inv same_book_inv(1) [of st "saveRun env now (st\<lparr>dg_run := r\<rparr>)" env] by (simp add: same_book_def saveRun_def)
  with inv show ?thesis by (simp add: handleUsage_def Let_def trigger_inv)
qed

section \<open>Placing a node\<close>

lemma capKey_ne: "concurrencyCapFor th t topic = (cap, scope, key) \<Longrightarrow> 0 < cap \<Longrightarrow> key \<noteq> ''''"
  by (auto simp: concurrencyCapFor_def capKey_def Let_def split: if_splits)

lemma acquire_ok:
  assumes "acquireSlot env now node st = (True, st1)"
  shows "st1 = st \<or> (\<exists>th key. key \<noteq> '''' \<and> dv_cache env = None \<and>
    st1 = st\<lparr>dg_throttle := th, dg_inflightKey := mput (nd_NodeID node) key (dg_inflightKey st)\<rparr>)"
proof (cases "concurrencyCapFor (dg_throttle st) (dv_tenantID env) (nd_Topic node)")
  case (fields cap scope key)
  then show ?thesis using assms capKey_ne [OF fields]
    by (cases "tryAcquireCap key cap (dg_throttle st)")
      (auto simp: acquireSlot_def Let_def split: if_splits prod.splits bool.splits)
qed
lemma acquire_inv:
  assumes "sched_inv env st" "dg_ready st = i # rest" "dg_running st < dv_maxPar env" "nd_NodeID node = i"
    and "acquireSlot env now node (st\<lparr>dg_ready := rest\<rparr>) = (ok, st1)"
  shows "if ok then popped env i st1 else sched_inv env st1"
proof -
  let ?st = "st\<lparr>dg_ready := rest\<rparr>"
  have pop: "popped env i ?st" using assms(1-3) by (auto simp: popped_def sched_inv_def keys_in_def)
  show ?thesis
  proof (cases ok)
    case True
    have "st1 = ?st \<or> (\<exists>th key. key \<noteq> '''' \<and> dv_cache env = None \<and>
        st1 = ?st\<lparr>dg_throttle := th, dg_inflightKey := mput i key (dg_inflightKey st)\<rparr>)"
      using acquire_ok [of env now node ?st st1] assms(4,5) True by simp
    then show ?thesis
    proof
      assume "\<exists>th key. key \<noteq> '''' \<and> dv_cache env = None \<and> st1 = ?st\<lparr>dg_throttle := th, dg_inflightKey := mput i key (dg_inflightKey st)\<rparr>"
      then show ?thesis using pop True by (auto simp: popped_def keys_in_def split: if_splits)
    qed (use pop True in simp)
  next
    case False
    let ?st1 = "st\<lparr>dg_ready := rest @ [i]\<rparr>"
    have "core_inv (dv_graph env) (dom (mget (dg_done st))) (dg_inDegree st) (rest @ [i]) (flying st) (dg_stopScheduling st)"
      using assms(1,2) by (auto simp: sched_inv_def intro: core_inv_perm)
    then have "sched_inv env ?st1" using assms(1) by (simp add: sched_inv_def)
    moreover have "same_book ?st1 st1"
      using assms(4,5) False
      by (auto simp: acquireSlot_def Let_def emit_def same_book_def split: if_splits prod.splits bool.splits)
    ultimately show ?thesis using False by (simp add: same_book_inv(1))
  qed
qed


lemma release_book:
  "dg_done (releaseSlot i st) = dg_done st" "dg_inflight (releaseSlot i st) = dg_inflight st" "dg_running (releaseSlot i st) = dg_running st"
  "dg_stopScheduling (releaseSlot i st) = dg_stopScheduling st" "dg_budgetExceeded (releaseSlot i st) = dg_budgetExceeded st"
  "dg_externalCanceled (releaseSlot i st) = dg_externalCanceled st" "dg_failed (releaseSlot i st) = dg_failed st"
  "dg_waiting (releaseSlot i st) = dg_waiting st" "dg_store (releaseSlot i st) = dg_store st" "dg_run (releaseSlot i st) = dg_run st"
  "dg_attemptsUsed (releaseSlot i st) = dg_attemptsUsed st"
  by (simp_all add: releaseSlot_def Let_def)

lemma release_keys:
  assumes "keys_in (dg_inflightKey st) (insert i A)"
  shows "keys_in (dg_inflightKey (releaseSlot i st)) A"
proof (cases "mget (dg_inflightKey st) i")
  case None
  with assms show ?thesis by (simp add: releaseSlot_def Let_def mdef_def keys_in_def) (metis option.distinct(1))
next
  case (Some v)
  with assms have "v \<noteq> ''''" by (auto simp: keys_in_def)
  with Some assms show ?thesis by (auto simp: releaseSlot_def Let_def mdef_def keys_in_def split: if_splits)
qed

lemma popped_keys: "popped env i st \<Longrightarrow> keys_in (dg_inflightKey st) (insert i (set (flying st)))"
  by (auto simp: popped_def keys_in_def split: if_splits)

lemma fly_inv:
  assumes "popped env i st" "sn_nodeID x = i"
  shows "sched_inv env (st\<lparr>dg_running := dg_running st + 1, dg_inflight := dg_inflight st @ [x]\<rparr>)"
proof -
  have "core_inv (dv_graph env) (dom (mget (dg_done st))) (dg_inDegree st) (dg_ready st) (flying st @ [i]) (dg_stopScheduling st)"
    by (rule core_inv_perm [of _ _ _ "i # dg_ready st" "flying st"]) (use assms(1) in \<open>simp_all add: popped_def\<close>)
  moreover have "keys_in (dg_inflightKey st) (set (flying st @ [i]))" using popped_keys [OF assms(1)] by simp
  ultimately show ?thesis using assms by (simp add: sched_inv_def popped_def)
qed

lemma startNode_inv:
  assumes "popped env i st" "startNode env now i att input st = (SPlaced, st')"
  shows "sched_inv env st'"
proof -
  obtain st1 where s1: "saveNode env now (nodeRecord env i att NodeStatusRunning now None input JNil '''') st = (None, st1)"
    and st': "st' = (let st2 = emit env now EventNodeStarted (dv_wfID env) i att JNil st1 in st2\<lparr>dg_running := dg_running st2 + 1,
             dg_inflight := dg_inflight st2 @ [\<lparr>sn_nodeID = i, sn_attempt = att, sn_started = now, sn_input = input, sn_result = None\<rparr>]\<rparr>)"
    using assms(2) by (auto simp: startNode_def Let_def split: prod.splits option.splits)
  have "same_book st st1" using saveNode_frame [OF s1] by auto
  then have "same_book st (emit env now EventNodeStarted (dv_wfID env) i att JNil st1)" by (rule same_book_trans) simp
  then have "popped env i (emit env now EventNodeStarted (dv_wfID env) i att JNil st1)" using assms(1) same_book_inv(2) by blast
  from fly_inv [OF this] show ?thesis by (simp add: st' Let_def)
qed

lemma nodeDone_inv:
  assumes ok: "graph_ok (dv_graph env)" and d: "mget (dg_done st) i = None" "i \<in> set (node_ids (dv_graph env))" "i \<notin> set (dg_ready st @ flying st)"
    and core: "core_inv (dv_graph env) (dom (mget (dg_done st))) (dg_inDegree st) (dg_ready st) (flying st) True"
    and compl: "\<not> dg_stopScheduling st \<longrightarrow> (\<forall>c \<in> set (node_ids (dv_graph env)) - dom (mget (dg_done st)) - {i}.
       mdef 0 (dg_inDegree st) c = 0 \<longrightarrow> c \<in> set (dg_ready st @ flying st))"
    and run: "dg_running st = int (length (dg_inflight st))" "dg_running st \<le> dv_maxPar env" "keys_in (dg_inflightKey st) (set (flying st))"
      "dg_budgetExceeded st \<or> dg_externalCanceled st \<longrightarrow> dg_stopScheduling st"
  shows "sched_inv env (nodeDone env i (st\<lparr>dg_done := mput i ne (dg_done st), dg_store := s, dg_outputs := outs\<rparr>))"
proof -
  obtain deg' r' where r: "relaxReady (mput i ne (dg_done st)) (mdef [] (childrenMap (wg_Edges (dv_graph env))) i) (dg_inDegree st) (dg_ready st) = (deg', r')"
    by (metis surj_pair)
  have edges: "edge_rel (wg_Edges (dv_graph env)) \<subseteq> set (node_ids (dv_graph env)) \<times> set (node_ids (dv_graph env))"
    using ok by (simp add: graph_ok_def)
  have "core_inv (dv_graph env) (dom (mget (mput i ne (dg_done st)))) deg' r' (flying st) (dg_stopScheduling st)"
    by (rule core_inv_done [OF core d(2,3) _ _ edges compl r]) (use d(1) in auto)
  then have "core_inv (dv_graph env) (dom (mget (mput i ne (dg_done st)))) deg' (sort_key (nodeIndexOf (dv_graph env)) r') (flying st) (dg_stopScheduling st)"
    by (rule core_inv_perm) simp
  then show ?thesis using run by (simp add: nodeDone_def r sched_inv_def)
qed


lemma popped_facts:
  assumes "popped env i st"
  shows "mget (dg_done st) i = None" "i \<in> set (node_ids (dv_graph env))" "i \<notin> set (dg_ready st @ flying st)"
    "core_inv (dv_graph env) (dom (mget (dg_done st))) (dg_inDegree st) (dg_ready st) (flying st) True"
    "\<not> dg_stopScheduling st \<longrightarrow> (\<forall>c \<in> set (node_ids (dv_graph env)) - dom (mget (dg_done st)) - {i}.
       mdef 0 (dg_inDegree st) c = 0 \<longrightarrow> c \<in> set (dg_ready st @ flying st))"
proof -
  have core: "core_inv (dv_graph env) (dom (mget (dg_done st))) (dg_inDegree st) (i # dg_ready st) (flying st) (dg_stopScheduling st)"
    using assms by (simp add: popped_def)
  then show "mget (dg_done st) i = None" "i \<in> set (node_ids (dv_graph env))" "i \<notin> set (dg_ready st @ flying st)"
    by (auto simp: core_inv_def)
  from core show "core_inv (dv_graph env) (dom (mget (dg_done st))) (dg_inDegree st) (dg_ready st) (flying st) True"
    by (rule core_inv_drop)
  show "\<not> dg_stopScheduling st \<longrightarrow> (\<forall>c \<in> set (node_ids (dv_graph env)) - dom (mget (dg_done st)) - {i}.
       mdef 0 (dg_inDegree st) c = 0 \<longrightarrow> c \<in> set (dg_ready st @ flying st))"
    using core unfolding core_inv_def by (metis Diff_iff append_Cons insert_iff list.set(2))
qed

lemma replayNode_inv:
  assumes "env_ok env" "popped env i st" "dv_cache env \<noteq> None" "replayNode env now i att input entry st = (SPlaced, st')"
  shows "sched_inv env st'"
proof -
  let ?ne = "nodeRecord env i att NodeStatusSucceeded now (Some now) input (rc_Output entry) ''''"
  obtain st2 p where s2: "saveNode env now ?ne (emit env now EventNodeStarted (dv_wfID env) i att JNil st) = (None, st2)"
    and st': "st' = nodeDone env i ((emit env now EventNodeFinished (dv_wfID env) i att
        (finishedJSON (InjectNodeFinishedProofFields (Some (rc_Attempt entry)) now now p)) (st2\<lparr>dg_done := mput i ?ne (dg_done st2)\<rparr>))
        \<lparr>dg_outputs := mput i (rc_Output entry) (dg_outputs st2)\<rparr>)"
    using assms(4) by (auto simp: replayNode_def Let_def emit_def split: prod.splits option.splits sum.splits)
  have "same_book st st2" using saveNode_frame [OF s2] by (auto simp: same_book_def emit_def)
  then have pop: "popped env i st2" using assms(2) same_book_inv(2) by blast
  obtain s where eq: "st' = nodeDone env i (st2\<lparr>dg_done := mput i ?ne (dg_done st2), dg_store := s, dg_outputs := mput i (rc_Output entry) (dg_outputs st2)\<rparr>)"
    unfolding st' emit_def by simp
  show ?thesis unfolding eq
    by (rule nodeDone_inv [OF _ popped_facts [OF pop]]) (use assms(1,3) pop in \<open>auto simp: env_ok_def popped_def\<close>)
qed

lemma humanWait_inv:
  assumes "popped env i st"
  shows "sched_inv env (humanWait env now i st)"
proof -
  let ?st = "(saveRun env now (st\<lparr>dg_run := (dg_run st)\<lparr>run_Status := RunStatusWaiting, run_EndedAt := None\<rparr>\<rparr>))\<lparr>dg_waiting := True, dg_stopScheduling := True\<rparr>"
  have "keys_in (dg_inflightKey ?st) (insert i (set (flying st)))" using popped_keys [OF assms] by (simp add: saveRun_def)
  from release_keys [OF this] have "keys_in (dg_inflightKey (humanWait env now i st)) (set (flying st))" by (simp add: humanWait_def)
  then show ?thesis using assms core_inv_drop
    by (auto simp: sched_inv_def popped_def humanWait_def release_book) (simp_all add: saveRun_def, auto dest: core_inv_drop)
qed

lemma placeNode_inv:
  assumes "env_ok env" "popped env i st" "nd_NodeID node = i" "placeNode env now node st = (SPlaced, st')"
  shows "sched_inv env st'"
proof -
  let ?st1 = "countAttempt env now st"
  let ?att = "nextAttempt ?st1 i"
  obtain ho s where h: "dv_human env node ?att (nodeInput env ?st1 i) now (dg_store ?st1) = (ho, s)" by (metis surj_pair)
  let ?st3 = "?st1\<lparr>dg_maxAttempt := mput i ?att (dg_maxAttempt ?st1), dg_store := s\<rparr>"
  have d: "dispatchNode env now i ?att (nodeInput env ?st1 i) ho ?st3 = (SPlaced, st')"
    using assms(3,4) h by (auto simp: placeNode_def Let_def split: if_splits)
  have "same_book st ?st3" by (simp add: same_book_def countAttempt_def saveRun_def)
  then have pop: "popped env i ?st3" using assms(2) same_book_inv(2) by blast
  show ?thesis
  proof (cases ho)
    case HumanPending
    then show ?thesis using d humanWait_inv [OF pop] by (auto simp: dispatchNode_def)
  next
    case (HumanDone res)
    then have "nr_nodeID res = i" using assms(1,3) h unfolding env_ok_def by blast
    then show ?thesis using d HumanDone fly_inv [OF pop] by (auto simp: dispatchNode_def humanResult_def)
  next
    case HumanNo
    then show ?thesis using d replayNode_inv [OF assms(1) pop] startNode_inv [OF pop]
      by (auto simp: dispatchNode_def split: option.splits)
  qed (use d in \<open>simp add: dispatchNode_def\<close>)
qed


section \<open>The scheduling loop\<close>

lemma nodeByID_id: "nodeByID g i = Some node \<Longrightarrow> nd_NodeID node = i"
  by (auto simp: nodeByID_def find_Some_iff)

lemma scheduleOne_inv:
  assumes "env_ok env" "sched_inv env st" "dg_running st < dv_maxPar env" "scheduleOne env now st = (c, st')" "\<forall>err. c \<noteq> SReturn err"
  shows "sched_inv env st'"
proof (cases "dg_ready st")
  case Nil
  then show ?thesis using assms by (simp add: scheduleOne_def)
next
  case (Cons i rest)
  let ?st = "st\<lparr>dg_ready := rest\<rparr>"
  obtain node where node: "nodeByID (dv_graph env) i = Some node"
    using assms(4,5) Cons by (cases "nodeByID (dv_graph env) i") (auto simp: scheduleOne_def Let_def)
  note id = nodeByID_id [OF node]
  let ?full = "\<not> dg_budgetExceeded ?st \<and> 0 < bp_MaxAttempts (dv_effBudget env) \<and> bp_MaxAttempts (dv_effBudget env) < dg_attemptsUsed ?st + 1"
  show ?thesis
  proof (cases ?full)
    case True
    let ?p = "budgetPayload ''max_attempts'' ''max_attempts'' (JInt (bp_MaxAttempts (dv_effBudget env))) ''attempts'' (JInt (dg_attemptsUsed ?st))"
    have st': "st' = triggerBudgetExceeded env now ?p ?st" using assms(4) Cons node True by (simp add: scheduleOne_def Let_def)
    have "core_inv (dv_graph env) (dom (mget (dg_done st))) (dg_inDegree st) rest (flying st) True"
      using assms(2) Cons core_inv_drop by (auto simp: sched_inv_def)
    then show ?thesis using assms(2) True
      by (simp add: st' sched_inv_def triggerBudgetExceeded_def Let_def emit_def saveRun_def)
  next
    case False
    obtain ok st1 where a: "acquireSlot env now node ?st = (ok, st1)" by (metis surj_pair)
    note inv = acquire_inv [OF assms(2) Cons assms(3) id a]
    show ?thesis
    proof (cases ok)
      case True
      then have "placeNode env now node st1 = (c, st')"
        using assms(4) Cons node False a by (auto simp: scheduleOne_def Let_def split: if_splits)
      moreover have "c = SPlaced"
      proof -
        have "c \<noteq> SBreak" using calculation
          by (auto simp: placeNode_def dispatchNode_def replayNode_def startNode_def Let_def
              split: if_splits prod.splits humanOutcome.splits option.splits sum.splits)
        then show ?thesis using placeNode_left(2) [OF calculation] assms(5) by (cases c) auto
      qed
      ultimately show ?thesis using placeNode_inv [OF assms(1) _ id] inv True by simp
    next
      case no: False
      then have "st' = st1" using assms(4) Cons node False a by (auto simp: scheduleOne_def Let_def split: if_splits)
      with inv no show ?thesis by simp
    qed
  qed
qed

lemma scheduleLoop_inv:
  assumes "env_ok env" "sched_inv env st" "scheduleLoop env now m k st = (None, st')"
  shows "sched_inv env st'"
  using assms
proof (induction env now m k st rule: scheduleLoop.induct)
  case (1 env now m k st)
  show ?case
  proof (cases "dg_stopScheduling st \<or> \<not> dg_running st < dv_maxPar env \<or> dg_ready st = [] \<or> m \<le> k")
    case True
    with 1(5) have "st' = st" by (subst (asm) scheduleLoop.simps) auto
    with 1(4) show ?thesis by simp
  next
    case go: False
    obtain c st1 where s: "scheduleOne env now st = (c, st1)" by (metis surj_pair)
    have eq: "scheduleLoop env now m k st = (case c of SBreak \<Rightarrow> (None, st1) | SReturn err \<Rightarrow> (Some err, st1)
        | SSkip \<Rightarrow> scheduleLoop env now m (k + 1) st1 | SPlaced \<Rightarrow> scheduleLoop env now m 0 st1)"
      using go s by (subst scheduleLoop.simps) (auto split: schedCtl.splits)
    have "\<forall>err. c \<noteq> SReturn err" using 1(5) unfolding eq by auto
    then have inv: "sched_inv env st1" using scheduleOne_inv [OF 1(3,4) _ s] go by simp
    show ?thesis
    proof (cases c)
      case SSkip
      then show ?thesis using 1(1) [OF go s [symmetric] SSkip 1(3) inv] 1(5) unfolding eq by simp
    next
      case SPlaced
      then show ?thesis using 1(2) [OF go s [symmetric] SPlaced 1(3) inv] 1(5) unfolding eq by simp
    qed (use 1(5) inv in \<open>auto simp: eq\<close>)
  qed
qed


section \<open>Results\<close>

text \<open>A result comes from a node in flight: what was handed to the goroutine, or the answer a human
  step had already given.\<close>

definition from_flight :: "'s dagState \<Rightarrow> nodeResult \<Rightarrow> bool" where
  "from_flight st res \<longleftrightarrow> list_ex (\<lambda>x. sn_nodeID x = nr_nodeID res \<and> sn_attempt x = nr_attempt res \<and>
     (case sn_result x of None \<Rightarrow> sn_started x = nr_started res \<and> sn_input x = nr_input res | Some r \<Rightarrow> r = res)) (dg_inflight st)"

lemma dropInflight_mset:
  assumes "from_flight st res"
  shows "mset (nr_nodeID res # map sn_nodeID (dropInflight res (dg_inflight st))) = mset (flying st)"
    "length (dg_inflight st) = Suc (length (dropInflight res (dg_inflight st)))"
proof -
  let ?P = "\<lambda>x. sn_nodeID x = nr_nodeID res \<and> sn_attempt x = nr_attempt res"
  obtain x where x: "find ?P (dg_inflight st) = Some x" "x \<in> set (dg_inflight st)" "sn_nodeID x = nr_nodeID res"
    using assms by (cases "find ?P (dg_inflight st)") (auto simp: from_flight_def list_ex_iff find_None_iff find_Some_iff)
  then have d: "dropInflight res (dg_inflight st) = remove1 x (dg_inflight st)" by (simp add: dropInflight_def)
  show "mset (nr_nodeID res # map sn_nodeID (dropInflight res (dg_inflight st))) = mset (flying st)"
    using x(2,3) by (simp add: d) (metis image_mset_add_mset insert_DiffM set_mset_mset)
  show "length (dg_inflight st) = Suc (length (dropInflight res (dg_inflight st)))"
    using x(2) length_pos_if_in_set [of x] by (simp add: d length_remove1)
qed

lemma result_popped:
  assumes "sched_inv env st" "from_flight st res"
  defines "st1 \<equiv> releaseSlot (nr_nodeID res) (st\<lparr>dg_running := dg_running st - 1, dg_inflight := dropInflight res (dg_inflight st)\<rparr>)"
  shows "popped env (nr_nodeID res) st1" "keys_in (dg_inflightKey st1) (set (flying st1))"
proof -
  let ?i = "nr_nodeID res" and ?fl = "dropInflight res (dg_inflight st)"
  note m = dropInflight_mset [OF assms(2)]
  have core: "core_inv (dv_graph env) (dom (mget (dg_done st))) (dg_inDegree st) (?i # dg_ready st) (map sn_nodeID ?fl) (dg_stopScheduling st)"
    by (rule core_inv_perm [of _ _ _ "dg_ready st" "flying st"]) (use assms(1) m(1) in \<open>auto simp: sched_inv_def\<close>)
  have "set (flying st) = insert ?i (set (map sn_nodeID ?fl))" using mset_eq_setD [OF m(1)] by simp
  then have "keys_in (dg_inflightKey st) (insert ?i (set (map sn_nodeID ?fl)))" using assms(1) by (simp add: sched_inv_def)
  then show k: "keys_in (dg_inflightKey st1) (set (flying st1))"
    unfolding st1_def by (simp add: release_book release_keys)
  then have "keys_in (dg_inflightKey st1) (insert ?i (set (flying st1)))" by (auto simp: keys_in_def)
  with k core m(2) assms(1) show "popped env ?i st1"
    by (auto simp: popped_def sched_inv_def st1_def release_book)
qed

lemma popped_dropped:
  assumes "popped env i st" "keys_in (dg_inflightKey st) (set (flying st))" "dg_stopScheduling st'"
    "dg_done st' = dg_done st" "dg_inDegree st' = dg_inDegree st" "dg_ready st' = dg_ready st" "dg_inflight st' = dg_inflight st"
    "dg_running st' = dg_running st" "dg_inflightKey st' = dg_inflightKey st"
  shows "sched_inv env st'"
  using assms core_inv_drop by (auto simp: popped_def sched_inv_def)

lemma saveNode_snd: "\<exists>s. snd (saveNode env now ne st) = st\<lparr>dg_store := s\<rparr>"
  by (auto simp: saveNode_def split: prod.split)

lemma resultCanceled_store: "\<exists>s. resultCanceled env now res err st = st\<lparr>dg_store := s\<rparr>"
  unfolding resultCanceled_def by (rule saveNode_snd)

lemma resultOk_inv:
  assumes "env_ok env" "popped env (nr_nodeID res) st" "keys_in (dg_inflightKey st) (set (flying st))" "resultOk env now res st = DagOn st'"
  shows "sched_inv env st'"
proof -
  let ?i = "nr_nodeID res"
  let ?ne = "nodeRecord env ?i (nr_attempt res) NodeStatusSucceeded (nr_started res) (Some (nr_ended res)) (nr_input res) (nr_output res) ''''"
  obtain st1 p where s1: "saveNode env now ?ne st = (None, st1)"
    and st': "st' = nodeDone env ?i ((emit env now EventNodeFinished (dv_wfID env) ?i (nr_attempt res)
        (finishedJSON (InjectNodeFinishedProofFields None (nr_started res) (nr_ended res) p)) (st1\<lparr>dg_done := mput ?i ?ne (dg_done st1)\<rparr>))
        \<lparr>dg_outputs := mput ?i (nr_output res) (dg_outputs st1)\<rparr>)"
    using assms(4) by (auto simp: resultOk_def Let_def emit_def split: prod.splits option.splits sum.splits)
  have sb: "same_book st st1" using saveNode_frame [OF s1] by auto
  then have pop: "popped env ?i st1" using assms(2) same_book_inv(2) by blast
  have keys: "keys_in (dg_inflightKey st1) (set (flying st1))" using assms(3) sb by (simp add: same_book_def)
  obtain s where eq: "st' = nodeDone env ?i (st1\<lparr>dg_done := mput ?i ?ne (dg_done st1), dg_store := s, dg_outputs := mput ?i (nr_output res) (dg_outputs st1)\<rparr>)"
    unfolding st' emit_def by simp
  show ?thesis unfolding eq
    by (rule nodeDone_inv [OF _ popped_facts [OF pop]]) (use assms(1) pop keys in \<open>auto simp: env_ok_def popped_def\<close>)
qed

lemma handleResult_inv:
  assumes "env_ok env" "sched_inv env st" "from_flight st res" "handleResult env now res st = DagOn st'"
  shows "sched_inv env st'"
proof -
  let ?st = "releaseSlot (nr_nodeID res) (st\<lparr>dg_running := dg_running st - 1, dg_inflight := dropInflight res (dg_inflight st)\<rparr>)"
  note pop = result_popped [OF assms(2,3)]
  note dropped = popped_dropped [OF pop]
  have canceled: "sched_inv env ((resultCanceled env now res err ?st)\<lparr>dg_stopScheduling := True\<rparr>)" for err
  proof -
    obtain s where "resultCanceled env now res err ?st = ?st\<lparr>dg_store := s\<rparr>"
      by (rule exE [OF resultCanceled_store])
    then show ?thesis by (intro dropped) simp_all
  qed
  have delay: "sched_inv env (resultDelay env now res d ?st)" for d
  proof -
    obtain s where "snd (saveNode env now (nodeRecord env (nr_nodeID res) (nr_attempt res) NodeStatusWaiting (nr_started res) (Some now) (nr_input res) JNil '''') ?st) = ?st\<lparr>dg_store := s\<rparr>"
      by (rule exE [OF saveNode_snd])
    then show ?thesis by (intro dropped) (simp_all add: resultDelay_def Let_def emit_def saveRun_def)
  qed
  have fail: "sched_inv env (resultFailed env now res msg ?st)" for msg
  proof -
    obtain s where "snd (saveNode env now (nodeRecord env (nr_nodeID res) (nr_attempt res) NodeStatusFailed (nr_started res) (Some (nr_ended res)) (nr_input res) JNil msg) ?st) = ?st\<lparr>dg_store := s\<rparr>"
      by (rule exE [OF saveNode_snd])
    then show ?thesis by (intro dropped) (simp_all add: resultFailed_def Let_def emit_def saveRun_def)
  qed
  have budget: "sched_inv env (resultCanceled env now res err ?st)" if "dg_budgetExceeded ?st" for err
  proof -
    have "dg_stopScheduling ?st" using that pop(1) by (simp add: popped_def)
    obtain s where "resultCanceled env now res err ?st = ?st\<lparr>dg_store := s\<rparr>"
      by (rule exE [OF resultCanceled_store])
    then show ?thesis using \<open>dg_stopScheduling ?st\<close> by (intro dropped) simp_all
  qed
  show ?thesis
    using assms(4) canceled delay fail budget resultOk_inv [OF assms(1) pop, of now st']
    by (auto simp: handleResult_def Let_def split: if_splits option.splits nodeErr.splits)
qed

section \<open>Turns\<close>

text \<open>The result a turn brings comes from a node in flight once the turn has started its nodes.\<close>

definition turn_ok :: "('f, 's) dagEnv \<Rightarrow> 's dagTurn \<Rightarrow> 's dagState \<Rightarrow> bool" where
  "turn_ok env tn st0 =
     (let st = st0\<lparr>dg_store := tn_store tn (dg_store st0), dg_throttle := tn_throttle tn (dg_throttle st0)\<rparr>;
          st1 = loopHead env (tn_now tn) st
      in case tn_event tn of
           EvResult res \<Rightarrow>
             (case scheduleLoop env (tn_now tn) (length (dg_ready st1)) 0 st1 of
                (None, st2) \<Rightarrow> dg_running st2 = 0 \<or> from_flight st2 res
              | _ \<Rightarrow> True)
         | _ \<Rightarrow> True)"

fun turns_ok :: "('f, 's) dagEnv \<Rightarrow> 's dagTurn list \<Rightarrow> 's dagState \<Rightarrow> bool" where
  "turns_ok env [] st \<longleftrightarrow> True"
| "turns_ok env (tn # rest) st \<longleftrightarrow>
     dg_ready st = [] \<and> dg_running st \<le> 0 \<or>
     turn_ok env tn st \<and> (case dagIter env tn st of StepOn st1 \<Rightarrow> turns_ok env rest st1 | _ \<Rightarrow> True)"

lemma dagIter_inv:
  assumes "env_ok env" "sched_inv env st" "turn_ok env tn st" "dagIter env tn st = StepOn st' \<or> dagIter env tn st = StepExit st'"
  shows "sched_inv env st'"
proof -
  let ?st = "st\<lparr>dg_store := tn_store tn (dg_store st), dg_throttle := tn_throttle tn (dg_throttle st)\<rparr>"
  let ?st1 = "loopHead env (tn_now tn) ?st"
  have "sched_inv env ?st" using assms(2) same_book_inv(1) [of st ?st env] by (simp add: same_book_def)
  then have inv1: "sched_inv env ?st1" by (rule loopHead_inv)
  obtain st2 where s: "scheduleLoop env (tn_now tn) (length (dg_ready ?st1)) 0 ?st1 = (None, st2)"
    using assms(4) by (auto simp: dagIter_def Let_def split: prod.splits option.splits)
  have inv2: "sched_inv env st2" by (rule scheduleLoop_inv [OF assms(1) inv1 s])
  show ?thesis
  proof (cases "dg_running st2 = 0")
    case True
    then show ?thesis using assms(4) s inv2 noteDone_inv [OF inv2] by (auto simp: dagIter_def Let_def split: if_splits)
  next
    case False
    then have sel: "dagSelect env (tn_now tn) (tn_event tn) st2 = StepOn st' \<or> dagSelect env (tn_now tn) (tn_event tn) st2 = StepExit st'"
      using assms(4) s by (auto simp: dagIter_def Let_def)
    show ?thesis
    proof (cases "tn_event tn")
      case (EvResult res)
      then have "from_flight st2 res" using assms(3) s False by (simp add: turn_ok_def Let_def)
      then show ?thesis using sel EvResult handleResult_inv [OF assms(1) inv2, of res "tn_now tn" st']
        by (auto simp: dagSelect_def split: dagOut.splits)
    qed (use sel inv2 noteDone_inv [OF inv2] usage_inv [OF inv2] in \<open>auto simp: dagSelect_def\<close>)
  qed
qed

lemma dagLoop_turn:
  assumes "\<not> (dg_ready st = [] \<and> dg_running st \<le> 0)"
  shows "dagLoop env (tn # rest) st = (case dagIter env tn st of StepOn st1 \<Rightarrow> dagLoop env rest st1 | StepExit st1 \<Rightarrow> EndExit st1
    | StepReturn err st1 \<Rightarrow> EndReturn err st1)"
  by (subst dagLoop.simps, subst if_not_P [OF assms]) simp

lemma dagLoop_inv:
  assumes "env_ok env" "sched_inv env st" "turns_ok env turns st" "dagLoop env turns st = EndExit st' \<or> dagLoop env turns st = EndBusy st'"
  shows "sched_inv env st'"
  using assms(2-4)
proof (induction turns arbitrary: st)
  case Nil
  then show ?case by (subst (asm) (1 2) dagLoop.simps) (auto split: if_splits)
next
  case (Cons tn rest)
  show ?case
  proof (cases "dg_ready st = [] \<and> dg_running st \<le> 0")
    case True
    then show ?thesis using Cons.prems by (subst (asm) (1 2) dagLoop.simps) auto
  next
    case go: False
    then have ok: "turn_ok env tn st" "\<And>st1. dagIter env tn st = StepOn st1 \<Longrightarrow> turns_ok env rest st1" using Cons.prems(2) by auto
    show ?thesis
    proof (cases "dagIter env tn st")
      case (StepOn st1)
      then have "dagLoop env (tn # rest) st = dagLoop env rest st1" using dagLoop_turn [OF go, of env tn rest] by simp
      then show ?thesis using Cons.IH [OF dagIter_inv [OF assms(1) Cons.prems(1) ok(1)] ok(2)] StepOn Cons.prems(3) by simp
    next
      case (StepExit st1)
      then have "dagLoop env (tn # rest) st = EndExit st1" using dagLoop_turn [OF go, of env tn rest] by simp
      then show ?thesis using dagIter_inv [OF assms(1) Cons.prems(1) ok(1)] StepExit Cons.prems(3) by simp
    next
      case (StepReturn err st1)
      then have "dagLoop env (tn # rest) st = EndReturn err st1" using dagLoop_turn [OF go, of env tn rest] by simp
      then show ?thesis using Cons.prems(3) by simp
    qed
  qed
qed

end
