(* ===== verification/DagOutcome.thy ===== *)
theory DagOutcome
  imports DagSafety
begin

text \<open>
  What a run of the DAG scheduler gives: the invariant of \<open>DagSafety\<close> holds when the loop is
  entered, so it holds at every turn; how the run ends then follows.
\<close>

section \<open>The first turn\<close>

lemma openDegrees_get:
  fixes g :: "'f workflowGraph"
  shows "mdef 0 (openDegrees g dn) c = open_deg (wg_Edges g) (dom (mget dn)) c"
proof -
  have base: "mdef 0 (foldl (\<lambda>m n. mput (nd_NodeID n) 0 m) [] ns) c = 0" for ns :: "'f nodeDef list"
    by (induction ns rule: rev_induct) auto
  have "mdef 0 (foldl (\<lambda>m e. if mget dn (ed_From e) = None then mput (ed_To e) (mdef 0 m (ed_To e) + 1) m else m) m0 es) c
      = mdef 0 m0 c + open_deg es (dom (mget dn)) c" for m0 :: "(string, int) gomap" and es
    by (induction es rule: rev_induct) (auto simp: open_deg_def)
  then show ?thesis by (simp add: openDegrees_def base)
qed

lemma openDegrees_keys:
  fixes g :: "'f workflowGraph"
  assumes "edge_rel (wg_Edges g) \<subseteq> set (node_ids g) \<times> set (node_ids g)"
  shows "dom (mget (openDegrees g dn)) = set (node_ids g)" "mwf (openDegrees g dn)"
proof -
  let ?node = "\<lambda>m n. mput (nd_NodeID n) (0::int) m"
  let ?edge = "\<lambda>m e. if mget dn (ed_From e) = None then mput (ed_To e) (mdef 0 m (ed_To e) + (1::int)) m else m"
  have nodes: "dom (mget (foldl ?node [] ns)) = nd_NodeID ` set ns" "mwf (foldl ?node [] ns)" for ns :: "'f nodeDef list"
    by (induction ns rule: rev_induct) auto
  have edges: "dom (mget m0) \<subseteq> dom (mget (foldl ?edge m0 es))" "dom (mget (foldl ?edge m0 es)) \<subseteq> dom (mget m0) \<union> ed_To ` set es"
    "mwf m0 \<Longrightarrow> mwf (foldl ?edge m0 es)" for m0 es
    by (induction es rule: rev_induct) auto
  have "ed_To ` set (wg_Edges g) \<subseteq> set (node_ids g)" using assms by (auto simp: edge_rel_def)
  moreover have "set (node_ids g) \<subseteq> dom (mget (openDegrees g dn))"
    using edges(1) [of "foldl ?node [] (wg_Nodes g)" "wg_Edges g"] unfolding openDegrees_def nodes(1) set_map .
  moreover have "dom (mget (openDegrees g dn)) \<subseteq> set (node_ids g) \<union> ed_To ` set (wg_Edges g)"
    using edges(2) [of "foldl ?node [] (wg_Nodes g)" "wg_Edges g"] unfolding openDegrees_def nodes(1) set_map .
  ultimately show "dom (mget (openDegrees g dn)) = set (node_ids g)" by blast
  show "mwf (openDegrees g dn)" using edges(3) nodes(2) unfolding openDegrees_def by blast
qed

lemma core_inv_start:
  assumes "graph_ok g"
  shows "core_inv g (dom (mget dn)) (openDegrees g dn) (initialReady g (openDegrees g dn) dn) [] False"
proof -
  have ed: "edge_rel (wg_Edges g) \<subseteq> set (node_ids g) \<times> set (node_ids g)" using assms by (simp add: graph_ok_def)
  note k = openDegrees_keys [OF ed, of dn]
  have "set (initialReady g (openDegrees g dn) dn) = {i \<in> set (node_ids g). mdef 0 (openDegrees g dn) i = 0 \<and> mget dn i = None}"
    using k(1) by (auto simp: initialReady_def set_mkeys)
  moreover have "distinct (initialReady g (openDegrees g dn) dn)"
    using k(2) by (simp add: initialReady_def mwf_def mkeys_def)
  ultimately show ?thesis by (auto simp: core_inv_def openDegrees_get)
qed

lemma enterLoop_StartLoop:
  assumes "enterLoop cfg now runID wfID reqTenant g input cache th r used info s = StartLoop env st"
  shows "dv_graph env = g" "dv_ops env = rn_ops cfg" "dv_runID env = runID" "dv_maxPar env = max 1 (rn_maxParallel cfg)" "dv_human env = rn_human cfg runID wfID"
    "dv_cache env = cache"
    "dg_done st = ri_done info" "dg_inDegree st = openDegrees g (ri_done info)" "dg_ready st = initialReady g (dg_inDegree st) (dg_done st)"
    "dg_running st = 0" "dg_inflight st = []" "dg_inflightKey st = []" "\<not> dg_stopScheduling st" "\<not> dg_externalCanceled st" "\<not> dg_failed st"
    "\<not> dg_waiting st" "\<not> dg_budgetExceeded st" "dg_attemptsUsed st = used" "run_Status (dg_run st) = RunStatusRunning" "dg_throttle st = th"
proof -
  let ?r = "(let r1 = (if run_StartedAt r = None then r\<lparr>run_StartedAt := Some now\<rparr> else r) in
    (if run_Status r1 \<noteq> RunStatusRunning then r1\<lparr>run_EndedAt := None\<rparr> else r1)\<lparr>run_Status := RunStatusRunning\<rparr>)"
  have go: "\<not> (case so_GetRun (rn_ops cfg) s runID of None \<Rightarrow> False | Some c \<Rightarrow> run_Status c = RunStatusCanceled)"
  proof
    assume "case so_GetRun (rn_ops cfg) s runID of None \<Rightarrow> False | Some c \<Rightarrow> run_Status c = RunStatusCanceled"
    with assms show False unfolding enterLoop_def Let_def by (simp only: if_True dagStarted.distinct)
  qed
  obtain err s1 where u: "so_UpdateRun (rn_ops cfg) now ?r s = (err, s1)" by (metis surj_pair)
  have "err = None"
  proof (rule ccontr)
    assume "err \<noteq> None"
    then obtain e where "err = Some e" by blast
    with assms go u show False unfolding enterLoop_def Let_def by (simp only: if_False prod.case option.case dagStarted.distinct)
  qed
  note e = assms [unfolded enterLoop_def Let_def if_not_P [OF go] u [unfolded Let_def this] prod.case option.case dagStarted.inject]
  show "dv_graph env = g" "dv_ops env = rn_ops cfg" "dv_runID env = runID" "dv_maxPar env = max 1 (rn_maxParallel cfg)" "dv_human env = rn_human cfg runID wfID"
    "dv_cache env = cache"
    unfolding e [THEN conjunct1, symmetric] by simp_all
  show "dg_done st = ri_done info" "dg_inDegree st = openDegrees g (ri_done info)" "dg_ready st = initialReady g (dg_inDegree st) (dg_done st)"
    "dg_running st = 0" "dg_inflight st = []" "dg_inflightKey st = []" "\<not> dg_stopScheduling st" "\<not> dg_externalCanceled st" "\<not> dg_failed st"
    "\<not> dg_waiting st" "\<not> dg_budgetExceeded st" "dg_attemptsUsed st = used" "run_Status (dg_run st) = RunStatusRunning" "dg_throttle st = th"
    unfolding e [THEN conjunct2, symmetric] by (simp_all add: wallClock_def split: option.split)
qed

definition only_succeeded :: "resumeInfo \<Rightarrow> bool" where
  "only_succeeded info \<longleftrightarrow> (\<forall>i ne. mget (ri_done info) i = Some ne \<longrightarrow> ne_Status ne = NodeStatusSucceeded)"

lemma resumeFrom_done: "only_succeeded (resumeFrom nes)" "only_succeeded \<lparr>ri_maxAttempt = [], ri_done = [], ri_outputs = []\<rparr>"
proof -
  show base: "only_succeeded \<lparr>ri_maxAttempt = [], ri_done = [], ri_outputs = []\<rparr>" by (simp add: only_succeeded_def)
  have "only_succeeded x \<Longrightarrow> only_succeeded (resumeNode ne x)" for ne x
    by (simp add: only_succeeded_def resumeNode_def Let_def)
  then have "only_succeeded x \<Longrightarrow> only_succeeded (fold resumeNode nes x)" for x by (induction nes arbitrary: x) simp_all
  with base show "only_succeeded (resumeFrom nes)" by (simp add: resumeFrom_def)
qed

lemma dagStart_StartLoop:
  assumes "dagStart cfg gates now runID reqTenant g input spec cache th s = StartLoop env st"
  obtains wfID r used info s1 where "graph_ok g" "only_succeeded info"
    "enterLoop cfg now runID wfID reqTenant g input cache th r used info s1 = StartLoop env st"
proof -
  note go = that
  have g: "graph_ok g" using assms Graph_Validate_iff [of g] by (cases "Graph_Validate g") (simp_all add: dagStart_def)
  have fin: thesis if "enterLoop cfg now runID wfID reqTenant g input cache th r used (resumeFrom nes) s1 = StartLoop env st" for wfID r used nes s1
    by (rule go [OF g resumeFrom_done(1) that])
  have new: thesis if "enterLoop cfg now runID wfID reqTenant g input cache th r used \<lparr>ri_maxAttempt = [], ri_done = [], ri_outputs = []\<rparr> s1
      = StartLoop env st" for wfID r used s1
    by (rule go [OF g resumeFrom_done(2) that])
  from assms fin new show thesis
    by (simp add: dagStart_def Let_def split: option.splits sum.splits prod.splits if_split_asm)
qed

definition stop_reason :: "'s dagState \<Rightarrow> bool" where
  "stop_reason st \<longleftrightarrow> dg_failed st \<or> dg_waiting st \<or> dg_budgetExceeded st \<or> dg_externalCanceled st"

text \<open>The human step answers for the node it was asked about.\<close>

definition human_ok :: "('f, 's) runnerCfg \<Rightarrow> bool" where
  "human_ok cfg \<longleftrightarrow> (\<forall>runID wfID node a j t s res s'.
     rn_human cfg runID wfID node a j t s = (HumanDone res, s') \<longrightarrow> nr_nodeID res = nd_NodeID node)"

lemma dagStart_inv:
  assumes "dagStart cfg gates now runID reqTenant g input spec cache th s = StartLoop env st"
  shows "sched_inv env st" "human_ok cfg \<Longrightarrow> env_ok env" "dv_graph env = g" "dv_maxPar env = max 1 (rn_maxParallel cfg)"
    "\<not> dg_stopScheduling st" "\<not> stop_reason st" "run_Status (dg_run st) = RunStatusRunning" "dg_running st = 0"
    "mget (dg_done st) i = Some ne \<Longrightarrow> ne_Status ne = NodeStatusSucceeded"
proof -
  obtain wfID r used info s1 where g: "graph_ok g" and d: "only_succeeded info"
    and e: "enterLoop cfg now runID wfID reqTenant g input cache th r used info s1 = StartLoop env st"
    by (rule dagStart_StartLoop [OF assms])
  note f = enterLoop_StartLoop [OF e]
  show "env_ok env" if "human_ok cfg" using f(1,5) g that by (simp add: env_ok_def human_ok_def)
  show "sched_inv env st"
    using core_inv_start [OF g, of "dg_done st"] f by (simp add: sched_inv_def keys_in_def)
  show "dv_graph env = g" "dv_maxPar env = max 1 (rn_maxParallel cfg)" "\<not> dg_stopScheduling st"
    "run_Status (dg_run st) = RunStatusRunning" "dg_running st = 0" by (rule f)+
  show "\<not> stop_reason st" using f(14-17) by (simp add: stop_reason_def)
  show "ne_Status ne = NodeStatusSucceeded" if "mget (dg_done st) i = Some ne" using d f(7) that by (simp add: only_succeeded_def)
qed

section \<open>How the state moves\<close>

text \<open>\<open>grows\<close>: nodes stay done and are done only when they succeeded, scheduling does not start
  again once stopped, and attempts stay within the budget.  \<open>reasoned\<close>: when scheduling stops,
  one of the four flags that say why is set, and none is ever cleared.\<close>

definition grows :: "('f, 's) dagEnv \<Rightarrow> 's dagState \<Rightarrow> 's dagState \<Rightarrow> bool" where
  "grows env st st' \<longleftrightarrow> dom (mget (dg_done st)) \<subseteq> dom (mget (dg_done st')) \<and>
     (\<forall>i ne. mget (dg_done st') i = Some ne \<longrightarrow> mget (dg_done st) i = Some ne \<or> ne_Status ne = NodeStatusSucceeded) \<and>
     (dg_stopScheduling st \<longrightarrow> dg_stopScheduling st') \<and>
     (0 < bp_MaxAttempts (dv_effBudget env) \<longrightarrow> dg_attemptsUsed st' \<le> max (dg_attemptsUsed st) (bp_MaxAttempts (dv_effBudget env)))"

definition reasoned :: "'s dagState \<Rightarrow> 's dagState \<Rightarrow> bool" where
  "reasoned st st' \<longleftrightarrow> (stop_reason st \<longrightarrow> stop_reason st') \<and> (dg_stopScheduling st' \<longrightarrow> dg_stopScheduling st \<or> stop_reason st')"

lemma grows_refl [simp]: "grows env st st" "reasoned st st"
  by (auto simp: grows_def reasoned_def)

lemma grows_trans: "grows env a b \<Longrightarrow> grows env b c \<Longrightarrow> grows env a c"
  unfolding grows_def by (smt (verit) subset_trans max.coboundedI1 max.coboundedI2 max_def)

lemma reasoned_trans: "reasoned a b \<Longrightarrow> reasoned b c \<Longrightarrow> reasoned a c"
  unfolding reasoned_def by blast

definition quiet :: "'s dagState \<Rightarrow> 's dagState \<Rightarrow> bool" where
  "quiet st st' \<longleftrightarrow> dg_done st' = dg_done st \<and> dg_stopScheduling st' = dg_stopScheduling st \<and> dg_attemptsUsed st' = dg_attemptsUsed st \<and>
     dg_failed st' = dg_failed st \<and> dg_waiting st' = dg_waiting st \<and> dg_budgetExceeded st' = dg_budgetExceeded st \<and>
     dg_externalCanceled st' = dg_externalCanceled st"

lemma quiet_moves: "quiet st st' \<Longrightarrow> grows env st st'" "quiet st st' \<Longrightarrow> reasoned st st'"
  by (auto simp: quiet_def grows_def reasoned_def stop_reason_def)

lemma still_trans: "quiet a b \<Longrightarrow> quiet b c \<Longrightarrow> quiet a c"
  by (simp add: quiet_def)

lemma quiet_simps [simp]:
  "quiet st (emit env now ty wfl node att p st)" "quiet st (saveRun env now st)" "quiet st (releaseSlot i st)"
  "quiet st (snd (saveNode env now ne st))"
  by (auto simp: quiet_def emit_def saveRun_def release_book saveNode_def split: prod.split)

lemma quiet_acquire: "acquireSlot env now node st = (ok, st') \<Longrightarrow> quiet st st'"
  by (auto simp: acquireSlot_def Let_def emit_def quiet_def split: if_splits prod.splits bool.splits)

lemma trigger_moves:
  "grows env st (triggerBudgetExceeded env now p st)" "reasoned st (triggerBudgetExceeded env now p st)"
  by (auto simp: triggerBudgetExceeded_def Let_def emit_def saveRun_def grows_def reasoned_def stop_reason_def)

lemma cancel_moves:
  "grows env st (st\<lparr>dg_externalCanceled := True, dg_stopScheduling := True, dg_ctxDone := True\<rparr>)"
  "reasoned st (st\<lparr>dg_externalCanceled := True, dg_stopScheduling := True, dg_ctxDone := True\<rparr>)"
  by (auto simp: grows_def reasoned_def stop_reason_def)

lemmas trigger_cancel = grows_trans [OF trigger_moves(1) cancel_moves(1)] reasoned_trans [OF trigger_moves(2) cancel_moves(2)]

lemma loopHead_moves: "grows env st (loopHead env now st)" "reasoned st (loopHead env now st)"
  by (auto simp: loopHead_def Let_def trigger_moves cancel_moves trigger_cancel split: option.split)

lemma save_quiet: "quiet st (saveRun env now (st\<lparr>dg_run := r\<rparr>))"
  by (simp add: quiet_def saveRun_def)

lemmas save_trigger = grows_trans [OF quiet_moves(1) [OF save_quiet] trigger_moves(1)]
  reasoned_trans [OF quiet_moves(2) [OF save_quiet] trigger_moves(2)]

lemma usage_moves: "grows env st (handleUsage env now tk dl st)" "reasoned st (handleUsage env now tk dl st)"
  by (auto simp: handleUsage_def Let_def save_trigger quiet_moves [OF save_quiet])

section \<open>Scheduling moves\<close>

lemma nodeDone_book:
  "dg_done (nodeDone env i st) = dg_done st" "dg_stopScheduling (nodeDone env i st) = dg_stopScheduling st"
  "dg_attemptsUsed (nodeDone env i st) = dg_attemptsUsed st" "dg_failed (nodeDone env i st) = dg_failed st"
  "dg_waiting (nodeDone env i st) = dg_waiting st" "dg_budgetExceeded (nodeDone env i st) = dg_budgetExceeded st"
  "dg_externalCanceled (nodeDone env i st) = dg_externalCanceled st" "dg_running (nodeDone env i st) = dg_running st"
  by (simp_all add: nodeDone_def split: prod.split)

lemma quiet_saveNode: "saveNode env now ne st = (err, st') \<Longrightarrow> quiet st st'"
  by (auto simp: quiet_def saveNode_def split: prod.splits)

lemma replayNode_moves:
  assumes "replayNode env now i att input entry st = (c, st')"
  shows "grows env st st'" "reasoned st st'"
  using assms
  by (auto simp: replayNode_def Let_def grows_def reasoned_def stop_reason_def nodeDone_book emit_def nodeRecord_def
      dest!: saveNode_frame split: prod.splits option.splits sum.splits if_splits)

lemma startNode_moves:
  assumes "startNode env now i att input st = (c, st')"
  shows "grows env st st'" "reasoned st st'"
  using assms
  by (auto simp: startNode_def Let_def grows_def reasoned_def stop_reason_def release_book emit_def
      dest!: saveNode_frame split: prod.splits option.splits)

lemma dispatchNode_moves:
  assumes "dispatchNode env now i att input ho st = (c, st')"
  shows "grows env st st'" "reasoned st st'"
  using assms replayNode_moves [of env now i att input _ st c st'] startNode_moves [of env now i att input st c st']
  by (auto simp: dispatchNode_def humanWait_def humanResult_def saveRun_def grows_def reasoned_def stop_reason_def release_book
      split: humanOutcome.splits option.splits)

lemma placeNode_moves:
  assumes "placeNode env now node st = (c, st')"
    and "0 < bp_MaxAttempts (dv_effBudget env) \<Longrightarrow> dg_attemptsUsed st < bp_MaxAttempts (dv_effBudget env)"
  shows "grows env st st'" "reasoned st st'"
proof -
  let ?st1 = "countAttempt env now st"
  have base: "grows env st (?st1\<lparr>dg_maxAttempt := m, dg_store := s\<rparr>)" "reasoned st (?st1\<lparr>dg_maxAttempt := m, dg_store := s\<rparr>)"
    "grows env st (releaseSlot i ?st1)" "reasoned st (releaseSlot i ?st1)" for m s i
    using assms(2) by (auto simp: countAttempt_def saveRun_def grows_def reasoned_def stop_reason_def release_book)
  have disp: "grows env st st'" "reasoned st st'"
    if "dispatchNode env now i a j ho (?st1\<lparr>dg_maxAttempt := m, dg_store := s\<rparr>) = (c, st')" for i a j ho m s
    using grows_trans [OF base(1) dispatchNode_moves(1) [OF that]] reasoned_trans [OF base(2) dispatchNode_moves(2) [OF that]] .
  show "grows env st st'" "reasoned st st'"
    using assms(1) base(3,4) disp by (auto simp: placeNode_def Let_def split: if_splits prod.splits)
qed

lemma scheduleOne_moves:
  assumes "scheduleOne env now st = (c, st')" "\<not> dg_budgetExceeded st"
  shows "grows env st st'" "reasoned st st'"
proof -
  have pop: "quiet st (st\<lparr>dg_ready := r\<rparr>)" for r by (simp add: quiet_def)
  have "grows env st st' \<and> reasoned st st'"
  proof (cases "dg_ready st")
    case (Cons i rest)
    note p = quiet_moves [OF pop [of rest]]
    show ?thesis
    proof (cases "nodeByID (dv_graph env) i")
      case None
      then show ?thesis using assms(1) Cons p by (auto simp: scheduleOne_def Let_def)
    next
      case (Some node)
      obtain ok st1 where a: "acquireSlot env now node (st\<lparr>dg_ready := rest\<rparr>) = (ok, st1)" by (metis surj_pair)
      have q: "quiet st st1" using still_trans [OF pop quiet_acquire [OF a]] .
      let ?full = "0 < bp_MaxAttempts (dv_effBudget env) \<and> bp_MaxAttempts (dv_effBudget env) < dg_attemptsUsed st + 1"
      show ?thesis
      proof (cases ?full)
        case True
        then show ?thesis using assms Cons Some grows_trans [OF p(1) trigger_moves(1)] reasoned_trans [OF p(2) trigger_moves(2)]
          by (auto simp: scheduleOne_def Let_def)
      next
        case False
        then have room: "0 < bp_MaxAttempts (dv_effBudget env) \<Longrightarrow> dg_attemptsUsed st1 < bp_MaxAttempts (dv_effBudget env)"
          using q by (simp add: quiet_def)
        have "if ok then placeNode env now node st1 = (c, st') else st' = st1"
          using assms(1) Cons Some a False by (auto simp: scheduleOne_def Let_def split: if_splits)
        then show ?thesis
          using quiet_moves [OF q] grows_trans [OF quiet_moves(1) [OF q] placeNode_moves(1) [OF _ room]]
            reasoned_trans [OF quiet_moves(2) [OF q] placeNode_moves(2) [OF _ room]] by (cases ok) simp_all
      qed
    qed
  qed (use assms in \<open>simp add: scheduleOne_def\<close>)
  then show "grows env st st'" "reasoned st st'" by blast+
qed

lemma scheduleLoop_moves:
  assumes "env_ok env" "sched_inv env st" "scheduleLoop env now m k st = (err, st')"
  shows "grows env st st'" "reasoned st st'" "dg_stopScheduling st \<Longrightarrow> st' = st"
proof -
  have "grows env st st' \<and> reasoned st st' \<and> (dg_stopScheduling st \<longrightarrow> st' = st)"
    using assms
  proof (induction env now m k st rule: scheduleLoop.induct)
    case (1 env now m k st)
    show ?case
    proof (cases "dg_stopScheduling st \<or> \<not> dg_running st < dv_maxPar env \<or> dg_ready st = [] \<or> m \<le> k")
      case True
      with 1(5) have "st' = st" by (subst (asm) scheduleLoop.simps) auto
      then show ?thesis by simp
    next
      case go: False
      obtain c st1 where s: "scheduleOne env now st = (c, st1)" by (metis surj_pair)
      have "\<not> dg_budgetExceeded st" using 1(4) go by (auto simp: sched_inv_def)
      note mv = scheduleOne_moves [OF s this]
      have eq: "scheduleLoop env now m k st = (case c of SBreak \<Rightarrow> (None, st1) | SReturn err \<Rightarrow> (Some err, st1)
          | SSkip \<Rightarrow> scheduleLoop env now m (k + 1) st1 | SPlaced \<Rightarrow> scheduleLoop env now m 0 st1)"
        using go s by (subst scheduleLoop.simps) (auto split: schedCtl.splits)
      have inv: "sched_inv env st1" if "\<forall>err. c \<noteq> SReturn err" using scheduleOne_inv [OF 1(3,4) _ s that] go by simp
      show ?thesis
      proof (cases c)
        case SSkip
        then show ?thesis using 1(1) [OF go s [symmetric] SSkip 1(3)] inv 1(5) mv go unfolding eq
          by (auto intro: grows_trans reasoned_trans)
      next
        case SPlaced
        then show ?thesis using 1(2) [OF go s [symmetric] SPlaced 1(3)] inv 1(5) mv go unfolding eq
          by (auto intro: grows_trans reasoned_trans)
      qed (use 1(5) mv go in \<open>auto simp: eq\<close>)
    qed
  qed
  then show "grows env st st'" "reasoned st st'" "dg_stopScheduling st \<Longrightarrow> st' = st" by blast+
qed

section \<open>Result moves\<close>

lemma landed_quiet:
  "quiet st (releaseSlot i (st\<lparr>dg_running := r, dg_inflight := fl\<rparr>))"
  by (simp add: quiet_def release_book)

lemma resultOk_moves:
  assumes "resultOk env now res st = DagOn st'"
  shows "grows env st st'" "reasoned st st'" "nr_nodeID res \<in> dom (mget (dg_done st'))" "dg_running st' = dg_running st"
  using assms
  by (auto simp: resultOk_def Let_def grows_def reasoned_def stop_reason_def nodeDone_book emit_def nodeRecord_def
      dest!: saveNode_frame split: prod.splits option.splits sum.splits if_splits)

lemma resultOther_moves:
  shows "grows env st (resultDelay env now res d st)" "reasoned st (resultDelay env now res d st)"
    "dg_stopScheduling (resultDelay env now res d st)" "dg_running (resultDelay env now res d st) = dg_running st"
    "grows env st (resultFailed env now res msg st)" "reasoned st (resultFailed env now res msg st)"
    "dg_stopScheduling (resultFailed env now res msg st)" "dg_running (resultFailed env now res msg st) = dg_running st"
    "quiet st (resultCanceled env now res err st)" "dg_running (resultCanceled env now res err st) = dg_running st"
proof -
  show "quiet st (resultCanceled env now res err st)" "dg_running (resultCanceled env now res err st) = dg_running st"
    using resultCanceled_store [of env now res err st] by (auto simp: quiet_def)
  have s: "dg_done (snd (saveNode env now ne st)) = dg_done st" "dg_attemptsUsed (snd (saveNode env now ne st)) = dg_attemptsUsed st"
    "dg_running (snd (saveNode env now ne st)) = dg_running st" for ne
    by (simp_all add: saveNode_def split: prod.split)
  show "grows env st (resultDelay env now res d st)" "reasoned st (resultDelay env now res d st)"
    "dg_stopScheduling (resultDelay env now res d st)" "dg_running (resultDelay env now res d st) = dg_running st"
    by (simp_all add: resultDelay_def Let_def emit_def saveRun_def grows_def reasoned_def stop_reason_def s)
  show "grows env st (resultFailed env now res msg st)" "reasoned st (resultFailed env now res msg st)"
    "dg_stopScheduling (resultFailed env now res msg st)" "dg_running (resultFailed env now res msg st) = dg_running st"
    by (simp_all add: resultFailed_def Let_def emit_def saveRun_def grows_def reasoned_def stop_reason_def s)
qed

text \<open>A handled result takes one node out of flight, and either finishes it or leaves scheduling
  stopped.\<close>

lemma handleResult_moves:
  assumes inv: "sched_inv env st" and fl: "from_flight st res" and h: "handleResult env now res st = DagOn st'"
  shows "grows env st st'" "dg_running st' = dg_running st - 1"
    "dg_stopScheduling st' \<or> nr_nodeID res \<in> set (node_ids (dv_graph env)) \<inter> dom (mget (dg_done st')) - dom (mget (dg_done st))"
    "\<not> isCanceled env st \<longrightarrow> reasoned st st'"
proof -
  let ?st0 = "st\<lparr>dg_running := dg_running st - 1, dg_inflight := dropInflight res (dg_inflight st)\<rparr>"
  let ?st = "releaseSlot (nr_nodeID res) ?st0"
  have q: "quiet st ?st" by (rule landed_quiet)
  have run: "dg_running ?st = dg_running st - 1" by (simp add: release_book)
  have can: "isCanceled env ?st \<longleftrightarrow> isCanceled env st" by (simp add: isCanceled_def release_book)
  have "set (flying st) \<subseteq> set (node_ids (dv_graph env)) - dom (mget (dg_done st))" using inv by (auto simp: sched_inv_def core_inv_def)
  moreover have "nr_nodeID res \<in> set (flying st)" using fl by (auto simp: from_flight_def list_ex_iff intro: rev_image_eqI)
  ultimately have new: "nr_nodeID res \<notin> dom (mget (dg_done st))" "nr_nodeID res \<in> set (node_ids (dv_graph env))" by blast+
  have bs: "dg_budgetExceeded ?st \<or> dg_externalCanceled ?st \<Longrightarrow> dg_stopScheduling ?st"
    using inv q by (auto simp: sched_inv_def quiet_def)
  have d: "dg_done ?st = dg_done st" by (simp add: release_book)
  have stp: "quiet a b \<Longrightarrow> grows env a (b\<lparr>dg_stopScheduling := True\<rparr>)" for a b :: "'b dagState"
    by (auto simp: quiet_def grows_def)
  have rs: "quiet a b \<Longrightarrow> dg_stopScheduling a \<Longrightarrow> reasoned a (b\<lparr>dg_stopScheduling := True\<rparr>)" for a b :: "'b dagState"
    by (auto simp: quiet_def reasoned_def stop_reason_def)
  have "grows env ?st st' \<and> dg_running st' = dg_running ?st \<and> (dg_stopScheduling st' \<or> nr_nodeID res \<in> dom (mget (dg_done st')))
      \<and> (\<not> isCanceled env ?st \<longrightarrow> reasoned ?st st')"
  proof (cases "dg_budgetExceeded ?st")
    case True
    then have "st' = resultCanceled env now res ''budget_exceeded'' ?st" using h by (auto simp: handleResult_def Let_def)
    moreover have c: "quiet ?st (resultCanceled env now res ''budget_exceeded'' ?st)" by (rule resultOther_moves(9))
    moreover have "dg_stopScheduling (resultCanceled env now res ''budget_exceeded'' ?st)" using c bs True by (simp add: quiet_def)
    ultimately show ?thesis using quiet_moves [OF c] by (simp add: resultOther_moves(10))
  next
    case nb: False
    show ?thesis
    proof (cases "dg_externalCanceled ?st \<or> isCanceled env ?st")
      case True
      then have "st' = (resultCanceled env now res '''' ?st)\<lparr>dg_stopScheduling := True\<rparr>" using h nb by (auto simp: handleResult_def Let_def)
      then show ?thesis using True bs stp [OF resultOther_moves(9)] rs [OF resultOther_moves(9)] by (auto simp: resultOther_moves(10))
    next
      case False
      show ?thesis
      proof (cases "nr_err res")
        case None
        then have "resultOk env now res ?st = DagOn st'" using h nb False by (auto simp: handleResult_def Let_def)
        from resultOk_moves [OF this] show ?thesis by simp
      next
        case (Some e)
        then show ?thesis using h nb False
          by (cases e) (auto simp: handleResult_def Let_def resultOther_moves(1-8))
      qed
    qed
  qed
  then have m: "grows env ?st st'" "dg_running st' = dg_running ?st" "dg_stopScheduling st' \<or> nr_nodeID res \<in> dom (mget (dg_done st'))"
    "\<not> isCanceled env ?st \<longrightarrow> reasoned ?st st'" by blast+
  show "grows env st st'" by (rule grows_trans [OF quiet_moves(1) [OF q] m(1)])
  show "dg_running st' = dg_running st - 1" using m(2) run by simp
  show "\<not> isCanceled env st \<longrightarrow> reasoned st st'" using reasoned_trans [OF quiet_moves(2) [OF q]] m(4) can by blast
  show "dg_stopScheduling st' \<or> nr_nodeID res \<in> set (node_ids (dv_graph env)) \<inter> dom (mget (dg_done st')) - dom (mget (dg_done st))"
    using m(3) new by blast
qed

section \<open>Turns\<close>

definition others :: "'s dagTurn \<Rightarrow> 's dagState \<Rightarrow> 's dagState" where
  "others tn st = st\<lparr>dg_store := tn_store tn (dg_store st), dg_throttle := tn_throttle tn (dg_throttle st)\<rparr>"

definition afterStarts :: "('f, 's) dagEnv \<Rightarrow> 's dagTurn \<Rightarrow> 's dagState \<Rightarrow> engineError option \<times> 's dagState" where
  "afterStarts env tn st =
     (let st1 = loopHead env (tn_now tn) (others tn st) in scheduleLoop env (tn_now tn) (length (dg_ready st1)) 0 st1)"

lemma dagIter_starts:
  "dagIter env tn st = (case afterStarts env tn st of
     (Some err, st2) \<Rightarrow> StepReturn err st2
   | (None, st2) \<Rightarrow>
       if dg_running st2 = 0 then
         (if dg_stopScheduling st2 then StepExit st2
          else if dg_ready st2 \<noteq> [] \<and> tn_event tn = EvDone then StepOn (noteDone env st2)
          else StepOn st2)
       else dagSelect env (tn_now tn) (tn_event tn) st2)"
  by (simp add: dagIter_def afterStarts_def others_def Let_def)

lemma turn_ok_starts:
  "turn_ok env tn st \<longleftrightarrow> (case tn_event tn of
     EvResult res \<Rightarrow> (case afterStarts env tn st of (None, st2) \<Rightarrow> dg_running st2 = 0 \<or> from_flight st2 res | _ \<Rightarrow> True)
   | _ \<Rightarrow> True)"
  unfolding turn_ok_def afterStarts_def others_def Let_def by (rule refl)

lemma afterStarts_moves:
  assumes "env_ok env" "sched_inv env st" "afterStarts env tn st = (None, st2)"
  shows "grows env st st2" "reasoned st st2" "sched_inv env st2" "dg_stopScheduling st \<Longrightarrow> dg_running st2 = dg_running st"
proof -
  let ?st1 = "loopHead env (tn_now tn) (others tn st)"
  have s: "scheduleLoop env (tn_now tn) (length (dg_ready ?st1)) 0 ?st1 = (None, st2)" using assms(3) by (simp add: afterStarts_def Let_def)
  have o: "quiet st (others tn st)" "same_book st (others tn st)" by (simp_all add: others_def quiet_def same_book_def)
  then have inv1: "sched_inv env ?st1" using assms(2) same_book_inv(1) loopHead_inv by blast
  note l = scheduleLoop_moves [OF assms(1) inv1 s]
  note h = grows_trans [OF quiet_moves(1) [OF o(1)] loopHead_moves(1)] reasoned_trans [OF quiet_moves(2) [OF o(1)] loopHead_moves(2)]
  show "grows env st st2" by (rule grows_trans [OF h(1) l(1)])
  show "reasoned st st2" by (rule reasoned_trans [OF h(2) l(2)])
  show "sched_inv env st2" by (rule scheduleLoop_inv [OF assms(1) inv1 s])
  have "dg_running ?st1 = dg_running st"
    by (auto simp: loopHead_def triggerBudgetExceeded_def others_def Let_def emit_def saveRun_def split: option.split)
  then show "dg_running st2 = dg_running st" if "dg_stopScheduling st"
    using that l(3) h(1) [of env "tn_now tn"] by (simp add: grows_def)
qed

lemma noteDone_moves: "grows env st (noteDone env st)" "dg_running (noteDone env st) = dg_running st"
  by (auto simp: noteDone_def grows_def)

lemma usage_running: "dg_running (handleUsage env now tk dl st) = dg_running st"
  by (simp add: handleUsage_def triggerBudgetExceeded_def Let_def emit_def saveRun_def)

lemma dagIter_moves:
  assumes "env_ok env" "sched_inv env st" "turn_ok env tn st" "dagIter env tn st = StepOn st' \<or> dagIter env tn st = StepExit st'"
  shows "grows env st st'"
proof -
  obtain st2 where a: "afterStarts env tn st = (None, st2)"
    using assms(4) by (cases "afterStarts env tn st") (auto simp: dagIter_starts split: option.splits)
  note m = afterStarts_moves [OF assms(1,2) a]
  have "grows env st2 st'"
  proof (cases "dg_running st2 = 0")
    case True
    then show ?thesis using assms(4) a noteDone_moves(1) by (auto simp: dagIter_starts split: if_splits)
  next
    case False
    then have "dagSelect env (tn_now tn) (tn_event tn) st2 = StepOn st' \<or> dagSelect env (tn_now tn) (tn_event tn) st2 = StepExit st'"
      using assms(4) a by (auto simp: dagIter_starts)
    moreover have "from_flight st2 res" if "tn_event tn = EvResult res" for res
      using assms(3) a False that by (simp add: turn_ok_starts)
    ultimately show ?thesis using noteDone_moves(1) usage_moves(1) handleResult_moves(1) [OF m(3)]
      by (cases "tn_event tn") (auto simp: dagSelect_def split: dagOut.splits)
  qed
  with m(1) show ?thesis by (rule grows_trans)
qed

text \<open>In any finite run of the loop the bookkeeping only grows.\<close>

lemma dagLoop_moves:
  assumes "env_ok env" "sched_inv env st" "turns_ok env turns st" "dagLoop env turns st = EndExit st' \<or> dagLoop env turns st = EndBusy st'"
  shows "grows env st st'"
  using assms(2-4)
proof (induction turns arbitrary: st)
  case Nil
  then show ?case by (subst (asm) (1 2) dagLoop.simps) (auto split: if_splits)
next
  case (Cons tn rest)
  show ?case
  proof (cases "dg_ready st = [] \<and> dg_running st \<le> 0")
    case True
    then show ?thesis using Cons.prems by (subst (asm) (1 2) dagLoop.simps) auto
  next
    case go: False
    then have ok: "turn_ok env tn st" "\<And>st1. dagIter env tn st = StepOn st1 \<Longrightarrow> turns_ok env rest st1" using Cons.prems(2) by auto
    note mv = dagIter_moves [OF assms(1) Cons.prems(1) ok(1)] and inv = dagIter_inv [OF assms(1) Cons.prems(1) ok(1)]
    show ?thesis
    proof (cases "dagIter env tn st")
      case (StepOn st1)
      then have "grows env st1 st'" using Cons.IH [OF inv ok(2)] dagLoop_turn [OF go, of env tn rest] Cons.prems(3) by simp
      then show ?thesis using mv [of st1] StepOn by (auto intro: grows_trans)
    qed (use mv Cons.prems(3) dagLoop_turn [OF go, of env tn rest] in auto)
  qed
qed

lemma dagLoop_exit:
  assumes "env_ok env" "sched_inv env st" "turns_ok env turns st" "dagLoop env turns st = EndExit st'"
  shows "dg_inflight st' = []" "dg_ready st' = [] \<or> dg_stopScheduling st'"
proof -
  have "dg_running st' \<le> 0 \<and> (dg_ready st' = [] \<or> dg_stopScheduling st')"
    using assms(4)
  proof (induction turns arbitrary: st)
    case Nil
    then show ?case by (subst (asm) dagLoop.simps) (auto split: if_splits)
  next
    case (Cons tn rest)
    show ?case
    proof (cases "dg_ready st = [] \<and> dg_running st \<le> 0")
      case True
      then show ?thesis using Cons.prems by (subst (asm) dagLoop.simps) auto
    next
      case go: False
      show ?thesis
      proof (cases "dagIter env tn st")
        case (StepExit st1)
        then show ?thesis using Cons.prems dagLoop_turn [OF go, of env tn rest]
          by (auto simp: dagIter_starts dagSelect_def split: prod.splits option.splits if_splits dagEvent.splits dagOut.splits)
      qed (use Cons dagLoop_turn [OF go, of env tn rest] in auto)
    qed
  qed
  moreover have "sched_inv env st'" using dagLoop_inv [OF assms(1-3)] assms(4) by blast
  ultimately show "dg_inflight st' = []" "dg_ready st' = [] \<or> dg_stopScheduling st'" by (auto simp: sched_inv_def)
qed

lemma core_inv_all_done:
  assumes "graph_ok g" "core_inv g D deg [] [] False"
  shows "set (node_ids g) \<subseteq> D"
proof (rule ccontr)
  let ?E = "edge_rel (wg_Edges g)" and ?R = "set (node_ids g) - D"
  assume "\<not> set (node_ids g) \<subseteq> D"
  then have "?R \<noteq> {}" by auto
  moreover have "wf ?E" using assms(1) by (simp add: graph_ok_def finite_acyclic_wf finite_edge_rel)
  ultimately obtain x where x: "x \<in> ?R" "\<And>y. (y, x) \<in> ?E \<Longrightarrow> y \<notin> ?R" by (metis wfE_min')
  then have "open_deg (wg_Edges g) D x \<noteq> 0" using assms(2) unfolding core_inv_def by auto
  then obtain e where e: "e \<in> set (wg_Edges g)" "ed_To e = x" "ed_From e \<notin> D" by (auto simp: open_deg_def filter_empty_conv)
  then have "(ed_From e, x) \<in> ?E" by (auto simp: edge_rel_def)
  with x(2) e(3) assms(1) show False by (auto simp: graph_ok_def)
qed

lemma exit_complete:
  assumes "graph_ok (dv_graph env)" "sched_inv env st" "dg_inflight st = []" "dg_ready st = []" "\<not> dg_stopScheduling st"
  shows "set (node_ids (dv_graph env)) \<subseteq> dom (mget (dg_done st))"
  by (rule core_inv_all_done [OF assms(1), of _ "dg_inDegree st"]) (use assms(2-5) in \<open>simp add: sched_inv_def\<close>)

section \<open>When the run is neither canceled nor cut off\<close>

fun calm_turns :: "('f, 's) dagEnv \<Rightarrow> 's dagTurn list \<Rightarrow> 's dagState \<Rightarrow> bool" where
  "calm_turns env [] st \<longleftrightarrow> True"
| "calm_turns env (tn # rest) st \<longleftrightarrow>
     dg_ready st = [] \<and> dg_running st \<le> 0 \<or>
     tn_event tn \<noteq> EvDone \<and> (case afterStarts env tn st of (None, st2) \<Rightarrow> \<not> isCanceled env st2 | _ \<Rightarrow> True) \<and>
     (case dagIter env tn st of StepOn st1 \<Rightarrow> calm_turns env rest st1 | _ \<Rightarrow> True)"

lemma dagIter_reasoned:
  assumes "env_ok env" "sched_inv env st" "turn_ok env tn st" "tn_event tn \<noteq> EvDone"
    and "case afterStarts env tn st of (None, st2) \<Rightarrow> \<not> isCanceled env st2 | _ \<Rightarrow> True"
    and "dagIter env tn st = StepOn st' \<or> dagIter env tn st = StepExit st'"
  shows "reasoned st st'"
proof -
  obtain st2 where a: "afterStarts env tn st = (None, st2)"
    using assms(6) by (cases "afterStarts env tn st") (auto simp: dagIter_starts split: option.splits)
  note m = afterStarts_moves [OF assms(1,2) a]
  have "reasoned st2 st'"
  proof (cases "dg_running st2 = 0")
    case True
    then show ?thesis using assms(4,6) a by (auto simp: dagIter_starts split: if_splits)
  next
    case False
    then have "dagSelect env (tn_now tn) (tn_event tn) st2 = StepOn st' \<or> dagSelect env (tn_now tn) (tn_event tn) st2 = StepExit st'"
      using assms(6) a by (auto simp: dagIter_starts)
    moreover have "from_flight st2 res" if "tn_event tn = EvResult res" for res
      using assms(3) a False that by (simp add: turn_ok_starts)
    ultimately show ?thesis using assms(4,5) a usage_moves(2) handleResult_moves(4) [OF m(3)]
      by (cases "tn_event tn") (auto simp: dagSelect_def split: dagOut.splits)
  qed
  with m(2) show ?thesis by (rule reasoned_trans)
qed

lemma dagLoop_reasoned:
  assumes "env_ok env" "sched_inv env st" "turns_ok env turns st" "calm_turns env turns st" "dagLoop env turns st = EndExit st'"
  shows "reasoned st st'"
  using assms(2-5)
proof (induction turns arbitrary: st)
  case Nil
  then show ?case by (subst (asm) dagLoop.simps) (auto split: if_splits)
next
  case (Cons tn rest)
  show ?case
  proof (cases "dg_ready st = [] \<and> dg_running st \<le> 0")
    case True
    then show ?thesis using Cons.prems by (subst (asm) dagLoop.simps) auto
  next
    case go: False
    then have ok: "turn_ok env tn st" "\<And>st1. dagIter env tn st = StepOn st1 \<Longrightarrow> turns_ok env rest st1"
      and calm: "tn_event tn \<noteq> EvDone" "case afterStarts env tn st of (None, st2) \<Rightarrow> \<not> isCanceled env st2 | _ \<Rightarrow> True"
        "\<And>st1. dagIter env tn st = StepOn st1 \<Longrightarrow> calm_turns env rest st1"
      using Cons.prems(2,3) by auto
    note mv = dagIter_reasoned [OF assms(1) Cons.prems(1) ok(1) calm(1,2)] and inv = dagIter_inv [OF assms(1) Cons.prems(1) ok(1)]
    show ?thesis
    proof (cases "dagIter env tn st")
      case (StepOn st1)
      then have "reasoned st1 st'" using Cons.IH [OF inv ok(2) calm(3)] dagLoop_turn [OF go, of env tn rest] Cons.prems(4) by simp
      then show ?thesis using mv [of st1] StepOn by (auto intro: reasoned_trans)
    qed (use mv Cons.prems(4) dagLoop_turn [OF go, of env tn rest] in auto)
  qed
qed

section \<open>Progress\<close>

text \<open>\<open>delivers\<close>: every turn brings the result of a node in flight, and never are all ready nodes held
  back by caps with nothing in flight.\<close>

definition delivers1 :: "('f, 's) dagEnv \<Rightarrow> 's dagTurn \<Rightarrow> 's dagState \<Rightarrow> bool" where
  "delivers1 env tn st \<longleftrightarrow>
     (case afterStarts env tn st of
        (Some err, st2) \<Rightarrow> True
      | (None, st2) \<Rightarrow>
          if dg_running st2 = 0 then dg_stopScheduling st2 \<or> dg_ready st2 = []
          else case tn_event tn of EvResult res \<Rightarrow> from_flight st2 res | _ \<Rightarrow> False)"

fun delivers :: "('f, 's) dagEnv \<Rightarrow> 's dagTurn list \<Rightarrow> 's dagState \<Rightarrow> bool" where
  "delivers env [] st \<longleftrightarrow> True"
| "delivers env (tn # rest) st \<longleftrightarrow>
     dg_ready st = [] \<and> dg_running st \<le> 0 \<or>
     delivers1 env tn st \<and> (case dagIter env tn st of StepOn st1 \<Rightarrow> delivers env rest st1 | _ \<Rightarrow> True)"

definition left_to_do :: "('f, 's) dagEnv \<Rightarrow> 's dagState \<Rightarrow> nat" where
  "left_to_do env st =
     (if dg_stopScheduling st then nat (dg_running st) else card (set (node_ids (dv_graph env)) - dom (mget (dg_done st))))"

lemma delivers_turn_ok: "delivers1 env tn st \<Longrightarrow> turn_ok env tn st"
  by (auto simp: delivers1_def turn_ok_starts split: prod.splits option.splits dagEvent.splits if_splits)

lemma flying_bound:
  assumes "sched_inv env st"
  shows "nat (dg_running st) \<le> card (set (node_ids (dv_graph env)) - dom (mget (dg_done st)))"
    "dg_ready st \<noteq> [] \<or> 0 < dg_running st \<Longrightarrow> 0 < card (set (node_ids (dv_graph env)) - dom (mget (dg_done st)))"
proof -
  let ?R = "set (node_ids (dv_graph env)) - dom (mget (dg_done st))"
  have c: "distinct (flying st)" "set (flying st) \<subseteq> ?R" "set (dg_ready st) \<subseteq> ?R" "dg_running st = int (length (dg_inflight st))"
    using assms by (auto simp: sched_inv_def core_inv_def)
  then show "nat (dg_running st) \<le> card ?R" using card_mono [OF _ c(2)] distinct_card [OF c(1)] by simp
  show "0 < card ?R" if "dg_ready st \<noteq> [] \<or> 0 < dg_running st"
  proof -
    have "set (dg_ready st) \<noteq> {} \<or> set (flying st) \<noteq> {}" using that c(4) by auto
    then have "?R \<noteq> {}" using c(2,3) by (metis subset_empty)
    then show ?thesis by (simp only: card_gt_0_iff) simp
  qed
qed

lemma left_mono:
  assumes "grows env st st'" "sched_inv env st'" "dg_stopScheduling st \<Longrightarrow> dg_running st' \<le> dg_running st"
  shows "left_to_do env st' \<le> left_to_do env st"
proof -
  let ?R = "\<lambda>st. set (node_ids (dv_graph env)) - dom (mget (dg_done st))"
  have "card (?R st') \<le> card (?R st)" using assms(1) by (intro card_mono) (auto simp: grows_def)
  then show ?thesis using flying_bound(1) [OF assms(2)] assms(1,3) by (auto simp: left_to_do_def grows_def)
qed

lemma result_progress:
  assumes "env_ok env" "sched_inv env st" "from_flight st res" "handleResult env now res st = DagOn st'"
  shows "left_to_do env st' < left_to_do env st"
proof -
  let ?R = "\<lambda>st. set (node_ids (dv_graph env)) - dom (mget (dg_done st))"
  note m = handleResult_moves [OF assms(2-4)]
  have inv': "sched_inv env st'" by (rule handleResult_inv [OF assms])
  have pos: "0 < dg_running st" using inv' m(2) by (auto simp: sched_inv_def)
  have fin: "finite (?R st)" by simp
  show ?thesis
  proof (cases "dg_stopScheduling st'")
    case True
    then show ?thesis using flying_bound(1) [OF assms(2)] m(2) pos by (auto simp: left_to_do_def)
  next
    case False
    then have "nr_nodeID res \<in> set (node_ids (dv_graph env)) \<inter> dom (mget (dg_done st')) - dom (mget (dg_done st))" using m(3) by blast
    moreover have "dom (mget (dg_done st)) \<subseteq> dom (mget (dg_done st'))" "\<not> dg_stopScheduling st"
      using m(1) False unfolding grows_def by blast+
    ultimately have "?R st' \<subset> ?R st" by blast
    then show ?thesis using False \<open>\<not> dg_stopScheduling st\<close> psubset_card_mono [OF fin] unfolding left_to_do_def by simp
  qed
qed

lemma dagIter_progress:
  assumes "env_ok env" "sched_inv env st" "\<not> (dg_ready st = [] \<and> dg_running st \<le> 0)" "delivers1 env tn st" "dagIter env tn st = StepOn st'"
  shows "left_to_do env st' < left_to_do env st"
proof -
  obtain st2 where a: "afterStarts env tn st = (None, st2)"
    using assms(5) by (cases "afterStarts env tn st") (auto simp: dagIter_starts split: option.splits)
  note m = afterStarts_moves [OF assms(1,2) a]
  have le: "left_to_do env st2 \<le> left_to_do env st" using left_mono [OF m(1,3)] m(4) by simp
  show ?thesis
  proof (cases "dg_running st2 = 0")
    case True
    then have r: "st' = st2" "\<not> dg_stopScheduling st2" "dg_ready st2 = []"
      using assms(4,5) a by (auto simp: dagIter_starts delivers1_def split: if_splits)
    moreover have "dg_inflight st2 = []" using True m(3) by (simp add: sched_inv_def)
    ultimately have "set (node_ids (dv_graph env)) \<subseteq> dom (mget (dg_done st2))"
      using exit_complete [of env st2] assms(1) m(3) by (simp add: env_ok_def)
    then have "left_to_do env st' = 0" using r by (simp add: left_to_do_def Diff_eq_empty_iff [THEN iffD2])
    moreover have "\<not> dg_stopScheduling st" using m(1) r(2) by (auto simp: grows_def)
    ultimately show ?thesis using flying_bound(2) [OF assms(2)] assms(3) by (auto simp: left_to_do_def)
  next
    case False
    then obtain res where res: "tn_event tn = EvResult res" "from_flight st2 res"
      using assms(4) a by (auto simp: delivers1_def split: dagEvent.splits)
    then have "handleResult env (tn_now tn) res st2 = DagOn st'"
      using assms(5) a False by (auto simp: dagIter_starts dagSelect_def split: dagOut.splits)
    from result_progress [OF assms(1) m(3) res(2) this] le show ?thesis by simp
  qed
qed

lemma dagLoop_ends:
  assumes "env_ok env" "sched_inv env st" "delivers env turns st" "left_to_do env st < length turns"
  shows "dagLoop env turns st \<noteq> EndBusy st'"
  using assms(2-4)
proof (induction turns arbitrary: st)
  case (Cons tn rest)
  show ?case
  proof (cases "dg_ready st = [] \<and> dg_running st \<le> 0")
    case True
    then show ?thesis by (subst dagLoop.simps) simp
  next
    case go: False
    then have d: "delivers1 env tn st" "\<And>st1. dagIter env tn st = StepOn st1 \<Longrightarrow> delivers env rest st1" using Cons.prems(2) by auto
    show ?thesis
    proof (cases "dagIter env tn st")
      case (StepOn st1)
      have "left_to_do env st1 < length rest"
        using dagIter_progress [OF assms(1) Cons.prems(1) go d(1) StepOn] Cons.prems(3) by simp
      moreover have "sched_inv env st1" using dagIter_inv [OF assms(1) Cons.prems(1) delivers_turn_ok [OF d(1)]] StepOn by blast
      ultimately show ?thesis using Cons.IH [OF _ d(2) [OF StepOn]] StepOn dagLoop_turn [OF go, of env tn rest] by simp
    qed (use dagLoop_turn [OF go, of env tn rest] in auto)
  qed
qed simp

section \<open>What a run guarantees\<close>

lemma flying_parents:
  assumes "sched_inv env st" "i \<in> set (flying st)"
  shows "i \<in> set (node_ids (dv_graph env))" "mget (dg_done st) i = None"
    "p \<in> set (parentsOf (wg_Edges (dv_graph env)) i) \<Longrightarrow> mget (dg_done st) p \<noteq> None"
proof -
  have core: "core_inv (dv_graph env) (dom (mget (dg_done st))) (dg_inDegree st) (dg_ready st) (flying st) (dg_stopScheduling st)"
    using assms(1) by (simp add: sched_inv_def)
  then have "set (flying st) \<subseteq> set (node_ids (dv_graph env)) - dom (mget (dg_done st))" by (auto simp: core_inv_def)
  then show "i \<in> set (node_ids (dv_graph env))" "mget (dg_done st) i = None" using assms(2) by blast+
  show "mget (dg_done st) p \<noteq> None" if "p \<in> set (parentsOf (wg_Edges (dv_graph env)) i)"
    using core_inv_parents [OF core] assms(2) that by (fastforce simp: parentsOf_def)
qed


text \<open>C21. A run whose context is not ended by its caller and which nobody cancels is marked succeeded
  only when every node of the graph has succeeded: when the scheduler returns without an error,
  either the run is waiting, or it is succeeded and each node has a succeeded execution.\<close>

theorem dag_success_complete:
  assumes "dagStart cfg gates now runID reqTenant g input spec cache th s = StartLoop env st0"
    and "human_ok cfg" "turns_ok env turns st0" "calm_turns env turns st0"
    and "dagLoop env turns st0 = EndExit st" "dagFinish env endTime st = (None, st')"
  shows "(dg_waiting st \<or> run_Status (dg_run st) = RunStatusWaiting) \<and> st' = st \<or>
    run_Status (dg_run st') = RunStatusSucceeded \<and>
    (\<forall>i \<in> set (node_ids g). \<exists>ne. mget (dg_done st') i = Some ne \<and> ne_Status ne = NodeStatusSucceeded)"
proof (cases "dg_waiting st \<or> run_Status (dg_run st) = RunStatusWaiting")
  case True
  then show ?thesis using assms(6) by (auto simp: dagFinish_def split: if_splits)
next
  case False
  note start = dagStart_inv [OF assms(1)]
  note ok = start(2) [OF assms(2)]
  have flags: "\<not> dg_failed st" "\<not> dg_externalCanceled st" "\<not> dg_budgetExceeded st"
    and fin: "run_Status (dg_run st') = RunStatusSucceeded" "dg_done st' = dg_done st"
    using assms(6) False by (auto simp: dagFinish_def Let_def emit_def split: if_splits prod.splits option.splits)
  have "reasoned st0 st" by (rule dagLoop_reasoned [OF ok start(1) assms(3-5)])
  then have "\<not> dg_stopScheduling st" using start(5) flags False by (auto simp: reasoned_def stop_reason_def)
  moreover have inv: "sched_inv env st" using dagLoop_inv [OF ok start(1) assms(3)] assms(5) by blast
  ultimately have "set (node_ids g) \<subseteq> dom (mget (dg_done st))"
    using exit_complete [OF _ inv] dagLoop_exit [OF ok start(1) assms(3,5)] ok start(3) by (simp add: env_ok_def)
  moreover have "ne_Status ne = NodeStatusSucceeded" if "mget (dg_done st) i = Some ne" for i ne
    using dagLoop_moves [OF ok start(1) assms(3), of st] assms(5) start(9) that unfolding grows_def by blast
  ultimately show ?thesis using fin by fastforce
qed

text \<open>C22. Progress: when every turn of the loop brings the result of a node in flight, and the caps
  never hold back all ready nodes while nothing is in flight, the run is over after at most as
  many turns as the graph has nodes (and one): \<open>runDAGWithCache\<close> returns.\<close>

theorem dag_run_ends:
  assumes "human_ok cfg" "length (wg_Nodes g) < length turns"
    and "\<forall>env st. dagStart cfg gates now runID reqTenant g input spec cache th s = StartLoop env st \<longrightarrow> delivers env turns st"
  shows "runDAGWithCache cfg gates now runID reqTenant g input spec cache th turns endTime s \<noteq> None"
proof (cases "dagStart cfg gates now runID reqTenant g input spec cache th s")
  case (StartLoop env st)
  note start = dagStart_inv [OF StartLoop]
  have "card (set (node_ids g) - dom (mget (dg_done st))) \<le> length (wg_Nodes g)"
    by (rule le_trans [OF card_mono [OF finite_set Diff_subset]]) (metis card_length length_map)
  then have "left_to_do env st < length turns" using start(3,5) assms(2) by (simp add: left_to_do_def)
  then have "dagLoop env turns st \<noteq> EndBusy st'" for st' using dagLoop_ends [OF start(2) [OF assms(1)] start(1)] assms(3) StartLoop by blast
  then show ?thesis using StartLoop by (cases "dagLoop env turns st") (auto simp: runDAGWithCache_def split: prod.split)
qed (simp add: runDAGWithCache_def)

section \<open>A small run\<close>

definition two_nodes :: "nat workflowGraph" where
  "two_nodes = \<lparr>wg_ID = ''w'', wg_Nodes = [plainNode ''a'', plainNode ''b''], wg_Edges = [\<lparr>ed_From = ''a'', ed_To = ''b''\<rparr>], wg_TimeoutMS = 0\<rparr>"

definition small_cfg :: "(nat, memStore) runnerCfg" where
  "small_cfg = \<lparr>rn_ops = memOps, rn_maxParallel = 2, rn_defaultRunBudget = zeroBudget, rn_tenantBudgets = [],
     rn_human = (\<lambda>runID wfID node a j t s. (HumanNo, s)), rn_jsonLen = (\<lambda>j. 2), rn_inlineLimit = 100, rn_put = None,
     rn_capture = (\<lambda>runID s. s), rn_remember = (\<lambda>i g s. s)\<rparr>"

definition open_gates :: "memStore dagGates" where
  "open_gates = \<lparr>gt_authorize = (\<lambda>s. (None, s)), gt_risk = (\<lambda>s. (Inr JNull, s)), gt_access = (\<lambda>r s. (None, s)), gt_quota = (\<lambda>w s. (None, s))\<rparr>"

definition no_caps :: throttleState where
  "no_caps = \<lparr>th_topicCaps = [], th_tenantTopicCaps = [], th_inflightCaps = []\<rparr>"

definition turn :: "gotime \<Rightarrow> dagEvent \<Rightarrow> memStore dagTurn" where
  "turn t ev = \<lparr>tn_now = t, tn_store = (\<lambda>s. s), tn_throttle = (\<lambda>th. th), tn_event = ev\<rparr>"

definition small_result :: "string \<Rightarrow> gotime \<Rightarrow> json \<Rightarrow> nodeResult" where
  "small_result i t input = \<lparr>nr_nodeID = i, nr_attempt = 1, nr_started = t, nr_ended = t + 1, nr_input = input, nr_output = JInt 7, nr_err = None\<rparr>"

definition small_start :: "(nat, memStore) dagStarted" where
  "small_start = dagStart small_cfg open_gates 1 ''r'' '''' two_nodes JNull JNull None no_caps NewMemoryStore"

definition small_env :: "(nat, memStore) dagEnv" where
  "small_env = (case small_start of StartLoop env st \<Rightarrow> env)"

definition small_state :: "memStore dagState" where
  "small_state = (case small_start of StartLoop env st \<Rightarrow> st)"

definition small_turns :: "memStore dagTurn list" where
  "small_turns = [turn 2 (EvResult (small_result ''a'' 2 JNull)), turn 3 (EvResult (small_result ''b'' 3 (JObj [(''a'', JInt 7)]))), turn 4 EvTick]"

definition cut_turns :: "memStore dagTurn list" where
  "cut_turns = [turn 2 EvDone, turn 3 (EvResult (small_result ''a'' 2 JNull)), turn 4 EvTick]"

lemma small_human: "human_ok small_cfg"
  by (simp add: human_ok_def small_cfg_def)

lemma small_checks:
  "case small_start of StartStop err s \<Rightarrow> False | StartLoop env st \<Rightarrow> turns_ok env small_turns st"
  "case small_start of StartStop err s \<Rightarrow> False | StartLoop env st \<Rightarrow> calm_turns env small_turns st"
  "case small_start of StartStop err s \<Rightarrow> False | StartLoop env st \<Rightarrow> delivers env small_turns st"
  "case small_start of StartStop err s \<Rightarrow> False | StartLoop env st \<Rightarrow>
     (case dagLoop env small_turns st of
        EndExit st1 \<Rightarrow> fst (dagFinish env 9 st1) = None \<and> \<not> dg_waiting st1 \<and> run_Status (dg_run st1) = RunStatusRunning
      | _ \<Rightarrow> False)"
  by code_simp+

lemma small_eq: "small_start = StartLoop small_env small_state"
proof (cases small_start)
  case (StartStop err s)
  show ?thesis using small_checks(1) unfolding StartStop by simp
next
  case (StartLoop env st)
  show ?thesis unfolding small_env_def small_state_def StartLoop by simp
qed

lemmas small_checked = small_checks [unfolded small_eq dagStarted.case]

lemma small_starts: "dagStart small_cfg open_gates 1 ''r'' '''' two_nodes JNull JNull None no_caps NewMemoryStore = StartLoop small_env small_state"
  by (rule small_eq [unfolded small_start_def])

definition small_end :: "memStore dagState" where
  "small_end = (case dagLoop small_env small_turns small_state of EndExit st \<Rightarrow> st)"

lemma small_ends: "dagLoop small_env small_turns small_state = EndExit small_end"
proof (cases "dagLoop small_env small_turns small_state")
  case (EndExit st)
  show ?thesis unfolding small_end_def EndExit by simp
qed (use small_checked(4) in simp_all)

lemma small_finish:
  "dagFinish small_env 9 small_end = (None, snd (dagFinish small_env 9 small_end))" "\<not> dg_waiting small_end"
  "run_Status (dg_run small_end) = RunStatusRunning"
  using small_checked(4) [unfolded small_ends dagEnd.case] by (simp_all add: prod_eq_iff)


theorem dag_success_complete_witness:
  "run_Status (dg_run (snd (dagFinish small_env 9 small_end))) = RunStatusSucceeded \<and>
   list_all (\<lambda>i. mget (dg_done (snd (dagFinish small_env 9 small_end))) i \<noteq> None) (node_ids two_nodes)"
  using dag_success_complete [OF small_starts small_human small_checked(1,2) small_ends small_finish(1)] small_finish(2,3)
  by (force simp: list_all_iff)

theorem dag_run_ends_witness:
  "runDAGWithCache small_cfg open_gates 1 ''r'' '''' two_nodes JNull JNull None no_caps small_turns 9 NewMemoryStore \<noteq> None"
proof (rule dag_run_ends [OF small_human])
  show "length (wg_Nodes two_nodes) < length small_turns" by code_simp
  show "\<forall>env st. dagStart small_cfg open_gates 1 ''r'' '''' two_nodes JNull JNull None no_caps NewMemoryStore = StartLoop env st
      \<longrightarrow> delivers env small_turns st"
    unfolding small_starts dagStarted.inject using small_checked(3) by blast
qed


end
