(* ===== verification/Gates.thy ===== *)
theory Gates
  imports Risk HumanSafety DagOutcome
begin

text \<open>
  The checks at the start of a run with the policies in force (\<^verbatim>\<open>internal/engine/authz.go\<close>:
  \<open>SaveAuthorizationPolicy\<close>, \<open>GetAuthorizationPolicy\<close>, \<open>EvaluateWorkflowAuthorization\<close>,
  \<open>authorizeWorkflow\<close>; \<^verbatim>\<open>risk.go\<close>: \<open>SaveRiskPolicy\<close>, \<open>GetRiskPolicy\<close>, \<open>EvaluateWorkflowRisk\<close>,
  \<open>evaluateAndEnforceRisk\<close>), and the DAG runner with all of them plugged in.

  The engine's state is a pair: the runner's memory and the store.  \<open>liftOps\<close> are the store's
  methods on that pair, so that the DAG scheduler runs on it unchanged; \<open>engineGates\<close> and
  \<open>engineCfg\<close> supply its gates and its human step.  The scheduler passes \<open>maybeHandleHumanNode\<close> a
  context with the run's tenant, which by then equals the caller's.
\<close>

type_synonym ('f, 's) engine = "'f runnerMem \<times> 's"

section \<open>Policies in force\<close>

definition SaveAuthorizationPolicy ::
  "'s svcEnv \<Rightarrow> gotime \<Rightarrow> authorizationPolicyBundle \<Rightarrow> ('f, 's) engine \<Rightarrow> engineError option \<times> ('f, 's) engine" where
  "SaveAuthorizationPolicy env now bundle0 = (\<lambda>(m, s).
     case Bundle_NormalizeAndValidate bundle0 of
       Inl err \<Rightarrow> (Some err, (m, s))
     | Inr b \<Rightarrow>
         (let b1 = b\<lparr>ab_UpdatedAt := (case ab_UpdatedAt b of None \<Rightarrow> Some now | Some t \<Rightarrow> Some t)\<rparr> in
          case putJSONKV (sx_ops env) now ''authz/policy_bundle'' (DocPolicy b1) s of
            (Some err, s1) \<Rightarrow> (Some err, (m, s1))
          | (None, s1) \<Rightarrow> (None, (m\<lparr>rm_policyBundle := Some b1\<rparr>, s1))))"

definition GetAuthorizationPolicy ::
  "'s svcEnv \<Rightarrow> ('f, 's) engine \<Rightarrow> (engineError + authorizationPolicyBundle option) \<times> ('f, 's) engine" where
  "GetAuthorizationPolicy env = (\<lambda>(m, s).
     case rm_policyBundle m of
       Some b \<Rightarrow> (Inr (Some b), (m, s))
     | None \<Rightarrow>
         (case getJSONKV (sx_ops env) asPolicy ''authz/policy_bundle'' s of
            None \<Rightarrow> (Inr None, (m, s))
          | Some (Inl err) \<Rightarrow> (Inl err, (m, s))
          | Some (Inr b) \<Rightarrow>
              (case Bundle_NormalizeAndValidate b of
                 Inl err \<Rightarrow> (Inl err, (m, s))
               | Inr b1 \<Rightarrow> (Inr (Some b1), (m\<lparr>rm_policyBundle := Some b1\<rparr>, s)))))"

definition SaveRiskPolicy ::
  "'s svcEnv \<Rightarrow> gotime \<Rightarrow> riskPolicy \<Rightarrow> ('f, 's) engine \<Rightarrow> engineError option \<times> ('f, 's) engine" where
  "SaveRiskPolicy env now policy0 = (\<lambda>(m, s).
     case RiskPolicy_NormalizeAndValidate policy0 of
       Inl err \<Rightarrow> (Some err, (m, s))
     | Inr p \<Rightarrow>
         (let p1 = p\<lparr>rkp_UpdatedAt := (case rkp_UpdatedAt p of None \<Rightarrow> Some now | Some t \<Rightarrow> Some t)\<rparr> in
          case putJSONKV (sx_ops env) now ''risk/policy'' (DocRiskPolicy p1) s of
            (Some err, s1) \<Rightarrow> (Some err, (m, s1))
          | (None, s1) \<Rightarrow> (None, (m\<lparr>rm_riskPolicy := Some p1\<rparr>, s1))))"

definition GetRiskPolicy :: "'s svcEnv \<Rightarrow> ('f, 's) engine \<Rightarrow> (engineError + riskPolicy option) \<times> ('f, 's) engine" where
  "GetRiskPolicy env = (\<lambda>(m, s).
     case rm_riskPolicy m of
       Some p \<Rightarrow> (Inr (Some p), (m, s))
     | None \<Rightarrow>
         (case getJSONKV (sx_ops env) asRiskPolicy ''risk/policy'' s of
            None \<Rightarrow> (Inr None, (m, s))
          | Some (Inl err) \<Rightarrow> (Inl err, (m, s))
          | Some (Inr p) \<Rightarrow>
              (case RiskPolicy_NormalizeAndValidate p of
                 Inl err \<Rightarrow> (Inl err, (m, s))
               | Inr p1 \<Rightarrow> (Inr (Some p1), (m\<lparr>rm_riskPolicy := Some p1\<rparr>, s)))))"

section \<open>Authorization\<close>

definition callerPrincipal :: "callCtx \<Rightarrow> principal" where
  "callerPrincipal ctx = (case PrincipalFrom ctx of Some p \<Rightarrow> p | None \<Rightarrow> noPrincipal)"

definition noBundle :: authorizationPolicyBundle where
  "noBundle = \<lparr>ab_ID = '''', ab_Description = '''', ab_UpdatedAt = None, ab_Rules = []\<rparr>"

definition EvaluateWorkflowAuthorization ::
  "'s svcEnv \<Rightarrow> callCtx \<Rightarrow> string \<Rightarrow> 'f workflowGraph \<Rightarrow> ('f, 's) engine \<Rightarrow> (engineError + workflowAuthorizationReport) \<times> ('f, 's) engine" where
  "EvaluateWorkflowAuthorization env ctx runID g e =
     (case GetAuthorizationPolicy env e of
        (Inl err, e1) \<Rightarrow> (Inl err, e1)
      | (Inr found, e1) \<Rightarrow>
          (Inr (workflowReport (case found of Some b \<Rightarrow> b | None \<Rightarrow> noBundle) (cx_Tenant ctx) (callerPrincipal ctx) runID g), e1))"

definition authorizeWorkflow ::
  "'s svcEnv \<Rightarrow> callCtx \<Rightarrow> gotime \<Rightarrow> string \<Rightarrow> 'f workflowGraph \<Rightarrow> ('f, 's) engine \<Rightarrow> (engineError + workflowAuthorizationReport) \<times> ('f, 's) engine" where
  "authorizeWorkflow env ctx now runID g e =
     (case EvaluateWorkflowAuthorization env ctx runID g e of
        (Inl err, e1) \<Rightarrow> (Inl err, e1)
      | (Inr report, (m, s)) \<Rightarrow>
          let s1 = appendAuditRecord env ctx now
                (auditNote (wr_TenantID report) (pr_ID (wr_Principal report)) ''authorization.evaluate'' ''workflow'' (wr_WorkflowID report)
                   (wr_RunID report) (wr_WorkflowID report)
                   (if wr_Allowed report then AuditOutcomeAllowed else AuditOutcomeDenied) (wr_Reason report)) s
          in if wr_Allowed report then (Inr report, (m, s1))
             else (Inl (ErrAuthorizationDenied
                     (if TrimSpace (wr_Reason report) \<noteq> '''' then wr_Reason report else ''authorization denied'')), (m, s1)))"

section \<open>Risk\<close>

definition EvaluateWorkflowRisk ::
  "(json \<Rightarrow> string) \<Rightarrow> 's svcEnv \<Rightarrow> callCtx \<Rightarrow> string \<Rightarrow> 'f workflowGraph \<Rightarrow> json \<Rightarrow> ('f, 's) engine
     \<Rightarrow> (engineError + workflowRiskReport) \<times> ('f, 's) engine" where
  "EvaluateWorkflowRisk rawText env ctx runID g input e =
     (case GetRiskPolicy env e of
        (Inl err, e1) \<Rightarrow> (Inl err, e1)
      | (Inr found, e1) \<Rightarrow>
          (case RiskPolicy_NormalizeAndValidate (case found of Some p \<Rightarrow> p | None \<Rightarrow> defaultRiskPolicy) of
             Inl err \<Rightarrow> (Inl err, e1)
           | Inr p \<Rightarrow> (Inr (riskReport rawText (rkp_Thresholds p) ctx runID g input), e1)))"

text \<open>The report, and whether it is returned with a \<open>RiskError\<close>.\<close>

definition evaluateAndEnforceRisk ::
  "(json \<Rightarrow> string) \<Rightarrow> 's svcEnv \<Rightarrow> callCtx \<Rightarrow> gotime \<Rightarrow> string \<Rightarrow> 'f workflowGraph \<Rightarrow> json \<Rightarrow> ('f, 's) engine
     \<Rightarrow> (engineError + workflowRiskReport) \<times> ('f, 's) engine" where
  "evaluateAndEnforceRisk rawText env ctx now runID g input e =
     (case EvaluateWorkflowRisk rawText env ctx runID g input e of
        (Inl err, e1) \<Rightarrow> (Inl err, e1)
      | (Inr report0, (m, s)) \<Rightarrow>
          let report = reviewedReport (sx_ops env) runID report0 s;
              s1 = appendAuditRecord env ctx now
                (auditNote (rr_TenantID report) (pr_ID (rr_Principal report)) ''risk.evaluate'' ''workflow'' (rr_WorkflowID report)
                   (rr_RunID report) (rr_WorkflowID report)
                   (if rr_Allowed report then AuditOutcomeAllowed else AuditOutcomeDenied) (rr_Reason report)) s
          in (Inr report, (m, s1)))"

section \<open>The DAG runner on the engine's state\<close>

definition onStore :: "('s \<Rightarrow> 'r \<times> 's) \<Rightarrow> ('m \<times> 's) \<Rightarrow> 'r \<times> ('m \<times> 's)" where
  "onStore f = (\<lambda>(m, s). case f s of (r, s1) \<Rightarrow> (r, (m, s1)))"

definition liftOps :: "'s storeOps \<Rightarrow> ('m \<times> 's) storeOps" where
  "liftOps ops =
     \<lparr>so_CreateRun = (\<lambda>now r. onStore (so_CreateRun ops now r)), so_UpdateRun = (\<lambda>now r. onStore (so_UpdateRun ops now r)),
      so_GetRun = (\<lambda>e. so_GetRun ops (snd e)), so_UpsertNodeExecution = (\<lambda>now n. onStore (so_UpsertNodeExecution ops now n)),
      so_GetNodeExecution = (\<lambda>e. so_GetNodeExecution ops (snd e)), so_ListNodeExecutions = (\<lambda>e. so_ListNodeExecutions ops (snd e)),
      so_AppendEvent = (\<lambda>now x. onStore (so_AppendEvent ops now x)), so_ListEvents = (\<lambda>e. so_ListEvents ops (snd e)),
      so_UpsertTimer = (\<lambda>now t. onStore (so_UpsertTimer ops now t)), so_GetTimer = (\<lambda>e. so_GetTimer ops (snd e)),
      so_ListTimers = (\<lambda>e. so_ListTimers ops (snd e)), so_ListDueTimers = (\<lambda>e. so_ListDueTimers ops (snd e)),
      so_ListRuns = (\<lambda>e. so_ListRuns ops (snd e)), so_PutKV = (\<lambda>now k x. onStore (so_PutKV ops now k x)),
      so_GetKV = (\<lambda>e. so_GetKV ops (snd e))\<rparr>"

text \<open>Risk assessment as \<open>runDAGWithCache\<close> uses it: a required approval is staged.\<close>

definition riskGate ::
  "(json \<Rightarrow> string) \<Rightarrow> 's svcEnv \<Rightarrow> callCtx \<Rightarrow> gotime \<Rightarrow> string \<Rightarrow> 'f workflowGraph \<Rightarrow> json \<Rightarrow> json \<Rightarrow> ('f, 's) engine
     \<Rightarrow> (engineError + json) \<times> ('f, 's) engine" where
  "riskGate rawText env ctx now runID g spec input e =
     (case evaluateAndEnforceRisk rawText env ctx now runID g input e of
        (Inl err, e1) \<Rightarrow> (Inl err, e1)
      | (Inr report, e1) \<Rightarrow>
          if rr_Allowed report then (Inr (riskReportJSON report), e1)
          else if rr_Action report = RiskActionRequireApproval then
            (case onStore (stageRiskApproval env ctx now runID g spec input report) e1 of
               (Inl err, e2) \<Rightarrow> (Inl err, e2)
             | (Inr t, e2) \<Rightarrow> (Inl ErrHumanApprovalPending, e2))
          else (Inl (riskError report), e1))"

definition engineGates ::
  "(json \<Rightarrow> string) \<Rightarrow> 's svcEnv \<Rightarrow> callCtx \<Rightarrow> gotime \<Rightarrow> string \<Rightarrow> 'f workflowGraph \<Rightarrow> json \<Rightarrow> json \<Rightarrow> ('f, 's) engine dagGates" where
  "engineGates rawText env ctx now runID g spec input =
     \<lparr>gt_authorize = (\<lambda>e. case authorizeWorkflow env ctx now runID g e of (Inl err, e1) \<Rightarrow> (Some err, e1) | (Inr report, e1) \<Rightarrow> (None, e1)),
      gt_risk = riskGate rawText env ctx now runID g spec input,
      gt_access = (\<lambda>r. onStore (ensureRunTenantAccess env ctx now r ''run.resume'')),
      gt_quota = (\<lambda>wfl e. onStore (enforceTenantRunQuota env (fst e) ctx now (effectiveTenantFromContext ctx) runID wfl) e)\<rparr>"

text \<open>The configuration of the runner, with the human step of theory \<open>Human\<close>.\<close>

definition engineCfg :: "('f, ('f, 's) engine) runnerCfg \<Rightarrow> 's svcEnv \<Rightarrow> callCtx \<Rightarrow> ('f, ('f, 's) engine) runnerCfg" where
  "engineCfg cfg env ctx =
     cfg\<lparr>rn_ops := liftOps (sx_ops env),
         rn_human := (\<lambda>runID wfl node attempt input now. onStore (maybeHandleHumanNode env ctx runID wfl node attempt input now)),
         rn_remember := (\<lambda>wfl g (m, s). (rememberGraph wfl g m, s))\<rparr>"

definition startRun ::
  "(json \<Rightarrow> string) \<Rightarrow> ('f, ('f, 's) engine) runnerCfg \<Rightarrow> 's svcEnv \<Rightarrow> callCtx \<Rightarrow> gotime \<Rightarrow> string \<Rightarrow> 'f workflowGraph \<Rightarrow> json \<Rightarrow> json
     \<Rightarrow> (string, replayCacheEntry) gomap option \<Rightarrow> throttleState \<Rightarrow> ('f, 's) engine \<Rightarrow> ('f, ('f, 's) engine) dagStarted" where
  "startRun rawText cfg env ctx now runID g input spec cache th e =
     dagStart (engineCfg cfg env ctx) (engineGates rawText env ctx now runID g spec input) now runID
       (effectiveTenantFromContext ctx) g input spec cache th e"

section \<open>What a started run has passed\<close>

lemma onStore_simps [simp]: "fst (onStore f (m, s)) = fst (f s)" "snd (onStore f (m, s)) = (m, snd (f s))"
  by (simp_all add: onStore_def split: prod.split)

lemma dagStart_passed:
  assumes "dagStart cfg gates now runID reqTenant g input spec cache th s = StartLoop env st"
  obtains s0 s1 rep wfl where "gt_authorize gates s = (None, s0)" "gt_risk gates s0 = (Inr rep, s1)"
    "case so_GetRun (rn_ops cfg) s1 runID of Some old \<Rightarrow> fst (gt_access gates old s1) = None | None \<Rightarrow> fst (gt_quota gates wfl s1) = None"
proof -
  from assms obtain s0 where a: "gt_authorize gates s = (None, s0)"
    by (cases "gt_authorize gates s"; cases "fst (gt_authorize gates s)") (auto simp: dagStart_def split: option.splits)
  with assms obtain rep s1 where r: "gt_risk gates s0 = (Inr rep, s1)"
    by (cases "gt_risk gates s0"; cases "fst (gt_risk gates s0)") (auto simp: dagStart_def split: option.splits)
  from assms a r have "case so_GetRun (rn_ops cfg) s1 runID of Some old \<Rightarrow> fst (gt_access gates old s1) = None
      | None \<Rightarrow> fst (gt_quota gates (if wg_ID g = '''' then ''graph_'' @ runID else wg_ID g) s1) = None"
    by (auto simp: dagStart_def Let_def split: option.splits prod.splits)
  from that [OF a r this] show thesis .
qed

lemma GetAuthorizationPolicy_frame:
  "\<exists>b. snd (GetAuthorizationPolicy env (m, s)) = (m\<lparr>rm_policyBundle := b\<rparr>, s)"
  by (auto simp: GetAuthorizationPolicy_def split: option.split sum.split intro: exI [of _ "rm_policyBundle m"])

lemma GetRiskPolicy_frame: "\<exists>p. snd (GetRiskPolicy env (m, s)) = (m\<lparr>rm_riskPolicy := p\<rparr>, s)"
  by (auto simp: GetRiskPolicy_def split: option.split sum.split intro: exI [of _ "rm_riskPolicy m"])

lemma authorize_passed:
  assumes "authorizeWorkflow env ctx now runID g (m, s) = (Inr rep, e1)"
  obtains found b x where "fst (GetAuthorizationPolicy env (m, s)) = Inr found" "e1 = (m\<lparr>rm_policyBundle := b\<rparr>, appendAuditRecord env ctx now x s)"
    "wr_Allowed (workflowReport (case found of Some b \<Rightarrow> b | None \<Rightarrow> noBundle) (cx_Tenant ctx) (callerPrincipal ctx) runID g)"
proof -
  obtain b where b: "snd (GetAuthorizationPolicy env (m, s)) = (m\<lparr>rm_policyBundle := b\<rparr>, s)" using GetAuthorizationPolicy_frame [of env m s] by blast
  show thesis
  proof (cases "fst (GetAuthorizationPolicy env (m, s))")
    case (Inl err)
    with assms show ?thesis by (cases "GetAuthorizationPolicy env (m, s)") (auto simp: authorizeWorkflow_def EvaluateWorkflowAuthorization_def)
  next
    case (Inr found)
    with b have g: "GetAuthorizationPolicy env (m, s) = (Inr found, (m\<lparr>rm_policyBundle := b\<rparr>, s))" by (simp add: prod_eq_iff)
    show ?thesis by (rule that [OF Inr]) (use assms in \<open>auto simp: authorizeWorkflow_def EvaluateWorkflowAuthorization_def g Let_def split: if_splits\<close>)
  qed
qed

lemma tenant_of_report:
  "wr_TenantID (workflowReport b (cx_Tenant ctx) (callerPrincipal ctx) runID g) = effectiveTenantFromContext ctx"
proof -
  have n: "pr_TenantID (Principal_Normalize p) = TrimSpace (pr_TenantID p)" for p by (simp add: Principal_Normalize_def Let_def)
  show ?thesis
    by (simp add: workflowReport_def Let_def effectiveTenantFromContext_def callerPrincipal_def PrincipalFrom_def n noPrincipal_def
        split: prod.split option.split)
qed

text \<open>The thresholds that apply.\<close>

definition thresholds_in_force :: "riskPolicy option \<Rightarrow> riskThresholds option" where
  "thresholds_in_force found =
     (case RiskPolicy_NormalizeAndValidate (case found of Some p \<Rightarrow> p | None \<Rightarrow> defaultRiskPolicy) of Inl _ \<Rightarrow> None | Inr p \<Rightarrow> Some (rkp_Thresholds p))"

definition risk_cleared ::
  "(json \<Rightarrow> string) \<Rightarrow> 's storeOps \<Rightarrow> riskThresholds \<Rightarrow> callCtx \<Rightarrow> string \<Rightarrow> 'f workflowGraph \<Rightarrow> json \<Rightarrow> 's \<Rightarrow> bool" where
  "risk_cleared rawText ops th ctx runID g input s \<longleftrightarrow>
     min 100 (sum_list (map rf_Score (riskFindings rawText g input))) < rk_ApprovalScore th \<or>
     min 100 (sum_list (map rf_Score (riskFindings rawText g input))) < rk_BlockScore th \<and>
     (\<exists>t. findHumanTask ops runID '''' 0 HumanTaskSourceRisk s = Inr (Some t) \<and> ht_Status t = HumanTaskApproved)"

lemma thresholds_ordered:
  "thresholds_in_force found = Some th \<Longrightarrow> 0 < rk_SandboxScore th \<and> rk_SandboxScore th < rk_ApprovalScore th \<and> rk_ApprovalScore th < rk_BlockScore th"
  by (auto simp: thresholds_in_force_def RiskPolicy_NormalizeAndValidate_def Let_def orDefault_def defaultRiskPolicy_def
      split: sum.splits if_splits option.splits)

lemma reviewed_allowed:
  assumes "rr_Allowed (reviewedReport ops runID (riskReport rawText th ctx runID g input) s)"
    and "rk_ApprovalScore th < rk_BlockScore th"
  shows "risk_cleared rawText ops th ctx runID g input s"
  using assms
  by (auto simp: reviewedReport_def applyReview_def riskReport_def Let_def riskActionForScore_def risk_cleared_def
      split: if_splits sum.splits option.splits)

lemma risk_passed:
  assumes "riskGate rawText env ctx now runID g spec input (m, s) = (Inr j, e1)"
  obtains found th p x where "fst (GetRiskPolicy env (m, s)) = Inr found" "thresholds_in_force found = Some th"
    "risk_cleared rawText (sx_ops env) th ctx runID g input s" "e1 = (m\<lparr>rm_riskPolicy := p\<rparr>, appendAuditRecord env ctx now x s)"
proof -
  obtain p where p: "snd (GetRiskPolicy env (m, s)) = (m\<lparr>rm_riskPolicy := p\<rparr>, s)" using GetRiskPolicy_frame [of env m s] by blast
  show thesis
  proof (cases "fst (GetRiskPolicy env (m, s))")
    case (Inl err)
    with assms show ?thesis by (cases "GetRiskPolicy env (m, s)") (auto simp: riskGate_def evaluateAndEnforceRisk_def EvaluateWorkflowRisk_def)
  next
    case (Inr found)
    with p have g: "GetRiskPolicy env (m, s) = (Inr found, (m\<lparr>rm_riskPolicy := p\<rparr>, s))" by (simp add: prod_eq_iff)
    obtain q where q: "RiskPolicy_NormalizeAndValidate (case found of Some p \<Rightarrow> p | None \<Rightarrow> defaultRiskPolicy) = Inr q"
      using assms by (cases "RiskPolicy_NormalizeAndValidate (case found of Some p \<Rightarrow> p | None \<Rightarrow> defaultRiskPolicy)")
        (auto simp: riskGate_def evaluateAndEnforceRisk_def EvaluateWorkflowRisk_def g)
    then have th: "thresholds_in_force found = Some (rkp_Thresholds q)" by (simp add: thresholds_in_force_def)
    let ?r = "reviewedReport (sx_ops env) runID (riskReport rawText (rkp_Thresholds q) ctx runID g input) s"
    have ok: "rr_Allowed ?r" and e1: "\<exists>x. e1 = (m\<lparr>rm_riskPolicy := p\<rparr>, appendAuditRecord env ctx now x s)"
      using assms by (auto simp: riskGate_def evaluateAndEnforceRisk_def EvaluateWorkflowRisk_def g q Let_def
          split: if_splits prod.splits sum.splits)
    with reviewed_allowed [OF ok] thresholds_ordered [OF th] that [OF Inr th] show ?thesis by blast
  qed
qed

lemma risk_policy_same:
  assumes "so_GetKV (sx_ops env) s' ''risk/policy'' = so_GetKV (sx_ops env) s ''risk/policy''"
  shows "fst (GetRiskPolicy env (m\<lparr>rm_policyBundle := b\<rparr>, s')) = fst (GetRiskPolicy env (m, s))"
  unfolding GetRiskPolicy_def getJSONKV_def split_conv assms
  by (cases "rm_riskPolicy m"; cases "so_GetKV (sx_ops env) s ''risk/policy''") (auto split: option.split sum.split)

lemma findHumanTask_same:
  assumes "kv_moves ops K s s'" "\<And>k. isHumanKey k \<Longrightarrow> \<not> K k"
  shows "findHumanTask ops runID nodeID attempt source s' = findHumanTask ops runID nodeID attempt source s"
proof -
  have kv: "so_GetKV ops s' k = so_GetKV ops s k" if "isHumanKey (TrimSpace k)" for k
    using kv_moves_reads(5) [OF assms(1)] assms(2) that by blast
  have "GetHumanTask ops i s' = GetHumanTask ops i s" for i by (simp add: GetHumanTask_def getJSONKV_def kv)
  then have tw: "taskWanted ops r st s' = taskWanted ops r st s" for r st by (simp add: taskWanted_def fun_eq_iff)
  have idx: "indexIDs ops humanTaskIndexKey s' = indexIDs ops humanTaskIndexKey s" by (simp add: indexIDs_def kv)
  show ?thesis unfolding findHumanTask_def ListHumanTasks_def Let_def tw idx ..
qed

lemma risk_key_not_audit: "\<not> isAuditKey (TrimSpace ''risk/policy'')"
  by (simp add: isAuditKey_def HasPrefix_def TrimSpace_fixed is_space_def)

context store_contract
begin

lemma active_card:
  assumes "sinv s" "TrimSpace tenantID \<noteq> ''''"
  shows "activeRunsForTenant ops tenantID ex s = int (card {i. isActive ops s (TrimSpace tenantID) (TrimSpace ex) i})"
proof -
  have "{i. isActive ops s (TrimSpace tenantID) (TrimSpace ex) i} = set (filter (isActive ops s (TrimSpace tenantID) (TrimSpace ex)) (so_ListRuns ops s))"
    using runs_list [OF assms(1)] by (auto simp: isActive_def split: option.splits if_splits)
  then show ?thesis using runs_list [OF assms(1)] assms(2)
    by (simp add: activeRunsForTenant_def Let_def distinct_card del: set_filter)
qed

lemma active_same:
  assumes "sinv s" "sinv s'" "so_GetRun ops s' = so_GetRun ops s"
  shows "activeRunsForTenant ops tenantID ex s' = activeRunsForTenant ops tenantID ex s"
proof (cases "TrimSpace tenantID = ''''")
  case False
  then show ?thesis using assms by (simp add: active_card isActive_def)
qed (simp add: activeRunsForTenant_def Let_def)

end

definition quota_free :: "'s storeOps \<Rightarrow> 'f runnerMem \<Rightarrow> string \<Rightarrow> string \<Rightarrow> 's \<Rightarrow> bool" where
  "quota_free ops m tenantID runID s \<longleftrightarrow>
     tenantID = '''' \<or> tenantActiveRunCap m tenantID \<le> 0 \<or> activeRunsForTenant ops tenantID runID s < tenantActiveRunCap m tenantID"

lemma effectiveTenant_trimmed [simp]: "TrimSpace (effectiveTenantFromContext ctx) = effectiveTenantFromContext ctx"
  by (simp add: effectiveTenantFromContext_def Let_def split: option.split)

lemma quota_exact: "fst (enforceTenantRunQuota env m ctx now (effectiveTenantFromContext ctx) runID wfl s) = None \<longleftrightarrow>
    quota_free (sx_ops env) m (effectiveTenantFromContext ctx) runID s"
  by (auto simp: enforceTenantRunQuota_def quota_free_def Let_def)

lemma startRun_passed:
  assumes "store_contract ops sinv" "sx_ops env = ops" "sinv s"
    and "startRun rawText cfg env ctx now runID g input spec cache th (m, s) = StartLoop denv st"
  obtains e0 rep m1 s1 where "gt_authorize (engineGates rawText env ctx now runID g spec input) (m, s) = (None, e0)"
    "gt_risk (engineGates rawText env ctx now runID g spec input) e0 = (Inr rep, (m1, s1))"
    "sinv s1" "kv_moves ops isAuditKey s s1" "rm_tenantRunCaps m1 = rm_tenantRunCaps m"
    "\<exists>bundle policy thr. fst (GetAuthorizationPolicy env (m, s)) = Inr bundle \<and> fst (GetRiskPolicy env (m, s)) = Inr policy \<and>
      thresholds_in_force policy = Some thr \<and>
      workflow_permitted (case bundle of Some b \<Rightarrow> b | None \<Rightarrow> noBundle) (effectiveTenantFromContext ctx) (Principal_Normalize (callerPrincipal ctx)) (TrimSpace runID) g \<and>
      risk_cleared rawText ops thr ctx runID g input s \<and>
      (case so_GetRun ops s runID of Some r \<Rightarrow> may_access ctx r | None \<Rightarrow> quota_free ops m (effectiveTenantFromContext ctx) runID s)"
proof -
  let ?G = "engineGates rawText env ctx now runID g spec input"
  obtain e0 e1 rep wfl where a: "gt_authorize ?G (m, s) = (None, e0)" and r: "gt_risk ?G e0 = (Inr rep, e1)"
    and last: "case so_GetRun (rn_ops (engineCfg cfg env ctx)) e1 runID of Some old \<Rightarrow> fst (gt_access ?G old e1) = None
      | None \<Rightarrow> fst (gt_quota ?G wfl e1) = None"
    by (rule dagStart_passed [OF assms(4) [unfolded startRun_def]])
  obtain wr where "authorizeWorkflow env ctx now runID g (m, s) = (Inr wr, e0)"
    using a by (auto simp: engineGates_def split: prod.splits sum.splits)
  then obtain bdl b x where pol: "fst (GetAuthorizationPolicy env (m, s)) = Inr bdl"
    and e0: "e0 = (m\<lparr>rm_policyBundle := b\<rparr>, appendAuditRecord env ctx now x s)"
    and wr: "wr_Allowed (workflowReport (case bdl of Some b \<Rightarrow> b | None \<Rightarrow> noBundle) (cx_Tenant ctx) (callerPrincipal ctx) runID g)"
    by (rule authorize_passed)
  define s0 where "s0 = appendAuditRecord env ctx now x s"
  note k0 = store_contract.append_audit [OF assms(1,3,2), of ctx now x, folded s0_def]
  have "riskGate rawText env ctx now runID g spec input (m\<lparr>rm_policyBundle := b\<rparr>, s0) = (Inr rep, e1)"
    using r by (simp add: engineGates_def e0 s0_def)
  then obtain policy thr p y where risk: "fst (GetRiskPolicy env (m\<lparr>rm_policyBundle := b\<rparr>, s0)) = Inr policy" "thresholds_in_force policy = Some thr"
      "risk_cleared rawText ops thr ctx runID g input s0"
    and e1: "e1 = (m\<lparr>rm_policyBundle := b, rm_riskPolicy := p\<rparr>, appendAuditRecord env ctx now y s0)"
    unfolding assms(2) [symmetric] by (rule risk_passed)
  define s1 where "s1 = appendAuditRecord env ctx now y s0"
  note k1 = store_contract.append_audit [OF assms(1) k0(1) assms(2), of ctx now y, folded s1_def]
  note k = kv_moves_trans [OF k0(2) k1(2)]
  have same: "so_GetRun ops s1 = so_GetRun ops s" by (rule kv_moves_reads(1) [OF k])
  have "fst (GetRiskPolicy env (m, s)) = Inr policy"
    using risk(1) risk_policy_same [of env s0 s b m] kv_moves_reads(5) [OF k0(2) risk_key_not_audit] by (simp add: assms(2))
  moreover have "risk_cleared rawText ops thr ctx runID g input s"
    using risk(3) findHumanTask_same [OF k0(2) human_not_audit(1)] by (simp add: risk_cleared_def)
  moreover have "workflow_permitted (case bdl of Some b \<Rightarrow> b | None \<Rightarrow> noBundle) (effectiveTenantFromContext ctx) (Principal_Normalize (callerPrincipal ctx)) (TrimSpace runID) g"
    using wr unfolding workflow_report_allowed tenant_of_report .
  moreover have "case so_GetRun ops s runID of Some r \<Rightarrow> may_access ctx r | None \<Rightarrow> quota_free ops m (effectiveTenantFromContext ctx) runID s"
    using last store_contract.active_same [OF assms(1,3) k1(1) same]
    by (auto simp: engineCfg_def liftOps_def engineGates_def e1 assms(2) same access_exact quota_exact
        quota_free_def tenantActiveRunCap_def simp flip: s1_def split: option.splits)
  ultimately show ?thesis using that [OF a _ k1(1) k, of rep "m\<lparr>rm_policyBundle := b, rm_riskPolicy := p\<rparr>"] r pol risk(2)
    by (auto simp: e1 s1_def)
qed


lemma engine_human_ok: "human_ok (engineCfg cfg env ctx)"
proof -
  have "nr_nodeID res = nd_NodeID node" if "maybeHandleHumanNode env ctx runID wfl node a j t s = (HumanDone res, s')"
    for runID wfl node a j t s s' res and env :: "'s svcEnv"
    using that by (auto simp: maybeHandleHumanNode_def requestHuman_def taskOutcome_def Let_def
        split: option.splits sum.splits prod.splits if_splits)
  then show ?thesis by (auto simp: human_ok_def engineCfg_def onStore_def split: prod.splits)
qed

definition clean_mem :: "nat runnerMem" where
  "clean_mem = \<lparr>rm_registry = None, rm_tenantRegistries = [], rm_tenantRunCaps = [(''acme'', 2)], rm_policyBundle = None, rm_riskPolicy = None, rm_graphs = [],
     rm_toolGateway = None, rm_brainPolicy = None\<rparr>"

definition engine_cfg :: "(nat, (nat, memStore) engine) runnerCfg" where
  "engine_cfg = \<lparr>rn_ops = liftOps memOps, rn_maxParallel = 2, rn_defaultRunBudget = zeroBudget, rn_tenantBudgets = [],
     rn_human = (\<lambda>runID wfID node a j t s. (HumanNo, s)), rn_jsonLen = (\<lambda>j. 2), rn_inlineLimit = 100, rn_put = None,
     rn_capture = (\<lambda>runID s. s), rn_remember = (\<lambda>i g s. s)\<rparr>"

definition acme :: callCtx where
  "acme = \<lparr>cx_Tenant = ''acme'', cx_Principal = None\<rparr>"

definition acme_start :: "(nat, (nat, memStore) engine) dagStarted" where
  "acme_start = startRun (\<lambda>_. '''') engine_cfg memSvc acme 1 ''r'' two_nodes (JObj []) JNull None no_caps (clean_mem, NewMemoryStore)"

lemma acme_check: "case acme_start of StartStop err e \<Rightarrow> False | StartLoop denv st \<Rightarrow> True"
  by code_simp

lemma acme_starts: "\<exists>denv st. startRun (\<lambda>_. '''') engine_cfg memSvc acme 1 ''r'' two_nodes (JObj []) JNull None no_caps (clean_mem, NewMemoryStore) = StartLoop denv st"
  using acme_check by (cases acme_start) (simp_all add: acme_start_def)

lemma new_store_inv: "mem_inv NewMemoryStore"
  by (simp add: mem_inv_def NewMemoryStore_def ListEvents_def)

lemma memSvc_ops: "sx_ops memSvc = memOps"
  by (simp add: memSvc_def)


section \<open>The cap on active runs\<close>

definition others_same :: "'s storeOps \<Rightarrow> ('s \<Rightarrow> bool) \<Rightarrow> string \<Rightarrow> 's \<Rightarrow> 's \<Rightarrow> bool" where
  "others_same ops sinv runID s s' \<longleftrightarrow> (sinv s \<longrightarrow> sinv s' \<and> (\<forall>i. i \<noteq> runID \<longrightarrow> so_GetRun ops s' i = so_GetRun ops s i))"

lemma others_same_refl [simp]: "others_same ops sinv runID s s"
  by (simp add: others_same_def)

lemma others_same_trans: "others_same ops sinv runID s t \<Longrightarrow> others_same ops sinv runID t u \<Longrightarrow> others_same ops sinv runID s u"
  by (auto simp: others_same_def)

lemma view_run:
  "view ops s' = view ops s \<Longrightarrow> so_GetRun ops s' = so_GetRun ops s"
  "view ops s' = put_run r (view ops s) \<Longrightarrow> so_GetRun ops s' = (so_GetRun ops s)(run_RunID r \<mapsto> r)"
  "view ops s' = add_event e (view ops s) \<Longrightarrow> so_GetRun ops s' = so_GetRun ops s"
  by (drule arg_cong [of _ _ sv_run], simp add: view_def view_updates)+

context store_contract
begin

lemma others_calls:
  "run_RunID r = runID \<Longrightarrow> others_same ops sinv runID s (snd (so_CreateRun ops now r s))"
  "run_RunID r = runID \<Longrightarrow> others_same ops sinv runID s (snd (so_UpdateRun ops now r s))"
  "others_same ops sinv runID s (snd (so_AppendEvent ops now e s))"
proof -
  note c = prod.collapse [symmetric]
  show "others_same ops sinv runID s (snd (so_CreateRun ops now r s))" if "run_RunID r = runID"
    using create [OF _ c, of s now r] that by (auto simp: others_same_def dest!: view_run split: if_splits)
  show "others_same ops sinv runID s (snd (so_UpdateRun ops now r s))" if "run_RunID r = runID"
    using update [OF _ c, of s now r] that by (auto simp: others_same_def dest!: view_run split: if_splits)
  show "others_same ops sinv runID s (snd (so_AppendEvent ops now e s))"
    unfolding others_same_def
  proof
    assume s: "sinv s"
    obtain res s' where p: "so_AppendEvent ops now e s = (res, s')" by fastforce
    show "sinv (snd (so_AppendEvent ops now e s)) \<and> (\<forall>i. i \<noteq> runID \<longrightarrow> so_GetRun ops (snd (so_AppendEvent ops now e s)) i = so_GetRun ops s i)"
    proof (cases res)
      case (Inl er)
      with event_err [OF s, of now e er s'] p show ?thesis using view_run(1) [of ops s' s] by simp
    next
      case (Inr e')
      with event_ok [OF s, of now e e' s'] p show ?thesis using view_run(3) [of ops s' e' s] by simp
    qed
  qed
qed

lemma active_grows:
  assumes "sinv s" "others_same ops sinv runID s s'" "TrimSpace runID = runID" "TrimSpace tenantID \<noteq> ''''"
  shows "activeRunsForTenant ops tenantID '''' s' \<le> activeRunsForTenant ops tenantID runID s + 1"
proof -
  let ?A = "\<lambda>s ex. {i. isActive ops s (TrimSpace tenantID) ex i}"
  have fin: "finite (?A s ex)" if "sinv s" for s ex
  proof (rule finite_subset)
    show "?A s ex \<subseteq> set (so_ListRuns ops s)" using runs_list [OF that] by (auto simp: isActive_def split: option.splits if_splits)
  qed simp
  have s': "sinv s'" using assms(1,2) by (simp add: others_same_def)
  have "?A s' '''' \<subseteq> insert runID (?A s runID)" using assms(1,2) by (auto simp: isActive_def others_same_def split: if_splits)
  then have "card (?A s' '''') \<le> Suc (card (?A s runID))"
    using fin [OF assms(1), of runID] card_mono [of "insert runID (?A s runID)" "?A s' ''''"] by (auto simp: card_insert_if split: if_splits)
  then show ?thesis using assms s' by (simp add: active_card)
qed

end

lemma liftOps_simps [simp]:
  "so_GetRun (liftOps ops) e = so_GetRun ops (snd e)"
  "snd (snd (so_CreateRun (liftOps ops) now r e)) = snd (so_CreateRun ops now r (snd e))"
  "snd (snd (so_UpdateRun (liftOps ops) now r e)) = snd (so_UpdateRun ops now r (snd e))"
  "snd (snd (so_AppendEvent (liftOps ops) now x e)) = snd (so_AppendEvent ops now x (snd e))"
  by (cases e; simp add: liftOps_def)+

lemma wallClock_RunID [simp]: "run_RunID (wallClock now r) = run_RunID r"
  by (simp add: wallClock_def split: option.split)

lemma enterLoop_others:
  assumes "store_contract ops sinv" "rn_ops cfg = liftOps ops" "run_RunID r0 = runID"
    and "enterLoop cfg now runID wfl tenant g input cache th r0 used info e = StartLoop denv st"
  shows "others_same ops sinv runID (snd e) (snd (dg_store st))"
proof -
  note calls = store_contract.others_calls [OF assms(1)]
  have step: "others_same ops sinv runID (snd e) x \<Longrightarrow> run_RunID r = runID \<Longrightarrow> others_same ops sinv runID (snd e) (snd (so_UpdateRun ops now r x))"
    "others_same ops sinv runID (snd e) x \<Longrightarrow> others_same ops sinv runID (snd e) (snd (so_AppendEvent ops now y x))" for x y r
    using others_same_trans [OF _ calls(2)] others_same_trans [OF _ calls(3)] by simp_all
  have upd: "others_same ops sinv runID (snd e) (snd e1)" if "so_UpdateRun (liftOps ops) now r e = (er, e1)" "run_RunID r = runID" for r er e1
    using step(1) [OF others_same_refl that(2)] liftOps_simps(3) [of ops now r e] that(1) by simp
  from assms(4) show ?thesis unfolding enterLoop_def Let_def assms(2)
    by (auto split: if_split_asm prod.splits option.splits intro!: step dest!: upd simp: assms(3))
qed


lemma acme_facts: "TrimSpace ''r'' = ''r''" "so_GetRun memOps NewMemoryStore ''r'' = None" "effectiveTenantFromContext acme = ''acme''"
  "tenantActiveRunCap clean_mem ''acme'' = 2"
  by code_simp+


end
