(* ===== verification/RunControl.thy ===== *)
theory RunControl
  imports Gates
begin

text \<open>
  What happens to a run from outside its scheduler: cancellation (\<^verbatim>\<open>internal/engine/cancel.go\<close> and
  the table of cancel functions in \<^verbatim>\<open>runner.go\<close>), timers that come due (\<^verbatim>\<open>timers_loop.go\<close>,
  \<^verbatim>\<open>timer_resume.go\<close>), replay from a step (\<^verbatim>\<open>replay.go\<close>, \<^verbatim>\<open>replay_helpers.go\<close>, \<^verbatim>\<open>replay_cache.go\<close>) and
  running a specification (\<^verbatim>\<open>runner_spec.go\<close>).

  A context is a number; \<open>ct_done\<close> are the contexts whose cancel function has been called.  A replay
  that gets as far as the scheduler returns what \<open>startRun\<close> returns.  The replay scope of the context
  (read by the agent memory) and telemetry are left out.
\<close>

section \<open>Cancellation\<close>

record cancelTable =
  ct_cancels :: "(string, nat) gomap"
  ct_done :: "nat list"

definition setRunCancel :: "string \<Rightarrow> nat \<Rightarrow> cancelTable \<Rightarrow> cancelTable" where
  "setRunCancel runID c t =
     (let t1 = (case mget (ct_cancels t) runID of Some old \<Rightarrow> t\<lparr>ct_done := old # ct_done t\<rparr> | None \<Rightarrow> t)
      in t1\<lparr>ct_cancels := mput runID c (ct_cancels t1)\<rparr>)"

definition clearRunCancel :: "string \<Rightarrow> cancelTable \<Rightarrow> cancelTable" where
  "clearRunCancel runID t = t\<lparr>ct_cancels := mdel runID (ct_cancels t)\<rparr>"

definition cancelRunContext :: "string \<Rightarrow> cancelTable \<Rightarrow> bool \<times> cancelTable" where
  "cancelRunContext runID t =
     (case mget (ct_cancels t) runID of
        None \<Rightarrow> (False, t)
      | Some c \<Rightarrow> (True, t\<lparr>ct_done := c # ct_done t\<rparr>))"

definition CancelRun ::
  "'s svcEnv \<Rightarrow> callCtx \<Rightarrow> gotime \<Rightarrow> string \<Rightarrow> string \<Rightarrow> cancelTable \<times> 's \<Rightarrow> engineError option \<times> (cancelTable \<times> 's)" where
  "CancelRun env ctx now runID0 reason0 = (\<lambda>(t, s).
     let ops = sx_ops env; runID = TrimSpace runID0; reason = TrimSpace reason0 in
     if runID = '''' then (Some ErrRunNotFound, (t, s))
     else case so_GetRun ops s runID of
            None \<Rightarrow> (Some ErrRunNotFound, (t, s))
          | Some r \<Rightarrow>
              (case ensureRunTenantAccess env ctx now r ''run.cancel'' s of
                 (Some err, s1) \<Rightarrow> (Some err, (t, s1))
               | (None, s1) \<Rightarrow>
                   if run_Status r = RunStatusSucceeded \<or> run_Status r = RunStatusFailed then (None, (t, s1))
                   else if run_Status r = RunStatusCanceled then (None, (snd (cancelRunContext runID t), s1))
                   else
                     let r1 = r\<lparr>run_Status := RunStatusCanceled, run_EndedAt := Some now\<rparr> in
                     (case so_UpdateRun ops now r1 s1 of
                        (Some err, s2) \<Rightarrow> (Some err, (t, s2))
                      | (None, s2) \<Rightarrow>
                          (None, (snd (cancelRunContext runID t),
                             snd (so_AppendEvent ops now
                               (mkEvent runID EventRunFinished (run_WorkflowID r1) '''' 0
                                  (JObj [(''status'', JText ''canceled''), (''reason'', JText reason)])) s2))))))"

section \<open>Timers that come due\<close>

definition firedTimer :: "gotime \<Rightarrow> timer \<Rightarrow> timer" where
  "firedTimer now t = t\<lparr>tm_Status := TimerFired, tm_FiredAt := Some now\<rparr>"

definition timerFiredEvent :: "gotime \<Rightarrow> timer \<Rightarrow> runEvent" where
  "timerFiredEvent now t =
     mkEvent (tm_RunID t) EventTimerFired (tm_WorkflowID t) (tm_NodeID t) (tm_Attempt t)
       (JObj [(''status'', JText ''fired''), (''fire_at'', JTime (tm_FireAt t)), (''fired_at'', JTime now), (''reason'', JText (tm_Reason t))])"

fun fireLoop :: "'s storeOps \<Rightarrow> gotime \<Rightarrow> timer list \<Rightarrow> int \<Rightarrow> 's \<Rightarrow> (int \<times> engineError option) \<times> 's" where
  "fireLoop ops now [] n s = ((n, None), s)"
| "fireLoop ops now (t # ts) n s =
     (if tm_Status t \<noteq> TimerScheduled then fireLoop ops now ts n s
      else case so_UpsertTimer ops now (firedTimer now t) s of
             (Some err, s1) \<Rightarrow> ((n, Some err), s1)
           | (None, s1) \<Rightarrow> fireLoop ops now ts (n + 1) (snd (so_AppendEvent ops now (timerFiredEvent now t) s1)))"

definition FireDueTimers :: "'s storeOps \<Rightarrow> gotime \<Rightarrow> 's \<Rightarrow> (int \<times> engineError option) \<times> 's" where
  "FireDueTimers ops now s =
     (let due = so_ListDueTimers ops s now in
      if due = [] then ((0, None), s) else fireLoop ops now due 0 s)"

text \<open>One tick of \<open>StartTimerLoop\<close>: the runs it starts a goroutine for, each with
  \<^verbatim>\<open>RunDAG(context.Background(), runID, graph, {})\<close>.\<close>

definition tickLaunch :: "'s storeOps \<Rightarrow> ('f, 's) engine \<Rightarrow> string \<Rightarrow> (string \<times> 'f workflowGraph) option" where
  "tickLaunch ops e runID =
     (if runID = '''' then None
      else case so_GetRun ops (snd e) runID of
             None \<Rightarrow> None
           | Some r \<Rightarrow>
               if run_Status r \<noteq> RunStatusWaiting then None
               else map_option (\<lambda>g. (runID, g)) (getGraph (fst e) (run_WorkflowID r)))"

definition timerTick :: "'s storeOps \<Rightarrow> gotime \<Rightarrow> ('f, 's) engine \<Rightarrow> (string \<times> 'f workflowGraph) list \<times> ('f, 's) engine" where
  "timerTick ops now = (\<lambda>(m, s).
     let due = so_ListDueTimers ops s now in
     case FireDueTimers ops now s of
       ((fired, err), s1) \<Rightarrow>
         if err \<noteq> None \<or> fired = 0 then ([], (m, s1))
         else (List.map_filter (tickLaunch ops (m, s1)) (rev (remdups (rev (map tm_RunID due)))), (m, s1)))"

text \<open>\<open>resumeWaitingRun\<close> decides, and when it resumes calls \<open>runDAG\<close> with a compiled graph; \<open>dag\<close> is
  that call.\<close>

datatype 'f resumeDecision = ResumeNo | ResumeError engineError | ResumeWith "'f workflowGraph" json json

definition resumeDecide :: "'s storeOps \<Rightarrow> string \<Rightarrow> ('f, 's) engine \<Rightarrow> 'f resumeDecision" where
  "resumeDecide ops runID e =
     (case so_GetRun ops (snd e) runID of
        None \<Rightarrow> ResumeNo
      | Some r \<Rightarrow>
          if run_Status r \<noteq> RunStatusWaiting then ResumeNo
          else if run_Spec r = JNil then ResumeError (EText ''run has no spec stored; cannot resume'')
          else case HandlerRegistryForTenant (fst e) (run_TenantID r) of
                 None \<Rightarrow> ResumeError (EText ''no handler registry configured on runner'')
               | Some reg \<Rightarrow>
                   (case ParseWorkflowSpecJSON (run_Spec r) of
                      Inl err \<Rightarrow> ResumeError err
                    | Inr (g, spec) \<Rightarrow>
                        (case CompileSpecToExecutable spec g (Some reg) of
                           Inl err \<Rightarrow> ResumeError err
                         | Inr exec \<Rightarrow> ResumeWith exec (run_InitialInput r) (run_Spec r))))"

type_synonym ('f, 's) dagCall = "string \<Rightarrow> 'f workflowGraph \<Rightarrow> json \<Rightarrow> json \<Rightarrow> ('f, 's) engine \<Rightarrow> engineError option \<times> ('f, 's) engine"

definition resumeWaitingRun ::
  "'s storeOps \<Rightarrow> ('f, 's) dagCall \<Rightarrow> string \<Rightarrow> ('f, 's) engine \<Rightarrow> (bool \<times> engineError option) \<times> ('f, 's) engine" where
  "resumeWaitingRun ops dag runID e =
     (case resumeDecide ops runID e of
        ResumeNo \<Rightarrow> ((False, None), e)
      | ResumeError err \<Rightarrow> ((False, Some err), e)
      | ResumeWith exec input spec \<Rightarrow> (case dag runID exec input spec e of (err, e1) \<Rightarrow> ((True, err), e1)))"

text \<open>Go visits the runs of the due timers in an order of its choice, \<open>order\<close>.\<close>

fun resumeLoop :: "'s storeOps \<Rightarrow> ('f, 's) dagCall \<Rightarrow> string list \<Rightarrow> int \<Rightarrow> ('f, 's) engine \<Rightarrow> int \<times> ('f, 's) engine" where
  "resumeLoop ops dag [] n e = (n, e)"
| "resumeLoop ops dag (i # is) n e =
     (case resumeWaitingRun ops dag i e of
        ((ok, Some err), e1) \<Rightarrow> resumeLoop ops dag is n e1
      | ((ok, None), e1) \<Rightarrow> resumeLoop ops dag is (if ok then n + 1 else n) e1)"

definition FireDueTimersAndResume ::
  "'s storeOps \<Rightarrow> ('f, 's) dagCall \<Rightarrow> (string list \<Rightarrow> string list) \<Rightarrow> gotime \<Rightarrow> ('f, 's) engine
     \<Rightarrow> (int \<times> int \<times> engineError option) \<times> ('f, 's) engine" where
  "FireDueTimersAndResume ops dag order now = (\<lambda>(m, s).
     let due = so_ListDueTimers ops s now in
     if due = [] then ((0, 0, None), (m, s))
     else case FireDueTimers ops now s of
            ((fired, Some err), s1) \<Rightarrow> ((fired, 0, Some err), (m, s1))
          | ((fired, None), s1) \<Rightarrow>
              if fired = 0 then ((0, 0, None), (m, s1))
              else case resumeLoop ops dag (order (remdups (map tm_RunID due))) 0 (m, s1) of
                     (resumed, e) \<Rightarrow> ((fired, resumed, None), e))"

section \<open>Replay\<close>

abbreviation ReplayLive :: string where "ReplayLive \<equiv> ''live''"
abbreviation ReplayTimeTravel :: string where "ReplayTimeTravel \<equiv> ''time_travel''"

definition nodeHasSucceededAttempt :: "nodeExecution list \<Rightarrow> string \<Rightarrow> bool" where
  "nodeHasSucceededAttempt nodes nodeID = list_ex (\<lambda>ne. ne_NodeID ne = nodeID \<and> ne_Status ne = NodeStatusSucceeded) nodes"

definition canceledNode :: "gotime \<Rightarrow> nodeExecution \<Rightarrow> nodeExecution" where
  "canceledNode now ne =
     ne\<lparr>ne_Status := NodeStatusCanceled, ne_EndedAt := (case ne_EndedAt ne of None \<Rightarrow> Some now | Some t \<Rightarrow> Some t)\<rparr>"

fun cancelNodes :: "'s storeOps \<Rightarrow> gotime \<Rightarrow> string set \<Rightarrow> nodeExecution list \<Rightarrow> 's \<Rightarrow> engineError option \<times> 's" where
  "cancelNodes ops now nodeIDs [] s = (None, s)"
| "cancelNodes ops now nodeIDs (ne # nes) s =
     (if ne_NodeID ne \<notin> nodeIDs \<or> ne_Status ne = NodeStatusCanceled then cancelNodes ops now nodeIDs nes s
      else case so_UpsertNodeExecution ops now (canceledNode now ne) s of
             (Some err, s1) \<Rightarrow> (Some err, s1)
           | (None, s1) \<Rightarrow> cancelNodes ops now nodeIDs nes s1)"

fun cancelTimers :: "'s storeOps \<Rightarrow> gotime \<Rightarrow> string \<Rightarrow> string set \<Rightarrow> timer list \<Rightarrow> 's \<Rightarrow> engineError option \<times> 's" where
  "cancelTimers ops now runID nodeIDs [] s = (None, s)"
| "cancelTimers ops now runID nodeIDs (t # ts) s =
     (if tm_NodeID t \<notin> nodeIDs \<or> tm_Status t \<noteq> TimerScheduled then cancelTimers ops now runID nodeIDs ts s
      else case so_UpsertTimer ops now (t\<lparr>tm_Status := TimerCanceled, tm_FiredAt := Some now\<rparr>) s of
             (Some err, s1) \<Rightarrow> (Some err, s1)
           | (None, s1) \<Rightarrow>
               cancelTimers ops now runID nodeIDs ts
                 (snd (so_AppendEvent ops now (mkEvent runID EventTimerCanceled (tm_WorkflowID t) (tm_NodeID t) (tm_Attempt t) JNil) s1)))"

definition invalidateNodesAndTimers ::
  "'s storeOps \<Rightarrow> gotime \<Rightarrow> string \<Rightarrow> string set \<Rightarrow> 's \<Rightarrow> engineError option \<times> 's" where
  "invalidateNodesAndTimers ops now runID nodeIDs s =
     (if nodeIDs = {} then (None, s)
      else case cancelNodes ops now nodeIDs (so_ListNodeExecutions ops s runID) s of
             (Some err, s1) \<Rightarrow> (Some err, s1)
           | (None, s1) \<Rightarrow> cancelTimers ops now runID nodeIDs (so_ListTimers ops s1 runID) s1)"

definition cacheNode :: "(string, replayCacheEntry) gomap \<Rightarrow> nodeExecution \<Rightarrow> (string, replayCacheEntry) gomap" where
  "cacheNode cache ne =
     (if ne_Status ne \<noteq> NodeStatusSucceeded \<or> ne_Output ne = JNil then cache
      else if (case mget cache (ne_NodeID ne) of None \<Rightarrow> True | Some cur \<Rightarrow> rc_Attempt cur < ne_Attempt ne)
      then mput (ne_NodeID ne) \<lparr>rc_Attempt = ne_Attempt ne, rc_Output = ne_Output ne\<rparr> cache
      else cache)"

definition buildReplayCacheFromRun :: "'s storeOps \<Rightarrow> string \<Rightarrow> 's \<Rightarrow> (string, replayCacheEntry) gomap" where
  "buildReplayCacheFromRun ops srcRunID s = foldl cacheNode [] (so_ListNodeExecutions ops s srcRunID)"

definition compileExecutableFromStoredSpec ::
  "string \<Rightarrow> run \<Rightarrow> 'f runnerMem \<Rightarrow> (engineError + 'f workflowGraph) \<times> 'f runnerMem" where
  "compileExecutableFromStoredSpec runID r m =
     (if run_Spec r = JNil then (Inl (EText ''replay: no cached graph and no stored spec''), m)
      else case HandlerRegistryForTenant m (run_TenantID r) of
             None \<Rightarrow> (Inl (EText ''replay: no cached graph; runner has no handler registry to compile stored spec''), m)
           | Some reg \<Rightarrow>
               (case ParseWorkflowSpecJSON (run_Spec r) of
                  Inl err \<Rightarrow> (Inl (EWrap ''replay: parse stored spec failed'' err), m)
                | Inr (g, spec) \<Rightarrow>
                    (case CompileSpecToExecutable spec g (Some reg) of
                       Inl err \<Rightarrow> (Inl (EWrap ''replay: compile stored spec failed'' err), m)
                     | Inr exec \<Rightarrow>
                         let exec1 = exec\<lparr>wg_ID := run_WorkflowID r\<rparr> in (Inr exec1, rememberGraph (run_WorkflowID r) exec1 m))))"

definition rootNode :: "'f workflowGraph \<Rightarrow> string" where
  "rootNode g =
     (case find (\<lambda>n. \<not> list_ex (\<lambda>e. ed_To e = nd_NodeID n) (wg_Edges g)) (wg_Nodes g) of None \<Rightarrow> '''' | Some n \<Rightarrow> nd_NodeID n)"

definition initialInputFromRun :: "'s storeOps \<Rightarrow> string \<Rightarrow> 'f workflowGraph \<Rightarrow> 's \<Rightarrow> json" where
  "initialInputFromRun ops runID g s =
     (let rootID = rootNode g in
      if rootID = '''' then JObj []
      else case foldl (\<lambda>(bestAttempt, best) ne.
               if ne_NodeID ne = rootID \<and> ne_Input ne \<noteq> JNil \<and> ne_Attempt ne < bestAttempt
               then (ne_Attempt ne, ne_Input ne) else (bestAttempt, best)) (2 ^ 63 - 1, JNil) (so_ListNodeExecutions ops s runID) of
             (_, best) \<Rightarrow> if best = JNil then JObj [] else best)"

text \<open>The executable graph of a replay: the remembered one, or compiled from the stored text.\<close>

definition replayGraph :: "string \<Rightarrow> run \<Rightarrow> 'f runnerMem \<Rightarrow> (engineError + 'f workflowGraph) \<times> 'f runnerMem" where
  "replayGraph runID r m =
     (case getGraph m (run_WorkflowID r) of Some g \<Rightarrow> (Inr g, m) | None \<Rightarrow> compileExecutableFromStoredSpec runID r m)"

definition requeued :: "'s storeOps \<Rightarrow> gotime \<Rightarrow> run \<Rightarrow> 's \<Rightarrow> 's" where
  "requeued ops now r s =
     (if run_Status r = RunStatusSucceeded
      then snd (so_UpdateRun ops now (r\<lparr>run_Status := RunStatusQueued, run_EndedAt := None, run_TerminalReason := '''', run_TerminalMeta := JNil\<rparr>) s)
      else s)"

text \<open>The nodes that are to run again.\<close>

definition replaySet :: "'s storeOps \<Rightarrow> string \<Rightarrow> string \<Rightarrow> string \<Rightarrow> 'f workflowGraph \<Rightarrow> 's \<Rightarrow> string set" where
  "replaySet ops runID fromStep mode g s =
     (if fromStep \<noteq> '''' then
        let suffix = downstreamNodes g fromStep in
        if mode = ReplayTimeTravel \<and> nodeHasSucceededAttempt (so_ListNodeExecutions ops s runID) fromStep
        then suffix - {fromStep} else suffix
      else if mode = ReplayLive then set (map nd_NodeID (wg_Nodes g))
      else {})"

definition ReplayFrom ::
  "(json \<Rightarrow> string) \<Rightarrow> ('f, ('f, 's) engine) runnerCfg \<Rightarrow> 's svcEnv \<Rightarrow> callCtx \<Rightarrow> gotime \<Rightarrow> string \<Rightarrow> string \<Rightarrow> string \<Rightarrow> throttleState
     \<Rightarrow> ('f, 's) engine \<Rightarrow> ('f, ('f, 's) engine) dagStarted" where
  "ReplayFrom rawText cfg env ctx now runID fromStep0 mode th = (\<lambda>(m, s).
     let ops = sx_ops env; fromStep = TrimSpace fromStep0 in
     case so_GetRun ops s runID of
       None \<Rightarrow> StartStop (Some ErrRunNotFound) (m, s)
     | Some r \<Rightarrow>
         (case ensureRunTenantAccess env ctx now r ''run.replay'' s of
            (Some err, s1) \<Rightarrow> StartStop (Some err) (m, s1)
          | (None, s1) \<Rightarrow>
              (case replayGraph runID r m of
                 (Inl err, m1) \<Rightarrow> StartStop (Some err) (m1, s1)
               | (Inr exec, m1) \<Rightarrow>
                   let initial = (if run_InitialInput r = JNil then initialInputFromRun ops runID exec s1 else run_InitialInput r);
                       redo = replaySet ops runID fromStep mode exec s1 in
                   if fromStep \<noteq> '''' \<and> \<not> graphHasNode exec fromStep
                   then StartStop (Some (EText (''replay: unknown from-step '' @ quoted fromStep))) (m1, s1)
                   else
                     (case invalidateNodesAndTimers ops now runID redo s1 of
                        (Some err, s2) \<Rightarrow> StartStop (Some err) (m1, s2)
                      | (None, s2) \<Rightarrow>
                          let s3 = (if fromStep \<noteq> '''' \<or> mode = ReplayLive then requeued ops now r s2 else s2) in
                          if mode = ReplayTimeTravel then
                            startRun rawText cfg env ctx now runID exec initial (run_Spec r) (Some (buildReplayCacheFromRun ops runID s3)) th (m1, s3)
                          else if mode = ReplayLive then
                            startRun rawText cfg env ctx now runID exec initial (run_Spec r) None th (m1, s3)
                          else StartStop (Some (EText (''unknown replay mode: '' @ quoted mode))) (m1, s3)))))"

definition Replay ::
  "(json \<Rightarrow> string) \<Rightarrow> ('f, ('f, 's) engine) runnerCfg \<Rightarrow> 's svcEnv \<Rightarrow> callCtx \<Rightarrow> gotime \<Rightarrow> string \<Rightarrow> string \<Rightarrow> throttleState
     \<Rightarrow> ('f, 's) engine \<Rightarrow> ('f, ('f, 's) engine) dagStarted" where
  "Replay rawText cfg env ctx now runID mode th e = ReplayFrom rawText cfg env ctx now runID '''' mode th e"

section \<open>Running a specification\<close>

definition RunSpecJSON ::
  "(json \<Rightarrow> string) \<Rightarrow> ('f, ('f, 's) engine) runnerCfg \<Rightarrow> 's svcEnv \<Rightarrow> callCtx \<Rightarrow> gotime \<Rightarrow> string \<Rightarrow> json \<Rightarrow> 'f handlerRegistry option \<Rightarrow> json
     \<Rightarrow> throttleState \<Rightarrow> ('f, 's) engine \<Rightarrow> ('f, ('f, 's) engine) dagStarted" where
  "RunSpecJSON rawText cfg env ctx now runID specJSON reg0 initialInput th = (\<lambda>(m, s).
     let tenantID = effectiveTenantFromContext ctx; known = HandlerRegistryForTenant m tenantID;
         reg = (if reg0 = None then known else reg0);
         m1 = (if reg0 = None \<or> known \<noteq> None then m
               else if tenantID \<noteq> '''' then SetTenantHandlerRegistry tenantID reg0 m else m\<lparr>rm_registry := reg0\<rparr>)
     in case ParseWorkflowSpecJSON specJSON of
          Inl err \<Rightarrow> StartStop (Some err) (m1, s)
        | Inr (g, spec) \<Rightarrow>
            (case CompileSpecToExecutable spec g reg of
               Inl err \<Rightarrow> StartStop (Some err) (m1, s)
             | Inr exec \<Rightarrow> startRun rawText cfg env ctx now runID exec initialInput specJSON None th (m1, s)))"

section \<open>Timers under a store that keeps its contract\<close>

lemma view_timer:
  "view ops s' = view ops s \<Longrightarrow> so_GetTimer ops s' = so_GetTimer ops s"
  "view ops s' = put_timer t (view ops s) \<Longrightarrow>
     so_GetTimer ops s' = (\<lambda>r i a. if timerKey r i a = timerKeyOf t then Some t else so_GetTimer ops s r i a)"
  "view ops s' = add_event e (view ops s) \<Longrightarrow> so_GetTimer ops s' = so_GetTimer ops s"
  by (drule arg_cong [of _ _ sv_timer], simp add: view_def view_updates cong: if_cong)+

lemma view_node:
  "view ops s' = view ops s \<Longrightarrow> so_GetNodeExecution ops s' = so_GetNodeExecution ops s"
  "view ops s' = put_node n (view ops s) \<Longrightarrow>
     so_GetNodeExecution ops s' = (\<lambda>r i a. if (r, i, a) = nodeKeyOf n then Some n else so_GetNodeExecution ops s r i a)"
  "view ops s' = put_timer t (view ops s) \<Longrightarrow> so_GetNodeExecution ops s' = so_GetNodeExecution ops s"
  "view ops s' = add_event e (view ops s) \<Longrightarrow> so_GetNodeExecution ops s' = so_GetNodeExecution ops s"
  "view ops s' = put_run r (view ops s) \<Longrightarrow> so_GetNodeExecution ops s' = so_GetNodeExecution ops s"
  by (drule arg_cong [of _ _ sv_node], simp add: view_def view_updates cong: if_cong)+

lemma view_run_timer: "view ops s' = put_timer t (view ops s) \<Longrightarrow> so_GetRun ops s' = so_GetRun ops s"
  "view ops s' = put_node n (view ops s) \<Longrightarrow> so_GetRun ops s' = so_GetRun ops s"
  by (drule arg_cong [of _ _ sv_run], simp add: view_def view_updates)+

lemma view_ok_timer:
  "view_ok v \<Longrightarrow> sv_timer v r i a = Some t \<Longrightarrow> timerKeyOf t = timerKey r i a"
  "view_ok v \<Longrightarrow> timerKey r i a = timerKey r' i' a' \<Longrightarrow> sv_timer v r i a = sv_timer v r' i' a'"
  unfolding view_ok_def by blast+

lemma view_ok_node: "view_ok v \<Longrightarrow> sv_node v r i a = Some n \<Longrightarrow> nodeKeyOf n = (r, i, a)"
  unfolding view_ok_def by blast

definition stored_timer :: "'s storeOps \<Rightarrow> 's \<Rightarrow> timer \<Rightarrow> bool" where
  "stored_timer ops s t \<longleftrightarrow> (\<exists>r i a. so_GetTimer ops s r i a = Some t)"

text \<open>\<open>retimed f T s s'\<close>: the stored timers in \<open>T\<close> became their image under \<open>f\<close>; all other timers, the
  runs and the node executions are as before.\<close>

definition retimed :: "'s storeOps \<Rightarrow> (timer \<Rightarrow> timer) \<Rightarrow> timer set \<Rightarrow> 's \<Rightarrow> 's \<Rightarrow> bool" where
  "retimed ops f T s s' \<longleftrightarrow> so_GetRun ops s' = so_GetRun ops s \<and> so_GetNodeExecution ops s' = so_GetNodeExecution ops s \<and>
     (\<forall>r i a. so_GetTimer ops s' r i a = map_option (\<lambda>t. if t \<in> T then f t else t) (so_GetTimer ops s r i a))"

lemma retimed_refl [simp]: "retimed ops f {} s s"
  by (simp add: retimed_def option.map_ident)

lemma retimed_trans:
  assumes "retimed ops f T s s1" "retimed ops f T' s1 s'" "\<And>t. t \<in> T \<Longrightarrow> f t \<notin> T'"
  shows "retimed ops f (T \<union> T') s s'"
  unfolding retimed_def
proof (intro conjI allI)
  fix r i a
  show "so_GetTimer ops s' r i a = map_option (\<lambda>t. if t \<in> T \<union> T' then f t else t) (so_GetTimer ops s r i a)"
    using assms by (cases "so_GetTimer ops s r i a") (auto simp: retimed_def)
qed (use assms in \<open>simp_all add: retimed_def\<close>)

lemma retimed_stored: "retimed ops f T s s' \<Longrightarrow> stored_timer ops s t \<Longrightarrow> t \<notin> T \<Longrightarrow> stored_timer ops s' t"
  by (fastforce simp: retimed_def stored_timer_def)

context store_contract
begin

lemma timer_of_key: "sinv s \<Longrightarrow> so_GetTimer ops s r i a = Some t \<Longrightarrow> timerKeyOf t = timerKey r i a"
  using view_ok_timer(1) [OF inv_view, of s r i a t] by (simp add: view_def)

lemma same_key: "sinv s \<Longrightarrow> timerKey r i a = timerKey r' i' a' \<Longrightarrow> so_GetTimer ops s r i a = so_GetTimer ops s r' i' a'"
  using view_ok_timer(2) [OF inv_view, of s r i a r' i' a'] by (simp add: view_def)

lemma stored_key: "sinv s \<Longrightarrow> stored_timer ops s t \<Longrightarrow> timerKey r i a = timerKeyOf t \<Longrightarrow> so_GetTimer ops s r i a = Some t"
  unfolding stored_timer_def by (metis timer_of_key same_key)

lemma retime_one:
  assumes "sinv s" "so_UpsertTimer ops now (f t) s = (None, s')" "stored_timer ops s t" "timerKeyOf (f t) = timerKeyOf t"
  shows "sinv s' \<and> retimed ops f {t} s s'"
proof -
  have v: "sinv s'" "view ops s' = put_timer (f t) (view ops s)" using timer [OF assms(1,2)] by simp_all
  have "so_GetTimer ops s' r i a = map_option (\<lambda>x. if x \<in> {t} then f x else x) (so_GetTimer ops s r i a)" for r i a
  proof (cases "timerKey r i a = timerKeyOf t")
    case True
    then show ?thesis using stored_key [OF assms(1,3) True] assms(4) by (simp add: view_timer(2) [OF v(2)])
  next
    case False
    then have "so_GetTimer ops s r i a \<noteq> Some t" using timer_of_key [OF assms(1), of r i a t] by auto
    with False show ?thesis using assms(4) by (cases "so_GetTimer ops s r i a") (simp_all add: view_timer(2) [OF v(2)])
  qed
  then show ?thesis using v by (simp add: retimed_def view_run_timer(1) [OF v(2)] view_node(3) [OF v(2)])
qed

lemma event_keeps:
  assumes "sinv s"
  shows "sinv (snd (so_AppendEvent ops now e s)) \<and> retimed ops f {} s (snd (so_AppendEvent ops now e s))"
proof -
  obtain res s' where p: "so_AppendEvent ops now e s = (res, s')" by fastforce
  show ?thesis
  proof (cases res)
    case (Inl er)
    with event_err [OF assms, of now e er s'] p show ?thesis
      by (simp add: retimed_def view_run(1) [of ops s' s] view_node(1) [of ops s' s] view_timer(1) [of ops s' s] option.map_ident)
  next
    case (Inr e')
    with event_ok [OF assms, of now e e' s'] p show ?thesis
      by (simp add: retimed_def view_run(3) [of ops s' e' s] view_node(4) [of ops s' e' s] view_timer(3) [of ops s' e' s] option.map_ident)
  qed
qed

text \<open>One stored timer is rewritten and an event appended: the step of every loop over timers.\<close>

lemma retime_event:
  assumes "sinv s" "so_UpsertTimer ops now (f t) s = (None, s1)" "stored_timer ops s t" "timerKeyOf (f t) = timerKeyOf t"
  shows "sinv (snd (so_AppendEvent ops now e s1)) \<and> retimed ops f {t} s (snd (so_AppendEvent ops now e s1))"
  using retime_one [where f = f, OF assms] event_keeps [of s1 now e f] retimed_trans [of ops f "{t}" s s1 "{}"] by simp

lemma timer_err: "sinv s \<Longrightarrow> so_UpsertTimer ops now t s = (Some er, s') \<Longrightarrow> sinv s' \<and> retimed ops f {} s s'"
  using timer [of s now t "Some er" s']
  by (simp add: retimed_def view_run(1) [of ops s' s] view_node(1) [of ops s' s] view_timer(1) [of ops s' s] option.map_ident)

lemma fireLoop_fires:
  assumes "sinv s" "fireLoop ops now ts n s = ((k, err), s')" "distinct ts" "\<forall>t \<in> set ts. tm_Status t = TimerScheduled \<and> stored_timer ops s t"
  shows "sinv s' \<and> n \<le> k \<and> k \<le> n + int (length ts) \<and> (err = None \<longrightarrow> k = n + int (length ts)) \<and>
    retimed ops (firedTimer now) (set (take (nat (k - n)) ts)) s s'"
  using assms
proof (induction ts arbitrary: n s)
  case (Cons t ts)
  have t: "tm_Status t = TimerScheduled" "stored_timer ops s t" using Cons.prems(4) by simp_all
  have key: "timerKeyOf (firedTimer now t) = timerKeyOf t" by (simp add: firedTimer_def timerKeyOf_def)
  obtain e1 s1 where u: "so_UpsertTimer ops now (firedTimer now t) s = (e1, s1)" by fastforce
  show ?case
  proof (cases e1)
    case None
    define s2 where "s2 = snd (so_AppendEvent ops now (timerFiredEvent now t) s1)"
    have s2: "sinv s2" "retimed ops (firedTimer now) {t} s s2"
      using retime_event [where f = "firedTimer now" and e = "timerFiredEvent now t", OF Cons.prems(1) u [unfolded None] t(2) key] by (simp_all add: s2_def)
    have rest: "fireLoop ops now ts (n + 1) s2 = ((k, err), s')" using Cons.prems(2) t(1) u None by (simp add: s2_def)
    have st: "\<forall>x \<in> set ts. tm_Status x = TimerScheduled \<and> stored_timer ops s2 x"
      using Cons.prems(3,4) retimed_stored [OF s2(2)] by auto
    from Cons.IH [OF s2(1) rest _ st] Cons.prems(3)
    have ih: "sinv s'" "n + 1 \<le> k" "k \<le> n + 1 + int (length ts)" "err = None \<longrightarrow> k = n + 1 + int (length ts)"
      "retimed ops (firedTimer now) (set (take (nat (k - (n + 1))) ts)) s2 s'" by simp_all
    have "firedTimer now t \<notin> set ts" using Cons.prems(4) by (auto simp: firedTimer_def)
    then have "retimed ops (firedTimer now) ({t} \<union> set (take (nat (k - (n + 1))) ts)) s s'"
      using retimed_trans [OF s2(2) ih(5)] by (auto dest: in_set_takeD)
    moreover have "nat (k - n) = Suc (nat (k - (n + 1)))" using ih(2) by simp
    ultimately show ?thesis using ih(1-4) by simp
  next
    case (Some er)
    then show ?thesis using Cons.prems(2) t(1) u timer_err [OF Cons.prems(1), of now "firedTimer now t" er s1 "firedTimer now"] by auto
  qed
qed simp

lemma due_facts:
  assumes "sinv s"
  shows "distinct (so_ListDueTimers ops s now)" "t \<in> set (so_ListDueTimers ops s now) \<longleftrightarrow> timerDue now t \<and> stored_timer ops s t"
  using due_list [OF assms, of now] by (simp_all add: stored_timer_def)

lemma FireDueTimers_fires:
  assumes "sinv s" "FireDueTimers ops now s = ((n, err), s')"
  shows "sinv s' \<and> 0 \<le> n \<and> n \<le> int (length (so_ListDueTimers ops s now)) \<and> (err = None \<longrightarrow> n = int (length (so_ListDueTimers ops s now))) \<and>
    retimed ops (firedTimer now) (set (take (nat n) (so_ListDueTimers ops s now))) s s'"
proof (cases "so_ListDueTimers ops s now = []")
  case True
  with assms show ?thesis by (auto simp: FireDueTimers_def)
next
  case False
  then have "fireLoop ops now (so_ListDueTimers ops s now) 0 s = ((n, err), s')" using assms(2) by (simp add: FireDueTimers_def Let_def)
  from fireLoop_fires [OF assms(1) this due_facts(1) [OF assms(1)]] due_facts(2) [OF assms(1)] show ?thesis by (simp add: timerDue_def)
qed

lemma none_left_due:
  assumes "sinv s" "sinv s'" "retimed ops (firedTimer now) (set (so_ListDueTimers ops s now)) s s'"
  shows "so_ListDueTimers ops s' now = []"
proof -
  have "\<not> timerDue now t" if t: "stored_timer ops s' t" for t
  proof -
    from t obtain r i a where "so_GetTimer ops s' r i a = Some t" by (auto simp: stored_timer_def)
    with assms(3) obtain x where x: "so_GetTimer ops s r i a = Some x" "t = (if x \<in> set (so_ListDueTimers ops s now) then firedTimer now x else x)"
      by (fastforce simp: retimed_def)
    then show ?thesis using due_facts(2) [OF assms(1), of x now] by (auto simp: stored_timer_def firedTimer_def timerDue_def)
  qed
  then have "t \<notin> set (so_ListDueTimers ops s' now)" for t using due_facts(2) [OF assms(2), of t now] by blast
  then show ?thesis by (cases "so_ListDueTimers ops s' now") auto
qed

end

text \<open>C30. Timers fire when they are due, once, and nothing else moves.  Of the timers that are
  scheduled for now or earlier, \<open>FireDueTimers\<close> marks the first \<open>n\<close> in firing order as fired at this
  time, where \<open>n\<close> is the number it returns; without an error these are all of them and none is left
  to fire.  Every other timer, every run and every node execution is unchanged, on the error path
  too.\<close>

theorem timers_fire_exactly:
  assumes "store_contract ops sinv" "sinv s" "FireDueTimers ops now s = ((n, err), s')"
  shows "set (so_ListDueTimers ops s now) = {t. timerDue now t \<and> stored_timer ops s t} \<and>
    0 \<le> n \<and> n \<le> int (length (so_ListDueTimers ops s now)) \<and>
    retimed ops (firedTimer now) (set (take (nat n) (so_ListDueTimers ops s now))) s s' \<and>
    (err = None \<longrightarrow> n = int (length (so_ListDueTimers ops s now)) \<and> so_ListDueTimers ops s' now = [])"
proof -
  note f = store_contract.FireDueTimers_fires [OF assms]
  have "so_ListDueTimers ops s' now = []" if "err = None"
    using store_contract.none_left_due [OF assms(1,2), of s' now] f that by (metis nat_int take_all order_refl)
  moreover have "set (so_ListDueTimers ops s now) = {t. timerDue now t \<and> stored_timer ops s t}"
    using store_contract.due_facts(2) [OF assms(1,2)] by blast
  ultimately show ?thesis using f by simp
qed

definition timer_demo :: memStore where
  "timer_demo = snd (UpsertTimer \<lparr>tm_RunID = ''r'', tm_WorkflowID = ''w'', tm_NodeID = ''n'', tm_Attempt = 1, tm_Status = TimerScheduled,
     tm_FireAt = 5, tm_CreatedAt = 1, tm_FiredAt = None, tm_Reason = ''delay''\<rparr> (snd (CreateRun \<lparr>run_RunID = ''r'', run_WorkflowID = ''w'',
       run_Status = RunStatusWaiting, run_StartedAt = Some 1, run_EndedAt = None, run_Spec = JNil, run_InitialInput = JNil, run_TenantID = '''',
       run_TerminalReason = '''', run_TerminalMeta = JNil, run_RunBudget = zeroBudget, run_BudgetUsage = zeroUsage\<rparr> NewMemoryStore)))"

lemma timer_demo_inv: "mem_inv timer_demo"
  unfolding timer_demo_def
  using UpsertTimer_mem [OF _ prod.collapse [symmetric]] CreateRun_mem [OF new_store_inv prod.collapse [symmetric]] by blast

lemma timer_demo_due: "length (ListDueTimers timer_demo 7) = 1" "fst (FireDueTimers memOps 7 timer_demo) = (1, None)"
  by code_simp+

theorem timers_fire_exactly_witness:
  "\<exists>s'. FireDueTimers memOps 7 timer_demo = ((1, None), s') \<and> retimed memOps (firedTimer 7) (set (ListDueTimers timer_demo 7)) timer_demo s' \<and>
     ListDueTimers s' 7 = []"
proof -
  have e: "FireDueTimers memOps 7 timer_demo = ((1, None), snd (FireDueTimers memOps 7 timer_demo))"
    using timer_demo_due(2) by (simp add: prod_eq_iff)
  from timers_fire_exactly [OF mem.store_contract_axioms timer_demo_inv e] timer_demo_due(1) e show ?thesis by auto
qed

section \<open>What a started run resumes from\<close>

lemma resumeFrom_done_iff:
  "mget (ri_done (resumeFrom nes)) i \<noteq> None \<longleftrightarrow> (\<exists>ne \<in> set nes. ne_NodeID ne = i \<and> ne_Status ne = NodeStatusSucceeded)"
proof -
  have "mget (ri_done (fold resumeNode nes x)) i \<noteq> None \<longleftrightarrow>
      (\<exists>ne \<in> set nes. ne_NodeID ne = i \<and> ne_Status ne = NodeStatusSucceeded) \<or> mget (ri_done x) i \<noteq> None" for x
    by (induction nes arbitrary: x) (auto simp: resumeNode_def Let_def)
  then show ?thesis by (simp add: resumeFrom_def)
qed

context store_contract
begin

lemma access_moves:
  assumes "sinv s" "sx_ops env = ops"
  shows "sinv (snd (ensureRunTenantAccess env ctx now r act s))" "kv_moves ops isAuditKey s (snd (ensureRunTenantAccess env ctx now r act s))"
  using append_audit [OF assms] assms(1) by (auto simp: ensureRunTenantAccess_def Let_def split: option.split)

lemma succeeded_nodes:
  assumes "sinv s"
  shows "(\<exists>ne \<in> set (so_ListNodeExecutions ops s runID). ne_NodeID ne = i \<and> ne_Status ne = NodeStatusSucceeded) \<longleftrightarrow>
    (\<exists>a ne. so_GetNodeExecution ops s runID i a = Some ne \<and> ne_Status ne = NodeStatusSucceeded)"
proof -
  have "ne_NodeID ne = j" if "so_GetNodeExecution ops s runID j a = Some ne" for j a ne
    using inv_view [OF assms] that unfolding view_ok_def view_def nodeKeyOf_def by auto
  then show ?thesis unfolding conjunct2 [OF nodes_list [OF assms, of runID]] by blast
qed

end

lemma startRun_resumes:
  assumes "store_contract ops sinv" "sx_ops env = ops" "sinv s"
    and "startRun rawText cfg env ctx now runID g input spec cache th (m, s) = StartLoop denv st"
    and "so_GetRun ops s runID = Some r"
  shows "run_Status r \<noteq> RunStatusSucceeded" "run_Status r \<noteq> RunStatusCanceled"
    "mget (dg_done st) i \<noteq> None \<longleftrightarrow> (\<exists>a ne. so_GetNodeExecution ops s runID i a = Some ne \<and> ne_Status ne = NodeStatusSucceeded)"
proof -
  let ?G = "engineGates rawText env ctx now runID g spec input" and ?cfg = "engineCfg cfg env ctx"
  obtain e0 rep m1 s1 where a: "gt_authorize ?G (m, s) = (None, e0)" and rk: "gt_risk ?G e0 = (Inr rep, (m1, s1))"
    and s1: "sinv s1" "kv_moves ops isAuditKey s s1"
    by (rule startRun_passed [OF assms(1-4)]) blast
  have run: "so_GetRun ops s1 runID = Some r" using kv_moves_reads(1) [OF s1(2)] assms(5) by simp
  define s2 where "s2 = snd (ensureRunTenantAccess env ctx now r ''run.resume'' s1)"
  have s2: "sinv s2" "kv_moves ops isAuditKey s1 s2"
    using store_contract.access_moves [OF assms(1) s1(1) assms(2)] by (simp_all add: s2_def)
  have acc: "gt_access ?G r (m1, s1) = (fst (ensureRunTenantAccess env ctx now r ''run.resume'' s1), (m1, s2))"
    by (simp add: engineGates_def onStore_def s2_def split: prod.split)
  have lift: "rn_ops ?cfg = liftOps ops" by (simp add: engineCfg_def assms(2))
  have nodes: "so_ListNodeExecutions (liftOps ops) (m1, s2) runID = so_ListNodeExecutions ops s2 runID" by (simp add: liftOps_def)
  have fin: "dg_done st = ri_done (resumeFrom (so_ListNodeExecutions ops s2 runID))"
    if "enterLoop ?cfg now runID wfl t g input cache th r0 used (resumeFrom (so_ListNodeExecutions ops s2 runID)) e = StartLoop denv st" for wfl t r0 used e
    using enterLoop_StartLoop(7) [OF that] .
  have "run_Status r \<noteq> RunStatusSucceeded \<and> run_Status r \<noteq> RunStatusCanceled \<and> dg_done st = ri_done (resumeFrom (so_ListNodeExecutions ops s2 runID))"
    using assms(4) [unfolded startRun_def dagStart_def Let_def] run
    by (auto simp: a rk lift acc nodes split: option.splits if_split_asm dest: fin)
  then show "run_Status r \<noteq> RunStatusSucceeded" "run_Status r \<noteq> RunStatusCanceled"
    "mget (dg_done st) i \<noteq> None \<longleftrightarrow> (\<exists>a ne. so_GetNodeExecution ops s runID i a = Some ne \<and> ne_Status ne = NodeStatusSucceeded)"
    using resumeFrom_done_iff [of "so_ListNodeExecutions ops s2 runID" i] store_contract.succeeded_nodes [OF assms(1) s2(1), of runID i]
      kv_moves_reads(2) [OF s1(2)] kv_moves_reads(2) [OF s2(2)] by simp_all
qed

section \<open>A cancelled run\<close>

context store_contract
begin

lemma event_view:
  assumes "sinv s"
  shows "sinv (snd (so_AppendEvent ops now e s))" "so_GetRun ops (snd (so_AppendEvent ops now e s)) = so_GetRun ops s"
  using event_keeps [OF assms, of now e id] by (simp_all add: retimed_def)

lemma CancelRun_effect:
  assumes "sinv s" "sx_ops env = ops" "CancelRun env ctx now runID reason (t, s) = (None, (t', s'))" "so_GetRun ops s (TrimSpace runID) = Some r"
  shows "may_access ctx r \<and> sinv s' \<and>
    (if run_Status r \<in> {RunStatusSucceeded, RunStatusFailed} then so_GetRun ops s' = so_GetRun ops s \<and> t' = t
     else (\<exists>r'. so_GetRun ops s' = (so_GetRun ops s)(TrimSpace runID \<mapsto> r') \<and> run_Status r' = RunStatusCanceled) \<and>
       t' = snd (cancelRunContext (TrimSpace runID) t))"
proof -
  let ?i = "TrimSpace runID" and ?A = "ensureRunTenantAccess env ctx now r ''run.cancel'' s"
  have ri: "run_RunID r = ?i" using inv_view [OF assms(1)] assms(4) by (simp add: view_ok_def view_def)
  have ne: "?i \<noteq> ''''" and acc: "fst ?A = None" using assms(3,4)
    by (auto simp: CancelRun_def Let_def assms(2) split: if_splits prod.splits option.splits)
  define s1 where "s1 = snd ?A"
  have A: "?A = (None, s1)" using acc by (simp add: s1_def prod_eq_iff)
  have s1: "sinv s1" "so_GetRun ops s1 = so_GetRun ops s"
    using access_moves [OF assms(1,2)] kv_moves_reads(1) [OF access_moves(2) [OF assms(1,2)]] by (simp_all add: s1_def)
  let ?r = "r\<lparr>run_Status := RunStatusCanceled, run_EndedAt := Some now\<rparr>"
  have upd: "sinv s2 \<and> so_GetRun ops s2 = (so_GetRun ops s)(?i \<mapsto> ?r)" if "so_UpdateRun ops now ?r s1 = (None, s2)" for s2
    using update [OF s1(1) that] view_run(2) [of ops s2 ?r s1] ri s1(2) by simp
  have "may_access ctx r" using acc access_exact [of env ctx now r "''run.cancel''" s] by simp
  moreover have old: "(so_GetRun ops s)(?i \<mapsto> r) = so_GetRun ops s" using assms(4) by auto
  ultimately show ?thesis using assms(3) ne s1 upd event_view
    by (auto simp: CancelRun_def Let_def assms(2,4) A split: if_splits prod.splits option.splits intro: exI [of _ r] exI [of _ ?r])
qed

end

text \<open>Cancelling a run.  A call of \<open>CancelRun\<close> that reports success was made by a caller who may
  access the run.  A run that had already succeeded or failed is left as it was.  Any other run is
  now cancelled in the store, no other run has changed, the context of its scheduler, if one is
  registered, is cancelled, and the run never runs again: whoever starts, resumes or replays it,
  with whatever graph and policies, the scheduler's loop is not entered.\<close>

theorem cancel_run_final:
  assumes "store_contract ops sinv" "sx_ops env = ops" "sinv s" "so_GetRun ops s (TrimSpace runID) = Some r"
    and "CancelRun env ctx now runID reason (t, s) = (None, (t', s'))"
  shows "may_access ctx r \<and>
    (if run_Status r \<in> {RunStatusSucceeded, RunStatusFailed} then so_GetRun ops s' = so_GetRun ops s \<and> t' = t
     else (\<exists>r'. so_GetRun ops s' = (so_GetRun ops s)(TrimSpace runID \<mapsto> r') \<and> run_Status r' = RunStatusCanceled) \<and>
       (case mget (ct_cancels t) (TrimSpace runID) of Some c \<Rightarrow> c \<in> set (ct_done t') | None \<Rightarrow> True) \<and>
       (\<forall>rawText cfg ctx' now' g input spec cache th m denv st.
          startRun rawText cfg env ctx' now' (TrimSpace runID) g input spec cache th (m :: 'f runnerMem, s') \<noteq> StartLoop denv st))"
proof -
  note c = store_contract.CancelRun_effect [OF assms(1,3,2,5,4)]
  have "startRun rawText cfg env ctx' now' (TrimSpace runID) g input spec cache th (m :: 'f runnerMem, s') \<noteq> StartLoop denv st"
    if "so_GetRun ops s' = (so_GetRun ops s)(TrimSpace runID \<mapsto> r')" "run_Status r' = RunStatusCanceled"
    for r' rawText cfg ctx' now' g input spec cache th m denv st
  proof
    assume "startRun rawText cfg env ctx' now' (TrimSpace runID) g input spec cache th (m, s') = StartLoop denv st"
    from startRun_resumes(2) [OF assms(1,2) conjunct1 [OF conjunct2 [OF c]] this] that show False by simp
  qed
  with c show ?thesis by (auto simp: cancelRunContext_def split: option.splits if_splits)
qed

definition waiting_run :: run where
  "waiting_run = \<lparr>run_RunID = ''r'', run_WorkflowID = ''w'', run_Status = RunStatusWaiting, run_StartedAt = Some 1, run_EndedAt = None,
     run_Spec = JNil, run_InitialInput = JNil, run_TenantID = '''', run_TerminalReason = '''', run_TerminalMeta = JNil,
     run_RunBudget = zeroBudget, run_BudgetUsage = zeroUsage\<rparr>"

lemma cancel_demo:
  "GetRun timer_demo (TrimSpace ''r'') = Some waiting_run"
  "fst (CancelRun memSvc anybody 9 ''r'' ''enough'' (\<lparr>ct_cancels = [(''r'', 4)], ct_done = []\<rparr>, timer_demo)) = None"
  by code_simp+

theorem cancel_run_final_witness:
  "\<exists>t' s'. CancelRun memSvc anybody 9 ''r'' ''enough'' (\<lparr>ct_cancels = [(''r'', 4)], ct_done = []\<rparr>, timer_demo) = (None, (t', s')) \<and>
     4 \<in> set (ct_done t') \<and>
     (\<forall>denv st. startRun (\<lambda>_. '''') engine_cfg memSvc acme 10 ''r'' two_nodes (JObj []) JNull None no_caps (clean_mem, s') \<noteq> StartLoop denv st)"
proof -
  let ?C = "CancelRun memSvc anybody 9 ''r'' ''enough'' (\<lparr>ct_cancels = [(''r'', 4)], ct_done = []\<rparr>, timer_demo)"
  have e: "?C = (None, (fst (snd ?C), snd (snd ?C)))" using cancel_demo(2) by (simp add: prod_eq_iff)
  have r: "so_GetRun memOps timer_demo (TrimSpace ''r'') = Some waiting_run" using cancel_demo(1) by simp
  from cancel_run_final [OF mem.store_contract_axioms memSvc_ops timer_demo_inv r e, where 'f = nat] e acme_facts(1) show ?thesis
    by (intro exI [of _ "fst (snd ?C)"] exI [of _ "snd (snd ?C)"]) (simp add: waiting_run_def)
qed

section \<open>Replay\<close>

definition succeeded :: "'s storeOps \<Rightarrow> 's \<Rightarrow> string \<Rightarrow> string \<Rightarrow> bool" where
  "succeeded ops s runID i \<longleftrightarrow> (\<exists>a ne. so_GetNodeExecution ops s runID i a = Some ne \<and> ne_Status ne = NodeStatusSucceeded)"

text \<open>\<open>renoded f T s s'\<close>: the stored node executions in \<open>T\<close> became their image under \<open>f\<close>; the others
  and the runs are as before.\<close>

definition renoded :: "'s storeOps \<Rightarrow> (nodeExecution \<Rightarrow> nodeExecution) \<Rightarrow> nodeExecution set \<Rightarrow> 's \<Rightarrow> 's \<Rightarrow> bool" where
  "renoded ops f T s s' \<longleftrightarrow> so_GetRun ops s' = so_GetRun ops s \<and>
     (\<forall>r i a. so_GetNodeExecution ops s' r i a = map_option (\<lambda>n. if n \<in> T then f n else n) (so_GetNodeExecution ops s r i a))"

lemma renoded_refl [simp]: "renoded ops f {} s s"
  by (simp add: renoded_def option.map_ident)

lemma renoded_trans:
  assumes "renoded ops f T s s1" "renoded ops f T' s1 s'" "\<And>n. n \<in> T \<Longrightarrow> f n \<notin> T'"
  shows "renoded ops f (T \<union> T') s s'"
  unfolding renoded_def
proof (intro conjI allI)
  fix r i a
  show "so_GetNodeExecution ops s' r i a = map_option (\<lambda>n. if n \<in> T \<union> T' then f n else n) (so_GetNodeExecution ops s r i a)"
    using assms by (cases "so_GetNodeExecution ops s r i a") (auto simp: renoded_def)
qed (use assms in \<open>simp_all add: renoded_def\<close>)

definition stored_node :: "'s storeOps \<Rightarrow> 's \<Rightarrow> nodeExecution \<Rightarrow> bool" where
  "stored_node ops s n \<longleftrightarrow> so_GetNodeExecution ops s (ne_RunID n) (ne_NodeID n) (ne_Attempt n) = Some n"

context store_contract
begin

lemma node_key: "sinv s \<Longrightarrow> so_GetNodeExecution ops s r i a = Some n \<Longrightarrow> ne_RunID n = r \<and> ne_NodeID n = i \<and> ne_Attempt n = a"
  using view_ok_node [OF inv_view, of s r i a n] by (simp add: view_def nodeKeyOf_def)

lemma renode_one:
  assumes "sinv s" "so_UpsertNodeExecution ops now (f n) s = (None, s')" "stored_node ops s n" "nodeKeyOf (f n) = nodeKeyOf n"
  shows "sinv s' \<and> renoded ops f {n} s s'"
proof -
  have v: "sinv s'" "view ops s' = put_node (f n) (view ops s)" using node [OF assms(1,2)] by simp_all
  have "so_GetNodeExecution ops s' r i a = map_option (\<lambda>x. if x \<in> {n} then f x else x) (so_GetNodeExecution ops s r i a)" for r i a
  proof (cases "(r, i, a) = nodeKeyOf n")
    case True
    then show ?thesis using assms(3,4) by (simp add: view_node(2) [OF v(2)] stored_node_def nodeKeyOf_def)
  next
    case False
    then have "so_GetNodeExecution ops s r i a \<noteq> Some n" using node_key [OF assms(1), of r i a n] unfolding nodeKeyOf_def by blast
    with False show ?thesis using assms(4) by (cases "so_GetNodeExecution ops s r i a") (simp_all add: view_node(2) [OF v(2)])
  qed
  then show ?thesis using v by (simp add: renoded_def view_run_timer(2) [OF v(2)])
qed

lemma cancelNodes_effect:
  assumes "sinv s" "cancelNodes ops now K nes s = (None, s')" "distinct nes" "\<forall>n \<in> set nes. stored_node ops s n"
  shows "sinv s' \<and> renoded ops (canceledNode now) {n \<in> set nes. ne_NodeID n \<in> K \<and> ne_Status n \<noteq> NodeStatusCanceled} s s'"
  using assms
proof (induction nes arbitrary: s)
  case (Cons n nes)
  let ?T = "{x \<in> set nes. ne_NodeID x \<in> K \<and> ne_Status x \<noteq> NodeStatusCanceled}"
  show ?case
  proof (cases "ne_NodeID n \<notin> K \<or> ne_Status n = NodeStatusCanceled")
    case True
    then have "{x \<in> set (n # nes). ne_NodeID x \<in> K \<and> ne_Status x \<noteq> NodeStatusCanceled} = ?T" by auto
    then show ?thesis using Cons.IH [OF Cons.prems(1)] Cons.prems(2-4) True by simp
  next
    case False
    with Cons.prems(2) obtain s1 where u: "so_UpsertNodeExecution ops now (canceledNode now n) s = (None, s1)"
      and rest: "cancelNodes ops now K nes s1 = (None, s')" by (auto split: prod.splits option.splits)
    have k: "nodeKeyOf (canceledNode now n) = nodeKeyOf n" by (simp add: canceledNode_def nodeKeyOf_def)
    have s1: "sinv s1" "renoded ops (canceledNode now) {n} s s1"
      using renode_one [where f = "canceledNode now", OF Cons.prems(1) u _ k] Cons.prems(4) by simp_all
    have "\<forall>x \<in> set nes. stored_node ops s1 x" using Cons.prems(3,4) s1(2) by (auto simp: stored_node_def renoded_def)
    then have ih: "sinv s'" "renoded ops (canceledNode now) ?T s1 s'" using Cons.IH [OF s1(1) rest] Cons.prems(3) by simp_all
    have "renoded ops (canceledNode now) ({n} \<union> ?T) s s'"
      by (rule renoded_trans [OF s1(2) ih(2)]) (simp add: canceledNode_def)
    moreover have "{x \<in> set (n # nes). ne_NodeID x \<in> K \<and> ne_Status x \<noteq> NodeStatusCanceled} = {n} \<union> ?T" using False by auto
    ultimately show ?thesis using ih(1) by simp
  qed
qed simp

lemma cancelTimers_effect:
  assumes "sinv s" "cancelTimers ops now runID K ts s = (None, s')" "distinct ts" "\<forall>t \<in> set ts. stored_timer ops s t"
  shows "sinv s' \<and> retimed ops (\<lambda>t. t\<lparr>tm_Status := TimerCanceled, tm_FiredAt := Some now\<rparr>)
    {t \<in> set ts. tm_NodeID t \<in> K \<and> tm_Status t = TimerScheduled} s s'"
  using assms
proof (induction ts arbitrary: s)
  case (Cons t ts)
  let ?f = "\<lambda>t. t\<lparr>tm_Status := TimerCanceled, tm_FiredAt := Some now\<rparr>"
  let ?T = "{x \<in> set ts. tm_NodeID x \<in> K \<and> tm_Status x = TimerScheduled}"
  show ?case
  proof (cases "tm_NodeID t \<notin> K \<or> tm_Status t \<noteq> TimerScheduled")
    case True
    then have "{x \<in> set (t # ts). tm_NodeID x \<in> K \<and> tm_Status x = TimerScheduled} = ?T" by auto
    then show ?thesis using Cons.IH [OF Cons.prems(1)] Cons.prems(2-4) True by simp
  next
    case False
    let ?e = "mkEvent runID EventTimerCanceled (tm_WorkflowID t) (tm_NodeID t) (tm_Attempt t) JNil"
    from False Cons.prems(2) obtain s1 where u: "so_UpsertTimer ops now (?f t) s = (None, s1)"
      and rest: "cancelTimers ops now runID K ts (snd (so_AppendEvent ops now ?e s1)) = (None, s')" by (auto split: prod.splits option.splits)
    let ?s2 = "snd (so_AppendEvent ops now ?e s1)"
    have k: "timerKeyOf (?f t) = timerKeyOf t" by (simp add: timerKeyOf_def)
    have s2: "sinv ?s2" "retimed ops ?f {t} s ?s2"
      using retime_event [where f = ?f and e = ?e, OF Cons.prems(1) u _ k] Cons.prems(4) by simp_all
    have "\<forall>x \<in> set ts. stored_timer ops ?s2 x" using Cons.prems(3,4) retimed_stored [OF s2(2)] by auto
    then have ih: "sinv s'" "retimed ops ?f ?T ?s2 s'" using Cons.IH [OF s2(1) rest] Cons.prems(3) by simp_all
    have "retimed ops ?f ({t} \<union> ?T) s s'" by (rule retimed_trans [OF s2(2) ih(2)]) simp
    moreover have "{x \<in> set (t # ts). tm_NodeID x \<in> K \<and> tm_Status x = TimerScheduled} = {t} \<union> ?T" using False by auto
    ultimately show ?thesis using ih(1) by simp
  qed
qed simp

lemma invalidate_effect:
  assumes "sinv s" "invalidateNodesAndTimers ops now runID K s = (None, s')"
  shows "sinv s'" "so_GetRun ops s' = so_GetRun ops s"
    "so_GetNodeExecution ops s' r i a = map_option (\<lambda>n. if r = runID \<and> i \<in> K \<and> ne_Status n \<noteq> NodeStatusCanceled then canceledNode now n else n)
       (so_GetNodeExecution ops s r i a)"
    "stored_timer ops s' t \<Longrightarrow> tm_RunID t = runID \<Longrightarrow> tm_NodeID t \<in> K \<Longrightarrow> tm_Status t \<noteq> TimerScheduled"
proof -
  have "sinv s' \<and> so_GetRun ops s' = so_GetRun ops s \<and>
    (\<forall>r i a. so_GetNodeExecution ops s' r i a = map_option (\<lambda>n. if r = runID \<and> i \<in> K \<and> ne_Status n \<noteq> NodeStatusCanceled then canceledNode now n else n)
       (so_GetNodeExecution ops s r i a)) \<and>
    (\<forall>t. stored_timer ops s' t \<longrightarrow> tm_RunID t = runID \<longrightarrow> tm_NodeID t \<in> K \<longrightarrow> tm_Status t \<noteq> TimerScheduled)"
  proof (cases "K = {}")
    case True
    with assms show ?thesis by (simp add: invalidateNodesAndTimers_def option.map_ident)
  next
    case False
    with assms(2) obtain s1 where n: "cancelNodes ops now K (so_ListNodeExecutions ops s runID) s = (None, s1)"
      and t: "cancelTimers ops now runID K (so_ListTimers ops s1 runID) s1 = (None, s')"
      by (auto simp: invalidateNodesAndTimers_def split: prod.splits option.splits)
    let ?N = "{n \<in> set (so_ListNodeExecutions ops s runID). ne_NodeID n \<in> K \<and> ne_Status n \<noteq> NodeStatusCanceled}"
    let ?f = "\<lambda>t. t\<lparr>tm_Status := TimerCanceled, tm_FiredAt := Some now\<rparr>"
    let ?T = "{t \<in> set (so_ListTimers ops s1 runID). tm_NodeID t \<in> K \<and> tm_Status t = TimerScheduled}"
    have s1: "sinv s1" "renoded ops (canceledNode now) ?N s s1"
      using cancelNodes_effect [OF assms(1) n] nodes_list [OF assms(1), of runID] node_key [OF assms(1)] by (auto simp: stored_node_def)
    have s': "sinv s'" "retimed ops ?f ?T s1 s'"
      using cancelTimers_effect [OF s1(1) t] timers_list [OF s1(1), of runID] by (auto simp: stored_timer_def)
    have "so_GetNodeExecution ops s' r i a = map_option (\<lambda>n. if r = runID \<and> i \<in> K \<and> ne_Status n \<noteq> NodeStatusCanceled then canceledNode now n else n)
       (so_GetNodeExecution ops s r i a)" for r i a
    proof (cases "so_GetNodeExecution ops s r i a")
      case None
      then show ?thesis using s1(2) s'(2) by (simp add: renoded_def retimed_def)
    next
      case (Some x)
      have "x \<in> ?N \<longleftrightarrow> r = runID \<and> i \<in> K \<and> ne_Status x \<noteq> NodeStatusCanceled"
        using Some node_key [OF assms(1) Some] conjunct2 [OF nodes_list [OF assms(1), of runID]] node_key [OF assms(1), of runID] by blast
      with Some show ?thesis using s1(2) s'(2) by (simp add: renoded_def retimed_def)
    qed
    moreover have "tm_Status t \<noteq> TimerScheduled" if t: "stored_timer ops s' t" "tm_RunID t = runID" "tm_NodeID t \<in> K" for t
    proof -
      from t(1) obtain r i a where "so_GetTimer ops s' r i a = Some t" by (auto simp: stored_timer_def)
      with s'(2) obtain x where x: "so_GetTimer ops s1 r i a = Some x" "t = (if x \<in> ?T then ?f x else x)"
        by (fastforce simp: retimed_def)
      with t conjunct2 [OF timers_list [OF s1(1), of runID]] show ?thesis by (auto split: if_splits)
    qed
    ultimately show ?thesis using s1(2) s' by (simp add: renoded_def retimed_def)
  qed
  then show "sinv s'" "so_GetRun ops s' = so_GetRun ops s"
    "so_GetNodeExecution ops s' r i a = map_option (\<lambda>n. if r = runID \<and> i \<in> K \<and> ne_Status n \<noteq> NodeStatusCanceled then canceledNode now n else n)
       (so_GetNodeExecution ops s r i a)"
    "stored_timer ops s' t \<Longrightarrow> tm_RunID t = runID \<Longrightarrow> tm_NodeID t \<in> K \<Longrightarrow> tm_Status t \<noteq> TimerScheduled"
    by blast+
qed

lemma invalidate_succeeded:
  assumes "sinv s" "invalidateNodesAndTimers ops now runID K s = (None, s')"
  shows "succeeded ops s' runID i \<longleftrightarrow> i \<notin> K \<and> succeeded ops s runID i"
proof -
  define h where "h n = (if i \<in> K \<and> ne_Status n \<noteq> NodeStatusCanceled then canceledNode now n else n)" for n
  have "so_GetNodeExecution ops s' runID i a = map_option h (so_GetNodeExecution ops s runID i a)" for a
    unfolding invalidate_effect(3) [OF assms] h_def by simp
  moreover have "ne_Status (h n) = NodeStatusSucceeded \<longleftrightarrow> i \<notin> K \<and> ne_Status n = NodeStatusSucceeded" for n
    by (auto simp: h_def canceledNode_def)
  ultimately show ?thesis unfolding succeeded_def by (auto simp: map_option_eq_Some)
qed

lemma update_nodes:
  assumes "sinv s"
  shows "sinv (snd (so_UpdateRun ops now r s))" "so_GetNodeExecution ops (snd (so_UpdateRun ops now r s)) = so_GetNodeExecution ops s"
    "so_GetRun ops s i \<noteq> None \<Longrightarrow> so_GetRun ops (snd (so_UpdateRun ops now r s)) i \<noteq> None"
proof -
  obtain e s' where u: "so_UpdateRun ops now r s = (e, s')" by fastforce
  from update [OF assms u] show "sinv (snd (so_UpdateRun ops now r s))"
    "so_GetNodeExecution ops (snd (so_UpdateRun ops now r s)) = so_GetNodeExecution ops s"
    "so_GetRun ops s i \<noteq> None \<Longrightarrow> so_GetRun ops (snd (so_UpdateRun ops now r s)) i \<noteq> None"
    using view_node(1) [of ops s' s] view_node(5) [of ops s' r s] view_run(1) [of ops s' s] view_run(2) [of ops s' r s]
    by (auto simp: u split: if_splits)
qed

end

lemma enterLoop_nodes:
  assumes "store_contract ops sinv" "rn_ops cfg = liftOps ops" "sinv (snd e)"
    and "enterLoop cfg now runID wfl tenant g input cache th r0 used info e = StartLoop denv st"
  shows "so_GetNodeExecution ops (snd (dg_store st)) = so_GetNodeExecution ops (snd e)"
proof -
  define same where "same x \<longleftrightarrow> sinv x \<and> so_GetNodeExecution ops x = so_GetNodeExecution ops (snd e)" for x
  have step: "same x \<Longrightarrow> same (snd (so_UpdateRun ops now r x))" "same x \<Longrightarrow> same (snd (so_AppendEvent ops now y x))" for x y r
    using store_contract.update_nodes [OF assms(1)] store_contract.event_keeps [OF assms(1), of x now y id]
    by (simp_all add: same_def retimed_def)
  have first: "same (snd e1)" if "so_UpdateRun (liftOps ops) now r e = (er, e1)" for r er e1
    using step(1) [of "snd e" r] liftOps_simps(3) [of ops now r e] that assms(3) by (simp add: same_def)
  from assms(4) have "same (snd (dg_store st))" unfolding enterLoop_def Let_def assms(2)
    by (auto split: if_split_asm prod.splits option.splits intro!: step dest!: first)
  then show ?thesis by (simp add: same_def)
qed

lemma startRun_nodes:
  assumes "store_contract ops sinv" "sx_ops env = ops" "sinv s"
    and "startRun rawText cfg env ctx now runID g input spec cache th (m, s) = StartLoop denv st"
    and "so_GetRun ops s runID \<noteq> None"
  shows "so_GetNodeExecution ops (snd (dg_store st)) = so_GetNodeExecution ops s"
proof -
  let ?G = "engineGates rawText env ctx now runID g spec input" and ?cfg = "engineCfg cfg env ctx"
  obtain r where r: "so_GetRun ops s runID = Some r" using assms(5) by blast
  obtain e0 rep m1 s1 where a: "gt_authorize ?G (m, s) = (None, e0)" and rk: "gt_risk ?G e0 = (Inr rep, (m1, s1))"
    and s1: "sinv s1" "kv_moves ops isAuditKey s s1"
    by (rule startRun_passed [OF assms(1-4)]) blast
  have run: "so_GetRun ops s1 runID = Some r" using kv_moves_reads(1) [OF s1(2)] r by simp
  define s2 where "s2 = snd (ensureRunTenantAccess env ctx now r ''run.resume'' s1)"
  have s2: "sinv s2" "kv_moves ops isAuditKey s1 s2"
    using store_contract.access_moves [OF assms(1) s1(1) assms(2)] by (simp_all add: s2_def)
  have acc: "gt_access ?G r (m1, s1) = (fst (ensureRunTenantAccess env ctx now r ''run.resume'' s1), (m1, s2))"
    by (simp add: engineGates_def onStore_def s2_def split: prod.split)
  have lift: "rn_ops ?cfg = liftOps ops" by (simp add: engineCfg_def assms(2))
  have kept: "snd (rn_remember ?cfg wfl g e) = snd e" for wfl e by (cases e) (simp add: engineCfg_def)
  have fin: "so_GetNodeExecution ops (snd (dg_store st)) = so_GetNodeExecution ops s2"
    if "enterLoop ?cfg now runID wfl t g input cache th r0 used info (rn_remember ?cfg wfl g (m1, s2)) = StartLoop denv st" for wfl t r0 used info
    using enterLoop_nodes [OF assms(1) lift _ that] s2(1) by (simp add: kept)
  have "so_GetNodeExecution ops (snd (dg_store st)) = so_GetNodeExecution ops s2"
    using assms(4) [unfolded startRun_def dagStart_def Let_def] run
    by (auto simp: a rk lift acc split: option.splits if_split_asm dest: fin)
  then show ?thesis using kv_moves_reads(2) [OF s1(2)] kv_moves_reads(2) [OF s2(2)] by simp
qed

lemma startRun_graph: "startRun rawText cfg env ctx now runID g input spec cache th e = StartLoop denv st \<Longrightarrow> dv_graph denv = g"
  unfolding startRun_def by (rule dagStart_inv(3))

lemma ReplayFrom_started:
  assumes "store_contract ops sinv" "sx_ops env = ops" "sinv s"
    and "ReplayFrom rawText cfg env ctx now runID fromStep mode th (m, s) = StartLoop denv st"
  obtains r s1 s2 where "so_GetRun ops s runID = Some r" "may_access ctx r" "sinv s1" "kv_moves ops isAuditKey s s1"
    "invalidateNodesAndTimers ops now runID (replaySet ops runID (TrimSpace fromStep) mode (dv_graph denv) s1) s1 = (None, s2)"
    "\<And>i. mget (dg_done st) i \<noteq> None \<longleftrightarrow> succeeded ops s2 runID i" "so_GetNodeExecution ops (snd (dg_store st)) = so_GetNodeExecution ops s2"
    "mode = ReplayLive \<or> mode = ReplayTimeTravel" "TrimSpace fromStep = '''' \<or> graphHasNode (dv_graph denv) (TrimSpace fromStep)"
proof -
  let ?f = "TrimSpace fromStep"
  obtain r where r: "so_GetRun ops s runID = Some r" using assms(4)
    by (cases "so_GetRun ops s runID") (simp_all add: ReplayFrom_def Let_def assms(2))
  define s1 where "s1 = snd (ensureRunTenantAccess env ctx now r ''run.replay'' s)"
  have s1: "sinv s1" "kv_moves ops isAuditKey s s1" using store_contract.access_moves [OF assms(1,3,2)] by (simp_all add: s1_def)
  note start0 = assms(4) [unfolded ReplayFrom_def Let_def assms(2) split_conv r option.case]
  have acc: "fst (ensureRunTenantAccess env ctx now r ''run.replay'' s) = None"
    using start0 by (auto split: option.splits prod.splits)
  then have A: "ensureRunTenantAccess env ctx now r ''run.replay'' s = (None, s1)" by (simp add: s1_def prod_eq_iff)
  note start1 = start0 [unfolded A split_conv option.case]
  obtain exec m1 where g: "replayGraph runID r m = (Inr exec, m1)"
    using start1 by (cases "replayGraph runID r m"; cases "fst (replayGraph runID r m)") auto
  note start2 = start1 [unfolded g split_conv sum.case]
  have node: "?f = '''' \<or> graphHasNode exec ?f" using start2 by (auto split: if_split_asm)
  obtain s2 where inv: "invalidateNodesAndTimers ops now runID (replaySet ops runID ?f mode exec s1) s1 = (None, s2)"
    using start2 by (cases "invalidateNodesAndTimers ops now runID (replaySet ops runID ?f mode exec s1) s1") (auto split: if_split_asm option.splits)
  have mode: "mode = ReplayLive \<or> mode = ReplayTimeTravel" using start2 by (auto simp: inv split: if_split_asm)
  have "\<exists>input spec cache s3. (s3 = s2 \<or> s3 = requeued ops now r s2) \<and> startRun rawText cfg env ctx now runID exec input spec cache th (m1, s3) = StartLoop denv st"
    using start2 by (simp add: inv split: if_split_asm) blast+
  then have go: "\<exists>input spec cache s3. s3 \<in> {s2, requeued ops now r s2} \<and> startRun rawText cfg env ctx now runID exec input spec cache th (m1, s3) = StartLoop denv st"
    by blast
  note e = store_contract.invalidate_effect [OF assms(1) s1(1) inv]
  have run2: "so_GetRun ops s2 runID \<noteq> None" using e(2) kv_moves_reads(1) [OF s1(2)] r by simp
  have s3: "sinv s3 \<and> so_GetNodeExecution ops s3 = so_GetNodeExecution ops s2 \<and> so_GetRun ops s3 runID \<noteq> None"
    if "s3 \<in> {s2, requeued ops now r s2}" for s3
    using that e(1) run2 store_contract.update_nodes [OF assms(1) e(1)] by (auto simp: requeued_def)
  from go obtain input spec cache s3 where s3': "s3 \<in> {s2, requeued ops now r s2}"
    and start: "startRun rawText cfg env ctx now runID exec input spec cache th (m1, s3) = StartLoop denv st" by blast
  obtain r3 where r3: "so_GetRun ops s3 runID = Some r3" using s3 [OF s3'] by blast
  have "mget (dg_done st) i \<noteq> None \<longleftrightarrow> succeeded ops s2 runID i" for i
    using startRun_resumes(3) [OF assms(1,2) _ start r3, of i] s3 [OF s3'] by (simp add: succeeded_def)
  moreover have "so_GetNodeExecution ops (snd (dg_store st)) = so_GetNodeExecution ops s2"
    using startRun_nodes [OF assms(1,2) _ start] s3 [OF s3'] by simp
  moreover have "may_access ctx r" using acc access_exact [of env ctx now r "''run.replay''" s] by simp
  ultimately show thesis using that [OF r _ s1, of s2] inv mode node startRun_graph [OF start] by simp
qed

text \<open>The nodes a replay runs again, in terms of what succeeded before.\<close>

definition replay_redo :: "string \<Rightarrow> string \<Rightarrow> 'f workflowGraph \<Rightarrow> (string \<Rightarrow> bool) \<Rightarrow> string set" where
  "replay_redo fromStep mode g done_before =
     (if fromStep = '''' then (if mode = ReplayLive then nd_NodeID ` set (wg_Nodes g) else {})
      else {i. (fromStep, i) \<in> (edge_rel (wg_Edges g))\<^sup>*} - (if mode = ReplayTimeTravel \<and> done_before fromStep then {fromStep} else {}))"

context store_contract
begin

lemma replaySet_redo:
  assumes "sinv s"
  shows "replaySet ops runID fromStep mode g s = replay_redo fromStep mode g (succeeded ops s runID)"
proof -
  have "nodeHasSucceededAttempt (so_ListNodeExecutions ops s runID) fromStep \<longleftrightarrow> succeeded ops s runID fromStep"
    using succeeded_nodes [OF assms, of runID fromStep] by (simp add: nodeHasSucceededAttempt_def list_ex_iff succeeded_def)
  then show ?thesis by (auto simp: replaySet_def replay_redo_def Let_def downstream_exact)
qed

end

text \<open>C29. A replay runs again exactly what it should.  When \<open>ReplayFrom\<close> enters the scheduler's loop,
  the caller may access the run, the step exists, and the nodes the scheduler takes as done are
  those that had succeeded before and are not to be repeated: in live mode every node, or the given
  step and all it reaches along edges; in time-travel mode none, or what the step reaches, the step
  itself only when it had not succeeded.  No recorded attempt is lost: each keeps its input and output.\<close>

theorem replay_reruns_exactly:
  assumes "store_contract ops sinv" "sx_ops env = ops" "sinv s"
    and "ReplayFrom rawText cfg env ctx now runID fromStep mode th (m, s) = StartLoop denv st"
  shows "(\<exists>r. so_GetRun ops s runID = Some r \<and> may_access ctx r) \<and> (mode = ReplayLive \<or> mode = ReplayTimeTravel) \<and>
    (TrimSpace fromStep = '''' \<or> graphHasNode (dv_graph denv) (TrimSpace fromStep)) \<and>
    (mget (dg_done st) i \<noteq> None \<longleftrightarrow>
       succeeded ops s runID i \<and> i \<notin> replay_redo (TrimSpace fromStep) mode (dv_graph denv) (succeeded ops s runID)) \<and>
    (\<forall>j a. map_option (\<lambda>n. (ne_Input n, ne_Output n)) (so_GetNodeExecution ops (snd (dg_store st)) runID j a)
         = map_option (\<lambda>n. (ne_Input n, ne_Output n)) (so_GetNodeExecution ops s runID j a))"
proof -
  obtain r s1 s2 where r: "so_GetRun ops s runID = Some r" "may_access ctx r" and s1: "sinv s1" "kv_moves ops isAuditKey s s1"
    and inv: "invalidateNodesAndTimers ops now runID (replaySet ops runID (TrimSpace fromStep) mode (dv_graph denv) s1) s1 = (None, s2)"
    and dn: "\<And>i. mget (dg_done st) i \<noteq> None \<longleftrightarrow> succeeded ops s2 runID i"
    and nodes: "so_GetNodeExecution ops (snd (dg_store st)) = so_GetNodeExecution ops s2"
    and rest: "mode = ReplayLive \<or> mode = ReplayTimeTravel" "TrimSpace fromStep = '''' \<or> graphHasNode (dv_graph denv) (TrimSpace fromStep)"
    by (rule ReplayFrom_started [OF assms]) blast
  have n1: "so_GetNodeExecution ops s1 = so_GetNodeExecution ops s" by (rule kv_moves_reads(2) [OF s1(2)])
  then have same: "succeeded ops s1 = succeeded ops s" by (simp add: succeeded_def fun_eq_iff)
  have "mget (dg_done st) i \<noteq> None \<longleftrightarrow> succeeded ops s runID i \<and> i \<notin> replay_redo (TrimSpace fromStep) mode (dv_graph denv) (succeeded ops s runID)"
    using store_contract.invalidate_succeeded [OF assms(1) s1(1) inv, of i] store_contract.replaySet_redo [OF assms(1) s1(1), of runID "TrimSpace fromStep" mode "dv_graph denv"]
    unfolding dn same by auto
  moreover have "map_option (\<lambda>n. (ne_Input n, ne_Output n)) (so_GetNodeExecution ops (snd (dg_store st)) runID j a)
      = map_option (\<lambda>n. (ne_Input n, ne_Output n)) (so_GetNodeExecution ops s runID j a)" for j a
    unfolding nodes store_contract.invalidate_effect(3) [OF assms(1) s1(1) inv] n1
    by (cases "so_GetNodeExecution ops s runID j a") (simp_all add: canceledNode_def)
  ultimately show ?thesis using r rest by blast
qed

definition replay_demo :: memStore where
  "replay_demo = snd (UpsertNodeExecution \<lparr>ne_RunID = ''r'', ne_WorkflowID = ''w'', ne_NodeID = ''a'', ne_Attempt = 1,
     ne_Status = NodeStatusSucceeded, ne_StartedAt = Some 1, ne_EndedAt = Some 2, ne_Input = JObj [], ne_Output = JInt 7, ne_Error = ''''\<rparr> timer_demo)"

lemma replay_demo_inv: "mem_inv replay_demo"
  unfolding replay_demo_def using UpsertNode_mem [OF timer_demo_inv prod.collapse [symmetric]] by blast

definition demo_mem :: "nat runnerMem" where
  "demo_mem = clean_mem\<lparr>rm_graphs := [(''w'', two_nodes)]\<rparr>"

lemma replay_starts:
  "case ReplayFrom (\<lambda>_. '''') engine_cfg memSvc anybody 9 ''r'' ''a'' ReplayTimeTravel no_caps (demo_mem, replay_demo) of
     StartStop err e \<Rightarrow> False | StartLoop denv st \<Rightarrow> mget (dg_done st) ''a'' \<noteq> None \<and> dg_ready st = [''b'']"
  by code_simp

theorem replay_reruns_exactly_witness:
  "\<exists>denv st. ReplayFrom (\<lambda>_. '''') engine_cfg memSvc anybody 9 ''r'' ''a'' ReplayTimeTravel no_caps (demo_mem, replay_demo) = StartLoop denv st \<and>
     succeeded memOps replay_demo ''r'' ''a'' \<and>
     ''a'' \<notin> replay_redo (TrimSpace ''a'') ReplayTimeTravel (dv_graph denv) (succeeded memOps replay_demo ''r'')"
proof -
  obtain denv st where d: "ReplayFrom (\<lambda>_. '''') engine_cfg memSvc anybody 9 ''r'' ''a'' ReplayTimeTravel no_caps (demo_mem, replay_demo) = StartLoop denv st"
    and a: "mget (dg_done st) ''a'' \<noteq> None"
    using replay_starts by (auto split: dagStarted.splits)
  from replay_reruns_exactly [OF mem.store_contract_axioms memSvc_ops replay_demo_inv d, of "''a''"] a d show ?thesis by blast
qed

end
