(* ===== verification/SeqRunner.thy ===== *)
theory SeqRunner
  imports RunControl
begin

text \<open>
  The sequential runner, \<open>RunWorkflow\<close> of \<^verbatim>\<open>internal/engine/runner.go\<close>: the nodes of a workflow run one
  after the other, each with the output of the one before as its input.

  What happens while a node runs is not the runner's code: a \<open>seqTurn\<close> says whether the caller's
  context has ended when its turn comes, the times around it, and what the node's function
  (or the tool gateway in front of it) returns and does to the store.  Spans, metrics and log lines
  are left out.
\<close>

section \<open>Definitions\<close>

record ('f, 's) seqTurn =
  sq_ctxErr :: "engineError option"
  sq_start :: gotime
  sq_run :: "'f nodeDef \<Rightarrow> json \<Rightarrow> 's \<Rightarrow> (string + json) \<times> 's"
  sq_end :: gotime

datatype 's seqEnd = SeqDone 's | SeqStop engineError 's

definition seqCanceled :: "'s storeOps \<Rightarrow> gotime \<Rightarrow> run \<Rightarrow> 's \<Rightarrow> 's" where
  "seqCanceled ops now r s =
     snd (so_AppendEvent ops now
       (mkEvent (run_RunID r) EventRunFinished (run_WorkflowID r) '''' 0 (JObj [(''status'', JText ''canceled'')]))
       (snd (so_UpdateRun ops now (r\<lparr>run_Status := RunStatusCanceled, run_EndedAt := Some now\<rparr>) s)))"

definition seqRecord :: "run \<Rightarrow> 'f nodeDef \<Rightarrow> gotime \<Rightarrow> json \<Rightarrow> nodeExecution" where
  "seqRecord r node start input =
     \<lparr>ne_RunID = run_RunID r, ne_WorkflowID = run_WorkflowID r, ne_NodeID = nd_NodeID node, ne_Attempt = 1,
      ne_Status = NodeStatusRunning, ne_StartedAt = Some start, ne_EndedAt = None, ne_Input = input, ne_Output = JNil, ne_Error = ''''\<rparr>"

definition seqFailed :: "'s storeOps \<Rightarrow> (string \<Rightarrow> 's \<Rightarrow> 's) \<Rightarrow> gotime \<Rightarrow> run \<Rightarrow> nodeExecution \<Rightarrow> string \<Rightarrow> 's \<Rightarrow> 's" where
  "seqFailed ops capture now r ne msg s =
     (let ev = (\<lambda>ty node att p. snd \<circ> so_AppendEvent ops now (mkEvent (run_RunID r) ty (run_WorkflowID r) node att p));
          s1 = snd (so_UpsertNodeExecution ops now (ne\<lparr>ne_Status := NodeStatusFailed, ne_EndedAt := Some now, ne_Error := msg\<rparr>) s);
          s2 = ev EventNodeFailed (ne_NodeID ne) (ne_Attempt ne) (JObj [(''error'', JText msg)]) s1;
          r1 = r\<lparr>run_Status := RunStatusFailed, run_EndedAt := Some now, run_TerminalReason := ''node_failed'',
                 run_TerminalMeta := JObj [(''failed_node'', JText (ne_NodeID ne)), (''attempt'', JInt (ne_Attempt ne)), (''error'', JText msg)]\<rparr>;
          s3 = snd (so_UpdateRun ops now r1 s2)
      in capture (run_RunID r)
           (ev EventRunFinished '''' 0 (JObj [(''status'', JText ''failed''), (''failed_node'', JText (ne_NodeID ne))]) s3))"

fun seqNodes ::
  "'s storeOps \<Rightarrow> (string \<Rightarrow> 's \<Rightarrow> 's) \<Rightarrow> (nat \<Rightarrow> ('f, 's) seqTurn) \<Rightarrow> nat \<Rightarrow> 'f nodeDef list \<Rightarrow> json \<Rightarrow> run \<Rightarrow> 's \<Rightarrow> 's seqEnd" where
  "seqNodes ops capture tns k [] input r s = SeqDone s"
| "seqNodes ops capture tns k (node # rest) input r s =
     (let tn = tns k; ne = seqRecord r node (sq_start tn) input;
          ev = (\<lambda>now ty p. snd \<circ> so_AppendEvent ops now (mkEvent (run_RunID r) ty (run_WorkflowID r) (nd_NodeID node) 1 p)) in
      case sq_ctxErr tn of
        Some err \<Rightarrow> SeqStop err (seqCanceled ops (sq_start tn) r s)
      | None \<Rightarrow>
          (case so_UpsertNodeExecution ops (sq_start tn) ne s of
             (Some err, s1) \<Rightarrow> SeqStop err s1
           | (None, s1) \<Rightarrow>
               (case sq_run tn node input (ev (sq_start tn) EventNodeStarted JNil s1) of
                  (Inl msg, s2) \<Rightarrow> SeqStop ErrNodeFailed (seqFailed ops capture (sq_end tn) r ne msg s2)
                | (Inr out, s2) \<Rightarrow>
                    (case so_UpsertNodeExecution ops (sq_end tn)
                       (ne\<lparr>ne_Status := NodeStatusSucceeded, ne_EndedAt := Some (sq_end tn), ne_Output := out\<rparr>) s2 of
                       (Some err, s3) \<Rightarrow> SeqStop err s3
                     | (None, s3) \<Rightarrow>
                         seqNodes ops capture tns (Suc k) rest out r
                           (ev (sq_end tn) EventNodeFinished (marshal (JObj [(''output'', if out = JNil then JNull else out)])) s3)))))"

text \<open>The run is created, started, executed and finished.\<close>

definition seqExecute ::
  "'s storeOps \<Rightarrow> (string \<Rightarrow> 's \<Rightarrow> 's) \<Rightarrow> (nat \<Rightarrow> ('f, 's) seqTurn) \<Rightarrow> gotime \<Rightarrow> gotime \<Rightarrow> string \<Rightarrow> string \<Rightarrow> string \<Rightarrow> 'f nodeDef list
     \<Rightarrow> json \<Rightarrow> json \<Rightarrow> 's \<Rightarrow> engineError option \<times> 's" where
  "seqExecute ops capture tns now endTime runID wfl tenantID nodes initialInput report s =
     (let r = \<lparr>run_RunID = runID, run_WorkflowID = wfl, run_Status = RunStatusQueued, run_StartedAt = None, run_EndedAt = None,
               run_Spec = JNil, run_InitialInput = JNil, run_TenantID = tenantID, run_TerminalReason = '''', run_TerminalMeta = JNil,
               run_RunBudget = zeroBudget, run_BudgetUsage = zeroUsage\<rparr>;
          ev = (\<lambda>t ty p. snd \<circ> so_AppendEvent ops t (mkEvent runID ty wfl '''' 0 p)) in
      case so_CreateRun ops now r s of
        (Some err, s1) \<Rightarrow> (Some err, s1)
      | (None, s1) \<Rightarrow>
          let s2 = ev now EventRunCreated JNil s1;
              s3 = (if json_ok report then ev now EventRiskAssessed report s2 else s2);
              r1 = r\<lparr>run_Status := RunStatusRunning, run_StartedAt := Some now\<rparr> in
          (case so_UpdateRun ops now r1 s3 of
             (Some err, s4) \<Rightarrow> (Some err, s4)
           | (None, s4) \<Rightarrow>
               (case seqNodes ops capture tns 0 nodes initialInput r1 (ev now EventRunStarted JNil s4) of
                  SeqStop err s5 \<Rightarrow> (Some err, s5)
                | SeqDone s5 \<Rightarrow>
                    (case so_UpdateRun ops endTime (r1\<lparr>run_Status := RunStatusSucceeded, run_EndedAt := Some endTime\<rparr>) s5 of
                       (Some err, s6) \<Rightarrow> (Some err, s6)
                     | (None, s6) \<Rightarrow> (None, ev endTime EventRunFinished (JObj [(''status'', JText ''succeeded'')]) s6)))))"

definition RunWorkflow ::
  "(json \<Rightarrow> string) \<Rightarrow> 's svcEnv \<Rightarrow> callCtx \<Rightarrow> (string \<Rightarrow> 's \<Rightarrow> 's) \<Rightarrow> (nat \<Rightarrow> ('f, 's) seqTurn) \<Rightarrow> gotime \<Rightarrow> gotime \<Rightarrow> string \<Rightarrow> string
     \<Rightarrow> 'f nodeDef list \<Rightarrow> json \<Rightarrow> ('f, 's) engine \<Rightarrow> engineError option \<times> ('f, 's) engine" where
  "RunWorkflow rawText env ctx capture tns now endTime runID wfl nodes initialInput e0 =
     (let tenantID = effectiveTenantFromContext ctx;
          g = \<lparr>wg_ID = wfl, wg_Nodes = nodes, wg_Edges = [], wg_TimeoutMS = 0\<rparr> in
      case authorizeWorkflow env ctx now runID g e0 of
        (Inl err, e1) \<Rightarrow> (Some err, e1)
      | (Inr _, e1) \<Rightarrow>
          (case evaluateAndEnforceRisk rawText env ctx now runID g initialInput e1 of
             (Inl err, e2) \<Rightarrow> (Some err, e2)
           | (Inr report, e2) \<Rightarrow>
               if \<not> rr_Allowed report then (Some (riskError report), e2)
               else
                 (case onStore (enforceTenantRunQuota env (fst e2) ctx now tenantID runID wfl) e2 of
                    (Some err, e3) \<Rightarrow> (Some err, e3)
                  | (None, e3) \<Rightarrow>
                      onStore (seqExecute (sx_ops env) capture tns now endTime runID wfl tenantID nodes initialInput (riskReportJSON report)) e3)))"

section \<open>A chain of nodes\<close>

text \<open>The nodes' functions leave the run and the node executions alone.\<close>

definition discreet :: "'s storeOps \<Rightarrow> ('s \<Rightarrow> bool) \<Rightarrow> (nat \<Rightarrow> ('f, 's) seqTurn) \<Rightarrow> bool" where
  "discreet ops sinv tns \<longleftrightarrow> (\<forall>k node j s. sinv s \<longrightarrow>
     sinv (snd (sq_run (tns k) node j s)) \<and> so_GetRun ops (snd (sq_run (tns k) node j s)) = so_GetRun ops s \<and>
     so_GetNodeExecution ops (snd (sq_run (tns k) node j s)) = so_GetNodeExecution ops s)"

text \<open>\<open>chained tns k nodes input outs\<close>: every function succeeded, with these outputs, each on the
  output of its predecessor.\<close>

fun chained :: "(nat \<Rightarrow> ('f, 's) seqTurn) \<Rightarrow> nat \<Rightarrow> 'f nodeDef list \<Rightarrow> json \<Rightarrow> json list \<Rightarrow> bool" where
  "chained tns k [] input outs \<longleftrightarrow> outs = []"
| "chained tns k (node # rest) input outs \<longleftrightarrow>
     (case outs of [] \<Rightarrow> False
      | out # outs' \<Rightarrow> sq_ctxErr (tns k) = None \<and> (\<exists>s. fst (sq_run (tns k) node input s) = Inr out) \<and> chained tns (Suc k) rest out outs')"

definition recorded :: "'s storeOps \<Rightarrow> 's \<Rightarrow> string \<Rightarrow> string \<Rightarrow> json \<Rightarrow> json \<Rightarrow> bool" where
  "recorded ops s runID i input out \<longleftrightarrow> (\<exists>ne. so_GetNodeExecution ops s runID i 1 = Some ne \<and> ne_Status ne = NodeStatusSucceeded \<and>
     ne_Input ne = input \<and> ne_Output ne = out)"

fun all_recorded :: "'s storeOps \<Rightarrow> 's \<Rightarrow> string \<Rightarrow> 'f nodeDef list \<Rightarrow> json \<Rightarrow> json list \<Rightarrow> bool" where
  "all_recorded ops s runID (node # rest) input (out # outs) \<longleftrightarrow>
     recorded ops s runID (nd_NodeID node) input out \<and> all_recorded ops s runID rest out outs"
| "all_recorded ops s runID _ _ _ \<longleftrightarrow> True"

lemma all_recorded_same:
  assumes "\<And>i. i \<in> nd_NodeID ` set nodes \<Longrightarrow> so_GetNodeExecution ops s' runID i 1 = so_GetNodeExecution ops s runID i 1"
  shows "all_recorded ops s' runID nodes input outs = all_recorded ops s runID nodes input outs"
  using assms by (induction nodes arbitrary: input outs) (auto simp: recorded_def split: list.split elim: all_recorded.elims)

context store_contract
begin

lemma put_attempt:
  assumes "sinv s" "so_UpsertNodeExecution ops now n s = (None, s1)"
  shows "sinv s1" "so_GetRun ops s1 = so_GetRun ops s"
    "so_GetNodeExecution ops s1 = (\<lambda>r i a. if (r, i, a) = nodeKeyOf n then Some n else so_GetNodeExecution ops s r i a)"
  using node [OF assms] view_node(2) [of ops s1 n s] view_run_timer(2) [of ops s1 n s] by simp_all

lemma event_nodes:
  assumes "sinv s"
  shows "sinv (snd (so_AppendEvent ops now e s))" "so_GetRun ops (snd (so_AppendEvent ops now e s)) = so_GetRun ops s"
    "so_GetNodeExecution ops (snd (so_AppendEvent ops now e s)) = so_GetNodeExecution ops s"
  using event_keeps [OF assms, of now e id] by (simp_all add: retimed_def)

lemma seqNodes_chain:
  assumes "sinv s" "discreet ops sinv tns" "seqNodes ops capture tns k nodes input r s = SeqDone s'" "distinct (map nd_NodeID nodes)"
  shows "\<exists>outs. chained tns k nodes input outs \<and> sinv s' \<and> so_GetRun ops s' = so_GetRun ops s \<and>
    all_recorded ops s' (run_RunID r) nodes input outs \<and>
    (\<forall>i a. i \<notin> nd_NodeID ` set nodes \<longrightarrow> so_GetNodeExecution ops s' (run_RunID r) i a = so_GetNodeExecution ops s (run_RunID r) i a)"
  using assms(1,3,4)
proof (induction nodes arbitrary: k input s)
  case Nil
  then show ?case by auto
next
  case (Cons node rest)
  let ?tn = "tns k" and ?R = "run_RunID r"
  let ?ne = "seqRecord r node (sq_start ?tn) input"
  let ?ok = "\<lambda>out. ?ne\<lparr>ne_Status := NodeStatusSucceeded, ne_EndedAt := Some (sq_end ?tn), ne_Output := out\<rparr>"
  let ?ev = "\<lambda>now ty p. snd \<circ> so_AppendEvent ops now (mkEvent ?R ty (run_WorkflowID r) (nd_NodeID node) 1 p)"
  from Cons.prems(2) obtain s1 out s2 s3 where ctx: "sq_ctxErr ?tn = None"
    and u1: "so_UpsertNodeExecution ops (sq_start ?tn) ?ne s = (None, s1)"
    and run: "sq_run ?tn node input (?ev (sq_start ?tn) EventNodeStarted JNil s1) = (Inr out, s2)"
    and u2: "so_UpsertNodeExecution ops (sq_end ?tn) (?ok out) s2 = (None, s3)"
    and rest0: "seqNodes ops capture tns (Suc k) rest out r
      (?ev (sq_end ?tn) EventNodeFinished (marshal (JObj [(''output'', if out = JNil then JNull else out)])) s3) = SeqDone s'"
    by (auto simp: Let_def split: option.splits prod.splits sum.splits)
  let ?a = "?ev (sq_start ?tn) EventNodeStarted JNil s1"
  define sb where "sb = ?ev (sq_end ?tn) EventNodeFinished (marshal (JObj [(''output'', if out = JNil then JNull else out)])) s3"
  have rest: "seqNodes ops capture tns (Suc k) rest out r sb = SeqDone s'" using rest0 unfolding sb_def .
  note p1 = put_attempt [OF Cons.prems(1) u1]
  have a: "sinv ?a" "so_GetRun ops ?a = so_GetRun ops s" "so_GetNodeExecution ops ?a = so_GetNodeExecution ops s1"
    using event_nodes [OF p1(1)] p1(2) by simp_all
  have s2: "sinv s2" "so_GetRun ops s2 = so_GetRun ops s" "so_GetNodeExecution ops s2 = so_GetNodeExecution ops s1"
    using assms(2) [unfolded discreet_def, rule_format, OF a(1), of k node input] a run by simp_all
  note p2 = put_attempt [OF s2(1) u2]
  have b: "sinv sb" "so_GetRun ops sb = so_GetRun ops s" "so_GetNodeExecution ops sb = so_GetNodeExecution ops s3"
    unfolding sb_def o_apply using event_nodes [OF p2(1)] p2(2) s2(2) by simp_all
  have get: "so_GetNodeExecution ops sb ?R i a = (if i = nd_NodeID node \<and> a = 1 then Some (?ok out) else so_GetNodeExecution ops s ?R i a)" for i a
    by (simp add: b(3) p2(3) s2(3) p1(3) nodeKeyOf_def seqRecord_def)
  obtain outs where ih: "chained tns (Suc k) rest out outs" "sinv s'" "so_GetRun ops s' = so_GetRun ops sb" "all_recorded ops s' ?R rest out outs"
    and kept: "\<And>i a. i \<notin> nd_NodeID ` set rest \<Longrightarrow> so_GetNodeExecution ops s' ?R i a = so_GetNodeExecution ops sb ?R i a"
    using Cons.IH [OF b(1) rest] Cons.prems(3) by auto
  have "so_GetNodeExecution ops s' ?R (nd_NodeID node) 1 = Some (?ok out)"
    using kept [of "nd_NodeID node" 1] Cons.prems(3) get by simp
  then have "recorded ops s' ?R (nd_NodeID node) input out" by (simp add: recorded_def seqRecord_def)
  moreover have "chained tns k (node # rest) input (out # outs)" using ctx ih(1) run by (auto intro!: exI [of _ ?a])
  moreover have "so_GetNodeExecution ops s' ?R i a = so_GetNodeExecution ops s ?R i a" if "i \<notin> nd_NodeID ` set (node # rest)" for i a
    using kept [of i a] get that by simp
  ultimately show ?case using ih b(2) by (intro exI [of _ "out # outs"]) simp
qed

end

section \<open>The whole run\<close>

lemma enforce_frame:
  assumes "evaluateAndEnforceRisk rawText env ctx now runID g input (m, s) = (Inr rep, e1)"
  shows "\<exists>m' x. e1 = (m', appendAuditRecord env ctx now x s)"
proof -
  obtain p where p: "snd (GetRiskPolicy env (m, s)) = (m\<lparr>rm_riskPolicy := p\<rparr>, s)" using GetRiskPolicy_frame [of env m s] by blast
  show ?thesis
  proof (cases "fst (GetRiskPolicy env (m, s))")
    case (Inl err)
    with assms show ?thesis by (cases "GetRiskPolicy env (m, s)") (auto simp: evaluateAndEnforceRisk_def EvaluateWorkflowRisk_def)
  next
    case (Inr found)
    with p have "GetRiskPolicy env (m, s) = (Inr found, (m\<lparr>rm_riskPolicy := p\<rparr>, s))" by (simp add: prod_eq_iff)
    with assms show ?thesis by (auto simp: evaluateAndEnforceRisk_def EvaluateWorkflowRisk_def Let_def split: sum.splits)
  qed
qed

context store_contract
begin

lemma quota_moves:
  assumes "sinv s" "sx_ops env = ops" "enforceTenantRunQuota env m ctx now t runID wfl s = (None, s')"
  shows "s' = s"
  using assms(3) by (auto simp: enforceTenantRunQuota_def Let_def split: if_splits)

lemma seqExecute_chain:
  assumes "sinv s" "discreet ops sinv tns" "distinct (map nd_NodeID nodes)"
    and "seqExecute ops capture tns now endTime runID wfl tenantID nodes input report s = (None, s')"
  shows "so_GetRun ops s runID = None \<and>
    (\<exists>r outs. so_GetRun ops s' = (so_GetRun ops s)(runID \<mapsto> r) \<and> run_Status r = RunStatusSucceeded \<and> run_TenantID r = tenantID \<and>
       chained tns 0 nodes input outs \<and> all_recorded ops s' runID nodes input outs)"
proof -
  define r where "r = \<lparr>run_RunID = runID, run_WorkflowID = wfl, run_Status = RunStatusQueued, run_StartedAt = None, run_EndedAt = None,
     run_Spec = JNil, run_InitialInput = JNil, run_TenantID = tenantID, run_TerminalReason = '''', run_TerminalMeta = JNil,
     run_RunBudget = zeroBudget, run_BudgetUsage = zeroUsage\<rparr>"
  let ?r1 = "r\<lparr>run_Status := RunStatusRunning, run_StartedAt := Some now\<rparr>"
  let ?r2 = "?r1\<lparr>run_Status := RunStatusSucceeded, run_EndedAt := Some endTime\<rparr>"
  let ?ev = "\<lambda>t ty p. snd \<circ> so_AppendEvent ops t (mkEvent runID ty wfl '''' 0 p)"
  note def = assms(4) [unfolded seqExecute_def Let_def, folded r_def]
  obtain s1 where c: "so_CreateRun ops now r s = (None, s1)"
    using def by (cases "so_CreateRun ops now r s"; cases "fst (so_CreateRun ops now r s)") auto
  define s3 where "s3 = (if json_ok report then ?ev now EventRiskAssessed report (?ev now EventRunCreated JNil s1) else ?ev now EventRunCreated JNil s1)"
  note def1 = def [unfolded c split_conv option.case, folded s3_def]
  obtain s4 where u: "so_UpdateRun ops now ?r1 s3 = (None, s4)"
    using def1 by (cases "so_UpdateRun ops now ?r1 s3"; cases "fst (so_UpdateRun ops now ?r1 s3)") auto
  obtain s5 where n: "seqNodes ops capture tns 0 nodes input ?r1 (?ev now EventRunStarted JNil s4) = SeqDone s5"
    using def1 by (cases "seqNodes ops capture tns 0 nodes input ?r1 (?ev now EventRunStarted JNil s4)") (auto simp: u)
  obtain s6 where f: "so_UpdateRun ops endTime ?r2 s5 = (None, s6)" and s': "s' = ?ev endTime EventRunFinished (JObj [(''status'', JText ''succeeded'')]) s6"
    using def1 n by (cases "so_UpdateRun ops endTime ?r2 s5"; cases "fst (so_UpdateRun ops endTime ?r2 s5)") (auto simp: u)
  have ids: "run_RunID r = runID" "run_TenantID r = tenantID" by (simp_all add: r_def)
  have s1: "sinv s1" "so_GetRun ops s runID = None" "so_GetRun ops s1 = (so_GetRun ops s)(runID \<mapsto> r)"
    using create [OF assms(1) c] view_run(2) [of ops s1 r s] ids by simp_all
  have s3: "sinv s3" "so_GetRun ops s3 = so_GetRun ops s1"
    using event_nodes [OF s1(1)] event_nodes [OF event_nodes(1) [OF s1(1)]] by (simp_all add: s3_def)
  have s4: "sinv s4" "so_GetRun ops s4 = (so_GetRun ops s)(runID \<mapsto> ?r1)"
    using update [OF s3(1) u] view_run(2) [of ops s4 ?r1 s3] ids s1(3) s3(2) by simp_all
  have e4: "sinv (?ev now EventRunStarted JNil s4)" using event_nodes [OF s4(1)] by simp
  obtain outs where ch: "chained tns 0 nodes input outs" "sinv s5" "so_GetRun ops s5 = so_GetRun ops s4" "all_recorded ops s5 runID nodes input outs"
    using seqNodes_chain [OF e4 assms(2) n assms(3)] event_nodes(2) [OF s4(1)] ids(1) by auto
  have s6: "sinv s6" "so_GetRun ops s6 = (so_GetRun ops s)(runID \<mapsto> ?r2)" "so_GetNodeExecution ops s6 = so_GetNodeExecution ops s5"
    using update [OF ch(2) f] view_run(2) [of ops s6 ?r2 s5] view_node(5) [of ops s6 ?r2 s5] ids ch(3) s4(2) by simp_all
  have "so_GetRun ops s' = (so_GetRun ops s)(runID \<mapsto> ?r2)" "so_GetNodeExecution ops s' = so_GetNodeExecution ops s5"
    using event_nodes [OF s6(1)] s6(2,3) by (simp_all add: s')
  moreover from this have "all_recorded ops s' runID nodes input outs"
    using ch(4) all_recorded_same [of nodes ops s' runID s5] by simp
  ultimately show ?thesis using s1(2) ch(1) ids(2) by (intro conjI exI [of _ ?r2] exI [of _ outs]) simp_all
qed

end

text \<open>The sequential runner computes the composition of its nodes.  If \<open>RunWorkflow\<close> reports
  success, on a store that keeps its contract and with node functions that leave the runs and node
  executions alone, then the run is new and now succeeded, owned by the caller's tenant; no other
  run changed; every node's function was called on the output of its predecessor (the first on the
  initial input) and succeeded; and the store has each node's first attempt as succeeded with
  exactly that input and output.\<close>

theorem sequential_run_composes:
  assumes "store_contract ops sinv" "sx_ops env = ops" "sinv s" "discreet ops sinv tns" "distinct (map nd_NodeID nodes)"
    and "RunWorkflow rawText env ctx capture tns now endTime runID wfl nodes input (m, s) = (None, (m', s'))"
  shows "so_GetRun ops s runID = None \<and>
    (\<exists>r outs. so_GetRun ops s' = (so_GetRun ops s)(runID \<mapsto> r) \<and> run_Status r = RunStatusSucceeded \<and>
       run_TenantID r = effectiveTenantFromContext ctx \<and> chained tns 0 nodes input outs \<and> all_recorded ops s' runID nodes input outs)"
proof -
  let ?g = "\<lparr>wg_ID = wfl, wg_Nodes = nodes, wg_Edges = [], wg_TimeoutMS = 0\<rparr>" and ?t = "effectiveTenantFromContext ctx"
  note def = assms(6) [unfolded RunWorkflow_def Let_def]
  obtain wr e1 where a: "authorizeWorkflow env ctx now runID ?g (m, s) = (Inr wr, e1)"
    using def by (cases "authorizeWorkflow env ctx now runID ?g (m, s)"; cases "fst (authorizeWorkflow env ctx now runID ?g (m, s))") auto
  obtain m1 x1 where e1: "e1 = (m1, appendAuditRecord env ctx now x1 s)" by (rule authorize_passed [OF a]) blast
  obtain rep e2 where k: "evaluateAndEnforceRisk rawText env ctx now runID ?g input e1 = (Inr rep, e2)"
    using def by (cases "evaluateAndEnforceRisk rawText env ctx now runID ?g input e1";
        cases "fst (evaluateAndEnforceRisk rawText env ctx now runID ?g input e1)") (auto simp: a)
  obtain m2 x2 where e2: "e2 = (m2, appendAuditRecord env ctx now x2 (appendAuditRecord env ctx now x1 s))"
    using enforce_frame [OF k [unfolded e1]] by blast
  define s2 where "s2 = appendAuditRecord env ctx now x2 (appendAuditRecord env ctx now x1 s)"
  note au = store_contract.append_audit [OF assms(1) _ assms(2)]
  have s2: "sinv s2" "so_GetRun ops s2 = so_GetRun ops s"
    using au(1) [OF au(1) [OF assms(3)]] kv_moves_reads(1) [OF au(2) [OF au(1) [OF assms(3)]]] kv_moves_reads(1) [OF au(2) [OF assms(3)]]
    by (simp_all add: s2_def)
  note def2 = def [unfolded a split_conv sum.case k e2 [folded s2_def] fst_conv]
  obtain s3 where q: "enforceTenantRunQuota env m2 ctx now ?t runID wfl s2 = (None, s3)"
    using def2 by (cases "enforceTenantRunQuota env m2 ctx now ?t runID wfl s2";
        cases "fst (enforceTenantRunQuota env m2 ctx now ?t runID wfl s2)") (auto simp: onStore_def split: if_split_asm)
  have s3: "s3 = s2" by (rule store_contract.quota_moves [OF assms(1) s2(1) assms(2) q])
  have "seqExecute ops capture tns now endTime runID wfl ?t nodes input (riskReportJSON rep) s2 = (None, s')"
    using def2 by (auto simp: onStore_def q s3 assms(2) split: if_split_asm prod.splits)
  from store_contract.seqExecute_chain [OF assms(1) s2(1) assms(4,5) this] s2(2) show ?thesis by simp
qed

definition demo_tns :: "nat \<Rightarrow> (nat, memStore) seqTurn" where
  "demo_tns k = \<lparr>sq_ctxErr = None, sq_start = 10, sq_run = (\<lambda>node j s. (Inr (JArr [j]), s)), sq_end = 11\<rparr>"

lemma demo_tns_discreet: "discreet memOps mem_inv demo_tns"
  by (simp add: discreet_def demo_tns_def)

lemma seq_demo:
  "fst (RunWorkflow (\<lambda>_. '''') memSvc acme (\<lambda>_ s. s) demo_tns 9 12 ''q'' ''w'' (wg_Nodes two_nodes) (JInt 1) (clean_mem, NewMemoryStore)) = None"
  by code_simp

lemma two_distinct: "distinct (map nd_NodeID (wg_Nodes two_nodes))"
  by code_simp

theorem sequential_run_composes_witness:
  "\<exists>e' outs. RunWorkflow (\<lambda>_. '''') memSvc acme (\<lambda>_ s. s) demo_tns 9 12 ''q'' ''w'' (wg_Nodes two_nodes) (JInt 1) (clean_mem, NewMemoryStore) = (None, e') \<and>
     chained demo_tns 0 (wg_Nodes two_nodes) (JInt 1) outs \<and> all_recorded memOps (snd e') ''q'' (wg_Nodes two_nodes) (JInt 1) outs"
proof -
  let ?W = "RunWorkflow (\<lambda>_. '''') memSvc acme (\<lambda>_ s. s) demo_tns 9 12 ''q'' ''w'' (wg_Nodes two_nodes) (JInt 1) (clean_mem, NewMemoryStore)"
  have e: "?W = (None, (fst (snd ?W), snd (snd ?W)))" using seq_demo by (simp add: prod_eq_iff)
  from sequential_run_composes [OF mem.store_contract_axioms memSvc_ops new_store_inv demo_tns_discreet two_distinct e] e show ?thesis
    by (intro exI [of _ "snd ?W"]) auto
qed

end
