(* ===== verification/ToolSchema.thy ===== *)
theory ToolSchema
  imports Authz EngineKV
begin

text \<open>
  The parts of the tool gateway that look inside JSON (\<^verbatim>\<open>internal/engine/tool_gateway.go\<close>): validation
  of a value against a schema, redaction of sensitive fields before a call is logged, routing hints;
  and \<^verbatim>\<open>url.PathEscape\<close>, which makes the keys of call records and receipts.

  \<^item> A value decoded into Go's \<open>any\<close> is the \<open>json\<close> value itself; of two fields with one name the
    last counts (\<open>jget\<close>, \<open>jfields\<close>).  Numbers are \<open>float64\<close> in the code and rationals here.
  \<^item> Go visits the fields of an object in an unspecified order, which decides only which of several
    errors is reported; the model takes the order of the text.
\<close>

section \<open>Fields\<close>

fun jfields :: "(string \<times> json) list \<Rightarrow> (string \<times> json) list" where
  "jfields [] = []"
| "jfields ((k, v) # rest) = (if k \<in> fst ` set rest then jfields rest else (k, v) # jfields rest)"

definition jget :: "(string \<times> json) list \<Rightarrow> string \<Rightarrow> json option" where
  "jget kvs k = map_of (rev kvs) k"

lemma jfields_sub: "kv \<in> set (jfields kvs) \<Longrightarrow> kv \<in> set kvs"
  by (induction kvs rule: jfields.induct) (auto split: if_splits)

lemma jfields_keys: "fst ` set (jfields kvs) = fst ` set kvs" "distinct (map fst (jfields kvs))"
  by (induction kvs rule: jfields.induct) (auto split: if_splits)

lemma map_of_rev_Cons: "map_of (rev ((k, v) # kvs)) x = (case map_of (rev kvs) x of None \<Rightarrow> if x = k then Some v else None | Some y \<Rightarrow> Some y)"
  by (simp add: map_add_def split: option.split)

lemma jget_iff: "(k, v) \<in> set (jfields kvs) \<longleftrightarrow> jget kvs k = Some v"
proof (induction kvs rule: jfields.induct)
  case (2 k' v' rest)
  have ih: "(k, v) \<in> set (jfields rest) \<longleftrightarrow> map_of (rev rest) k = Some v"
    using 2 by (cases "k' \<in> fst ` set rest") (simp_all add: jget_def)
  have none: "map_of (rev rest) x = None \<longleftrightarrow> x \<notin> fst ` set rest" for x
    by (simp add: map_of_eq_None_iff)
  show ?case
  proof (cases "k = k'")
    case True
    then show ?thesis using ih none [of k'] unfolding jget_def map_of_rev_Cons by (cases "map_of (rev rest) k'") (auto dest: jfields_sub)
  next
    case False
    then show ?thesis using ih unfolding jget_def map_of_rev_Cons by (cases "map_of (rev rest) k") auto
  qed
qed (simp add: jget_def)

lemma size_field: "(k, v) \<in> set kvs \<Longrightarrow> size v < size (JObj kvs)"
  by (induction kvs) auto

lemma size_jfield: "kv \<in> set (jfields kvs) \<Longrightarrow> size (snd kv) < size (JObj kvs)"
  using size_field [of "fst kv" "snd kv" kvs] jfields_sub [of kv kvs] by simp

lemma size_item: "v \<in> set vs \<Longrightarrow> size v < size (JArr vs)"
  by (induction vs) auto

text \<open>The first error of a list.\<close>

fun firstErr :: "('a \<Rightarrow> 'e option) \<Rightarrow> 'a list \<Rightarrow> 'e option" where
  "firstErr f [] = None"
| "firstErr f (x # xs) = (case f x of None \<Rightarrow> firstErr f xs | Some e \<Rightarrow> Some e)"

lemma firstErr_cong [fundef_cong]: "xs = ys \<Longrightarrow> (\<And>x. x \<in> set ys \<Longrightarrow> f x = g x) \<Longrightarrow> firstErr f xs = firstErr g ys"
proof -
  assume "xs = ys" and fg: "\<And>x. x \<in> set ys \<Longrightarrow> f x = g x"
  from fg have "firstErr f ys = firstErr g ys" by (induction ys) (auto split: option.split)
  with \<open>xs = ys\<close> show ?thesis by simp
qed

lemma firstErr_None: "firstErr f xs = None \<longleftrightarrow> (\<forall>x \<in> set xs. f x = None)"
  by (induction xs) (auto split: option.split)

lemma firstErr_enumerate: "firstErr f (enumerate n xs) = None \<longleftrightarrow> (\<forall>i < length xs. f (n + i, xs ! i) = None)"
proof (induction xs arbitrary: n)
  case (Cons x xs)
  show ?case using Cons.IH [of "Suc n"] by (auto simp: All_less_Suc2 split: option.split)
qed simp

section \<open>Schemas\<close>

definition jnum :: "json \<Rightarrow> rat option" where
  "jnum v = (case v of JInt n \<Rightarrow> Some (of_int n) | JNum r \<Rightarrow> Some r | _ \<Rightarrow> None)"

definition isInt64 :: "rat \<Rightarrow> bool" where
  "isInt64 r \<longleftrightarrow> snd (quotient_of r) = 1 \<and> - (2 ^ 63) \<le> r \<and> r < 2 ^ 63"

definition schemaStringSlice :: "json option \<Rightarrow> string list" where
  "schemaStringSlice v =
     (case v of Some (JArr items) \<Rightarrow>
        List.map_filter (\<lambda>item. case item of JText s \<Rightarrow> if TrimSpace s \<noteq> '''' then Some s else None | _ \<Rightarrow> None) items
      | _ \<Rightarrow> [])"

text \<open>\<open>valuesEquivalent\<close> compares the texts \<open>json.Marshal\<close> produces: fields sorted by name.\<close>

function jcanon :: "json \<Rightarrow> json" where
  "jcanon (JObj kvs) = JObj (sort_key fst (map (\<lambda>(k, v). (k, jcanon v)) (jfields kvs)))"
| "jcanon (JArr vs) = JArr (map jcanon vs)"
| "jcanon (JInt n) = JNum (of_int n)"
| "jcanon JNil = JNull"
| "jcanon (JBad s) = JBad s" | "jcanon JNull = JNull" | "jcanon (JBool b) = JBool b" | "jcanon (JText s) = JText s"
| "jcanon (JNum r) = JNum r" | "jcanon (JTime t) = JTime t"
  by pat_completeness auto
termination
  by (relation "measure size") (auto simp del: json.size dest!: size_jfield simp: size_item)

definition valuesEquivalent :: "json \<Rightarrow> json \<Rightarrow> bool" where
  "valuesEquivalent a b \<longleftrightarrow> jcanon a = jcanon b"

text \<open>The kinds a schema can ask for, other than object and array.\<close>

definition scalarKind :: "string \<Rightarrow> json \<Rightarrow> bool" where
  "scalarKind t v =
     (if t = ''string'' then (case v of JText _ \<Rightarrow> True | JTime _ \<Rightarrow> True | _ \<Rightarrow> False)
      else if t = ''integer'' then (case jnum v of Some r \<Rightarrow> isInt64 r | None \<Rightarrow> False)
      else if t = ''number'' then jnum v \<noteq> None
      else if t = ''boolean'' then (case v of JBool _ \<Rightarrow> True | _ \<Rightarrow> False)
      else if t = ''null'' then v = JNull \<or> v = JNil
      else True)"

definition enumErr :: "(string \<times> json) list \<Rightarrow> json \<Rightarrow> string \<Rightarrow> engineError option" where
  "enumErr schema v path =
     (case jget schema ''enum'' of
        Some (JArr vals) \<Rightarrow>
          if vals \<noteq> [] \<and> \<not> list_ex (\<lambda>c. valuesEquivalent c v) vals then Some (EText (path @ '' must match enum'')) else None
      | _ \<Rightarrow> None)"

definition schemaProps :: "(string \<times> json) list \<Rightarrow> (string \<times> json) list" where
  "schemaProps schema = (case jget schema ''properties'' of Some (JObj props) \<Rightarrow> props | _ \<Rightarrow> [])"

definition additionalAllowed :: "(string \<times> json) list \<Rightarrow> bool" where
  "additionalAllowed schema = (case jget schema ''additionalProperties'' of Some (JBool b) \<Rightarrow> b | _ \<Rightarrow> True)"

function validateJSONSchema :: "(string \<times> json) list \<Rightarrow> json \<Rightarrow> string \<Rightarrow> engineError option" where
  "validateJSONSchema schema v path =
     (if schema = [] then None
      else case (case jget schema ''type'' of
               Some (JText rawType) \<Rightarrow>
                 if rawType = ''object'' then
                   (case v of
                      JObj obj \<Rightarrow>
                        (case find (\<lambda>k. jget obj k = None) (schemaStringSlice (jget schema ''required'')) of
                           Some k \<Rightarrow> Some (EText (path @ '' missing required field '' @ quoted k))
                         | None \<Rightarrow>
                             firstErr (\<lambda>kv.
                               case jget (schemaProps schema) (fst kv) of
                                 None \<Rightarrow>
                                   if additionalAllowed schema then None
                                   else Some (EText (path @ '' contains unknown field '' @ quoted (fst kv)))
                               | Some (JObj propMap) \<Rightarrow> validateJSONSchema propMap (snd kv) (path @ ''.'' @ fst kv)
                               | Some _ \<Rightarrow> None) (jfields obj))
                    | _ \<Rightarrow> Some (EText (path @ '' must be object'')))
                 else if rawType = ''array'' then
                   (case v of
                      JArr arr \<Rightarrow>
                        (case jget schema ''items'' of
                           Some (JObj itemSchema) \<Rightarrow>
                             firstErr (\<lambda>iv. validateJSONSchema itemSchema (snd iv) (path @ ''['' @ itoa (int (fst iv)) @ '']'')) (enumerate 0 arr)
                         | _ \<Rightarrow> None)
                    | _ \<Rightarrow> Some (EText (path @ '' must be array'')))
                 else if scalarKind rawType v then None else Some (EText (path @ '' must be '' @ rawType))
             | _ \<Rightarrow> None) of
             Some err \<Rightarrow> Some err
           | None \<Rightarrow> enumErr schema v path)"
  by pat_completeness auto
termination
  by (relation "measure (\<lambda>(schema, v, path). size v)")
    (auto simp del: json.size simp: size_jfield size_item in_set_enumerate_eq)

declare validateJSONSchema.simps [simp del] jcanon.simps [simp del]

definition validateSchemaDocument :: "json \<Rightarrow> string \<Rightarrow> engineError option" where
  "validateSchemaDocument raw name =
     (if raw = JNil \<or> json_ok raw then None else Some (EText (name @ '': invalid json schema'')))"

definition validateSchemaValue :: "json \<Rightarrow> json \<Rightarrow> string \<Rightarrow> engineError option" where
  "validateSchemaValue schemaRaw valueRaw name =
     (if schemaRaw = JNil then None
      else if \<not> json_ok schemaRaw then Some (EText (name @ '' schema invalid''))
      else case schemaRaw of
             JObj schema \<Rightarrow>
               if valueRaw \<noteq> JNil \<and> \<not> json_ok valueRaw then Some (EText (name @ '' is invalid json''))
               else validateJSONSchema schema (if valueRaw = JNil then JNull else valueRaw) name
           | JNull \<Rightarrow> if valueRaw \<noteq> JNil \<and> \<not> json_ok valueRaw then Some (EText (name @ '' is invalid json'')) else None
           | _ \<Rightarrow> Some (EText (name @ '' schema invalid'')))"

section \<open>Redaction\<close>

definition shouldRedactKey :: "string \<Rightarrow> string list \<Rightarrow> bool" where
  "shouldRedactKey key names =
     list_ex (\<lambda>field. ToLower (TrimSpace field) \<noteq> '''' \<and> strings_Contains (ToLower (TrimSpace key)) (ToLower (TrimSpace field))) names"

function redactValue :: "json \<Rightarrow> string list \<Rightarrow> json" where
  "redactValue v names =
     (case v of
        JObj kvs \<Rightarrow> JObj (map (\<lambda>kv. (fst kv, if shouldRedactKey (fst kv) names then JText ''[REDACTED]'' else redactValue (snd kv) names)) (jfields kvs))
      | JArr vs \<Rightarrow> JArr (map (\<lambda>x. redactValue x names) vs)
      | _ \<Rightarrow> v)"
  by pat_completeness auto
termination
  by (relation "measure (\<lambda>(v, names). size v)") (auto simp del: json.size simp: size_jfield size_item)

declare redactValue.simps [simp del]

definition redactJSON :: "json \<Rightarrow> string list \<Rightarrow> json" where
  "redactJSON raw names = (if raw = JNil then JNil else if \<not> json_ok raw then raw else redactValue raw names)"

section \<open>Routing hints\<close>

definition routingHintsFromInput :: "json \<Rightarrow> rat" where
  "routingHintsFromInput input =
     (if \<not> json_ok input then 0
      else case input of
             JObj payload \<Rightarrow>
               (let uncertainty = (\<lambda>kvs. case jget kvs ''uncertainty'' of Some v \<Rightarrow> (case jnum v of Some r \<Rightarrow> r | None \<Rightarrow> 0) | None \<Rightarrow> 0) in
                case jget payload ''routing'' of Some (JObj routing) \<Rightarrow> uncertainty routing | _ \<Rightarrow> uncertainty payload)
           | _ \<Rightarrow> 0)"

section \<open>url.PathEscape\<close>

definition hexDigit :: "nat \<Rightarrow> char" where
  "hexDigit n = (if n < 10 then char_of (48 + n) else char_of (55 + n))"

definition pathSafe :: "char \<Rightarrow> bool" where
  "pathSafe c \<longleftrightarrow> (let n = (of_char c :: nat) in 97 \<le> n \<and> n \<le> 122 \<or> 65 \<le> n \<and> n \<le> 90 \<or> 48 \<le> n \<and> n \<le> 57) \<or> c \<in> set ''-_.~$&+=:@''"

fun PathEscape :: "string \<Rightarrow> string" where
  "PathEscape [] = []"
| "PathEscape (c # cs) =
     (if pathSafe c then c # PathEscape cs
      else CHR ''%'' # hexDigit (of_char c div 16) # hexDigit (of_char c mod 16) # PathEscape cs)"

lemma hexDigit_inj: "a < 16 \<Longrightarrow> b < 16 \<Longrightarrow> hexDigit a = hexDigit b \<Longrightarrow> a = b"
proof -
  assume ab: "a < 16" "b < 16" and eq: "hexDigit a = hexDigit b"
  have code: "(of_char (hexDigit n) :: nat) = (if n < 10 then 48 + n else 55 + n)" if "n < 16" for n
    using that by (simp add: hexDigit_def)
  have "(of_char (hexDigit a) :: nat) = of_char (hexDigit b)" using eq by simp
  then show "a = b" unfolding code [OF ab(1)] code [OF ab(2)] using ab by (simp split: if_splits)
qed

text \<open>Escaping is injective, so different identifiers have different keys.\<close>

lemma PathEscape_inj: "PathEscape s = PathEscape t \<Longrightarrow> s = t"
proof (induction s arbitrary: t)
  case Nil
  then show ?case by (cases t) (auto split: if_splits)
next
  case (Cons c cs)
  then obtain d ds where t: "t = d # ds" by (cases t) (auto split: if_splits)
  have pct: "\<not> pathSafe CHR ''%''" by (simp add: pathSafe_def)
  have "c = d" if "of_char c div 16 = (of_char d :: nat) div 16" "of_char c mod 16 = (of_char d :: nat) mod 16"
  proof -
    have "(of_char c :: nat) = of_char d" using that by (metis div_mult_mod_eq)
    then show ?thesis by simp
  qed
  moreover have "(of_char x :: nat) div 16 < 16" for x :: char
    using nat_of_char_less_256 [of x] by (simp add: less_mult_imp_div_less)
  ultimately show ?case using Cons pct unfolding t by (auto split: if_splits dest!: hexDigit_inj [rotated 2])
qed

section \<open>What a schema means\<close>

definition schema_kind :: "(string \<times> json) list \<Rightarrow> string option" where
  "schema_kind schema = (case jget schema ''type'' of Some (JText t) \<Rightarrow> Some t | _ \<Rightarrow> None)"

definition in_enum :: "(string \<times> json) list \<Rightarrow> json \<Rightarrow> bool" where
  "in_enum schema v \<longleftrightarrow> (\<forall>vals. jget schema ''enum'' = Some (JArr vals) \<and> vals \<noteq> [] \<longrightarrow> (\<exists>c \<in> set vals. jcanon c = jcanon v))"

definition required_names :: "(string \<times> json) list \<Rightarrow> string set" where
  "required_names schema = {k. TrimSpace k \<noteq> '''' \<and> (\<exists>items. jget schema ''required'' = Some (JArr items) \<and> JText k \<in> set items)}"

text \<open>A value conforms to a schema: its kind is the one asked for; an object has every required
  field, no field beyond the declared ones unless additional fields are allowed, and each declared
  field conforms to its own schema; the items of an array conform to the item schema; and the value
  is one of the enumeration, if there is one.\<close>

inductive conforms :: "(string \<times> json) list \<Rightarrow> json \<Rightarrow> bool" where
  scalar: "schema_kind schema \<notin> {Some ''object'', Some ''array''} \<Longrightarrow> (\<And>t. schema_kind schema = Some t \<Longrightarrow> scalarKind t v) \<Longrightarrow>
     in_enum schema v \<Longrightarrow> conforms schema v"
| obj: "schema_kind schema = Some ''object'' \<Longrightarrow> (\<And>k. k \<in> required_names schema \<Longrightarrow> jget kvs k \<noteq> None) \<Longrightarrow>
     (\<And>k v. jget kvs k = Some v \<Longrightarrow> additionalAllowed schema \<or> jget (schemaProps schema) k \<noteq> None) \<Longrightarrow>
     (\<And>k v p. jget kvs k = Some v \<Longrightarrow> jget (schemaProps schema) k = Some (JObj p) \<Longrightarrow> conforms p v) \<Longrightarrow>
     in_enum schema (JObj kvs) \<Longrightarrow> conforms schema (JObj kvs)"
| arr: "schema_kind schema = Some ''array'' \<Longrightarrow> (\<And>p v. jget schema ''items'' = Some (JObj p) \<Longrightarrow> v \<in> set vs \<Longrightarrow> conforms p v) \<Longrightarrow>
     in_enum schema (JArr vs) \<Longrightarrow> conforms schema (JArr vs)"

inductive_cases conforms_cases: "conforms schema v"

lemma jget_Nil [simp]: "jget [] k = None"
  by (simp add: jget_def)

lemma enumErr_None: "enumErr schema v path = None \<longleftrightarrow> in_enum schema v"
  by (auto simp: enumErr_def in_enum_def valuesEquivalent_def list_ex_iff split: option.splits json.splits)

lemma set_schemaStringSlice: "set (schemaStringSlice (jget schema ''required'')) = required_names schema"
  unfolding schemaStringSlice_def required_names_def
  by (auto simp: List.map_filter_def split: option.splits json.splits if_splits) force+

lemma validate_kind:
  assumes "schema \<noteq> []"
  shows "validateJSONSchema schema v path = None \<longleftrightarrow> in_enum schema v \<and>
    (case schema_kind schema of
       None \<Rightarrow> True
     | Some t \<Rightarrow>
         if t = ''object'' then
           (\<exists>obj. v = JObj obj \<and> (\<forall>k \<in> required_names schema. jget obj k \<noteq> None) \<and>
              (\<forall>(k, x) \<in> set (jfields obj). case jget (schemaProps schema) k of None \<Rightarrow> additionalAllowed schema
                 | Some (JObj p) \<Rightarrow> validateJSONSchema p x (path @ ''.'' @ k) = None | Some _ \<Rightarrow> True))
         else if t = ''array'' then
           (\<exists>vs. v = JArr vs \<and> (\<forall>p. jget schema ''items'' = Some (JObj p) \<longrightarrow>
              (\<forall>i < length vs. validateJSONSchema p (vs ! i) (path @ ''['' @ itoa (int i) @ '']'') = None)))
         else scalarKind t v)"
proof -
  have req: "find (\<lambda>k. jget obj k = None) (schemaStringSlice (jget schema ''required'')) = None \<longleftrightarrow> (\<forall>k \<in> required_names schema. jget obj k \<noteq> None)" for obj
    by (auto simp: find_None_iff set_schemaStringSlice)
  show ?thesis
  proof (cases "schema_kind schema")
    case None
    then show ?thesis using assms
      by (subst validateJSONSchema.simps) (auto simp: schema_kind_def enumErr_None split: option.splits json.splits)
  next
    case (Some t)
    then have ty: "jget schema ''type'' = Some (JText t)" by (auto simp: schema_kind_def split: option.splits json.splits)
    consider "t = ''object''" | "t = ''array''" | "t \<noteq> ''object''" "t \<noteq> ''array''" by blast
    then show ?thesis
    proof cases
      case 1
      show ?thesis
      proof (cases "\<exists>obj. v = JObj obj")
        case True
        then obtain obj where v: "v = JObj obj" by blast
        define f where "f kv = (case jget (schemaProps schema) (fst kv) of
            None \<Rightarrow> if additionalAllowed schema then None else Some (EText (path @ '' contains unknown field '' @ quoted (fst kv)))
          | Some (JObj propMap) \<Rightarrow> validateJSONSchema propMap (snd kv) (path @ ''.'' @ fst kv) | Some _ \<Rightarrow> None)" for kv
        have f: "f (k, x) = None \<longleftrightarrow> (case jget (schemaProps schema) k of None \<Rightarrow> additionalAllowed schema
                 | Some (JObj p) \<Rightarrow> validateJSONSchema p x (path @ ''.'' @ k) = None | Some _ \<Rightarrow> True)" for k x
          by (auto simp: f_def split: option.split json.split)
        have "validateJSONSchema schema v path = None \<longleftrightarrow>
            find (\<lambda>k. jget obj k = None) (schemaStringSlice (jget schema ''required'')) = None \<and> firstErr f (jfields obj) = None \<and> in_enum schema v"
          unfolding f_def using 1 ty assms v
          by (subst validateJSONSchema.simps) (auto simp: enumErr_None split: option.split)
        moreover have "(\<forall>kv \<in> set (jfields obj). f kv = None) \<longleftrightarrow> (\<forall>(k, x) \<in> set (jfields obj). case jget (schemaProps schema) k of None \<Rightarrow> additionalAllowed schema
                 | Some (JObj p) \<Rightarrow> validateJSONSchema p x (path @ ''.'' @ k) = None | Some _ \<Rightarrow> True)"
          unfolding f [symmetric] by auto
        ultimately show ?thesis unfolding req firstErr_None using 1 Some v by auto
      next
        case False
        then show ?thesis using 1 Some ty assms by (subst validateJSONSchema.simps) (auto split: json.split)
      qed
    next
      case 2
      have "validateJSONSchema schema (JArr vs) path = None \<longleftrightarrow> in_enum schema (JArr vs) \<and> (\<forall>p. jget schema ''items'' = Some (JObj p) \<longrightarrow>
          firstErr (\<lambda>iv. validateJSONSchema p (snd iv) (path @ ''['' @ itoa (int (fst iv)) @ '']'')) (enumerate 0 vs) = None)" for vs
        using 2 ty assms by (subst validateJSONSchema.simps) (auto simp: enumErr_None split: option.split json.split)
      moreover have "validateJSONSchema schema v path \<noteq> None" if "\<forall>vs. v \<noteq> JArr vs"
        using that 2 ty assms by (subst validateJSONSchema.simps) (auto split: json.split)
      ultimately show ?thesis using 2 Some unfolding firstErr_enumerate by (cases "\<exists>vs. v = JArr vs") auto
    next
      case 3
      then show ?thesis using Some ty assms
        by (subst validateJSONSchema.simps) (auto simp: enumErr_None)
    qed
  qed
qed

lemma validate_conforms: "validateJSONSchema schema v path = None \<longleftrightarrow> conforms schema v"
proof (induction v arbitrary: schema path rule: measure_induct_rule [of size])
  case (less v)
  show ?case
  proof (cases "schema = []")
    case True
    then show ?thesis
      by (subst validateJSONSchema.simps) (auto intro!: conforms.scalar simp: schema_kind_def in_enum_def)
  next
    case ne: False
    note vk = validate_kind [OF ne, of v path]
    consider "schema_kind schema = Some ''object''" | "schema_kind schema = Some ''array''"
      | "schema_kind schema \<notin> {Some ''object'', Some ''array''}" by blast
    then show ?thesis
    proof cases
      case 1
      have ih: "validateJSONSchema p x q = None \<longleftrightarrow> conforms p x" if "v = JObj obj" "jget obj k = Some x" for p x q obj k
        using less [of x] that size_jfield [of "(k, x)" obj] by (simp add: jget_iff)
      show ?thesis
      proof
        assume "validateJSONSchema schema v path = None"
        with vk 1 obtain obj where v: "v = JObj obj" and en: "in_enum schema v" and rq: "\<forall>k \<in> required_names schema. jget obj k \<noteq> None"
          and f: "\<forall>(k, x) \<in> set (jfields obj). case jget (schemaProps schema) k of None \<Rightarrow> additionalAllowed schema
                 | Some (JObj p) \<Rightarrow> validateJSONSchema p x (path @ ''.'' @ k) = None | Some _ \<Rightarrow> True" by auto
        have g: "case jget (schemaProps schema) k of None \<Rightarrow> additionalAllowed schema
                 | Some (JObj p) \<Rightarrow> validateJSONSchema p x (path @ ''.'' @ k) = None | Some _ \<Rightarrow> True" if "jget obj k = Some x" for k x
          using f that jget_iff [of k x obj] by blast
        show "conforms schema v" unfolding v
        proof (rule conforms.obj [OF 1])
          show "conforms p x" if "jget obj k = Some x" "jget (schemaProps schema) k = Some (JObj p)" for k x p
            using g [OF that(1)] that ih [OF v that(1)] by simp
          show "additionalAllowed schema \<or> jget (schemaProps schema) k \<noteq> None" if "jget obj k = Some x" for k x
            using g [OF that] by (auto split: option.splits)
        qed (use rq en v in auto)
      next
        assume "conforms schema v"
        then show "validateJSONSchema schema v path = None"
        proof cases
          case (obj kvs)
          have "case jget (schemaProps schema) k of None \<Rightarrow> additionalAllowed schema
                 | Some (JObj p) \<Rightarrow> validateJSONSchema p x (path @ ''.'' @ k) = None | Some _ \<Rightarrow> True" if "(k, x) \<in> set (jfields kvs)" for k x
            using that obj(4) [of k x] obj(5) [of k x] ih [OF obj(1), of k x] unfolding jget_iff by (auto split: option.splits json.splits)
          then show ?thesis unfolding vk using obj 1 by auto
        qed (use 1 in simp_all)
      qed
    next
      case 2
      have ih: "validateJSONSchema p x q = None \<longleftrightarrow> conforms p x" if "v = JArr vs" "x \<in> set vs" for p x q vs
        using less [of x] that size_item [of x vs] by simp
      show ?thesis
      proof
        assume "validateJSONSchema schema v path = None"
        with vk 2 obtain vs where v: "v = JArr vs" and en: "in_enum schema v"
          and f: "\<And>p i. jget schema ''items'' = Some (JObj p) \<Longrightarrow> i < length vs \<Longrightarrow> validateJSONSchema p (vs ! i) (path @ ''['' @ itoa (int i) @ '']'') = None" by auto
        show "conforms schema v" unfolding v
        proof (rule conforms.arr [OF 2])
          show "conforms p x" if "jget schema ''items'' = Some (JObj p)" "x \<in> set vs" for p x
            using f [OF that(1)] that(2) ih [OF v that(2)] by (metis in_set_conv_nth)
        qed (use en v in simp)
      next
        assume "conforms schema v"
        then show "validateJSONSchema schema v path = None"
        proof cases
          case (arr vs)
          then show ?thesis unfolding vk using 2 ih [OF arr(1)] by auto
        qed (use 2 in simp_all)
      qed
    next
      case 3
      then show ?thesis unfolding vk by (auto elim!: conforms_cases intro!: conforms.scalar split: option.splits if_splits)
    qed
  qed
qed


section \<open>What redaction leaves\<close>

text \<open>A place in a JSON value: a path of field names and positions.\<close>

datatype jstep = Field string | Item nat

fun jlookup :: "json \<Rightarrow> jstep list \<Rightarrow> json option" where
  "jlookup v [] = Some v"
| "jlookup (JObj kvs) (Field k # p) = (case jget kvs k of None \<Rightarrow> None | Some v \<Rightarrow> jlookup v p)"
| "jlookup (JArr vs) (Item i # p) = (if i < length vs then jlookup (vs ! i) p else None)"
| "jlookup _ _ = None"

fun sensitive_step :: "string list \<Rightarrow> jstep \<Rightarrow> bool" where
  "sensitive_step names (Field k) \<longleftrightarrow> shouldRedactKey k names"
| "sensitive_step names (Item i) \<longleftrightarrow> False"

lemma jget_redact:
  "jget (map (\<lambda>kv. (fst kv, f kv)) (jfields kvs)) k = map_option (\<lambda>v. f (k, v)) (jget kvs k)"
proof -
  have d: "jfields (map (\<lambda>kv. (fst kv, f kv)) xs) = map (\<lambda>kv. (fst kv, f kv)) xs" if "distinct (map fst xs)" for xs
    using that by (induction xs) (auto, force)
  have "jget (map (\<lambda>kv. (fst kv, f kv)) (jfields kvs)) k = Some y \<longleftrightarrow> (\<exists>v. jget kvs k = Some v \<and> y = f (k, v))" for y
    unfolding jget_iff [symmetric] d [OF jfields_keys(2)] by (auto, force)
  then show ?thesis by (cases "jget kvs k"; cases "jget (map (\<lambda>kv. (fst kv, f kv)) (jfields kvs)) k") auto
qed

lemma redact_lookup:
  "jlookup (redactValue v names) p =
     (case p of [] \<Rightarrow> Some (redactValue v names)
      | st # q \<Rightarrow> (case jlookup v [st] of None \<Rightarrow> None
                   | Some w \<Rightarrow> jlookup (if sensitive_step names st then JText ''[REDACTED]'' else redactValue w names) q))"
proof (cases p)
  case (Cons st q)
  then show ?thesis
    by (cases v; cases st; subst redactValue.simps)
      (auto simp: jget_redact [where f = "\<lambda>kv. if shouldRedactKey (fst kv) names then JText ''[REDACTED]'' else redactValue (snd kv) names"] split: option.split)
qed simp

lemma redact_keeps: "\<not> list_ex (sensitive_step names) p \<Longrightarrow> jlookup (redactValue v names) p = map_option (\<lambda>w. redactValue w names) (jlookup v p)"
proof (induction p arbitrary: v)
  case (Cons st q)
  have "jlookup v (st # q) = (case jlookup v [st] of None \<Rightarrow> None | Some w \<Rightarrow> jlookup w q)"
    by (cases v; cases st) (auto split: option.split)
  with Cons show ?case by (subst redact_lookup) (auto split: option.split)
qed simp

lemma redact_hides:
  "jlookup (redactValue v names) (p @ [st]) = Some w \<Longrightarrow> sensitive_step names st \<Longrightarrow> w = JText ''[REDACTED]''"
proof (induction p arbitrary: v)
  case Nil
  then show ?case by (subst (asm) redact_lookup) (auto split: option.splits)
next
  case (Cons s q)
  show ?case
  proof (cases "jlookup v [s]")
    case None
    with Cons.prems show ?thesis by (subst (asm) redact_lookup) simp
  next
    case (Some x)
    with Cons.prems(1) have "jlookup (if sensitive_step names s then JText ''[REDACTED]'' else redactValue x names) (q @ [st]) = Some w"
      by (subst (asm) redact_lookup) simp
    then show ?thesis using Cons.IH [of x] Cons.prems(2) by (cases "sensitive_step names s"; cases q) auto
  qed
qed

end
