(* ===== verification/ToolGateway.thy ===== *)
theory ToolGateway
  imports ToolSchema Gates
begin

text \<open>
  Tool policies and servers, the record of tool calls and the choice of a route
  (\<^verbatim>\<open>internal/engine/tool_gateway.go\<close>, \<^verbatim>\<open>brain.go\<close>).  The call itself is in theory \<open>ToolCalls\<close>.

  \<^item> \<open>toolCtx\<close> is what the gateway reads from a context beyond \<open>callCtx\<close>: the risk decision of the
    run, the side-effect mode and the rate limiter, whose answers may emit events into the store.
  \<^item> \<open>toolEnv\<close> adds to the services the budgets of the runner and the text of an error
    (\<open>err.Error()\<close>), which only goes into records.
  \<^item> Dollar amounts, rates and scores are \<open>float64\<close> in the code and rationals here, so rounding is
    not modelled.  The explanations a brain decision carries as text are left out.
\<close>

record 's toolCtx =
  tx_call :: callCtx
  tx_risk :: "(string \<times> int) option"
  tx_mode :: string
  tx_limiter :: "(rateLimitRequest \<Rightarrow> 's \<Rightarrow> (engineError + bool) \<times> 's) option"

record 's toolEnv =
  te_svc :: "'s svcEnv"
  te_defBudget :: budgetPolicy
  te_tenantBudget :: "string \<Rightarrow> budgetPolicy"
  te_errText :: "engineError \<Rightarrow> string"

abbreviation toolGatewayBundleKey :: string where "toolGatewayBundleKey \<equiv> ''tool_gateway/bundle''"
abbreviation toolCallIndexKey :: string where "toolCallIndexKey \<equiv> ''tool_gateway/calls/index''"
abbreviation defaultToolServerID :: string where "defaultToolServerID \<equiv> ''local''"

section \<open>Normalisation\<close>

definition dedupeSortedStrings :: "string list \<Rightarrow> string list" where
  "dedupeSortedStrings items = sort (keepNew [] items)"

definition cloneSideEffectPolicy :: "sideEffectPolicy option \<Rightarrow> sideEffectPolicy option" where
  "cloneSideEffectPolicy = map_option (\<lambda>p. p\<lparr>sp_CompensationTool := TrimSpace (sp_CompensationTool p)\<rparr>)"

definition normalizeSideEffectPolicy :: "sideEffectPolicy option \<Rightarrow> sideEffectPolicy option" where
  "normalizeSideEffectPolicy policy =
     map_option (\<lambda>p. if sp_CompensationTool p \<noteq> '''' \<or> sp_StageRequired p \<or> sp_DryRunSupported p \<or> sp_Irreversible p \<or> sp_ApprovalBeforeCommit p
                     then p\<lparr>sp_Enabled := True\<rparr> else p) (cloneSideEffectPolicy policy)"

definition cloneRoute :: "adaptiveRoute \<Rightarrow> adaptiveRoute" where
  "cloneRoute r = r\<lparr>rt_ID := TrimSpace (rt_ID r), rt_Provider := TrimSpace (rt_Provider r), rt_Model := TrimSpace (rt_Model r)\<rparr>"

definition cloneAdaptiveRoutingPolicy :: "adaptiveRoutingPolicy option \<Rightarrow> adaptiveRoutingPolicy option" where
  "cloneAdaptiveRoutingPolicy = map_option (\<lambda>p. p\<lparr>ap_Routes := map cloneRoute (ap_Routes p)\<rparr>)"

fun normalizeRoutes :: "nat \<Rightarrow> string list \<Rightarrow> adaptiveRoute list \<Rightarrow> engineError + adaptiveRoute list" where
  "normalizeRoutes i seen [] = Inr []"
| "normalizeRoutes i seen (r0 # rs) =
     (let r1 = (cloneRoute r0)\<lparr>rt_TenantScopes := dedupeSortedStrings (rt_TenantScopes r0)\<rparr>;
          r = (if rt_ID r1 = '''' then r1\<lparr>rt_ID := ''route-'' @ itoa (int i + 1)\<rparr> else r1) in
      if rt_ID r \<in> set seen then Inl (EText (''duplicate adaptive route id '' @ quoted (rt_ID r)))
      else case normalizeRoutes (Suc i) (rt_ID r # seen) rs of Inl err \<Rightarrow> Inl err | Inr out \<Rightarrow> Inr (r # out))"

definition normalizeAdaptiveRoutingPolicy :: "adaptiveRoutingPolicy option \<Rightarrow> engineError + adaptiveRoutingPolicy option" where
  "normalizeAdaptiveRoutingPolicy policy =
     (case policy of
        None \<Rightarrow> Inr None
      | Some p \<Rightarrow>
          (case normalizeRoutes 0 [] (ap_Routes p) of
             Inl err \<Rightarrow> Inl err
           | Inr rs \<Rightarrow>
               Inr (Some (p\<lparr>ap_UncertaintyThreshold := max 0 (min 1 (ap_UncertaintyThreshold p)),
                            ap_FailureAttemptThreshold := (if ap_FailureAttemptThreshold p \<le> 0 then 2 else ap_FailureAttemptThreshold p),
                            ap_RiskScoreThreshold := (if ap_RiskScoreThreshold p \<le> 0 then 50 else ap_RiskScoreThreshold p),
                            ap_Routes := rs\<rparr>))))"

definition cloneToolPolicy :: "toolPolicy \<Rightarrow> toolPolicy" where
  "cloneToolPolicy p =
     p\<lparr>tl_ID := TrimSpace (tl_ID p), tl_Tool := TrimSpace (tl_Tool p), tl_ServerID := TrimSpace (tl_ServerID p),
       tl_SideEffect := cloneSideEffectPolicy (tl_SideEffect p), tl_AdaptiveRouting := cloneAdaptiveRoutingPolicy (tl_AdaptiveRouting p)\<rparr>"

definition cloneToolServer :: "toolServer \<Rightarrow> toolServer" where
  "cloneToolServer v =
     v\<lparr>ts_ID := TrimSpace (ts_ID v), ts_Kind := TrimSpace (ts_Kind v), ts_Endpoint := TrimSpace (ts_Endpoint v),
       ts_Description := TrimSpace (ts_Description v)\<rparr>"

definition cloneToolGatewayBundle :: "toolGatewayBundle \<Rightarrow> toolGatewayBundle" where
  "cloneToolGatewayBundle b = b\<lparr>tb_Tools := map cloneToolPolicy (tb_Tools b), tb_Servers := map cloneToolServer (tb_Servers b)\<rparr>"

definition dotsToDashes :: "string \<Rightarrow> string" where
  "dotsToDashes = map (\<lambda>c. if c = CHR ''.'' then CHR ''-'' else c)"

fun normalizeTools :: "string list \<Rightarrow> toolPolicy list \<Rightarrow> engineError + toolPolicy list" where
  "normalizeTools seen [] = Inr []"
| "normalizeTools seen (p0 # ps) =
     (let tool = TrimSpace (tl_Tool p0);
          p = p0\<lparr>tl_ID := (if TrimSpace (tl_ID p0) = '''' then ''tool-'' @ dotsToDashes tool else TrimSpace (tl_ID p0)),
                 tl_Tool := tool, tl_ServerID := TrimSpace (tl_ServerID p0), tl_TenantScopes := dedupeSortedStrings (tl_TenantScopes p0),
                 tl_RedactFields := dedupeSortedStrings (tl_RedactFields p0), tl_SideEffect := normalizeSideEffectPolicy (tl_SideEffect p0)\<rparr> in
      if tool = '''' then Inl (EText ''tool policy tool is required'')
      else if tool \<in> set seen then Inl (EText (''duplicate tool policy for '' @ quoted tool))
      else case normalizeAdaptiveRoutingPolicy (tl_AdaptiveRouting p0) of
             Inl err \<Rightarrow> Inl err
           | Inr ar \<Rightarrow>
               (case validateSchemaDocument (tl_InputSchema p0) (''tool '' @ tool @ '' input_schema'') of
                  Some err \<Rightarrow> Inl err
                | None \<Rightarrow>
                    (case validateSchemaDocument (tl_OutputSchema p0) (''tool '' @ tool @ '' output_schema'') of
                       Some err \<Rightarrow> Inl err
                     | None \<Rightarrow>
                         (case normalizeTools (tool # seen) ps of
                            Inl err \<Rightarrow> Inl err
                          | Inr out \<Rightarrow> Inr (cloneToolPolicy (p\<lparr>tl_AdaptiveRouting := ar\<rparr>) # out)))))"

fun normalizeServers :: "string list \<Rightarrow> toolServer list \<Rightarrow> engineError + toolServer list" where
  "normalizeServers seen [] = Inr []"
| "normalizeServers seen (v0 # vs) =
     (let i = TrimSpace (ts_ID v0) in
      if i = '''' then Inl (EText ''tool server id is required'')
      else if i \<in> set seen then Inl (EText (''duplicate tool server '' @ quoted i))
      else case normalizeServers (i # seen) vs of
             Inl err \<Rightarrow> Inl err
           | Inr out \<Rightarrow>
               Inr (cloneToolServer (v0\<lparr>ts_ID := i, ts_Kind := (if ts_Kind v0 = '''' then ''mcp'' else ts_Kind v0),
                      ts_AllowedTools := dedupeSortedStrings (ts_AllowedTools v0), ts_TenantScopes := dedupeSortedStrings (ts_TenantScopes v0)\<rparr>) # out))"

definition ToolBundle_NormalizeAndValidate :: "gotime \<Rightarrow> toolGatewayBundle \<Rightarrow> engineError + toolGatewayBundle" where
  "ToolBundle_NormalizeAndValidate now b =
     (case normalizeTools [] (tb_Tools b) of
        Inl err \<Rightarrow> Inl err
      | Inr tools \<Rightarrow>
          (case normalizeServers [] (tb_Servers b) of
             Inl err \<Rightarrow> Inl err
           | Inr servers \<Rightarrow>
               Inr \<lparr>tb_Tools = tools, tb_Servers = servers,
                    tb_UpdatedAt = (case tb_UpdatedAt b of None \<Rightarrow> Some now | Some t \<Rightarrow> Some t)\<rparr>))"

section \<open>The bundle in force\<close>

definition SaveToolGatewayBundle ::
  "'s svcEnv \<Rightarrow> gotime \<Rightarrow> toolGatewayBundle \<Rightarrow> ('f, 's) engine \<Rightarrow> engineError option \<times> ('f, 's) engine" where
  "SaveToolGatewayBundle env now bundle0 = (\<lambda>(m, s).
     case ToolBundle_NormalizeAndValidate now bundle0 of
       Inl err \<Rightarrow> (Some err, (m, s))
     | Inr b \<Rightarrow>
         (case putJSONKV (sx_ops env) now toolGatewayBundleKey (DocToolBundle b) s of
            (Some err, s1) \<Rightarrow> (Some err, (m, s1))
          | (None, s1) \<Rightarrow> (None, (m\<lparr>rm_toolGateway := Some b\<rparr>, s1))))"

definition GetToolGatewayBundle ::
  "'s svcEnv \<Rightarrow> gotime \<Rightarrow> ('f, 's) engine \<Rightarrow> (engineError + toolGatewayBundle option) \<times> ('f, 's) engine" where
  "GetToolGatewayBundle env now = (\<lambda>(m, s).
     case rm_toolGateway m of
       Some b \<Rightarrow> (Inr (Some (cloneToolGatewayBundle b)), (m, s))
     | None \<Rightarrow>
         (case getJSONKV (sx_ops env) asToolBundle toolGatewayBundleKey s of
            None \<Rightarrow> (Inr None, (m, s))
          | Some (Inl err) \<Rightarrow> (Inl err, (m, s))
          | Some (Inr b0) \<Rightarrow>
              (case ToolBundle_NormalizeAndValidate now b0 of
                 Inl err \<Rightarrow> (Inl err, (m, s))
               | Inr b \<Rightarrow> (Inr (Some (cloneToolGatewayBundle b)), (m\<lparr>rm_toolGateway := Some b\<rparr>, s)))))"

definition containsString :: "string list \<Rightarrow> string \<Rightarrow> bool" where
  "containsString items target = list_ex (\<lambda>item. TrimSpace item = TrimSpace target) items"

definition implicitPolicy :: "string \<Rightarrow> toolPolicy" where
  "implicitPolicy tool =
     \<lparr>tl_ID = ''implicit-'' @ dotsToDashes tool, tl_Tool = tool, tl_ServerID = defaultToolServerID, tl_Approved = True, tl_SandboxRequired = False,
      tl_SideEffect = None, tl_AdaptiveRouting = None, tl_TenantScopes = [], tl_RedactFields = [], tl_InputSchema = JNil, tl_OutputSchema = JNil\<rparr>"

definition pickPolicy :: "string \<Rightarrow> string \<Rightarrow> toolPolicy list \<Rightarrow> engineError + toolPolicy" where
  "pickPolicy tenantID tool policies =
     (case find (\<lambda>p. tl_Tool p = tool) policies of
        None \<Rightarrow> Inr (implicitPolicy tool)
      | Some p \<Rightarrow>
          if tl_TenantScopes p \<noteq> [] \<and> \<not> containsString (tl_TenantScopes p) tenantID
          then Inl (EWrap ('': tool '' @ quoted tool @ '' is not scoped to tenant '' @ quoted tenantID) ErrToolNotApproved)
          else if \<not> tl_Approved p then Inl (EWrap ('': tool '' @ quoted tool @ '' is disabled'') ErrToolNotApproved)
          else Inr (cloneToolPolicy (if tl_ServerID p = '''' then p\<lparr>tl_ServerID := defaultToolServerID\<rparr> else p)))"

definition resolveToolPolicy ::
  "'s svcEnv \<Rightarrow> callCtx \<Rightarrow> gotime \<Rightarrow> string \<Rightarrow> ('f, 's) engine \<Rightarrow> (engineError + toolPolicy) \<times> ('f, 's) engine" where
  "resolveToolPolicy env ctx now tool e =
     (case GetToolGatewayBundle env now e of
        (Inl err, e1) \<Rightarrow> (Inl err, e1)
      | (Inr found, e1) \<Rightarrow>
          (pickPolicy (effectiveTenantFromContext ctx) tool (case found of Some b \<Rightarrow> tb_Tools b | None \<Rightarrow> []), e1))"

definition localServer :: toolServer where
  "localServer = \<lparr>ts_ID = defaultToolServerID, ts_Kind = ''local'', ts_Endpoint = '''', ts_Description = '''', ts_Approved = True,
     ts_AllowedTools = [], ts_TenantScopes = [], ts_SandboxAllowed = True\<rparr>"

definition pickServer :: "string \<Rightarrow> string \<Rightarrow> string \<Rightarrow> toolServer list \<Rightarrow> engineError + toolServer" where
  "pickServer tenantID serverID tool servers =
     (let refuse = (\<lambda>why. Inl (EWrap ('': server '' @ quoted serverID @ why) ErrToolServerNotApproved)) in
      case find (\<lambda>v. ts_ID v = serverID) servers of
        None \<Rightarrow> refuse '' is not registered''
      | Some v \<Rightarrow>
          if \<not> ts_Approved v then refuse '' is disabled''
          else if ts_TenantScopes v \<noteq> [] \<and> \<not> containsString (ts_TenantScopes v) tenantID
          then refuse ('' is not scoped to tenant '' @ quoted tenantID)
          else if ts_AllowedTools v \<noteq> [] \<and> \<not> containsString (ts_AllowedTools v) tool
          then refuse ('' does not allow tool '' @ quoted tool)
          else Inr (cloneToolServer v))"

definition resolveToolServer ::
  "'s svcEnv \<Rightarrow> callCtx \<Rightarrow> gotime \<Rightarrow> toolPolicy \<Rightarrow> ('f, 's) engine \<Rightarrow> (engineError + toolServer) \<times> ('f, 's) engine" where
  "resolveToolServer env ctx now policy e =
     (let serverID = (if TrimSpace (tl_ServerID policy) = '''' then defaultToolServerID else TrimSpace (tl_ServerID policy)) in
      if serverID = defaultToolServerID then (Inr localServer, e)
      else case GetToolGatewayBundle env now e of
             (Inl err, e1) \<Rightarrow> (Inl err, e1)
           | (Inr found, e1) \<Rightarrow>
               (pickServer (effectiveTenantFromContext ctx) serverID (tl_Tool policy) (case found of Some b \<Rightarrow> tb_Servers b | None \<Rightarrow> []), e1))"

section \<open>The record of calls\<close>

definition toolCallRecordKey :: "string \<Rightarrow> string" where
  "toolCallRecordKey i = ''tool_gateway/calls/'' @ PathEscape (TrimSpace i)"

definition callFilled :: "'s svcEnv \<Rightarrow> callCtx \<Rightarrow> gotime \<Rightarrow> toolCallRecord \<Rightarrow> 's \<Rightarrow> toolCallRecord" where
  "callFilled env ctx now r s =
     r\<lparr>cr_ID := (if TrimSpace (cr_ID r) = '''' then mintID env ''tool-call-'' now s else TrimSpace (cr_ID r)),
       cr_At := (if IsZero (cr_At r) then now else cr_At r),
       cr_TenantID := (if TrimSpace (cr_TenantID r) = '''' then effectiveTenantFromContext ctx else TrimSpace (cr_TenantID r)),
       cr_PrincipalID :=
         (if TrimSpace (cr_PrincipalID r) = '''' then (case PrincipalFrom ctx of Some p \<Rightarrow> TrimSpace (pr_ID p) | None \<Rightarrow> '''')
          else TrimSpace (cr_PrincipalID r)),
       cr_RunID := TrimSpace (cr_RunID r), cr_WorkflowID := TrimSpace (cr_WorkflowID r), cr_NodeID := TrimSpace (cr_NodeID r),
       cr_Tool := TrimSpace (cr_Tool r), cr_ServerID := TrimSpace (cr_ServerID r), cr_ServerKind := TrimSpace (cr_ServerKind r),
       cr_Reason := TrimSpace (cr_Reason r), cr_Error := TrimSpace (cr_Error r)\<rparr>"

definition saveToolCallRecord :: "'s svcEnv \<Rightarrow> callCtx \<Rightarrow> gotime \<Rightarrow> toolCallRecord \<Rightarrow> 's \<Rightarrow> 's" where
  "saveToolCallRecord env ctx now r0 s =
     (let r = callFilled env ctx now r0 s; ops = sx_ops env in
      if cr_Tool r = '''' then s
      else case putJSONKV ops now (toolCallRecordKey (cr_ID r)) (DocToolCall r) s of
             (Some err, s1) \<Rightarrow> s1
           | (None, s1) \<Rightarrow>
               (case indexIDs ops toolCallIndexKey s1 of
                  Inl err \<Rightarrow> s1
                | Inr ids \<Rightarrow> snd (putJSONKV ops now toolCallIndexKey (DocIDs (ids @ [cr_ID r])) s1)))"

definition cloneToolCallRecord :: "toolCallRecord \<Rightarrow> toolCallRecord" where
  "cloneToolCallRecord r =
     r\<lparr>cr_ID := TrimSpace (cr_ID r), cr_TenantID := TrimSpace (cr_TenantID r), cr_PrincipalID := TrimSpace (cr_PrincipalID r),
       cr_RunID := TrimSpace (cr_RunID r), cr_WorkflowID := TrimSpace (cr_WorkflowID r), cr_NodeID := TrimSpace (cr_NodeID r),
       cr_Tool := TrimSpace (cr_Tool r), cr_ServerID := TrimSpace (cr_ServerID r), cr_ServerKind := TrimSpace (cr_ServerKind r),
       cr_RouteID := TrimSpace (cr_RouteID r), cr_Provider := TrimSpace (cr_Provider r), cr_Model := TrimSpace (cr_Model r),
       cr_Reason := TrimSpace (cr_Reason r), cr_Error := TrimSpace (cr_Error r)\<rparr>"

definition callWanted :: "'s storeOps \<Rightarrow> string \<Rightarrow> string \<Rightarrow> string \<Rightarrow> 's \<Rightarrow> string \<Rightarrow> toolCallRecord option" where
  "callWanted ops tenantID runID tool s i =
     (case getJSONKV ops asToolCall (toolCallRecordKey i) s of
        Some (Inr r) \<Rightarrow>
          if tenantID \<noteq> '''' \<and> TrimSpace (cr_TenantID r) \<noteq> tenantID then None
          else if runID \<noteq> '''' \<and> TrimSpace (cr_RunID r) \<noteq> runID then None
          else if tool \<noteq> '''' \<and> TrimSpace (cr_Tool r) \<noteq> tool then None
          else Some (cloneToolCallRecord r)
      | _ \<Rightarrow> None)"

definition ListToolCallRecords :: "'s storeOps \<Rightarrow> callCtx \<Rightarrow> string \<Rightarrow> string \<Rightarrow> int \<Rightarrow> 's \<Rightarrow> engineError + toolCallRecord list" where
  "ListToolCallRecords ops ctx runID tool limit0 s =
     (let limit = (if limit0 \<le> 0 then 100 else limit0) in
      case indexIDs ops toolCallIndexKey s of
        Inl err \<Rightarrow> Inl err
      | Inr ids \<Rightarrow> Inr (collectUpTo (callWanted ops (effectiveTenantFromContext ctx) (TrimSpace runID) (TrimSpace tool) s) limit (rev ids) []))"

end
