(* ===== verification/Routing.thy ===== *)
theory Routing
  imports ToolGateway
begin

text \<open>
  The choice of a route for a tool call: the candidates within scope, budget and rate limit
  (\<open>adaptiveRouteCandidates\<close>), the fixed ordering (\<open>legacyAdaptiveRouteSelection\<close>) and the scored
  choice from past calls (\<^verbatim>\<open>internal/engine/brain.go\<close>).  A list that Go sorts is sorted by the key its
  comparison orders by; route identifiers are distinct, so the first element is determined.
\<close>

record toolInvocation =
  ti_RunID :: string
  ti_WorkflowID :: string
  ti_NodeID :: string
  ti_Attempt :: int
  ti_Tool :: string
  ti_RequiredCapability :: string
  ti_InputSchema :: json
  ti_OutputSchema :: json

section \<open>Candidates\<close>

definition runBudgetFor :: "'s toolEnv \<Rightarrow> callCtx \<Rightarrow> string \<Rightarrow> 's \<Rightarrow> budgetPolicy \<times> budgetUsage" where
  "runBudgetFor env ctx runID s =
     (if runID = '''' then (zeroBudget, zeroUsage)
      else case so_GetRun (sx_ops (te_svc env)) s runID of
             None \<Rightarrow> (zeroBudget, zeroUsage)
           | Some r \<Rightarrow>
               (if run_RunBudget r = zeroBudget
                then effectiveBudget (te_defBudget env) (te_tenantBudget env (effectiveTenantFromContext ctx)) (run_RunBudget r)
                else run_RunBudget r, run_BudgetUsage r))"

definition routeTriggers :: "'s toolCtx \<Rightarrow> int \<Rightarrow> adaptiveRoutingPolicy \<Rightarrow> json \<Rightarrow> string list" where
  "routeTriggers tx att p input =
     (if ap_EscalateOnUncertainty p \<and> ap_UncertaintyThreshold p \<le> routingHintsFromInput input then [''uncertainty''] else [])
     @ (if ap_EscalateOnFailure p \<and> ap_FailureAttemptThreshold p \<le> att then [''failure''] else [])
     @ (case tx_risk tx of
          Some (act, score) \<Rightarrow>
            if ap_EscalateOnRisk p \<and> (ap_RiskScoreThreshold p \<le> score \<or> act = ''sandbox'' \<or> act = RiskActionRequireApproval) then [''risk''] else []
        | None \<Rightarrow> [])"

definition routeFits :: "string \<Rightarrow> budgetPolicy \<Rightarrow> budgetUsage \<Rightarrow> adaptiveRoute \<Rightarrow> bool" where
  "routeFits tenantID b u r \<longleftrightarrow>
     \<not> (rt_TenantScopes r \<noteq> [] \<and> \<not> containsString (rt_TenantScopes r) tenantID) \<and>
     \<not> (0 < bp_MaxTokens b \<and> 0 < rt_EstimatedTokens r \<and> bp_MaxTokens b < bu_Tokens u + rt_EstimatedTokens r) \<and>
     \<not> (0 < bp_MaxDollars b \<and> 0 < rt_EstimatedDollars r \<and> bp_MaxDollars b < bu_Dollars u + rt_EstimatedDollars r)"

fun filterRoutes ::
  "string \<Rightarrow> budgetPolicy \<Rightarrow> budgetUsage \<Rightarrow> (rateLimitRequest \<Rightarrow> 's \<Rightarrow> (engineError + bool) \<times> 's) option \<Rightarrow> adaptiveRoute list \<Rightarrow> 's
     \<Rightarrow> (engineError + adaptiveRoute list) \<times> 's" where
  "filterRoutes tenantID b u limiter [] s = (Inr [], s)"
| "filterRoutes tenantID b u limiter (r # rs) s =
     (if \<not> routeFits tenantID b u r then filterRoutes tenantID b u limiter rs s
      else
        let req = \<lparr>rq_TenantID = tenantID, rq_Provider = rt_Provider r, rq_Kind = ''tool'', rq_EstimatedTokens = rt_EstimatedTokens r,
                   rq_EstimatedDollars = rt_EstimatedDollars r\<rparr> in
        case (case limiter of None \<Rightarrow> (Inr True, s) | Some decide \<Rightarrow> decide req s) of
          (Inl err, s1) \<Rightarrow> (Inl err, s1)
        | (Inr False, s1) \<Rightarrow> filterRoutes tenantID b u limiter rs s1
        | (Inr True, s1) \<Rightarrow>
            (case filterRoutes tenantID b u limiter rs s1 of (Inl err, s2) \<Rightarrow> (Inl err, s2) | (Inr out, s2) \<Rightarrow> (Inr (r # out), s2)))"

definition adaptiveRouteCandidates ::
  "'s toolEnv \<Rightarrow> 's toolCtx \<Rightarrow> toolInvocation \<Rightarrow> toolPolicy \<Rightarrow> json \<Rightarrow> 's \<Rightarrow> (engineError + adaptiveRoute list \<times> string list) \<times> 's" where
  "adaptiveRouteCandidates env tx iv policy input s =
     (case tl_AdaptiveRouting policy of
        None \<Rightarrow> (Inr ([], []), s)
      | Some p \<Rightarrow>
          if ap_Routes p = [] then (Inr ([], []), s)
          else
            let ctx = tx_call tx; (b, u) = runBudgetFor env ctx (ti_RunID iv) s; triggers = routeTriggers tx (ti_Attempt iv) p input in
            case filterRoutes (effectiveTenantFromContext ctx) b u (tx_limiter tx) (ap_Routes p) s of
              (Inl err, s1) \<Rightarrow> (Inl err, s1)
            | (Inr cands, s1) \<Rightarrow> if cands = [] then (Inl ErrBudgetExceeded, s1) else (Inr (cands, triggers), s1))"

definition legacyAdaptiveRouteSelection :: "toolPolicy \<Rightarrow> adaptiveRoute list \<Rightarrow> string list \<Rightarrow> adaptiveRoute option" where
  "legacyAdaptiveRouteSelection policy cands triggers =
     (case tl_AdaptiveRouting policy of
        None \<Rightarrow> None
      | Some p \<Rightarrow>
          if cands = [] then None
          else if triggers \<noteq> [] then
            Some (hd (sort_key (\<lambda>r. (- rt_Priority r, rt_EstimatedDollars r, rt_EstimatedTokens r, rt_ID r)) cands))
          else if ap_CheapFirst p then
            Some (hd (sort_key (\<lambda>r. (rt_EstimatedDollars r, rt_EstimatedTokens r, rt_Priority r, rt_ID r)) cands))
          else Some (hd (sort_key (\<lambda>r. (- rt_Priority r, rt_EstimatedDollars r, rt_ID r)) cands)))"

section \<open>The scored choice\<close>

abbreviation brainPolicyKey :: string where "brainPolicyKey \<equiv> ''brain/policy''"

definition defaultBrainPolicy :: brainPolicy where
  "defaultBrainPolicy =
     \<lparr>bn_Enabled = False, bn_LookbackRecords = 250, bn_MinSamples = 3, bn_DefaultSuccessRate = 3 / 4, bn_DefaultLatencyMS = 1200,
      bn_Weights = \<lparr>bw_SuccessRate = 45 / 100, bw_WorkflowAffinity = 20 / 100, bw_Latency = 10 / 100, bw_Cost = 10 / 100,
                   bw_Priority = 5 / 100, bw_Escalation = 10 / 100\<rparr>\<rparr>"

definition orWeight :: "rat \<Rightarrow> rat \<Rightarrow> rat" where
  "orWeight v d = (if v = 0 then d else v)"

definition normalizeBrainPolicy :: "brainPolicy \<Rightarrow> brainPolicy" where
  "normalizeBrainPolicy p =
     (let d = defaultBrainPolicy; rate = max 0 (min 1 (bn_DefaultSuccessRate p)); w = bn_Weights p; dw = bn_Weights d in
      p\<lparr>bn_LookbackRecords := (if bn_LookbackRecords p \<le> 0 then bn_LookbackRecords d else bn_LookbackRecords p),
        bn_MinSamples := (if bn_MinSamples p \<le> 0 then bn_MinSamples d else bn_MinSamples p),
        bn_DefaultSuccessRate := orWeight rate (bn_DefaultSuccessRate d),
        bn_DefaultLatencyMS := (if bn_DefaultLatencyMS p \<le> 0 then bn_DefaultLatencyMS d else bn_DefaultLatencyMS p),
        bn_Weights := \<lparr>bw_SuccessRate = orWeight (bw_SuccessRate w) (bw_SuccessRate dw),
          bw_WorkflowAffinity = orWeight (bw_WorkflowAffinity w) (bw_WorkflowAffinity dw), bw_Latency = orWeight (bw_Latency w) (bw_Latency dw),
          bw_Cost = orWeight (bw_Cost w) (bw_Cost dw), bw_Priority = orWeight (bw_Priority w) (bw_Priority dw),
          bw_Escalation = orWeight (bw_Escalation w) (bw_Escalation dw)\<rparr>\<rparr>)"

definition SaveBrainPolicy :: "'s svcEnv \<Rightarrow> gotime \<Rightarrow> brainPolicy \<Rightarrow> ('f, 's) engine \<Rightarrow> engineError option \<times> ('f, 's) engine" where
  "SaveBrainPolicy env now p0 = (\<lambda>(m, s).
     let p = normalizeBrainPolicy p0 in
     case putJSONKV (sx_ops env) now brainPolicyKey (DocBrainPolicy p) s of
       (Some err, s1) \<Rightarrow> (Some err, (m, s1))
     | (None, s1) \<Rightarrow> (None, (m\<lparr>rm_brainPolicy := Some p\<rparr>, s1)))"

definition GetBrainPolicy :: "'s svcEnv \<Rightarrow> ('f, 's) engine \<Rightarrow> (engineError + brainPolicy option) \<times> ('f, 's) engine" where
  "GetBrainPolicy env = (\<lambda>(m, s).
     case rm_brainPolicy m of
       Some p \<Rightarrow> (Inr (Some p), (m, s))
     | None \<Rightarrow>
         (case getJSONKV (sx_ops env) asBrainPolicy brainPolicyKey s of
            None \<Rightarrow> (Inr None, (m, s))
          | Some (Inl err) \<Rightarrow> (Inl err, (m, s))
          | Some (Inr p0) \<Rightarrow> (let p = normalizeBrainPolicy p0 in (Inr (Some p), (m\<lparr>rm_brainPolicy := Some p\<rparr>, s)))))"

definition routeHistoryKey :: "adaptiveRoute \<Rightarrow> string" where
  "routeHistoryKey r = (if TrimSpace (rt_ID r) \<noteq> '''' then TrimSpace (rt_ID r) else TrimSpace (rt_Provider r) @ ''|'' @ TrimSpace (rt_Model r))"

definition recordHistoryKey :: "toolCallRecord \<Rightarrow> string" where
  "recordHistoryKey r =
     (if TrimSpace (cr_RouteID r) \<noteq> '''' then TrimSpace (cr_RouteID r)
      else if TrimSpace (cr_Provider r) = '''' \<and> TrimSpace (cr_Model r) = '''' then ''''
      else TrimSpace (cr_Provider r) @ ''|'' @ TrimSpace (cr_Model r))"

record routeAggregate =
  ra_samples :: int
  ra_successes :: int
  ra_totalLatency :: int

definition noAggregate :: routeAggregate where
  "noAggregate = \<lparr>ra_samples = 0, ra_successes = 0, ra_totalLatency = 0\<rparr>"

definition addCall :: "toolCallRecord \<Rightarrow> routeAggregate \<Rightarrow> routeAggregate" where
  "addCall r a =
     \<lparr>ra_samples = ra_samples a + 1,
      ra_successes = ra_successes a + (if cr_Allowed r \<and> TrimSpace (cr_Error r) = '''' then 1 else 0),
      ra_totalLatency = ra_totalLatency a + (if 0 < cr_DurationMS r then cr_DurationMS r else 0)\<rparr>"

definition addRecord ::
  "string \<Rightarrow> (string, routeAggregate) gomap \<times> (string, routeAggregate) gomap \<Rightarrow> toolCallRecord
     \<Rightarrow> (string, routeAggregate) gomap \<times> (string, routeAggregate) gomap" where
  "addRecord workflowID = (\<lambda>(gl, wfl) r.
     let key = recordHistoryKey r in
     if key = '''' then (gl, wfl)
     else (mput key (addCall r (mdef noAggregate gl key)) gl,
           if workflowID \<noteq> '''' \<and> TrimSpace (cr_WorkflowID r) = workflowID then mput key (addCall r (mdef noAggregate wfl key)) wfl else wfl))"

definition brainRouteAggregates ::
  "'s storeOps \<Rightarrow> callCtx \<Rightarrow> string \<Rightarrow> string \<Rightarrow> int \<Rightarrow> 's
     \<Rightarrow> engineError + (string, routeAggregate) gomap \<times> (string, routeAggregate) gomap" where
  "brainRouteAggregates ops ctx tool workflowID lookback s =
     (case ListToolCallRecords ops ctx '''' tool lookback s of
        Inl err \<Rightarrow> Inl err
      | Inr records \<Rightarrow> Inr (foldl (addRecord (TrimSpace workflowID)) ([], []) records))"

text \<open>\<open>metrics\<close>: the success rate and the average latency.  Go's integer division of a positive
  total.\<close>

definition routeMetrics :: "brainPolicy \<Rightarrow> routeAggregate \<Rightarrow> rat \<times> int" where
  "routeMetrics p a =
     (if 0 < ra_samples a then of_int (ra_successes a) / of_int (ra_samples a) else bn_DefaultSuccessRate p,
      if 0 < ra_samples a \<and> 0 < ra_totalLatency a then ra_totalLatency a div ra_samples a else bn_DefaultLatencyMS p)"

definition scoreNormalizedAscending :: "rat \<Rightarrow> rat \<Rightarrow> rat \<Rightarrow> rat" where
  "scoreNormalizedAscending v lo hi = (if hi \<le> lo then 1 else 1 - max 0 (min 1 ((v - lo) / (hi - lo))))"

definition candidateCostValue :: "adaptiveRoute \<Rightarrow> rat" where
  "candidateCostValue r =
     (if 0 < rt_EstimatedDollars r then rt_EstimatedDollars r
      else if 0 < rt_EstimatedTokens r then of_int (rt_EstimatedTokens r) / 1000 else 0)"

definition candidatePriorityValue :: "adaptiveRoute \<Rightarrow> rat" where
  "candidatePriorityValue r = of_int (rt_Priority r)"

fun minOf :: "rat list \<Rightarrow> rat" where
  "minOf [] = 0" | "minOf (x # xs) = foldl (\<lambda>m y. if y < m then y else m) x xs"

fun maxOf :: "rat list \<Rightarrow> rat" where
  "maxOf [] = 0" | "maxOf (x # xs) = foldl (\<lambda>m y. if m < y then y else m) x xs"

definition routeScore ::
  "brainPolicy \<Rightarrow> (string, routeAggregate) gomap \<Rightarrow> (string, routeAggregate) gomap \<Rightarrow> string list \<Rightarrow> adaptiveRoute list \<Rightarrow> adaptiveRoute \<Rightarrow> rat" where
  "routeScore p gl wfl triggers cands r =
     (let w = bn_Weights p; key = routeHistoryKey r; latency = (\<lambda>x. rat_of_int (snd (routeMetrics p (mdef noAggregate gl (routeHistoryKey x)))));
          lo = (\<lambda>f. minOf (map f cands)); hi = (\<lambda>f. maxOf (map f cands)); pr = candidatePriorityValue;
          rank = scoreNormalizedAscending (lo pr + (hi pr - pr r)) (lo pr) (hi pr) in
      fst (routeMetrics p (mdef noAggregate gl key)) * bw_SuccessRate w
      + (if bn_MinSamples p \<le> ra_samples (mdef noAggregate wfl key) then fst (routeMetrics p (mdef noAggregate wfl key)) * bw_WorkflowAffinity w else 0)
      + scoreNormalizedAscending (latency r) (lo latency) (hi latency) * bw_Latency w
      + scoreNormalizedAscending (candidateCostValue r) (lo candidateCostValue) (hi candidateCostValue) * bw_Cost w
      + rank * bw_Priority w
      + rank * bw_Escalation w * of_nat (length triggers))"

text \<open>\<open>evaluateBrainDecision\<close>, as far as the selected route: \<open>None\<close> when the brain is not used.\<close>

definition evaluateBrainDecision ::
  "'s svcEnv \<Rightarrow> 's toolCtx \<Rightarrow> toolInvocation \<Rightarrow> adaptiveRoute list \<Rightarrow> string list \<Rightarrow> ('f, 's) engine
     \<Rightarrow> (engineError + adaptiveRoute option) \<times> ('f, 's) engine" where
  "evaluateBrainDecision env tx iv cands triggers e =
     (case GetBrainPolicy env e of
        (Inl err, e1) \<Rightarrow> (Inl err, e1)
      | (Inr found, e1) \<Rightarrow>
          let p = (case found of Some p \<Rightarrow> p | None \<Rightarrow> defaultBrainPolicy) in
          if \<not> bn_Enabled p \<or> cands = [] then (Inr None, e1)
          else case brainRouteAggregates (sx_ops env) (tx_call tx) (ti_Tool iv) (ti_WorkflowID iv) (bn_LookbackRecords p) (snd e1) of
                 Inl err \<Rightarrow> (Inl err, e1)
               | Inr (gl, wfl) \<Rightarrow>
                   (Inr (Some (hd (sort_key (\<lambda>r. (- routeScore p gl wfl triggers cands r, rt_EstimatedDollars r, rt_ID r)) cands))), e1))"

definition selectAdaptiveRoute ::
  "'s toolEnv \<Rightarrow> 's toolCtx \<Rightarrow> toolInvocation \<Rightarrow> toolPolicy \<Rightarrow> json \<Rightarrow> ('f, 's) engine
     \<Rightarrow> (engineError + adaptiveRoute option) \<times> ('f, 's) engine" where
  "selectAdaptiveRoute env tx iv policy input e =
     (case onStore (adaptiveRouteCandidates env tx iv policy input) e of
        (Inl err, e1) \<Rightarrow> (Inl err, e1)
      | (Inr (cands, triggers), e1) \<Rightarrow>
          if cands = [] then (Inr None, e1)
          else case evaluateBrainDecision (te_svc env) tx iv cands triggers e1 of
                 (Inl err, e2) \<Rightarrow> (Inl err, e2)
               | (Inr (Some r), e2) \<Rightarrow> (Inr (Some r), e2)
               | (Inr None, e2) \<Rightarrow> (Inr (legacyAdaptiveRouteSelection policy cands triggers), e2))"

text \<open>\<open>ExplainBrainRoute\<close>: the same choice on request, after the tenant check.\<close>

definition ExplainBrainRoute ::
  "'s toolEnv \<Rightarrow> 's toolCtx \<Rightarrow> gotime \<Rightarrow> toolInvocation \<Rightarrow> json \<Rightarrow> ('f, 's) engine \<Rightarrow> (engineError + adaptiveRoute) \<times> ('f, 's) engine" where
  "ExplainBrainRoute env tx now req0 input = (\<lambda>(m, s).
     let svc = te_svc env; ctx = tx_call tx;
         req = req0\<lparr>ti_RunID := TrimSpace (ti_RunID req0), ti_WorkflowID := TrimSpace (ti_WorkflowID req0), ti_NodeID := TrimSpace (ti_NodeID req0),
                    ti_Tool := TrimSpace (ti_Tool req0), ti_RequiredCapability := TrimSpace (ti_RequiredCapability req0),
                    ti_Attempt := (if ti_Attempt req0 \<le> 0 then 1 else ti_Attempt req0)\<rparr> in
     if ti_Tool req = '''' then (Inl (EText ''tool is required''), (m, s))
     else
       let found = (if ti_RunID req = '''' then None else so_GetRun (sx_ops svc) s (ti_RunID req)) in
       case (case found of None \<Rightarrow> (None, s) | Some r \<Rightarrow> ensureRunTenantAccess svc ctx now r ''brain.route_explain'' s) of
         (Some err, s1) \<Rightarrow> (Inl err, (m, s1))
       | (None, s1) \<Rightarrow>
           let req1 = (case found of Some r \<Rightarrow> if ti_WorkflowID req = '''' then req\<lparr>ti_WorkflowID := run_WorkflowID r\<rparr> else req | None \<Rightarrow> req) in
           (case resolveToolPolicy svc ctx now (ti_Tool req1) (m, s1) of
              (Inl err, e2) \<Rightarrow> (Inl err, e2)
            | (Inr policy, e2) \<Rightarrow>
                if (case tl_AdaptiveRouting policy of None \<Rightarrow> True | Some p \<Rightarrow> ap_Routes p = [])
                then (Inl (EText (''tool '' @ quoted (ti_Tool req1) @ '' has no adaptive routes'')), e2)
                else case selectAdaptiveRoute env tx req1 policy input e2 of
                       (Inl err, e3) \<Rightarrow> (Inl err, e3)
                     | (Inr (Some r), e3) \<Rightarrow> (Inr r, e3)
                     | (Inr None, e3) \<Rightarrow> (Inl (EText ''no route''), e3)))"

section \<open>A route is within its bounds\<close>

lemma sort_key_hd: "xs \<noteq> [] \<Longrightarrow> hd (sort_key f xs) \<in> set xs"
  by (metis hd_in_set set_sort sort_key_simps(1) set_empty)

lemma filterRoutes_fit: "filterRoutes t b u limiter rs s = (Inr out, s') \<Longrightarrow> r \<in> set out \<Longrightarrow> r \<in> set rs \<and> routeFits t b u r"
  by (induction t b u limiter rs s arbitrary: out s' rule: filterRoutes.induct)
    (fastforce simp: Let_def split: if_splits prod.splits sum.splits bool.splits option.splits)+

text \<open>The route of a tool call is one of the tool's routes, open to the caller's tenant, and its
  estimated tokens and dollars fit into what is left of the run's budget, whichever way the choice
  is made.\<close>

theorem selected_route_fits:
  assumes "selectAdaptiveRoute env tx iv policy input (m, s) = (Inr (Some r), e')"
  shows "\<exists>p. tl_AdaptiveRouting policy = Some p \<and> r \<in> set (ap_Routes p) \<and>
    (case runBudgetFor env (tx_call tx) (ti_RunID iv) s of (b, u) \<Rightarrow> routeFits (effectiveTenantFromContext (tx_call tx)) b u r)"
proof -
  obtain cands triggers s1 where c: "adaptiveRouteCandidates env tx iv policy input s = (Inr (cands, triggers), s1)" and ne: "cands \<noteq> []"
    using assms by (auto simp: selectAdaptiveRoute_def onStore_def split: prod.splits sum.splits if_splits)
  obtain p where p: "tl_AdaptiveRouting policy = Some p"
    using c ne by (cases "tl_AdaptiveRouting policy") (simp_all add: adaptiveRouteCandidates_def)
  obtain b u where bu: "runBudgetFor env (tx_call tx) (ti_RunID iv) s = (b, u)" by fastforce
  have f: "filterRoutes (effectiveTenantFromContext (tx_call tx)) b u (tx_limiter tx) (ap_Routes p) s = (Inr cands, s1)"
    using c ne by (auto simp: adaptiveRouteCandidates_def p bu Let_def split: if_splits prod.splits sum.splits)
  have "r \<in> set cands"
    using assms ne c
    by (auto simp: sort_key_hd selectAdaptiveRoute_def onStore_def evaluateBrainDecision_def legacyAdaptiveRouteSelection_def Let_def
        split: prod.splits sum.splits if_splits option.splits)
  from filterRoutes_fit [OF f this] p bu show ?thesis by simp
qed

definition route_demo :: toolPolicy where
  "route_demo = (implicitPolicy ''llm'')\<lparr>tl_AdaptiveRouting := Some \<lparr>ap_CheapFirst = True, ap_EscalateOnUncertainty = False, ap_UncertaintyThreshold = 0,
     ap_EscalateOnFailure = False, ap_FailureAttemptThreshold = 2, ap_EscalateOnRisk = False, ap_RiskScoreThreshold = 50,
     ap_Routes = [\<lparr>rt_ID = ''big'', rt_Provider = ''p'', rt_Model = ''m'', rt_EstimatedTokens = 9, rt_EstimatedDollars = 2, rt_Priority = 1, rt_TenantScopes = []\<rparr>,
       \<lparr>rt_ID = ''small'', rt_Provider = ''p'', rt_Model = ''m'', rt_EstimatedTokens = 9, rt_EstimatedDollars = 1, rt_Priority = 1, rt_TenantScopes = []\<rparr>]\<rparr>\<rparr>"

definition demo_toolEnv :: "memStore toolEnv" where
  "demo_toolEnv = \<lparr>te_svc = memSvc, te_defBudget = zeroBudget, te_tenantBudget = (\<lambda>_. zeroBudget), te_errText = (\<lambda>_. ''error'')\<rparr>"

definition demo_toolCtx :: "memStore toolCtx" where
  "demo_toolCtx = \<lparr>tx_call = acme, tx_risk = None, tx_mode = '''', tx_limiter = None\<rparr>"

definition demo_call :: toolInvocation where
  "demo_call = \<lparr>ti_RunID = '''', ti_WorkflowID = ''w'', ti_NodeID = ''n'', ti_Attempt = 1, ti_Tool = ''llm'', ti_RequiredCapability = '''',
     ti_InputSchema = JNil, ti_OutputSchema = JNil\<rparr>"

lemma route_picked:
  "map_sum id (map_option rt_ID) (fst (selectAdaptiveRoute demo_toolEnv demo_toolCtx demo_call route_demo JNull (clean_mem, NewMemoryStore))) = Inr (Some ''small'')"
  by code_simp

theorem selected_route_fits_witness:
  "\<exists>r e'. selectAdaptiveRoute demo_toolEnv demo_toolCtx demo_call route_demo JNull (clean_mem, NewMemoryStore) = (Inr (Some r), e') \<and> rt_ID r = ''small'' \<and>
     (\<exists>p. tl_AdaptiveRouting route_demo = Some p \<and> r \<in> set (ap_Routes p))"
proof -
  let ?S = "selectAdaptiveRoute demo_toolEnv demo_toolCtx demo_call route_demo JNull (clean_mem, NewMemoryStore)"
  obtain r where r: "fst ?S = Inr (Some r)" "rt_ID r = ''small''" using route_picked by (cases "fst ?S") auto
  then have e: "?S = (Inr (Some r), snd ?S)" by (simp add: prod_eq_iff)
  from selected_route_fits [OF e] e r(2) show ?thesis by blast
qed

end
