(* ===== verification/SideEffects.thy ===== *)
theory SideEffects
  imports Routing
begin

text \<open>
  Side effects with receipts (\<^verbatim>\<open>internal/engine/side_effects.go\<close>): a tool with effects outside the
  engine is run dry, staged or committed, each time leaving a receipt; a staged effect is committed
  later, after a human approval where the policy asks for one, and can be compensated.

  A handler is user code: \<open>handlerCall\<close> says what calling one returns and does to the store, given
  what it can read from its context.  \<open>saveSideEffectReceipt\<close> and \<open>saveHumanTask\<close> take their argument
  by value, so the caller's copy keeps an empty identifier where the saved one got a new one.
\<close>

record sideEffectRuntime =
  sr_ReceiptID :: string
  sr_Mode :: string
  sr_Policy :: "sideEffectPolicy option"
  sr_Irreversible :: bool
  sr_ApprovalRequired :: bool
  sr_CompensationTool :: string

record toolRuntime =
  tr_Tool :: string
  tr_ServerID :: string
  tr_ServerKind :: string
  tr_RouteID :: string
  tr_Provider :: string
  tr_Model :: string
  tr_Sandboxed :: bool
  tr_Policy :: toolPolicy
  tr_Server :: toolServer

record handlerCtx =
  hc_call :: callCtx
  hc_tool :: "toolRuntime option"
  hc_side :: "sideEffectRuntime option"

type_synonym ('f, 's) handlerCall = "'f \<Rightarrow> handlerCtx \<Rightarrow> json \<Rightarrow> 's \<Rightarrow> (json \<times> engineError option) \<times> 's"

abbreviation HumanTaskSourceSideEffect :: string where "HumanTaskSourceSideEffect \<equiv> ''side_effect''"
abbreviation sideEffectReceiptIndexKey :: string where "sideEffectReceiptIndexKey \<equiv> ''side_effects/receipts/index''"
abbreviation SideEffectModeCommit :: string where "SideEffectModeCommit \<equiv> ''commit''"
abbreviation SideEffectModeStage :: string where "SideEffectModeStage \<equiv> ''stage''"
abbreviation SideEffectModeDryRun :: string where "SideEffectModeDryRun \<equiv> ''dry_run''"
abbreviation SideEffectModeCompensate :: string where "SideEffectModeCompensate \<equiv> ''compensate''"
abbreviation SideEffectStatusDryRun :: string where "SideEffectStatusDryRun \<equiv> ''dry_run''"
abbreviation SideEffectStatusStaged :: string where "SideEffectStatusStaged \<equiv> ''staged''"
abbreviation SideEffectStatusCommitPending :: string where "SideEffectStatusCommitPending \<equiv> ''commit_pending_approval''"
abbreviation SideEffectStatusCommitted :: string where "SideEffectStatusCommitted \<equiv> ''committed''"
abbreviation SideEffectStatusCompensated :: string where "SideEffectStatusCompensated \<equiv> ''compensated''"
abbreviation SideEffectStatusCompensationFailed :: string where "SideEffectStatusCompensationFailed \<equiv> ''compensation_failed''"

section \<open>Receipts in the store\<close>

definition sideEffectReceiptKey :: "string \<Rightarrow> string" where
  "sideEffectReceiptKey i = ''side_effects/receipts/'' @ PathEscape (TrimSpace i)"

definition noReceipt :: sideEffectReceipt where
  "noReceipt = \<lparr>se_ID = '''', se_CreatedAt = 0, se_UpdatedAt = 0, se_TenantID = '''', se_PrincipalID = '''', se_RunID = '''', se_WorkflowID = '''',
     se_NodeID = '''', se_Attempt = 0, se_Tool = '''', se_ServerID = '''', se_Status = '''', se_Mode = '''', se_Irreversible = False,
     se_ApprovalRequired = False, se_CompensationTool = '''', se_HumanTaskID = '''', se_Input = JNil, se_Preview = JNil, se_CommitOutput = JNil,
     se_CompensationOutput = JNil, se_Error = ''''\<rparr>"

definition receiptFilled :: "'s svcEnv \<Rightarrow> gotime \<Rightarrow> sideEffectReceipt \<Rightarrow> 's \<Rightarrow> sideEffectReceipt" where
  "receiptFilled env now r s =
     r\<lparr>se_ID := (if TrimSpace (se_ID r) = '''' then mintID env ''receipt-'' now s else TrimSpace (se_ID r)),
       se_CreatedAt := (if IsZero (se_CreatedAt r) then now else se_CreatedAt r), se_UpdatedAt := now,
       se_TenantID := TrimSpace (se_TenantID r), se_PrincipalID := TrimSpace (se_PrincipalID r), se_RunID := TrimSpace (se_RunID r),
       se_WorkflowID := TrimSpace (se_WorkflowID r), se_NodeID := TrimSpace (se_NodeID r), se_Tool := TrimSpace (se_Tool r),
       se_ServerID := TrimSpace (se_ServerID r), se_CompensationTool := TrimSpace (se_CompensationTool r),
       se_HumanTaskID := TrimSpace (se_HumanTaskID r), se_Error := TrimSpace (se_Error r)\<rparr>"

definition saveSideEffectReceipt :: "'s svcEnv \<Rightarrow> gotime \<Rightarrow> sideEffectReceipt \<Rightarrow> 's \<Rightarrow> engineError option \<times> 's" where
  "saveSideEffectReceipt env now r0 s =
     (let r = receiptFilled env now r0 s; ops = sx_ops env in
      case putJSONKV ops now (sideEffectReceiptKey (se_ID r)) (DocReceipt r) s of
        (Some err, s1) \<Rightarrow> (Some err, s1)
      | (None, s1) \<Rightarrow>
          (case indexIDs ops sideEffectReceiptIndexKey s1 of
             Inl err \<Rightarrow> (Some err, s1)
           | Inr ids \<Rightarrow>
               if list_ex (\<lambda>i. i = se_ID r) ids then (None, s1)
               else putJSONKV ops now sideEffectReceiptIndexKey (DocIDs (ids @ [se_ID r])) s1))"

definition cloneSideEffectReceipt :: "sideEffectReceipt \<Rightarrow> sideEffectReceipt" where
  "cloneSideEffectReceipt r =
     r\<lparr>se_ID := TrimSpace (se_ID r), se_TenantID := TrimSpace (se_TenantID r), se_PrincipalID := TrimSpace (se_PrincipalID r),
       se_RunID := TrimSpace (se_RunID r), se_WorkflowID := TrimSpace (se_WorkflowID r), se_NodeID := TrimSpace (se_NodeID r),
       se_Tool := TrimSpace (se_Tool r), se_ServerID := TrimSpace (se_ServerID r), se_Mode := TrimSpace (se_Mode r),
       se_Status := TrimSpace (se_Status r), se_CompensationTool := TrimSpace (se_CompensationTool r),
       se_HumanTaskID := TrimSpace (se_HumanTaskID r), se_Error := TrimSpace (se_Error r)\<rparr>"

definition receiptRun :: "sideEffectReceipt \<Rightarrow> run" where
  "receiptRun r = \<lparr>run_RunID = se_RunID r, run_WorkflowID = se_WorkflowID r, run_Status = '''', run_StartedAt = None, run_EndedAt = None,
     run_Spec = JNil, run_InitialInput = JNil, run_TenantID = se_TenantID r, run_TerminalReason = '''', run_TerminalMeta = JNil,
     run_RunBudget = zeroBudget, run_BudgetUsage = zeroUsage\<rparr>"

definition ensureReceiptAccess :: "'s svcEnv \<Rightarrow> callCtx \<Rightarrow> gotime \<Rightarrow> sideEffectReceipt \<Rightarrow> 's \<Rightarrow> engineError option \<times> 's" where
  "ensureReceiptAccess env ctx now r s =
     (if TrimSpace (se_TenantID r) = '''' then (None, s) else ensureRunTenantAccess env ctx now (receiptRun r) ''side_effect.receipt'' s)"

definition GetSideEffectReceipt :: "'s svcEnv \<Rightarrow> callCtx \<Rightarrow> gotime \<Rightarrow> string \<Rightarrow> 's \<Rightarrow> (engineError + sideEffectReceipt) \<times> 's" where
  "GetSideEffectReceipt env ctx now receiptID0 s =
     (let receiptID = TrimSpace receiptID0 in
      if receiptID = '''' then (Inl ErrSideEffectReceiptNotFound, s)
      else case getJSONKV (sx_ops env) asReceipt (sideEffectReceiptKey receiptID) s of
             None \<Rightarrow> (Inl ErrSideEffectReceiptNotFound, s)
           | Some (Inl err) \<Rightarrow> (Inl err, s)
           | Some (Inr r) \<Rightarrow>
               (case ensureReceiptAccess env ctx now r s of
                  (Some err, s1) \<Rightarrow> (Inl err, s1)
                | (None, s1) \<Rightarrow> (Inr (cloneSideEffectReceipt r), s1)))"

text \<open>Listing checks access, and writes an audit record, for every receipt it looks at.\<close>

fun listReceipts ::
  "'s svcEnv \<Rightarrow> callCtx \<Rightarrow> gotime \<Rightarrow> string \<Rightarrow> string \<Rightarrow> int \<Rightarrow> string list \<Rightarrow> sideEffectReceipt list \<Rightarrow> 's \<Rightarrow> sideEffectReceipt list \<times> 's" where
  "listReceipts env ctx now runID status limit [] out s = (out, s)"
| "listReceipts env ctx now runID status limit (i # is) out s =
     (case GetSideEffectReceipt env ctx now i s of
        (Inl err, s1) \<Rightarrow> listReceipts env ctx now runID status limit is out s1
      | (Inr r, s1) \<Rightarrow>
          if (runID \<noteq> '''' \<and> se_RunID r \<noteq> runID) \<or> (status \<noteq> '''' \<and> se_Status r \<noteq> status)
          then listReceipts env ctx now runID status limit is out s1
          else if limit \<le> int (length out + 1) then (out @ [r], s1)
          else listReceipts env ctx now runID status limit is (out @ [r]) s1)"

definition ListSideEffectReceipts ::
  "'s svcEnv \<Rightarrow> callCtx \<Rightarrow> gotime \<Rightarrow> string \<Rightarrow> string \<Rightarrow> int \<Rightarrow> 's \<Rightarrow> (engineError + sideEffectReceipt list) \<times> 's" where
  "ListSideEffectReceipts env ctx now runID status limit0 s =
     (let limit = (if limit0 \<le> 0 then 100 else limit0) in
      case indexIDs (sx_ops env) sideEffectReceiptIndexKey s of
        Inl err \<Rightarrow> (Inl err, s)
      | Inr ids \<Rightarrow>
          (case listReceipts env ctx now (TrimSpace runID) (TrimSpace status) limit (rev ids) [] s of
             (out, s1) \<Rightarrow> (Inr (sort_key (\<lambda>r. - se_CreatedAt r) out), s1)))"

section \<open>Execution\<close>

definition wrapSideEffectOutput :: "sideEffectReceipt \<Rightarrow> json \<Rightarrow> json" where
  "wrapSideEffectOutput r preview =
     marshal (JObj [(''side_effect_receipt_id'', JText (se_ID r)), (''status'', JText (se_Status r)), (''mode'', JText (se_Mode r)),
       (''irreversible'', JBool (se_Irreversible r)), (''approval_required'', JBool (se_ApprovalRequired r)),
       (''preview'', if preview = JNil then JNull else preview)])"

definition sideRuntime :: "string \<Rightarrow> string \<Rightarrow> sideEffectPolicy option \<Rightarrow> bool \<Rightarrow> bool \<Rightarrow> string \<Rightarrow> sideEffectRuntime" where
  "sideRuntime receiptID mode policy irreversible approval tool =
     \<lparr>sr_ReceiptID = TrimSpace receiptID, sr_Mode = TrimSpace mode, sr_Policy = policy, sr_Irreversible = irreversible,
      sr_ApprovalRequired = approval, sr_CompensationTool = TrimSpace tool\<rparr>"

definition sideEffectMode :: "string \<Rightarrow> sideEffectPolicy \<Rightarrow> string" where
  "sideEffectMode override p =
     (if TrimSpace override \<noteq> '''' then TrimSpace override
      else if sp_StageRequired p then SideEffectModeStage else SideEffectModeCommit)"

definition newReceipt :: "callCtx \<Rightarrow> toolInvocation \<Rightarrow> toolServer \<Rightarrow> sideEffectPolicy \<Rightarrow> string \<Rightarrow> json \<Rightarrow> sideEffectReceipt" where
  "newReceipt ctx iv server p mode input =
     noReceipt\<lparr>se_TenantID := effectiveTenantFromContext ctx, se_RunID := TrimSpace (ti_RunID iv), se_WorkflowID := TrimSpace (ti_WorkflowID iv),
       se_NodeID := TrimSpace (ti_NodeID iv), se_Attempt := ti_Attempt iv, se_Tool := TrimSpace (ti_Tool iv), se_ServerID := TrimSpace (ts_ID server),
       se_Mode := mode, se_Irreversible := sp_Irreversible p, se_ApprovalRequired := sp_ApprovalBeforeCommit p,
       se_CompensationTool := sp_CompensationTool p, se_Input := input,
       se_PrincipalID := (case PrincipalFrom ctx of Some q \<Rightarrow> TrimSpace (pr_ID q) | None \<Rightarrow> '''')\<rparr>"

definition executeSideEffect ::
  "'s toolEnv \<Rightarrow> ('f, 's) handlerCall \<Rightarrow> 's toolCtx \<Rightarrow> gotime \<Rightarrow> toolInvocation \<Rightarrow> 'f \<Rightarrow> toolRuntime \<Rightarrow> toolServer \<Rightarrow> toolPolicy \<Rightarrow> json \<Rightarrow> 's
     \<Rightarrow> (json \<times> engineError option) \<times> 's" where
  "executeSideEffect env call tx now iv handler rt server policy input s =
     (case normalizeSideEffectPolicy (tl_SideEffect policy) of
        None \<Rightarrow> ((JNil, Some (EText ''side effect policy is required'')), s)
      | Some p \<Rightarrow>
          if \<not> sp_Enabled p then ((JNil, Some (EText ''side effect policy is required'')), s)
          else
            let mode = sideEffectMode (tx_mode tx) p; svc = te_svc env; ctx = tx_call tx;
                r = newReceipt ctx iv server p mode input;
                hc = \<lparr>hc_call = ctx, hc_tool = Some rt,
                      hc_side = Some (sideRuntime '''' mode None (sp_Irreversible p) (sp_ApprovalBeforeCommit p) (sp_CompensationTool p))\<rparr>;
                failed = (\<lambda>err s1. ((JNil, Some err),
                  snd (saveSideEffectReceipt svc now (r\<lparr>se_Status := SideEffectStatusCompensationFailed, se_Error := te_errText env err\<rparr>) s1))) in
            if mode = SideEffectModeDryRun \<or> mode = SideEffectModeStage then
              (case call handler hc input s of
                 ((preview, Some err), s1) \<Rightarrow> failed err s1
               | ((preview, None), s1) \<Rightarrow>
                   let r1 = r\<lparr>se_Preview := preview,
                              se_Status := (if mode = SideEffectModeDryRun then SideEffectStatusDryRun else SideEffectStatusStaged)\<rparr> in
                   ((wrapSideEffectOutput r1 preview, None), snd (saveSideEffectReceipt svc now r1 s1)))
            else if mode = SideEffectModeCommit then
              (case call handler hc input s of
                 ((out, Some err), s1) \<Rightarrow> failed err s1
               | ((out, None), s1) \<Rightarrow>
                   ((out, None), snd (saveSideEffectReceipt svc now (r\<lparr>se_Status := SideEffectStatusCommitted, se_CommitOutput := out\<rparr>) s1)))
            else ((JNil, Some (EText (''unsupported side-effect mode '' @ quoted mode))), s))"

section \<open>Approval\<close>

definition findSideEffectHumanTask :: "'s storeOps \<Rightarrow> string \<Rightarrow> 's \<Rightarrow> engineError + humanTask option" where
  "findSideEffectHumanTask ops receiptID s =
     (case ListHumanTasks ops '''' '''' 500 s of
        Inl err \<Rightarrow> Inl err
      | Inr tasks \<Rightarrow> Inr (find (\<lambda>t. ht_SideEffectReceiptID t = TrimSpace receiptID) tasks))"

definition approvalTask :: "sideEffectReceipt \<Rightarrow> humanTask" where
  "approvalTask r =
     noHumanTask\<lparr>ht_RunID := se_RunID r, ht_WorkflowID := se_WorkflowID r, ht_NodeID := se_NodeID r, ht_Attempt := se_Attempt r,
       ht_TenantID := se_TenantID r, ht_Mode := HumanStepModeApproval, ht_Source := HumanTaskSourceSideEffect, ht_Status := HumanTaskPending,
       ht_Prompt := ''approve side-effect commit for tool '' @ se_Tool r, ht_RequestedInput := se_Input r, ht_SideEffectReceiptID := se_ID r\<rparr>"

definition ensureSideEffectApproval ::
  "'s svcEnv \<Rightarrow> callCtx \<Rightarrow> gotime \<Rightarrow> sideEffectReceipt \<Rightarrow> 's \<Rightarrow> (engineError option \<times> sideEffectReceipt) \<times> 's" where
  "ensureSideEffectApproval env ctx now r s =
     (if \<not> se_ApprovalRequired r then ((None, r), s)
      else
        let ops = sx_ops env; save = (\<lambda>x s1. snd (saveSideEffectReceipt env now x s1)) in
        case findSideEffectHumanTask ops (se_ID r) s of
          Inl err \<Rightarrow> ((Some err, r), s)
        | Inr (Some t) \<Rightarrow>
            (let r1 = r\<lparr>se_HumanTaskID := ht_ID t\<rparr> in
             if ht_Status t = HumanTaskApproved then ((None, r1), save r1 s)
             else if ht_Status t \<in> {HumanTaskRejected, HumanTaskTimedOut, HumanTaskCanceled} then
               (let r2 = r1\<lparr>se_Status := SideEffectStatusCompensationFailed, se_Error := ''side-effect commit approval rejected''\<rparr> in
                ((Some (EWrap '': approval rejected'' ErrSideEffectCommitPending), r2), save r2 s))
             else
               (let r2 = r1\<lparr>se_Status := SideEffectStatusCommitPending\<rparr> in ((Some ErrHumanApprovalPending, r2), save r2 s)))
        | Inr None \<Rightarrow>
            (case saveHumanTask env now (approvalTask r) s of
               (Some err, s1) \<Rightarrow> ((Some err, r), s1)
             | (None, s1) \<Rightarrow>
                 let s2 = snd (so_AppendEvent ops now
                       (mkEvent (se_RunID r) EventHumanTaskCreated (se_WorkflowID r) (se_NodeID r) (se_Attempt r) (marshal (humanJSON (approvalTask r)))) s1);
                     s3 = appendAuditRecord env ctx now
                       (auditNote (se_TenantID r) '''' ''human.request'' ''side_effect_receipt'' (se_ID r) (se_RunID r) (se_WorkflowID r)
                          AuditOutcomeDenied ''side-effect commit requires approval'') s2;
                     r1 = r\<lparr>se_HumanTaskID := '''', se_Status := SideEffectStatusCommitPending\<rparr>
                 in ((Some ErrHumanApprovalPending, r1), save r1 s3)))"

section \<open>Commit and compensation\<close>

definition effectNote :: "string \<Rightarrow> string \<Rightarrow> sideEffectReceipt \<Rightarrow> auditRecord" where
  "effectNote act why r =
     auditNote (se_TenantID r) '''' act ''side_effect_receipt'' (se_ID r) (se_RunID r) (se_WorkflowID r) AuditOutcomeAllowed why"

definition commitCtx :: "callCtx \<Rightarrow> sideEffectReceipt \<Rightarrow> toolPolicy \<Rightarrow> toolServer \<Rightarrow> handlerCtx" where
  "commitCtx ctx r policy server =
     (let p = (case normalizeSideEffectPolicy (tl_SideEffect policy) of Some p \<Rightarrow> p
          | None \<Rightarrow> \<lparr>sp_Enabled = True, sp_StageRequired = False, sp_DryRunSupported = False, sp_Irreversible = False,
                     sp_ApprovalBeforeCommit = False, sp_CompensationTool = ''''\<rparr>) in
      \<lparr>hc_call = ctx,
       hc_tool = Some \<lparr>tr_Tool = TrimSpace (se_Tool r), tr_ServerID = TrimSpace (ts_ID server), tr_ServerKind = TrimSpace (ts_Kind server),
         tr_RouteID = '''', tr_Provider = '''', tr_Model = '''', tr_Sandboxed = False, tr_Policy = cloneToolPolicy policy,
         tr_Server = cloneToolServer server\<rparr>,
       hc_side = Some (sideRuntime (se_ID r) SideEffectModeCommit (Some p) (se_Irreversible r) (se_ApprovalRequired r) (se_CompensationTool r))\<rparr>)"

text \<open>The part of \<open>CommitSideEffect\<close> after the approval: find the handler, the policy and the server, call,
  save.\<close>

definition commitEffect ::
  "'s toolEnv \<Rightarrow> ('f, 's) handlerCall \<Rightarrow> callCtx \<Rightarrow> gotime \<Rightarrow> sideEffectReceipt \<Rightarrow> ('f, 's) engine
     \<Rightarrow> (engineError option \<times> sideEffectReceipt) \<times> ('f, 's) engine" where
  "commitEffect env call ctx now r e =
     (let svc = te_svc env; ctx1 = WithTenantID ctx (se_TenantID r) in
      case HandlerRegistryForTenant (fst e) (se_TenantID r) of
        None \<Rightarrow> ((Some (EText ''handler registry is required''), noReceipt), e)
      | Some reg \<Rightarrow>
          (case Lookup reg (se_Tool r) of
             None \<Rightarrow> ((Some (EText (''no handler registered for topic '' @ quoted (se_Tool r))), noReceipt), e)
           | Some handler \<Rightarrow>
               (case resolveToolPolicy svc ctx1 now (se_Tool r) e of
                  (Inl err, e1) \<Rightarrow> ((Some err, noReceipt), e1)
                | (Inr policy, e1) \<Rightarrow>
                    (case resolveToolServer svc ctx1 now policy e1 of
                       (Inl err, e2) \<Rightarrow> ((Some err, noReceipt), e2)
                     | (Inr server, (m, s)) \<Rightarrow>
                         (case call handler (commitCtx ctx1 r policy server) (se_Input r) s of
                            ((out, Some err), s1) \<Rightarrow>
                              (let r1 = r\<lparr>se_Error := te_errText env err\<rparr> in ((Some err, r1), (m, snd (saveSideEffectReceipt svc now r1 s1))))
                          | ((out, None), s1) \<Rightarrow>
                              (let r1 = r\<lparr>se_Status := SideEffectStatusCommitted, se_CommitOutput := out, se_Error := ''''\<rparr> in
                               case saveSideEffectReceipt svc now r1 s1 of
                                 (Some err, s2) \<Rightarrow> ((Some err, noReceipt), (m, s2))
                               | (None, s2) \<Rightarrow> ((None, r1), (m, appendAuditRecord svc ctx now (effectNote ''side_effect.commit'' ''side-effect committed'' r1) s2))))))))"

definition CommitSideEffect ::
  "'s toolEnv \<Rightarrow> ('f, 's) handlerCall \<Rightarrow> callCtx \<Rightarrow> gotime \<Rightarrow> string \<Rightarrow> ('f, 's) engine
     \<Rightarrow> (engineError option \<times> sideEffectReceipt) \<times> ('f, 's) engine" where
  "CommitSideEffect env call ctx now receiptID = (\<lambda>(m, s).
     case GetSideEffectReceipt (te_svc env) ctx now receiptID s of
       (Inl err, s1) \<Rightarrow> ((Some err, noReceipt), (m, s1))
     | (Inr r, s1) \<Rightarrow>
         if se_Status r \<noteq> SideEffectStatusStaged \<and> se_Status r \<noteq> SideEffectStatusCommitPending then ((None, r), (m, s1))
         else case ensureSideEffectApproval (te_svc env) ctx now r s1 of
                ((Some err, r1), s2) \<Rightarrow> ((Some err, r1), (m, s2))
              | ((None, r1), s2) \<Rightarrow> commitEffect env call ctx now r1 (m, s2))"

definition CompensateSideEffect ::
  "'s toolEnv \<Rightarrow> ('f, 's) handlerCall \<Rightarrow> callCtx \<Rightarrow> gotime \<Rightarrow> string \<Rightarrow> ('f, 's) engine
     \<Rightarrow> (engineError option \<times> sideEffectReceipt) \<times> ('f, 's) engine" where
  "CompensateSideEffect env call ctx now receiptID = (\<lambda>(m, s).
     let svc = te_svc env in
     case GetSideEffectReceipt svc ctx now receiptID s of
       (Inl err, s1) \<Rightarrow> ((Some err, noReceipt), (m, s1))
     | (Inr r, s1) \<Rightarrow>
         if TrimSpace (se_CompensationTool r) = '''' then ((Some ErrSideEffectNotCompensable, r), (m, s1))
         else case HandlerRegistryForTenant m (se_TenantID r) of
                None \<Rightarrow> ((Some (EText ''handler registry is required''), noReceipt), (m, s1))
              | Some reg \<Rightarrow>
                  (case Lookup reg (se_CompensationTool r) of
                     None \<Rightarrow> ((Some (EText (''no handler registered for topic '' @ quoted (se_CompensationTool r))), noReceipt), (m, s1))
                   | Some handler \<Rightarrow>
                       let orNull = (\<lambda>j. if j = JNil then JNull else j);
                           body = marshal (JObj [(''receipt_id'', JText (se_ID r)), (''tool'', JText (se_Tool r)), (''input'', orNull (se_Input r)),
                                    (''output'', orNull (se_CommitOutput r))]);
                           hc = \<lparr>hc_call = WithTenantID ctx (se_TenantID r), hc_tool = None,
                                 hc_side = Some (sideRuntime (se_ID r) SideEffectModeCompensate None (se_Irreversible r) (se_ApprovalRequired r) (se_CompensationTool r))\<rparr> in
                       (case call handler hc body s1 of
                          ((out, Some err), s2) \<Rightarrow>
                            (let r1 = r\<lparr>se_Status := SideEffectStatusCompensationFailed, se_Error := te_errText env err\<rparr> in
                             ((Some err, r1), (m, snd (saveSideEffectReceipt svc now r1 s2))))
                        | ((out, None), s2) \<Rightarrow>
                            (let r1 = r\<lparr>se_Status := SideEffectStatusCompensated, se_CompensationOutput := out, se_Error := ''''\<rparr> in
                             case saveSideEffectReceipt svc now r1 s2 of
                               (Some err, s3) \<Rightarrow> ((Some err, noReceipt), (m, s3))
                             | (None, s3) \<Rightarrow>
                                 ((None, r1), (m, appendAuditRecord svc ctx now (effectNote ''side_effect.compensate'' ''side-effect compensated'' r1) s3))))))"

section \<open>Keys\<close>

lemma pathSafe_no_space: "pathSafe c \<Longrightarrow> \<not> is_space c"
  by (auto simp: pathSafe_def is_space_def Let_def)

lemma hexDigit_no_space: "n < 16 \<Longrightarrow> \<not> is_space (hexDigit n)"
  by (auto simp: hexDigit_def is_space_def char_of_eq_iff take_bit_eq_mod)

lemma PathEscape_no_space: "c \<in> set (PathEscape s) \<Longrightarrow> \<not> is_space c"
proof (induction s)
  case (Cons a s)
  have "(of_char a :: nat) div 16 < 16" "(of_char a :: nat) mod 16 < 16" by (simp_all add: less_mult_imp_div_less)
  moreover have "\<not> is_space (CHR ''%'')" by (simp add: is_space_def)
  ultimately show ?case using Cons by (auto simp: pathSafe_no_space hexDigit_no_space split: if_splits)
qed simp

lemma TrimSpace_no_space: "(\<And>c. c \<in> set s \<Longrightarrow> \<not> is_space c) \<Longrightarrow> TrimSpace s = s"
  by (rule TrimSpace_fixed) (use hd_in_set last_in_set in blast)

lemma receipt_keys [simp]:
  "TrimSpace (sideEffectReceiptKey i) = sideEffectReceiptKey i" "\<not> isAuditKey (sideEffectReceiptKey i)"
  "sideEffectReceiptKey (TrimSpace i) = sideEffectReceiptKey i"
  "TrimSpace sideEffectReceiptIndexKey = sideEffectReceiptIndexKey"
proof -
  show "TrimSpace (sideEffectReceiptKey i) = sideEffectReceiptKey i"
    by (rule TrimSpace_no_space) (auto simp: sideEffectReceiptKey_def is_space_def dest: PathEscape_no_space)
  show "TrimSpace sideEffectReceiptIndexKey = sideEffectReceiptIndexKey" by (rule TrimSpace_no_space) (auto simp: is_space_def)
qed (simp_all add: sideEffectReceiptKey_def isAuditKey_def HasPrefix_def)

lemma receipt_key_inj: "sideEffectReceiptKey i = sideEffectReceiptKey j \<longleftrightarrow> TrimSpace i = TrimSpace j"
  using PathEscape_inj [of "TrimSpace i" "TrimSpace j"] by (auto simp: sideEffectReceiptKey_def)

lemma receipt_key_index: "sideEffectReceiptKey i = sideEffectReceiptIndexKey \<longleftrightarrow> TrimSpace i = ''index''"
proof -
  have "PathEscape ''index'' = ''index''" by code_simp
  then show ?thesis using PathEscape_inj [of "TrimSpace i" "''index''"] by (auto simp: sideEffectReceiptKey_def)
qed

section \<open>When the handler of an effect is called\<close>

lemma get_receipt:
  assumes "GetSideEffectReceipt env ctx now i s = (Inr r, s1)"
  obtains x where "so_GetKV (sx_ops env) s (sideEffectReceiptKey i) = Some (DocReceipt x)" "r = cloneSideEffectReceipt x"
    "s1 = s \<or> (\<exists>a. s1 = appendAuditRecord env ctx now a s)"
proof -
  have fin: "s1 = s \<or> (\<exists>a. s1 = appendAuditRecord env ctx now a s)" if "ensureReceiptAccess env ctx now x s = (None, s1)" for x
    using that access_store [of env ctx now "receiptRun x" "''side_effect.receipt''" s] by (auto simp: ensureReceiptAccess_def split: if_splits)
  obtain x where "getJSONKV (sx_ops env) asReceipt (sideEffectReceiptKey i) s = Some (Inr x)" "r = cloneSideEffectReceipt x"
    "ensureReceiptAccess env ctx now x s = (None, s1)"
    using assms by (auto simp: GetSideEffectReceipt_def Let_def split: if_splits option.splits sum.splits prod.splits)
  with that fin show thesis by (auto simp: getJSONKV_def split: option.splits)
qed

lemma cloned_ID [simp]:
  "TrimSpace (se_ID (cloneSideEffectReceipt x)) = se_ID (cloneSideEffectReceipt x)"
  "se_Status (cloneSideEffectReceipt x) = TrimSpace (se_Status x)" "se_ID (cloneSideEffectReceipt x) = TrimSpace (se_ID x)"
  by (simp_all add: cloneSideEffectReceipt_def)

lemma find_found: "find P xs = Some t \<Longrightarrow> t \<in> set xs \<and> P t"
  by (auto simp: find_Some_iff)

lemma findSideEffect_sound:
  assumes "findSideEffectHumanTask ops i s = Inr (Some t)"
  shows "\<exists>j. GetHumanTask ops j s = Some (Inr t) \<and> ht_SideEffectReceiptID t = TrimSpace i"
proof -
  obtain ids where "find (\<lambda>t. ht_SideEffectReceiptID t = TrimSpace i)
      (sort_key (\<lambda>t. - ht_CreatedAt t) (collectUpTo (taskWanted ops (TrimSpace '''') (TrimSpace '''') s) 500 (rev ids) [])) = Some t"
    using assms by (auto simp: findSideEffectHumanTask_def ListHumanTasks_def split: sum.splits)
  then have t: "t \<in> set (collectUpTo (taskWanted ops (TrimSpace '''') (TrimSpace '''') s) 500 (rev ids) [])" "ht_SideEffectReceiptID t = TrimSpace i"
    using find_found [of _ _ t] by fastforce+
  from collectUpTo_sound [OF t(1)] obtain j where "taskWanted ops (TrimSpace '''') (TrimSpace '''') s j = Some t" by auto
  then have "GetHumanTask ops j s = Some (Inr t)" by (auto simp: taskWanted_def split: option.splits sum.splits if_splits)
  with t(2) show ?thesis by blast
qed

lemma approval_needed:
  assumes "ensureSideEffectApproval env ctx now r s = ((None, r1), s1)" "se_ApprovalRequired r"
  shows "\<exists>j t. GetHumanTask (sx_ops env) j s = Some (Inr t) \<and> ht_Status t = HumanTaskApproved \<and> ht_SideEffectReceiptID t = TrimSpace (se_ID r)"
proof -
  obtain t where "findSideEffectHumanTask (sx_ops env) (se_ID r) s = Inr (Some t)" "ht_Status t = HumanTaskApproved"
    using assms by (auto simp: ensureSideEffectApproval_def Let_def split: sum.splits option.splits if_splits prod.splits)
  then show ?thesis using findSideEffect_sound by metis
qed

text \<open>C32. A staged effect happens only when it may: if \<open>CommitSideEffect\<close> consults the handler at all (two
  handlers would make a difference to what it does), then the receipt it was asked to commit exists
  and the caller may see it, it is staged or pending and not already committed, compensated or
  failed, and where the receipt asks for an approval the store holds an approved human task for
  this very receipt.\<close>

theorem commit_needs_approval:
  assumes "CommitSideEffect env call ctx now receiptID (m, s) \<noteq> CommitSideEffect env call' ctx now receiptID (m, s)"
  shows "\<exists>r s1. GetSideEffectReceipt (te_svc env) ctx now receiptID s = (Inr r, s1) \<and>
    se_Status r \<in> {SideEffectStatusStaged, SideEffectStatusCommitPending} \<and>
    (se_ApprovalRequired r \<longrightarrow> (\<exists>j t. GetHumanTask (sx_ops (te_svc env)) j s1 = Some (Inr t) \<and> ht_Status t = HumanTaskApproved \<and>
       ht_SideEffectReceiptID t = TrimSpace (se_ID r)))"
proof -
  obtain r s1 where g: "GetSideEffectReceipt (te_svc env) ctx now receiptID s = (Inr r, s1)"
    using assms by (cases "GetSideEffectReceipt (te_svc env) ctx now receiptID s"; cases "fst (GetSideEffectReceipt (te_svc env) ctx now receiptID s)")
      (auto simp: CommitSideEffect_def)
  have st: "se_Status r \<in> {SideEffectStatusStaged, SideEffectStatusCommitPending}"
  proof (rule ccontr)
    assume "\<not> ?thesis"
    then show False using assms by (simp add: CommitSideEffect_def g)
  qed
  obtain r1 s2 where "ensureSideEffectApproval (te_svc env) ctx now r s1 = ((None, r1), s2)"
    using assms st by (auto simp: CommitSideEffect_def g split: prod.splits option.splits)
  from g st approval_needed [OF this] show ?thesis by auto
qed

section \<open>A committed effect is not committed again\<close>

lemma bundle_store: "snd (snd (GetToolGatewayBundle env now e)) = snd e"
  by (cases e) (auto simp: GetToolGatewayBundle_def split: option.splits sum.splits)

lemma resolve_store:
  "snd (snd (resolveToolPolicy env ctx now tool e)) = snd e" "snd (snd (resolveToolServer env ctx now policy e)) = snd e"
  using bundle_store [of env now e] by (auto simp: resolveToolPolicy_def resolveToolServer_def Let_def split: prod.splits sum.splits)

lemma receiptFilled_ID: "TrimSpace (se_ID r) \<noteq> '''' \<Longrightarrow> se_ID (receiptFilled env now r s) = TrimSpace (se_ID r)"
  "se_Status (receiptFilled env now r s) = se_Status r"
  by (simp_all add: receiptFilled_def)

lemma done_ignores_handler:
  assumes "so_GetKV (sx_ops (te_svc env)) s (sideEffectReceiptKey i) = Some (DocReceipt x)"
    and "TrimSpace (se_Status x) \<notin> {SideEffectStatusStaged, SideEffectStatusCommitPending}"
  shows "CommitSideEffect env call ctx now i (m, s) = CommitSideEffect env call' ctx now i (m, s)"
proof (cases "GetSideEffectReceipt (te_svc env) ctx now i s")
  case (Pair a s1)
  show ?thesis
  proof (cases a)
    case (Inr r)
    with Pair have "GetSideEffectReceipt (te_svc env) ctx now i s = (Inr r, s1)" by simp
    from get_receipt [OF this] assms have "se_Status r = TrimSpace (se_Status x)" by (metis cloned_ID(2) kvText.inject option.inject)
    with assms(2) show ?thesis by (simp add: CommitSideEffect_def Pair Inr)
  qed (simp add: CommitSideEffect_def Pair)
qed

context store_contract
begin

lemma save_receipt:
  assumes "sinv s" "sx_ops env = ops" "saveSideEffectReceipt env now r s = (None, s')" "TrimSpace (se_ID r) \<noteq> ''''" "TrimSpace (se_ID r) \<noteq> ''index''"
  shows "sinv s'" "so_GetKV ops s' (sideEffectReceiptKey (se_ID r)) = Some (DocReceipt (receiptFilled env now r s))"
proof -
  define f where "f = receiptFilled env now r s"
  have ID: "se_ID f = TrimSpace (se_ID r)" using assms(4) by (simp add: f_def receiptFilled_ID)
  obtain e1 s1 where p1: "putJSONKV ops now (sideEffectReceiptKey (se_ID f)) (DocReceipt f) s = (e1, s1)" by fastforce
  have e1: "e1 = None" and shape: "s' = s1 \<or> (\<exists>ids. putJSONKV ops now sideEffectReceiptIndexKey (DocIDs ids) s1 = (None, s'))"
    using assms(3) unfolding saveSideEffectReceipt_def Let_def assms(2) f_def [symmetric] p1
    by (auto split: option.splits sum.splits if_splits)
  have a: "sinv s1" "so_GetKV ops s1 (sideEffectReceiptKey (se_ID r)) = Some (DocReceipt f)"
    using put_doc(1,3) [OF assms(1) p1] e1 ID by simp_all
  have b: "sinv t \<and> so_GetKV ops t (sideEffectReceiptKey (se_ID r)) = Some (DocReceipt f)"
    if p2: "putJSONKV ops now sideEffectReceiptIndexKey (DocIDs ids) s1 = (None, t)" for ids t
    using put_doc(1) [OF a(1) p2] put_doc(4) [OF a(1) p2, of "sideEffectReceiptKey (se_ID r)"] a(2) assms(5) by (simp add: receipt_key_index)
  show "sinv s'" "so_GetKV ops s' (sideEffectReceiptKey (se_ID r)) = Some (DocReceipt (receiptFilled env now r s))"
    using shape a b unfolding f_def [symmetric] by auto
qed

lemma audit_keeps_receipt:
  assumes "sinv s" "sx_ops env = ops"
  shows "so_GetKV ops (appendAuditRecord env ctx now a s) (sideEffectReceiptKey i) = so_GetKV ops s (sideEffectReceiptKey i)"
  using kv_moves_reads(5) [OF append_audit(2) [OF assms, of ctx now a], of "sideEffectReceiptKey i"] by simp

lemma access_keeps_receipt:
  assumes "sinv s" "sx_ops env = ops" "GetSideEffectReceipt env ctx now i s = (Inr r, s1)"
  shows "sinv s1 \<and> so_GetKV ops s1 (sideEffectReceiptKey j) = so_GetKV ops s (sideEffectReceiptKey j)"
  using get_receipt [OF assms(3)] assms(1) append_audit(1) [OF assms(1,2)] audit_keeps_receipt [OF assms(1,2)] by metis

end

lemma commitEffect_success:
  assumes "commitEffect env call ctx now r (m, s) = ((None, r'), (m', s'))"
  shows "\<exists>f hc j s1 s2 a. s1 = snd (call f hc j s) \<and> se_ID r' = se_ID r \<and> se_Status r' = SideEffectStatusCommitted \<and>
    saveSideEffectReceipt (te_svc env) now r' s1 = (None, s2) \<and> s' = appendAuditRecord (te_svc env) ctx now a s2"
proof -
  let ?ctx = "WithTenantID ctx (se_TenantID r)"
  obtain reg f where f: "HandlerRegistryForTenant m (se_TenantID r) = Some reg" "Lookup reg (se_Tool r) = Some f"
    using assms by (auto simp: commitEffect_def Let_def split: option.splits)
  obtain pol e1 where pol: "resolveToolPolicy (te_svc env) ?ctx now (se_Tool r) (m, s) = (Inr pol, e1)"
    using assms by (auto simp: commitEffect_def f Let_def split: prod.splits sum.splits)
  obtain srv m2 s2 where srv: "resolveToolServer (te_svc env) ?ctx now pol e1 = (Inr srv, (m2, s2))"
    using assms by (auto simp: commitEffect_def f pol Let_def split: prod.splits sum.splits)
  have "s2 = s" using resolve_store(1) [of "te_svc env" ?ctx now "se_Tool r" "(m, s)"] resolve_store(2) [of "te_svc env" ?ctx now pol e1] pol srv by simp
  moreover obtain out err s1 where h: "call f (commitCtx ?ctx r pol srv) (se_Input r) s = ((out, err), s1)" by (metis surj_pair)
  ultimately obtain s3 where "saveSideEffectReceipt (te_svc env) now r' s1 = (None, s3)"
    "r' = r\<lparr>se_Status := SideEffectStatusCommitted, se_CommitOutput := out, se_Error := ''''\<rparr>"
    "s' = appendAuditRecord (te_svc env) ctx now (effectNote ''side_effect.commit'' ''side-effect committed'' r') s3"
    using assms by (auto simp: commitEffect_def f pol srv Let_def split: prod.splits option.splits)
  with h show ?thesis by (intro exI [of _ f] exI [of _ "commitCtx ?ctx r pol srv"] exI [of _ "se_Input r"] exI [of _ s1] exI [of _ s3]) auto
qed

context store_contract
begin

lemma save_receipt_sinv:
  assumes "sinv s" "sx_ops env = ops"
  shows "sinv (snd (saveSideEffectReceipt env now r s))"
proof -
  define f where "f = receiptFilled env now r s"
  obtain e1 s1 where p1: "putJSONKV ops now (sideEffectReceiptKey (se_ID f)) (DocReceipt f) s = (e1, s1)" by fastforce
  have "sinv (snd (putJSONKV ops now k d s1))" for k d using put_doc(1) [OF put_doc(1) [OF assms(1) p1]] by (metis prod.collapse)
  then show ?thesis using put_doc(1) [OF assms(1) p1]
    unfolding saveSideEffectReceipt_def Let_def assms(2) f_def [symmetric] p1 by (auto split: option.splits sum.splits)
qed

lemma approval_passed:
  assumes "sinv s" "sx_ops env = ops" "ensureSideEffectApproval env ctx now r s = ((None, r1), s1)"
  shows "sinv s1" "se_ID r1 = se_ID r"
proof -
  have "r1 = r \<and> s1 = s \<or> se_ID r1 = se_ID r \<and> s1 = snd (saveSideEffectReceipt env now r1 s)"
    using assms(3) by (auto simp: ensureSideEffectApproval_def Let_def split: sum.splits option.splits if_splits prod.splits)
  then show "sinv s1" "se_ID r1 = se_ID r" using save_receipt_sinv [OF assms(1,2)] assms(1) by auto
qed

lemma commit_settles:
  assumes "sinv s" "sx_ops (te_svc env) = ops" "\<And>f hc j s. sinv s \<Longrightarrow> sinv (snd (call f hc j s))"
    and "CommitSideEffect env call ctx now i (m, s) = ((None, r), (m', s'))" "se_ID r = TrimSpace i" "TrimSpace i \<noteq> ''index''"
  shows "sinv s' \<and> (\<exists>x. so_GetKV ops s' (sideEffectReceiptKey i) = Some (DocReceipt x) \<and>
    TrimSpace (se_Status x) \<notin> {SideEffectStatusStaged, SideEffectStatusCommitPending})"
proof -
  obtain r0 s1 where g: "GetSideEffectReceipt (te_svc env) ctx now i s = (Inr r0, s1)"
    using assms(4) by (auto simp: CommitSideEffect_def split: prod.splits sum.splits)
  note k = access_keeps_receipt [OF assms(1,2) g]
  obtain x where x: "so_GetKV ops s (sideEffectReceiptKey i) = Some (DocReceipt x)" "r0 = cloneSideEffectReceipt x"
    using get_receipt [OF g] assms(2) by metis
  show ?thesis
  proof (cases "se_Status r0 \<in> {SideEffectStatusStaged, SideEffectStatusCommitPending}")
    case False
    with assms(4) have "s' = s1" by (auto simp: CommitSideEffect_def g split: if_splits)
    with k x False show ?thesis by auto
  next
    case True
    obtain r1 s2 where a: "ensureSideEffectApproval (te_svc env) ctx now r0 s1 = ((None, r1), s2)"
      and c: "commitEffect env call ctx now r1 (m, s2) = ((None, r), (m', s'))"
      using assms(4) True by (auto simp: CommitSideEffect_def g split: prod.splits option.splits if_splits)
    obtain f hc j s3 s4 w where s3: "s3 = snd (call f hc j s2)" and r: "se_Status r = SideEffectStatusCommitted"
      and sv: "saveSideEffectReceipt (te_svc env) now r s3 = (None, s4)" and s': "s' = appendAuditRecord (te_svc env) ctx now w s4"
      using commitEffect_success [OF c] by blast
    have "sinv s3" unfolding s3 using approval_passed(1) [OF _ assms(2) a] k by (auto intro: assms(3))
    moreover have "TrimSpace i \<noteq> ''''" using g by (auto simp: GetSideEffectReceipt_def)
    ultimately have sr: "sinv s4" "so_GetKV ops s4 (sideEffectReceiptKey i) = Some (DocReceipt (receiptFilled (te_svc env) now r s3))"
      using save_receipt [OF _ assms(2) sv] assms(5,6) by simp_all
    have "TrimSpace SideEffectStatusCommitted = SideEffectStatusCommitted" by code_simp
    with sr r show ?thesis
      using append_audit(1) [OF sr(1) assms(2)] audit_keeps_receipt [OF sr(1) assms(2)] by (simp add: s' receiptFilled_ID(2))
  qed
qed

end

section \<open>Properties\<close>

text \<open>C33. An effect is committed once: after \<open>CommitSideEffect\<close> has returned without an error, every later
  attempt to commit the same receipt, by any caller, at any time and whatever else was written in
  between outside this receipt's document, leaves the handler alone (any two handlers give the same
  result).  The handler may do what it likes to the store as long as it keeps the store's contract.\<close>

theorem side_effect_commits_once:
  assumes "store_contract ops sinv" "sx_ops (te_svc env) = ops" "\<And>f hc j s. sinv s \<Longrightarrow> sinv (snd (call f hc j s))" "sinv s"
    and "CommitSideEffect env call ctx now i (m, s) = ((None, r), (m', s'))" "se_ID r = TrimSpace i" "TrimSpace i \<noteq> ''index''"
    and "so_GetKV ops later (sideEffectReceiptKey i) = so_GetKV ops s' (sideEffectReceiptKey i)"
  shows "CommitSideEffect env call1 ctx1 now1 i (m1, later) = CommitSideEffect env call2 ctx1 now1 i (m1, later)"
proof -
  obtain x where "so_GetKV ops s' (sideEffectReceiptKey i) = Some (DocReceipt x)"
    "TrimSpace (se_Status x) \<notin> {SideEffectStatusStaged, SideEffectStatusCommitPending}"
    using store_contract.commit_settles [OF assms(1,4,2,3,5-7)] by blast
  with done_ignores_handler [of env later i x] assms(2,8) show ?thesis by simp
qed

definition staged_receipt :: sideEffectReceipt where
  "staged_receipt = noReceipt\<lparr>se_ID := ''r1'', se_RunID := ''r'', se_Tool := ''pay'', se_Status := SideEffectStatusStaged, se_Mode := SideEffectModeStage,
     se_ApprovalRequired := True, se_Input := JInt 5\<rparr>"

definition staged_store :: memStore where
  "staged_store = NewMemoryStore\<lparr>ms_kv := [(''side_effects/receipts/r1'', DocReceipt staged_receipt), (sideEffectReceiptIndexKey, DocIDs [''r1'']),
     (''human/tasks/t'', DocHuman (approvedTask\<lparr>ht_SideEffectReceiptID := ''r1''\<rparr>)), (humanTaskIndexKey, DocIDs [''t''])]\<rparr>"

definition pay_mem :: "nat runnerMem" where
  "pay_mem = clean_mem\<lparr>rm_registry := Some (Register ''pay'' (Some 0) NewHandlerRegistry)\<rparr>"

definition answers :: "json \<Rightarrow> (nat, memStore) handlerCall" where
  "answers j f hc input s = ((j, None), s)"

definition paid :: "json \<Rightarrow> bool" where
  "paid j = (case CommitSideEffect demo_toolEnv (answers j) anybody 9 ''r1'' (pay_mem, staged_store) of ((err, r), e) \<Rightarrow>
     err = None \<and> se_ID r = ''r1'' \<and> se_Status r = SideEffectStatusCommitted \<and> se_CommitOutput r = j)"

lemma pays: "paid JNull" "paid (JInt 1)"
  by code_simp+

theorem commit_needs_approval_witness:
  "\<exists>r s1. GetSideEffectReceipt memSvc anybody 9 ''r1'' staged_store = (Inr r, s1) \<and>
    se_Status r \<in> {SideEffectStatusStaged, SideEffectStatusCommitPending} \<and>
    (se_ApprovalRequired r \<longrightarrow> (\<exists>j t. GetHumanTask memOps j s1 = Some (Inr t) \<and> ht_Status t = HumanTaskApproved \<and>
       ht_SideEffectReceiptID t = TrimSpace (se_ID r)))"
proof -
  have "CommitSideEffect demo_toolEnv (answers JNull) anybody 9 ''r1'' (pay_mem, staged_store) \<noteq>
      CommitSideEffect demo_toolEnv (answers (JInt 1)) anybody 9 ''r1'' (pay_mem, staged_store)"
    using pays by (auto simp: paid_def)
  from commit_needs_approval [OF this] show ?thesis by (simp add: demo_toolEnv_def memSvc_ops)
qed

lemma staged_inv: "mem_inv staged_store"
  by (simp add: mem_inv_def staged_store_def NewMemoryStore_def ListEvents_def)

theorem side_effect_commits_once_witness:
  "\<exists>r m s. CommitSideEffect demo_toolEnv (answers JNull) anybody 9 ''r1'' (pay_mem, staged_store) = ((None, r), (m, s)) \<and>
    CommitSideEffect demo_toolEnv (answers JNull) acme 10 ''r1'' (pay_mem, s) = CommitSideEffect demo_toolEnv (answers (JInt 2)) acme 10 ''r1'' (pay_mem, s)"
proof -
  obtain r m s where c: "CommitSideEffect demo_toolEnv (answers JNull) anybody 9 ''r1'' (pay_mem, staged_store) = ((None, r), (m, s))" "se_ID r = ''r1''"
    using pays(1) by (auto simp: paid_def split: prod.splits)
  have t: "TrimSpace ''r1'' = ''r1''" by code_simp
  have "CommitSideEffect demo_toolEnv (answers JNull) acme 10 ''r1'' (pay_mem, s) = CommitSideEffect demo_toolEnv (answers (JInt 2)) acme 10 ''r1'' (pay_mem, s)"
    by (rule side_effect_commits_once [OF mem.store_contract_axioms _ _ staged_inv c(1) _ _ refl])
      (simp_all add: demo_toolEnv_def memSvc_ops answers_def c(2) t)
  with c(1) show ?thesis by blast
qed

end
