(* ===== verification/ToolCalls.thy ===== *)
theory ToolCalls
  imports SideEffects
begin

text \<open>
  One tool call through the gateway (\<^verbatim>\<open>internal/engine/tool_gateway.go\<close>: \<open>invokeTool\<close>,
  \<open>authorizeToolExecution\<close>, \<open>logToolCall\<close>).  A call passes the tool's policy, the server, the
  authorization rules, the input schemas of node and tool, the sandbox rule and the choice of a
  route; only then does the handler run, directly or as a side effect, and its output is checked
  against the output schemas.  Every call, refused or not, is logged with its input and output
  redacted.

  \<open>now\<close> is when the call starts and \<open>fin\<close> when it is logged.
\<close>

section \<open>Authorization and the log\<close>

definition toolRequest :: "callCtx \<Rightarrow> toolInvocation \<Rightarrow> authorizationRequest" where
  "toolRequest ctx iv =
     \<lparr>aq_Action = PolicyActionToolExecute, aq_RunID = TrimSpace (ti_RunID iv), aq_TenantID = effectiveTenantFromContext ctx,
      aq_WorkflowID = TrimSpace (ti_WorkflowID iv), aq_NodeID = TrimSpace (ti_NodeID iv), aq_Tool = TrimSpace (ti_Tool iv),
      aq_RequiredCapability = TrimSpace (ti_RequiredCapability iv), aq_Principal = Principal_Normalize (callerPrincipal ctx)\<rparr>"

definition authorizeToolExecution ::
  "'s svcEnv \<Rightarrow> callCtx \<Rightarrow> toolInvocation \<Rightarrow> ('f, 's) engine \<Rightarrow> engineError option \<times> ('f, 's) engine" where
  "authorizeToolExecution env ctx iv e =
     (case GetAuthorizationPolicy env e of
        (Inl err, e1) \<Rightarrow> (Some err, e1)
      | (Inr found, e1) \<Rightarrow>
          (let check = evaluateAuthorization (case found of Some b \<Rightarrow> b | None \<Rightarrow> noBundle) (toolRequest ctx iv) in
           if ac_Allowed check then (None, e1)
           else (Some (ErrAuthorizationDenied (if TrimSpace (ac_Reason check) \<noteq> '''' then ac_Reason check else ''authorization denied'')), e1)))"

definition combinedRedactFields :: "toolPolicy \<Rightarrow> string list" where
  "combinedRedactFields policy =
     dedupeSortedStrings ([''password'', ''passwd'', ''secret'', ''token'', ''api_key'', ''apikey'',
       ''authorization'', ''private_key'', ''access_token'', ''refresh_token''] @ tl_RedactFields policy)"

definition noRoute :: adaptiveRoute where
  "noRoute = \<lparr>rt_ID = '''', rt_Provider = '''', rt_Model = '''', rt_EstimatedTokens = 0, rt_EstimatedDollars = 0, rt_Priority = 0, rt_TenantScopes = []\<rparr>"

definition noServer :: toolServer where
  "noServer = \<lparr>ts_ID = '''', ts_Kind = '''', ts_Endpoint = '''', ts_Description = '''', ts_Approved = False, ts_AllowedTools = [],
     ts_TenantScopes = [], ts_SandboxAllowed = False\<rparr>"

definition noPolicy :: toolPolicy where
  "noPolicy = \<lparr>tl_ID = '''', tl_Tool = '''', tl_ServerID = '''', tl_Approved = False, tl_SandboxRequired = False, tl_SideEffect = None,
     tl_AdaptiveRouting = None, tl_TenantScopes = [], tl_RedactFields = [], tl_InputSchema = JNil, tl_OutputSchema = JNil\<rparr>"

definition callRecord ::
  "'s toolEnv \<Rightarrow> callCtx \<Rightarrow> gotime \<Rightarrow> toolInvocation \<Rightarrow> toolServer \<Rightarrow> toolPolicy \<Rightarrow> json \<Rightarrow> json \<Rightarrow> bool \<Rightarrow> bool \<Rightarrow> duration
     \<Rightarrow> engineError option \<Rightarrow> adaptiveRoute \<Rightarrow> toolCallRecord" where
  "callRecord env ctx fin iv server policy input output allowed sandboxed dur err route =
     \<lparr>cr_ID = '''', cr_At = fin, cr_TenantID = effectiveTenantFromContext ctx, cr_PrincipalID = '''', cr_RunID = TrimSpace (ti_RunID iv),
      cr_WorkflowID = TrimSpace (ti_WorkflowID iv), cr_NodeID = TrimSpace (ti_NodeID iv), cr_Attempt = ti_Attempt iv,
      cr_Tool = TrimSpace (ti_Tool iv), cr_ServerID = TrimSpace (ts_ID server), cr_ServerKind = TrimSpace (ts_Kind server),
      cr_RouteID = TrimSpace (rt_ID route), cr_Provider = TrimSpace (rt_Provider route), cr_Model = TrimSpace (rt_Model route),
      cr_Allowed = (allowed \<and> err = None), cr_Sandboxed = sandboxed, cr_DurationMS = dur div 1000000,
      cr_Reason = (case err of Some x \<Rightarrow> te_errText env x | None \<Rightarrow> if sandboxed then ''sandboxed tool execution'' else ''tool executed''),
      cr_Input = redactJSON input (combinedRedactFields policy), cr_Output = redactJSON output (combinedRedactFields policy),
      cr_Error = (case err of Some x \<Rightarrow> te_errText env x | None \<Rightarrow> '''')\<rparr>"

definition logToolCall ::
  "'s toolEnv \<Rightarrow> callCtx \<Rightarrow> gotime \<Rightarrow> toolInvocation \<Rightarrow> toolServer \<Rightarrow> toolPolicy \<Rightarrow> json \<Rightarrow> json \<Rightarrow> bool \<Rightarrow> bool \<Rightarrow> duration
     \<Rightarrow> engineError option \<Rightarrow> adaptiveRoute \<Rightarrow> 's \<Rightarrow> 's" where
  "logToolCall env ctx fin iv server policy input output allowed sandboxed dur err route s =
     (let r = callRecord env ctx fin iv server policy input output allowed sandboxed dur err route in
      appendAuditRecord (te_svc env) ctx fin
        (auditNote (cr_TenantID r) '''' ''tool.call'' ''tool'' (cr_Tool r) (cr_RunID r) (cr_WorkflowID r)
           (if cr_Allowed r then AuditOutcomeAllowed else AuditOutcomeDenied) (cr_Reason r))
        (saveToolCallRecord (te_svc env) ctx fin r s))"

section \<open>The call\<close>

definition schemaError :: "'s toolEnv \<Rightarrow> engineError \<Rightarrow> engineError" where
  "schemaError env err = EWrap ('': '' @ te_errText env err) ErrToolSchemaInvalid"

text \<open>The checks whose refusals are logged with no route and not as sandboxed: a refusal carries the
  server and the policy that are logged with it.\<close>

definition toolAdmission ::
  "'s toolEnv \<Rightarrow> callCtx \<Rightarrow> gotime \<Rightarrow> toolInvocation \<Rightarrow> json \<Rightarrow> ('f, 's) engine
     \<Rightarrow> (engineError \<times> toolServer \<times> toolPolicy + toolServer \<times> toolPolicy) \<times> ('f, 's) engine" where
  "toolAdmission env ctx now iv input e =
     (case resolveToolPolicy (te_svc env) ctx now (ti_Tool iv) e of
        (Inl err, e1) \<Rightarrow> (Inl (err, noServer, noPolicy), e1)
      | (Inr policy, e1) \<Rightarrow>
          (case resolveToolServer (te_svc env) ctx now policy e1 of
             (Inl err, e2) \<Rightarrow> (Inl (err, noServer, policy), e2)
           | (Inr server, e2) \<Rightarrow>
               (case authorizeToolExecution (te_svc env) ctx iv e2 of
                  (Some err, e3) \<Rightarrow> (Inl (err, server, policy), e3)
                | (None, e3) \<Rightarrow>
                    (case validateSchemaValue (ti_InputSchema iv) input ''node input'' of
                       Some err \<Rightarrow> (Inl (schemaError env err, server, policy), e3)
                     | None \<Rightarrow>
                         (case validateSchemaValue (tl_InputSchema policy) input ''tool input'' of
                            Some err \<Rightarrow> (Inl (schemaError env err, server, policy), e3)
                          | None \<Rightarrow> (Inr (server, policy), e3))))))"

text \<open>Running the handler: the logged output, the returned output and the error.\<close>

definition runTool ::
  "'s toolEnv \<Rightarrow> ('f, 's) handlerCall \<Rightarrow> 's toolCtx \<Rightarrow> gotime \<Rightarrow> toolInvocation \<Rightarrow> 'f \<Rightarrow> toolRuntime \<Rightarrow> toolServer \<Rightarrow> toolPolicy \<Rightarrow> json \<Rightarrow> 's
     \<Rightarrow> (json \<times> json \<times> engineError option) \<times> 's" where
  "runTool env call tx now iv handler rt server policy input s =
     (if (case normalizeSideEffectPolicy (tl_SideEffect policy) of Some p \<Rightarrow> sp_Enabled p | None \<Rightarrow> False)
      then (case executeSideEffect env call tx now iv handler rt server policy input s of ((out, err), s1) \<Rightarrow> ((out, out, err), s1))
      else case call handler \<lparr>hc_call = tx_call tx, hc_tool = Some rt, hc_side = None\<rparr> input s of
             ((out, Some err), s1) \<Rightarrow> ((out, out, Some err), s1)
           | ((out, None), s1) \<Rightarrow>
               (case validateSchemaValue (tl_OutputSchema policy) out ''tool output'' of
                  Some err \<Rightarrow> ((out, JNil, Some (schemaError env err)), s1)
                | None \<Rightarrow>
                    (case validateSchemaValue (ti_OutputSchema iv) out ''node output'' of
                       Some err \<Rightarrow> ((out, JNil, Some (schemaError env err)), s1)
                     | None \<Rightarrow> ((out, out, None), s1))))"

definition runtimeFor :: "toolInvocation \<Rightarrow> toolServer \<Rightarrow> toolPolicy \<Rightarrow> adaptiveRoute \<Rightarrow> bool \<Rightarrow> toolRuntime" where
  "runtimeFor iv server policy route sandboxed =
     \<lparr>tr_Tool = TrimSpace (ti_Tool iv), tr_ServerID = TrimSpace (ts_ID server), tr_ServerKind = TrimSpace (ts_Kind server),
      tr_RouteID = TrimSpace (rt_ID route), tr_Provider = TrimSpace (rt_Provider route), tr_Model = TrimSpace (rt_Model route),
      tr_Sandboxed = sandboxed, tr_Policy = cloneToolPolicy policy, tr_Server = cloneToolServer server\<rparr>"

definition invokeTool ::
  "'s toolEnv \<Rightarrow> ('f, 's) handlerCall \<Rightarrow> 's toolCtx \<Rightarrow> gotime \<Rightarrow> gotime \<Rightarrow> toolInvocation \<Rightarrow> 'f option \<Rightarrow> json \<Rightarrow> ('f, 's) engine
     \<Rightarrow> (json \<times> engineError option) \<times> ('f, 's) engine" where
  "invokeTool env call tx now fin iv handler input e =
     (let ctx = tx_call tx;
          refuse = (\<lambda>err server policy sandboxed e1. ((JNil, Some err),
            (fst e1, logToolCall env ctx fin iv server policy input JNil False sandboxed (fin - now) (Some err) noRoute (snd e1)))) in
      case handler of
        None \<Rightarrow> ((JNil, Some (EText (''tool '' @ quoted (TrimSpace (ti_Tool iv)) @ '' has no handler''))), e)
      | Some f \<Rightarrow>
          (case toolAdmission env ctx now iv input e of
             (Inl (err, server, policy), e1) \<Rightarrow> refuse err server policy False e1
           | (Inr (server, policy), e1) \<Rightarrow>
               let sandboxed = (tl_SandboxRequired policy \<or> (case tx_risk tx of Some (act, score) \<Rightarrow> act = RiskActionSandbox | None \<Rightarrow> False)) in
               if sandboxed \<and> \<not> ts_SandboxAllowed server \<and> ts_ID server \<noteq> defaultToolServerID
               then refuse (EWrap ('': server '' @ quoted (ts_ID server) @ '' does not allow sandbox execution'') ErrToolServerNotApproved) server policy sandboxed e1
               else
                 (case selectAdaptiveRoute env tx iv policy input e1 of
                    (Inl err, e2) \<Rightarrow> refuse err server policy sandboxed e2
                  | (Inr found, (m, s)) \<Rightarrow>
                      let route = (case found of Some r \<Rightarrow> r | None \<Rightarrow> noRoute);
                          rt = runtimeFor iv server policy route sandboxed in
                      (case runTool env call tx now iv f rt server policy input s of
                         ((shown, out, err), s1) \<Rightarrow>
                           ((out, err), (m, logToolCall env ctx fin iv server policy input shown True sandboxed (fin - now) err route s1))))))"

section \<open>What the checks mean\<close>

text \<open>Specification of the checks, apart from the code: what the tool bundle in force says of a tool and
  a tenant, and what a schema admits.\<close>

definition in_scope :: "string list \<Rightarrow> string \<Rightarrow> bool" where
  "in_scope scopes x \<longleftrightarrow> scopes = [] \<or> TrimSpace x \<in> TrimSpace ` set scopes"

definition tool_approved :: "toolGatewayBundle option \<Rightarrow> string \<Rightarrow> string \<Rightarrow> bool" where
  "tool_approved b tenantID tool \<longleftrightarrow>
     (case find (\<lambda>p. tl_Tool p = tool) (case b of Some b \<Rightarrow> tb_Tools b | None \<Rightarrow> []) of
        None \<Rightarrow> True
      | Some p \<Rightarrow> tl_Approved p \<and> in_scope (tl_TenantScopes p) tenantID)"

definition server_approved :: "toolGatewayBundle option \<Rightarrow> string \<Rightarrow> toolPolicy \<Rightarrow> toolServer \<Rightarrow> bool" where
  "server_approved b tenantID policy server \<longleftrightarrow> server = localServer \<or>
     (\<exists>v \<in> set (case b of Some b \<Rightarrow> tb_Servers b | None \<Rightarrow> []). ts_ID v = TrimSpace (tl_ServerID policy) \<and> ts_Approved v \<and>
        in_scope (ts_TenantScopes v) tenantID \<and> in_scope (ts_AllowedTools v) (tl_Tool policy) \<and> server = cloneToolServer v)"

definition admits :: "json \<Rightarrow> json \<Rightarrow> bool" where
  "admits schema v \<longleftrightarrow> schema = JNil \<or> json_ok schema \<and> json_ok v \<and>
     (schema = JNull \<or> (\<exists>kvs. schema = JObj kvs \<and> conforms kvs (if v = JNil then JNull else v)))"

lemma schemaValue_admits: "validateSchemaValue schema v name = None \<longleftrightarrow> admits schema v"
  by (cases schema) (auto simp: validateSchemaValue_def admits_def validate_conforms)

lemma containsString_scope: "(scopes \<noteq> [] \<and> \<not> containsString scopes x) \<longleftrightarrow> \<not> in_scope scopes x"
  by (auto simp: containsString_def in_scope_def list_ex_iff image_iff)

lemma pickPolicy_approved:
  "pickPolicy tenantID tool (case b of Some b \<Rightarrow> tb_Tools b | None \<Rightarrow> []) = Inr p \<Longrightarrow> tool_approved b tenantID tool"
  by (auto simp: pickPolicy_def tool_approved_def containsString_scope split: option.splits if_splits)

lemma bundle_again:
  assumes "GetToolGatewayBundle env now e = (Inr b, e1)"
  shows "GetToolGatewayBundle env now' e1 = (Inr b, e1)" "snd e1 = snd e" "rm_policyBundle (fst e1) = rm_policyBundle (fst e)"
  using assms by (cases e; auto simp: GetToolGatewayBundle_def split: option.splits sum.splits)+

lemma server_picked:
  assumes "resolveToolServer env ctx now policy e = (Inr server, e1)" "GetToolGatewayBundle env now e = (Inr b, e)"
  shows "server_approved b (effectiveTenantFromContext ctx) policy server \<and> e1 = e"
  using assms
  by (fastforce simp: resolveToolServer_def pickServer_def server_approved_def containsString_scope Let_def
      split: if_splits option.splits dest: find_found)

definition tool_admitted :: "'s svcEnv \<Rightarrow> callCtx \<Rightarrow> gotime \<Rightarrow> toolInvocation \<Rightarrow> json \<Rightarrow> toolPolicy \<Rightarrow> toolServer \<Rightarrow> ('f, 's) engine \<Rightarrow> bool" where
  "tool_admitted env ctx now iv input policy server e \<longleftrightarrow>
     (\<exists>b bundle. fst (GetToolGatewayBundle env now e) = Inr b \<and>
        tool_approved b (effectiveTenantFromContext ctx) (ti_Tool iv) \<and> server_approved b (effectiveTenantFromContext ctx) policy server \<and>
        fst (GetAuthorizationPolicy env e) = Inr bundle \<and>
        permits (case bundle of Some x \<Rightarrow> x | None \<Rightarrow> noBundle) (trimRequest (toolRequest ctx iv))) \<and>
     admits (ti_InputSchema iv) input \<and> admits (tl_InputSchema policy) input"

lemma admission_sound:
  assumes "toolAdmission env ctx now iv input e = (Inr (server, policy), e')"
  shows "fst (resolveToolPolicy (te_svc env) ctx now (ti_Tool iv) e) = Inr policy"
    "tool_admitted (te_svc env) ctx now iv input policy server e"
proof -
  let ?svc = "te_svc env"
  obtain e1 where p: "resolveToolPolicy ?svc ctx now (ti_Tool iv) e = (Inr policy, e1)"
    using assms by (auto simp: toolAdmission_def split: prod.splits sum.splits option.splits)
  obtain b where b: "GetToolGatewayBundle ?svc now e = (Inr b, e1)"
    and pk: "pickPolicy (effectiveTenantFromContext ctx) (ti_Tool iv) (case b of Some b \<Rightarrow> tb_Tools b | None \<Rightarrow> []) = Inr policy"
    using p by (auto simp: resolveToolPolicy_def split: prod.splits sum.splits)
  note again = bundle_again [OF b]
  obtain e2 where "resolveToolServer ?svc ctx now policy e1 = (Inr server, e2)"
    using assms p by (auto simp: toolAdmission_def split: prod.splits sum.splits option.splits)
  with server_picked [OF this again(1)] have sv: "resolveToolServer ?svc ctx now policy e1 = (Inr server, e1)"
    "server_approved b (effectiveTenantFromContext ctx) policy server" by simp_all
  have au: "fst (authorizeToolExecution ?svc ctx iv e1) = None" and sc: "admits (ti_InputSchema iv) input" "admits (tl_InputSchema policy) input"
    using assms by (auto simp: toolAdmission_def p sv(1) schemaValue_admits split: prod.splits option.splits)
  obtain ab where "fst (GetAuthorizationPolicy ?svc e1) = Inr ab"
    "permits (case ab of Some x \<Rightarrow> x | None \<Rightarrow> noBundle) (trimRequest (toolRequest ctx iv))"
    using au by (auto simp: authorizeToolExecution_def Let_def evaluate_permits split: prod.splits sum.splits if_splits)
  moreover have "fst (GetAuthorizationPolicy ?svc e1) = fst (GetAuthorizationPolicy ?svc e)"
    using again(2,3) by (cases e; cases e1) (auto simp: GetAuthorizationPolicy_def split: option.splits sum.splits)
  ultimately show "tool_admitted ?svc ctx now iv input policy server e"
    using b pickPolicy_approved [OF pk] sv(2) sc unfolding tool_admitted_def by auto
  show "fst (resolveToolPolicy ?svc ctx now (ti_Tool iv) e) = Inr policy" by (simp add: p)
qed

lemma runTool_output:
  assumes "runTool env call tx now iv f rt server policy input s = ((shown, out, None), s1)"
    and "\<not> (case normalizeSideEffectPolicy (tl_SideEffect policy) of Some p \<Rightarrow> sp_Enabled p | None \<Rightarrow> False)"
  shows "admits (tl_OutputSchema policy) out \<and> admits (ti_OutputSchema iv) out"
  using assms by (auto simp: runTool_def schemaValue_admits [symmetric, of _ _ "''tool output''"] split: prod.splits option.splits)
    (simp add: schemaValue_admits)+

section \<open>What is logged\<close>

definition hides :: "string list \<Rightarrow> json \<Rightarrow> bool" where
  "hides names v \<longleftrightarrow> (\<forall>p k w. jlookup v (p @ [Field k]) = Some w \<longrightarrow> shouldRedactKey k names \<longrightarrow> w = JText ''[REDACTED]'')"

lemma redacted_hides: "json_ok v \<Longrightarrow> hides names (redactJSON v names)"
proof -
  assume "json_ok v"
  moreover have "jlookup JNil (p @ [st]) = None" for p st by (cases p) auto
  ultimately show ?thesis using redact_hides [of v names _ "Field _"] by (auto simp: hides_def redactJSON_def)
qed

lemma put_one:
  assumes "store_contract ops sinv" "sinv s"
  shows "sinv (snd (putJSONKV ops now key d s))" "so_GetKV ops (snd (putJSONKV ops now key d s)) k \<in> {so_GetKV ops s k, Some d}"
proof -
  obtain er t where p: "putJSONKV ops now key d s = (er, t)" by fastforce
  show "sinv (snd (putJSONKV ops now key d s))" "so_GetKV ops (snd (putJSONKV ops now key d s)) k \<in> {so_GetKV ops s k, Some d}"
    using store_contract.put_doc(1) [OF assms p] store_contract.put_doc(4) [OF assms p, of k] by (auto simp: p)
qed

text \<open>A document and then, perhaps, an index: what a reader may find afterwards.\<close>

definition logs_one :: "'s storeOps \<Rightarrow> ('s \<Rightarrow> bool) \<Rightarrow> kvText \<Rightarrow> 's \<Rightarrow> 's \<Rightarrow> bool" where
  "logs_one ops sinv d s s' \<longleftrightarrow> sinv s' \<and> (\<forall>k. so_GetKV ops s' k \<in> {so_GetKV ops s k, Some d} \<union> range (\<lambda>ids. Some (DocIDs ids)))"

lemma logs_one_intro:
  assumes "store_contract ops sinv" "sinv s"
    and "s' = s \<or> s' = snd (putJSONKV ops now key d s) \<or> (\<exists>ids. s' = snd (putJSONKV ops now ix (DocIDs ids) (snd (putJSONKV ops now key d s))))"
  shows "logs_one ops sinv d s s'"
  using assms(3)
proof (elim disjE exE)
  fix ids
  let ?s1 = "snd (putJSONKV ops now key d s)"
  assume s': "s' = snd (putJSONKV ops now ix (DocIDs ids) ?s1)"
  note a = put_one [OF assms(1,2), of now key d]
  have "so_GetKV ops s' k \<in> {so_GetKV ops s k, Some d} \<union> range (\<lambda>ids. Some (DocIDs ids))" for k
    using a(2) [of k] put_one(2) [OF assms(1) a(1), of now ix "DocIDs ids" k] by (auto simp: s')
  then show ?thesis using put_one(1) [OF assms(1) a(1)] by (simp add: logs_one_def s')
qed (use assms(2) put_one [OF assms(1,2), of now key d] in \<open>auto simp: logs_one_def\<close>)

lemma logs_one_call: "logs_one ops sinv d s s' \<Longrightarrow> so_GetKV ops s' k = Some (DocToolCall r) \<Longrightarrow> so_GetKV ops s k = Some (DocToolCall r) \<or> d = DocToolCall r"
  unfolding logs_one_def by (elim conjE allE [of _ k]) auto

lemma audit_logs:
  assumes "store_contract ops sinv" "sinv s" "sx_ops env = ops"
  shows "logs_one ops sinv (DocAudit (auditFilled env ctx now r s)) s (appendAuditRecord env ctx now r s)"
  by (rule logs_one_intro [OF assms(1,2), of _ now "auditRecordKey (au_ID (auditFilled env ctx now r s))" _ auditIndexKey])
    (auto simp: appendAuditRecord_def Let_def assms(3) split: prod.splits option.splits sum.splits)

lemma call_logs:
  assumes "store_contract ops sinv" "sinv s" "sx_ops env = ops"
  shows "logs_one ops sinv (DocToolCall (callFilled env ctx now r s)) s (saveToolCallRecord env ctx now r s)"
  by (rule logs_one_intro [OF assms(1,2), of _ now "toolCallRecordKey (cr_ID (callFilled env ctx now r s))" _ toolCallIndexKey])
    (auto simp: saveToolCallRecord_def Let_def assms(3) split: prod.splits option.splits sum.splits)


definition secret_input :: json where
  "secret_input = JObj [(''user'', JText ''ann''), (''auth'', JObj [(''X-Api_Key'', JText ''s3cret'')])]"

definition logged_store :: memStore where
  "logged_store = logToolCall demo_toolEnv acme 7 demo_call localServer (implicitPolicy ''llm'') secret_input JNull True False 0 None noRoute NewMemoryStore"

lemma logged_key: "\<exists>k r. so_GetKV memOps logged_store k = Some (DocToolCall r)"
proof -
  have "(case so_GetKV memOps logged_store (toolCallRecordKey (mintID memSvc ''tool-call-'' 7 NewMemoryStore)) of Some (DocToolCall r) \<Rightarrow> True | _ \<Rightarrow> False)"
    by code_simp
  then show ?thesis by (auto split: option.splits kvText.splits)
qed


section \<open>When the handler runs\<close>


definition demo_tool :: "json \<Rightarrow> (json \<times> engineError option) \<times> (nat, memStore) engine" where
  "demo_tool j = invokeTool demo_toolEnv (answers j) demo_toolCtx 5 7 demo_call (Some 0) (JInt 3) (clean_mem, NewMemoryStore)"

lemma demo_admitted:
  "toolAdmission demo_toolEnv acme 5 demo_call (JInt 3) (clean_mem, NewMemoryStore) = (Inr (localServer, implicitPolicy ''llm''), (clean_mem, NewMemoryStore))"
  by code_simp

lemma demo_routed:
  "selectAdaptiveRoute demo_toolEnv demo_toolCtx demo_call (implicitPolicy ''llm'') (JInt 3) (clean_mem, NewMemoryStore) = (Inr None, (clean_mem, NewMemoryStore))"
  by code_simp

lemma demo_tool_runs: "fst (demo_tool j) = (j, None)"
  using demo_routed demo_admitted
  by (simp add: demo_tool_def invokeTool_def runTool_def answers_def implicitPolicy_def localServer_def normalizeSideEffectPolicy_def
      cloneSideEffectPolicy_def validateSchemaValue_def demo_call_def Let_def demo_toolCtx_def)


end
