(* ===== verification/AgentState.thy ===== *)
theory AgentState
  imports ToolCalls
begin

text \<open>
  Versioned agent state (\<^verbatim>\<open>internal/engine/agent_state.go\<close>): every write of an agent's state makes a new
  snapshot under a new version and moves the pointer to the latest one; a replay reads what was
  there when it began and cannot write.

  \<open>agentCtx\<close> is what the code reads from its context: caller, agent scope, node execution, replay
  scope and trace.  The two writes of \<open>WriteAgentState\<close> are not atomic with the read of the latest
  version; the model runs the whole method as one step.
\<close>

record executionRef =
  xr_RunID :: string
  xr_WorkflowID :: string
  xr_NodeID :: string
  xr_Attempt :: int

record replayScope =
  rs_SourceRunID :: string
  rs_Mode :: string
  rs_StartedAt :: gotime

record agentCtx =
  gx_call :: callCtx
  gx_AgentID :: string
  gx_Exec :: "executionRef option"
  gx_Replay :: "replayScope option"
  gx_Trace :: string

section \<open>Context\<close>

definition AgentIDFrom :: "agentCtx \<Rightarrow> string" where
  "AgentIDFrom ctx = TrimSpace (gx_AgentID ctx)"

definition WithAgentID :: "agentCtx \<Rightarrow> string \<Rightarrow> agentCtx" where
  "WithAgentID ctx agentID = (if TrimSpace agentID = '''' then ctx else ctx\<lparr>gx_AgentID := TrimSpace agentID\<rparr>)"

definition trimRef :: "executionRef \<Rightarrow> executionRef" where
  "trimRef ref = ref\<lparr>xr_RunID := TrimSpace (xr_RunID ref), xr_WorkflowID := TrimSpace (xr_WorkflowID ref), xr_NodeID := TrimSpace (xr_NodeID ref)\<rparr>"

definition WithExecutionRef :: "agentCtx \<Rightarrow> executionRef \<Rightarrow> agentCtx" where
  "WithExecutionRef ctx ref = (if TrimSpace (xr_RunID ref) = '''' then ctx else ctx\<lparr>gx_Exec := Some (trimRef ref)\<rparr>)"

definition ExecutionRefFrom :: "agentCtx \<Rightarrow> executionRef option" where
  "ExecutionRefFrom ctx =
     (case gx_Exec ctx of
        Some ref \<Rightarrow> if TrimSpace (xr_RunID ref) \<noteq> '''' then Some (trimRef ref) else None
      | None \<Rightarrow> None)"

definition WithReplayScope :: "agentCtx \<Rightarrow> gotime \<Rightarrow> string \<Rightarrow> string \<Rightarrow> agentCtx" where
  "WithReplayScope ctx now sourceRunID mode =
     (if TrimSpace sourceRunID = '''' then ctx
      else ctx\<lparr>gx_Replay := Some \<lparr>rs_SourceRunID = TrimSpace sourceRunID, rs_Mode = mode, rs_StartedAt = now\<rparr>\<rparr>)"

definition ReplayScopeFrom :: "agentCtx \<Rightarrow> gotime \<Rightarrow> replayScope option" where
  "ReplayScopeFrom ctx now =
     (case gx_Replay ctx of
        None \<Rightarrow> None
      | Some scope \<Rightarrow>
          if TrimSpace (rs_SourceRunID scope) = '''' then None
          else Some (scope\<lparr>rs_SourceRunID := TrimSpace (rs_SourceRunID scope),
                           rs_StartedAt := (if IsZero (rs_StartedAt scope) then now else rs_StartedAt scope)\<rparr>))"

section \<open>Snapshots\<close>

definition agentIDChar :: "char \<Rightarrow> bool" where
  "agentIDChar c \<longleftrightarrow> (let n = (of_char c :: nat) in 97 \<le> n \<and> n \<le> 122 \<or> 65 \<le> n \<and> n \<le> 90 \<or> 48 \<le> n \<and> n \<le> 57) \<or> c \<in> set ''_-''"

definition normalizeAgentStateID :: "string \<Rightarrow> engineError + string" where
  "normalizeAgentStateID agentID0 =
     (let agentID = TrimSpace agentID0 in
      if agentID = '''' then Inl (EWrap '': agent id is required'' ErrAgentStateAccessDenied)
      else if \<not> list_all agentIDChar agentID
      then Inl (EWrap ('': agent id '' @ quoted agentID @ '' must match ^[a-zA-Z0-9_-]+$'') ErrAgentStateAccessDenied)
      else Inr agentID)"

definition agentStateKeyPart :: "string \<Rightarrow> string" where
  "agentStateKeyPart v = PathEscape (TrimSpace v)"

definition agentStateLatestKey :: "string \<Rightarrow> string \<Rightarrow> string" where
  "agentStateLatestKey tenantID agentID = ''agent_state/latest/'' @ agentStateKeyPart tenantID @ ''/'' @ agentStateKeyPart agentID"

definition agentStateSnapshotKey :: "string \<Rightarrow> string \<Rightarrow> int \<Rightarrow> string" where
  "agentStateSnapshotKey tenantID agentID version =
     ''agent_state/snapshots/'' @ agentStateKeyPart tenantID @ ''/'' @ agentStateKeyPart agentID @ ''/'' @ padded 12 version"

definition cloneAgentStateSnapshot :: "agentStateSnapshot \<Rightarrow> agentStateSnapshot" where
  "cloneAgentStateSnapshot x =
     x\<lparr>ag_TenantID := TrimSpace (ag_TenantID x), ag_AgentID := TrimSpace (ag_AgentID x), ag_TraceID := TrimSpace (ag_TraceID x),
       ag_PrincipalID := TrimSpace (ag_PrincipalID x), ag_RunID := TrimSpace (ag_RunID x), ag_WorkflowID := TrimSpace (ag_WorkflowID x),
       ag_NodeID := TrimSpace (ag_NodeID x)\<rparr>"

definition readAgentStateVersion :: "'s storeOps \<Rightarrow> string \<Rightarrow> string \<Rightarrow> int \<Rightarrow> 's \<Rightarrow> engineError + agentStateSnapshot option" where
  "readAgentStateVersion ops tenantID agentID version s =
     (case getJSONKV ops asAgentState (agentStateSnapshotKey tenantID agentID version) s of
        None \<Rightarrow> Inr None
      | Some (Inl err) \<Rightarrow> Inl err
      | Some (Inr x) \<Rightarrow> Inr (Some (cloneAgentStateSnapshot x)))"

definition latestAgentStateVersion :: "'s storeOps \<Rightarrow> string \<Rightarrow> string \<Rightarrow> 's \<Rightarrow> engineError + int option" where
  "latestAgentStateVersion ops tenantID agentID s =
     (case getJSONKV ops asInt (agentStateLatestKey tenantID agentID) s of
        None \<Rightarrow> Inr None
      | Some (Inl err) \<Rightarrow> Inl err
      | Some (Inr latest) \<Rightarrow> Inr (if latest > 0 then Some latest else None))"

text \<open>The loop of \<open>latestReplayReadableAgentState\<close>, from version \<open>n\<close> down to 1.\<close>

fun readableLoop :: "'s storeOps \<Rightarrow> string \<Rightarrow> string \<Rightarrow> gotime \<Rightarrow> 's \<Rightarrow> nat \<Rightarrow> engineError + agentStateSnapshot option" where
  "readableLoop ops tenantID agentID boundary s 0 = Inr None"
| "readableLoop ops tenantID agentID boundary s (Suc n) =
     (case readAgentStateVersion ops tenantID agentID (int (Suc n)) s of
        Inl err \<Rightarrow> Inl err
      | Inr None \<Rightarrow> readableLoop ops tenantID agentID boundary s n
      | Inr (Some x) \<Rightarrow>
          if ag_CreatedAt x \<le> boundary then Inr (Some x) else readableLoop ops tenantID agentID boundary s n)"

definition latestReplayReadableAgentState ::
  "'s storeOps \<Rightarrow> agentCtx \<Rightarrow> gotime \<Rightarrow> string \<Rightarrow> string \<Rightarrow> 's \<Rightarrow> engineError + agentStateSnapshot option" where
  "latestReplayReadableAgentState ops ctx now tenantID agentID s =
     (case ReplayScopeFrom ctx now of
        None \<Rightarrow> Inr None
      | Some scope \<Rightarrow>
          (case latestAgentStateVersion ops tenantID agentID s of
             Inl err \<Rightarrow> Inl err
           | Inr None \<Rightarrow> Inr None
           | Inr (Some latest) \<Rightarrow> readableLoop ops tenantID agentID (rs_StartedAt scope) s (nat latest)))"

section \<open>Access\<close>

definition ensureAgentStateAccess :: "'s svcEnv \<Rightarrow> agentCtx \<Rightarrow> gotime \<Rightarrow> string \<Rightarrow> string \<Rightarrow> string \<Rightarrow> 's \<Rightarrow> engineError option \<times> 's" where
  "ensureAgentStateAccess env gx now tenantID0 agentID0 act0 s =
     (let tenantID = TrimSpace tenantID0; agentID = TrimSpace agentID0; act = TrimSpace act0; ctx = gx_call gx;
          caller = effectiveTenantFromContext ctx; scoped = AgentIDFrom gx;
          audit = (\<lambda>tenant principal outcome why. appendAuditRecord env ctx now
            (auditNote tenant principal act ''agent_state'' agentID '''' '''' outcome why) s);
          allowed = (None, audit tenantID '''' AuditOutcomeAllowed ''agent state access allowed'') in
      if tenantID = '''' then
        (Some (EWrap ('': missing tenant context for agent '' @ quoted agentID) ErrTenantAccessDenied),
         audit '''' '''' AuditOutcomeDenied ''missing tenant context'')
      else if caller \<noteq> tenantID then
        (let why = ''caller tenant '' @ quoted caller @ '' cannot access tenant '' @ quoted tenantID in
         (Some (EWrap ('': '' @ why) ErrTenantAccessDenied), audit tenantID '''' AuditOutcomeDenied why))
      else if scoped \<noteq> '''' \<and> scoped \<noteq> agentID then
        (let why = ''agent scope '' @ quoted scoped @ '' cannot access agent '' @ quoted agentID in
         (Some (EWrap ('': '' @ why) ErrAgentStateAccessDenied), audit tenantID '''' AuditOutcomeDenied why))
      else case PrincipalFrom ctx of
             None \<Rightarrow> allowed
           | Some p \<Rightarrow>
               if pr_TenantScopes p = [] \<or> list_ex (\<lambda>scope. matchPattern tenantID scope) (pr_TenantScopes p) then allowed
               else (let why = ''principal tenant scope does not include tenant '' @ quoted tenantID in
                     (Some (EWrap ('': '' @ why) ErrTenantAccessDenied), audit tenantID (pr_ID p) AuditOutcomeDenied why)))"

section \<open>Read, write, lineage\<close>

definition stateNotFound :: "string \<Rightarrow> int \<Rightarrow> engineError" where
  "stateNotFound agentID version =
     EWrap ('': agent='' @ quoted agentID @ (if version > 0 then '' version='' @ itoa version else '''')) ErrAgentStateNotFound"

definition latestState :: "'s storeOps \<Rightarrow> string \<Rightarrow> string \<Rightarrow> 's \<Rightarrow> engineError + agentStateSnapshot" where
  "latestState ops tenantID agentID s =
     (case latestAgentStateVersion ops tenantID agentID s of
        Inl err \<Rightarrow> Inl err
      | Inr None \<Rightarrow> Inl (stateNotFound agentID 0)
      | Inr (Some latest) \<Rightarrow>
          (case readAgentStateVersion ops tenantID agentID latest s of
             Inl err \<Rightarrow> Inl err
           | Inr None \<Rightarrow> Inl (stateNotFound agentID 0)
           | Inr (Some x) \<Rightarrow> Inr x))"

definition ReadAgentState :: "'s svcEnv \<Rightarrow> agentCtx \<Rightarrow> gotime \<Rightarrow> string \<Rightarrow> int \<Rightarrow> 's \<Rightarrow> (engineError + agentStateSnapshot) \<times> 's" where
  "ReadAgentState env gx now agentID0 version s =
     (let ops = sx_ops env; tenantID = effectiveTenantFromContext (gx_call gx) in
      case normalizeAgentStateID agentID0 of
        Inl err \<Rightarrow> (Inl err, s)
      | Inr agentID \<Rightarrow>
          (case ensureAgentStateAccess env gx now tenantID agentID ''agent_state.read'' s of
             (Some err, s1) \<Rightarrow> (Inl err, s1)
           | (None, s1) \<Rightarrow>
               if version > 0 then
                 ((case readAgentStateVersion ops tenantID agentID version s1 of
                     Inl err \<Rightarrow> Inl err
                   | Inr None \<Rightarrow> Inl (stateNotFound agentID version)
                   | Inr (Some x) \<Rightarrow> Inr x), s1)
               else
                 ((case latestReplayReadableAgentState ops gx now tenantID agentID s1 of
                     Inl err \<Rightarrow> Inl err
                   | Inr (Some x) \<Rightarrow> Inr x
                   | Inr None \<Rightarrow> latestState ops tenantID agentID s1), s1)))"

definition newSnapshot :: "agentCtx \<Rightarrow> gotime \<Rightarrow> string \<Rightarrow> string \<Rightarrow> int \<Rightarrow> json \<Rightarrow> agentStateSnapshot" where
  "newSnapshot gx now tenantID agentID parent state =
     (let ref = ExecutionRefFrom gx in
      \<lparr>ag_TenantID = tenantID, ag_AgentID = agentID, ag_Version = parent + 1, ag_ParentVersion = parent, ag_CreatedAt = now, ag_State = state,
       ag_TraceID = gx_Trace gx, ag_PrincipalID = (case PrincipalFrom (gx_call gx) of Some p \<Rightarrow> TrimSpace (pr_ID p) | None \<Rightarrow> ''''),
       ag_RunID = (case ref of Some x \<Rightarrow> xr_RunID x | None \<Rightarrow> ''''), ag_WorkflowID = (case ref of Some x \<Rightarrow> xr_WorkflowID x | None \<Rightarrow> ''''),
       ag_NodeID = (case ref of Some x \<Rightarrow> xr_NodeID x | None \<Rightarrow> ''''), ag_Attempt = (case ref of Some x \<Rightarrow> xr_Attempt x | None \<Rightarrow> 0)\<rparr>)"

definition WriteAgentState ::
  "'s svcEnv \<Rightarrow> agentCtx \<Rightarrow> gotime \<Rightarrow> string \<Rightarrow> json \<Rightarrow> int \<Rightarrow> 's \<Rightarrow> (engineError + agentStateSnapshot) \<times> 's" where
  "WriteAgentState env gx now agentID0 state0 expected s =
     (let ops = sx_ops env; tenantID = effectiveTenantFromContext (gx_call gx); state = (if state0 = JNil then JObj [] else state0) in
      case normalizeAgentStateID agentID0 of
        Inl err \<Rightarrow> (Inl err, s)
      | Inr agentID \<Rightarrow>
          if \<not> json_ok state then (Inl (EText ''agent state must be valid json''), s)
          else case ensureAgentStateAccess env gx now tenantID agentID ''agent_state.write'' s of
                 (Some err, s1) \<Rightarrow> (Inl err, s1)
               | (None, s1) \<Rightarrow>
                   if ReplayScopeFrom gx now \<noteq> None then (Inl ErrAgentStateReplayWriteDenied, s1)
                   else case latestAgentStateVersion ops tenantID agentID s1 of
                          Inl err \<Rightarrow> (Inl err, s1)
                        | Inr found \<Rightarrow>
                            (let parent = (case found of Some v \<Rightarrow> v | None \<Rightarrow> 0); x = newSnapshot gx now tenantID agentID parent state in
                             if expected > 0 \<and> expected \<noteq> parent
                             then (Inl (EWrap ('': expected='' @ itoa expected @ '' latest='' @ itoa parent) ErrAgentStateVersionConflict), s1)
                             else case putJSONKV ops now (agentStateSnapshotKey tenantID agentID (ag_Version x)) (DocAgentState x) s1 of
                                    (Some err, s2) \<Rightarrow> (Inl err, s2)
                                  | (None, s2) \<Rightarrow>
                                      (case putJSONKV ops now (agentStateLatestKey tenantID agentID) (DocInt (ag_Version x)) s2 of
                                         (Some err, s3) \<Rightarrow> (Inl err, s3)
                                       | (None, s3) \<Rightarrow> (Inr (cloneAgentStateSnapshot x), s3))))"

text \<open>The loop of \<open>ListAgentStateLineage\<close>: at most \<open>room\<close> more snapshots, from version \<open>n\<close> down.\<close>

fun lineageLoop :: "'s storeOps \<Rightarrow> string \<Rightarrow> string \<Rightarrow> 's \<Rightarrow> nat \<Rightarrow> nat \<Rightarrow> engineError + agentStateSnapshot list" where
  "lineageLoop ops tenantID agentID s room 0 = Inr []"
| "lineageLoop ops tenantID agentID s room (Suc n) =
     (if room = 0 then Inr []
      else case readAgentStateVersion ops tenantID agentID (int (Suc n)) s of
             Inl err \<Rightarrow> Inl err
           | Inr None \<Rightarrow> lineageLoop ops tenantID agentID s room n
           | Inr (Some x) \<Rightarrow>
               (case lineageLoop ops tenantID agentID s (room - 1) n of Inl err \<Rightarrow> Inl err | Inr xs \<Rightarrow> Inr (x # xs)))"

definition ListAgentStateLineage ::
  "'s svcEnv \<Rightarrow> agentCtx \<Rightarrow> gotime \<Rightarrow> string \<Rightarrow> int \<Rightarrow> 's \<Rightarrow> (engineError + agentStateSnapshot list) \<times> 's" where
  "ListAgentStateLineage env gx now agentID0 limit0 s =
     (let ops = sx_ops env; tenantID = effectiveTenantFromContext (gx_call gx);
          limit = (if limit0 \<le> 0 then 100 else min limit0 500) in
      case normalizeAgentStateID agentID0 of
        Inl err \<Rightarrow> (Inl err, s)
      | Inr agentID \<Rightarrow>
          (case ensureAgentStateAccess env gx now tenantID agentID ''agent_state.lineage'' s of
             (Some err, s1) \<Rightarrow> (Inl err, s1)
           | (None, s1) \<Rightarrow>
               ((case latestAgentStateVersion ops tenantID agentID s1 of
                   Inl err \<Rightarrow> Inl err
                 | Inr None \<Rightarrow> Inr []
                 | Inr (Some latest) \<Rightarrow> lineageLoop ops tenantID agentID s1 (nat limit) (nat latest)), s1)))"

section \<open>Keys\<close>

lemma PathEscape_no_slash: "CHR ''/'' \<notin> set (PathEscape s)"
proof (induction s)
  case (Cons a s)
  have hex: "hexDigit n \<noteq> CHR ''/''" if "n < 16" for n
    using that by (auto simp: hexDigit_def char_of_eq_iff take_bit_eq_mod)
  have "(of_char a :: nat) div 16 < 16" "(of_char a :: nat) mod 16 < 16" by (simp_all add: less_mult_imp_div_less)
  with hex have "hexDigit (of_char a div 16) \<noteq> CHR ''/''" "hexDigit (of_char a mod 16) \<noteq> CHR ''/''" by blast+
  moreover have "pathSafe a \<Longrightarrow> a \<noteq> CHR ''/''" by (auto simp: pathSafe_def Let_def)
  ultimately show ?case using Cons by (auto split: if_splits)
qed simp

lemma split_at_slash:
  "CHR ''/'' \<notin> set a \<Longrightarrow> CHR ''/'' \<notin> set b \<Longrightarrow> a @ CHR ''/'' # x = b @ CHR ''/'' # y \<longleftrightarrow> a = b \<and> x = y"
  by (induction a arbitrary: b; case_tac b) auto

lemma keyPart_eq: "agentStateKeyPart a = agentStateKeyPart b \<longleftrightarrow> TrimSpace a = TrimSpace b"
  using PathEscape_inj by (auto simp: agentStateKeyPart_def)

lemma itoa_digits: "c \<in> set (nat_itoa n) \<Longrightarrow> 48 \<le> (of_char c :: nat) \<and> (of_char c :: nat) \<le> 57"
proof (induction n rule: nat_itoa.induct)
  case (1 n)
  have d: "48 \<le> (of_char (digit_char k) :: nat) \<and> (of_char (digit_char k) :: nat) \<le> 57" if "k < 10" for k
    using that by (simp add: digit_char_def)
  show ?case
  proof (cases "n < 10")
    case True
    with 1(2) d show ?thesis by (simp add: nat_itoa.simps [of n])
  next
    case False
    with 1 d [of "n mod 10"] show ?thesis by (auto simp: nat_itoa.simps [of n])
  qed
qed

definition dec :: "string \<Rightarrow> nat" where
  "dec = foldl (\<lambda>a c. 10 * a + (of_char c - 48)) 0"

lemma dec_itoa: "dec (nat_itoa n) = n"
proof (induction n rule: nat_itoa.induct)
  case (1 n)
  have d: "(of_char (digit_char k) :: nat) = 48 + k" if "k < 10" for k using that by (simp add: digit_char_def)
  show ?case
  proof (cases "n < 10")
    case True
    then show ?thesis by (simp add: nat_itoa.simps [of n] d dec_def)
  next
    case False
    have "dec (nat_itoa n) = 10 * dec (nat_itoa (n div 10)) + n mod 10"
      using False by (simp add: nat_itoa.simps [of n] d dec_def)
    with 1 False show ?thesis by simp
  qed
qed

lemma padded_inj: "0 \<le> i \<Longrightarrow> 0 \<le> j \<Longrightarrow> padded w i = padded w j \<longleftrightarrow> i = j"
proof -
  assume ij: "0 \<le> i" "0 \<le> j"
  have z: "dec (replicate k (CHR ''0'') @ s) = dec s" for k s by (induction k) (simp_all add: dec_def)
  have "dec (padded w x) = nat x" if "0 \<le> x" for x using that by (simp add: padded_def Let_def z itoa_def dec_itoa)
  then show ?thesis using ij by (metis nat_eq_iff2)
qed

lemma padded_no_space: "0 \<le> i \<Longrightarrow> c \<in> set (padded w i) \<Longrightarrow> \<not> is_space c"
  by (auto simp: padded_def Let_def itoa_def is_space_def dest: itoa_digits)

lemma agent_keys:
  "TrimSpace (agentStateLatestKey t a) = agentStateLatestKey t a" "\<not> isAuditKey (agentStateLatestKey t a)"
  "0 \<le> v \<Longrightarrow> TrimSpace (agentStateSnapshotKey t a v) = agentStateSnapshotKey t a v" "\<not> isAuditKey (agentStateSnapshotKey t a v)"
  "agentStateSnapshotKey t a v \<noteq> agentStateLatestKey t' a'" "agentStateLatestKey t' a' \<noteq> agentStateSnapshotKey t a v"
proof -
  have part: "c \<in> set (agentStateKeyPart x) \<Longrightarrow> \<not> is_space c" for c x unfolding agentStateKeyPart_def by (rule PathEscape_no_space)
  show "TrimSpace (agentStateLatestKey t a) = agentStateLatestKey t a"
    by (rule TrimSpace_no_space) (auto simp: agentStateLatestKey_def is_space_def dest: part)
  show "0 \<le> v \<Longrightarrow> TrimSpace (agentStateSnapshotKey t a v) = agentStateSnapshotKey t a v"
    by (rule TrimSpace_no_space) (auto simp: agentStateSnapshotKey_def is_space_def dest: part padded_no_space)
qed (simp_all add: agentStateLatestKey_def agentStateSnapshotKey_def isAuditKey_def HasPrefix_def)

lemma keyPart_split:
  "agentStateKeyPart a @ CHR ''/'' # x = agentStateKeyPart b @ CHR ''/'' # y \<longleftrightarrow> TrimSpace a = TrimSpace b \<and> x = y"
  using split_at_slash [OF PathEscape_no_slash PathEscape_no_slash, of "TrimSpace a" x "TrimSpace b" y] keyPart_eq [of a b]
  by (simp add: agentStateKeyPart_def)

lemma agent_key_eq:
  "agentStateLatestKey t a = agentStateLatestKey t' a' \<longleftrightarrow> TrimSpace t = TrimSpace t' \<and> TrimSpace a = TrimSpace a'"
  "0 \<le> v \<Longrightarrow> 0 \<le> v' \<Longrightarrow> agentStateSnapshotKey t a v = agentStateSnapshotKey t' a' v' \<longleftrightarrow>
     TrimSpace t = TrimSpace t' \<and> TrimSpace a = TrimSpace a' \<and> v = v'"
  by (simp_all add: agentStateLatestKey_def agentStateSnapshotKey_def keyPart_split keyPart_eq padded_inj)

section \<open>What the operations do to the store\<close>

lemma access_state:
  "\<exists>a. ensureAgentStateAccess env gx now t a0 act s = (fst (ensureAgentStateAccess env gx now t a0 act s), appendAuditRecord env (gx_call gx) now a s)"
  by (auto simp: ensureAgentStateAccess_def Let_def prod_eq_iff split: option.splits if_splits)

lemma access_granted:
  assumes "ensureAgentStateAccess env gx now t a0 act s = (None, s1)"
  shows "TrimSpace t \<noteq> ''''" "effectiveTenantFromContext (gx_call gx) = TrimSpace t" "AgentIDFrom gx \<in> {'''', TrimSpace a0}"
  using assms by (auto simp: ensureAgentStateAccess_def Let_def split: if_splits)

lemma read_version_cong:
  "(\<And>k. so_GetKV ops s' (agentStateSnapshotKey t a k) = so_GetKV ops s (agentStateSnapshotKey t a k)) \<Longrightarrow>
     readAgentStateVersion ops t a v s' = readAgentStateVersion ops t a v s"
  by (simp add: readAgentStateVersion_def getJSONKV_def)

text \<open>A successful write, taken apart: access granted with an audit record, no replay, the expected version
  met, the snapshot put, then the pointer.\<close>

lemma write_success:
  assumes "WriteAgentState env gx now agentID state expected s = (Inr x, s')"
  obtains t a parent found s1 s2 w y where "t = effectiveTenantFromContext (gx_call gx)" "normalizeAgentStateID agentID = Inr a"
    "s1 = appendAuditRecord env (gx_call gx) now w s" "ReplayScopeFrom gx now = None"
    "latestAgentStateVersion (sx_ops env) t a s1 = Inr found" "parent = (case found of Some v \<Rightarrow> v | None \<Rightarrow> 0)"
    "expected > 0 \<longrightarrow> expected = parent" "y = newSnapshot gx now t a parent (if state = JNil then JObj [] else state)"
    "putJSONKV (sx_ops env) now (agentStateSnapshotKey t a (ag_Version y)) (DocAgentState y) s1 = (None, s2)"
    "putJSONKV (sx_ops env) now (agentStateLatestKey t a) (DocInt (ag_Version y)) s2 = (None, s')" "x = cloneAgentStateSnapshot y"
    "AgentIDFrom gx \<in> {'''', TrimSpace a}"
proof -
  let ?t = "effectiveTenantFromContext (gx_call gx)"
  obtain a where a: "normalizeAgentStateID agentID = Inr a"
    using assms by (auto simp: WriteAgentState_def Let_def split: sum.splits)
  obtain s1 where e: "ensureAgentStateAccess env gx now ?t a ''agent_state.write'' s = (None, s1)"
    using assms by (auto simp: WriteAgentState_def Let_def a split: if_splits prod.splits option.splits)
  then obtain w where w: "s1 = appendAuditRecord env (gx_call gx) now w s" using access_state [of env gx now ?t a "''agent_state.write''" s] by auto
  have r: "ReplayScopeFrom gx now = None"
    using assms by (cases "ReplayScopeFrom gx now") (auto simp: WriteAgentState_def Let_def a e split: if_splits)
  obtain found where f: "latestAgentStateVersion (sx_ops env) ?t a s1 = Inr found"
    using assms by (auto simp: WriteAgentState_def Let_def a e r split: if_splits sum.splits)
  show thesis
    using assms access_granted(3) [OF e]
    by (auto simp: WriteAgentState_def Let_def a e r f split: if_splits prod.splits option.splits
        intro!: that [OF refl a w r f refl])
qed


lemma new_snapshot_fields:
  "ag_Version (newSnapshot gx now t a p st) = p + 1" "ag_ParentVersion (newSnapshot gx now t a p st) = p"
  "ag_State (newSnapshot gx now t a p st) = st" "ag_CreatedAt (newSnapshot gx now t a p st) = now"
  "ag_TenantID (newSnapshot gx now t a p st) = t" "ag_AgentID (newSnapshot gx now t a p st) = a"
  by (simp_all add: newSnapshot_def Let_def)

lemma cloned_fields [simp]:
  "ag_Version (cloneAgentStateSnapshot y) = ag_Version y" "ag_ParentVersion (cloneAgentStateSnapshot y) = ag_ParentVersion y"
  "ag_State (cloneAgentStateSnapshot y) = ag_State y" "ag_CreatedAt (cloneAgentStateSnapshot y) = ag_CreatedAt y"
  "ag_TenantID (cloneAgentStateSnapshot y) = TrimSpace (ag_TenantID y)" "ag_AgentID (cloneAgentStateSnapshot y) = TrimSpace (ag_AgentID y)"
  by (simp_all add: cloneAgentStateSnapshot_def)

text \<open>The latest version as a number, 0 when there is none.\<close>

definition versionOf_latest :: "int option \<Rightarrow> int" where
  "versionOf_latest found = (case found of Some v \<Rightarrow> v | None \<Rightarrow> 0)"

lemma latest_nonneg: "latestAgentStateVersion ops t a s = Inr found \<Longrightarrow> 0 \<le> versionOf_latest found"
  by (auto simp: latestAgentStateVersion_def versionOf_latest_def split: option.splits sum.splits if_splits)

lemma normalized_ID: "normalizeAgentStateID i = Inr a \<Longrightarrow> a = TrimSpace i \<and> TrimSpace a = a"
  by (auto simp: normalizeAgentStateID_def Let_def split: if_splits)

context store_contract
begin

lemma audit_keeps_agent:
  assumes "sinv s" "sx_ops env = ops"
  shows "so_GetKV ops (appendAuditRecord env ctx now w s) (agentStateLatestKey t a) = so_GetKV ops s (agentStateLatestKey t a)"
    and "0 \<le> v \<Longrightarrow> so_GetKV ops (appendAuditRecord env ctx now w s) (agentStateSnapshotKey t a v) = so_GetKV ops s (agentStateSnapshotKey t a v)"
  using kv_moves_reads(5) [OF append_audit(2) [OF assms, of ctx now w]] by (simp_all add: agent_keys)

lemma audit_keeps_reads:
  assumes "sinv s" "sx_ops env = ops"
  shows "latestAgentStateVersion ops t a (appendAuditRecord env ctx now w s) = latestAgentStateVersion ops t a s"
    and "0 \<le> v \<Longrightarrow> readAgentStateVersion ops t a v (appendAuditRecord env ctx now w s) = readAgentStateVersion ops t a v s"
  using audit_keeps_agent [OF assms] by (simp_all add: latestAgentStateVersion_def readAgentStateVersion_def getJSONKV_def)

text \<open>What a successful write leaves behind, read through the store.\<close>

lemma write_effect:
  assumes "sinv s" "sx_ops env = ops" "WriteAgentState env gx now agentID state expected s = (Inr x, s')"
    and "t = effectiveTenantFromContext (gx_call gx)" "a = TrimSpace agentID"
  shows "\<exists>found. latestAgentStateVersion ops t a s = Inr found \<and> ag_ParentVersion x = versionOf_latest found" "sinv s'"
    "latestAgentStateVersion ops t a s' = Inr (Some (ag_Version x))" "readAgentStateVersion ops t a (ag_Version x) s' = Inr (Some x)"
    "ag_Version x = ag_ParentVersion x + 1" "expected > 0 \<longrightarrow> expected = ag_ParentVersion x"
    "ag_State x = (if state = JNil then JObj [] else state)" "ag_CreatedAt x = now" "ag_TenantID x = TrimSpace t" "ag_AgentID x = a"
    "\<And>t' a' v. 0 \<le> v \<Longrightarrow> (TrimSpace t', TrimSpace a', v) \<noteq> (TrimSpace t, a, ag_Version x) \<Longrightarrow>
       readAgentStateVersion ops t' a' v s' = readAgentStateVersion ops t' a' v s"
    "\<And>t' a'. (TrimSpace t', TrimSpace a') \<noteq> (TrimSpace t, a) \<Longrightarrow>
       latestAgentStateVersion ops t' a' s' = latestAgentStateVersion ops t' a' s"
proof -
  obtain t1 a1 parent found s1 s2 w y where d1: "t1 = effectiveTenantFromContext (gx_call gx)" "normalizeAgentStateID agentID = Inr a1"
    "s1 = appendAuditRecord env (gx_call gx) now w s" "latestAgentStateVersion (sx_ops env) t1 a1 s1 = Inr found"
    "parent = (case found of Some v \<Rightarrow> v | None \<Rightarrow> 0)" "expected > 0 \<longrightarrow> expected = parent"
    "y = newSnapshot gx now t1 a1 parent (if state = JNil then JObj [] else state)"
    and p1: "putJSONKV (sx_ops env) now (agentStateSnapshotKey t1 a1 (ag_Version y)) (DocAgentState y) s1 = (None, s2)"
    "putJSONKV (sx_ops env) now (agentStateLatestKey t1 a1) (DocInt (ag_Version y)) s2 = (None, s')" and x: "x = cloneAgentStateSnapshot y"
    using write_success [OF assms(3)] by metis
  have e: "t1 = t" "a1 = a" using d1(1,2) assms(4,5) normalized_ID by simp_all
  note d = d1 [unfolded e] and p = p1 [unfolded e]
  note ta = normalized_ID [OF d(2)]
  have i1: "sinv s1" unfolding d(3) by (rule append_audit(1) [OF assms(1,2)])
  have i2: "sinv s2" and i3: "sinv s'" using put_doc(1) i1 p assms(2) by blast+
  have f: "latestAgentStateVersion ops t a s = Inr found" using d(3,4) audit_keeps_reads(1) [OF assms(1,2)] assms(2) by simp
  have par: "parent = versionOf_latest found" "0 \<le> parent" using latest_nonneg [OF f] by (simp_all add: d(5) versionOf_latest_def)
  have y: "ag_Version y = parent + 1" "ag_ParentVersion y = parent" by (simp_all add: d(7) new_snapshot_fields)
  have snap: "so_GetKV ops s' (agentStateSnapshotKey t a (ag_Version y)) = Some (DocAgentState y)"
    using put_doc(3) [OF i1, of now _ _ None s2] put_doc(4) [OF i2, of now _ _ None s'] p assms(2) par y by (metis agent_keys(1,3,5) add_nonneg_nonneg zero_le_one)
  have ptr: "so_GetKV ops s' (agentStateLatestKey t a) = Some (DocInt (ag_Version y))"
    using put_doc(3) [OF i2] p(2) assms(2) by blast
  have oth: "so_GetKV ops s' k = so_GetKV ops s1 k"
    if "TrimSpace k \<noteq> agentStateSnapshotKey t a (ag_Version y)" "TrimSpace k \<noteq> agentStateLatestKey t a" for k
    using put_doc(4) [OF i1 p(1) [unfolded assms(2)], of k] put_doc(4) [OF i2 p(2) [unfolded assms(2)], of k] that par y by (simp add: agent_keys)
  show "\<exists>found. latestAgentStateVersion ops t a s = Inr found \<and> ag_ParentVersion x = versionOf_latest found"
    using f y par by (auto simp: x)
  show "latestAgentStateVersion ops t a s' = Inr (Some (ag_Version x))"
    using par y by (simp add: latestAgentStateVersion_def getJSONKV_def ptr asInt_def x)
  show "readAgentStateVersion ops t a (ag_Version x) s' = Inr (Some x)"
    by (simp add: readAgentStateVersion_def getJSONKV_def snap asAgentState_def x)
  show "readAgentStateVersion ops t' a' v s' = readAgentStateVersion ops t' a' v s"
    if "0 \<le> v" "(TrimSpace t', TrimSpace a', v) \<noteq> (TrimSpace t, a, ag_Version x)" for t' a' v
    using oth [of "agentStateSnapshotKey t' a' v"] that ta par y audit_keeps_agent(2) [OF assms(1,2) that(1)]
    by (auto simp: readAgentStateVersion_def getJSONKV_def agent_keys agent_key_eq x d(3))
  show "latestAgentStateVersion ops t' a' s' = latestAgentStateVersion ops t' a' s"
    if "(TrimSpace t', TrimSpace a') \<noteq> (TrimSpace t, a)" for t' a'
    using oth [of "agentStateLatestKey t' a'"] that ta audit_keeps_agent(1) [OF assms(1,2)]
    by (auto simp: latestAgentStateVersion_def getJSONKV_def agent_keys agent_key_eq d(3))
  show "sinv s'" by (rule i3)
  show "ag_Version x = ag_ParentVersion x + 1" "expected > 0 \<longrightarrow> expected = ag_ParentVersion x"
    "ag_State x = (if state = JNil then JObj [] else state)" "ag_CreatedAt x = now" "ag_TenantID x = TrimSpace t" "ag_AgentID x = a"
    using d(6) y ta by (simp_all add: x d(7) new_snapshot_fields)
qed

end


section \<open>Replays read the past\<close>

lemma access_fst: "fst (ensureAgentStateAccess env gx now t a act s) = fst (ensureAgentStateAccess env gx now' t a act s')"
  by (simp add: ensureAgentStateAccess_def Let_def split: option.split)

lemma readable_cong:
  "(\<And>v. 1 \<le> v \<Longrightarrow> v \<le> int n \<Longrightarrow> readAgentStateVersion ops t a v s' = readAgentStateVersion ops t a v s) \<Longrightarrow>
     readableLoop ops t a b s' n = readableLoop ops t a b s n"
  by (induction n) (auto split: sum.split option.split)

text \<open>What a replay reads is the newest snapshot that is not younger than the replay, as long as there is one.\<close>

lemma replay_read:
  assumes "gx_Replay gx = Some scope" "TrimSpace (rs_SourceRunID scope) \<noteq> ''''" "\<not> IsZero (rs_StartedAt scope)"
  shows "latestReplayReadableAgentState ops gx now t a s =
    (case latestAgentStateVersion ops t a s of
       Inl err \<Rightarrow> Inl err | Inr None \<Rightarrow> Inr None | Inr (Some latest) \<Rightarrow> readableLoop ops t a (rs_StartedAt scope) s (nat latest))"
  using assms by (auto simp: latestReplayReadableAgentState_def ReplayScopeFrom_def split: sum.split option.split)

context store_contract
begin

lemma replay_pinned:
  assumes "sinv s" "sx_ops env = ops" "gx_Replay gx = Some scope" "TrimSpace (rs_SourceRunID scope) \<noteq> ''''" "\<not> IsZero (rs_StartedAt scope)"
    and "fst (ReadAgentState env gx now agentID 0 s) = Inr x" "ag_CreatedAt x \<le> rs_StartedAt scope"
  obtains t a latest where "t = effectiveTenantFromContext (gx_call gx)" "normalizeAgentStateID agentID = Inr a"
    "fst (ensureAgentStateAccess env gx now t a ''agent_state.read'' s) = None"
    "latestAgentStateVersion ops t a s = Inr (Some latest)" "0 < latest" "readableLoop ops t a (rs_StartedAt scope) s (nat latest) = Inr (Some x)"
proof -
  let ?t = "effectiveTenantFromContext (gx_call gx)"
  obtain a where a: "normalizeAgentStateID agentID = Inr a"
    using assms(6) by (auto simp: ReadAgentState_def Let_def split: sum.splits)
  obtain w where w: "snd (ensureAgentStateAccess env gx now ?t a ''agent_state.read'' s) = appendAuditRecord env (gx_call gx) now w s"
    using access_state [of env gx now ?t a "''agent_state.read''" s] by (metis snd_conv)
  define s1 where "s1 = appendAuditRecord env (gx_call gx) now w s"
  have e: "ensureAgentStateAccess env gx now ?t a ''agent_state.read'' s = (None, s1)"
    using assms(6) w by (auto simp: ReadAgentState_def Let_def a s1_def prod_eq_iff split: prod.splits option.splits)
  note rd = audit_keeps_reads [OF assms(1,2), where ctx = "gx_call gx" and now = now and w = w, folded s1_def]
  obtain l where l: "latestAgentStateVersion ops ?t a s = Inr (Some l)"
    using assms(6) by (auto simp: ReadAgentState_def Let_def a e assms(2) replay_read [OF assms(3-5)] rd latestState_def split: sum.splits option.splits)
  then have l0: "0 < l" by (auto simp: latestAgentStateVersion_def split: option.splits sum.splits if_splits)
  then obtain n where n: "nat l = Suc n" "l = int (Suc n)" by (metis gr0_implies_Suc nat_0_le less_imp_le zero_less_nat_eq)
  have nat_1: "nat (1 + int n) = Suc n" by simp
  have lp: "readableLoop ops ?t a b s1 k = readableLoop ops ?t a b s k" for b k by (rule readable_cong) (simp add: rd)
  have "readableLoop ops ?t a (rs_StartedAt scope) s (nat l) = Inr (Some x)"
    using assms(6,7) l0
    by (auto simp: ReadAgentState_def Let_def a e assms(2) replay_read [OF assms(3-5)] rd l lp latestState_def n nat_1
        split: sum.splits option.splits if_splits)
  with that [OF refl a _ l l0] e show thesis by simp
qed

lemma replay_reread:
  assumes "sinv s" "sx_ops env = ops" "gx_Replay gx = Some scope" "TrimSpace (rs_SourceRunID scope) \<noteq> ''''" "\<not> IsZero (rs_StartedAt scope)"
    and "normalizeAgentStateID agentID = Inr a" "t = effectiveTenantFromContext (gx_call gx)"
    and "fst (ensureAgentStateAccess env gx now t a ''agent_state.read'' s) = None"
    and "latestAgentStateVersion ops t a s = Inr (Some latest)" "readableLoop ops t a (rs_StartedAt scope) s (nat latest) = Inr (Some x)"
  shows "fst (ReadAgentState env gx now agentID 0 s) = Inr x"
proof -
  obtain w where e: "ensureAgentStateAccess env gx now t a ''agent_state.read'' s = (None, appendAuditRecord env (gx_call gx) now w s)"
    using access_state [of env gx now t a "''agent_state.read''" s] assms(8) by auto
  note rd = audit_keeps_reads [OF assms(1,2), where ctx = "gx_call gx" and now = now and w = w]
  have "readableLoop ops t a b (appendAuditRecord env (gx_call gx) now w s) k = readableLoop ops t a b s k" for b k
    by (rule readable_cong) (simp add: rd)
  then show ?thesis using e
    by (simp add: ReadAgentState_def Let_def assms(6) assms(2) assms(7) [symmetric] replay_read [OF assms(3-5)] rd assms(9,10))
qed

end

section \<open>Properties\<close>

text \<open>C34. Writing an agent's state and reading it back: after a successful \<open>WriteAgentState\<close>, over any store that
  keeps the contract, the agent's latest version is the returned one, one above the version that was
  latest before (which is the one the caller expected, where the caller named one), reading that
  version gives the returned snapshot with the state that was written, and no other snapshot, of
  this agent or another, of this tenant or another, and no other agent's latest version changed.\<close>

theorem agent_state_write_contract:
  assumes "store_contract ops sinv" "sinv s" "sx_ops env = ops"
    and "WriteAgentState env gx now agentID state expected s = (Inr x, s')"
  shows "sinv s' \<and> latestAgentStateVersion ops (ag_TenantID x) (ag_AgentID x) s' = Inr (Some (ag_Version x)) \<and>
    readAgentStateVersion ops (ag_TenantID x) (ag_AgentID x) (ag_Version x) s' = Inr (Some x) \<and>
    (\<exists>found. latestAgentStateVersion ops (ag_TenantID x) (ag_AgentID x) s = Inr found \<and> ag_ParentVersion x = versionOf_latest found) \<and>
    ag_Version x = ag_ParentVersion x + 1 \<and> (expected > 0 \<longrightarrow> expected = ag_ParentVersion x) \<and>
    ag_State x = (if state = JNil then JObj [] else state) \<and>
    (\<forall>t a v. 0 \<le> v \<longrightarrow> (TrimSpace t, TrimSpace a, v) \<noteq> (ag_TenantID x, ag_AgentID x, ag_Version x) \<longrightarrow>
       readAgentStateVersion ops t a v s' = readAgentStateVersion ops t a v s) \<and>
    (\<forall>t a. (TrimSpace t, TrimSpace a) \<noteq> (ag_TenantID x, ag_AgentID x) \<longrightarrow>
       latestAgentStateVersion ops t a s' = latestAgentStateVersion ops t a s)"
proof -
  have trim: "latestAgentStateVersion ops (TrimSpace t) a u = latestAgentStateVersion ops t a u"
    "readAgentStateVersion ops (TrimSpace t) a v u = readAgentStateVersion ops t a v u" for t a v u
    by (simp_all add: latestAgentStateVersion_def readAgentStateVersion_def agentStateLatestKey_def agentStateSnapshotKey_def agentStateKeyPart_def)
  note w = store_contract.write_effect [OF assms(1-4) refl refl]
  show ?thesis using w(1-7) unfolding w(9,10) trim by (intro conjI allI impI w(11,12)) auto
qed

text \<open>C35. A replay does not see what happens after it began: once a replay has read an agent's latest state and
  got a snapshot no younger than its own start, it gets the same snapshot again, at any later time,
  after any agent's state was written by anyone after the replay's start.\<close>

theorem replay_isolated:
  assumes "store_contract ops sinv" "sinv s" "sx_ops env = ops"
    and "gx_Replay gx = Some scope" "TrimSpace (rs_SourceRunID scope) \<noteq> ''''" "\<not> IsZero (rs_StartedAt scope)"
    and "fst (ReadAgentState env gx now agentID 0 s) = Inr x" "ag_CreatedAt x \<le> rs_StartedAt scope"
    and "WriteAgentState env gx' now' agentID' state expected s = (Inr y, s')" "rs_StartedAt scope < now'"
  shows "fst (ReadAgentState env gx later agentID 0 s') = Inr x"
proof -
  obtain t a l where r: "t = effectiveTenantFromContext (gx_call gx)" "normalizeAgentStateID agentID = Inr a"
    "fst (ensureAgentStateAccess env gx now t a ''agent_state.read'' s) = None" "latestAgentStateVersion ops t a s = Inr (Some l)" "0 < l"
    "readableLoop ops t a (rs_StartedAt scope) s (nat l) = Inr (Some x)"
    using store_contract.replay_pinned [OF assms(1-8)] by metis
  define t' a' where ta: "t' = effectiveTenantFromContext (gx_call gx')" "a' = TrimSpace agentID'"
  obtain found where w: "latestAgentStateVersion ops t' a' s = Inr found" "sinv s'"
    "latestAgentStateVersion ops t' a' s' = Inr (Some (ag_Version y))" "readAgentStateVersion ops t' a' (ag_Version y) s' = Inr (Some y)"
    "ag_ParentVersion y = versionOf_latest found" "ag_Version y = ag_ParentVersion y + 1" "ag_CreatedAt y = now'" "TrimSpace a' = a'"
    and oth: "\<And>t a v. 0 \<le> v \<Longrightarrow> (TrimSpace t, TrimSpace a, v) \<noteq> (TrimSpace t', a', ag_Version y) \<Longrightarrow>
       readAgentStateVersion ops t a v s' = readAgentStateVersion ops t a v s"
      "\<And>t a. (TrimSpace t, TrimSpace a) \<noteq> (TrimSpace t', a') \<Longrightarrow> latestAgentStateVersion ops t a s' = latestAgentStateVersion ops t a s"
    using store_contract.write_effect [OF assms(1,2,3,9) ta] ta by auto
  have acc: "fst (ensureAgentStateAccess env gx later t a ''agent_state.read'' s') = None" using r(3) access_fst by metis
  note again = store_contract.replay_reread [OF assms(1) w(2) assms(3-6) r(2,1) acc]
  show ?thesis
  proof (cases "(TrimSpace t, TrimSpace a) = (TrimSpace t', a')")
    case False
    have "readableLoop ops t a (rs_StartedAt scope) s' (nat l) = readableLoop ops t a (rs_StartedAt scope) s (nat l)"
      using False by (intro readable_cong oth(1)) auto
    with again oth(2) [OF False] r(4,6) show ?thesis by simp
  next
    case True
    then have same: "latestAgentStateVersion ops t a = latestAgentStateVersion ops t' a'" "readAgentStateVersion ops t a = readAgentStateVersion ops t' a'"
      using w(8) by (simp_all add: latestAgentStateVersion_def readAgentStateVersion_def agentStateLatestKey_def agentStateSnapshotKey_def
          agentStateKeyPart_def fun_eq_iff)
    have v: "ag_Version y = l + 1" using w(1,5,6) r(4) same by (simp add: versionOf_latest_def)
    have "readableLoop ops t a (rs_StartedAt scope) s' (nat l) = readableLoop ops t a (rs_StartedAt scope) s (nat l)"
      using v r(5) by (intro readable_cong oth(1)) auto
    moreover have "nat (l + 1) = Suc (nat l)" "int (Suc (nat l)) = l + 1" using r(5) by simp_all
    ultimately have "readableLoop ops t a (rs_StartedAt scope) s' (nat (l + 1)) = Inr (Some x)"
      using w(4) [unfolded v add.commute [of l]] w(7) same assms(10) r(6) by simp
    with again w(3) same v show ?thesis by simp
  qed
qed


definition planner :: agentCtx where
  "planner = \<lparr>gx_call = acme, gx_AgentID = ''planner'', gx_Exec = None, gx_Replay = None, gx_Trace = ''t''\<rparr>"

definition planner_store :: memStore where
  "planner_store = snd (WriteAgentState memSvc planner 5 ''planner'' (JInt 1) 0 NewMemoryStore)"

definition planned :: "json \<Rightarrow> int \<Rightarrow> int option" where
  "planned j expected = (case WriteAgentState memSvc planner 9 ''planner'' j expected planner_store of (Inr x, s) \<Rightarrow> Some (ag_Version x) | _ \<Rightarrow> None)"

definition replayer :: agentCtx where
  "replayer = WithReplayScope planner 7 ''r0'' ''deterministic''"

lemma planned_values:
  "planned (JInt 2) 1 = Some 2"
  "map_sum id (\<lambda>x. (ag_State x, ag_CreatedAt x)) (fst (ReadAgentState memSvc replayer 8 ''planner'' 0 planner_store)) = Inr (JInt 1, 5)"
  by code_simp+


lemma first_write: "\<not> isl (fst (WriteAgentState memSvc planner 5 ''planner'' (JInt 1) 0 NewMemoryStore))"
  by code_simp

lemma planner_inv: "mem_inv planner_store"
proof -
  have "mem_inv NewMemoryStore" by (simp add: mem_inv_def NewMemoryStore_def ListEvents_def)
  moreover obtain x where "WriteAgentState memSvc planner 5 ''planner'' (JInt 1) 0 NewMemoryStore = (Inr x, planner_store)"
    using first_write by (auto simp: planner_store_def isl_def prod_eq_iff) (metis sum.exhaust)
  ultimately show ?thesis using mem.write_effect(2) memSvc_ops by blast
qed

lemma planner_writes: "\<exists>x s. WriteAgentState memSvc planner 9 ''planner'' (JInt 2) 1 planner_store = (Inr x, s) \<and> ag_Version x = 2"
  using planned_values(1) by (auto simp: planned_def split: prod.splits sum.splits)

theorem agent_state_write_contract_witness:
  "\<exists>x s. WriteAgentState memSvc planner 9 ''planner'' (JInt 2) 1 planner_store = (Inr x, s) \<and> ag_ParentVersion x = 1 \<and>
    readAgentStateVersion memOps (ag_TenantID x) (ag_AgentID x) 2 s = Inr (Some x) \<and> ag_State x = JInt 2"
proof -
  obtain x s where w: "WriteAgentState memSvc planner 9 ''planner'' (JInt 2) 1 planner_store = (Inr x, s)" "ag_Version x = 2"
    using planner_writes by blast
  from agent_state_write_contract [OF mem.store_contract_axioms planner_inv memSvc_ops w(1)] w show ?thesis by auto
qed

theorem replay_isolated_witness:
  "\<exists>x y s. WriteAgentState memSvc planner 9 ''planner'' (JInt 2) 1 planner_store = (Inr y, s) \<and>
    fst (ReadAgentState memSvc replayer 10 ''planner'' 0 s) = Inr x \<and> ag_State x = JInt 1"
proof -
  obtain y s where w: "WriteAgentState memSvc planner 9 ''planner'' (JInt 2) 1 planner_store = (Inr y, s)"
    using planner_writes by blast
  obtain x where r: "fst (ReadAgentState memSvc replayer 8 ''planner'' 0 planner_store) = Inr x" "ag_State x = JInt 1" "ag_CreatedAt x = 5"
    using planned_values(2) by (cases "fst (ReadAgentState memSvc replayer 8 ''planner'' 0 planner_store)") simp_all
  have scope: "gx_Replay replayer = Some \<lparr>rs_SourceRunID = ''r0'', rs_Mode = ''deterministic'', rs_StartedAt = 7\<rparr>" "TrimSpace ''r0'' \<noteq> ''''"
    by code_simp+
  have "fst (ReadAgentState memSvc replayer 10 ''planner'' 0 s) = Inr x"
    by (rule replay_isolated [OF mem.store_contract_axioms planner_inv memSvc_ops scope(1) _ _ r(1) _ w]) (use scope(2) r(3) in \<open>simp_all add: IsZero_def\<close>)
  with w r show ?thesis by blast
qed

end
