(* ===== verification/Evals.thy ===== *)
theory Evals
  imports ToolCalls RunControl
begin

text \<open>
  Evaluation suites (\<^verbatim>\<open>internal/engine/evals.go\<close>) and the active index version they gate
  (\<^verbatim>\<open>internal/engine/index_meta.go\<close>): datasets of cases, suites that say how to judge a case and how many
  must pass, reports of runs of a suite, and promotion of a version when its report passed.

  The run of one case is \<open>RunSpecJSON\<close>; here it is a parameter \<open>runSpec\<close>, from the run's identifier,
  specification, registry and input to the error and the new state.  Pass rates are \<open>float64\<close> in the
  code and rationals here.
\<close>

type_synonym ('f, 's) specCall = "string \<Rightarrow> json \<Rightarrow> 'f handlerRegistry \<Rightarrow> json \<Rightarrow> ('f, 's) engine \<Rightarrow> engineError option \<times> ('f, 's) engine"

abbreviation EvalEvaluatorRunSucceeded :: string where "EvalEvaluatorRunSucceeded \<equiv> ''run_succeeded''"
abbreviation EvalEvaluatorNodeOutputExact :: string where "EvalEvaluatorNodeOutputExact \<equiv> ''node_output_exact''"
abbreviation evalDatasetIndexKey :: string where "evalDatasetIndexKey \<equiv> ''evals/datasets/index''"
abbreviation evalSuiteIndexKey :: string where "evalSuiteIndexKey \<equiv> ''evals/suites/index''"
abbreviation evalReportIndexKey :: string where "evalReportIndexKey \<equiv> ''evals/reports/index''"
abbreviation MetaKeyActiveIndexVersion :: string where "MetaKeyActiveIndexVersion \<equiv> ''active_index_version''"

section \<open>Validation\<close>

definition validateOptionalJSON :: "string \<Rightarrow> json \<Rightarrow> engineError option" where
  "validateOptionalJSON name b = (if b = JNil \<or> json_ok b then None else Some (EText (name @ '' must be valid json'')))"

definition trimCase :: "evalCase \<Rightarrow> evalCase" where
  "trimCase c = c\<lparr>ec_ID := TrimSpace (ec_ID c), ec_Name := TrimSpace (ec_Name c), ec_SourceRunID := TrimSpace (ec_SourceRunID c),
     ec_TargetNodeID := TrimSpace (ec_TargetNodeID c)\<rparr>"

fun normalizeCases :: "string list \<Rightarrow> evalCase list \<Rightarrow> engineError + evalCase list" where
  "normalizeCases seen [] = Inr []"
| "normalizeCases seen (c0 # cs) =
     (let c = trimCase c0 in
      if ec_ID c = '''' then Inl (EText ''eval case id is required'')
      else if ec_ID c \<in> set seen then Inl (EText (''duplicate eval case id '' @ quoted (ec_ID c)))
      else case validateOptionalJSON ''eval case spec'' (ec_Spec c) of
             Some err \<Rightarrow> Inl err
           | None \<Rightarrow>
               (case validateOptionalJSON ''eval case input'' (ec_Input c) of
                  Some err \<Rightarrow> Inl err
                | None \<Rightarrow>
                    (case validateOptionalJSON ''eval case expected_output'' (ec_ExpectedOutput c) of
                       Some err \<Rightarrow> Inl err
                     | None \<Rightarrow> (case normalizeCases (ec_ID c # seen) cs of Inl err \<Rightarrow> Inl err | Inr out \<Rightarrow> Inr (c # out)))))"

definition Dataset_NormalizeAndValidate :: "evalDataset \<Rightarrow> engineError + evalDataset" where
  "Dataset_NormalizeAndValidate d0 =
     (let d = d0\<lparr>ds_ID := TrimSpace (ds_ID d0), ds_Name := TrimSpace (ds_Name d0), ds_Description := TrimSpace (ds_Description d0)\<rparr> in
      if ds_ID d = '''' then Inl (EText ''eval dataset id is required'')
      else case normalizeCases [] (ds_Cases d) of Inl err \<Rightarrow> Inl err | Inr cs \<Rightarrow> Inr (d\<lparr>ds_Cases := cs\<rparr>))"

definition Suite_NormalizeAndValidate :: "evalSuite \<Rightarrow> engineError + evalSuite" where
  "Suite_NormalizeAndValidate u0 =
     (let u = u0\<lparr>su_ID := TrimSpace (su_ID u0), su_Name := TrimSpace (su_Name u0), su_Description := TrimSpace (su_Description u0),
                 su_DatasetID := TrimSpace (su_DatasetID u0), su_TargetNodeID := TrimSpace (su_TargetNodeID u0)\<rparr> in
      if su_ID u = '''' then Inl (EText ''eval suite id is required'')
      else if su_DatasetID u = '''' then Inl (EText ''eval suite dataset_id is required'')
      else if su_Evaluator u \<notin> {EvalEvaluatorRunSucceeded, EvalEvaluatorNodeOutputExact}
      then Inl (EText (''unsupported eval evaluator '' @ quoted (su_Evaluator u)))
      else if su_PassThreshold u < 0 \<or> su_PassThreshold u > 1 then Inl (EText ''eval suite pass_threshold must be between 0 and 1'')
      else if su_Evaluator u = EvalEvaluatorNodeOutputExact \<and> su_TargetNodeID u = ''''
      then Inl (EText (''eval suite target_node_id is required for '' @ su_Evaluator u))
      else Inr (u\<lparr>su_PassThreshold := (if su_PassThreshold u = 0 then 1 else su_PassThreshold u)\<rparr>))"

definition Report_NormalizeAndValidate :: "evalReport \<Rightarrow> engineError + evalReport" where
  "Report_NormalizeAndValidate r0 =
     (let r = r0\<lparr>ep_ID := TrimSpace (ep_ID r0), ep_SuiteID := TrimSpace (ep_SuiteID r0), ep_DatasetID := TrimSpace (ep_DatasetID r0),
                 ep_Status := TrimSpace (ep_Status r0), ep_TargetNodeID := TrimSpace (ep_TargetNodeID r0)\<rparr> in
      if ep_ID r = '''' then Inl (EText ''eval report id is required'')
      else if ep_SuiteID r = '''' then Inl (EText ''eval report suite_id is required'')
      else if ep_DatasetID r = '''' then Inl (EText ''eval report dataset_id is required'')
      else if ep_Status r = '''' then Inl (EText ''eval report status is required'')
      else Inr r)"

section \<open>Documents\<close>

definition evalDatasetKey :: "string \<Rightarrow> string" where "evalDatasetKey i = ''evals/datasets/'' @ TrimSpace i"

definition evalSuiteKey :: "string \<Rightarrow> string" where "evalSuiteKey i = ''evals/suites/'' @ TrimSpace i"

definition evalReportKey :: "string \<Rightarrow> string" where "evalReportKey i = ''evals/reports/'' @ TrimSpace i"

definition upsertIndexID :: "'s storeOps \<Rightarrow> gotime \<Rightarrow> string \<Rightarrow> string \<Rightarrow> 's \<Rightarrow> engineError option \<times> 's" where
  "upsertIndexID ops now indexKey i s =
     (case indexIDs ops indexKey s of
        Inl err \<Rightarrow> (Some err, s)
      | Inr ids \<Rightarrow>
          if TrimSpace i = '''' then (Some (EText ''index id is required''), s)
          else if TrimSpace i \<in> set ids then (None, s)
          else putJSONKV ops now indexKey (DocIDs (sort (ids @ [TrimSpace i]))) s)"

definition GetEvalDataset :: "'s storeOps \<Rightarrow> string \<Rightarrow> 's \<Rightarrow> (engineError + evalDataset) option" where
  "GetEvalDataset ops i s = getJSONKV ops asDataset (evalDatasetKey i) s"

definition GetEvalSuite :: "'s storeOps \<Rightarrow> string \<Rightarrow> 's \<Rightarrow> (engineError + evalSuite) option" where
  "GetEvalSuite ops i s = getJSONKV ops asSuite (evalSuiteKey i) s"

definition GetEvalReport :: "'s storeOps \<Rightarrow> string \<Rightarrow> 's \<Rightarrow> (engineError + evalReport) option" where
  "GetEvalReport ops i s = getJSONKV ops asReport (evalReportKey i) s"

definition putIndexed :: "'s storeOps \<Rightarrow> gotime \<Rightarrow> string \<Rightarrow> kvText \<Rightarrow> string \<Rightarrow> string \<Rightarrow> 's \<Rightarrow> engineError option \<times> 's" where
  "putIndexed ops now key d indexKey i s =
     (case putJSONKV ops now key d s of (Some err, s1) \<Rightarrow> (Some err, s1) | (None, s1) \<Rightarrow> upsertIndexID ops now indexKey i s1)"

definition SaveEvalDataset :: "'s storeOps \<Rightarrow> gotime \<Rightarrow> evalDataset \<Rightarrow> 's \<Rightarrow> engineError option \<times> 's" where
  "SaveEvalDataset ops now d0 s =
     (case Dataset_NormalizeAndValidate d0 of
        Inl err \<Rightarrow> (Some err, s)
      | Inr d \<Rightarrow>
          (case GetEvalDataset ops (ds_ID d) s of
             Some (Inl err) \<Rightarrow> (Some err, s)
           | found \<Rightarrow>
               (let kept = (case found of Some (Inr old) \<Rightarrow> ds_CreatedAt old | _ \<Rightarrow> None);
                    created = (case kept of Some t \<Rightarrow> Some t | None \<Rightarrow> (case ds_CreatedAt d of Some t \<Rightarrow> Some t | None \<Rightarrow> Some now)) in
                putIndexed ops now (evalDatasetKey (ds_ID d)) (DocDataset (d\<lparr>ds_CreatedAt := created, ds_UpdatedAt := Some now\<rparr>))
                  evalDatasetIndexKey (ds_ID d) s)))"

definition SaveEvalSuite :: "'s storeOps \<Rightarrow> gotime \<Rightarrow> evalSuite \<Rightarrow> 's \<Rightarrow> engineError option \<times> 's" where
  "SaveEvalSuite ops now u0 s =
     (case Suite_NormalizeAndValidate u0 of
        Inl err \<Rightarrow> (Some err, s)
      | Inr u \<Rightarrow>
          (case GetEvalDataset ops (su_DatasetID u) s of
             Some (Inl err) \<Rightarrow> (Some err, s)
           | None \<Rightarrow> (Some (EText (''eval dataset '' @ quoted (su_DatasetID u) @ '' not found'')), s)
           | Some (Inr d) \<Rightarrow>
               (case GetEvalSuite ops (su_ID u) s of
                  Some (Inl err) \<Rightarrow> (Some err, s)
                | found \<Rightarrow>
                    (let kept = (case found of Some (Inr old) \<Rightarrow> su_CreatedAt old | _ \<Rightarrow> None);
                         created = (case kept of Some t \<Rightarrow> Some t | None \<Rightarrow> (case su_CreatedAt u of Some t \<Rightarrow> Some t | None \<Rightarrow> Some now)) in
                     putIndexed ops now (evalSuiteKey (su_ID u)) (DocSuite (u\<lparr>su_CreatedAt := created, su_UpdatedAt := Some now\<rparr>))
                       evalSuiteIndexKey (su_ID u) s))))"

definition SaveEvalReport :: "'s storeOps \<Rightarrow> gotime \<Rightarrow> evalReport \<Rightarrow> 's \<Rightarrow> engineError option \<times> 's" where
  "SaveEvalReport ops now r0 s =
     (case Report_NormalizeAndValidate r0 of
        Inl err \<Rightarrow> (Some err, s)
      | Inr r \<Rightarrow> putIndexed ops now (evalReportKey (ep_ID r)) (DocReport r) evalReportIndexKey (ep_ID r) s)"

text \<open>The documents of an index; the first unreadable one ends the listing.\<close>

fun listAll :: "(string \<Rightarrow> (engineError + 'd) option) \<Rightarrow> string list \<Rightarrow> engineError + 'd list" where
  "listAll get [] = Inr []"
| "listAll get (i # is) =
     (case get i of
        Some (Inl err) \<Rightarrow> Inl err
      | found \<Rightarrow>
          (case listAll get is of
             Inl err \<Rightarrow> Inl err
           | Inr out \<Rightarrow> Inr ((case found of Some (Inr d) \<Rightarrow> [d] | _ \<Rightarrow> []) @ out)))"

definition listIndexed :: "'s storeOps \<Rightarrow> string \<Rightarrow> (string \<Rightarrow> 's \<Rightarrow> (engineError + 'd) option) \<Rightarrow> 's \<Rightarrow> engineError + 'd list" where
  "listIndexed ops indexKey get s =
     (case indexIDs ops indexKey s of Inl err \<Rightarrow> Inl err | Inr ids \<Rightarrow> listAll (\<lambda>i. get i s) ids)"

definition ListEvalDatasets :: "'s storeOps \<Rightarrow> 's \<Rightarrow> engineError + evalDataset list" where
  "ListEvalDatasets ops s = listIndexed ops evalDatasetIndexKey (GetEvalDataset ops) s"

definition ListEvalSuites :: "'s storeOps \<Rightarrow> 's \<Rightarrow> engineError + evalSuite list" where
  "ListEvalSuites ops s = listIndexed ops evalSuiteIndexKey (GetEvalSuite ops) s"

text \<open>Reports come newest first, those without a time last, ties by identifier.\<close>

definition ListEvalReports :: "'s storeOps \<Rightarrow> 's \<Rightarrow> engineError + evalReport list" where
  "ListEvalReports ops s =
     map_sum id (sort_key (\<lambda>r. - (case ep_CreatedAt r of Some t \<Rightarrow> t | None \<Rightarrow> 0)) \<circ> sort_key ep_ID)
       (listIndexed ops evalReportIndexKey (GetEvalReport ops) s)"

section \<open>Running a suite\<close>

definition latestNodeOutput :: "nodeExecution list \<Rightarrow> string \<Rightarrow> json option" where
  "latestNodeOutput nodes nodeID =
     (let step = (\<lambda>n (best, out). if ne_NodeID n = nodeID \<and> ne_Status n = NodeStatusSucceeded \<and> ne_Attempt n > best
                                    then (ne_Attempt n, ne_Output n) else (best, out));
          (best, out) = fold step nodes (-1, JNil) in
      if best < 0 then None else Some out)"

definition jsonEqual :: "json \<Rightarrow> json \<Rightarrow> bool" where
  "jsonEqual a b \<longleftrightarrow> a \<noteq> JNil \<and> b \<noteq> JNil \<and> json_ok a \<and> json_ok b \<and> valuesEquivalent a b"

definition firstNonEmpty :: "string list \<Rightarrow> string" where
  "firstNonEmpty vs = (case find (\<lambda>v. v \<noteq> '''') (map TrimSpace vs) of Some v \<Rightarrow> v | None \<Rightarrow> '''')"

definition evalIDChar :: "char \<Rightarrow> char" where
  "evalIDChar c = (if c \<in> set ''/ :.@'' \<or> of_char c \<in> {9, 10, 92 :: nat} then CHR ''-'' else c)"

definition trimDashes :: "string \<Rightarrow> string" where
  "trimDashes s = rev (dropWhile (\<lambda>c. c = CHR ''-'') (rev (dropWhile (\<lambda>c. c = CHR ''-'') s)))"

definition sanitizeEvalRunID :: "string \<Rightarrow> string" where
  "sanitizeEvalRunID s =
     (if TrimSpace s = '''' then ''case''
      else let t = trimDashes (map evalIDChar (TrimSpace s)) in if t = '''' then ''case'' else t)"

definition resolveEvalCaseSpecAndInput :: "'s storeOps \<Rightarrow> evalCase \<Rightarrow> json \<Rightarrow> 's \<Rightarrow> engineError + json \<times> json" where
  "resolveEvalCaseSpecAndInput ops c specOverride s =
     (let src = (if ec_SourceRunID c = '''' then None else so_GetRun ops s (ec_SourceRunID c)) in
      if ec_SourceRunID c \<noteq> '''' \<and> src = None then Inl (EText (''source run '' @ quoted (ec_SourceRunID c) @ '' not found''))
      else
        let spec = (if specOverride \<noteq> JNil then specOverride
                    else if ec_Spec c \<noteq> JNil then ec_Spec c
                    else case src of Some r \<Rightarrow> run_Spec r | None \<Rightarrow> JNil);
            input = (if ec_Input c \<noteq> JNil then ec_Input c
                     else case src of Some r \<Rightarrow> if run_InitialInput r \<noteq> JNil then run_InitialInput r else JObj [] | None \<Rightarrow> JObj []) in
        if spec = JNil then Inl (EText (''eval case '' @ quoted (ec_ID c) @ '' has no workflow spec''))
        else if \<not> json_ok spec then Inl (EText (''eval case '' @ quoted (ec_ID c) @ '' resolved invalid workflow spec''))
        else if \<not> json_ok input then Inl (EText (''eval case '' @ quoted (ec_ID c) @ '' resolved invalid input''))
        else Inr (spec, input))"

definition evalVerdict :: "'s storeOps \<Rightarrow> string \<Rightarrow> evalSuite \<Rightarrow> evalCase \<Rightarrow> evalCaseResult \<Rightarrow> 's \<Rightarrow> evalCaseResult" where
  "evalVerdict ops runID suite c res s =
     (let found = so_GetRun ops s runID; pass = (\<lambda>why r. r\<lparr>er_Passed := True, er_Score := 1, er_Reason := why\<rparr>) in
      if su_Evaluator suite = EvalEvaluatorRunSucceeded then
        (case found of
           Some r \<Rightarrow> if run_Status r = RunStatusSucceeded then pass ''run succeeded'' res
                     else res\<lparr>er_Reason := ''run status='' @ run_Status r\<rparr>
         | None \<Rightarrow> res\<lparr>er_Reason := ''run result unavailable''\<rparr>)
      else if su_Evaluator suite = EvalEvaluatorNodeOutputExact then
        (let target = firstNonEmpty [ec_TargetNodeID c, su_TargetNodeID suite] in
         if target = '''' then res\<lparr>er_Reason := ''target_node_id is required''\<rparr>
         else case latestNodeOutput (so_ListNodeExecutions ops s runID) target of
                None \<Rightarrow> res\<lparr>er_Reason := ''node output not found for '' @ target\<rparr>
              | Some out \<Rightarrow>
                  (let res1 = res\<lparr>er_ActualOutput := out\<rparr> in
                   if ec_ExpectedOutput c = JNil then res1\<lparr>er_Reason := ''expected_output is required''\<rparr>
                   else if jsonEqual (ec_ExpectedOutput c) out then pass ''exact output match'' res1
                   else res1\<lparr>er_Reason := ''output mismatch''\<rparr>))
      else res\<lparr>er_Reason := ''unsupported evaluator '' @ quoted (su_Evaluator suite)\<rparr>)"

text \<open>\<open>errors.Is(err, ErrNodeFailed)\<close>.\<close>

fun isNodeFailed :: "engineError \<Rightarrow> bool" where
  "isNodeFailed (EWrap t e) = isNodeFailed e"
| "isNodeFailed e = (e = ErrNodeFailed)"

definition runEvalCase ::
  "('f, 's) specCall \<Rightarrow> 's toolEnv \<Rightarrow> string \<Rightarrow> evalSuite \<Rightarrow> evalCase \<Rightarrow> json \<Rightarrow> ('f, 's) engine \<Rightarrow> evalCaseResult \<times> ('f, 's) engine" where
  "runEvalCase runSpec env reportID suite c specOverride e =
     (let ops = sx_ops (te_svc env);
          res = \<lparr>er_CaseID = ec_ID c, er_Name = ec_Name c, er_SourceRunID = ec_SourceRunID c, er_RunID = '''', er_RunStatus = '''',
                 er_Passed = False, er_Score = 0, er_Reason = '''', er_TargetNodeID = firstNonEmpty [ec_TargetNodeID c, su_TargetNodeID suite],
                 er_ExpectedOutput = ec_ExpectedOutput c, er_ActualOutput = JNil\<rparr> in
      case resolveEvalCaseSpecAndInput ops c specOverride (snd e) of
        Inl err \<Rightarrow> (res\<lparr>er_Reason := te_errText env err\<rparr>, e)
      | Inr (spec, input) \<Rightarrow>
          (let runID = reportID @ ''-case-'' @ sanitizeEvalRunID (ec_ID c); res1 = res\<lparr>er_RunID := runID\<rparr> in
           case rm_registry (fst e) of
             None \<Rightarrow> (res1\<lparr>er_Reason := ''no handler registry configured on runner''\<rparr>, e)
           | Some reg \<Rightarrow>
               (case runSpec runID spec reg input e of
                  (err, e1) \<Rightarrow>
                    (let res2 = (case so_GetRun ops (snd e1) runID of Some r \<Rightarrow> res1\<lparr>er_RunStatus := run_Status r\<rparr> | None \<Rightarrow> res1) in
                     case err of
                       Some x \<Rightarrow> if \<not> isNodeFailed x then (res2\<lparr>er_Reason := te_errText env x\<rparr>, e1)
                                 else (evalVerdict ops runID suite c res2 (snd e1), e1)
                     | None \<Rightarrow> (evalVerdict ops runID suite c res2 (snd e1), e1)))))"

fun runCases ::
  "('f, 's) specCall \<Rightarrow> 's toolEnv \<Rightarrow> string \<Rightarrow> evalSuite \<Rightarrow> json \<Rightarrow> evalCase list \<Rightarrow> ('f, 's) engine \<Rightarrow> evalCaseResult list \<times> ('f, 's) engine" where
  "runCases runSpec env reportID suite specOverride [] e = ([], e)"
| "runCases runSpec env reportID suite specOverride (c # cs) e =
     (case runEvalCase runSpec env reportID suite c specOverride e of
        (res, e1) \<Rightarrow> (case runCases runSpec env reportID suite specOverride cs e1 of (out, e2) \<Rightarrow> (res # out, e2)))"

definition startReport :: "string \<Rightarrow> evalSuite \<Rightarrow> evalDataset \<Rightarrow> gotime \<Rightarrow> evalReport" where
  "startReport reportID suite dataset now =
     \<lparr>ep_ID = reportID, ep_SuiteID = su_ID suite, ep_DatasetID = ds_ID dataset, ep_Status = ''running'', ep_Evaluator = su_Evaluator suite,
      ep_TargetNodeID = su_TargetNodeID suite, ep_PassThreshold = su_PassThreshold suite, ep_CaseCount = int (length (ds_Cases dataset)),
      ep_PassedCount = 0, ep_PassRate = 0, ep_Passed = False, ep_CreatedAt = Some now, ep_CompletedAt = None, ep_Results = []\<rparr>"

definition completedReport :: "evalReport \<Rightarrow> evalCaseResult list \<Rightarrow> gotime \<Rightarrow> evalReport" where
  "completedReport r results now =
     (let passed = int (length (filter er_Passed results));
          rate = (if ep_CaseCount r > 0 then of_int passed / of_int (ep_CaseCount r) else ep_PassRate r) in
      r\<lparr>ep_Status := ''completed'', ep_Results := results, ep_PassedCount := passed, ep_PassRate := rate,
        ep_Passed := (ep_PassThreshold r \<le> rate), ep_CompletedAt := Some now\<rparr>)"

definition noReport :: evalReport where
  "noReport = \<lparr>ep_ID = '''', ep_SuiteID = '''', ep_DatasetID = '''', ep_Status = '''', ep_Evaluator = '''', ep_TargetNodeID = '''', ep_PassThreshold = 0,
     ep_CaseCount = 0, ep_PassedCount = 0, ep_PassRate = 0, ep_Passed = False, ep_CreatedAt = None, ep_CompletedAt = None, ep_Results = []\<rparr>"

definition RunEvalSuite ::
  "('f, 's) specCall \<Rightarrow> 's toolEnv \<Rightarrow> gotime \<Rightarrow> gotime \<Rightarrow> string \<Rightarrow> string \<Rightarrow> json \<Rightarrow> ('f, 's) engine
     \<Rightarrow> (engineError option \<times> evalReport) \<times> ('f, 's) engine" where
  "RunEvalSuite runSpec env now fin evalRunID suiteID0 specOverride = (\<lambda>(m, s).
     let ops = sx_ops (te_svc env); suiteID = TrimSpace suiteID0 in
     if suiteID = '''' then ((Some (EText ''suite_id is required''), noReport), (m, s))
     else case validateOptionalJSON ''eval run spec_override'' specOverride of
            Some err \<Rightarrow> ((Some err, noReport), (m, s))
          | None \<Rightarrow>
              (case GetEvalSuite ops suiteID s of
                 Some (Inl err) \<Rightarrow> ((Some err, noReport), (m, s))
               | None \<Rightarrow> ((Some (EText (''eval suite '' @ quoted suiteID @ '' not found'')), noReport), (m, s))
               | Some (Inr suite) \<Rightarrow>
                   (case GetEvalDataset ops (su_DatasetID suite) s of
                      Some (Inl err) \<Rightarrow> ((Some err, noReport), (m, s))
                    | None \<Rightarrow> ((Some (EText (''eval dataset '' @ quoted (su_DatasetID suite) @ '' not found'')), noReport), (m, s))
                    | Some (Inr dataset) \<Rightarrow>
                        (let reportID = (if TrimSpace evalRunID = '''' then ''eval-'' @ stamp now else TrimSpace evalRunID);
                             r0 = startReport reportID suite dataset now in
                         case SaveEvalReport ops now r0 s of
                           (Some err, s1) \<Rightarrow> ((Some err, r0), (m, s1))
                         | (None, s1) \<Rightarrow>
                             (case runCases runSpec env reportID suite specOverride (ds_Cases dataset) (m, s1) of
                                (results, (m2, s2)) \<Rightarrow>
                                  let r1 = completedReport r0 results fin in
                                  (case SaveEvalReport ops fin r1 s2 of
                                     (Some err, s3) \<Rightarrow> ((Some err, r1), (m2, s3))
                                   | (None, s3) \<Rightarrow> ((None, r1), (m2, s3))))))))"

section \<open>Cases from runs, promotion\<close>

definition capturedCase :: "string \<Rightarrow> string \<Rightarrow> run \<Rightarrow> string \<Rightarrow> nodeExecution list \<Rightarrow> evalCase" where
  "capturedCase caseID name r nodeID nodes =
     \<lparr>ec_ID = caseID, ec_Name = name, ec_SourceRunID = run_RunID r, ec_Spec = run_Spec r, ec_Input = run_InitialInput r, ec_TargetNodeID = nodeID,
      ec_ExpectedOutput = (if nodeID = '''' then JNil else case latestNodeOutput nodes nodeID of Some out \<Rightarrow> out | None \<Rightarrow> JNil),
      ec_Labels = (let base = [(''captured_from_run'', ''true''), (''source_run_status'', run_Status r)] in
                   if nodeID = '''' then base else mput ''source_node_id'' nodeID base)\<rparr>"

fun replaceCase :: "evalCase \<Rightarrow> evalCase list \<Rightarrow> evalCase list option" where
  "replaceCase c [] = None"
| "replaceCase c (x # xs) = (if ec_ID x = ec_ID c then Some (c # xs) else map_option ((#) x) (replaceCase c xs))"

definition CreateEvalCaseFromRun ::
  "'s storeOps \<Rightarrow> gotime \<Rightarrow> string \<Rightarrow> string \<Rightarrow> string \<Rightarrow> string \<Rightarrow> string \<Rightarrow> 's \<Rightarrow> (engineError + evalDataset \<times> evalCase) \<times> 's" where
  "CreateEvalCaseFromRun ops now datasetID caseID0 name0 runID nodeID0 s =
     (case GetEvalDataset ops datasetID s of
        Some (Inl err) \<Rightarrow> (Inl err, s)
      | None \<Rightarrow> (Inl (EText (''eval dataset '' @ quoted datasetID @ '' not found'')), s)
      | Some (Inr dataset) \<Rightarrow>
          (case so_GetRun ops s (TrimSpace runID) of
             None \<Rightarrow> (Inl (EText (''run '' @ quoted runID @ '' not found'')), s)
           | Some r \<Rightarrow>
               let nodeID = TrimSpace nodeID0;
                   caseID = (if TrimSpace caseID0 \<noteq> '''' then TrimSpace caseID0
                             else ''run-'' @ sanitizeEvalRunID (run_RunID r) @ (if nodeID = '''' then '''' else ''-'' @ sanitizeEvalRunID nodeID));
                   name = (if TrimSpace name0 \<noteq> '''' then TrimSpace name0 else caseID);
                   c = capturedCase caseID name r nodeID (so_ListNodeExecutions ops s (run_RunID r));
                   cases = (case replaceCase c (ds_Cases dataset) of Some cs \<Rightarrow> cs | None \<Rightarrow> sort_key ec_ID (ds_Cases dataset @ [c]));
                   d = dataset\<lparr>ds_Cases := cases\<rparr> in
               (case SaveEvalDataset ops now d s of
                  (Some err, s1) \<Rightarrow> (Inl err, s1)
                | (None, s1) \<Rightarrow> (Inr (d, c), s1))))"

definition GetActiveIndexVersion :: "'s storeOps \<Rightarrow> 's \<Rightarrow> kvText option" where
  "GetActiveIndexVersion ops s = so_GetKV ops s MetaKeyActiveIndexVersion"

definition PromoteIndexVersion :: "'s storeOps \<Rightarrow> gotime \<Rightarrow> string \<Rightarrow> string \<Rightarrow> 's \<Rightarrow> (engineError + string) \<times> 's" where
  "PromoteIndexVersion ops now runID0 version0 s =
     (let runID = TrimSpace runID0; version = (if TrimSpace version0 = '''' then runID else TrimSpace version0) in
      if runID = '''' then (Inl (EText ''promote: run_id required''), s)
      else case so_GetRun ops s runID of
             None \<Rightarrow> (Inl ErrRunNotFound, s)
           | Some r \<Rightarrow>
               if run_Status r \<noteq> RunStatusSucceeded
               then (Inl (EText (''promote: run '' @ runID @ '' status='' @ run_Status r @ '' (need '' @ RunStatusSucceeded @ '')'')), s)
               else case so_PutKV ops now MetaKeyActiveIndexVersion (Plain version) s of
                      (Some err, s1) \<Rightarrow> (Inl err, s1)
                    | (None, s1) \<Rightarrow> (Inr version, s1))"

definition RollbackIndexVersion :: "'s storeOps \<Rightarrow> gotime \<Rightarrow> string \<Rightarrow> 's \<Rightarrow> engineError option \<times> 's" where
  "RollbackIndexVersion ops now version0 s =
     (if TrimSpace version0 = '''' then (Some (EText ''rollback: version required''), s)
      else so_PutKV ops now MetaKeyActiveIndexVersion (Plain (TrimSpace version0)) s)"

definition passingReport :: "'s storeOps \<Rightarrow> string \<Rightarrow> 's \<Rightarrow> engineError + evalReport" where
  "passingReport ops evalRunID s =
     (case GetEvalReport ops evalRunID s of
        Some (Inl err) \<Rightarrow> Inl err
      | None \<Rightarrow> Inl (EText (''eval report '' @ quoted evalRunID @ '' not found''))
      | Some (Inr report) \<Rightarrow>
          if ep_Status report \<noteq> ''completed''
          then Inl (EText (''eval report '' @ quoted evalRunID @ '' status='' @ ep_Status report @ '' (need completed)''))
          else Inr report)"

definition PromoteRunWithEvalGate :: "'s storeOps \<Rightarrow> gotime \<Rightarrow> string \<Rightarrow> string \<Rightarrow> string \<Rightarrow> 's \<Rightarrow> (engineError + string) \<times> 's" where
  "PromoteRunWithEvalGate ops now evalRunID runID version s =
     (case passingReport ops evalRunID s of
        Inl err \<Rightarrow> (Inl err, s)
      | Inr report \<Rightarrow>
          if \<not> ep_Passed report then (Inl (EText (''eval report '' @ quoted evalRunID @ '' did not pass promotion gate'')), s)
          else PromoteIndexVersion ops now runID version s)"


section \<open>What a run of a suite reports\<close>

lemma cases_named: "map er_CaseID (fst (runCases runSpec env reportID suite ov cs e)) = map ec_ID cs"
proof (induction cs arbitrary: e)
  case (Cons c cs)
  have "er_CaseID (fst (runEvalCase runSpec env reportID suite c ov e)) = ec_ID c"
    by (auto simp: runEvalCase_def evalVerdict_def Let_def split: sum.splits option.splits prod.splits)
  with Cons show ?case by (simp split: prod.split) (metis fst_conv)
qed simp

lemma case_passed:
  assumes "runEvalCase runSpec env reportID suite c ov e = (res, e1)" "er_Passed res"
  shows "er_RunID res = reportID @ ''-case-'' @ sanitizeEvalRunID (ec_ID c)"
    and "su_Evaluator suite = EvalEvaluatorRunSucceeded \<Longrightarrow>
      \<exists>r. so_GetRun (sx_ops (te_svc env)) (snd e1) (er_RunID res) = Some r \<and> run_Status r = RunStatusSucceeded"
    and "su_Evaluator suite = EvalEvaluatorNodeOutputExact \<Longrightarrow>
      \<exists>out. latestNodeOutput (so_ListNodeExecutions (sx_ops (te_svc env)) (snd e1) (er_RunID res)) (er_TargetNodeID res) = Some out \<and>
        jsonEqual (ec_ExpectedOutput c) out"
    and "su_Evaluator suite \<in> {EvalEvaluatorRunSucceeded, EvalEvaluatorNodeOutputExact}"
  using assms by (auto simp: runEvalCase_def evalVerdict_def Let_def split: sum.splits option.splits prod.splits if_splits)

text \<open>The report as it is counted: a result per case, and passed when enough of them passed.\<close>

definition report_exact :: "evalReport \<Rightarrow> evalSuite \<Rightarrow> evalDataset \<Rightarrow> bool" where
  "report_exact r suite d \<longleftrightarrow> ep_Status r = ''completed'' \<and> map er_CaseID (ep_Results r) = map ec_ID (ds_Cases d) \<and>
     ep_CaseCount r = int (length (ep_Results r)) \<and> ep_PassedCount r = int (length (filter er_Passed (ep_Results r))) \<and>
     (ep_Passed r \<longleftrightarrow> (if ds_Cases d = [] then su_PassThreshold suite \<le> 0
                     else su_PassThreshold suite * of_int (ep_CaseCount r) \<le> of_int (ep_PassedCount r)))"

lemma completed_exact:
  assumes "map er_CaseID results = map ec_ID (ds_Cases d)"
  shows "report_exact (completedReport (startReport i suite d now) results fin) suite d"
proof -
  have "length results = length (ds_Cases d)" using assms by (metis length_map)
  then show ?thesis using assms by (auto simp: report_exact_def completedReport_def startReport_def Let_def pos_le_divide_eq)
qed

context store_contract
begin

lemma put_indexed:
  assumes "sinv s" "putIndexed ops now key d indexKey i s = (err, s')"
  shows "sinv s'" "err = None \<Longrightarrow> TrimSpace key \<noteq> TrimSpace indexKey \<Longrightarrow> so_GetKV ops s' key = Some d"
proof -
  obtain e1 s1 where p1: "putJSONKV ops now key d s = (e1, s1)" by fastforce
  note a = put_doc(1) [OF assms(1) p1]
  have shape: "s' = s1 \<or> (\<exists>ids e2. putJSONKV ops now indexKey (DocIDs ids) s1 = (e2, s'))" "err = None \<longrightarrow> e1 = None"
    using assms(2) by (auto simp: putIndexed_def p1 upsertIndexID_def split: option.splits sum.splits if_splits)
  show "sinv s'" using shape(1) a put_doc(1) by blast
  show "so_GetKV ops s' key = Some d" if "err = None" "TrimSpace key \<noteq> TrimSpace indexKey"
    using shape that put_doc(3) [OF assms(1) p1, of key] put_doc(4) [OF a, of now indexKey] by metis
qed

lemma cases_keep:
  assumes "\<And>i j reg x e. sinv (snd e) \<Longrightarrow> sinv (snd (snd (runSpec i j reg x e)))" "sinv (snd e)"
  shows "sinv (snd (snd (runCases runSpec env reportID suite ov cs e)))"
  using assms(2)
proof (induction cs arbitrary: e)
  case (Cons c cs)
  have "sinv (snd (snd (runEvalCase runSpec env reportID suite c ov e)))"
  proof -
    have "snd (runEvalCase runSpec env reportID suite c ov e) \<in> {e} \<union> {snd (runSpec i j reg x e) | i j reg x. True}"
      by (auto simp: runEvalCase_def Let_def split: sum.splits option.splits prod.splits) (metis snd_conv)+
    then show ?thesis using Cons.prems assms(1) by fastforce
  qed
  with Cons.IH show ?case by (simp split: prod.split) (metis snd_conv)
qed simp

end


lemma run_suite_success:
  assumes "RunEvalSuite runSpec env now fin evalRunID suiteID ov (m, s) = ((None, r), (m', s'))"
  obtains suite d reportID s1 s2 results where "GetEvalSuite (sx_ops (te_svc env)) (TrimSpace suiteID) s = Some (Inr suite)"
    "GetEvalDataset (sx_ops (te_svc env)) (su_DatasetID suite) s = Some (Inr d)"
    "reportID = (if TrimSpace evalRunID = '''' then ''eval-'' @ stamp now else TrimSpace evalRunID)"
    "SaveEvalReport (sx_ops (te_svc env)) now (startReport reportID suite d now) s = (None, s1)"
    "runCases runSpec env reportID suite ov (ds_Cases d) (m, s1) = (results, (m', s2))"
    "r = completedReport (startReport reportID suite d now) results fin" "SaveEvalReport (sx_ops (te_svc env)) fin r s2 = (None, s')"
proof -
  let ?ops = "sx_ops (te_svc env)"
  define i where "i = (if TrimSpace evalRunID = '''' then ''eval-'' @ stamp now else TrimSpace evalRunID)"
  note run = assms [unfolded RunEvalSuite_def Let_def, folded i_def]
  obtain suite where su: "GetEvalSuite ?ops (TrimSpace suiteID) s = Some (Inr suite)"
    using run by (auto split: if_splits option.splits sum.splits)
  obtain d where d: "GetEvalDataset ?ops (su_DatasetID suite) s = Some (Inr d)"
    using run by (auto simp: su split: if_splits option.splits sum.splits)
  obtain s1 where s1: "SaveEvalReport ?ops now (startReport i suite d now) s = (None, s1)"
    using run by (auto simp: su d split: if_splits option.splits prod.splits)
  obtain results m2 s2 where rs: "runCases runSpec env i suite ov (ds_Cases d) (m, s1) = (results, (m2, s2))" by (metis surj_pair)
  have "m2 = m' \<and> r = completedReport (startReport i suite d now) results fin \<and> SaveEvalReport ?ops fin r s2 = (None, s')"
    using run by (auto simp: su d s1 rs split: if_splits option.splits prod.splits)
  with that [OF su d i_def s1] rs show thesis by blast
qed

lemma report_key: "TrimSpace i \<noteq> '''' \<Longrightarrow> TrimSpace (evalReportKey i) = evalReportKey i"
  unfolding evalReportKey_def by (rule TrimSpace_prefixed) (simp_all add: is_space_def)

context store_contract
begin

lemma save_report:
  assumes "sinv s" "SaveEvalReport ops now r s = (err, s')"
  shows "sinv s'" "err = None \<Longrightarrow> TrimSpace (ep_ID r) \<noteq> ''index'' \<Longrightarrow>
    \<exists>x. Report_NormalizeAndValidate r = Inr x \<and> GetEvalReport ops (ep_ID r) s' = Some (Inr x)"
proof -
  show "sinv s'" using assms put_indexed(1) by (auto simp: SaveEvalReport_def split: sum.splits)
  show "\<exists>x. Report_NormalizeAndValidate r = Inr x \<and> GetEvalReport ops (ep_ID r) s' = Some (Inr x)"
    if e: "err = None" "TrimSpace (ep_ID r) \<noteq> ''index''"
  proof -
    obtain x where x: "Report_NormalizeAndValidate r = Inr x"
      and p: "putIndexed ops now (evalReportKey (ep_ID x)) (DocReport x) evalReportIndexKey (ep_ID x) s = (None, s')"
      using assms(2) e(1) by (auto simp: SaveEvalReport_def split: sum.splits)
    have i: "ep_ID x = TrimSpace (ep_ID r)" "TrimSpace (ep_ID r) \<noteq> ''''"
      using x by (auto simp: Report_NormalizeAndValidate_def Let_def split: if_splits)
    have "TrimSpace evalReportIndexKey = evalReportIndexKey" by code_simp
    then have "TrimSpace (evalReportKey (ep_ID x)) \<noteq> TrimSpace evalReportIndexKey"
      using i e(2) report_key [of "ep_ID x"] by (simp add: evalReportKey_def)
    from put_indexed(2) [OF assms(1) p refl this] show ?thesis
      using x i by (simp add: GetEvalReport_def getJSONKV_def evalReportKey_def asReport_def)
  qed
qed

lemma run_suite_keeps:
  assumes "sx_ops (te_svc env) = ops" "\<And>i j reg x e. sinv (snd e) \<Longrightarrow> sinv (snd (snd (runSpec i j reg x e)))" "sinv s"
    and "RunEvalSuite runSpec env now fin evalRunID suiteID ov (m, s) = ((None, r), (m', s'))"
  shows "sinv s'"
proof -
  obtain suite d reportID s1 s2 results where s1: "SaveEvalReport ops now (startReport reportID suite d now) s = (None, s1)"
    and c: "runCases runSpec env reportID suite ov (ds_Cases d) (m, s1) = (results, (m', s2))" and s2: "SaveEvalReport ops fin r s2 = (None, s')"
    using run_suite_success [OF assms(4)] assms(1) by metis
  have "sinv s1" by (rule save_report(1) [OF assms(3) s1])
  then have "sinv s2" using cases_keep [of runSpec "(m, s1)" env reportID suite ov "ds_Cases d"] assms(2) c by simp
  then show ?thesis by (rule save_report(1) [OF _ s2])
qed

end

section \<open>Properties\<close>

text \<open>C38. A report says what happened: when \<open>RunEvalSuite\<close> returns without an error, the report has one result per
  case of the suite's dataset, in the dataset's order, its counts are the counts of those results, it
  passed exactly when the share of passed cases reaches the suite's threshold (an empty dataset
  reaches only a threshold of zero), and that report, trimmed, is what the store holds under its
  identifier.  Running a case may do anything to the store that keeps the store's contract.\<close>

theorem eval_report_exact:
  assumes "store_contract ops sinv" "sx_ops (te_svc env) = ops" "\<And>i j reg x e. sinv (snd e) \<Longrightarrow> sinv (snd (snd (runSpec i j reg x e)))" "sinv s"
    and "RunEvalSuite runSpec env now fin evalRunID suiteID ov (m, s) = ((None, r), (m', s'))" "TrimSpace (ep_ID r) \<noteq> ''index''"
  shows "sinv s' \<and> (\<exists>suite d x. GetEvalSuite ops (TrimSpace suiteID) s = Some (Inr suite) \<and>
    GetEvalDataset ops (su_DatasetID suite) s = Some (Inr d) \<and> report_exact r suite d \<and>
    Report_NormalizeAndValidate r = Inr x \<and> GetEvalReport ops (ep_ID r) s' = Some (Inr x))"
proof -
  obtain suite d reportID s1 s2 results where g: "GetEvalSuite ops (TrimSpace suiteID) s = Some (Inr suite)"
    "GetEvalDataset ops (su_DatasetID suite) s = Some (Inr d)"
    and s1: "SaveEvalReport ops now (startReport reportID suite d now) s = (None, s1)"
    and c: "runCases runSpec env reportID suite ov (ds_Cases d) (m, s1) = (results, (m', s2))"
    and r: "r = completedReport (startReport reportID suite d now) results fin" and s2: "SaveEvalReport ops fin r s2 = (None, s')"
    using run_suite_success [OF assms(5)] assms(2) by metis
  have "sinv s1" using store_contract.save_report(1) [OF assms(1,4) s1] .
  then have "sinv s2" using store_contract.cases_keep [OF assms(1), of runSpec "(m, s1)" env reportID suite ov "ds_Cases d"] assms(3) c by simp
  note saved = store_contract.save_report [OF assms(1) this s2]
  have "report_exact r suite d"
    unfolding r using cases_named [of runSpec env reportID suite ov "ds_Cases d" "(m, s1)"] c by (intro completed_exact) simp
  with g saved assms(6) show ?thesis by auto
qed

text \<open>The evaluation gate: if \<open>PromoteRunWithEvalGate\<close> returns a version or changes the active version at all
  (also when the store fails after it has taken the value), then the store held a report under the
  given identifier that is completed and passed, and the given run, succeeded; the active version is
  then the one asked for (the run's identifier when none was given), it is the one returned, and
  in no case did anything but the active version change.\<close>

theorem promotion_needs_passing_eval:
  assumes "store_contract ops sinv" "sinv s" "PromoteRunWithEvalGate ops now evalRunID runID version s = (res, s')"
    and "\<not> isl res \<or> GetActiveIndexVersion ops s' \<noteq> GetActiveIndexVersion ops s"
  shows "\<exists>r x v. GetEvalReport ops evalRunID s = Some (Inr r) \<and> ep_Status r = ''completed'' \<and> ep_Passed r \<and>
    so_GetRun ops s (TrimSpace runID) = Some x \<and> run_Status x = RunStatusSucceeded \<and>
    v = (if TrimSpace version = '''' then TrimSpace runID else TrimSpace version) \<and> GetActiveIndexVersion ops s' = Some (Plain v) \<and>
    res \<in> range Inl \<union> {Inr v} \<and> sinv s' \<and> kv_moves ops (\<lambda>k. k = MetaKeyActiveIndexVersion) s s'"
proof -
  have k: "TrimSpace MetaKeyActiveIndexVersion = MetaKeyActiveIndexVersion" by code_simp
  define v where "v = (if TrimSpace version = '''' then TrimSpace runID else TrimSpace version)"
  obtain r where r: "GetEvalReport ops evalRunID s = Some (Inr r)" "ep_Status r = ''completed''" "ep_Passed r"
    using assms(3,4) by (auto simp: PromoteRunWithEvalGate_def passingReport_def split: sum.splits option.splits if_splits)
  have p: "PromoteIndexVersion ops now runID version s = (res, s')"
    using assms(3) r by (simp add: PromoteRunWithEvalGate_def passingReport_def)
  obtain x e where x: "so_GetRun ops s (TrimSpace runID) = Some x" "run_Status x = RunStatusSucceeded"
    and w: "so_PutKV ops now MetaKeyActiveIndexVersion (Plain v) s = (e, s')" "res = (case e of Some err \<Rightarrow> Inl err | None \<Rightarrow> Inr v)"
    using p assms(4) unfolding PromoteIndexVersion_def Let_def v_def [symmetric] by (auto split: option.splits if_splits prod.splits)
  have "sinv s' \<and> (view ops s' = view ops s \<and> e \<noteq> None \<or> view ops s' = put_kv MetaKeyActiveIndexVersion (Plain v) (view ops s))"
    using w(1) store_contract.kv_ok [OF assms(1,2)] store_contract.kv_err [OF assms(1,2)] by (cases e) blast+
  then have s': "sinv s'" "view ops s' = put_kv MetaKeyActiveIndexVersion (Plain v) (view ops s)"
    using assms(4) w(2) view_get(1) [of ops s' s] by (auto simp: GetActiveIndexVersion_def)
  have "GetActiveIndexVersion ops s' = Some (Plain v)" "kv_moves ops (\<lambda>k. k = MetaKeyActiveIndexVersion) s s'"
    using view_get(2) [OF s'(2)] kv_moves_put [of ops s' s MetaKeyActiveIndexVersion "Plain v"] s'(2) k by (simp_all add: GetActiveIndexVersion_def)
  with r x s'(1) w(2) v_def show ?thesis by (cases e) auto
qed


definition one_case :: evalCase where
  "one_case = \<lparr>ec_ID = ''c.1'', ec_Name = '''', ec_SourceRunID = '''', ec_Spec = JObj [], ec_Input = JNil, ec_TargetNodeID = '''', ec_ExpectedOutput = JNil,
     ec_Labels = []\<rparr>"

definition one_dataset :: evalDataset where
  "one_dataset = \<lparr>ds_ID = ''d'', ds_Name = '''', ds_Description = '''', ds_Cases = [one_case], ds_CreatedAt = Some 1, ds_UpdatedAt = Some 1\<rparr>"

definition one_suite :: evalSuite where
  "one_suite = \<lparr>su_ID = ''u'', su_Name = '''', su_Description = '''', su_DatasetID = ''d'', su_Evaluator = EvalEvaluatorRunSucceeded,
     su_TargetNodeID = '''', su_PassThreshold = 1, su_CreatedAt = Some 1, su_UpdatedAt = Some 1\<rparr>"

definition eval_store :: memStore where
  "eval_store = NewMemoryStore\<lparr>ms_runs := [(''ev-case-c-1'', waiting_run\<lparr>run_RunID := ''ev-case-c-1'', run_Status := RunStatusSucceeded\<rparr>)],
     ms_kv := [(''evals/suites/u'', DocSuite one_suite), (''evals/datasets/d'', DocDataset one_dataset)]\<rparr>"

definition ran :: "(nat, memStore) specCall" where
  "ran i j reg x e = (None, e)"

definition eval_run :: "(engineError option \<times> evalReport) \<times> (nat, memStore) engine" where
  "eval_run = RunEvalSuite ran demo_toolEnv 5 6 ''ev'' ''u'' JNil (clean_mem\<lparr>rm_registry := Some NewHandlerRegistry\<rparr>, eval_store)"

lemma eval_run_summary:
  "(case eval_run of ((err, r), (m, s)) \<Rightarrow> (err, ep_ID r, ep_PassedCount r, isl (fst (PromoteRunWithEvalGate memOps 7 ''ev'' ''ev-case-c-1'' '''' s)))) =
    (None, ''ev'', 1, False)"
  by code_simp

lemma eval_run_values:
  "fst (fst eval_run) = None" "ep_ID (snd (fst eval_run)) = ''ev''" "ep_PassedCount (snd (fst eval_run)) = 1"
  "\<not> isl (fst (PromoteRunWithEvalGate memOps 7 ''ev'' ''ev-case-c-1'' '''' (snd (snd eval_run))))"
  using eval_run_summary by (simp_all add: case_prod_unfold)

lemma eval_inv: "mem_inv eval_store"
  by (auto simp: mem_inv_def eval_store_def NewMemoryStore_def ListEvents_def waiting_run_def Run_Validate_def mwf_def RunStatus_Valid_def)

lemma eval_ran:
  "\<exists>r m s. eval_run = ((None, r), (m, s)) \<and> TrimSpace (ep_ID r) \<noteq> ''index'' \<and> ep_PassedCount r = 1"
proof -
  have "TrimSpace ''ev'' \<noteq> ''index''" by code_simp
  moreover have "eval_run = ((None, snd (fst eval_run)), (fst (snd eval_run), snd (snd eval_run)))"
    using eval_run_values(1) by (metis prod.collapse)
  ultimately show ?thesis using eval_run_values(2,3) by metis
qed

lemma eval_kept: "mem_inv (snd (snd eval_run))"
proof -
  obtain r m s where e: "RunEvalSuite ran demo_toolEnv 5 6 ''ev'' ''u'' JNil (clean_mem\<lparr>rm_registry := Some NewHandlerRegistry\<rparr>, eval_store) = ((None, r), (m, s))"
    using eval_ran unfolding eval_run_def by blast
  have ops: "sx_ops (te_svc demo_toolEnv) = memOps" by (simp add: demo_toolEnv_def memSvc_ops)
  have "mem_inv (snd (snd (ran i j reg x e)))" if "mem_inv (snd e)" for i j reg x e using that by (simp add: ran_def)
  from mem.run_suite_keeps [OF ops this eval_inv e] e show ?thesis by (simp add: eval_run_def)
qed

theorem eval_report_exact_witness:
  "\<exists>r m s x. RunEvalSuite ran demo_toolEnv 5 6 ''ev'' ''u'' JNil (clean_mem\<lparr>rm_registry := Some NewHandlerRegistry\<rparr>, eval_store) = ((None, r), (m, s)) \<and>
    ep_PassedCount r = 1 \<and> GetEvalReport memOps (ep_ID r) s = Some (Inr x) \<and> Report_NormalizeAndValidate r = Inr x"
proof -
  obtain r m s where e: "RunEvalSuite ran demo_toolEnv 5 6 ''ev'' ''u'' JNil (clean_mem\<lparr>rm_registry := Some NewHandlerRegistry\<rparr>, eval_store) = ((None, r), (m, s))"
    "TrimSpace (ep_ID r) \<noteq> ''index''" "ep_PassedCount r = 1"
    using eval_ran unfolding eval_run_def by blast
  have ops: "sx_ops (te_svc demo_toolEnv) = memOps" by (simp add: demo_toolEnv_def memSvc_ops)
  have "mem_inv (snd (snd (ran i j reg x e)))" if "mem_inv (snd e)" for i j reg x e using that by (simp add: ran_def)
  from eval_report_exact [OF mem.store_contract_axioms ops this eval_inv e(1,2)] e show ?thesis by blast
qed

theorem promotion_needs_passing_eval_witness:
  "\<exists>r x. GetEvalReport memOps ''ev'' (snd (snd eval_run)) = Some (Inr r) \<and> ep_Passed r \<and>
    so_GetRun memOps (snd (snd eval_run)) ''ev-case-c-1'' = Some x \<and> run_Status x = RunStatusSucceeded"
proof -
  obtain res s' where p: "PromoteRunWithEvalGate memOps 7 ''ev'' ''ev-case-c-1'' '''' (snd (snd eval_run)) = (res, s')" by fastforce
  have "\<not> isl res" using eval_run_values(4) p by simp
  moreover have "mem_inv (snd (snd eval_run))" using eval_kept by simp
  moreover have "TrimSpace ''ev-case-c-1'' = ''ev-case-c-1''" by code_simp
  ultimately show ?thesis using promotion_needs_passing_eval [OF mem.store_contract_axioms _ p] by fastforce
qed

end
