(* ===== verification/Releases.thy ===== *)
theory Releases
  imports Evals "HOL-Library.Word"
begin

text \<open>
  Releases of workflows (\<^verbatim>\<open>internal/engine/workflow_releases.go\<close>): versions with snapshots of the policies they
  were made under, a channel per workflow and environment that names the active, previous, canary
  and shadow versions, promotion, rollback, the choice of a version for a run, and the evaluation
  gate of a canary.

  The scheduler is a parameter of \<open>RunWorkflowRelease\<close>; the shadow runs it launches in goroutines are
  returned as a list, each with its context.
\<close>

unbundle bit_operations_syntax

abbreviation WorkflowEnvironmentStaging :: string where "WorkflowEnvironmentStaging \<equiv> ''staging''"
abbreviation WorkflowEnvironmentProd :: string where "WorkflowEnvironmentProd \<equiv> ''prod''"

record releaseResolution =
  rx_WorkflowID :: string
  rx_Environment :: string
  rx_PrimaryVersionID :: string
  rx_ShadowVersionIDs :: "string list"
  rx_Canary :: bool
  rx_Reason :: string

record releaseDiffDetail =
  dd_Changed :: bool
  dd_From :: json
  dd_To :: json

section \<open>Keys and validation\<close>

definition workflowReleaseVersionKey :: "string \<Rightarrow> string" where
  "workflowReleaseVersionKey i = ''workflow_releases/versions/'' @ TrimSpace i"

definition workflowReleaseVersionIndexKey :: "string \<Rightarrow> string" where
  "workflowReleaseVersionIndexKey workflowID = ''workflow_releases/versions/by_workflow/'' @ TrimSpace workflowID"

definition workflowReleaseChannelKey :: "string \<Rightarrow> string \<Rightarrow> string" where
  "workflowReleaseChannelKey workflowID env = ''workflow_releases/channels/'' @ TrimSpace workflowID @ ''/'' @ TrimSpace env"

definition normalizeWorkflowEnvironment :: "string \<Rightarrow> engineError + string" where
  "normalizeWorkflowEnvironment env0 =
     (let env = ToLower (TrimSpace env0) in
      if env \<in> {WorkflowEnvironmentStaging, WorkflowEnvironmentProd} then Inr env
      else Inl (EText (''invalid environment '' @ quoted env)))"

definition wrapErr :: "string \<Rightarrow> engineError + 'a \<Rightarrow> engineError + 'a" where
  "wrapErr pre r = map_sum (EWrap pre) id r"

definition optNormalize :: "('a \<Rightarrow> engineError + 'a) \<Rightarrow> 'a option \<Rightarrow> engineError + 'a option" where
  "optNormalize f x = (case x of None \<Rightarrow> Inr None | Some a \<Rightarrow> map_sum id Some (f a))"

definition Version_NormalizeAndValidate :: "gotime \<Rightarrow> releaseVersion \<Rightarrow> engineError + releaseVersion" where
  "Version_NormalizeAndValidate now v0 =
     (let v = v0\<lparr>rv_ID := TrimSpace (rv_ID v0), rv_WorkflowID := TrimSpace (rv_WorkflowID v0), rv_SourceRunID := TrimSpace (rv_SourceRunID v0),
                 rv_EvalRunID := TrimSpace (rv_EvalRunID v0)\<rparr> in
      if rv_ID v = '''' then Inl (EText ''workflow release version id is required'')
      else if rv_Spec v = JNil then Inl (EText ''workflow release version spec is required'')
      else case (ParseWorkflowSpecJSON (rv_Spec v) :: engineError + (unit workflowGraph \<times> workflowSpec)) of
             Inl err \<Rightarrow> Inl (EWrap ''workflow release version spec invalid: '' err)
           | Inr (g, spec) \<Rightarrow>
               (let specID = TrimSpace (wg_ID g); wfl = (if rv_WorkflowID v = '''' then specID else rv_WorkflowID v) in
                if wfl = '''' then Inl (EText ''workflow release workflow_id is required'')
                else if specID \<noteq> '''' \<and> specID \<noteq> wfl
                then Inl (EText (''workflow release workflow_id '' @ quoted wfl @ '' does not match spec id '' @ quoted specID))
                else case wrapErr ''tool gateway snapshot invalid: ''
                       (optNormalize (ToolBundle_NormalizeAndValidate now \<circ> cloneToolGatewayBundle) (rv_ToolGateway v)) of
                       Inl err \<Rightarrow> Inl err
                     | Inr tools \<Rightarrow>
                         (case wrapErr ''authorization snapshot invalid: '' (optNormalize Bundle_NormalizeAndValidate (rv_Authorization v)) of
                            Inl err \<Rightarrow> Inl err
                          | Inr rules \<Rightarrow>
                              (case wrapErr ''risk snapshot invalid: '' (optNormalize RiskPolicy_NormalizeAndValidate (rv_Risk v)) of
                                 Inl err \<Rightarrow> Inl err
                               | Inr risk \<Rightarrow>
                                   Inr (v\<lparr>rv_WorkflowID := wfl, rv_ToolGateway := tools, rv_Authorization := rules, rv_Risk := risk,
                                          rv_CreatedAt := (case rv_CreatedAt v of Some t \<Rightarrow> if IsZero t then Some now else Some t | None \<Rightarrow> Some now),
                                          rv_UpdatedAt := Some now\<rparr>)))))"

definition Channel_NormalizeAndValidate :: "gotime \<Rightarrow> releaseChannel \<Rightarrow> engineError + releaseChannel" where
  "Channel_NormalizeAndValidate now c =
     (if TrimSpace (rc_WorkflowID c) = '''' then Inl (EText ''workflow_id is required'')
      else case normalizeWorkflowEnvironment (rc_Environment c) of
             Inl err \<Rightarrow> Inl err
           | Inr env \<Rightarrow>
               if rc_CanaryPercent c < 0 \<or> rc_CanaryPercent c > 100 then Inl (EText ''canary_percent must be between 0 and 100'')
               else Inr (c\<lparr>rc_WorkflowID := TrimSpace (rc_WorkflowID c), rc_Environment := env, rc_ActiveVersionID := TrimSpace (rc_ActiveVersionID c),
                           rc_PreviousVersionID := TrimSpace (rc_PreviousVersionID c), rc_CanaryVersionID := TrimSpace (rc_CanaryVersionID c),
                           rc_LastEvalRunID := TrimSpace (rc_LastEvalRunID c),
                           rc_CanaryPercent := (if TrimSpace (rc_CanaryVersionID c) = '''' then 0 else rc_CanaryPercent c),
                           rc_ShadowVersionIDs := dedupeSortedStrings (rc_ShadowVersionIDs c),
                           rc_CreatedAt := (case rc_CreatedAt c of Some t \<Rightarrow> if IsZero t then Some now else Some t | None \<Rightarrow> Some now),
                           rc_UpdatedAt := Some now\<rparr>))"

definition cloneWorkflowReleaseVersion :: "releaseVersion \<Rightarrow> releaseVersion" where
  "cloneWorkflowReleaseVersion v =
     v\<lparr>rv_ID := TrimSpace (rv_ID v), rv_WorkflowID := TrimSpace (rv_WorkflowID v), rv_SourceRunID := TrimSpace (rv_SourceRunID v),
       rv_EvalRunID := TrimSpace (rv_EvalRunID v), rv_ToolGateway := map_option cloneToolGatewayBundle (rv_ToolGateway v)\<rparr>"

definition cloneWorkflowReleaseChannel :: "releaseChannel \<Rightarrow> releaseChannel" where
  "cloneWorkflowReleaseChannel c =
     c\<lparr>rc_WorkflowID := TrimSpace (rc_WorkflowID c), rc_Environment := TrimSpace (rc_Environment c), rc_ActiveVersionID := TrimSpace (rc_ActiveVersionID c),
       rc_PreviousVersionID := TrimSpace (rc_PreviousVersionID c), rc_CanaryVersionID := TrimSpace (rc_CanaryVersionID c),
       rc_LastEvalRunID := TrimSpace (rc_LastEvalRunID c)\<rparr>"

section \<open>Versions\<close>

text \<open>A version without snapshots takes those of the policies in force.\<close>

definition withSnapshots :: "'s svcEnv \<Rightarrow> gotime \<Rightarrow> releaseVersion \<Rightarrow> ('f, 's) engine \<Rightarrow> releaseVersion \<times> ('f, 's) engine" where
  "withSnapshots env now v e =
     (let (v1, e1) = (if rv_ToolGateway v \<noteq> None then (v, e)
            else case GetToolGatewayBundle env now e of
                   (Inr (Some b), e1) \<Rightarrow> (v\<lparr>rv_ToolGateway := Some (cloneToolGatewayBundle b)\<rparr>, e1)
                 | (_, e1) \<Rightarrow> (v, e1));
          (v2, e2) = (if rv_Authorization v1 \<noteq> None then (v1, e1)
            else case GetAuthorizationPolicy env e1 of (Inr (Some b), e2) \<Rightarrow> (v1\<lparr>rv_Authorization := Some b\<rparr>, e2) | (_, e2) \<Rightarrow> (v1, e2))
      in if rv_Risk v2 \<noteq> None then (v2, e2)
         else case GetRiskPolicy env e2 of (Inr (Some p), e3) \<Rightarrow> (v2\<lparr>rv_Risk := Some p\<rparr>, e3) | (_, e3) \<Rightarrow> (v2, e3))"

definition SaveWorkflowReleaseVersion :: "'s svcEnv \<Rightarrow> gotime \<Rightarrow> releaseVersion \<Rightarrow> ('f, 's) engine \<Rightarrow> engineError option \<times> ('f, 's) engine" where
  "SaveWorkflowReleaseVersion env now v0 e =
     (case withSnapshots env now v0 e of
        (v1, (m, s)) \<Rightarrow>
          (case Version_NormalizeAndValidate now v1 of
             Inl err \<Rightarrow> (Some err, (m, s))
           | Inr v \<Rightarrow>
               (case putIndexed (sx_ops env) now (workflowReleaseVersionKey (rv_ID v)) (DocRelease v)
                   (workflowReleaseVersionIndexKey (rv_WorkflowID v)) (rv_ID v) s of
                  (Some err, s1) \<Rightarrow> (Some err, (m, s1))
                | (None, s1) \<Rightarrow>
                    (None, (m, appendAuditRecord env \<lparr>cx_Tenant = '''', cx_Principal = None\<rparr> now
                       (auditNote '''' '''' ''workflow_release.version.save'' ''workflow_release_version'' (rv_ID v) '''' (rv_WorkflowID v)
                          AuditOutcomeAllowed ''workflow release version saved'') s1)))))"

definition GetWorkflowReleaseVersion :: "'s storeOps \<Rightarrow> string \<Rightarrow> 's \<Rightarrow> (engineError + releaseVersion) option" where
  "GetWorkflowReleaseVersion ops i s =
     (if TrimSpace i = '''' then None
      else map_option (map_sum id cloneWorkflowReleaseVersion) (getJSONKV ops asRelease (workflowReleaseVersionKey (TrimSpace i)) s))"

text \<open>Versions come oldest first, ties by identifier; every stored version has a time of creation.\<close>

definition ListWorkflowReleaseVersions :: "'s storeOps \<Rightarrow> string \<Rightarrow> 's \<Rightarrow> engineError + releaseVersion list" where
  "ListWorkflowReleaseVersions ops workflowID s =
     (if TrimSpace workflowID = '''' then Inl (EText ''workflow_id is required'')
      else case indexIDs ops (workflowReleaseVersionIndexKey workflowID) s of
             Inl err \<Rightarrow> Inl err
           | Inr ids \<Rightarrow>
               Inr (sort_key (\<lambda>v. case rv_CreatedAt v of Some t \<Rightarrow> t | None \<Rightarrow> 0)
                 (sort_key rv_ID (List.map_filter (\<lambda>i. case GetWorkflowReleaseVersion ops i s of Some (Inr v) \<Rightarrow> Some v | _ \<Rightarrow> None) ids))))"

section \<open>Channels\<close>

text \<open>A version that must exist and belong to a workflow; \<open>shown\<close> is how the error names the workflow.\<close>

definition versionOf :: "'s storeOps \<Rightarrow> string \<Rightarrow> string \<Rightarrow> string \<Rightarrow> 's \<Rightarrow> engineError + releaseVersion" where
  "versionOf ops workflowID shown versionID s =
     (case GetWorkflowReleaseVersion ops versionID s of
        Some (Inl err) \<Rightarrow> Inl err
      | None \<Rightarrow> Inl (EText (''workflow release version '' @ quoted versionID @ '' not found''))
      | Some (Inr v) \<Rightarrow>
          if rv_WorkflowID v \<noteq> workflowID
          then Inl (EText (''workflow release version '' @ quoted versionID @ '' belongs to workflow '' @ quoted (rv_WorkflowID v) @ '', not '' @ quoted shown))
          else Inr v)"

fun checkVersions :: "'s storeOps \<Rightarrow> string \<Rightarrow> string list \<Rightarrow> 's \<Rightarrow> engineError option" where
  "checkVersions ops workflowID [] s = None"
| "checkVersions ops workflowID (i # is) s =
     (if TrimSpace i = '''' then checkVersions ops workflowID is s
      else case versionOf ops workflowID workflowID (TrimSpace i) s of
             Inl err \<Rightarrow> Some err
           | Inr v \<Rightarrow> checkVersions ops workflowID is s)"

definition SaveWorkflowReleaseChannel :: "'s storeOps \<Rightarrow> gotime \<Rightarrow> releaseChannel \<Rightarrow> 's \<Rightarrow> engineError option \<times> 's" where
  "SaveWorkflowReleaseChannel ops now c0 s =
     (case Channel_NormalizeAndValidate now c0 of
        Inl err \<Rightarrow> (Some err, s)
      | Inr c \<Rightarrow>
          (case checkVersions ops (rc_WorkflowID c)
              ([rc_ActiveVersionID c, rc_PreviousVersionID c, rc_CanaryVersionID c] @ rc_ShadowVersionIDs c) s of
             Some err \<Rightarrow> (Some err, s)
           | None \<Rightarrow> putJSONKV ops now (workflowReleaseChannelKey (rc_WorkflowID c) (rc_Environment c)) (DocChannel c) s))"

definition GetWorkflowReleaseChannel :: "'s storeOps \<Rightarrow> string \<Rightarrow> string \<Rightarrow> 's \<Rightarrow> (engineError + releaseChannel) option" where
  "GetWorkflowReleaseChannel ops workflowID env s =
     (if TrimSpace workflowID = '''' then None
      else case normalizeWorkflowEnvironment env of
             Inl err \<Rightarrow> Some (Inl err)
           | Inr env1 \<Rightarrow>
               map_option (map_sum id cloneWorkflowReleaseChannel) (getJSONKV ops asChannel (workflowReleaseChannelKey (TrimSpace workflowID) env1) s))"

definition newChannel :: "string \<Rightarrow> string \<Rightarrow> releaseChannel" where
  "newChannel workflowID env =
     \<lparr>rc_WorkflowID = workflowID, rc_Environment = env, rc_ActiveVersionID = '''', rc_PreviousVersionID = '''', rc_CanaryVersionID = '''',
      rc_CanaryPercent = 0, rc_ShadowVersionIDs = [], rc_AutoRollback = False, rc_LastEvalRunID = '''', rc_CreatedAt = None, rc_UpdatedAt = None\<rparr>"

text \<open>The end of a change of a channel: save it, write the audit record, read it back.  What is read back
  is returned even when it is missing, as a zero channel.\<close>

definition changeChannel ::
  "'s svcEnv \<Rightarrow> callCtx \<Rightarrow> gotime \<Rightarrow> string \<Rightarrow> string \<Rightarrow> string \<Rightarrow> string \<Rightarrow> releaseChannel \<Rightarrow> 's \<Rightarrow> (engineError + releaseChannel) \<times> 's" where
  "changeChannel env ctx now act why workflowID envName c s =
     (let ops = sx_ops env in
      case SaveWorkflowReleaseChannel ops now c s of
        (Some err, s1) \<Rightarrow> (Inl err, s1)
      | (None, s1) \<Rightarrow>
          (let s2 = appendAuditRecord env ctx now
                 (auditNote (effectiveTenantFromContext ctx) '''' act ''workflow_release_channel'' (workflowID @ ''/'' @ envName) '''' workflowID
                    AuditOutcomeAllowed why) s1 in
           case GetWorkflowReleaseChannel ops workflowID envName s2 of
             Some (Inl err) \<Rightarrow> (Inl err, s2)
           | Some (Inr saved) \<Rightarrow> (Inr saved, s2)
           | None \<Rightarrow> (Inr (newChannel '''' ''''), s2)))"

definition PromoteWorkflowRelease ::
  "'s svcEnv \<Rightarrow> callCtx \<Rightarrow> gotime \<Rightarrow> string \<Rightarrow> string \<Rightarrow> string \<Rightarrow> 's \<Rightarrow> (engineError + releaseChannel) \<times> 's" where
  "PromoteWorkflowRelease env ctx now workflowID0 envName versionID0 s =
     (let ops = sx_ops env; workflowID = TrimSpace workflowID0; versionID = TrimSpace versionID0 in
      if workflowID = '''' \<or> versionID = '''' then (Inl (EText ''workflow_id and version_id are required''), s)
      else case versionOf ops workflowID workflowID versionID s of
             Inl err \<Rightarrow> (Inl err, s)
           | Inr v \<Rightarrow>
               (case GetWorkflowReleaseChannel ops workflowID envName s of
                  Some (Inl err) \<Rightarrow> (Inl err, s)
                | found \<Rightarrow>
                    (let c = (case found of Some (Inr c) \<Rightarrow> c | _ \<Rightarrow> newChannel workflowID envName);
                         c1 = (if TrimSpace (rc_ActiveVersionID c) \<noteq> '''' \<and> TrimSpace (rc_ActiveVersionID c) \<noteq> versionID
                               then c\<lparr>rc_PreviousVersionID := rc_ActiveVersionID c\<rparr> else c) in
                     changeChannel env ctx now ''workflow_release.promote'' ''workflow release promoted'' workflowID envName
                       (c1\<lparr>rc_ActiveVersionID := versionID, rc_CanaryVersionID := '''', rc_CanaryPercent := 0, rc_LastEvalRunID := rv_EvalRunID v\<rparr>) s)))"

definition channelMissing :: "string \<Rightarrow> string \<Rightarrow> string \<Rightarrow> engineError" where
  "channelMissing workflowID envName why = EText (''workflow release channel '' @ quoted workflowID @ ''/'' @ quoted envName @ why)"

definition RollbackWorkflowRelease ::
  "'s svcEnv \<Rightarrow> callCtx \<Rightarrow> gotime \<Rightarrow> string \<Rightarrow> string \<Rightarrow> string \<Rightarrow> 's \<Rightarrow> (engineError + releaseChannel) \<times> 's" where
  "RollbackWorkflowRelease env ctx now workflowID envName versionID0 s =
     (let ops = sx_ops env in
      case GetWorkflowReleaseChannel ops workflowID envName s of
        Some (Inl err) \<Rightarrow> (Inl err, s)
      | None \<Rightarrow> (Inl (channelMissing workflowID envName '' not found''), s)
      | Some (Inr c) \<Rightarrow>
          (let versionID = (if TrimSpace versionID0 = '''' then TrimSpace (rc_PreviousVersionID c) else TrimSpace versionID0) in
           if versionID = '''' then (Inl (EText ''rollback target version is required''), s)
           else case versionOf ops (TrimSpace workflowID) workflowID versionID s of
                  Inl err \<Rightarrow> (Inl err, s)
                | Inr v \<Rightarrow>
                    changeChannel env ctx now ''workflow_release.rollback'' ''workflow release rolled back'' workflowID envName
                      (c\<lparr>rc_PreviousVersionID := rc_ActiveVersionID c, rc_ActiveVersionID := versionID, rc_CanaryVersionID := '''', rc_CanaryPercent := 0\<rparr>) s))"

section \<open>The version for a run\<close>

definition fnv32a :: "32 word \<Rightarrow> string \<Rightarrow> 32 word" where
  "fnv32a h cs = fold (\<lambda>c h. (h XOR of_char c) * 16777619) cs h"

definition stableReleasePercentBucket :: "string list \<Rightarrow> int" where
  "stableReleasePercentBucket parts = uint (fold (\<lambda>part h. fnv32a h (TrimSpace part @ [char_of (0 :: nat)])) parts 2166136261 mod 100)"

definition ResolveWorkflowRelease :: "'s storeOps \<Rightarrow> string \<Rightarrow> string \<Rightarrow> string \<Rightarrow> 's \<Rightarrow> engineError + releaseResolution" where
  "ResolveWorkflowRelease ops workflowID envName runID s =
     (case GetWorkflowReleaseChannel ops workflowID envName s of
        Some (Inl err) \<Rightarrow> Inl err
      | None \<Rightarrow> Inl (channelMissing workflowID envName '' not found'')
      | Some (Inr c) \<Rightarrow>
          if TrimSpace (rc_ActiveVersionID c) = '''' \<and> TrimSpace (rc_CanaryVersionID c) = ''''
          then Inl (channelMissing workflowID envName '' has no active or canary version'')
          else
            let bucket = stableReleasePercentBucket [workflowID, envName, if TrimSpace runID = '''' then ''resolution'' else TrimSpace runID];
                canary = (TrimSpace (rc_CanaryVersionID c) \<noteq> '''' \<and> rc_CanaryPercent c > 0 \<and> bucket < rc_CanaryPercent c);
                primary = (if canary then rc_CanaryVersionID c else rc_ActiveVersionID c) in
            Inr \<lparr>rx_WorkflowID = workflowID, rx_Environment = rc_Environment c,
                 rx_PrimaryVersionID = (if primary = '''' then rc_CanaryVersionID c else primary), rx_ShadowVersionIDs = rc_ShadowVersionIDs c,
                 rx_Canary = canary,
                 rx_Reason = (if canary then ''selected canary version at '' @ itoa (rc_CanaryPercent c) @ ''% rollout'' else ''selected active version'')\<rparr>)"

definition releaseRunWorkflowID :: "releaseVersion \<Rightarrow> string" where
  "releaseRunWorkflowID v = TrimSpace (rv_WorkflowID v) @ ''@'' @ TrimSpace (rv_ID v)"

definition compileWorkflowReleaseVersion :: "'f runnerMem \<Rightarrow> releaseVersion \<Rightarrow> string \<Rightarrow> engineError + 'f workflowGraph" where
  "compileWorkflowReleaseVersion m v tenantID =
     (case HandlerRegistryForTenant m tenantID of
        None \<Rightarrow> Inl (EText ''handler registry is required'')
      | Some reg \<Rightarrow>
          (case ParseWorkflowSpecJSON (rv_Spec v) of
             Inl err \<Rightarrow> Inl err
           | Inr (g, spec) \<Rightarrow>
               (case CompileSpecToExecutable spec g (Some reg) of
                  Inl err \<Rightarrow> Inl err
                | Inr exec \<Rightarrow> Inr (exec\<lparr>wg_ID := releaseRunWorkflowID v\<rparr>))))"

text \<open>A shadow run: its context keeps tenant and principal and has side effects in dry-run mode.\<close>

record shadowRun =
  sh_RunID :: string
  sh_ctx :: callCtx
  sh_mode :: string
  sh_version :: releaseVersion

definition cloneReleaseExecutionContext :: "callCtx \<Rightarrow> callCtx" where
  "cloneReleaseExecutionContext ctx =
     (let base = WithTenantID \<lparr>cx_Tenant = '''', cx_Principal = None\<rparr> (effectiveTenantFromContext ctx) in
      case PrincipalFrom ctx of Some p \<Rightarrow> WithPrincipal base p | None \<Rightarrow> base)"

definition launchShadowWorkflowRelease :: "callCtx \<Rightarrow> string \<Rightarrow> releaseVersion \<Rightarrow> shadowRun" where
  "launchShadowWorkflowRelease ctx baseRunID v =
     \<lparr>sh_RunID = TrimSpace baseRunID @ ''~shadow~'' @ TrimSpace (rv_ID v), sh_ctx = cloneReleaseExecutionContext ctx,
      sh_mode = SideEffectModeDryRun, sh_version = v\<rparr>"

definition RunWorkflowRelease ::
  "'s storeOps \<Rightarrow> ('f, 's) dagCall \<Rightarrow> callCtx \<Rightarrow> string \<Rightarrow> string \<Rightarrow> string \<Rightarrow> json \<Rightarrow> ('f, 's) engine
     \<Rightarrow> ((engineError + releaseResolution) \<times> shadowRun list) \<times> ('f, 's) engine" where
  "RunWorkflowRelease ops dag ctx runID workflowID envName input = (\<lambda>(m, s).
     case ResolveWorkflowRelease ops workflowID envName runID s of
       Inl err \<Rightarrow> ((Inl err, []), (m, s))
     | Inr rx \<Rightarrow>
         (case GetWorkflowReleaseVersion ops (rx_PrimaryVersionID rx) s of
            Some (Inl err) \<Rightarrow> ((Inl err, []), (m, s))
          | None \<Rightarrow> ((Inl (EText (''workflow release version '' @ quoted (rx_PrimaryVersionID rx) @ '' not found'')), []), (m, s))
          | Some (Inr primary) \<Rightarrow>
              (let shadows = map (launchShadowWorkflowRelease ctx runID)
                     (List.map_filter (\<lambda>i. case GetWorkflowReleaseVersion ops i s of Some (Inr v) \<Rightarrow> Some v | _ \<Rightarrow> None) (rx_ShadowVersionIDs rx)) in
               case compileWorkflowReleaseVersion m primary (effectiveTenantFromContext ctx) of
                 Inl err \<Rightarrow> ((Inl err, shadows), (m, s))
               | Inr exec \<Rightarrow>
                   (case dag runID exec input (rv_Spec primary) (m, s) of
                      (Some err, e1) \<Rightarrow> ((Inl err, shadows), e1)
                    | (None, e1) \<Rightarrow> ((Inr rx, shadows), e1)))))"

section \<open>The evaluation gate\<close>

definition FinalizeWorkflowCanaryWithEvalGate ::
  "'s svcEnv \<Rightarrow> callCtx \<Rightarrow> gotime \<Rightarrow> string \<Rightarrow> string \<Rightarrow> string \<Rightarrow> 's \<Rightarrow> (engineError + releaseChannel \<times> string) \<times> 's" where
  "FinalizeWorkflowCanaryWithEvalGate env ctx now evalRunID workflowID envName s =
     (let ops = sx_ops env in
      case passingReport ops evalRunID s of
        Inl err \<Rightarrow> (Inl err, s)
      | Inr report \<Rightarrow>
          (case GetWorkflowReleaseChannel ops workflowID envName s of
             Some (Inl err) \<Rightarrow> (Inl err, s)
           | None \<Rightarrow> (Inl (channelMissing workflowID envName '' not found''), s)
           | Some (Inr c0) \<Rightarrow>
               if TrimSpace (rc_CanaryVersionID c0) = '''' then (Inl (channelMissing workflowID envName '' has no canary version''), s)
               else
                 let c = c0\<lparr>rc_LastEvalRunID := TrimSpace evalRunID\<rparr>;
                     finish = (\<lambda>act c1. case changeChannel env ctx now ''workflow_release.canary.finalize'' (''workflow release canary '' @ act)
                         workflowID envName c1 s of (res, s1) \<Rightarrow> (map_sum id (\<lambda>saved. (saved, act)) res, s1)) in
                 if ep_Passed report then
                   finish ''promoted'' (c\<lparr>rc_PreviousVersionID := rc_ActiveVersionID c, rc_ActiveVersionID := rc_CanaryVersionID c,
                     rc_CanaryVersionID := '''', rc_CanaryPercent := 0\<rparr>)
                 else if rc_AutoRollback c then finish ''rolled_back'' (c\<lparr>rc_CanaryVersionID := '''', rc_CanaryPercent := 0\<rparr>)
                 else (Inl (EText (''eval report '' @ quoted evalRunID @ '' did not pass canary promotion gate'')), s)))"

section \<open>Differences\<close>

definition diffDetail :: "json \<Rightarrow> json \<Rightarrow> releaseDiffDetail" where
  "diffDetail a b =
     (if a = JNil \<and> b = JNil then \<lparr>dd_Changed = False, dd_From = JNil, dd_To = JNil\<rparr>
      else \<lparr>dd_Changed = (\<not> jsonEqual a b), dd_From = a, dd_To = b\<rparr>)"

text \<open>The snapshots of tools and policies are compared as values instead of as text, and their details are left out.\<close>

record releaseDiff =
  df_WorkflowID :: string
  df_FromVersionID :: string
  df_ToVersionID :: string
  df_Spec :: releaseDiffDetail
  df_Prompt :: releaseDiffDetail
  df_Model :: releaseDiffDetail
  df_ToolChanged :: bool
  df_PolicyChanged :: bool
  df_ChangedDomains :: "string list"

definition diffVersions :: "string \<Rightarrow> string \<Rightarrow> string \<Rightarrow> releaseVersion \<Rightarrow> releaseVersion \<Rightarrow> releaseDiff" where
  "diffVersions workflowID i j a b =
     (let spec = diffDetail (rv_Spec a) (rv_Spec b); prompt = diffDetail (rv_PromptSnapshot a) (rv_PromptSnapshot b);
          model = diffDetail (rv_ModelSnapshot a) (rv_ModelSnapshot b); tool = (rv_ToolGateway a \<noteq> rv_ToolGateway b);
          policy = (rv_Authorization a \<noteq> rv_Authorization b \<or> rv_Risk a \<noteq> rv_Risk b) in
      \<lparr>df_WorkflowID = workflowID, df_FromVersionID = i, df_ToVersionID = j, df_Spec = spec, df_Prompt = prompt, df_Model = model,
       df_ToolChanged = tool, df_PolicyChanged = policy,
       df_ChangedDomains = map fst (filter snd [(''spec'', dd_Changed spec), (''prompt'', dd_Changed prompt), (''model'', dd_Changed model),
         (''tool'', tool), (''policy'', policy)])\<rparr>)"

definition DiffWorkflowReleaseVersions :: "'s storeOps \<Rightarrow> string \<Rightarrow> string \<Rightarrow> string \<Rightarrow> 's \<Rightarrow> engineError + releaseDiff" where
  "DiffWorkflowReleaseVersions ops workflowID0 a b s =
     (let found = (\<lambda>i. case GetWorkflowReleaseVersion ops i s of
            Some (Inl err) \<Rightarrow> Inl err
          | None \<Rightarrow> Inl (EText (''workflow release version '' @ quoted i @ '' not found''))
          | Some (Inr v) \<Rightarrow> Inr v) in
      case found a of
        Inl err \<Rightarrow> Inl err
      | Inr va \<Rightarrow>
          (case found b of
             Inl err \<Rightarrow> Inl err
           | Inr vb \<Rightarrow>
               (let workflowID = (if TrimSpace workflowID0 = '''' then rv_WorkflowID va else TrimSpace workflowID0) in
                if rv_WorkflowID va \<noteq> workflowID \<or> rv_WorkflowID vb \<noteq> workflowID
                then Inl (EText (''workflow release diff versions must belong to workflow '' @ quoted workflowID))
                else Inr (diffVersions workflowID a b va vb))))"

section \<open>Keys\<close>

lemma environments: "normalizeWorkflowEnvironment e = Inr x \<Longrightarrow> x = ''staging'' \<or> x = ''prod''"
  by (auto simp: normalizeWorkflowEnvironment_def Let_def split: if_splits)

lemma environment_fixed:
  assumes "normalizeWorkflowEnvironment e = Inr x"
  shows "TrimSpace x = x" "normalizeWorkflowEnvironment x = Inr x"
proof -
  have "TrimSpace ''staging'' = ''staging''" "TrimSpace ''prod'' = ''prod''" "normalizeWorkflowEnvironment ''staging'' = Inr ''staging''"
    "normalizeWorkflowEnvironment ''prod'' = Inr ''prod''" by code_simp+
  with environments [OF assms] show "TrimSpace x = x" "normalizeWorkflowEnvironment x = Inr x" by auto
qed

lemma channel_key_eq:
  assumes "normalizeWorkflowEnvironment e0 = Inr e" "normalizeWorkflowEnvironment e1 = Inr e'"
  shows "workflowReleaseChannelKey w e = workflowReleaseChannelKey w' e' \<longleftrightarrow> TrimSpace w = TrimSpace w' \<and> e = e'"
proof -
  have "a @ ''/staging'' \<noteq> b @ ''/prod''" for a b :: string by (auto dest: arg_cong [of _ _ last])
  then show ?thesis
    using environments [OF assms(1)] environments [OF assms(2)] environment_fixed(1) [OF assms(1)] environment_fixed(1) [OF assms(2)]
    by (auto simp: workflowReleaseChannelKey_def)
qed

lemma channel_key:
  assumes "normalizeWorkflowEnvironment e0 = Inr e"
  shows "TrimSpace (workflowReleaseChannelKey w e) = workflowReleaseChannelKey w e" "\<not> isAuditKey (workflowReleaseChannelKey w e)"
    "workflowReleaseChannelKey (TrimSpace w) e = workflowReleaseChannelKey w e"
proof -
  show "TrimSpace (workflowReleaseChannelKey w e) = workflowReleaseChannelKey w e"
    using environments [OF assms] environment_fixed(1) [OF assms]
    by (intro TrimSpace_fixed) (auto simp: workflowReleaseChannelKey_def is_space_def)
qed (simp_all add: workflowReleaseChannelKey_def isAuditKey_def HasPrefix_def)

lemma version_key:
  "TrimSpace (workflowReleaseVersionKey i) = workflowReleaseVersionKey i" "\<not> isAuditKey (workflowReleaseVersionKey i)"
  "workflowReleaseVersionKey i \<noteq> workflowReleaseChannelKey w e"
  unfolding workflowReleaseVersionKey_def
  by (rule TrimSpace_prefixed) (simp_all add: is_space_def isAuditKey_def HasPrefix_def workflowReleaseChannelKey_def)


section \<open>Channels under their own keys\<close>

definition channel_keyed :: "'s storeOps \<Rightarrow> 's \<Rightarrow> bool" where
  "channel_keyed ops s \<longleftrightarrow> (\<forall>w e0 e c. normalizeWorkflowEnvironment e0 = Inr e \<longrightarrow> so_GetKV ops s (workflowReleaseChannelKey w e) = Some (DocChannel c) \<longrightarrow>
     rc_WorkflowID c = TrimSpace w \<and> rc_Environment c = e)"

lemma get_channel:
  "GetWorkflowReleaseChannel ops w e0 s = Some (Inr c) \<longleftrightarrow> TrimSpace w \<noteq> '''' \<and> (\<exists>e x. normalizeWorkflowEnvironment e0 = Inr e \<and>
     so_GetKV ops s (workflowReleaseChannelKey w e) = Some (DocChannel x) \<and> c = cloneWorkflowReleaseChannel x)"
proof -
  have k: "workflowReleaseChannelKey (TrimSpace w) e = workflowReleaseChannelKey w e" for e by (simp add: workflowReleaseChannelKey_def)
  have "getJSONKV ops asChannel key s = Some (Inr x) \<longleftrightarrow> so_GetKV ops s key = Some (DocChannel x)" for key x
    by (auto simp: getJSONKV_def asChannel_def split: option.splits kvText.splits)
  moreover have "map_sum id f y = Inr c \<longleftrightarrow> (\<exists>x. y = Inr x \<and> c = f x)" for f :: "releaseChannel \<Rightarrow> releaseChannel" and y :: "engineError + releaseChannel"
    by (cases y) auto
  ultimately show ?thesis by (auto simp: GetWorkflowReleaseChannel_def k split: sum.splits)
qed

lemma get_channel_trim: "GetWorkflowReleaseChannel ops (TrimSpace w) e s = GetWorkflowReleaseChannel ops w e s"
  unfolding GetWorkflowReleaseChannel_def TrimSpace_idem ..

lemma keyed_channel:
  assumes "channel_keyed ops s" "GetWorkflowReleaseChannel ops w e0 s = Some (Inr c)"
  shows "TrimSpace w \<noteq> ''''" "rc_WorkflowID c = TrimSpace w" "normalizeWorkflowEnvironment e0 = Inr (rc_Environment c)"
    "TrimSpace (rc_ActiveVersionID c) = rc_ActiveVersionID c" "TrimSpace (rc_CanaryVersionID c) = rc_CanaryVersionID c"
    "TrimSpace (rc_PreviousVersionID c) = rc_PreviousVersionID c"
proof -
  obtain e x where x: "TrimSpace w \<noteq> ''''" "normalizeWorkflowEnvironment e0 = Inr e" "so_GetKV ops s (workflowReleaseChannelKey w e) = Some (DocChannel x)"
    "c = cloneWorkflowReleaseChannel x"
    using assms(2) unfolding get_channel by blast
  with assms(1) have k: "rc_WorkflowID x = TrimSpace w" "rc_Environment x = e" by (auto simp: channel_keyed_def)
  show "TrimSpace w \<noteq> ''''" by (rule x(1))
  show "rc_WorkflowID c = TrimSpace w" "normalizeWorkflowEnvironment e0 = Inr (rc_Environment c)"
    "TrimSpace (rc_ActiveVersionID c) = rc_ActiveVersionID c" "TrimSpace (rc_CanaryVersionID c) = rc_CanaryVersionID c"
    "TrimSpace (rc_PreviousVersionID c) = rc_PreviousVersionID c"
    using k x(2) environment_fixed(1) [OF x(2)] by (simp_all add: x(4) cloneWorkflowReleaseChannel_def)
qed

lemma normalized_channel:
  assumes "Channel_NormalizeAndValidate now c = Inr x"
  shows "cloneWorkflowReleaseChannel x = x" "rc_WorkflowID x = TrimSpace (rc_WorkflowID c)" "normalizeWorkflowEnvironment (rc_Environment c) = Inr (rc_Environment x)"
    "rc_ActiveVersionID x = TrimSpace (rc_ActiveVersionID c)" "rc_PreviousVersionID x = TrimSpace (rc_PreviousVersionID c)"
    "rc_CanaryVersionID x = TrimSpace (rc_CanaryVersionID c)" "rc_LastEvalRunID x = TrimSpace (rc_LastEvalRunID c)"
    "rc_ShadowVersionIDs x = dedupeSortedStrings (rc_ShadowVersionIDs c)" "rc_CanaryVersionID x = '''' \<Longrightarrow> rc_CanaryPercent x = 0"
    "0 \<le> rc_CanaryPercent x" "rc_CanaryPercent x \<le> 100"
  using assms environment_fixed(1)
  by (auto simp: Channel_NormalizeAndValidate_def cloneWorkflowReleaseChannel_def split: if_splits sum.splits)

lemma normalize_works:
  assumes "TrimSpace (rc_WorkflowID c) \<noteq> ''''" "normalizeWorkflowEnvironment (rc_Environment c) = Inr e" "0 \<le> rc_CanaryPercent c" "rc_CanaryPercent c \<le> 100"
  shows "\<exists>x. Channel_NormalizeAndValidate now c = Inr x"
  using assms by (simp add: Channel_NormalizeAndValidate_def)

text \<open>The versions a channel names.\<close>

definition named :: "releaseChannel \<Rightarrow> string list" where
  "named c = [rc_ActiveVersionID c, rc_PreviousVersionID c, rc_CanaryVersionID c] @ rc_ShadowVersionIDs c"

lemmas saveChannel = SaveWorkflowReleaseChannel_def [folded named_def]

lemma checked_iff: "checkVersions ops w is s = None \<longleftrightarrow>
    (\<forall>i\<in>set is. TrimSpace i \<noteq> '''' \<longrightarrow> (\<exists>v. GetWorkflowReleaseVersion ops (TrimSpace i) s = Some (Inr v) \<and> rv_WorkflowID v = w))"
  by (induction "is") (auto simp: versionOf_def split: option.splits sum.splits if_splits)

lemma save_known:
  assumes "Channel_NormalizeAndValidate now c = Inr z" "checkVersions ops (rc_WorkflowID z) ids s = None"
    and "\<And>i. i \<in> set (named z) \<Longrightarrow> TrimSpace i \<noteq> '''' \<Longrightarrow> \<exists>j\<in>set ids. TrimSpace j = TrimSpace i"
  shows "SaveWorkflowReleaseChannel ops now c s = putJSONKV ops now (workflowReleaseChannelKey (rc_WorkflowID z) (rc_Environment z)) (DocChannel z) s"
proof -
  have "checkVersions ops (rc_WorkflowID z) (named z) s = None" using assms(2,3) unfolding checked_iff by metis
  then show ?thesis by (simp add: saveChannel assms(1))
qed

lemma version_moves:
  assumes "kv_moves ops K s s'" "\<And>i. \<not> K (workflowReleaseVersionKey i)"
  shows "GetWorkflowReleaseVersion ops i s' = GetWorkflowReleaseVersion ops i s"
  using kv_moves_reads(5) [OF assms(1)] assms(2) by (simp add: GetWorkflowReleaseVersion_def getJSONKV_def version_key)

definition channelOrAudit :: "string \<Rightarrow> string \<Rightarrow> string \<Rightarrow> bool" where
  "channelOrAudit w e k \<longleftrightarrow> k = workflowReleaseChannelKey w e \<or> isAuditKey k"

lemma version_not_channel: "\<not> channelOrAudit w e (workflowReleaseVersionKey i)"
  by (simp add: channelOrAudit_def version_key)

context store_contract
begin

lemma save_channel:
  assumes "sinv s" "SaveWorkflowReleaseChannel ops now c s = (err, s')"
  shows "sinv s'" "err = None \<Longrightarrow> \<exists>x. Channel_NormalizeAndValidate now c = Inr x \<and> checkVersions ops (rc_WorkflowID x) (named x) s = None \<and>
      so_GetKV ops s' (workflowReleaseChannelKey (rc_WorkflowID x) (rc_Environment x)) = Some (DocChannel x) \<and>
      kv_moves ops (channelOrAudit (rc_WorkflowID x) (rc_Environment x)) s s'"
proof -
  show "sinv s'" using assms put_doc(1) [OF assms(1)] by (auto simp: saveChannel split: sum.splits option.splits)
  show "\<exists>x. Channel_NormalizeAndValidate now c = Inr x \<and> checkVersions ops (rc_WorkflowID x) (named x) s = None \<and>
      so_GetKV ops s' (workflowReleaseChannelKey (rc_WorkflowID x) (rc_Environment x)) = Some (DocChannel x) \<and>
      kv_moves ops (channelOrAudit (rc_WorkflowID x) (rc_Environment x)) s s'" if e: "err = None"
  proof -
    obtain x where x: "Channel_NormalizeAndValidate now c = Inr x" "checkVersions ops (rc_WorkflowID x) (named x) s = None"
      and p: "putJSONKV ops now (workflowReleaseChannelKey (rc_WorkflowID x) (rc_Environment x)) (DocChannel x) s = (None, s')"
      using assms(2) e by (auto simp: saveChannel split: sum.splits option.splits)
    note k = channel_key(1) [OF normalized_channel(3) [OF x(1)]]
    from x p show ?thesis using put_doc(3) [OF assms(1) p refl refl] put_doc(2) [OF assms(1) p] k by (auto simp: channelOrAudit_def)
  qed
qed

lemma change_channel:
  assumes "sinv s" "sx_ops env = ops" "changeChannel env ctx now act why w e0 c s = (Inr c1, s')" "channel_keyed ops s"
    and "TrimSpace w \<noteq> ''''" "rc_WorkflowID c = TrimSpace w" "normalizeWorkflowEnvironment e0 = Inr e" "normalizeWorkflowEnvironment (rc_Environment c) = Inr e"
  shows "Channel_NormalizeAndValidate now c = Inr c1" "checkVersions ops (TrimSpace w) (named c1) s = None" "sinv s'"
    "GetWorkflowReleaseChannel ops w e0 s' = Some (Inr c1)" "kv_moves ops (channelOrAudit w e) s s'" "channel_keyed ops s'"
proof -
  obtain s1 where s1: "SaveWorkflowReleaseChannel ops now c s = (None, s1)"
    using assms(2,3) by (auto simp: changeChannel_def Let_def split: prod.splits option.splits)
  obtain x where x: "Channel_NormalizeAndValidate now c = Inr x" "checkVersions ops (rc_WorkflowID x) (named x) s = None"
    "so_GetKV ops s1 (workflowReleaseChannelKey (rc_WorkflowID x) (rc_Environment x)) = Some (DocChannel x)"
    "kv_moves ops (channelOrAudit (rc_WorkflowID x) (rc_Environment x)) s s1"
    using save_channel(2) [OF assms(1) s1] by auto
  have f: "rc_WorkflowID x = TrimSpace w" "rc_Environment x = e" "cloneWorkflowReleaseChannel x = x"
    using normalized_channel [OF x(1)] assms(6,8) by simp_all
  note i1 = save_channel(1) [OF assms(1) s1]
  define s2 where "s2 = appendAuditRecord env ctx now (auditNote (effectiveTenantFromContext ctx) '''' act ''workflow_release_channel'' (w @ ''/'' @ e0) '''' w
    AuditOutcomeAllowed why) s1"
  note a = append_audit [OF i1 assms(2), of ctx now "auditNote (effectiveTenantFromContext ctx) '''' act ''workflow_release_channel'' (w @ ''/'' @ e0) '''' w
    AuditOutcomeAllowed why", folded s2_def]
  note k = channel_key [OF assms(7)]
  have doc: "so_GetKV ops s2 (workflowReleaseChannelKey w e) = Some (DocChannel x)"
    using kv_moves_reads(5) [OF a(2), of "workflowReleaseChannelKey w e"] x(3) f k by simp
  then have g: "GetWorkflowReleaseChannel ops w e0 s2 = Some (Inr x)" using assms(5,7) f(3) by (auto simp: get_channel)
  then have r: "c1 = x" "s' = s2"
    using assms(3) [unfolded changeChannel_def Let_def assms(2) s1 prod.case option.case, folded s2_def] by simp_all
  show "Channel_NormalizeAndValidate now c = Inr c1" "checkVersions ops (TrimSpace w) (named c1) s = None" "sinv s'"
    "GetWorkflowReleaseChannel ops w e0 s' = Some (Inr c1)"
    using x f g r a(1) by simp_all
  show m: "kv_moves ops (channelOrAudit w e) s s'"
    using kv_moves_trans [OF x(4) kv_moves_weaken [OF a(2)]] f k(3) r(2) by (simp add: channelOrAudit_def [abs_def])
  show "channel_keyed ops s'"
    unfolding channel_keyed_def
  proof (intro allI impI)
    fix w' e0' e' c'
    assume n: "normalizeWorkflowEnvironment e0' = Inr e'" and d: "so_GetKV ops s' (workflowReleaseChannelKey w' e') = Some (DocChannel c')"
    show "rc_WorkflowID c' = TrimSpace w' \<and> rc_Environment c' = e'"
    proof (cases "TrimSpace w' = TrimSpace w \<and> e' = e")
      case True
      then have "workflowReleaseChannelKey w' e' = workflowReleaseChannelKey w e" by (simp add: workflowReleaseChannelKey_def)
      with d doc r f True show ?thesis by simp
    next
      case False
      then have "\<not> channelOrAudit w e (workflowReleaseChannelKey w' e')"
        using channel_key_eq [OF n assms(7)] channel_key(2) [OF n] by (simp add: channelOrAudit_def)
      then have "so_GetKV ops s (workflowReleaseChannelKey w' e') = Some (DocChannel c')"
        using kv_moves_reads(5) [OF m, of "workflowReleaseChannelKey w' e'"] channel_key(1) [OF n] d by simp
      with assms(4) n show ?thesis by (simp add: channel_keyed_def)
    qed
  qed
qed

lemma change_error:
  assumes "sinv s" "sx_ops env = ops" "changeChannel env ctx now act why w e0 c s = (Inl err, s')"
    and "TrimSpace w \<noteq> ''''" "rc_WorkflowID c = TrimSpace w" "normalizeWorkflowEnvironment e0 = Inr e" "normalizeWorkflowEnvironment (rc_Environment c) = Inr e"
  shows "fst (SaveWorkflowReleaseChannel ops now c s) = Some err"
proof (cases "SaveWorkflowReleaseChannel ops now c s")
  case (Pair er s1)
  show ?thesis
  proof (cases er)
    case None
    note s1 = Pair [unfolded None]
    obtain x where x: "Channel_NormalizeAndValidate now c = Inr x"
      "so_GetKV ops s1 (workflowReleaseChannelKey (rc_WorkflowID x) (rc_Environment x)) = Some (DocChannel x)"
      using save_channel(2) [OF assms(1) s1] by auto
    have f: "rc_WorkflowID x = TrimSpace w" "rc_Environment x = e" using normalized_channel [OF x(1)] assms(5,7) by simp_all
    have "\<exists>y. GetWorkflowReleaseChannel ops w e0 (appendAuditRecord env ctx now a s1) = Some (Inr y)" for a
      using kv_moves_reads(5) [OF append_audit(2) [OF save_channel(1) [OF assms(1) s1] assms(2), of ctx now a], of "workflowReleaseChannelKey w e"]
        x(2) f channel_key [OF assms(6)] assms(4,6) by (auto simp: get_channel)
    then obtain y where "GetWorkflowReleaseChannel ops w e0 (appendAuditRecord env ctx now (auditNote (effectiveTenantFromContext ctx) '''' act
        ''workflow_release_channel'' (w @ ''/'' @ e0) '''' w AuditOutcomeAllowed why) s1) = Some (Inr y)" by blast
    then show ?thesis using assms(3) [unfolded changeChannel_def Let_def assms(2) s1 prod.case option.case] by simp
  qed (use assms(2,3) Pair in \<open>simp add: changeChannel_def Let_def\<close>)
qed

text \<open>Rollback to the previous version swaps it with the active one; with the channel's versions known, only
  the write of the channel can fail.\<close>

lemma rollback_swaps:
  assumes "sinv s" "sx_ops env = ops" "channel_keyed ops s" "GetWorkflowReleaseChannel ops w e0 s = Some (Inr c)"
    and "checkVersions ops (TrimSpace w) (named c) s = None" "rc_PreviousVersionID c \<noteq> ''''"
    and "RollbackWorkflowRelease env ctx now w e0 '''' s = (res, s')"
  shows "case res of
      Inr d \<Rightarrow> rc_ActiveVersionID d = rc_PreviousVersionID c \<and> rc_PreviousVersionID d = rc_ActiveVersionID c \<and> GetWorkflowReleaseChannel ops w e0 s' = Some (Inr d)
    | Inl err \<Rightarrow> \<exists>d t. putJSONKV ops now (workflowReleaseChannelKey w (rc_Environment c)) (DocChannel d) s = (Some err, t)"
proof -
  note k = keyed_channel [OF assms(3,4)]
  note e = environment_fixed(2) [OF k(3)]
  define d where "d = c\<lparr>rc_PreviousVersionID := rc_ActiveVersionID c, rc_ActiveVersionID := rc_PreviousVersionID c, rc_CanaryVersionID := '''', rc_CanaryPercent := 0\<rparr>"
  have d: "rc_WorkflowID d = TrimSpace w" "rc_Environment d = rc_Environment c" using k(2) by (simp_all add: d_def)
  obtain u where "GetWorkflowReleaseVersion ops (rc_PreviousVersionID c) s = Some (Inr u)" "rv_WorkflowID u = TrimSpace w"
    using assms(5,6) k(6) unfolding checked_iff by (auto simp: named_def)
  then have rb: "changeChannel env ctx now ''workflow_release.rollback'' ''workflow release rolled back'' w e0 d s = (res, s')"
    using assms(6,7) k(6) by (simp add: RollbackWorkflowRelease_def Let_def assms(2,4) versionOf_def d_def)
  show ?thesis
  proof (cases res)
    case (Inr x)
    note y = change_channel [OF assms(1,2) rb [unfolded Inr] assms(3) k(1) d(1) k(3), unfolded d(2), OF e]
    from normalized_channel(4,5) [OF y(1)] y(4) k(4,6) Inr show ?thesis by (simp add: d_def)
  next
    case (Inl err)
    obtain z where z: "Channel_NormalizeAndValidate now d = Inr z"
      using normalize_works [of d "rc_Environment c" now] d k(1) e by (auto simp: d_def)
    note nz = normalized_channel [OF z]
    have "SaveWorkflowReleaseChannel ops now d s = putJSONKV ops now (workflowReleaseChannelKey (rc_WorkflowID z) (rc_Environment z)) (DocChannel z) s"
      by (rule save_known [OF z, where ids = "named c"]) (use assms(5) nz d in \<open>auto simp: named_def d_def dedupeSortedStrings_def set_keepNew\<close>)
    moreover have "workflowReleaseChannelKey (rc_WorkflowID z) (rc_Environment z) = workflowReleaseChannelKey w (rc_Environment c)"
      using nz(2,3) d e by (simp add: workflowReleaseChannelKey_def)
    moreover have "fst (SaveWorkflowReleaseChannel ops now d s) = Some err"
      using change_error [OF assms(1,2) rb [unfolded Inl] k(1) d(1) k(3)] d(2) e by simp
    ultimately obtain t where "putJSONKV ops now (workflowReleaseChannelKey w (rc_Environment c)) (DocChannel z) s = (Some err, t)"
      by (metis prod.collapse)
    with Inl show ?thesis by auto
  qed
qed

end

section \<open>Properties\<close>

text \<open>C36. A canary becomes the active version only on a passing report: when \<open>FinalizeWorkflowCanaryWithEvalGate\<close>
  returns a channel, the store held a completed report under the given identifier and the channel had
  a canary; if the report passed, the canary is now active, the former active version is the previous
  one, and it is a version of this workflow that the store has; if not, the channel asked for automatic
  rollback and active and previous versions are what they were.  In both cases the canary is gone,
  the channel returned is the one stored, and only this channel and the audit trail changed.\<close>

theorem canary_needs_passing_eval:
  assumes "store_contract ops sinv" "sinv s" "sx_ops env = ops" "channel_keyed ops s"
    and "FinalizeWorkflowCanaryWithEvalGate env ctx now evalRunID w e0 s = (Inr (c, act), s')"
  shows "\<exists>report c0. GetEvalReport ops evalRunID s = Some (Inr report) \<and> ep_Status report = ''completed'' \<and>
    GetWorkflowReleaseChannel ops w e0 s = Some (Inr c0) \<and> rc_CanaryVersionID c0 \<noteq> '''' \<and>
    (if ep_Passed report
     then act = ''promoted'' \<and> rc_ActiveVersionID c = rc_CanaryVersionID c0 \<and> rc_PreviousVersionID c = rc_ActiveVersionID c0 \<and>
       (\<exists>v. GetWorkflowReleaseVersion ops (rc_ActiveVersionID c) s = Some (Inr v) \<and> rv_WorkflowID v = TrimSpace w)
     else act = ''rolled_back'' \<and> rc_AutoRollback c0 \<and> rc_ActiveVersionID c = rc_ActiveVersionID c0 \<and> rc_PreviousVersionID c = rc_PreviousVersionID c0) \<and>
    rc_CanaryVersionID c = '''' \<and> rc_CanaryPercent c = 0 \<and> rc_LastEvalRunID c = TrimSpace evalRunID \<and>
    GetWorkflowReleaseChannel ops w e0 s' = Some (Inr c) \<and> sinv s' \<and> channel_keyed ops s' \<and> kv_moves ops (channelOrAudit w (rc_Environment c0)) s s'"
proof -
  obtain report where r: "GetEvalReport ops evalRunID s = Some (Inr report)" "ep_Status report = ''completed''"
    using assms(3,5) by (auto simp: FinalizeWorkflowCanaryWithEvalGate_def passingReport_def Let_def split: sum.splits option.splits if_splits)
  then have p: "passingReport ops evalRunID s = Inr report" by (simp add: passingReport_def)
  obtain c0 where c0: "GetWorkflowReleaseChannel ops w e0 s = Some (Inr c0)"
    using assms(3,5) by (auto simp: FinalizeWorkflowCanaryWithEvalGate_def p Let_def split: sum.splits option.splits if_splits)
  note k = keyed_channel [OF assms(4) c0]
  have cn: "rc_CanaryVersionID c0 \<noteq> ''''"
    using assms(3,5) k(5) by (auto simp: FinalizeWorkflowCanaryWithEvalGate_def p c0 Let_def)
  define c1 where "c1 = (if ep_Passed report
    then c0\<lparr>rc_LastEvalRunID := TrimSpace evalRunID, rc_PreviousVersionID := rc_ActiveVersionID c0, rc_ActiveVersionID := rc_CanaryVersionID c0,
            rc_CanaryVersionID := '''', rc_CanaryPercent := 0\<rparr>
    else c0\<lparr>rc_LastEvalRunID := TrimSpace evalRunID, rc_CanaryVersionID := '''', rc_CanaryPercent := 0\<rparr>)"
  define a1 where "a1 = (if ep_Passed report then ''promoted'' else ''rolled_back'')"
  have ch: "changeChannel env ctx now ''workflow_release.canary.finalize'' (''workflow release canary '' @ a1) w e0 c1 s = (Inr c, s')"
    and act: "act = a1" "ep_Passed report \<or> rc_AutoRollback c0"
    using assms(3,5) cn k(5) unfolding a1_def c1_def
    by (auto simp: FinalizeWorkflowCanaryWithEvalGate_def p c0 Let_def map_sum_def split: if_splits prod.splits sum.splits)
  have same: "rc_WorkflowID c1 = rc_WorkflowID c0" "rc_Environment c1 = rc_Environment c0" "rc_CanaryVersionID c1 = ''''"
    "rc_LastEvalRunID c1 = TrimSpace evalRunID"
    by (simp_all add: c1_def)
  note x = store_contract.change_channel [OF assms(1-3) ch assms(4) k(1) _ k(3) _, unfolded same, OF k(2) environment_fixed(2) [OF k(3)]]
  note n = normalized_channel [OF x(1)]
  have "\<exists>v. GetWorkflowReleaseVersion ops (rc_ActiveVersionID c) s = Some (Inr v) \<and> rv_WorkflowID v = TrimSpace w" if "ep_Passed report"
    using x(2) n(4) cn k(5) that unfolding checked_iff by (simp add: named_def c1_def)
  moreover have "rc_CanaryPercent c = 0" by (rule n(9)) (simp add: n(6) same)
  ultimately show ?thesis using r c0 cn act x n k same by (cases "ep_Passed report") (auto simp: c1_def a1_def)
qed

text \<open>C37. Rollback undoes promotion: after a version has been promoted over another active one, it is the active
  version and the former one is kept as previous; a rollback without a named version makes the
  former one active again, keeps the promoted one as previous and stores that, and it can fail only
  because the store refuses to write the channel.\<close>

theorem rollback_undoes_promote:
  assumes "store_contract ops sinv" "sinv s" "sx_ops env = ops" "channel_keyed ops s"
    and "GetWorkflowReleaseChannel ops w e0 s = Some (Inr c0)" "rc_ActiveVersionID c0 \<noteq> ''''" "rc_ActiveVersionID c0 \<noteq> TrimSpace v"
    and "PromoteWorkflowRelease env ctx now w e0 v s = (Inr c1, s1)"
    and "RollbackWorkflowRelease env ctx' now' w e0 '''' s1 = (res, s2)"
  shows "rc_ActiveVersionID c1 = TrimSpace v \<and> rc_PreviousVersionID c1 = rc_ActiveVersionID c0 \<and> GetWorkflowReleaseChannel ops w e0 s1 = Some (Inr c1) \<and>
    (case res of
       Inr c2 \<Rightarrow> rc_ActiveVersionID c2 = rc_ActiveVersionID c0 \<and> rc_PreviousVersionID c2 = TrimSpace v \<and>
         GetWorkflowReleaseChannel ops w e0 s2 = Some (Inr c2)
     | Inl err \<Rightarrow> \<exists>d s'. putJSONKV ops now' (workflowReleaseChannelKey w (rc_Environment c0)) (DocChannel d) s1 = (Some err, s'))"
proof -
  note k = keyed_channel [OF assms(4,5)]
  obtain act why ch where ch: "changeChannel env ctx now act why (TrimSpace w) e0 ch s = (Inr c1, s1)" "rc_WorkflowID ch = rc_WorkflowID c0"
    "rc_Environment ch = rc_Environment c0" "rc_ActiveVersionID ch = TrimSpace v" "rc_PreviousVersionID ch = rc_ActiveVersionID c0"
    "rc_CanaryVersionID ch = ''''"
    using assms(3,5-8) k(4) by (auto simp: PromoteWorkflowRelease_def Let_def get_channel_trim split: if_splits sum.splits)
  note x = store_contract.change_channel [OF assms(1-3) ch(1) assms(4) _ _ k(3) _, unfolded ch TrimSpace_idem, OF k(1,2) environment_fixed(2) [OF k(3)]]
  note n = normalized_channel [OF x(1)]
  have c1: "rc_ActiveVersionID c1 = TrimSpace v" "rc_PreviousVersionID c1 = rc_ActiveVersionID c0" "rc_CanaryVersionID c1 = ''''"
    using n(4-6) ch k(4) by simp_all
  have g1: "GetWorkflowReleaseChannel ops w e0 s1 = Some (Inr c1)" using x(4) by (simp add: get_channel_trim)
  have "checkVersions ops (TrimSpace w) (named c1) s1 = None"
    using x(2) version_moves [OF x(5) version_not_channel] unfolding checked_iff by simp
  note rb = store_contract.rollback_swaps [OF assms(1) x(3) assms(3) x(6) g1 this _ assms(9), unfolded c1, OF assms(6)]
  have "rc_Environment c1 = rc_Environment c0" using keyed_channel(3) [OF x(6) g1] k(3) by simp
  with rb c1 g1 show ?thesis by (cases res) simp_all
qed

text \<open>Rollout by percent: take a channel with a canary, and the same channel at a higher percent.  Every run
  that got the canary still gets it, and the same version; at 100 percent every run gets it, at 0
  none does; and the version a run gets is always the canary or the active one (the canary also when
  there is no active one).\<close>

theorem rollout_monotone:
  assumes "GetWorkflowReleaseChannel ops w e0 s = Some (Inr c)" "TrimSpace (rc_CanaryVersionID c) \<noteq> ''''"
    and "GetWorkflowReleaseChannel ops w e0 s' = Some (Inr (c\<lparr>rc_CanaryPercent := q\<rparr>))" "rc_CanaryPercent c \<le> q"
  shows "\<exists>rx rx'. ResolveWorkflowRelease ops w e0 runID s = Inr rx \<and> ResolveWorkflowRelease ops w e0 runID s' = Inr rx' \<and>
    (rx_Canary rx \<longrightarrow> rx_Canary rx' \<and> rx_PrimaryVersionID rx' = rx_PrimaryVersionID rx) \<and>
    (q = 100 \<longrightarrow> rx_Canary rx') \<and> (q \<le> 0 \<longrightarrow> \<not> rx_Canary rx') \<and>
    rx_PrimaryVersionID rx' = (if rx_Canary rx' \<or> rc_ActiveVersionID c = '''' then rc_CanaryVersionID c else rc_ActiveVersionID c)"
proof -
  have "0 \<le> stableReleasePercentBucket ps \<and> stableReleasePercentBucket ps < 100" for ps
    by (simp add: stableReleasePercentBucket_def uint_mod)
  moreover have "rc_CanaryVersionID c \<noteq> ''''" using assms(2) by auto
  ultimately show ?thesis using assms by (auto simp: ResolveWorkflowRelease_def Let_def)
qed

definition shop_spec :: json where
  "shop_spec = JObj [(''id'', JText ''shop'')]"

definition shop_version :: "string \<Rightarrow> releaseVersion" where
  "shop_version i = \<lparr>rv_ID = i, rv_WorkflowID = ''shop'', rv_Spec = shop_spec, rv_PromptSnapshot = JNil, rv_ModelSnapshot = JNil, rv_ToolGateway = None,
     rv_Authorization = None, rv_Risk = None, rv_SourceRunID = '''', rv_EvalRunID = '''', rv_CreatedAt = Some 1, rv_UpdatedAt = Some 1\<rparr>"

definition shop_channel :: "int \<Rightarrow> releaseChannel" where
  "shop_channel p = (newChannel ''shop'' ''prod'')\<lparr>rc_ActiveVersionID := ''v1'', rc_CanaryVersionID := ''v2'', rc_CanaryPercent := p\<rparr>"

definition shop_store :: "int \<Rightarrow> memStore" where
  "shop_store p = NewMemoryStore\<lparr>ms_kv := [(''workflow_releases/versions/v1'', DocRelease (shop_version ''v1'')),
     (''workflow_releases/versions/v2'', DocRelease (shop_version ''v2'')), (''workflow_releases/versions/v3'', DocRelease (shop_version ''v3'')),
     (''workflow_releases/channels/shop/prod'', DocChannel (shop_channel p)),
     (''evals/reports/ok'', DocReport (noReport\<lparr>ep_ID := ''ok'', ep_Status := ''completed'', ep_Passed := True\<rparr>))]\<rparr>"

definition finalized :: "string option" where
  "finalized = (case fst (FinalizeWorkflowCanaryWithEvalGate memSvc acme 9 ''ok'' ''shop'' ''prod'' (shop_store 10)) of
     Inr (c, act) \<Rightarrow> Some (rc_ActiveVersionID c) | _ \<Rightarrow> None)"

definition promoted :: "string option" where
  "promoted = (case PromoteWorkflowRelease memSvc acme 9 ''shop'' ''prod'' ''v3'' (shop_store 10) of
     (Inr c, s) \<Rightarrow> (case fst (RollbackWorkflowRelease memSvc acme 10 ''shop'' ''prod'' '''' s) of Inr d \<Rightarrow> Some (rc_ActiveVersionID d) | _ \<Rightarrow> None) | _ \<Rightarrow> None)"

lemma shop_values:
  "finalized = Some ''v2''" "promoted = Some ''v1''"
  "GetWorkflowReleaseChannel memOps ''shop'' ''prod'' (shop_store 10) = Some (Inr (shop_channel 10))"
  "GetWorkflowReleaseChannel memOps ''shop'' ''prod'' (shop_store 100) = Some (Inr (shop_channel 100))"
  by code_simp+

lemma shop_inv: "mem_inv (shop_store p)"
  by (simp add: mem_inv_def shop_store_def NewMemoryStore_def ListEvents_def)

lemma shop_keyed: "channel_keyed memOps (shop_store p)"
  unfolding channel_keyed_def
proof (intro allI impI)
  fix w e0 e c
  assume n: "normalizeWorkflowEnvironment e0 = Inr e" and g: "so_GetKV memOps (shop_store p) (workflowReleaseChannelKey w e) = Some (DocChannel c)"
  have x: "workflowReleaseChannelKey ''shop'' ''prod'' = ''workflow_releases/channels/shop/prod''" "normalizeWorkflowEnvironment ''prod'' = Inr ''prod''"
    "TrimSpace ''shop'' = ''shop''" by code_simp+
  have "workflowReleaseChannelKey w e = workflowReleaseChannelKey ''shop'' ''prod'' \<and> c = shop_channel p"
    using g channel_key(1) [OF n] unfolding x(1) by (auto simp: GetKV_eq shop_store_def split: if_splits)
  with channel_key_eq [OF n x(2)] x(3) show "rc_WorkflowID c = TrimSpace w \<and> rc_Environment c = e" by (simp add: shop_channel_def newChannel_def)
qed

theorem canary_needs_passing_eval_witness:
  "\<exists>c act s' c0. FinalizeWorkflowCanaryWithEvalGate memSvc acme 9 ''ok'' ''shop'' ''prod'' (shop_store 10) = (Inr (c, act), s') \<and>
    rc_ActiveVersionID c = ''v2'' \<and> GetWorkflowReleaseChannel memOps ''shop'' ''prod'' (shop_store 10) = Some (Inr c0) \<and>
    GetWorkflowReleaseChannel memOps ''shop'' ''prod'' s' = Some (Inr c)"
proof -
  obtain c act s' where f: "FinalizeWorkflowCanaryWithEvalGate memSvc acme 9 ''ok'' ''shop'' ''prod'' (shop_store 10) = (Inr (c, act), s')"
    "rc_ActiveVersionID c = ''v2''"
    using shop_values(1) by (cases "FinalizeWorkflowCanaryWithEvalGate memSvc acme 9 ''ok'' ''shop'' ''prod'' (shop_store 10)")
      (auto simp: finalized_def split: sum.splits prod.splits)
  with canary_needs_passing_eval [OF mem.store_contract_axioms shop_inv memSvc_ops shop_keyed f(1)] show ?thesis by blast
qed

theorem rollback_undoes_promote_witness:
  "\<exists>c s d t. PromoteWorkflowRelease memSvc acme 9 ''shop'' ''prod'' ''v3'' (shop_store 10) = (Inr c, s) \<and> rc_PreviousVersionID c = ''v1'' \<and>
    RollbackWorkflowRelease memSvc acme 10 ''shop'' ''prod'' '''' s = (Inr d, t) \<and> rc_ActiveVersionID d = ''v1'' \<and> rc_PreviousVersionID d = ''v3''"
proof -
  obtain c s where p: "PromoteWorkflowRelease memSvc acme 9 ''shop'' ''prod'' ''v3'' (shop_store 10) = (Inr c, s)"
    using shop_values(2) by (auto simp: promoted_def split: sum.splits prod.splits)
  obtain d t where r: "RollbackWorkflowRelease memSvc acme 10 ''shop'' ''prod'' '''' s = (Inr d, t)"
    using shop_values(2) p by (cases "RollbackWorkflowRelease memSvc acme 10 ''shop'' ''prod'' '''' s") (auto simp: promoted_def split: sum.splits)
  have t: "rc_ActiveVersionID (shop_channel 10) = ''v1''" "TrimSpace ''v3'' = ''v3''" by code_simp+
  then have "rc_ActiveVersionID (shop_channel 10) \<noteq> ''''" "rc_ActiveVersionID (shop_channel 10) \<noteq> TrimSpace ''v3''" by simp_all
  from rollback_undoes_promote [OF mem.store_contract_axioms shop_inv memSvc_ops shop_keyed shop_values(3) this p r] p r t show ?thesis by simp
qed

theorem rollout_monotone_witness:
  "\<exists>rx. ResolveWorkflowRelease memOps ''shop'' ''prod'' ''r7'' (shop_store 100) = Inr rx \<and> rx_PrimaryVersionID rx = ''v2''"
proof -
  have c: "TrimSpace (rc_CanaryVersionID (shop_channel 10)) \<noteq> ''''" "shop_channel 100 = (shop_channel 10)\<lparr>rc_CanaryPercent := 100\<rparr>"
    "rc_CanaryPercent (shop_channel 10) \<le> 100" "rc_CanaryVersionID (shop_channel 10) = ''v2''" by code_simp+
  from rollout_monotone [OF shop_values(3) c(1) shop_values(4) [unfolded c(2)] c(3), of "''r7''"] c(4) show ?thesis by auto
qed

end
