(* ===== verification/Spec2Isabelle.thy ===== *)
theory Spec2Isabelle
  imports LagTracker ConsumerRunner SeqRunner AgentState Releases
begin

text \<open>
  DriftQ-Core: a message broker with a write-ahead log, and a workflow engine beside it.

  \<^bold>\<open>The program.\<close>  The broker (\<^verbatim>\<open>internal/broker\<close>) keeps topics as partitioned logs, leases messages to
  consumer groups, redelivers what is not acknowledged, moves poison messages to dead-letter topics
  and keeps idempotency records; every change that must survive goes through the log of
  \<^verbatim>\<open>internal/storage/wal.go\<close> and is replayed at start.  The engine (\<^verbatim>\<open>internal/engine\<close>) runs workflow graphs:
  a scheduler starts nodes whose predecessors are done, under caps, budgets, timers and human
  approvals, and records runs, node executions, events and timers in a store, in memory or on a log
  file of its own.  Before a run starts it is authorized, assessed for risk and counted against the
  tenant's quota; a node that names a tool goes through the tool gateway, which checks policies and
  schemas, picks a route, runs the handler, stages side effects and writes a redacted log.

  \<^bold>\<open>Conventions.\<close>  A struct is a record, a Go map an association list with unique keys (\<open>gomap\<close>: \<open>mget\<close>,
  \<open>mput\<close>, \<open>mdel\<close> of theory \<open>Prelude\<close>), a pointer that may be nil an option, an error a value.  State is passed
  explicitly; a method that holds a mutex is one step, so an execution is a list of steps in any
  order (\<open>run_ops\<close>).  Time, random identifiers, the order in which goroutines report, whether a write or
  an fsync fails, and the behaviour of handlers and clients are inputs, so a theorem covers all of
  them.  Where Go visits a map in no particular order, the model takes the order of the list and
  the theorems do not depend on it.  Integers are mathematical except where wrap-around matters
  (hashes are 32-bit words, durations of the backoff are bounded by a premise); \<open>float64\<close> amounts are
  rationals.  JSON is a datatype with a constructor for text that does not parse.

  \<^bold>\<open>Broker.\<close>
  \<^item> \<open>Storage\<close>: log records and \<open>FileWAL\<close> with its buffer, the disk and its failures.
  \<^item> \<open>BrokerTypes\<close>, \<open>BrokerHelper\<close>: messages, options, partition hash, backoff, retry policy
    (\<^verbatim>\<open>types.go\<close>, \<^verbatim>\<open>broker.go\<close>).
  \<^item> \<open>Idempotency\<close>: \<^verbatim>\<open>idempotency.go\<close>, both scopes, leases and expiry.
  \<^item> \<open>BrokerState\<close>, \<open>Dispatch\<close>, \<open>BrokerOps\<close>, \<open>Redelivery\<close>: the broker's maps and every operation of \<^verbatim>\<open>broker.go\<close>,
    \<^verbatim>\<open>dispatch.go\<close>, \<^verbatim>\<open>redelivery.go\<close>, \<^verbatim>\<open>dlq.go\<close>.  \<open>WalReplay\<close>: \<^verbatim>\<open>wal_replay.go\<close>.
  \<^item> \<open>BrokerSteps\<close> makes the operations one step function and proves the invariant \<open>binv\<close>;
    \<open>BrokerContracts\<close> has what each operation promises; \<open>BrokerRefine\<close> shows that a replayed log rebuilds
    the broker, \<open>Durability\<close> that the log on disk is always ahead of what callers were told.
  \<^item> \<open>BrokerQueries\<close> (lag, message states, snapshots), \<open>LagTracker\<close>, \<open>ConsumerRunner\<close> (\<^verbatim>\<open>consumer_runner.go\<close>, the
    handling loop against the broker's contract, stated as a locale).

  \<^bold>\<open>Engine core.\<close>
  \<^item> \<open>EngineTypes\<close>, \<open>EngineDocs\<close>, \<open>EngineKV\<close>: runs, events, timers, budgets, the documents kept under keys
    (\<^verbatim>\<open>types.go\<close>, \<^verbatim>\<open>budget.go\<close>, \<^verbatim>\<open>evals.go\<close>: \<open>putJSONKV\<close> and its kin).
  \<^item> \<open>EngineStore\<close> (\<^verbatim>\<open>memstore.go\<close>) and \<open>FileStore\<close> (\<^verbatim>\<open>store_file.go\<close>).  The locale \<open>store_contract\<close> is the \<open>Store\<close>
    interface with its laws; both stores are interpretations, \<open>reliable_store\<close> adds that valid calls do
    not fail.  All clients below are proved once, from the contract.
  \<^item> \<open>WorkflowDag\<close>: graphs, cycle detection, topological order, specifications and their compilation
    (\<^verbatim>\<open>dag.go\<close>, \<^verbatim>\<open>spec*.go\<close>, \<^verbatim>\<open>registry.go\<close>).  \<open>Throttle\<close>: caps and rate limits.
  \<^item> \<open>DagRunner\<close>: \<open>runDAGWithCache\<close> of \<^verbatim>\<open>runner_dag.go\<close>, from entry to return.  One turn of its loop schedules what
    is ready and consumes one message of a channel; \<open>runDAGWithCache\<close> takes the list of messages the
    channels deliver, and \<open>None\<close> means that the list ran out while the loop was still going.
    \<open>DagSafety\<close> has the loop's invariant, \<open>DagOutcome\<close> what holds at the end; \<open>dag_run_ends\<close> shows that one message
    per node is enough, so the theorems are not about runs that never return.
  \<^item> \<open>SeqRunner\<close>: \<open>RunWorkflow\<close> of \<^verbatim>\<open>runner.go\<close>.  \<open>RunControl\<close>: cancelling, timers, resuming, replay
    (\<^verbatim>\<open>cancel.go\<close>, \<^verbatim>\<open>timers_loop.go\<close>, \<^verbatim>\<open>timer_resume.go\<close>, \<^verbatim>\<open>replay*.go\<close>, \<^verbatim>\<open>runner_spec.go\<close>).

  \<^bold>\<open>Engine policies.\<close>
  \<^item> \<open>Patterns\<close>, \<open>Authz\<close> (\<^verbatim>\<open>authz.go\<close>), \<open>Governance\<close> (\<^verbatim>\<open>governance.go\<close>: audit trail, tenants, quotas, access),
    \<open>Risk\<close> (\<^verbatim>\<open>risk.go\<close>), \<open>Human\<close> and \<open>HumanSafety\<close> (\<^verbatim>\<open>human.go\<close>, with the locale \<open>human_service\<close>).
  \<^item> \<open>Gates\<close> puts them together with the scheduler: the engine's state is the runner's memory and the
    store, and \<open>startRun\<close> is the start of a run with every check of the code.
  \<^item> \<open>ToolSchema\<close>, \<open>ToolGateway\<close>, \<open>Routing\<close>, \<open>SideEffects\<close>, \<open>ToolCalls\<close>: \<^verbatim>\<open>tool_gateway.go\<close>, \<^verbatim>\<open>brain.go\<close>, \<^verbatim>\<open>side_effects.go\<close>.
  \<^item> \<open>AgentState\<close> (\<^verbatim>\<open>agent_state.go\<close>: versioned state of agents), \<open>Evals\<close> (\<^verbatim>\<open>evals.go\<close>, \<^verbatim>\<open>index_meta.go\<close>: suites, reports, the
    active index version), \<open>Releases\<close> (\<^verbatim>\<open>workflow_releases.go\<close>: versions, channels, canaries).  They keep documents
    through \<open>EngineKV\<close>; \<open>RunEvalSuite\<close> and \<open>RunWorkflowRelease\<close> take the runner as a parameter.

  \<^bold>\<open>What is shown.\<close>  Durability (this theory, \<open>Durability\<close>, \<open>FileStore\<close>): nothing acknowledged is lost by a power
  failure, positions never move ahead, exactly-once records survive, a reopened engine store equals
  the closed one and refines the one in memory.  Delivery (\<open>BrokerContracts\<close>, this theory): offsets are
  gapless, leases and limits hold, no message is skipped or dropped, only owners acknowledge.
  Scheduling (\<open>DagOutcome\<close>, \<open>RunControl\<close>, \<open>SeqRunner\<close>): nodes run after their predecessors and within the
  caps, success means every node succeeded while the caller's context lasts, the loop ends, a
  replay redoes exactly the right nodes, timers fire when due.  Governance (\<open>Gates\<close>, \<open>HumanSafety\<close>, \<open>Authz\<close>,
  \<open>ToolCalls\<close>, \<open>SideEffects\<close>): no run, tool or staged effect passes a check that refuses it, decisions are
  final, effects are committed once, logs are redacted, schema validation and authorization decide
  exactly what their specifications say.  Release control (\<open>AgentState\<close>, \<open>Evals\<close>, \<open>Releases\<close>): every write of an
  agent's state is read back under the next version and touches nothing else, a replay keeps reading
  the past, reports count what was run, a version becomes active only on a passing report, rollback
  undoes promotion, a rollout only grows with its percent.

  \<^bold>\<open>Not modelled.\<close>  HTTP handlers of broker and engine, the daemon and the command line client: decoding
  and formatting around the operations above.  Metrics, traces and logs.  Forensics, self-healing,
  replay branches, agent memory and the multi-agent layer: each keeps documents of its own and is
  independent of the core.  The text of JSON, time zones, the rounding of \<open>float64\<close>,
  data races outside mutexes (an operation is one step), and Go's runtime (stack, memory).
\<close>

section \<open>Durability\<close>


text \<open>C2. Clean shutdown keeps the positions too: when \<open>Close\<close> reports success, the new process also
  has every group's committed offset exactly where it was.\<close>

theorem clean_shutdown:
  assumes "wal_sound w" "wal_file w = []" "list_all op_ok xs"
    and "b = run_ops (broker_step router) (NewInMemoryBrokerWithOptions (Some w) opts) xs"
    and "Close now flusher b = (None, b2)"
    and "wal b2 = Some w1" "list_all (\<lambda>e. jl e < 10 * 1024 * 1024) (log_entries b2)"
  shows "\<exists>b1. NewInMemoryBrokerFromWAL jl now'
        (Some (OpenFileWALWithOptions (survives_power_loss w1) si now' script)) opts' = Inr b1
    \<and> (\<forall>t p. part_log b1 t p = map persistMsg (part_log b t p))
    \<and> (\<forall>t g p. committed b1 t g p = committed b t g p)"
proof -
  have d: "durable b" and low: "pending_low b" using durable_run [OF assms(1-3)] assms(4) by auto
  have d2: "durable b2" "pendingOffsets b2 = []"
    and same: "part_log b2 t p = part_log b t p" "committed b2 t g p = committed b t g p" for t g p
    using Close_durable [OF d low assms(5)] by auto
  obtain b0 where "NewInMemoryBrokerFromWAL jl now'
        (Some (OpenFileWALWithOptions (survives_power_loss w1) si now' script)) opts' = Inr (purgeAcked b0)"
    "recovers b2 b0"
    using restart_ok [OF d2(1) assms(6,7) refl] by metis
  then show ?thesis
    by (intro exI [of _ "purgeAcked b0"])
      (auto simp: purgeAcked_frame recovers_def rec_logs_def rec_offsets_def same d2(2))
qed


definition restart_example :: broker where
  "restart_example = run_ops (broker_step None) (NewInMemoryBrokerWithOptions (Some example_wal) [])
     [OpCreateTopic (90 * minute) ''orders'' 1 \<lparr>tc_Mode = ''''\<rparr>, OpProduce example_env ''orders'' keyed_msg,
      OpConsumeWithLease example_env ''orders'' ''g'' ''w1'' (30 * second),
      OpAckIfOwner example_env ''orders'' ''g'' 0 0 ''w1'']"

lemma restart_example_eval:
  "wal restart_example \<noteq> None" "length (part_log restart_example ''orders'' 0) = 1"
  "committed restart_example ''orders'' ''g'' 0 = 0"
  "fst (Close (101 * minute) True restart_example) = None"
  "wal (snd (Close (101 * minute) True restart_example)) \<noteq> None"
  "cw (idem restart_example) (consumeKey '''' ''orders'' ''g'' ''k1'') []"
  by code_simp+

lemma example_wal_sound: "wal_sound example_wal" "wal_file example_wal = []"
  by (simp_all add: example_wal_def OpenFileWALWithOptions_def wal_sound_def)


theorem clean_shutdown_witness:
  "\<exists>b1. NewInMemoryBrokerFromWAL (\<lambda>_. 100) (200 * minute) (Some (OpenFileWALWithOptions
        (survives_power_loss (the (wal (snd (Close (101 * minute) True restart_example))))) 0 (200 * minute) [])) [] = Inr b1
    \<and> committed b1 ''orders'' ''g'' 0 = 0"
proof -
  obtain b2 where b2: "Close (101 * minute) True restart_example = (None, b2)"
    using restart_example_eval(4) by (metis prod.collapse)
  obtain w1 where w1: "wal b2 = Some w1" using restart_example_eval(5) b2 by auto
  obtain b1 where "NewInMemoryBrokerFromWAL (\<lambda>_. 100) (200 * minute)
      (Some (OpenFileWALWithOptions (survives_power_loss w1) 0 (200 * minute) [])) [] = Inr b1"
    "committed b1 ''orders'' ''g'' 0 = committed restart_example ''orders'' ''g'' 0"
    using clean_shutdown [OF example_wal_sound _ restart_example_def b2 w1,
        of "\<lambda>_. 100" "200 * minute" 0 "[]" "[]"]
    by (auto simp: list_all_iff)
  then show ?thesis using w1 b2 restart_example_eval(3) by simp
qed


section \<open>Invariants of every reachable state\<close>

text \<open>C4. Partition logs are well formed in every reachable state: in each partition of each topic the
  message at position \<open>i\<close> carries offset \<open>i\<close> and its own partition number, and the running byte
  totals kept beside the log are those of the messages.\<close>

theorem log_well_formed:
  assumes "list_all op_ok xs"
    and "b = run_ops (broker_step router) (NewInMemoryBrokerWithOptions w opts) xs"
    and "mget (topics b) t = Some ts" "p < length (ts_partitions ts)"
  shows "ts_byteSums ts ! p = prefix_sums (ts_partitions ts ! p)
    \<and> map msg_Offset (ts_partitions ts ! p) = map int [0..<length (ts_partitions ts ! p)]
    \<and> (\<forall>m \<in> set (ts_partitions ts ! p). msg_Partition m = int p)"
proof -
  have "binv b" using binv_run(1) [OF assms(1) binv_init] assms(2) by simp
  then have "ts_wf ts" using assms(3) by (simp add: binv_def inv_topics_def)
  with assms(4) show ?thesis
    by (auto simp: ts_wf_def in_set_conv_nth intro: nth_equalityI)
qed

text \<open>C5. In-flight bookkeeping is sound in every reachable state: a group never has more than
  \<open>MaxInFlight\<close> messages of a partition in flight (when the limit is enabled), and each in-flight
  entry is, up to attempt count and last error, the message at its offset of that partition's log,
  delivered at least once.\<close>

theorem in_flight_sound:
  assumes "list_all op_ok xs"
    and "b = run_ops (broker_step router) (NewInMemoryBrokerWithOptions w opts) xs"
  shows "(maxInFlight b \<le> 0 \<or> int (length (inflight_of b t g p)) \<le> maxInFlight b)
    \<and> (\<forall>off e. mget (inflight_of b t g p) off = Some e \<longrightarrow>
         0 \<le> off \<and> off < int (length (part_log b t p))
         \<and> stripMsg (ie_Msg e) = stripMsg (part_log b t p ! nat off) \<and> 1 \<le> ie_Attempts e)"
proof -
  have inv: "inv_inflight b" using binv_run(1) [OF assms(1) binv_init] assms(2) by (simp add: binv_def)
  then have "maxInFlight b \<le> 0 \<or> int (length (inflight_of b t g p)) \<le> maxInFlight b"
    unfolding inv_inflight_def by (meson not_le)
  moreover have "entry_ok b t g p off e" if "mget (inflight_of b t g p) off = Some e" for off e
    using inv that by (simp add: inv_inflight_def)
  ultimately show ?thesis by (simp add: entry_ok_def)
qed

text \<open>C8. No message is skipped: in every reachable state, each message below a group's dispatch
  position in a partition is either covered by the group's committed offset or still in flight
  for the group.\<close>

theorem no_message_skipped:
  assumes "list_all op_ok xs"
    and "b = run_ops (broker_step router) (NewInMemoryBrokerWithOptions w opts) xs"
    and "mget3 (nextIndex b) t g p = Some n" "i < n"
  shows "i < length (part_log b t p)
    \<and> (int i \<le> committed b t g p \<or> mget (inflight_of b t g p) (int i) \<noteq> None)"
proof -
  have "inv_next b" using binv_run(1) [OF assms(1) binv_init] assms(2) by (simp add: binv_def)
  then have "n \<le> length (part_log b t p)
      \<and> (\<forall>i < n. int i \<le> committed b t g p \<or> mget (inflight_of b t g p) (int i) \<noteq> None)"
    using assms(3) unfolding inv_next_def by blast
  with assms(4) show ?thesis by auto
qed

text \<open>History only grows: along every run, each partition log is extended at its end and never
  rewritten, and no group's committed offset ever goes back.\<close>

theorem history_grows:
  assumes "list_all op_ok xs" "list_all op_ok ys"
    and "b = run_ops (broker_step router) (NewInMemoryBrokerWithOptions w opts) xs"
  shows "prefix (part_log b t p) (part_log (run_ops (broker_step router) b ys) t p)
    \<and> committed b t g p \<le> committed (run_ops (broker_step router) b ys) t g p"
proof -
  have "binv b" using binv_run(1) [OF assms(1) binv_init] assms(3) by simp
  from bsteps_bmono [OF binv_run(2) [OF assms(2) this]] show ?thesis by (simp add: bmono_def)
qed

text \<open>The broker never sends on a closed channel, and no channel serves two consumers: in every
  reachable state the channel of each registered consumer is open with at most 1024 messages
  queued, and two registrations with the same channel are the same registration.\<close>

theorem channels_safe:
  assumes "list_all op_ok xs"
    and "b = run_ops (broker_step router) (NewInMemoryBrokerWithOptions w opts) xs"
    and "i < length (streams_of b t g)"
  shows "(\<exists>c. mget (chans b) (cs_Ch (streams_of b t g ! i)) = Some c \<and> \<not> ch_closed c
        \<and> length (ch_buf c) \<le> chanCap)
    \<and> (\<forall>t' g' j. j < length (streams_of b t' g') \<and> cs_Ch (streams_of b t' g' ! j) = cs_Ch (streams_of b t g ! i)
         \<longrightarrow> t' = t \<and> g' = g \<and> j = i)"
proof -
  have s: "inv_streams b" using binv_run(1) [OF assms(1) binv_init] assms(2) by (simp add: binv_def)
  let ?st = "streams_of b t g ! i"
  have st: "?st \<in> set (streams_of b t g)" using assms(3) by simp
  obtain c where c: "mget (chans b) (cs_Ch ?st) = Some c" "\<not> ch_closed c"
    using inv_streamsD [OF s st] by blast
  then have "length (ch_buf c) \<le> chanCap" using s by (simp add: inv_streams_def)
  moreover have "t' = t \<and> g' = g \<and> j = i"
    if j: "j < length (streams_of b t' g')" "cs_Ch (streams_of b t' g' ! j) = cs_Ch ?st" for t' g' j
  proof -
    have tg: "t' = t \<and> g' = g" by (rule inv_streams_unique [OF s nth_mem [OF j(1)] st j(2)])
    have "distinct (map cs_Ch (streams_of b t g))" using s by (simp add: inv_streams_def)
    then show ?thesis using tg j assms(3) by (simp add: distinct_conv_nth) metis
  qed
  ultimately show ?thesis using c by blast
qed

definition system_example :: "broker_op list" where
  "system_example =
     [OpCreateTopic (90 * minute) ''orders'' 2 \<lparr>tc_Mode = ''''\<rparr>, OpProduce example_env ''orders'' example_msg,
      OpConsumeWithLease example_env ''orders'' ''g'' ''w1'' (30 * second)]"

definition system_state :: broker where
  "system_state = run_ops (broker_step None) (NewInMemoryBrokerWithOptions None [WithMaxInFlight 1]) system_example"

lemma system_example_ok: "list_all op_ok system_example"
  by (simp add: system_example_def)

lemma system_state_eval:
  "map_option (\<lambda>ts. length (ts_partitions ts)) (mget (topics system_state) ''orders'') = Some 2"
  "mget3 (nextIndex system_state) ''orders'' ''g'' 0 = Some 1"
  "length (streams_of system_state ''orders'' ''g'') = 1" "maxInFlight system_state = 1"
  "committed system_state ''orders'' ''g'' 0 = -1"
  by code_simp+

theorem log_well_formed_witness:
  "\<exists>ts. mget (topics system_state) ''orders'' = Some ts
    \<and> map msg_Offset (ts_partitions ts ! 0) = map int [0..<length (ts_partitions ts ! 0)]"
proof -
  obtain ts where "mget (topics system_state) ''orders'' = Some ts" "length (ts_partitions ts) = 2"
    using system_state_eval(1) by auto
  then have ts: "mget (topics system_state) ''orders'' = Some ts" "0 < length (ts_partitions ts)" by simp_all
  from log_well_formed [OF system_example_ok system_state_def ts] ts show ?thesis by auto
qed

theorem in_flight_sound_witness: "length (inflight_of system_state ''orders'' ''g'' 0) \<le> 1"
  using in_flight_sound [OF system_example_ok system_state_def, of "''orders''" "''g''" 0]
  by (auto simp: system_state_eval)

theorem no_message_skipped_witness:
  "mget (inflight_of system_state ''orders'' ''g'' 0) 0 \<noteq> None"
  using no_message_skipped [OF system_example_ok system_state_def system_state_eval(2), of 0]
  by (simp add: system_state_eval(5))

theorem history_grows_witness:
  "prefix (part_log system_state ''orders'' 0)
     (part_log (run_ops (broker_step None) system_state [OpProduce example_env ''orders'' example_msg]) ''orders'' 0)"
  by (rule conjunct1 [OF history_grows [OF system_example_ok _ system_state_def]]) simp

theorem channels_safe_witness:
  "\<exists>c. mget (chans system_state) (cs_Ch (streams_of system_state ''orders'' ''g'' ! 0)) = Some c \<and> \<not> ch_closed c"
  using channels_safe [OF system_example_ok system_state_def, of 0 "''orders''" "''g''"]
  by (auto simp: system_state_eval)

end
